(* ===== verification/Go_Prelude.thy ===== *)
theory Go_Prelude
  imports Main "HOL-Library.Sublist" "HOL-Library.Code_Target_Nat" "HOL-Library.Multiset"
begin

text \<open>
  What the components share: the pieces of the Go language and of its standard library that the
  modelled code uses (64-bit integers, byte strings, \<open>strings\<close>, \<open>strconv\<close> and \<open>fmt\<close>), the result
  types, and the generic lemmas on lists and strings that the component proofs rest on.

  A Go string is a sequence of bytes, so it is a HOL \<^typ>\<open>string\<close> (a list of 8-bit characters).
  A Go \<open>int\<close> is an \<^typ>\<open>int\<close> in the range of 64 bits; where an operation can leave the range the
  wrap-around is written out with \<open>wrap64\<close>. A function that can fail returns a sum, \<open>Inl\<close> the error.
  A function whose loop may run forever returns an option of that sum, \<open>None\<close> for not returning.
\<close>

named_theorems go_text \<open>rewriting of the string functions of the Go library\<close>
named_theorems go_bind \<open>unfolding and splitting of the result combinators\<close>

section \<open>Results\<close>

type_synonym ('e, 'a) outcome = "('e + 'a) option"

definition obind :: "('e, 'a) outcome \<Rightarrow> ('a \<Rightarrow> ('e, 'b) outcome) \<Rightarrow> ('e, 'b) outcome" where
  "obind m f =
     (case m of None \<Rightarrow> None | Some (Inl e) \<Rightarrow> Some (Inl e) | Some (Inr a) \<Rightarrow> f a)"

definition sbind :: "'e + 'a \<Rightarrow> ('a \<Rightarrow> 'e + 'b) \<Rightarrow> 'e + 'b" where
  "sbind m f = (case m of Inl e \<Rightarrow> Inl e | Inr a \<Rightarrow> f a)"

lemma obind_simps [simp, go_bind]:
  "obind None f = None"
  "obind (Some (Inl e)) f = Some (Inl e)"
  "obind (Some (Inr a)) f = f a"
  by (simp_all add: obind_def)

lemma sbind_simps [simp, go_bind]:
  "sbind (Inl e) f = Inl e"
  "sbind (Inr a) f = f a"
  by (simp_all add: sbind_def)

lemma obind_eq_InrE:
  assumes "obind m f = Some (Inr b)"
  obtains a where "m = Some (Inr a)" and "f a = Some (Inr b)"
  using assms by (auto simp: obind_def split: option.splits sum.splits)

lemma sbind_eq_InrE:
  assumes "sbind m f = Inr b"
  obtains a where "m = Inr a" and "f a = Inr b"
  using assms by (auto simp: sbind_def split: sum.splits)

lemma sbind_eq_Inr_iff [go_bind]:
  "sbind m f = Inr b \<longleftrightarrow> (\<exists>a. m = Inr a \<and> f a = Inr b)"
  by (auto simp: sbind_def split: sum.splits)

text \<open>Wrapping the error of a call.\<close>

definition map_err :: "('e \<Rightarrow> 'f) \<Rightarrow> 'e + 'a \<Rightarrow> 'f + 'a" where
  "map_err w m = (case m of Inl e \<Rightarrow> Inl (w e) | Inr a \<Rightarrow> Inr a)"

lemma map_err_simps [simp, go_bind]:
  "map_err w (Inl e) = Inl (w e)" "map_err w (Inr a) = Inr a"
  "map_err w m = Inr a \<longleftrightarrow> m = Inr a"
  by (simp_all add: map_err_def split: sum.splits)

lemma map_err_eq_Inl [go_bind]: "map_err w m = Inl f \<longleftrightarrow> (\<exists>e. m = Inl e \<and> f = w e)"
  by (auto simp: map_err_def split: sum.splits)

section \<open>64-bit integers\<close>

definition max_int64 :: int where
  "max_int64 = 9223372036854775807"

definition min_int64 :: int where
  "min_int64 = -9223372036854775808"

definition int64 :: "int \<Rightarrow> bool" where
  "int64 i \<longleftrightarrow> min_int64 \<le> i \<and> i \<le> max_int64"

text \<open>The value of a Go \<open>int\<close> expression whose mathematical value is \<open>i\<close>.\<close>

definition wrap64 :: "int \<Rightarrow> int" where
  "wrap64 i = (i + 9223372036854775808) mod 18446744073709551616 - 9223372036854775808"

lemma wrap64_id [simp]: "int64 i \<Longrightarrow> wrap64 i = i"
  by (simp add: wrap64_def int64_def min_int64_def max_int64_def)

lemma int64_wrap64 [simp]: "int64 (wrap64 i)"
proof -
  have "0 \<le> (i + 9223372036854775808) mod 18446744073709551616" by simp
  moreover have "(i + 9223372036854775808) mod 18446744073709551616 < 18446744073709551616"
    by (rule pos_mod_bound) simp
  ultimately show ?thesis by (simp add: int64_def wrap64_def min_int64_def max_int64_def)
qed

lemma wrap64_Suc_max: "wrap64 (max_int64 + 1) = min_int64"
  by (simp add: wrap64_def max_int64_def min_int64_def)

section \<open>Decimal numbers\<close>

definition is_digit :: "char \<Rightarrow> bool" where
  "is_digit c \<longleftrightarrow> 48 \<le> (of_char c :: nat) \<and> (of_char c :: nat) \<le> 57"

definition digit_val :: "char \<Rightarrow> nat" where
  "digit_val c = of_char c - 48"

definition digit_char :: "nat \<Rightarrow> char" where
  "digit_char d = char_of (48 + d)"

lemma of_char_digit_char: "d < 10 \<Longrightarrow> of_char (digit_char d) = 48 + d"
  by (simp add: digit_char_def)

lemma digit_val_char [simp]: "d < 10 \<Longrightarrow> digit_val (digit_char d) = d"
  by (simp add: digit_val_def of_char_digit_char)

lemma is_digit_char [simp]: "d < 10 \<Longrightarrow> is_digit (digit_char d)"
  by (simp add: is_digit_def of_char_digit_char)

lemma digit_char_val [simp]: "is_digit c \<Longrightarrow> digit_char (digit_val c) = c"
  by (simp add: is_digit_def digit_val_def digit_char_def)

lemma digit_val_less [simp]: "is_digit c \<Longrightarrow> digit_val c < 10"
  by (auto simp: is_digit_def digit_val_def)

fun dec_nat :: "nat \<Rightarrow> string" where
  "dec_nat n = (if n < 10 then [digit_char n] else dec_nat (n div 10) @ [digit_char (n mod 10)])"

declare dec_nat.simps [simp del]

definition dec_int :: "int \<Rightarrow> string" where
  "dec_int i = (if i < 0 then CHR ''-'' # dec_nat (nat (- i)) else dec_nat (nat i))"

definition digits_val :: "string \<Rightarrow> nat" where
  "digits_val s = foldl (\<lambda>a c. 10 * a + digit_val c) 0 s"

lemma digits_val_Nil [simp]: "digits_val [] = 0"
  by (simp add: digits_val_def)

lemma digits_val_snoc [simp]: "digits_val (s @ [c]) = 10 * digits_val s + digit_val c"
  by (simp add: digits_val_def)

lemma digits_val_bound: "list_all is_digit s \<Longrightarrow> digits_val s < 10 ^ length s"
proof (induction s rule: rev_induct)
  case Nil
  then show ?case by simp
next
  case (snoc c s)
  then have "digits_val s < 10 ^ length s" and "digit_val c < 10"
    by simp_all
  then show ?case by simp
qed

lemma dec_nat_digits: "list_all is_digit (dec_nat n)"
proof (induction n rule: dec_nat.induct)
  case (1 n)
  then show ?case by (subst dec_nat.simps) simp
qed

lemma dec_nat_nonempty [simp]: "dec_nat n \<noteq> []"
  by (subst dec_nat.simps) simp

lemma digits_val_dec_nat [simp]: "digits_val (dec_nat n) = n"
proof (induction n rule: dec_nat.induct)
  case (1 n)
  show ?case
  proof (cases "n < 10")
    case True
    then show ?thesis by (subst dec_nat.simps) (simp add: digits_val_def)
  next
    case False
    with "1" have "digits_val (dec_nat (n div 10)) = n div 10" by simp
    with False show ?thesis by (subst dec_nat.simps) simp
  qed
qed

text \<open>
  \<open>strconv.Atoi\<close>: an optional sign, then at least one digit and nothing else; an error (\<open>None\<close>) also
  when the value does not fit an \<open>int\<close>.
\<close>

definition atoi :: "string \<Rightarrow> int option" where
  "atoi s =
     (let (neg, ds) =
        (case s of [] \<Rightarrow> (False, [])
         | c # r \<Rightarrow> if c = CHR ''-'' then (True, r) else if c = CHR ''+'' then (False, r) else (False, s))
      in if ds = [] \<or> \<not> list_all is_digit ds then None
         else let v = (if neg then - int (digits_val ds) else int (digits_val ds))
              in if int64 v then Some v else None)"

lemma is_digit_not_sign: "is_digit c \<Longrightarrow> c \<noteq> CHR ''-'' \<and> c \<noteq> CHR ''+''"
  by (auto simp: is_digit_def)

lemma atoi_digits:
  assumes "list_all is_digit s" and "s \<noteq> []"
  shows "atoi s = (if int (digits_val s) \<le> max_int64 then Some (int (digits_val s)) else None)"
proof -
  obtain c r where s: "s = c # r" using assms(2) by (cases s) auto
  with assms(1) have "c \<noteq> CHR ''-''" "c \<noteq> CHR ''+''" by (auto dest: is_digit_not_sign)
  then show ?thesis
    using assms by (simp add: atoi_def s int64_def min_int64_def)
qed

lemma atoi_int64: "atoi s = Some v \<Longrightarrow> int64 v"
  by (auto simp: atoi_def Let_def split: list.splits if_splits prod.splits)

text \<open>
  \<open>fmt.Sprintf("%0*d", w, i)\<close>: the sign, then zeros up to the width \<open>w\<close>, then the digits. \<open>fmt\<close>
  refuses a width above a million and prints its bad-width marker and the unpadded number.
\<close>

definition fmt_width_max :: nat where
  "fmt_width_max = 1000000"

definition sprintf_0d :: "nat \<Rightarrow> int \<Rightarrow> string" where
  "sprintf_0d w i =
     (if w > fmt_width_max then ''%!(BADWIDTH)'' @ dec_int i
      else if i < 0 then
        (let ds = dec_nat (nat (- i)) in CHR ''-'' # replicate (w - 1 - length ds) CHR ''0'' @ ds)
      else (let ds = dec_nat (nat i) in replicate (w - length ds) CHR ''0'' @ ds))"

text \<open>A digit string is its value, zero-padded to its own length.\<close>

lemma digit_char_0: "digit_char 0 = CHR ''0''"
proof -
  have "of_char (digit_char 0) = (of_char CHR ''0'' :: nat)"
    by (simp add: of_char_digit_char)
  then show ?thesis by (simp only: of_char_eq_iff)
qed

lemma digit_val_0: "is_digit c \<Longrightarrow> digit_val c = 0 \<Longrightarrow> c = CHR ''0''"
  by (metis digit_char_0 digit_char_val)

lemma pad_digits_val:
  assumes "list_all is_digit s" and "s \<noteq> []"
  shows "length (dec_nat (digits_val s)) \<le> length s \<and>
    replicate (length s - length (dec_nat (digits_val s))) CHR ''0'' @ dec_nat (digits_val s) = s"
  using assms
proof (induction s rule: rev_induct)
  case Nil
  then show ?case by simp
next
  case (snoc c s)
  then have c: "is_digit c" and ds: "list_all is_digit s" by simp_all
  have unfold: "dec_nat (10 * digits_val s + digit_val c) =
      (if digits_val s = 0 then [c] else dec_nat (digits_val s) @ [c])"
  proof (cases "digits_val s = 0")
    case True
    with c show ?thesis by (subst dec_nat.simps) simp
  next
    case False
    with c have "\<not> 10 * digits_val s + digit_val c < 10"
      and "(10 * digits_val s + digit_val c) div 10 = digits_val s"
      and "(10 * digits_val s + digit_val c) mod 10 = digit_val c" by simp_all
    with False c show ?thesis by (subst dec_nat.simps) simp
  qed
  show ?case
  proof (cases "s = []")
    case True
    then show ?thesis using unfold c by (simp add: digits_val_def)
  next
    case False
    with snoc.IH ds have len: "length (dec_nat (digits_val s)) \<le> length s"
      and pad: "replicate (length s - length (dec_nat (digits_val s))) CHR ''0'' @ dec_nat (digits_val s) = s"
      by simp_all
    show ?thesis
    proof (cases "digits_val s = 0")
      case True
      have zero: "dec_nat 0 = [CHR ''0'']" by (subst dec_nat.simps) (simp add: digit_char_0)
      from pad True zero have "s = replicate (length s - 1) CHR ''0'' @ [CHR ''0'']" by simp
      also have "\<dots> = replicate (length s) CHR ''0''"
        using False by (metis Suc_pred' length_greater_0_conv replicate_Suc replicate_append_same)
      finally have "s = replicate (length s) CHR ''0''" .
      with True unfold show ?thesis by simp
    next
      case nz: False
      from len pad show ?thesis by (simp add: unfold nz)
    qed
  qed
qed

lemma sprintf_0d_digits [go_text]:
  assumes "list_all is_digit s" and "s \<noteq> []" and "length s \<le> fmt_width_max"
  shows "sprintf_0d (length s) (int (digits_val s)) = s"
  using pad_digits_val [OF assms(1,2)] assms(3) by (simp add: sprintf_0d_def Let_def)

lemma sprintf_0d_nat_digits:
  assumes "w \<le> fmt_width_max" and "0 \<le> i"
  shows "list_all is_digit (sprintf_0d w i) \<and> sprintf_0d w i \<noteq> [] \<and>
    digits_val (sprintf_0d w i) = nat i \<and> w \<le> length (sprintf_0d w i)"
proof -
  have zeros: "digits_val (replicate n CHR ''0'' @ s) = digits_val s" for n s
  proof (induction n)
    case 0
    then show ?case by simp
  next
    case (Suc n)
    have "digit_val CHR ''0'' = 0" by (simp add: digit_val_def)
    then have "digits_val (CHR ''0'' # t) = digits_val t" for t
      by (simp add: digits_val_def)
    with Suc show ?case by simp
  qed
  have dz: "is_digit CHR ''0''" by (simp add: is_digit_def)
  show ?thesis
    using assms dz dec_nat_digits [of "nat i"]
    by (auto simp: sprintf_0d_def Let_def zeros list_all_iff)
qed

section \<open>Byte strings\<close>

text \<open>\<open>strings.IndexByte\<close>.\<close>

fun index_byte :: "string \<Rightarrow> char \<Rightarrow> nat option" where
  "index_byte [] c = None"
| "index_byte (x # xs) c = (if x = c then Some 0 else map_option Suc (index_byte xs c))"

lemma index_byte_None [simp]: "index_byte s c = None \<longleftrightarrow> c \<notin> set s"
  by (induction s) auto

lemma index_byte_append [simp]: "c \<notin> set p \<Longrightarrow> index_byte (p @ c # s) c = Some (length p)"
  by (induction p) auto

lemma index_byte_Some:
  "index_byte s c = Some i \<Longrightarrow> i < length s \<and> s ! i = c \<and> c \<notin> set (take i s)"
  by (induction s arbitrary: i) (auto split: if_splits)

text \<open>\<open>strings.Split\<close> at a one-byte separator, and \<open>strings.Join\<close>.\<close>

fun split_on :: "char \<Rightarrow> string \<Rightarrow> string list" where
  "split_on c [] = [[]]"
| "split_on c (x # xs) =
     (if x = c then [] # split_on c xs
      else (case split_on c xs of [] \<Rightarrow> [[x]] | w # ws \<Rightarrow> (x # w) # ws))"

fun join :: "string \<Rightarrow> string list \<Rightarrow> string" where
  "join sep [] = []"
| "join sep [x] = x"
| "join sep (x # y # ys) = x @ sep @ join sep (y # ys)"

lemma split_on_nonempty [simp]: "split_on c s \<noteq> []"
  by (induction s) (auto split: list.splits)

lemma split_on_no_sep [simp]: "c \<notin> set s \<Longrightarrow> split_on c s = [s]"
  by (induction s) auto

lemma split_on_append: "c \<notin> set p \<Longrightarrow> split_on c (p @ c # s) = p # split_on c s"
  by (induction p) auto

lemma split_on_join [go_text]:
  "xs \<noteq> [] \<Longrightarrow> \<forall>x \<in> set xs. c \<notin> set x \<Longrightarrow> split_on c (join [c] xs) = xs"
  by (induction "[c]" xs rule: join.induct) (auto simp: split_on_append)

lemma join_split_on [go_text]: "join [c] (split_on c s) = s"
proof (induction s)
  case Nil
  then show ?case by simp
next
  case (Cons x xs)
  obtain w ws where w: "split_on c xs = w # ws" by (cases "split_on c xs") auto
  with Cons show ?case by (cases ws) auto
qed

lemma split_on_parts: "w \<in> set (split_on c s) \<Longrightarrow> c \<notin> set w \<and> set w \<subseteq> set s"
proof (induction s arbitrary: w)
  case Nil
  then show ?case by simp
next
  case (Cons x xs)
  then show ?case by (fastforce split: if_splits list.splits)
qed

section \<open>White space\<close>

text \<open>
  \<open>strings.TrimSpace\<close> cuts the Unicode white space at both ends. These are the UTF-8 encodings of
  the code points with the property White\_Space.
\<close>

definition space_runes :: "string list" where
  "space_runes =
     [[CHR 0x09], [CHR 0x0A], [CHR 0x0B], [CHR 0x0C], [CHR 0x0D], [CHR 0x20],
      [CHR 0xC2, CHR 0x85], [CHR 0xC2, CHR 0xA0], [CHR 0xE1, CHR 0x9A, CHR 0x80],
      [CHR 0xE2, CHR 0x80, CHR 0x80], [CHR 0xE2, CHR 0x80, CHR 0x81], [CHR 0xE2, CHR 0x80, CHR 0x82],
      [CHR 0xE2, CHR 0x80, CHR 0x83], [CHR 0xE2, CHR 0x80, CHR 0x84], [CHR 0xE2, CHR 0x80, CHR 0x85],
      [CHR 0xE2, CHR 0x80, CHR 0x86], [CHR 0xE2, CHR 0x80, CHR 0x87], [CHR 0xE2, CHR 0x80, CHR 0x88],
      [CHR 0xE2, CHR 0x80, CHR 0x89], [CHR 0xE2, CHR 0x80, CHR 0x8A], [CHR 0xE2, CHR 0x80, CHR 0xA8],
      [CHR 0xE2, CHR 0x80, CHR 0xA9], [CHR 0xE2, CHR 0x80, CHR 0xAF], [CHR 0xE2, CHR 0x81, CHR 0x9F],
      [CHR 0xE3, CHR 0x80, CHR 0x80]]"

text \<open>Cuts runes of a list (none empty) off the front, as long as one of them is there.\<close>

fun trim_front_fuel :: "nat \<Rightarrow> string list \<Rightarrow> string \<Rightarrow> string" where
  "trim_front_fuel 0 rs s = s"
| "trim_front_fuel (Suc n) rs s =
     (case find (\<lambda>r. prefix r s) rs of None \<Rightarrow> s | Some r \<Rightarrow> trim_front_fuel n rs (drop (length r) s))"

definition trim_left :: "string \<Rightarrow> string" where
  "trim_left s = trim_front_fuel (length s) space_runes s"

definition trim_right :: "string \<Rightarrow> string" where
  "trim_right s = rev (trim_front_fuel (length s) (map rev space_runes) (rev s))"

definition trim_space :: "string \<Rightarrow> string" where
  "trim_space s = trim_right (trim_left s)"

text \<open>A string that no white-space rune starts or ends is its own trim.\<close>

definition trimmed :: "string \<Rightarrow> bool" where
  "trimmed s \<longleftrightarrow> (\<forall>r \<in> set space_runes. \<not> prefix r s \<and> \<not> suffix r s)"

lemma trim_front_id: "\<forall>r \<in> set rs. \<not> prefix r s \<Longrightarrow> trim_front_fuel n rs s = s"
  by (cases n) (auto simp: find_None_iff find_Some_iff split: option.splits)

lemma trim_space_trimmed [simp]: "trimmed s \<Longrightarrow> trim_space s = s"
  by (simp add: trimmed_def trim_space_def trim_left_def trim_right_def trim_front_id suffix_to_prefix)

text \<open>The fuel is enough: no rune of the list starts the result.\<close>

lemma trim_front_done:
  assumes "length s \<le> n" and "[] \<notin> set rs"
  shows "\<forall>r \<in> set rs. \<not> prefix r (trim_front_fuel n rs s)"
  using assms(1)
proof (induction n arbitrary: s)
  case 0
  then show ?case using assms(2) by (auto simp: prefix_def)
next
  case (Suc n)
  show ?case
  proof (cases "find (\<lambda>r. prefix r s) rs")
    case None
    then have "\<forall>r \<in> set rs. \<not> prefix r s" by (simp add: find_None_iff)
    with None show ?thesis by simp
  next
    case (Some r)
    then have "r \<in> set rs" and "prefix r s" by (auto simp: find_Some_iff)
    with assms(2) have "0 < length r" by (cases r) auto
    with Suc.prems have "length (drop (length r) s) \<le> n" unfolding length_drop by linarith
    with Suc.IH Some show ?thesis by auto
  qed
qed

lemma trim_front_suffix: "suffix (trim_front_fuel n rs s) s"
proof (induction n arbitrary: s)
  case 0
  then show ?case by simp
next
  case (Suc n)
  show ?case
  proof (cases "find (\<lambda>r. prefix r s) rs")
    case None
    then show ?thesis by simp
  next
    case (Some r)
    have "suffix (trim_front_fuel n rs (drop (length r) s)) (drop (length r) s)" by (rule Suc.IH)
    with Some show ?thesis by (auto intro: suffix_order.trans [OF _ suffix_drop])
  qed
qed

lemma set_trim_space: "set (trim_space s) \<subseteq> set s"
proof -
  have "set (trim_left s) \<subseteq> set s"
    by (simp add: trim_left_def set_mono_suffix trim_front_suffix)
  moreover have "set (trim_right t) \<subseteq> set t" for t
    using set_mono_suffix [OF trim_front_suffix, of "length t" "map rev space_runes" "rev t"]
    by (simp add: trim_right_def)
  ultimately show ?thesis by (auto simp: trim_space_def)
qed

section \<open>Collecting without duplicates\<close>

text \<open>
  The loop the code writes with a \<open>seen\<close> map and an \<open>out\<close> slice, where \<open>seen\<close> holds the elements of
  \<open>out\<close>: append what is not there yet.
\<close>

fun add_new :: "'a list \<Rightarrow> 'a list \<Rightarrow> 'a list" where
  "add_new out [] = out"
| "add_new out (x # xs) = add_new (if x \<in> set out then out else out @ [x]) xs"

lemma set_add_new [simp]: "set (add_new out xs) = set out \<union> set xs"
  by (induction xs arbitrary: out) auto

lemma distinct_add_new: "distinct out \<Longrightarrow> distinct (add_new out xs)"
  by (induction xs arbitrary: out) auto

lemma add_new_append: "add_new out (xs @ ys) = add_new (add_new out xs) ys"
  by (induction xs arbitrary: out) auto

lemma add_new_distinct: "distinct (out @ xs) \<Longrightarrow> add_new out xs = out @ xs"
  by (induction xs arbitrary: out) auto

lemma add_new_prefix: "prefix out (add_new out xs)"
proof (induction xs arbitrary: out)
  case Nil
  then show ?case by simp
next
  case (Cons x xs)
  have "prefix (if x \<in> set out then out else out @ [x])
      (add_new (if x \<in> set out then out else out @ [x]) xs)" by (rule Cons.IH)
  then show ?case by (auto split: if_splits dest: append_prefixD)
qed

section \<open>Sorting\<close>

text \<open>
  What is known of \<open>sort.Slice\<close>, which need not be stable: the elements stay and the keys ascend. Where the keys of the elements
  differ this leaves one result.
\<close>

lemma filter_eq_replicate: "filter (\<lambda>y. y = x) xs = replicate (count (mset xs) x) x"
  by (induction xs) auto

lemma filter_key_cong:
  assumes "mset ys = mset xs" and "x \<in> set xs" and "inj_on key (set xs)"
  shows "filter (\<lambda>y. key x = key y) ys = filter (\<lambda>y. key x = key y) xs"
proof -
  have "filter (\<lambda>y. key x = key y) zs = filter (\<lambda>y. y = x) zs" if "set zs = set xs" for zs
    using that assms(2,3) by (intro filter_cong) (auto simp: inj_on_def)
  then show ?thesis using mset_eq_setD [OF assms(1)] by (simp add: filter_eq_replicate assms(1))
qed

locale key_sort =
  fixes srt :: "'a list \<Rightarrow> 'a list" and key :: "'a \<Rightarrow> 'k::linorder"
  assumes same_elements: "mset (srt xs) = mset xs"
    and ascending: "sorted (map key (srt xs))"
begin

lemma set_srt [simp]: "set (srt xs) = set xs"
  using same_elements [of xs] by (metis set_mset_mset)

lemma srt_empty [simp]: "srt xs = [] \<longleftrightarrow> xs = []"
  using set_srt [of xs] by (metis set_empty)

lemma sort_order_irrelevant:
  assumes "mset xs = mset ys" and "inj_on key (set xs)"
  shows "srt xs = srt ys"
proof -
  have sort: "srt zs = sort_key key xs" if zs: "mset zs = mset xs" for zs
  proof (rule properties_for_sort_key [symmetric])
    show "mset (srt zs) = mset xs" using same_elements [of zs] zs by simp
    show "sorted (map key (srt zs))" by (rule ascending)
    fix x assume "x \<in> set (srt zs)"
    then show "filter (\<lambda>y. key x = key y) (srt zs) = filter (\<lambda>y. key x = key y) xs"
      using same_elements [of zs] zs assms(2) mset_eq_setD [OF zs] by (intro filter_key_cong) auto
  qed
  show ?thesis using sort [of xs] sort [of ys] assms(1) by simp
qed

end

section \<open>First fit\<close>

text \<open>
  The contract of a scan of a range of ints for the first number that is not blocked, and what it
  finds. The POSIX id allocator and the port allocator of the multicast scheduler are such scans.
\<close>

locale first_fit =
  fixes scan :: "int \<Rightarrow> int \<Rightarrow> 'r option" and blocked :: "int \<Rightarrow> bool"
    and found :: "int \<Rightarrow> 'r" and exhausted :: 'r
  assumes scan_hit: "i \<le> lim \<Longrightarrow> \<not> blocked i \<Longrightarrow> scan lim i = Some (found i)"
    and scan_skip: "i \<le> lim \<Longrightarrow> blocked i \<Longrightarrow> int64 i \<Longrightarrow> int64 (i + 1) \<Longrightarrow> scan lim i = scan lim (i + 1)"
    and scan_end: "\<not> i \<le> lim \<Longrightarrow> scan lim i = Some exhausted"
begin

lemma scan_total:
  assumes "int64 i" and "lim < max_int64"
  shows "(\<exists>j. i \<le> j \<and> j \<le> lim \<and> \<not> blocked j \<and> (\<forall>k. i \<le> k \<and> k < j \<longrightarrow> blocked k) \<and>
            scan lim i = Some (found j))
       \<or> ((\<forall>k. i \<le> k \<and> k \<le> lim \<longrightarrow> blocked k) \<and> scan lim i = Some exhausted)"
  using assms(1)
proof (induction "nat (lim + 1 - i)" arbitrary: i rule: less_induct)
  case less
  show ?case
  proof (cases "i \<le> lim \<and> blocked i")
    case False
    then show ?thesis by (cases "i \<le> lim") (auto simp: scan_hit scan_end)
  next
    case True
    then have next64: "int64 (i + 1)" using less.prems assms(2) by (simp add: int64_def)
    have "nat (lim + 1 - (i + 1)) < nat (lim + 1 - i)" using True by simp
    from less.hyps [OF this next64] True next64 less.prems
    have "(\<exists>j. i + 1 \<le> j \<and> j \<le> lim \<and> \<not> blocked j \<and> (\<forall>k. i + 1 \<le> k \<and> k < j \<longrightarrow> blocked k) \<and>
            scan lim i = Some (found j))
       \<or> ((\<forall>k. i + 1 \<le> k \<and> k \<le> lim \<longrightarrow> blocked k) \<and> scan lim i = Some exhausted)"
      by (simp add: scan_skip)
    moreover have "blocked k" if "i \<le> k" "i + 1 \<le> k \<Longrightarrow> blocked k" for k
      using that True by (cases "k = i") auto
    ultimately show ?thesis by (smt (verit, ccfv_threshold))
  qed
qed

lemma scan_returns:
  assumes "int64 i" and "lim < max_int64"
  obtains r where "scan lim i = Some r"
  using scan_total [OF assms] by blast

lemma scan_found_iff:
  assumes "int64 i" and "lim < max_int64" and "\<And>j. found j \<noteq> exhausted" and "inj found"
  shows "scan lim i = Some (found j) \<longleftrightarrow>
    i \<le> j \<and> j \<le> lim \<and> \<not> blocked j \<and> (\<forall>k. i \<le> k \<and> k < j \<longrightarrow> blocked k)"
proof -
  have inj: "found a = found b \<longleftrightarrow> a = b" for a b using assms(4) by (auto simp: inj_def)
  show ?thesis
    using scan_total [OF assms(1,2)]
  proof (elim disjE exE conjE)
    fix m assume m: "i \<le> m" "m \<le> lim" "\<not> blocked m" "\<forall>k. i \<le> k \<and> k < m \<longrightarrow> blocked k"
      "scan lim i = Some (found m)"
    have "m = j" if "i \<le> j" "\<not> blocked j" "\<forall>k. i \<le> k \<and> k < j \<longrightarrow> blocked k"
      using that m(1,3,4) by (cases m j rule: linorder_cases) auto
    with m show ?thesis by (auto simp: inj)
  next
    assume "\<forall>k. i \<le> k \<and> k \<le> lim \<longrightarrow> blocked k" "scan lim i = Some exhausted"
    then show ?thesis using assms(3) [of j] by (auto dest: sym)
  qed
qed

lemma scan_exhausted_iff:
  assumes "int64 i" and "lim < max_int64" and "\<And>j. found j \<noteq> exhausted"
  shows "scan lim i = Some exhausted \<longleftrightarrow> (\<forall>k. i \<le> k \<and> k \<le> lim \<longrightarrow> blocked k)"
proof -
  have "exhausted \<noteq> found j" for j using assms(3) [of j] by simp
  then show ?thesis using scan_total [OF assms(1,2)] assms(3) by (auto dest: sym)
qed

end

end
