(* ===== verification/Hostlist.thy ===== *)
theory Hostlist
  imports Go_Prelude
begin

text \<open>
  The range-syntax parser and printer of \<open>pkg/hostlist/hostlist.go\<close>: \<open>Expand\<close> and its helpers
  \<open>splitTopLevel\<close>, \<open>expandToken\<close> and \<open>expandRange\<close>, and \<open>Compress\<close> with \<open>splitTrailingDigits\<close>,
  \<open>dedupInts\<close> and \<open>coalesceRuns\<close>. An error carries the arguments of the code's message. The loop that
  enumerates a range counts with a 64-bit \<open>int\<close>; it is a \<^theory_text>\<open>partial_function\<close>, since it never ends
  for a range that ends at the largest \<open>int\<close>, and the functions above it return an \<open>outcome\<close>.
  Memory is unbounded in the model.
\<close>

section \<open>Expand\<close>

datatype hl_error =
    EmptyPattern
  | UnmatchedClose string
  | UnmatchedOpen string
  | EmptyBracket string
  | EmptyElement string
  | BadRangeStart string string
  | BadRangeEnd string string
  | RangeReversed int int string
  | MalformedElement string string
  | BadElement string string
  | EmptyAfterParse string

text \<open>
  \<open>splitTopLevel\<close>: the scan over the bytes of the expression, with the bracket depth, the tokens cut
  so far and the bytes since \<open>start\<close>. (The code ranges over runes; the characters it looks for are
  ASCII, which no byte of a longer rune is.)
\<close>

fun split_scan :: "string \<Rightarrow> nat \<Rightarrow> string list \<Rightarrow> string \<Rightarrow> string \<Rightarrow> hl_error + string list" where
  "split_scan expr depth tokens cur [] =
     (if depth \<noteq> 0 then Inl (UnmatchedOpen expr) else Inr (tokens @ [cur]))"
| "split_scan expr depth tokens cur (ch # rest) =
     (if ch = CHR ''['' then split_scan expr (Suc depth) tokens (cur @ [ch]) rest
      else if ch = CHR '']'' then
        (if depth = 0 then Inl (UnmatchedClose expr)
         else split_scan expr (depth - 1) tokens (cur @ [ch]) rest)
      else if ch = CHR '','' \<and> depth = 0 then split_scan expr depth (tokens @ [cur]) [] rest
      else split_scan expr depth tokens (cur @ [ch]) rest)"

definition split_top_level :: "string \<Rightarrow> hl_error + string list" where
  "split_top_level expr = split_scan expr 0 [] [] expr"

text \<open>
  The loop \<open>for i := startVal; i <= endVal; i++\<close>, which appends the printed numbers; \<open>render\<close> is what
  the loop body prints for a number.
\<close>

partial_function (option) range_loop ::
  "(int \<Rightarrow> string) \<Rightarrow> int \<Rightarrow> int \<Rightarrow> string list \<Rightarrow> string list option" where
  "range_loop render i end_val names =
     (if i \<le> end_val then range_loop render (wrap64 (i + 1)) end_val (names @ [render i])
      else Some names)"

declare range_loop.simps [code]

definition expand_part :: "string \<Rightarrow> string \<Rightarrow> string list \<Rightarrow> (hl_error, string list) outcome" where
  "expand_part full_token part names =
     (let dash = index_byte part CHR ''-'' in
      if dash \<noteq> None \<and> 0 < the dash \<and> the dash < length part - 1 then
        (let start_str = take (the dash) part; end_str = drop (the dash + 1) part in
         case atoi start_str of
           None \<Rightarrow> Some (Inl (BadRangeStart start_str full_token))
         | Some start_val \<Rightarrow>
           (case atoi end_str of
              None \<Rightarrow> Some (Inl (BadRangeEnd end_str full_token))
            | Some end_val \<Rightarrow>
              if end_val < start_val then Some (Inl (RangeReversed end_val start_val full_token))
              else map_option Inr
                (range_loop (sprintf_0d (max (length start_str) (length end_str))) start_val end_val names)))
      else if part = ''-'' \<or> prefix ''-'' part \<or> suffix ''-'' part then
        Some (Inl (MalformedElement part full_token))
      else
        (case atoi part of
           None \<Rightarrow> Some (Inl (BadElement part full_token))
         | Some n \<Rightarrow> Some (Inr (names @ [sprintf_0d (length part) n]))))"

fun expand_parts :: "string \<Rightarrow> string list \<Rightarrow> string list \<Rightarrow> (hl_error, string list) outcome" where
  "expand_parts full_token [] names = Some (Inr names)"
| "expand_parts full_token (p # ps) names =
     (let part = trim_space p in
      if part = [] then Some (Inl (EmptyElement full_token))
      else obind (expand_part full_token part names) (expand_parts full_token ps))"

definition expand_range :: "string \<Rightarrow> string \<Rightarrow> (hl_error, string list) outcome" where
  "expand_range inner full_token =
     (if inner = [] then Some (Inl (EmptyBracket full_token))
      else expand_parts full_token (split_on CHR '','' inner) [])"

text \<open>
  \<open>expandToken\<close>: the first bracket group, the expansion of what follows it (first, as in the code),
  and the cross product in the order of the two nested loops.
\<close>

definition cross_product :: "string \<Rightarrow> string list \<Rightarrow> string list \<Rightarrow> string list" where
  "cross_product pre inner_names suffix_expansions =
     concat (map (\<lambda>n. map (\<lambda>s. pre @ n @ s) suffix_expansions) inner_names)"

function expand_token :: "string \<Rightarrow> (hl_error, string list) outcome" where
  "expand_token tok =
     (case index_byte tok CHR ''['' of
        None \<Rightarrow> Some (Inr [tok])
      | Some open_idx \<Rightarrow>
        (case index_byte (drop open_idx tok) CHR '']'' of
           None \<Rightarrow> Some (Inl (UnmatchedOpen tok))
         | Some rel \<Rightarrow>
           (let close_idx = rel + open_idx;
                pre = take open_idx tok;
                inner = drop (open_idx + 1) (take close_idx tok);
                suf = drop (close_idx + 1) tok
            in obind (expand_token suf) (\<lambda>suffix_expansions.
               obind (expand_range inner tok) (\<lambda>inner_names.
                 Some (Inr (cross_product pre inner_names suffix_expansions)))))))"
  by pat_completeness auto
termination
  by (relation "measure length") (auto dest!: index_byte_Some)

declare expand_token.simps [simp del]

text \<open>
  The loop over the tokens, which \<open>Expand\<close> and the older parser of the selector share word for word;
  \<open>read_token\<close> is the package's own \<open>expandToken\<close>.
\<close>

fun expand_tokens ::
  "(string \<Rightarrow> ('e, string list) outcome) \<Rightarrow> string list \<Rightarrow> string list \<Rightarrow> ('e, string list) outcome" where
  "expand_tokens read_token [] out = Some (Inr out)"
| "expand_tokens read_token (t # ts) out =
     (let tok = trim_space t in
      if tok = [] then expand_tokens read_token ts out
      else obind (read_token tok) (\<lambda>expanded. expand_tokens read_token ts (add_new out expanded)))"

definition expand :: "string \<Rightarrow> (hl_error, string list) outcome" where
  "expand pattern =
     (if trim_space pattern = [] then Some (Inl EmptyPattern)
      else obind (Some (split_top_level pattern)) (\<lambda>tokens.
           obind (expand_tokens expand_token tokens []) (\<lambda>out.
             if out = [] then Some (Inl (EmptyAfterParse pattern)) else Some (Inr out))))"

section \<open>Compress\<close>

definition split_trailing_digits :: "string \<Rightarrow> (string \<times> string) option" where
  "split_trailing_digits name =
     (let digits = rev (takeWhile is_digit (rev name)) in
      if digits = [] then None else Some (take (length name - length digits) name, digits))"

fun dedup_from :: "int \<Rightarrow> int list \<Rightarrow> int list" where
  "dedup_from last_kept [] = []"
| "dedup_from last_kept (n # ns) =
     (if n \<noteq> last_kept then n # dedup_from n ns else dedup_from last_kept ns)"

fun dedup_ints :: "int list \<Rightarrow> int list" where
  "dedup_ints [] = []"
| "dedup_ints (n # ns) = n # dedup_from n ns"

record int_run =
  lo :: int
  hi :: int

fun coalesce_from :: "int_run \<Rightarrow> int list \<Rightarrow> int_run list" where
  "coalesce_from r [] = [r]"
| "coalesce_from r (n # ns) =
     (if n = wrap64 (hi r + 1) then coalesce_from (r\<lparr>hi := n\<rparr>) ns
      else r # coalesce_from \<lparr>lo = n, hi = n\<rparr> ns)"

fun coalesce_runs :: "int list \<Rightarrow> int_run list" where
  "coalesce_runs [] = []"
| "coalesce_runs (n # ns) = coalesce_from \<lparr>lo = n, hi = n\<rparr> ns"

text \<open>
  The grouping of the names: \<open>buckets\<close> keyed by prefix and width, the keys in order of first use, and
  the names that have no number (or one that does not fit an \<open>int\<close>).
\<close>

type_synonym bucket_key = "string \<times> nat"

record compress_state =
  buckets :: "bucket_key \<rightharpoonup> int list"
  key_order :: "bucket_key list"
  literals :: "string list"

definition compress_step :: "compress_state \<Rightarrow> string \<Rightarrow> compress_state" where
  "compress_step st n =
     (case split_trailing_digits n of
        None \<Rightarrow> st\<lparr>literals := literals st @ [n]\<rparr>
      | Some (pre, num_str) \<Rightarrow>
        (case atoi num_str of
           None \<Rightarrow> st\<lparr>literals := literals st @ [n]\<rparr>
         | Some v \<Rightarrow>
           (let k = (pre, length num_str) in
            case buckets st k of
              None \<Rightarrow> st\<lparr>buckets := (buckets st)(k \<mapsto> [v]), key_order := key_order st @ [k]\<rparr>
            | Some nums \<Rightarrow> st\<lparr>buckets := (buckets st)(k \<mapsto> nums @ [v])\<rparr>)))"

definition render_run :: "nat \<Rightarrow> int_run \<Rightarrow> string" where
  "render_run width g =
     (if lo g = hi g then sprintf_0d width (lo g)
      else sprintf_0d width (lo g) @ ''-'' @ sprintf_0d width (hi g))"

definition render_bucket :: "bucket_key \<Rightarrow> int list \<Rightarrow> string" where
  "render_bucket k b_nums =
     (let nums = dedup_ints (sort b_nums) in
      if length nums = 1 then fst k @ sprintf_0d (snd k) (hd nums)
      else
        (let parts = map (render_run (snd k)) (coalesce_runs nums) in
         if length parts = 1 \<and> CHR ''-'' \<notin> set (hd parts) then fst k @ hd parts
         else fst k @ ''['' @ join '','' parts @ '']''))"

definition compress :: "string list \<Rightarrow> string" where
  "compress names =
     (if names = [] then []
      else
        (let uniq = add_new [] names;
             st = foldl compress_step \<lparr>buckets = Map.empty, key_order = [], literals = []\<rparr> uniq;
             rendered = map (\<lambda>k. render_bucket k (the (buckets st k))) (key_order st)
         in join '','' (rendered @ literals st)))"


section \<open>The range loop\<close>

text \<open>Below the largest \<open>int\<close> the loop ends with the numbers from the start to the end.\<close>

lemma range_loop_upto:
  assumes "int64 i" and "e < max_int64"
  shows "range_loop render i e names = Some (names @ map render [i..e])"
  using assms(1)
proof (induction "nat (e + 1 - i)" arbitrary: i names)
  case 0
  then have "e < i" by simp
  then show ?case by (simp add: range_loop.simps)
next
  case (Suc n)
  then have le: "i \<le> e" by simp
  with Suc.prems assms(2) have i': "int64 (i + 1)" and w: "wrap64 (i + 1) = i + 1"
    by (simp_all add: int64_def)
  from Suc.hyps(2) have n: "n = nat (e + 1 - (i + 1))" by simp
  have "range_loop render i e names = range_loop render (i + 1) e (names @ [render i])"
    using le w by (simp add: range_loop.simps [of render i])
  also have "\<dots> = Some ((names @ [render i]) @ map render [i + 1..e])"
    by (rule Suc.hyps(1) [OF n i'])
  finally show ?case using le by (simp add: upto_rec1)
qed

text \<open>
  A range that ends at the largest \<open>int\<close> is never left: the counter wraps round to the smallest one.
  The proof is the induction rule of the \<^theory_text>\<open>partial_function\<close> for what it returns.
\<close>

lemma range_loop_max: "int64 i \<Longrightarrow> range_loop render i max_int64 names = None"
proof (rule ccontr)
  assume "range_loop render i max_int64 names \<noteq> None" and i: "int64 i"
  then obtain r where ret: "range_loop render i max_int64 names = Some r" by auto
  have "e = max_int64 \<longrightarrow> \<not> int64 j" if "range_loop v j e ns = Some x" for j e v ns x
  proof (rule range_loop.raw_induct [where P = "\<lambda>v j e ns x. e = max_int64 \<longrightarrow> \<not> int64 j", OF _ that])
    fix f and v :: "int \<Rightarrow> string" and j e :: int and ns x :: "string list"
    assume IH: "\<And>v j e ns x. f v j e ns = Some x \<Longrightarrow> e = max_int64 \<longrightarrow> \<not> int64 j"
      and eq: "(if j \<le> e then f v (wrap64 (j + 1)) e (ns @ [v j]) else Some ns) = Some x"
    show "e = max_int64 \<longrightarrow> \<not> int64 j"
    proof (cases "j \<le> e")
      case True
      with eq have "f v (wrap64 (j + 1)) e (ns @ [v j]) = Some x" by simp
      then have "e = max_int64 \<longrightarrow> \<not> int64 (wrap64 (j + 1))" by (rule IH)
      then show ?thesis by simp
    next
      case False
      then show ?thesis by (simp add: int64_def)
    qed
  qed
  with ret i show False by blast
qed

lemma range_loop_returns_iff:
  assumes "int64 i" and "int64 e"
  shows "range_loop render i e names \<noteq> None \<longleftrightarrow> e \<noteq> max_int64"
  using assms range_loop_max [of i render names] range_loop_upto [of i e render names]
  by (cases "e = max_int64") (auto simp: int64_def)

section \<open>Tokens without brackets, and one bracket group\<close>

definition plain :: "string \<Rightarrow> bool" where
  "plain s \<longleftrightarrow> CHR ''['' \<notin> set s \<and> CHR '']'' \<notin> set s \<and> CHR '','' \<notin> set s \<and> CHR 0x0A \<notin> set s"

definition bracket_free :: "string \<Rightarrow> bool" where
  "bracket_free s \<longleftrightarrow> CHR ''['' \<notin> set s \<and> CHR '']'' \<notin> set s"

text \<open>A token that the scan passes over without cutting.\<close>

definition uncut :: "string \<Rightarrow> bool" where
  "uncut t \<longleftrightarrow> (\<forall>expr tokens cur rest.
     split_scan expr 0 tokens cur (t @ rest) = split_scan expr 0 tokens (cur @ t) rest)"

lemma uncutD:
  "uncut t \<Longrightarrow> split_scan expr 0 tokens cur (t @ rest) = split_scan expr 0 tokens (cur @ t) rest"
  by (simp only: uncut_def)

lemma split_scan_bracket_free:
  "bracket_free s \<Longrightarrow>
    split_scan expr (Suc d) tokens cur (s @ rest) = split_scan expr (Suc d) tokens (cur @ s) rest"
  by (induction s arbitrary: cur) (auto simp: bracket_free_def)

lemma uncut_plain: "plain s \<Longrightarrow> uncut s"
proof -
  assume s: "plain s"
  have "split_scan expr 0 tokens cur (s @ rest) = split_scan expr 0 tokens (cur @ s) rest"
    for expr tokens cur rest
    using s by (induction s arbitrary: cur) (auto simp: plain_def)
  then show ?thesis by (simp add: uncut_def)
qed

lemma uncut_append: "uncut s \<Longrightarrow> uncut t \<Longrightarrow> uncut (s @ t)"
  by (simp add: uncut_def)

lemma uncut_bracket: "bracket_free q \<Longrightarrow> uncut (''['' @ q @ '']'')"
  by (simp add: uncut_def split_scan_bracket_free)

lemma split_scan_join:
  "ts \<noteq> [] \<Longrightarrow> \<forall>t \<in> set ts. uncut t \<Longrightarrow>
    split_scan expr 0 tokens [] (join '','' ts) = Inr (tokens @ ts)"
proof (induction "'',''" ts arbitrary: tokens rule: join.induct)
  case 1
  then show ?case by simp
next
  case (2 t)
  then have "split_scan expr 0 tokens [] (t @ []) = split_scan expr 0 tokens ([] @ t) []"
    by (intro uncutD) simp
  then show ?case by simp
next
  case (3 t u us)
  from 3(3) have "split_scan expr 0 tokens [] (t @ '','' @ join '','' (u # us)) =
      split_scan expr 0 tokens ([] @ t) ('','' @ join '','' (u # us))"
    by (intro uncutD) simp
  also have "\<dots> = split_scan expr 0 (tokens @ [t]) [] (join '','' (u # us))" by simp
  also have "\<dots> = Inr ((tokens @ [t]) @ u # us)"
    by (rule 3(1)) (use 3(3) in auto)
  finally show ?case by simp
qed

lemma split_top_level_join:
  "ts \<noteq> [] \<Longrightarrow> \<forall>t \<in> set ts. uncut t \<Longrightarrow> split_top_level (join '','' ts) = Inr ts"
  by (simp add: split_top_level_def split_scan_join)

lemma expand_token_plain: "CHR ''['' \<notin> set tok \<Longrightarrow> expand_token tok = Some (Inr [tok])"
proof -
  assume "CHR ''['' \<notin> set tok"
  then have idx: "index_byte tok CHR ''['' = None" by simp
  show ?thesis unfolding expand_token.simps [of tok] idx by simp
qed

lemma expand_token_group:
  assumes p: "CHR ''['' \<notin> set p" and q: "CHR '']'' \<notin> set q"
    and tok: "tok = p @ ''['' @ q @ '']'' @ suf"
  shows "expand_token tok =
    obind (expand_token suf) (\<lambda>ss. obind (expand_range q tok) (\<lambda>ns. Some (Inr (cross_product p ns ss))))"
proof -
  have open_idx: "index_byte tok CHR ''['' = Some (length p)"
    using p by (simp add: tok)
  have "index_byte ((CHR ''['' # q) @ CHR '']'' # suf) CHR '']'' = Some (length (CHR ''['' # q))"
    using q by (intro index_byte_append) auto
  then have close_idx: "index_byte (drop (length p) tok) CHR '']'' = Some (Suc (length q))"
    by (simp add: tok)
  have inner: "drop (length p + 1) (take (Suc (length q) + length p) tok) = q" by (simp add: tok)
  have suf: "drop (Suc (length q) + length p + 1) tok = suf" by (simp add: tok)
  have pre: "take (length p) tok = p" by (simp add: tok)
  show ?thesis
    unfolding expand_token.simps [of tok] open_idx close_idx option.case Let_def pre inner suf ..
qed

lemma expand_token_bracket:
  assumes "CHR ''['' \<notin> set p" and "CHR '']'' \<notin> set q"
    and "expand_range q (p @ ''['' @ q @ '']'') = Some (Inr ns)"
  shows "expand_token (p @ ''['' @ q @ '']'') = Some (Inr (map (\<lambda>n. p @ n) ns))"
  using expand_token_group [OF assms(1,2), of _ "[]"] assms(3)
  by (simp add: expand_token_plain cross_product_def)

section \<open>Numbers of a bucket\<close>

lemma dedup_from_sorted:
  "sorted (k # ns) \<Longrightarrow> sorted_wrt (<) (k # dedup_from k ns) \<and> set (k # dedup_from k ns) = set (k # ns)"
proof (induction k ns rule: dedup_from.induct)
  case (1 k)
  then show ?case by simp
next
  case (2 k n ns)
  show ?case
  proof (cases "n = k")
    case True
    with 2 show ?thesis by auto
  next
    case False
    with "2.prems" have "k < n" by simp
    with False 2 show ?thesis by (auto intro: less_le_trans)
  qed
qed

lemma dedup_ints_sort:
  "sorted_wrt (<) (dedup_ints (sort ns))" "set (dedup_ints (sort ns)) = set ns"
proof -
  have "sorted_wrt (<) (dedup_ints (sort ns)) \<and> set (dedup_ints (sort ns)) = set (sort ns)"
  proof (cases "sort ns")
    case Nil
    then show ?thesis by simp
  next
    case (Cons k ks)
    then have "sorted (k # ks)" by (metis sorted_sort)
    with Cons dedup_from_sorted show ?thesis by simp
  qed
  then show "sorted_wrt (<) (dedup_ints (sort ns))" "set (dedup_ints (sort ns)) = set ns"
    by simp_all
qed

text \<open>The runs are the numbers, cut where they are not consecutive.\<close>

definition run_nums :: "int_run \<Rightarrow> int list" where
  "run_nums g = [lo g..hi g]"

lemma coalesce_from_nums:
  assumes "lo r \<le> hi r" and "sorted_wrt (<) (hi r # ns)" and "\<forall>n \<in> set ns. int64 n" and "int64 (hi r)"
  shows "concat (map run_nums (coalesce_from r ns)) = run_nums r @ ns
    \<and> (\<forall>g \<in> set (coalesce_from r ns). lo g \<le> hi g)"
  using assms
proof (induction r ns rule: coalesce_from.induct)
  case (1 r)
  then show ?case by simp
next
  case (2 r n ns)
  then have "hi r < n" and "int64 n" by simp_all
  with "2.prems"(4) have w: "wrap64 (hi r + 1) = hi r + 1" by (simp add: int64_def)
  show ?case
  proof (cases "n = hi r + 1")
    case True
    with "2.prems" w have "concat (map run_nums (coalesce_from (r\<lparr>hi := n\<rparr>) ns)) = run_nums (r\<lparr>hi := n\<rparr>) @ ns
        \<and> (\<forall>g \<in> set (coalesce_from (r\<lparr>hi := n\<rparr>) ns). lo g \<le> hi g)"
      by (intro "2.IH"(1)) auto
    moreover have "run_nums (r\<lparr>hi := n\<rparr>) = run_nums r @ [n]"
      using True "2.prems"(1) by (simp add: run_nums_def upto_rec2)
    ultimately show ?thesis using True w by simp
  next
    case False
    with "2.prems" w have "concat (map run_nums (coalesce_from \<lparr>lo = n, hi = n\<rparr> ns)) = run_nums \<lparr>lo = n, hi = n\<rparr> @ ns
        \<and> (\<forall>g \<in> set (coalesce_from \<lparr>lo = n, hi = n\<rparr> ns). lo g \<le> hi g)"
      by (intro "2.IH"(2)) auto
    moreover have "run_nums \<lparr>lo = n, hi = n\<rparr> = [n]" by (simp add: run_nums_def)
    ultimately show ?thesis using False w "2.prems"(1) by simp
  qed
qed

lemma coalesce_runs_nums:
  assumes "sorted_wrt (<) ns" and "\<forall>n \<in> set ns. int64 n"
  shows "concat (map run_nums (coalesce_runs ns)) = ns \<and> (\<forall>g \<in> set (coalesce_runs ns). lo g \<le> hi g)"
  using assms coalesce_from_nums [of "\<lparr>lo = hd ns, hi = hd ns\<rparr>" "tl ns"]
  by (cases ns) (auto simp: run_nums_def)

text \<open>A number of a bucket of width \<open>w\<close> prints in exactly \<open>w\<close> digits.\<close>

definition fits :: "nat \<Rightarrow> int \<Rightarrow> bool" where
  "fits w v \<longleftrightarrow> 0 < w \<and> w \<le> fmt_width_max \<and> 0 \<le> v \<and> v < 10 ^ w"

lemma length_dec_nat: "n < 10 ^ w \<Longrightarrow> 0 < w \<Longrightarrow> length (dec_nat n) \<le> w"
proof (induction w arbitrary: n)
  case 0
  then show ?case by simp
next
  case (Suc w)
  show ?case
  proof (cases "n < 10")
    case True
    then show ?thesis by (subst dec_nat.simps) simp
  next
    case False
    have "n div 10 < 10 ^ w" using Suc.prems(1) by (simp add: less_mult_imp_div_less mult.commute)
    moreover from this False have "0 < w" by (cases w) auto
    ultimately have "length (dec_nat (n div 10)) \<le> w" by (rule Suc.IH)
    with False show ?thesis by (subst dec_nat.simps) simp
  qed
qed

lemma length_sprintf_fits: "fits w v \<Longrightarrow> length (sprintf_0d w v) = w"
proof -
  assume v: "fits w v"
  then have "nat v < 10 ^ w" by (simp add: fits_def nat_less_iff)
  with v show ?thesis using length_dec_nat [of "nat v" w]
    by (simp add: fits_def sprintf_0d_def Let_def)
qed

lemma fits_digits: "fits w v \<Longrightarrow> list_all is_digit (sprintf_0d w v)"
  using sprintf_0d_nat_digits [of w v] by (simp add: fits_def)

lemma fits_nonempty: "fits w v \<Longrightarrow> sprintf_0d w v \<noteq> []"
  using sprintf_0d_nat_digits [of w v] by (simp add: fits_def)

lemma atoi_sprintf: "fits w v \<Longrightarrow> v \<le> max_int64 \<Longrightarrow> atoi (sprintf_0d w v) = Some v"
  using sprintf_0d_nat_digits [of w v] by (simp add: fits_def atoi_digits)

lemma fits_no_dash: "fits w v \<Longrightarrow> CHR ''-'' \<notin> set (sprintf_0d w v)"
  using fits_digits [of w v] is_digit_not_sign by (auto simp: list_all_iff)

section \<open>Reading back a rendered bucket\<close>

lemma trimmed_ends:
  assumes "s \<noteq> []" and "hd s \<notin> hd ` set space_runes" and "last s \<notin> last ` set space_runes"
  shows "trimmed s"
proof -
  have ne: "r \<noteq> []" if "r \<in> set space_runes" for r
    using that by (auto simp: space_runes_def)
  have "\<not> prefix r s \<and> \<not> suffix r s" if r: "r \<in> set space_runes" for r
  proof
    show "\<not> prefix r s"
      using ne [OF r] assms(1,2) r by (auto simp: prefix_def)
    show "\<not> suffix r s"
      using ne [OF r] assms(1,3) r by (auto simp: suffix_def)
  qed
  then show ?thesis by (simp add: trimmed_def)
qed

lemma digit_not_space:
  assumes "is_digit c"
  shows "c \<notin> hd ` set space_runes" "c \<notin> last ` set space_runes"
proof -
  have h: "\<forall>r \<in> set space_runes. \<not> is_digit (hd r) \<and> \<not> is_digit (last r)"
    by (simp add: space_runes_def is_digit_def)
  show "c \<notin> hd ` set space_runes" "c \<notin> last ` set space_runes"
    using h assms by auto
qed

lemma trimmed_digit_ends:
  "s \<noteq> [] \<Longrightarrow> is_digit (hd s) \<Longrightarrow> is_digit (last s) \<Longrightarrow> trimmed s"
  by (intro trimmed_ends digit_not_space)

lemma fits_ends:
  assumes "fits w v"
  shows "is_digit (hd (sprintf_0d w v))" "is_digit (last (sprintf_0d w v))"
  using fits_digits [OF assms] fits_nonempty [OF assms] by (auto simp: list_all_iff)

definition renders :: "nat \<Rightarrow> int_run \<Rightarrow> bool" where
  "renders w g \<longleftrightarrow> fits w (lo g) \<and> fits w (hi g) \<and> lo g \<le> hi g \<and> hi g < max_int64"

lemma expand_part_run:
  assumes g: "renders w g"
  shows "expand_part full (render_run w g) names = Some (Inr (names @ map (sprintf_0d w) (run_nums g)))"
proof (cases "lo g = hi g")
  case True
  define s where "s = sprintf_0d w (lo g)"
  have "CHR ''-'' \<notin> set s" and ne: "s \<noteq> []" and len: "length s = w" and a: "atoi s = Some (lo g)"
    using g True by (simp_all add: s_def renders_def fits_no_dash fits_nonempty length_sprintf_fits atoi_sprintf)
  then have idx: "index_byte s CHR ''-'' = None" and nodash: "s \<noteq> ''-''" "\<not> prefix ''-'' s" "\<not> suffix ''-'' s"
    by (auto simp: prefix_def suffix_def)
  have "expand_part full s names = Some (Inr (names @ [sprintf_0d w (lo g)]))"
    unfolding expand_part_def Let_def idx using nodash a len by simp
  with True show ?thesis by (simp add: render_run_def run_nums_def s_def)
next
  case False
  define a where "a = sprintf_0d w (lo g)"
  define b where "b = sprintf_0d w (hi g)"
  have props: "CHR ''-'' \<notin> set a" "a \<noteq> []" "b \<noteq> []" "length a = w" "length b = w"
      "atoi a = Some (lo g)" "atoi b = Some (hi g)"
    using g by (simp_all add: a_def b_def renders_def fits_no_dash fits_nonempty length_sprintf_fits atoi_sprintf)
  have idx: "index_byte (a @ CHR ''-'' # b) CHR ''-'' = Some (length a)"
    using props(1) by simp
  have loop: "range_loop (sprintf_0d w) (lo g) (hi g) names = Some (names @ map (sprintf_0d w) [lo g..hi g])"
    using g by (intro range_loop_upto) (auto simp: renders_def fits_def int64_def min_int64_def)
  have "\<not> hi g < lo g" "0 < w" using g by (simp_all add: renders_def fits_def)
  then have "expand_part full (a @ CHR ''-'' # b) names = Some (Inr (names @ map (sprintf_0d w) [lo g..hi g]))"
    unfolding expand_part_def Let_def idx using props loop by simp
  with False show ?thesis by (simp add: render_run_def run_nums_def a_def b_def)
qed

lemma render_run_shape:
  assumes g: "renders w g"
  shows "render_run w g \<noteq> [] \<and> trimmed (render_run w g) \<and> plain (render_run w g)"
proof -
  have l: "fits w (lo g)" and h: "fits w (hi g)" using g by (simp_all add: renders_def)
  have dig: "\<forall>c \<in> set (render_run w g). is_digit c \<or> c = CHR ''-''"
    using fits_digits [OF l] fits_digits [OF h] by (auto simp: render_run_def list_all_iff)
  have ne: "render_run w g \<noteq> []"
    using fits_nonempty [OF l] fits_nonempty [OF h] by (simp add: render_run_def)
  have "is_digit (hd (render_run w g))" "is_digit (last (render_run w g))"
    using fits_ends [OF l] fits_ends [OF h] fits_nonempty [OF l] fits_nonempty [OF h]
    by (simp_all add: render_run_def)
  with ne have "trimmed (render_run w g)" by (rule trimmed_digit_ends)
  moreover have "\<not> is_digit CHR ''[''" "\<not> is_digit CHR '']''" "\<not> is_digit CHR '',''" "\<not> is_digit CHR 0x0A"
    by (simp_all add: is_digit_def)
  with dig have "plain (render_run w g)" unfolding plain_def by auto
  ultimately show ?thesis using ne by simp
qed

lemma expand_parts_runs:
  "\<forall>g \<in> set gs. renders w g \<Longrightarrow>
    expand_parts full (map (render_run w) gs) names =
      Some (Inr (names @ map (sprintf_0d w) (concat (map run_nums gs))))"
  by (induction gs arbitrary: names) (simp_all add: Let_def expand_part_run render_run_shape)


text \<open>White space at the ends of a token that is put together around an ASCII character.\<close>

lemma prefix_before: "prefix r (p @ c # s) \<Longrightarrow> c \<notin> set r \<Longrightarrow> prefix r p"
  by (auto simp: prefix_append prefix_Cons)

lemma suffix_after: "suffix r (p @ c # s) \<Longrightarrow> c \<notin> set r \<Longrightarrow> suffix r s"
  using prefix_before [of "rev r" "rev s" c "rev p"] by (simp add: suffix_to_prefix)

lemma trimmed_around:
  assumes "trimmed t" and "trimmed u" and "\<forall>r \<in> set space_runes. c \<notin> set r"
  shows "trimmed (t @ c # u)"
  using assms by (auto simp: trimmed_def dest: prefix_before suffix_after)

lemma space_runes_ascii:
  "\<forall>r \<in> set space_runes. r \<noteq> [] \<and> CHR '','' \<notin> set r \<and> CHR ''['' \<notin> set r \<and> CHR '']'' \<notin> set r"
  by (simp add: space_runes_def)

lemma trimmed_join: "ts \<noteq> [] \<Longrightarrow> \<forall>t \<in> set ts. trimmed t \<Longrightarrow> trimmed (join '','' ts)"
  by (induction "'',''" ts rule: join.induct) (use space_runes_ascii in \<open>auto intro: trimmed_around\<close>)

lemma trimmed_bracket:
  assumes "\<forall>r \<in> set space_runes. \<not> prefix r p"
  shows "trimmed (p @ ''['' @ q @ '']'')"
proof -
  have "\<not> prefix r (p @ ''['' @ q @ '']'')" if "r \<in> set space_runes" for r
    using assms space_runes_ascii that prefix_before [of r p "CHR ''[''" "q @ '']''"] by auto
  moreover have "\<not> suffix r (p @ ''['' @ q @ '']'')" if "r \<in> set space_runes" for r
    using space_runes_ascii that suffix_after [of r "p @ ''['' @ q" "CHR '']''" "[]"] by auto
  ultimately show ?thesis by (simp add: trimmed_def)
qed

text \<open>The names that a bucket stands for, and what makes it readable.\<close>

definition bucket_name :: "bucket_key \<Rightarrow> int \<Rightarrow> string" where
  "bucket_name k v = fst k @ sprintf_0d (snd k) v"

definition bucket_ok :: "bucket_key \<Rightarrow> int list \<Rightarrow> bool" where
  "bucket_ok k nums \<longleftrightarrow> nums \<noteq> [] \<and> plain (fst k) \<and>
     (\<forall>v \<in> set nums. fits (snd k) v \<and> v < max_int64 \<and> trimmed (bucket_name k v))"

definition reads_back ::
  "(string \<Rightarrow> ('e, string list) outcome) \<Rightarrow> string \<Rightarrow> string set \<Rightarrow> bool" where
  "reads_back read_token tok ns \<longleftrightarrow> tok \<noteq> [] \<and> trimmed tok \<and> uncut tok \<and>
     (\<exists>ys. read_token tok = Some (Inr ys) \<and> set ys = ns)"

text \<open>A token with one group of rendered runs, as \<open>Compress\<close> prints it.\<close>

definition runs_token :: "string \<Rightarrow> nat \<Rightarrow> int_run list \<Rightarrow> string" where
  "runs_token p w gs = p @ ''['' @ join '','' (map (render_run w) gs) @ '']''"

lemma plain_digits: "list_all is_digit s \<Longrightarrow> plain s"
proof -
  have "\<not> is_digit CHR ''[''" "\<not> is_digit CHR '']''" "\<not> is_digit CHR '',''" "\<not> is_digit CHR 0x0A"
    by (simp_all add: is_digit_def)
  then show "list_all is_digit s \<Longrightarrow> plain s" by (auto simp: plain_def list_all_iff)
qed

lemma bracket_free_join:
  "bracket_free sep \<Longrightarrow> \<forall>t \<in> set ts. bracket_free t \<Longrightarrow> bracket_free (join sep ts)"
  by (induction sep ts rule: join.induct) (simp_all add: bracket_free_def)

lemma runs_group:
  assumes "gs \<noteq> []" and "\<forall>g \<in> set gs. renders w g"
  shows "bracket_free (join '','' (map (render_run w) gs))"
    "split_on CHR '','' (join '','' (map (render_run w) gs)) = map (render_run w) gs"
    "join '','' (map (render_run w) gs) \<noteq> []"
    "CHR 0x0A \<notin> set (join '','' (map (render_run w) gs))"
proof -
  let ?parts = "map (render_run w) gs"
  have parts: "plain t" "t \<noteq> []" if "t \<in> set ?parts" for t
    using that assms(2) render_run_shape by auto
  then have "\<forall>t \<in> set ?parts. bracket_free t" by (simp only: bracket_free_def plain_def) blast
  then show "bracket_free (join '','' ?parts)"
    by (intro bracket_free_join) (simp_all add: bracket_free_def)
  show "split_on CHR '','' (join '','' ?parts) = ?parts"
    using assms(1) parts(1) by (intro split_on_join) (auto simp: plain_def)
  show "join '','' ?parts \<noteq> []" using assms(1) parts(2) by (cases gs; cases "tl gs") auto
  have "CHR 0x0A \<notin> set (join sep ts)" if "CHR 0x0A \<notin> set sep" "\<forall>t \<in> set ts. CHR 0x0A \<notin> set t" for sep ts
    using that by (induction sep ts rule: join.induct) simp_all
  moreover have "\<forall>t \<in> set ?parts. CHR 0x0A \<notin> set t"
    using parts(1) by (simp only: plain_def) blast
  ultimately show "CHR 0x0A \<notin> set (join '','' ?parts)" by simp
qed

lemma runs_token_shape:
  assumes "plain p" and "\<forall>r \<in> set space_runes. \<not> prefix r p"
    and "gs \<noteq> []" and "\<forall>g \<in> set gs. renders w g"
  shows "runs_token p w gs \<noteq> []" "trimmed (runs_token p w gs)" "uncut (runs_token p w gs)"
  unfolding runs_token_def
  by (simp, rule trimmed_bracket [OF assms(2)],
      rule uncut_append [OF uncut_plain [OF assms(1)] uncut_bracket [OF runs_group(1) [OF assms(3,4)]]])

lemma expand_token_runs:
  assumes p: "plain p" and gs: "gs \<noteq> []" "\<forall>g \<in> set gs. renders w g"
  shows "expand_token (runs_token p w gs) =
    Some (Inr (map (\<lambda>v. p @ sprintf_0d w v) (concat (map run_nums gs))))"
proof -
  let ?q = "join '','' (map (render_run w) gs)"
  have "expand_range ?q (runs_token p w gs) = Some (Inr (map (sprintf_0d w) (concat (map run_nums gs))))"
    using expand_parts_runs [OF gs(2), of "runs_token p w gs" "[]"] runs_group(2,3) [OF gs]
    by (simp add: expand_range_def)
  then have "expand_token (runs_token p w gs) =
      Some (Inr (map (\<lambda>n. p @ n) (map (sprintf_0d w) (concat (map run_nums gs)))))"
    unfolding runs_token_def using p runs_group(1) [OF gs]
    by (intro expand_token_bracket) (auto simp: plain_def bracket_free_def)
  then show ?thesis by (simp add: comp_def)
qed

text \<open>
  The contract between the printer and a reader of hostlists. The two parsers of the program, \<open>Expand\<close>
  and the older \<open>ParseHostlist\<close> of the node selector, both meet it: they agree on plain names, on a
  token with one group of ranges, and on how the tokens of a comma-separated list are put together.
\<close>

locale hostlist_reader =
  fixes read_token :: "string \<Rightarrow> ('e, string list) outcome"
    and read :: "string \<Rightarrow> ('e, string list) outcome"
  assumes read_plain: "plain n \<Longrightarrow> read_token n = Some (Inr [n])"
    and read_runs: "plain p \<Longrightarrow> gs \<noteq> [] \<Longrightarrow> \<forall>g \<in> set gs. renders w g \<Longrightarrow>
      read_token (runs_token p w gs) =
        Some (Inr (map (\<lambda>v. p @ sprintf_0d w v) (concat (map run_nums gs))))"
    and read_join: "ts \<noteq> [] \<Longrightarrow> \<forall>t \<in> set ts. reads_back read_token t (nf t) \<Longrightarrow>
      (\<Union>t \<in> set ts. nf t) \<noteq> {} \<Longrightarrow>
      \<exists>ys. read (join '','' ts) = Some (Inr ys) \<and> distinct ys \<and> set ys = (\<Union>t \<in> set ts. nf t)"
begin

lemma reads_back_plain:
  assumes "n \<noteq> []" and "trimmed n" and "plain n"
  shows "reads_back read_token n {n}"
  using assms by (auto simp: reads_back_def uncut_plain read_plain)

lemma reads_back_runs:
  assumes "plain p" "\<forall>r \<in> set space_runes. \<not> prefix r p" "gs \<noteq> []" "\<forall>g \<in> set gs. renders w g"
  shows "reads_back read_token (runs_token p w gs)
    ((\<lambda>v. p @ sprintf_0d w v) ` set (concat (map run_nums gs)))"
  using runs_token_shape [OF assms] read_runs [OF assms(1,3,4)]
  unfolding reads_back_def by simp

lemma reads_back_bucket:
  assumes ok: "bucket_ok k b_nums"
  shows "reads_back read_token (render_bucket k b_nums) (bucket_name k ` set b_nums)"
proof -
  obtain p w where k: "k = (p, w)" by (cases k)
  define nums where "nums = dedup_ints (sort b_nums)"
  have sorted: "sorted_wrt (<) nums" and nums: "set nums = set b_nums"
    by (simp_all add: nums_def dedup_ints_sort)
  have vals: "fits w v" "v < max_int64" "trimmed (p @ sprintf_0d w v)" if "v \<in> set nums" for v
    using ok that by (auto simp: bucket_ok_def bucket_name_def k nums)
  have p: "plain p" using ok by (simp add: bucket_ok_def k)
  have ne: "nums \<noteq> []" using ok nums by (auto simp: bucket_ok_def)
  show ?thesis
  proof (cases "length nums = 1")
    case True
    then obtain v where v: "nums = [v]" by (cases nums) auto
    have "plain (p @ sprintf_0d w v)"
      using p plain_digits [OF fits_digits, of w v] vals(1) v by (auto simp: plain_def)
    moreover have "p @ sprintf_0d w v \<noteq> []" using fits_nonempty vals(1) v by simp
    ultimately have "reads_back read_token (p @ sprintf_0d w v) {p @ sprintf_0d w v}"
      using vals(3) v by (intro reads_back_plain) simp_all
    moreover have "bucket_name k ` set b_nums = {p @ sprintf_0d w v}"
      using v nums by (simp add: bucket_name_def k flip: nums)
    ultimately show ?thesis using v by (simp add: render_bucket_def k flip: nums_def)
  next
    case False
    let ?gs = "coalesce_runs nums"
    have "\<forall>n \<in> set nums. int64 n"
      using vals by (fastforce simp: fits_def int64_def min_int64_def)
    with sorted have gs: "concat (map run_nums ?gs) = nums" "\<forall>g \<in> set ?gs. lo g \<le> hi g"
      by (simp_all add: coalesce_runs_nums)
    have r: "renders w g" if g: "g \<in> set ?gs" for g
    proof -
      from g gs(2) have "{lo g, hi g} \<subseteq> set (run_nums g)" by (simp add: run_nums_def)
      with g have "{lo g, hi g} \<subseteq> set (concat (map run_nums ?gs))" by auto
      then show ?thesis using gs vals g by (simp add: renders_def)
    qed
    have gs_ne: "?gs \<noteq> []" using ne gs(1) by auto
    have dash: "\<not> (length (map (render_run w) ?gs) = 1 \<and> CHR ''-'' \<notin> set (hd (map (render_run w) ?gs)))"
    proof
      assume one: "length (map (render_run w) ?gs) = 1 \<and> CHR ''-'' \<notin> set (hd (map (render_run w) ?gs))"
      then obtain g where g: "?gs = [g]" by (cases ?gs) auto
      with gs(1) have "nums = run_nums g" by simp
      with False ne gs(2) g have "lo g \<noteq> hi g" by (auto simp: run_nums_def)
      with one g show False by (simp add: render_run_def)
    qed
    have "\<forall>r \<in> set space_runes. \<not> prefix r p"
      using vals(3) ne by (cases nums) (auto simp: trimmed_def dest: prefix_prefix)
    with p gs_ne r have "reads_back read_token (runs_token p w ?gs)
        ((\<lambda>v. p @ sprintf_0d w v) ` set (concat (map run_nums ?gs)))"
      by (intro reads_back_runs) auto
    moreover have "render_bucket k b_nums = runs_token p w ?gs"
      using False dash unfolding render_bucket_def runs_token_def k nums_def [symmetric] Let_def fst_conv snd_conv
      by (simp only: if_False)
    ultimately show ?thesis by (simp add: gs(1) nums bucket_name_def k)
  qed
qed

end

section \<open>Compressing and expanding again\<close>

text \<open>
  What a name needs so that the printed expression reads back: it is not empty, has none of the three
  characters of the syntax, no white space at its ends, and a trailing number that is not the largest
  \<open>int\<close> (a range up to that one would not end) and not wider than \<open>fmt\<close> pads.
\<close>

definition hostname :: "string \<Rightarrow> bool" where
  "hostname n \<longleftrightarrow> n \<noteq> [] \<and> plain n \<and> trimmed n \<and> length n \<le> fmt_width_max \<and>
     (case split_trailing_digits n of None \<Rightarrow> True | Some (p, ds) \<Rightarrow> int (digits_val ds) \<noteq> max_int64)"

lemma split_trailing_digits_Some:
  assumes "split_trailing_digits n = Some (p, ds)"
  shows "n = p @ ds" "ds \<noteq> []" "list_all is_digit ds"
proof -
  let ?d = "rev (takeWhile is_digit (rev n))"
  have ds: "ds = ?d" and ne: "ds \<noteq> []" and p: "p = take (length n - length ?d) n"
    using assms by (auto simp: split_trailing_digits_def Let_def split: if_splits)
  have n: "n = rev (dropWhile is_digit (rev n)) @ ?d"
    by (metis rev_append rev_rev_ident takeWhile_dropWhile_id)
  then have "p = rev (dropWhile is_digit (rev n))"
    unfolding p by (metis add_diff_cancel_right' append_eq_conv_conj length_append)
  with n ds show "n = p @ ds" by simp
  show "ds \<noteq> []" by (rule ne)
  show "list_all is_digit ds" unfolding ds by (auto simp: list_all_iff dest: set_takeWhileD)
qed

definition state_names :: "compress_state \<Rightarrow> string set" where
  "state_names st = set (literals st) \<union>
     (\<Union>k \<in> set (key_order st). bucket_name k ` set (the (buckets st k)))"

definition compress_inv :: "compress_state \<Rightarrow> bool" where
  "compress_inv st \<longleftrightarrow> dom (buckets st) = set (key_order st) \<and>
     (\<forall>k nums. buckets st k = Some nums \<longrightarrow> bucket_ok k nums) \<and>
     (\<forall>n \<in> set (literals st). hostname n)"

lemma compress_inv_bucket:
  assumes "compress_inv st" and "k \<in> set (key_order st)"
  shows "bucket_ok k (the (buckets st k))"
proof -
  from assms obtain nums where "buckets st k = Some nums"
    by (metis compress_inv_def domD)
  with assms(1) show ?thesis by (simp only: compress_inv_def option.sel)
qed

lemma hostname_number:
  assumes n: "hostname n" and split: "split_trailing_digits n = Some (p, ds)" and v: "atoi ds = Some v"
  shows "bucket_name (p, length ds) v = n" "bucket_ok (p, length ds) [v]"
proof -
  note ds = split_trailing_digits_Some [OF split]
  have val: "v = int (digits_val ds)" and le: "v \<le> max_int64"
    using v by (simp_all add: atoi_digits [OF ds(3,2)] split: if_splits)
  have len: "length ds \<le> fmt_width_max" using n ds(1) by (simp add: hostname_def)
  then show name: "bucket_name (p, length ds) v = n"
    using ds by (simp add: bucket_name_def val sprintf_0d_digits)
  have "v < 10 ^ length ds"
    using digits_val_bound [OF ds(3)] by (simp add: val)
  then have "fits (length ds) v" using len ds(2) by (simp add: fits_def val)
  moreover have "v < max_int64" using n le split val by (auto simp: hostname_def)
  moreover have "plain p" using n ds(1) by (auto simp: hostname_def plain_def)
  ultimately show "bucket_ok (p, length ds) [v]"
    using n name by (simp add: bucket_ok_def hostname_def)
qed

lemma compress_step_inv:
  assumes st: "compress_inv st" and n: "hostname n"
  shows "compress_inv (compress_step st n) \<and> state_names (compress_step st n) = insert n (state_names st)"
proof (cases "\<exists>p ds v. split_trailing_digits n = Some (p, ds) \<and> atoi ds = Some v")
  case False
  then have "compress_step st n = st\<lparr>literals := literals st @ [n]\<rparr>"
    by (auto simp: compress_step_def split: option.splits)
  with st n show ?thesis by (simp add: compress_inv_def state_names_def)
next
  case True
  then obtain p ds v where split: "split_trailing_digits n = Some (p, ds)" and v: "atoi ds = Some v"
    by blast
  let ?k = "(p, length ds)"
  note num = hostname_number [OF n split v]
  show ?thesis
  proof (cases "buckets st ?k")
    case None
    then have step: "compress_step st n =
        st\<lparr>buckets := (buckets st)(?k \<mapsto> [v]), key_order := key_order st @ [?k]\<rparr>"
      by (simp add: compress_step_def split v Let_def)
    have "?k \<notin> set (key_order st)" using st None by (auto simp: compress_inv_def)
    then have "(\<Union>k \<in> set (key_order st). bucket_name k ` set (the (((buckets st)(?k \<mapsto> [v])) k))) =
        (\<Union>k \<in> set (key_order st). bucket_name k ` set (the (buckets st k)))" by (intro SUP_cong) auto
    then have "state_names (compress_step st n) = insert n (state_names st)"
      using num(1) by (simp add: step state_names_def del: fun_upd_apply) (simp add: insert_commute)
    moreover have "compress_inv (compress_step st n)"
      using st num(2) by (auto simp: step compress_inv_def)
    ultimately show ?thesis by simp
  next
    case (Some nums)
    then have step: "compress_step st n = st\<lparr>buckets := (buckets st)(?k \<mapsto> nums @ [v])\<rparr>"
      by (simp add: compress_step_def split v Let_def)
    have in_order: "?k \<in> set (key_order st)" using st Some by (auto simp: compress_inv_def)
    have ok: "bucket_ok ?k (nums @ [v])"
      using st Some num(2) by (auto simp: compress_inv_def bucket_ok_def)
    have "bucket_name k ` set (the (((buckets st)(?k \<mapsto> nums @ [v])) k)) =
        (if k = ?k then insert n (bucket_name k ` set (the (buckets st k)))
         else bucket_name k ` set (the (buckets st k)))" for k
      using num(1) Some by auto
    then have "state_names (compress_step st n) = insert n (state_names st)"
      using in_order by (auto simp: step state_names_def split: if_splits)
    moreover have "compress_inv (compress_step st n)"
      using st Some ok in_order by (auto simp: step compress_inv_def)
    ultimately show ?thesis by simp
  qed
qed

lemma foldl_compress_step:
  "compress_inv st \<Longrightarrow> \<forall>n \<in> set ns. hostname n \<Longrightarrow>
    compress_inv (foldl compress_step st ns) \<and>
    state_names (foldl compress_step st ns) = set ns \<union> state_names st"
  by (induction ns arbitrary: st) (simp_all add: compress_step_inv)

text \<open>Reading a list of tokens collects what each reads back as.\<close>

lemma expand_tokens_reads_back:
  "\<forall>t \<in> set ts. reads_back read_token t (nf t) \<Longrightarrow> distinct out \<Longrightarrow>
    \<exists>ys. expand_tokens read_token ts out = Some (Inr ys) \<and> distinct ys \<and> set ys = set out \<union> (\<Union>t \<in> set ts. nf t)"
proof (induction ts arbitrary: out)
  case Nil
  then show ?case by simp
next
  case (Cons t ts)
  then obtain ys where t: "t \<noteq> []" "trimmed t" "read_token t = Some (Inr ys)" "set ys = nf t"
    by (auto simp: reads_back_def)
  from Cons.prems Cons.IH [of "add_new out ys"]
  obtain zs where "expand_tokens read_token ts (add_new out ys) = Some (Inr zs)" "distinct zs"
    "set zs = (set out \<union> nf t) \<union> (\<Union>t \<in> set ts. nf t)"
    by (auto simp: distinct_add_new t(4))
  with t show ?case by (auto simp: Let_def)
qed

lemma expand_join:
  assumes "ts \<noteq> []" and "\<forall>t \<in> set ts. reads_back expand_token t (nf t)" and "(\<Union>t \<in> set ts. nf t) \<noteq> {}"
  shows "\<exists>ys. expand (join '','' ts) = Some (Inr ys) \<and> distinct ys \<and> set ys = (\<Union>t \<in> set ts. nf t)"
proof -
  have "trimmed (join '','' ts)" using assms(1,2) by (intro trimmed_join) (auto simp: reads_back_def)
  moreover have "join '','' ts \<noteq> []"
    using assms(1,2) by (cases ts; cases "tl ts") (auto simp: reads_back_def)
  moreover have "split_top_level (join '','' ts) = Inr ts"
    using assms(1,2) by (intro split_top_level_join) (auto simp: reads_back_def)
  moreover obtain ys where "expand_tokens expand_token ts [] = Some (Inr ys)" "distinct ys" "set ys = (\<Union>t \<in> set ts. nf t)"
    using expand_tokens_reads_back [OF assms(2), of "[]"] by auto
  moreover from this assms(3) have "ys \<noteq> []" by auto
  ultimately show ?thesis by (simp add: expand_def)
qed

context hostlist_reader begin

lemma compress_reads_back:
  assumes "names \<noteq> []" and "\<forall>n \<in> set names. hostname n"
  shows "\<exists>ts nf. compress names = join '','' ts \<and> ts \<noteq> [] \<and> (\<forall>t \<in> set ts. reads_back read_token t (nf t)) \<and>
    (\<Union>t \<in> set ts. nf t) = set names"
proof -
  define st where "st = foldl compress_step \<lparr>buckets = Map.empty, key_order = [], literals = []\<rparr> (add_new [] names)"
  have inv: "compress_inv st" and nms: "state_names st = set names"
    using foldl_compress_step [of "\<lparr>buckets = Map.empty, key_order = [], literals = []\<rparr>" "add_new [] names"] assms(2)
    by (auto simp: st_def compress_inv_def state_names_def)
  let ?r = "\<lambda>k. render_bucket k (the (buckets st k))"
  let ?ts = "map ?r (key_order st) @ literals st"
  have lits: "reads_back read_token n {n}" if "n \<in> set (literals st)" for n
    using inv that by (intro reads_back_plain) (auto simp: compress_inv_def hostname_def)
  have bks: "reads_back read_token (?r k) (bucket_name k ` set (the (buckets st k)))" if "k \<in> set (key_order st)" for k
    using inv that by (intro reads_back_bucket compress_inv_bucket)
  define nf where "nf t = (THE s. reads_back read_token t s)" for t
  have nf: "nf t = s" if "reads_back read_token t s" for t s
    unfolding nf_def using that by (intro the_equality) (auto simp: reads_back_def)
  have "\<forall>t \<in> set ?ts. reads_back read_token t (nf t)"
    using lits bks by (simp add: ball_Un nf [OF lits] nf [OF bks])
  moreover have "(\<Union>t \<in> set ?ts. nf t) = state_names st"
    by (simp add: state_names_def nf [OF lits] nf [OF bks] Un_commute)
  moreover have "compress names = join '','' ?ts"
    using assms(1) by (simp add: compress_def Let_def st_def)
  moreover have "?ts \<noteq> []" using nms assms(1) by (auto simp: state_names_def)
  ultimately show ?thesis using nms by blast
qed

lemma read_compress:
  assumes "names \<noteq> []" and "\<forall>n \<in> set names. hostname n"
  shows "\<exists>ys. read (compress names) = Some (Inr ys) \<and> distinct ys \<and> set ys = set names"
proof -
  obtain ts nf where "compress names = join '','' ts" "ts \<noteq> []" "\<forall>t \<in> set ts. reads_back read_token t (nf t)"
    and nf: "(\<Union>t \<in> set ts. nf t) = set names"
    using compress_reads_back [OF assms] by blast
  with read_join [of ts nf] assms(1) show ?thesis by simp
qed

end

interpretation hl: hostlist_reader expand_token expand
proof
  show "expand_token n = Some (Inr [n])" if "plain n" for n
    using that by (simp add: expand_token_plain plain_def)
qed (rule expand_token_runs expand_join; assumption)+

section \<open>When Expand returns\<close>

text \<open>
  A pattern in which no run of digits is the largest \<open>int\<close> has no range that ends there. What the
  functions pass on are contiguous pieces of the pattern, so they inherit this.
\<close>

definition no_max :: "string \<Rightarrow> bool" where
  "no_max s \<longleftrightarrow>
     list_all (\<lambda>ds. list_all is_digit ds \<longrightarrow> int (digits_val ds) \<noteq> max_int64) (sublists s)"

lemma no_max_iff:
  "no_max s \<longleftrightarrow> (\<forall>ds. sublist ds s \<longrightarrow> list_all is_digit ds \<longrightarrow> int (digits_val ds) \<noteq> max_int64)"
  by (simp add: no_max_def list_all_iff Ball_def)

lemma no_max_sublist: "sublist t s \<Longrightarrow> no_max s \<Longrightarrow> no_max t"
  unfolding no_max_iff by (meson sublist_order.order_trans)

lemma sublist_trim_space: "sublist (trim_space s) s"
proof -
  have "prefix (trim_right t) t" for t
    using trim_front_suffix [of "length t" "map rev space_runes" "rev t"]
    by (simp add: trim_right_def suffix_to_prefix)
  then have "sublist (trim_space s) (trim_left s)"
    by (simp add: trim_space_def prefix_imp_sublist)
  moreover have "sublist (trim_left s) s"
    by (simp add: trim_left_def suffix_imp_sublist trim_front_suffix)
  ultimately show ?thesis by (rule sublist_order.order_trans)
qed

lemma sublist_split_on: "w \<in> set (split_on c s) \<Longrightarrow> sublist w s"
proof -
  have "sublist w (join [c] ws)" if "w \<in> set ws" for ws
    using that
  proof (induction "[c]" ws rule: join.induct)
    case (3 x y ys)
    show ?case
    proof (cases "w = x")
      case True
      then show ?thesis by simp
    next
      case False
      with 3 have "sublist w (join [c] (y # ys))" by simp
      then have "sublist w ((x @ [c]) @ join [c] (y # ys))"
        by (rule sublist_order.order_trans [OF _ sublist_append_leftI])
      then show ?thesis by simp
    qed
  qed simp_all
  from this [of "split_on c s"] show "w \<in> set (split_on c s) \<Longrightarrow> sublist w s"
    by (simp add: join_split_on)
qed

lemma split_scan_sublist:
  assumes "split_scan expr d tokens cur rest = Inr ts"
    and "\<forall>t \<in> set tokens. sublist t expr" and "suffix (cur @ rest) expr"
  shows "\<forall>t \<in> set ts. sublist t expr"
  using assms
proof (induction rest arbitrary: d tokens cur)
  case Nil
  then show ?case by (auto split: if_splits intro: suffix_imp_sublist)
next
  case (Cons ch rest)
  have suf: "suffix ((cur @ [ch]) @ rest) expr" using Cons.prems(3) by simp
  show ?case
  proof (cases "ch = CHR '','' \<and> d = 0")
    case True
    have "sublist cur expr"
      by (rule sublist_order.order_trans [OF sublist_append_rightI suffix_imp_sublist [OF Cons.prems(3)]])
    moreover have "suffix rest expr" using suf by (rule suffix_appendD)
    ultimately show ?thesis
      using True Cons.prems by (intro Cons.IH [of d "tokens @ [cur]" "[]"]) auto
  next
    case False
    with Cons.prems(1) obtain d' where "split_scan expr d' tokens (cur @ [ch]) rest = Inr ts"
      by (auto split: if_splits)
    then show ?thesis using Cons.prems(2) suf by (rule Cons.IH)
  qed
qed

lemma atoi_pos_digits:
  "atoi s = Some v \<Longrightarrow> 0 < v \<Longrightarrow> \<exists>ds. suffix ds s \<and> list_all is_digit ds \<and> int (digits_val ds) = v"
  by (cases s) (auto simp: atoi_def Let_def suffix_Cons split: if_splits)

lemma atoi_max_digits:
  assumes "atoi s = Some v" and "no_max s"
  shows "v \<noteq> max_int64"
proof
  assume v: "v = max_int64"
  then have "0 < v" by (simp add: max_int64_def)
  with assms(1) v obtain ds where "list_all is_digit ds" "int (digits_val ds) = max_int64" "suffix ds s"
    using atoi_pos_digits by blast
  with assms(2) show False by (auto simp: no_max_iff dest: suffix_imp_sublist)
qed

lemma expand_part_returns: "no_max part \<Longrightarrow> expand_part full part names \<noteq> None"
proof -
  assume nm: "no_max part"
  have "range_loop render a b names \<noteq> None"
    if "atoi s = Some a" and "atoi (drop (d + 1) part) = Some b" for a b render s d
  proof -
    have "no_max (drop (d + 1) part)"
      by (rule no_max_sublist [OF suffix_imp_sublist [OF suffix_drop] nm])
    with that(2) have "b \<noteq> max_int64" by (rule atoi_max_digits)
    with range_loop_returns_iff [OF atoi_int64 [OF that(1)] atoi_int64 [OF that(2)]]
    show ?thesis by simp
  qed
  then show ?thesis by (auto simp: expand_part_def Let_def split: option.splits)
qed

lemma obind_returns: "m \<noteq> None \<Longrightarrow> (\<And>a. m = Some (Inr a) \<Longrightarrow> f a \<noteq> None) \<Longrightarrow> obind m f \<noteq> None"
  by (auto simp: obind_def split: option.splits sum.splits)

lemma expand_parts_returns: "\<forall>p \<in> set ps. no_max p \<Longrightarrow> expand_parts full ps names \<noteq> None"
proof (induction ps arbitrary: names)
  case Nil
  then show ?case by simp
next
  case (Cons p ps)
  have "no_max (trim_space p)" using Cons.prems no_max_sublist [OF sublist_trim_space] by auto
  then have "obind (expand_part full (trim_space p) names) (expand_parts full ps) \<noteq> None"
    using Cons by (intro obind_returns expand_part_returns) auto
  then show ?case by (simp add: Let_def)
qed

lemma expand_range_returns: "no_max inner \<Longrightarrow> expand_range inner full \<noteq> None"
  using expand_parts_returns [of "split_on CHR '','' inner" full "[]"]
  by (auto simp: expand_range_def dest: sublist_split_on intro: no_max_sublist)

lemma expand_token_returns: "no_max tok \<Longrightarrow> expand_token tok \<noteq> None"
proof (induction tok rule: expand_token.induct)
  case (1 tok)
  show ?case
  proof (cases "index_byte tok CHR ''[''")
    case None
    then show ?thesis unfolding expand_token.simps [of tok] None by simp
  next
    case (Some oi)
    show ?thesis
    proof (cases "index_byte (drop oi tok) CHR '']''")
      case None
      then show ?thesis unfolding expand_token.simps [of tok] Some option.case None by simp
    next
      case rel: (Some rel)
      let ?suf = "drop (rel + oi + 1) tok"
      let ?inner = "drop (oi + 1) (take (rel + oi) tok)"
      have "no_max ?suf" by (rule no_max_sublist [OF suffix_imp_sublist [OF suffix_drop] "1.prems"])
      then have suf: "expand_token ?suf \<noteq> None" by (rule "1.IH" [OF Some rel refl refl refl refl])
      have "sublist ?inner tok"
        by (rule sublist_order.order_trans [OF suffix_imp_sublist [OF suffix_drop] prefix_imp_sublist [OF take_is_prefix]])
      then have "no_max ?inner" using "1.prems" by (rule no_max_sublist)
      then have "expand_range ?inner tok \<noteq> None" by (rule expand_range_returns)
      with suf show ?thesis
        unfolding expand_token.simps [of tok] Some rel option.case Let_def
        by (intro obind_returns) auto
    qed
  qed
qed

lemma expand_tokens_returns: "\<forall>t \<in> set ts. no_max t \<Longrightarrow> expand_tokens expand_token ts out \<noteq> None"
proof (induction ts arbitrary: out)
  case Nil
  then show ?case by simp
next
  case (Cons t ts)
  have "no_max (trim_space t)" using Cons.prems no_max_sublist [OF sublist_trim_space] by auto
  then have "obind (expand_token (trim_space t)) (\<lambda>e. expand_tokens expand_token ts (add_new out e)) \<noteq> None"
    using Cons by (intro obind_returns expand_token_returns) auto
  with Cons show ?case by (simp add: Let_def)
qed

lemma expand_no_max: "no_max pattern \<Longrightarrow> expand pattern \<noteq> None"
proof -
  assume nm: "no_max pattern"
  have "expand_tokens expand_token ts [] \<noteq> None" if "split_top_level pattern = Inr ts" for ts
    using split_scan_sublist [OF that [unfolded split_top_level_def]] no_max_sublist [OF _ nm]
    by (intro expand_tokens_returns) auto
  then have "obind (Some (split_top_level pattern)) (\<lambda>tokens. obind (expand_tokens expand_token tokens [])
      (\<lambda>out. if out = [] then Some (Inl (EmptyAfterParse pattern)) else Some (Inr out))) \<noteq> None"
    by (intro obind_returns) auto
  then show ?thesis by (simp add: expand_def del: obind_simps)
qed

lemma distinct_expand_tokens:
  "distinct out \<Longrightarrow> expand_tokens read_token ts out = Some (Inr ys) \<Longrightarrow> distinct ys \<and> prefix out ys"
proof (induction ts arbitrary: out)
  case Nil
  then show ?case by simp
next
  case (Cons t ts)
  show ?case
  proof (cases "trim_space t = []")
    case True
    with Cons show ?thesis by simp
  next
    case False
    with Cons.prems(2) obtain e where "expand_tokens read_token ts (add_new out e) = Some (Inr ys)"
      by (auto simp: Let_def elim: obind_eq_InrE)
    with Cons.IH [of "add_new out e"] Cons.prems(1) add_new_prefix [of out e] show ?thesis
      by (auto simp: distinct_add_new intro: prefix_order.trans)
  qed
qed


section \<open>Properties\<close>

text \<open>
  C40. What \<open>Compress\<close> prints for any list of host names, \<open>Expand\<close> reads back: it returns, without an
  error, exactly those names, each once.
\<close>

theorem expand_compress:
  assumes "names \<noteq> []" and "\<forall>n \<in> set names. hostname n"
  shows "\<exists>ys. expand (compress names) = Some (Inr ys) \<and> distinct ys \<and> set ys = set names"
  using assms by (rule hl.read_compress)

theorem expand_compress_witness:
  "\<exists>ys. expand (compress [''n09'', ''n10'', ''gw'', ''n11'', ''n10'', ''b7'']) = Some (Inr ys) \<and> distinct ys \<and>
    set ys = set [''n09'', ''n10'', ''gw'', ''n11'', ''n10'', ''b7'']"
proof (rule expand_compress)
  show "[''n09'', ''n10'', ''gw'', ''n11'', ''n10'', ''b7''] \<noteq> []" by simp
  show "\<forall>n \<in> set [''n09'', ''n10'', ''gw'', ''n11'', ''n10'', ''b7'']. hostname n" by code_simp
qed

text \<open>
  \<open>Expand\<close> returns for every pattern in which no run of digits is the largest \<open>int\<close>.
\<close>

theorem expand_returns:
  assumes "no_max pattern"
  shows "expand pattern \<noteq> None"
  using assms by (rule expand_no_max)

theorem expand_returns_witness: "expand ''rack[1-3]-n[01-12]'' \<noteq> None"
proof (rule expand_returns)
  show "no_max ''rack[1-3]-n[01-12]''" by code_simp
qed

text \<open>
  A bracket group with a range that ends at the largest \<open>int\<close> is never expanded: the loop counter
  wraps round and the loop does not end, whatever the prefix and the start of the range.
\<close>

theorem expand_max_diverges:
  assumes "plain p" and "list_all is_digit a" and "a \<noteq> []" and "int (digits_val a) \<le> max_int64"
  shows "expand_token (p @ ''['' @ (a @ ''-9223372036854775807'') @ '']'') = None"
proof -
  let ?b = "''9223372036854775807''"
  let ?q = "a @ CHR ''-'' # ?b"
  have chars: "CHR ''-'' \<notin> set a" "CHR '','' \<notin> set a" "CHR '']'' \<notin> set a"
    using plain_digits [OF assms(2)] assms(2) is_digit_not_sign by (auto simp: plain_def list_all_iff)
  have ends: "is_digit (hd ?q)" "is_digit (last ?q)"
    using assms(2,3) by (auto simp: hd_append list_all_iff) (simp add: is_digit_def)
  then have trim: "trim_space ?q = ?q" by (intro trim_space_trimmed trimmed_digit_ends) auto
  have b: "atoi ?b = Some max_int64" by code_simp
  have a: "atoi a = Some (int (digits_val a))" using assms(2-4) by (simp add: atoi_digits)
  have idx: "index_byte ?q CHR ''-'' = Some (length a)" using chars(1) by simp
  have "int64 (int (digits_val a))" using a by (rule atoi_int64)
  then have "expand_part full ?q [] = None" for full
    unfolding expand_part_def Let_def idx using assms(3,4) a b by (simp add: range_loop_max)
  then have "expand_range ?q full = None" for full
    using chars(2) trim by (simp add: expand_range_def Let_def)
  then show ?thesis
    using expand_token_group [of p ?q _ "[]"] assms(1) chars(3)
    by (simp add: plain_def expand_token_plain)
qed

theorem expand_max_diverges_witness:
  "expand_token (''n'' @ ''['' @ (''9223372036854775806'' @ ''-9223372036854775807'') @ '']'') = None"
proof (rule expand_max_diverges)
  show "plain ''n''" by (simp add: plain_def)
  show "list_all is_digit ''9223372036854775806''" by code_simp
  show "int (digits_val ''9223372036854775806'') \<le> max_int64" by code_simp
qed simp

text \<open>
  A token with several bracket groups is the cross product of its first group and the expansion of
  what follows, the first group varying slowest.
\<close>

theorem expand_token_cross:
  assumes "CHR ''['' \<notin> set p" and "CHR '']'' \<notin> set q"
    and "expand_token suf = Some (Inr ss)"
    and "expand_range q (p @ ''['' @ q @ '']'' @ suf) = Some (Inr ns)"
  shows "expand_token (p @ ''['' @ q @ '']'' @ suf) =
    Some (Inr (concat (map (\<lambda>n. map (\<lambda>s. p @ n @ s) ss) ns)))"
  using expand_token_group [OF assms(1,2) refl, of suf] assms(3,4) by (simp add: cross_product_def)

theorem expand_token_cross_witness:
  "expand_token (''r'' @ ''['' @ ''1-2'' @ '']'' @ ''-n[03]'') = Some (Inr [''r1-n03'', ''r2-n03''])"
proof -
  have "expand_token ''-n[03]'' = Some (Inr [''-n03''])" by code_simp
  moreover have "expand_range ''1-2'' (''r'' @ ''['' @ ''1-2'' @ '']'' @ ''-n[03]'') = Some (Inr [''1'', ''2''])"
    by code_simp
  ultimately show ?thesis using expand_token_cross [of "''r''" "''1-2''"] by simp
qed

text \<open>
  The names \<open>Expand\<close> returns are distinct, and there is at least one.
\<close>

theorem expand_distinct:
  assumes "expand pattern = Some (Inr ys)"
  shows "ys \<noteq> [] \<and> distinct ys"
  using assms distinct_expand_tokens [of "[]" expand_token]
  by (auto simp: expand_def split: if_splits elim!: obind_eq_InrE)

theorem expand_distinct_witness: "[''n1'', ''n2''] \<noteq> ([] :: string list) \<and> distinct [''n1'', ''n2'']"
proof (rule expand_distinct)
  show "expand ''n[1-2,1],n2'' = Some (Inr [''n1'', ''n2''])" by code_simp
qed

end
