(* ===== verification/Selector.thy ===== *)
theory Selector
  imports Hostlist "HOL-Library.Char_ord" "HOL-Library.List_Lexorder"
begin

text \<open>
  The node selector of \<open>internal/selector/selector.go\<close>: its own, older hostlist parser
  (\<open>ParseHostlist\<close>, \<open>expandToken\<close>, with \<open>splitTopLevel\<close> a copy of the one of \<open>pkg/hostlist\<close>) and
  \<open>Resolve\<close>, which turns a set of selector flags into node IDs. The database is the record
  \<open>selector_db\<close> of the four queries of the \<open>SelectorDB\<close> interface, each with its error. Go compares
  strings bytewise, which is the lexicographic order of List\_Lexorder on characters.
\<close>

section \<open>The legacy hostlist parser\<close>

text \<open>
  The regular expression \<open>^(.*?)\[([^\]]+)\](.*)$\<close>: the first opening bracket with a nonempty group
  up to the next closing one. The dots do not match a line feed.
\<close>

fun range_re :: "string \<Rightarrow> string \<Rightarrow> (string \<times> string \<times> string) option" where
  "range_re pre [] = None"
| "range_re pre (c # cs) =
     (let inner = takeWhile (\<lambda>d. d \<noteq> CHR '']'') cs; rest = dropWhile (\<lambda>d. d \<noteq> CHR '']'') cs in
      if c = CHR ''['' \<and> inner \<noteq> [] \<and> rest \<noteq> [] \<and> CHR 0x0A \<notin> set (tl rest)
      then Some (pre, inner, tl rest)
      else if c = CHR 0x0A then None
      else range_re (pre @ [c]) cs)"

datatype sel_parse_error =
    SplitError hl_error
  | NestedGroups string
  | InvalidStart string string
  | InvalidEnd string string
  | EndBeforeStart int int string
  | InvalidElement string string
  | EmptyHostlist

definition sel_split_top_level :: "string \<Rightarrow> sel_parse_error + string list" where
  "sel_split_top_level expr = (case split_scan expr 0 [] [] expr of Inl e \<Rightarrow> Inl (SplitError e) | Inr ts \<Rightarrow> Inr ts)"

fun sel_expand_parts ::
  "string \<Rightarrow> string \<Rightarrow> string \<Rightarrow> string list \<Rightarrow> string list \<Rightarrow> (sel_parse_error, string list) outcome" where
  "sel_expand_parts tok pre suf [] names = Some (Inr names)"
| "sel_expand_parts tok pre suf (p # ps) names =
     (let part = trim_space p in
      if part = [] then sel_expand_parts tok pre suf ps names
      else
        (case index_byte part CHR ''-'' of
           Some dash \<Rightarrow>
             (let start_str = take dash part; end_str = drop (dash + 1) part in
              case atoi start_str of
                None \<Rightarrow> Some (Inl (InvalidStart start_str tok))
              | Some start_val \<Rightarrow>
                (case atoi end_str of
                   None \<Rightarrow> Some (Inl (InvalidEnd end_str tok))
                 | Some end_val \<Rightarrow>
                   if end_val < start_val then Some (Inl (EndBeforeStart end_val start_val tok))
                   else
                     (let width = max (length start_str) (length end_str) in
                      case range_loop (\<lambda>i. pre @ sprintf_0d width i @ suf) start_val end_val names of
                        None \<Rightarrow> None
                      | Some names' \<Rightarrow> sel_expand_parts tok pre suf ps names')))
         | None \<Rightarrow>
           (case atoi part of
              None \<Rightarrow> Some (Inl (InvalidElement part tok))
            | Some n \<Rightarrow>
              sel_expand_parts tok pre suf ps (names @ [pre @ sprintf_0d (length part) n @ suf]))))"

definition sel_expand_token :: "string \<Rightarrow> (sel_parse_error, string list) outcome" where
  "sel_expand_token tok =
     (case range_re [] tok of
        None \<Rightarrow> Some (Inr [tok])
      | Some (pre, inner, suf) \<Rightarrow>
        if CHR ''['' \<in> set suf \<or> CHR '']'' \<in> set suf then Some (Inl (NestedGroups tok))
        else sel_expand_parts tok pre suf (split_on CHR '','' inner) [])"

definition parse_hostlist :: "string \<Rightarrow> (sel_parse_error, string list) outcome" where
  "parse_hostlist expr =
     obind (Some (sel_split_top_level expr)) (\<lambda>tokens.
     obind (expand_tokens sel_expand_token tokens []) (\<lambda>out.
       if out = [] then Some (Inl EmptyHostlist) else Some (Inr out)))"

section \<open>Resolve\<close>

record selector_set =
  nodes_expr :: string
  group_name :: string
  all_flag :: bool
  active_flag :: bool
  racks_expr :: string
  chassis_expr :: string
  ignore_status :: bool

definition selector_empty :: "selector_set \<Rightarrow> bool" where
  "selector_empty s \<longleftrightarrow> nodes_expr s = [] \<and> group_name s = [] \<and> \<not> all_flag s \<and> \<not> active_flag s \<and>
     racks_expr s = [] \<and> chassis_expr s = []"

record selector_node =
  sn_id :: string
  sn_hostname :: string
  sn_active :: bool

record 'e selector_db =
  list_all_nodes :: "'e + selector_node list"
  list_group_member_ids :: "string \<Rightarrow> 'e + string list"
  list_node_ids_by_rack_names :: "string list \<Rightarrow> 'e + string list"
  list_node_ids_by_enclosure_labels :: "string list \<Rightarrow> 'e + string list"

datatype 'e resolve_error =
    NoSelector
  | ListNodes 'e
  | InvalidHostlist string sel_parse_error
  | NodeNotFound string
  | GroupError string 'e
  | RacksError string 'e
  | ChassisError string 'e

text \<open>The map \<open>byHostname\<close>: a later node with the same name replaces an earlier one.\<close>

definition by_hostname :: "selector_node list \<Rightarrow> string \<Rightarrow> selector_node option" where
  "by_hostname nds h = find (\<lambda>n. sn_hostname n = h) (rev nds)"

definition passes_active_filter :: "selector_set \<Rightarrow> selector_node \<Rightarrow> bool" where
  "passes_active_filter s n =
     (if ignore_status s then True else if active_flag s \<and> \<not> all_flag s then sn_active n else True)"

fun add_hostnames ::
  "selector_node list \<Rightarrow> string list \<Rightarrow> string list \<Rightarrow> 'e resolve_error + string list" where
  "add_hostnames nds [] result = Inr result"
| "add_hostnames nds (h # hs) result =
     (case by_hostname nds h of
        None \<Rightarrow> Inl (NodeNotFound h)
      | Some n \<Rightarrow> add_hostnames nds hs (add_new result [sn_id n]))"

text \<open>The ID loops of group, racks and chassis: an ID outside the snapshot is skipped.\<close>

definition add_known :: "selector_node list \<Rightarrow> string list \<Rightarrow> string list \<Rightarrow> string list" where
  "add_known nds ids result = add_new result (filter (\<lambda>i. i \<in> sn_id ` set nds) ids)"

definition split_names :: "string \<Rightarrow> string list" where
  "split_names s = map trim_space (split_on CHR '','' s)"

definition resolve_all_active :: "selector_set \<Rightarrow> selector_node list \<Rightarrow> string list" where
  "resolve_all_active s nds =
     (let r1 = (if all_flag s then add_new [] (map sn_id nds) else []) in
      if active_flag s \<and> \<not> all_flag s
      then add_new r1 (map sn_id (filter (passes_active_filter s) nds)) else r1)"

definition resolve_nodes ::
  "selector_set \<Rightarrow> selector_node list \<Rightarrow> string list \<Rightarrow> ('e resolve_error, string list) outcome" where
  "resolve_nodes s nds r =
     (if nodes_expr s = [] then Some (Inr r)
      else (case parse_hostlist (nodes_expr s) of
              None \<Rightarrow> None
            | Some (Inl e) \<Rightarrow> Some (Inl (InvalidHostlist (nodes_expr s) e))
            | Some (Inr hostnames) \<Rightarrow> Some (add_hostnames nds hostnames r)))"

definition resolve_ids ::
  "string \<Rightarrow> ('e \<Rightarrow> 'e resolve_error) \<Rightarrow> ('e + string list) \<Rightarrow> selector_node list \<Rightarrow> string list
    \<Rightarrow> 'e resolve_error + string list" where
  "resolve_ids flag wrap answer nds r =
     (if flag = [] then Inr r
      else (case answer of Inl e \<Rightarrow> Inl (wrap e) | Inr ids \<Rightarrow> Inr (add_known nds ids r)))"

definition resolve :: "'e selector_db \<Rightarrow> selector_set \<Rightarrow> ('e resolve_error, string list) outcome" where
  "resolve db s =
     (if selector_empty s then Some (Inl NoSelector)
      else (case list_all_nodes db of
        Inl e \<Rightarrow> Some (Inl (ListNodes e))
      | Inr nds \<Rightarrow>
        obind (resolve_nodes s nds (resolve_all_active s nds)) (\<lambda>r2. Some (
        sbind (resolve_ids (group_name s) (GroupError (group_name s))
                 (list_group_member_ids db (group_name s)) nds r2) (\<lambda>r3.
        sbind (resolve_ids (racks_expr s) (RacksError (racks_expr s))
                 (list_node_ids_by_rack_names db (split_names (racks_expr s))) nds r3) (\<lambda>r4.
        sbind (resolve_ids (chassis_expr s) (ChassisError (chassis_expr s))
                 (list_node_ids_by_enclosure_labels db (split_names (chassis_expr s))) nds r4) (\<lambda>r5.
          Inr (sort r5))))))))"


section \<open>The legacy parser reads what Compress prints\<close>

lemma range_re_None: "CHR ''['' \<notin> set s \<Longrightarrow> range_re pre s = None"
  by (induction s arbitrary: pre) (auto simp: Let_def)

lemma range_re_group:
  assumes "CHR ''['' \<notin> set p" and "CHR 0x0A \<notin> set p" and "CHR '']'' \<notin> set q" and "q \<noteq> []"
  shows "range_re pre (p @ ''['' @ q @ '']'') = Some (pre @ p, q, [])"
  using assms(1,2)
proof (induction p arbitrary: pre)
  case Nil
  have "takeWhile (\<lambda>d. d \<noteq> CHR '']'') (q @ '']'') = q" "dropWhile (\<lambda>d. d \<noteq> CHR '']'') (q @ '']'') = '']''"
    using assms(3) by (simp_all add: takeWhile_append dropWhile_append dropWhile_eq_Nil_conv)
  with assms(4) show ?case by (simp add: Let_def)
next
  case (Cons c p)
  then have "c \<noteq> CHR ''[''" "c \<noteq> CHR 0x0A" by auto
  with Cons show ?case by (simp add: Let_def)
qed

lemma sel_expand_parts_runs:
  "\<forall>g \<in> set gs. renders w g \<Longrightarrow>
    sel_expand_parts tok p [] (map (render_run w) gs) names =
      Some (Inr (names @ map (\<lambda>v. p @ sprintf_0d w v) (concat (map run_nums gs))))"
proof (induction gs arbitrary: names)
  case Nil
  then show ?case by simp
next
  case (Cons g gs)
  then have g: "renders w g" and gs: "\<forall>g \<in> set gs. renders w g" by simp_all
  have lo_hi: "fits w (lo g)" "fits w (hi g)" "lo g \<le> hi g" "lo g \<le> max_int64" "hi g < max_int64"
    using g by (simp_all add: renders_def)
  have loop: "range_loop (\<lambda>i. p @ sprintf_0d w i) (lo g) (hi g) names =
      Some (names @ map (\<lambda>v. p @ sprintf_0d w v) [lo g..hi g])" for names
    using lo_hi by (intro range_loop_upto) (auto simp: fits_def int64_def min_int64_def)
  have shape: "trim_space (render_run w g) = render_run w g" "render_run w g \<noteq> []"
    using render_run_shape [OF g] by simp_all
  show ?case
  proof (cases "lo g = hi g")
    case True
    define t where "t = sprintf_0d w (lo g)"
    have "index_byte t CHR ''-'' = None" "atoi t = Some (lo g)" "length t = w" "trim_space t = t" "t \<noteq> []"
      using fits_no_dash [OF lo_hi(1)] atoi_sprintf [OF lo_hi(1,4)] length_sprintf_fits [OF lo_hi(1)] shape True
      by (simp_all add: t_def render_run_def)
    moreover have "render_run w g = t" "run_nums g = [lo g]"
      using True by (simp_all add: render_run_def run_nums_def t_def)
    ultimately show ?thesis
      using Cons.IH [OF gs, of "names @ [p @ t]"] by (simp add: Let_def del: index_byte_None flip: t_def)
  next
    case False
    have "index_byte (sprintf_0d w (lo g) @ CHR ''-'' # sprintf_0d w (hi g)) CHR ''-'' = Some w"
      using fits_no_dash [OF lo_hi(1)] length_sprintf_fits [OF lo_hi(1)] by simp
    with False shape Cons.IH [OF gs] lo_hi loop show ?thesis
      by (simp add: Let_def render_run_def run_nums_def atoi_sprintf length_sprintf_fits)
  qed
qed

lemma parse_hostlist_join:
  assumes "ts \<noteq> []" and "\<forall>t \<in> set ts. reads_back sel_expand_token t (nf t)" and "(\<Union>t \<in> set ts. nf t) \<noteq> {}"
  shows "\<exists>ys. parse_hostlist (join '','' ts) = Some (Inr ys) \<and> distinct ys \<and> set ys = (\<Union>t \<in> set ts. nf t)"
proof -
  have "split_scan (join '','' ts) 0 [] [] (join '','' ts) = Inr ([] @ ts)"
    using assms(1,2) by (intro split_scan_join) (auto simp: reads_back_def)
  moreover obtain ys where "expand_tokens sel_expand_token ts [] = Some (Inr ys)" "distinct ys"
    "set ys = (\<Union>t \<in> set ts. nf t)"
    using expand_tokens_reads_back [OF assms(2), of "[]"] by auto
  moreover from this assms(3) have "ys \<noteq> []" by auto
  ultimately show ?thesis by (simp add: parse_hostlist_def sel_split_top_level_def)
qed

interpretation sel: hostlist_reader sel_expand_token parse_hostlist
proof
  show "sel_expand_token n = Some (Inr [n])" if "plain n" for n
    using that by (simp add: sel_expand_token_def plain_def range_re_None)
  show "sel_expand_token (runs_token p w gs) =
      Some (Inr (map (\<lambda>v. p @ sprintf_0d w v) (concat (map run_nums gs))))"
    if "plain p" and gs: "gs \<noteq> []" "\<forall>g \<in> set gs. renders w g" for p w gs
  proof -
    have "range_re [] (runs_token p w gs) = Some ([] @ p, join '','' (map (render_run w) gs), [])"
      unfolding runs_token_def using \<open>plain p\<close> runs_group [OF gs]
      by (intro range_re_group) (auto simp: plain_def bracket_free_def)
    then show ?thesis
      using sel_expand_parts_runs [OF gs(2), of "runs_token p w gs" p "[]"] runs_group(2) [OF gs]
      by (simp add: sel_expand_token_def)
  qed
qed (rule parse_hostlist_join; assumption)

section \<open>What Resolve selects\<close>

text \<open>
  The abstract specification: the union of what each flag names, over one snapshot of the nodes. A
  group, rack or chassis contributes the IDs of the snapshot only.
\<close>

definition flag_ids :: "string \<Rightarrow> ('e + string list) \<Rightarrow> string set" where
  "flag_ids flag answer = (if flag = [] then {} else (case answer of Inl _ \<Rightarrow> {} | Inr ids \<Rightarrow> set ids))"

definition hostlist_names :: "string \<Rightarrow> string set" where
  "hostlist_names expr =
     (if expr = [] then {} else (case parse_hostlist expr of Some (Inr hs) \<Rightarrow> set hs | _ \<Rightarrow> {}))"

definition selected :: "'e selector_db \<Rightarrow> selector_set \<Rightarrow> selector_node list \<Rightarrow> string set" where
  "selected db s nds =
     {sn_id n | n. n \<in> set nds \<and> (all_flag s \<or> active_flag s \<and> (ignore_status s \<or> sn_active n))} \<union>
     {sn_id n | n h. h \<in> hostlist_names (nodes_expr s) \<and> by_hostname nds h = Some n} \<union>
     sn_id ` set nds \<inter>
       (flag_ids (group_name s) (list_group_member_ids db (group_name s)) \<union>
        flag_ids (racks_expr s) (list_node_ids_by_rack_names db (split_names (racks_expr s))) \<union>
        flag_ids (chassis_expr s) (list_node_ids_by_enclosure_labels db (split_names (chassis_expr s))))"

lemma by_hostname_Some: "by_hostname nds h = Some n \<Longrightarrow> n \<in> set nds \<and> sn_hostname n = h"
  by (auto simp: by_hostname_def find_Some_iff) (metis nth_mem set_rev length_rev)

lemma resolve_all_active_set:
  "distinct (resolve_all_active s nds) \<and>
   set (resolve_all_active s nds) =
     {sn_id n | n. n \<in> set nds \<and> (all_flag s \<or> active_flag s \<and> (ignore_status s \<or> sn_active n))}"
  by (auto simp: resolve_all_active_def Let_def distinct_add_new passes_active_filter_def)

lemma add_hostnames_set:
  assumes "add_hostnames nds hs r = Inr r'" and "distinct r"
  shows "distinct r' \<and> set r' = set r \<union> {sn_id n | n h. h \<in> set hs \<and> by_hostname nds h = Some n}
    \<and> (\<forall>h \<in> set hs. by_hostname nds h \<noteq> None)"
  using assms
proof (induction hs arbitrary: r)
  case Nil
  then show ?case by simp
next
  case (Cons h hs)
  then obtain n where n: "by_hostname nds h = Some n" by (auto split: option.splits)
  with Cons.prems Cons.IH [of "add_new r [sn_id n]"]
  have "distinct r' \<and> set r' = set (add_new r [sn_id n]) \<union> {sn_id n | n h. h \<in> set hs \<and> by_hostname nds h = Some n}
    \<and> (\<forall>h \<in> set hs. by_hostname nds h \<noteq> None)"
    by (simp add: distinct_add_new del: add_new.simps)
  with n show ?case by auto
qed

lemma resolve_nodes_set:
  assumes "resolve_nodes s nds r = Some (Inr r')" and "distinct r"
  shows "distinct r' \<and>
    set r' = set r \<union> {sn_id n | n h. h \<in> hostlist_names (nodes_expr s) \<and> by_hostname nds h = Some n}"
  using assms add_hostnames_set [of nds _ r r']
  by (auto simp: resolve_nodes_def hostlist_names_def split: if_splits option.splits sum.splits)

lemma resolve_ids_set:
  assumes "resolve_ids flag wrap answer nds r = Inr r'" and "distinct r"
  shows "distinct r' \<and> set r' = set r \<union> sn_id ` set nds \<inter> flag_ids flag answer"
  using assms
  by (auto simp: resolve_ids_def flag_ids_def add_known_def distinct_add_new split: if_splits sum.splits)

lemma resolve_selected:
  fixes db :: "'e selector_db"
  assumes "resolve db s = Some (Inr ids)"
  shows "\<exists>nds. list_all_nodes db = Inr nds \<and> sorted ids \<and> distinct ids \<and> set ids = selected db s nds"
proof -
  from assms obtain nds where nds: "list_all_nodes db = Inr nds"
    by (auto simp: resolve_def split: if_splits sum.splits)
  let ?r1 = "resolve_all_active s nds"
  from assms nds have "\<exists>r2 r3 r4 r5. resolve_nodes s nds ?r1 = (Some (Inr r2) :: ('e resolve_error, string list) outcome)
    \<and> resolve_ids (group_name s) (GroupError (group_name s))
      (list_group_member_ids db (group_name s)) nds r2 = Inr r3
    \<and> resolve_ids (racks_expr s) (RacksError (racks_expr s))
      (list_node_ids_by_rack_names db (split_names (racks_expr s))) nds r3 = Inr r4
    \<and> resolve_ids (chassis_expr s) (ChassisError (chassis_expr s))
      (list_node_ids_by_enclosure_labels db (split_names (chassis_expr s))) nds r4 = Inr r5
    \<and> ids = sort r5"
    by (auto simp: resolve_def sbind_eq_Inr_iff split: if_splits elim!: obind_eq_InrE)
  then obtain r2 r3 r4 r5 where r2: "resolve_nodes s nds ?r1 = (Some (Inr r2) :: ('e resolve_error, string list) outcome)"
    and r3: "resolve_ids (group_name s) (GroupError (group_name s))
      (list_group_member_ids db (group_name s)) nds r2 = Inr r3"
    and r4: "resolve_ids (racks_expr s) (RacksError (racks_expr s))
      (list_node_ids_by_rack_names db (split_names (racks_expr s))) nds r3 = Inr r4"
    and r5: "resolve_ids (chassis_expr s) (ChassisError (chassis_expr s))
      (list_node_ids_by_enclosure_labels db (split_names (chassis_expr s))) nds r4 = Inr r5"
    and ids: "ids = sort r5"
    by blast
  note r1 = resolve_all_active_set [of s nds]
  note s2 = resolve_nodes_set [OF r2 conjunct1 [OF r1]]
  note s3 = resolve_ids_set [OF r3 conjunct1 [OF s2]]
  note s4 = resolve_ids_set [OF r4 conjunct1 [OF s3]]
  note s5 = resolve_ids_set [OF r5 conjunct1 [OF s4]]
  have "set r5 = selected db s nds"
    unfolding selected_def using r1 s2 s3 s4 s5 by auto
  with s5 nds ids show ?thesis by simp
qed


lemma add_hostnames_unknown:
  assumes "h \<in> set hs" and "by_hostname nds h = None"
  shows "\<exists>h'. add_hostnames nds hs r = Inl (NodeNotFound h') \<and> h' \<in> set hs \<and> by_hostname nds h' = None"
  using assms(1)
proof (induction hs arbitrary: r)
  case Nil
  then show ?case by simp
next
  case (Cons k ks)
  show ?case
  proof (cases "by_hostname nds k")
    case None
    then show ?thesis by simp
  next
    case (Some n)
    with Cons.prems assms(2) have "h \<in> set ks" by auto
    with Cons.IH Some show ?thesis by fastforce
  qed
qed

section \<open>Properties\<close>

text \<open>
  C39. When \<open>Resolve\<close> succeeds, its result is the sorted list, without duplicates, of exactly the node
  IDs that the flags select in the snapshot it read.
\<close>

theorem resolve_exact:
  assumes "resolve db s = Some (Inr ids)"
  shows "\<exists>nds. list_all_nodes db = Inr nds \<and> sorted ids \<and> distinct ids \<and> set ids = selected db s nds"
  using assms by (rule resolve_selected)

definition example_db :: "string selector_db" where
  "example_db =
     \<lparr>list_all_nodes = Inr [\<lparr>sn_id = ''i2'', sn_hostname = ''n2'', sn_active = True\<rparr>,
                           \<lparr>sn_id = ''i1'', sn_hostname = ''n1'', sn_active = False\<rparr>,
                           \<lparr>sn_id = ''i3'', sn_hostname = ''n3'', sn_active = False\<rparr>],
      list_group_member_ids = (\<lambda>g. if g = ''gpu'' then Inr [''i1'', ''i9''] else Inl ''not found''),
      list_node_ids_by_rack_names = (\<lambda>_. Inr []),
      list_node_ids_by_enclosure_labels = (\<lambda>_. Inr [])\<rparr>"

definition example_set :: selector_set where
  "example_set = \<lparr>nodes_expr = [], group_name = ''gpu'', all_flag = False, active_flag = True,
     racks_expr = [], chassis_expr = [], ignore_status = False\<rparr>"

theorem resolve_exact_witness:
  "\<exists>nds. list_all_nodes example_db = Inr nds \<and> sorted [''i1'', ''i2''] \<and> distinct [''i1'', ''i2''] \<and>
    set [''i1'', ''i2''] = selected example_db example_set nds"
proof (rule resolve_exact)
  show "resolve example_db example_set = Some (Inr [''i1'', ''i2''])" by code_simp
qed

text \<open>
  A host name of the \<open>-n\<close> expression that no node of the snapshot has makes the whole call fail
  with the name of such a host; the other flags do not matter.
\<close>

theorem resolve_unknown_host:
  fixes db :: "'e selector_db"
  assumes "list_all_nodes db = Inr nds" and "parse_hostlist (nodes_expr s) = Some (Inr hs)"
    and "h \<in> set hs" and "by_hostname nds h = None"
  shows "\<exists>h'. resolve db s = Some (Inl (NodeNotFound h')) \<and> h' \<in> set hs \<and> by_hostname nds h' = None"
proof -
  have "parse_hostlist [] = Some (Inl EmptyHostlist)" by code_simp
  with assms(2) have expr: "nodes_expr s \<noteq> []" by auto
  then have "\<not> selector_empty s" by (simp add: selector_empty_def)
  moreover from add_hostnames_unknown [OF assms(3,4)] obtain h' where
    "add_hostnames nds hs (resolve_all_active s nds) = (Inl (NodeNotFound h') :: 'e resolve_error + string list)" "h' \<in> set hs" "by_hostname nds h' = None"
    by blast
  ultimately have "resolve db s = Some (Inl (NodeNotFound h'))"
    using assms(1,2) expr by (simp add: resolve_def resolve_nodes_def)
  with \<open>h' \<in> set hs\<close> \<open>by_hostname nds h' = None\<close> show ?thesis by blast
qed

theorem resolve_unknown_host_witness:
  "\<exists>h'. resolve example_db (example_set\<lparr>nodes_expr := ''n[2-4]''\<rparr>) = Some (Inl (NodeNotFound h')) \<and>
    h' \<in> set [''n2'', ''n3'', ''n4''] \<and>
    by_hostname [\<lparr>sn_id = ''i2'', sn_hostname = ''n2'', sn_active = True\<rparr>,
                 \<lparr>sn_id = ''i1'', sn_hostname = ''n1'', sn_active = False\<rparr>,
                 \<lparr>sn_id = ''i3'', sn_hostname = ''n3'', sn_active = False\<rparr>] h' = None"
proof (rule resolve_unknown_host [where h = "''n4''"])
  show "parse_hostlist (nodes_expr (example_set\<lparr>nodes_expr := ''n[2-4]''\<rparr>)) = Some (Inr [''n2'', ''n3'', ''n4''])"
    by code_simp
qed (simp_all add: example_db_def by_hostname_def)

text \<open>
  The hostlist parser behind the \<open>-n\<close> flag reads what \<open>Compress\<close> prints, with the names it was
  given as the result.
\<close>

theorem parse_hostlist_compress:
  assumes "names \<noteq> []" and "\<forall>n \<in> set names. hostname n"
  shows "\<exists>ys. parse_hostlist (compress names) = Some (Inr ys) \<and> distinct ys \<and> set ys = set names"
  using assms by (rule sel.read_compress)

theorem parse_hostlist_compress_witness:
  "\<exists>ys. parse_hostlist (compress [''n2'', ''n1'', ''gw'']) = Some (Inr ys) \<and> distinct ys \<and>
    set ys = set [''n2'', ''n1'', ''gw'']"
proof (rule parse_hostlist_compress)
  show "\<forall>n \<in> set [''n2'', ''n1'', ''gw'']. hostname n" by code_simp
qed simp

end
