(* ===== verification/Posixid.thy ===== *)
theory Posixid
  imports Go_Prelude
begin

text \<open>
  The POSIX id allocator of \<open>internal/posixid\<close>: the allocator of \<open>allocator.go\<close> over the interface
  \<open>IDSource\<close>, and \<open>DBLDAPSource\<close> of \<open>source.go\<close>, its implementation on the database and the directory.
  The allocator keeps no state: it reads the source on every call, so an \<open>id_source\<close> is the record of
  what the five calls return, each with its error. The scan of a range counts with a 64-bit \<open>int\<close>; it
  is shared with the port allocator of the multicast scheduler through the locale \<open>first_fit\<close>.
\<close>

section \<open>Scanning a range for the first free number\<close>

text \<open>
  The loop \<open>for id := min; id <= max; id++\<close> that returns the first number not blocked. \<open>None\<close> is
  the loop that does not end.
\<close>

partial_function (option) scan_range :: "(int \<Rightarrow> bool) \<Rightarrow> int \<Rightarrow> int \<Rightarrow> int option option" where
  "scan_range blocked lim i =
     (if i \<le> lim then
        (if blocked i then scan_range blocked lim (wrap64 (i + 1)) else Some (Some i))
      else Some None)"

declare scan_range.simps [code]

interpretation scan: first_fit "\<lambda>lim i. scan_range blocked lim i" blocked Some None
  for blocked
  by unfold_locales (simp_all add: scan_range.simps [of _ _ i for i])

section \<open>The allocator\<close>

type_synonym id_range = "int \<times> int"
type_synonym role = string
type_synonym id_kind = string

definition role_ldap_user :: role where "role_ldap_user = ''ldap_user''"
definition role_system_account :: role where "role_system_account = ''system_account''"

definition kind_uid :: id_kind where "kind_uid = ''uid''"
definition kind_gid :: id_kind where "kind_gid = ''gid''"

record config =
  uid_min :: int
  uid_max :: int
  gid_min :: int
  gid_max :: int
  reserved_uid_ranges :: "id_range list"
  reserved_gid_ranges :: "id_range list"

text \<open>The interface \<open>IDSource\<close>: what its five calls return now.\<close>

record 'e id_source =
  list_ldap_uids :: "'e + int list"
  list_ldap_gids :: "'e + int list"
  list_sys_uids :: "'e + int list"
  list_sys_gids :: "'e + int list"
  get_config :: "role \<Rightarrow> 'e + config"

datatype 'e posix_error =
    ReadConfig role 'e
  | ListLDAP 'e
  | ListSys 'e
  | RangeExhausted
  | UnknownKind id_kind
  | OutOfRange int int int
  | Reserved int int int
  | CollisionCheck "'e posix_error"
  | Collision id_kind int

fun is_reserved :: "int \<Rightarrow> id_range list \<Rightarrow> bool" where
  "is_reserved n [] = False"
| "is_reserved n ((lo, hi) # ranges) = (if n \<ge> lo \<and> n \<le> hi then True else is_reserved n ranges)"

fun to_set :: "int list list \<Rightarrow> int set" where
  "to_set [] = {}"
| "to_set (s # slices) = set s \<union> to_set slices"

definition allocate :: "int \<Rightarrow> int \<Rightarrow> id_range list \<Rightarrow> int set \<Rightarrow> ('e posix_error, int) outcome" where
  "allocate lo hi reserved used =
     (case scan_range (\<lambda>n. is_reserved n reserved \<or> n \<in> used) hi lo of
        None \<Rightarrow> None
      | Some None \<Rightarrow> Some (Inl RangeExhausted)
      | Some (Some n) \<Rightarrow> Some (Inr n))"

definition allocate_uid :: "'e id_source \<Rightarrow> role \<Rightarrow> ('e posix_error, int) outcome" where
  "allocate_uid src role =
     obind (Some (map_err (ReadConfig role) (get_config src role))) (\<lambda>cfg.
     obind (Some (map_err ListLDAP (list_ldap_uids src))) (\<lambda>ldap.
     obind (Some (map_err ListSys (list_sys_uids src))) (\<lambda>sys.
       allocate (uid_min cfg) (uid_max cfg) (reserved_uid_ranges cfg) (to_set [ldap, sys]))))"

definition allocate_gid :: "'e id_source \<Rightarrow> role \<Rightarrow> ('e posix_error, int) outcome" where
  "allocate_gid src role =
     obind (Some (map_err (ReadConfig role) (get_config src role))) (\<lambda>cfg.
     obind (Some (map_err ListLDAP (list_ldap_gids src))) (\<lambda>ldap.
     obind (Some (map_err ListSys (list_sys_gids src))) (\<lambda>sys.
       allocate (gid_min cfg) (gid_max cfg) (reserved_gid_ranges cfg) (to_set [ldap, sys]))))"

definition check_collision :: "'e id_source \<Rightarrow> int \<Rightarrow> id_kind \<Rightarrow> 'e posix_error + bool" where
  "check_collision src n kind =
     (if kind = kind_uid then
        sbind (map_err ListLDAP (list_ldap_uids src)) (\<lambda>ldap.
        sbind (map_err ListSys (list_sys_uids src)) (\<lambda>sys. Inr (n \<in> set (ldap @ sys))))
      else if kind = kind_gid then
        sbind (map_err ListLDAP (list_ldap_gids src)) (\<lambda>ldap.
        sbind (map_err ListSys (list_sys_gids src)) (\<lambda>sys. Inr (n \<in> set (ldap @ sys))))
      else Inl (UnknownKind kind))"

fun find_reserved :: "int \<Rightarrow> id_range list \<Rightarrow> id_range option" where
  "find_reserved n [] = None"
| "find_reserved n ((lo, hi) # ranges) =
     (if n \<ge> lo \<and> n \<le> hi then Some (lo, hi) else find_reserved n ranges)"

definition validate :: "'e id_source \<Rightarrow> int \<Rightarrow> id_kind \<Rightarrow> role \<Rightarrow> 'e posix_error + unit" where
  "validate src n kind role =
     sbind (map_err (ReadConfig role) (get_config src role)) (\<lambda>cfg.
     sbind (if kind = kind_uid then Inr (uid_min cfg, uid_max cfg, reserved_uid_ranges cfg)
            else if kind = kind_gid then Inr (gid_min cfg, gid_max cfg, reserved_gid_ranges cfg)
            else Inl (UnknownKind kind)) (\<lambda>(lo, hi, reserved).
       if n < lo \<or> n > hi then Inl (OutOfRange n lo hi)
       else
         (case find_reserved n reserved of
            Some (rlo, rhi) \<Rightarrow> Inl (Reserved n rlo rhi)
          | None \<Rightarrow>
            sbind (map_err CollisionCheck (check_collision src n kind)) (\<lambda>collision.
              if collision then Inl (Collision kind n) else Inr ()))))"

section \<open>The source on the database\<close>

text \<open>
  A row of \<open>posixid_role_ranges\<close> or \<open>posixid_config\<close>: the reserved ranges are stored as JSON text.
\<close>

record range_row =
  row_uid_min :: int
  row_uid_max :: int
  row_gid_min :: int
  row_gid_max :: int
  row_reserved_uid :: string
  row_reserved_gid :: string

record 'd posix_db =
  db_role_range :: "role \<Rightarrow> 'd + range_row"
  db_config :: "'d + range_row"
  db_sys_uids :: "'d + int list"
  db_sys_gids :: "'d + int list"

text \<open>\<open>DBLDAPSource\<close>: the database and the two optional directory listers.\<close>

record 'd db_ldap_source =
  src_db :: "'d posix_db"
  src_uids :: "('d + int list) option"
  src_gids :: "('d + int list) option"

datatype 'd source_error =
    SourceCall 'd
  | LegacyFailed role 'd
  | ParseReserved id_kind 'd

text \<open>
  \<open>ParseRanges\<close> over \<open>json.Unmarshal\<close> into a slice of pairs: the decoder of \<open>encoding/json\<close> is the
  parameter \<open>unmarshal\<close>.
\<close>

definition parse_ranges :: "(string \<Rightarrow> 'd + (int \<times> int) list) \<Rightarrow> string \<Rightarrow> 'd + id_range list" where
  "parse_ranges unmarshal raw =
     (if raw = '''' then Inr [] else sbind (unmarshal raw) (\<lambda>pairs. Inr (map (\<lambda>p. (fst p, snd p)) pairs)))"

definition row_config :: "(string \<Rightarrow> 'd + (int \<times> int) list) \<Rightarrow> range_row \<Rightarrow> 'd source_error + config" where
  "row_config unmarshal row =
     sbind (map_err (ParseReserved kind_uid) (parse_ranges unmarshal (row_reserved_uid row))) (\<lambda>reserved_uid.
     sbind (map_err (ParseReserved kind_gid) (parse_ranges unmarshal (row_reserved_gid row))) (\<lambda>reserved_gid.
       Inr \<lparr>uid_min = row_uid_min row, uid_max = row_uid_max row, gid_min = row_gid_min row,
            gid_max = row_gid_max row, reserved_uid_ranges = reserved_uid,
            reserved_gid_ranges = reserved_gid\<rparr>))"

definition source_get_config ::
  "(string \<Rightarrow> 'd + (int \<times> int) list) \<Rightarrow> 'd db_ldap_source \<Rightarrow> role \<Rightarrow> 'd source_error + config" where
  "source_get_config unmarshal s role =
     (case db_role_range (src_db s) role of
        Inl _ \<Rightarrow> sbind (map_err (LegacyFailed role) (db_config (src_db s))) (row_config unmarshal)
      | Inr row \<Rightarrow> row_config unmarshal row)"

definition source_list_ldap :: "('d + int list) option \<Rightarrow> 'd source_error + int list" where
  "source_list_ldap lister = (case lister of None \<Rightarrow> Inr [] | Some r \<Rightarrow> map_err SourceCall r)"

definition db_source ::
  "(string \<Rightarrow> 'd + (int \<times> int) list) \<Rightarrow> 'd db_ldap_source \<Rightarrow> 'd source_error id_source" where
  "db_source unmarshal s =
     \<lparr>list_ldap_uids = source_list_ldap (src_uids s),
      list_ldap_gids = source_list_ldap (src_gids s),
      list_sys_uids = map_err SourceCall (db_sys_uids (src_db s)),
      list_sys_gids = map_err SourceCall (db_sys_gids (src_db s)),
      get_config = source_get_config unmarshal s\<rparr>"

section \<open>What the allocator promises\<close>

text \<open>
  The contract of an allocator towards the validator: over a readable source, an id is returned only
  if it validates, and the least such. Both kinds of id meet it; \<open>allocate_kind\<close> names the two calls.
\<close>

definition allocate_kind :: "id_kind \<Rightarrow> 'e id_source \<Rightarrow> role \<Rightarrow> ('e posix_error, int) outcome" where
  "allocate_kind kind src role =
     (if kind = kind_uid then allocate_uid src role else allocate_gid src role)"

definition range_min :: "id_kind \<Rightarrow> config \<Rightarrow> int" where
  "range_min kind cfg = (if kind = kind_uid then uid_min cfg else gid_min cfg)"

definition range_max :: "id_kind \<Rightarrow> config \<Rightarrow> int" where
  "range_max kind cfg = (if kind = kind_uid then uid_max cfg else gid_max cfg)"

definition range_reserved :: "id_kind \<Rightarrow> config \<Rightarrow> id_range list" where
  "range_reserved kind cfg =
     (if kind = kind_uid then reserved_uid_ranges cfg else reserved_gid_ranges cfg)"

definition kind_ldap :: "id_kind \<Rightarrow> 'e id_source \<Rightarrow> 'e + int list" where
  "kind_ldap kind src = (if kind = kind_uid then list_ldap_uids src else list_ldap_gids src)"

definition kind_sys :: "id_kind \<Rightarrow> 'e id_source \<Rightarrow> 'e + int list" where
  "kind_sys kind src = (if kind = kind_uid then list_sys_uids src else list_sys_gids src)"

definition taken :: "id_kind \<Rightarrow> config \<Rightarrow> int list \<Rightarrow> int list \<Rightarrow> int \<Rightarrow> bool" where
  "taken kind cfg ldap sys n \<longleftrightarrow>
     (\<exists>(lo, hi) \<in> set (range_reserved kind cfg). lo \<le> n \<and> n \<le> hi) \<or> n \<in> set ldap \<or> n \<in> set sys"

lemmas kind_defs = range_min_def range_max_def range_reserved_def kind_ldap_def kind_sys_def

lemma kind_gid_not_uid [simp]: "kind_gid \<noteq> kind_uid" "kind_uid \<noteq> kind_gid"
  by (simp_all add: kind_uid_def kind_gid_def)

lemma set_to_set [simp]: "to_set ss = (\<Union>s \<in> set ss. set s)"
  by (induction ss) auto

lemma is_reserved_iff [simp]: "is_reserved n rs \<longleftrightarrow> (\<exists>(lo, hi) \<in> set rs. lo \<le> n \<and> n \<le> hi)"
  by (induction n rs rule: is_reserved.induct) auto

lemma find_reserved_None [simp]: "find_reserved n rs = None \<longleftrightarrow> \<not> is_reserved n rs"
  by (induction n rs rule: find_reserved.induct) auto

lemma validate_ok_iff:
  assumes "kind \<in> {kind_uid, kind_gid}"
  shows "validate src n kind role = Inr () \<longleftrightarrow>
    (\<exists>cfg ldap sys. get_config src role = Inr cfg \<and> kind_ldap kind src = Inr ldap \<and>
       kind_sys kind src = Inr sys \<and> range_min kind cfg \<le> n \<and> n \<le> range_max kind cfg \<and>
       \<not> taken kind cfg ldap sys n)"
proof (cases "get_config src role")
  case (Inl e)
  then show ?thesis by (simp add: validate_def)
next
  case (Inr cfg)
  note cfg = this
  show ?thesis
  proof (cases "find_reserved n (range_reserved kind cfg)")
    case (Some r)
    then have "\<exists>(lo, hi) \<in> set (range_reserved kind cfg). lo \<le> n \<and> n \<le> hi"
      using find_reserved_None [of n "range_reserved kind cfg"] by (simp del: find_reserved_None)
    then have "taken kind cfg ldap sys n" for ldap sys by (simp add: taken_def)
    moreover obtain lo hi where "r = (lo, hi)" by (cases r)
    ultimately show ?thesis using assms cfg Some
      by (auto simp: validate_def kind_defs split: if_splits)
  next
    case None
    then have "taken kind cfg ldap sys n \<longleftrightarrow> n \<in> set ldap \<or> n \<in> set sys" for ldap sys
      by (auto simp: taken_def)
    with None assms cfg show ?thesis
      by (cases "kind_ldap kind src"; cases "kind_sys kind src")
        (auto simp: validate_def check_collision_def kind_defs simp del: find_reserved_None split: if_splits)
  qed
qed

lemma allocate_kind_readable:
  assumes "kind \<in> {kind_uid, kind_gid}" and "get_config src role = Inr cfg"
    and "kind_ldap kind src = Inr ldap" and "kind_sys kind src = Inr sys"
  shows "allocate_kind kind src role =
    (case scan_range (taken kind cfg ldap sys) (range_max kind cfg) (range_min kind cfg) of
       None \<Rightarrow> None | Some None \<Rightarrow> Some (Inl RangeExhausted) | Some (Some n) \<Rightarrow> Some (Inr n))"
proof -
  have "(\<lambda>n. is_reserved n (range_reserved kind cfg) \<or> n \<in> to_set [ldap, sys]) = taken kind cfg ldap sys"
    by (auto simp: taken_def fun_eq_iff)
  with assms show ?thesis
    by (auto simp: allocate_kind_def allocate_uid_def allocate_gid_def allocate_def kind_defs)
qed

lemma allocate_kind_readable_iff:
  assumes "kind \<in> {kind_uid, kind_gid}" and "get_config src role = Inr cfg"
    and "allocate_kind kind src role = Some r" and "r = Inr n \<or> r = Inl RangeExhausted"
  obtains ldap sys where "kind_ldap kind src = Inr ldap" and "kind_sys kind src = Inr sys"
  using assms
  by (cases "kind_ldap kind src"; cases "kind_sys kind src")
    (auto simp: allocate_kind_def allocate_uid_def allocate_gid_def kind_defs split: if_splits)

text \<open>
  C38. AllocateUID and AllocateGID return exactly the least id that Validate accepts for the role, for a
  configured range that lies below the largest int.
\<close>

theorem allocate_least:
  assumes "kind \<in> {kind_uid, kind_gid}" and "get_config src role = Inr cfg"
    and "int64 (range_min kind cfg)" and "range_max kind cfg < max_int64"
  shows "allocate_kind kind src role = Some (Inr n) \<longleftrightarrow>
    validate src n kind role = Inr () \<and> (\<forall>m. validate src m kind role = Inr () \<longrightarrow> n \<le> m)"
proof (cases "kind_ldap kind src"; cases "kind_sys kind src")
  fix ldap sys assume lists: "kind_ldap kind src = Inr ldap" "kind_sys kind src = Inr sys"
  have "allocate_kind kind src role = Some (Inr n) \<longleftrightarrow>
      scan_range (taken kind cfg ldap sys) (range_max kind cfg) (range_min kind cfg) = Some (Some n)"
    by (auto simp: allocate_kind_readable [OF assms(1,2) lists] split: option.splits)
  also have "\<dots> \<longleftrightarrow> range_min kind cfg \<le> n \<and> n \<le> range_max kind cfg \<and> \<not> taken kind cfg ldap sys n \<and>
      (\<forall>k. range_min kind cfg \<le> k \<and> k < n \<longrightarrow> taken kind cfg ldap sys k)"
    by (rule scan.scan_found_iff [OF assms(3,4)]) simp_all
  finally show ?thesis
    unfolding validate_ok_iff [OF assms(1)] using lists assms(2) by (auto simp: not_le [symmetric])
qed (auto simp: validate_ok_iff [OF assms(1)] elim!: allocate_kind_readable_iff [OF assms(1,2)])

definition example_config :: config where
  "example_config = \<lparr>uid_min = 10000, uid_max = 10004, gid_min = 200, gid_max = 201,
     reserved_uid_ranges = [(0, 9999), (10001, 10001)], reserved_gid_ranges = []\<rparr>"

definition example_source :: "string id_source" where
  "example_source = \<lparr>list_ldap_uids = Inr [10000, 10003], list_ldap_gids = Inr [200],
     list_sys_uids = Inr [], list_sys_gids = Inr [201],
     get_config = (\<lambda>role. if role = role_ldap_user then Inr example_config else Inl ''no row'')\<rparr>"

lemma allocate_least_witness:
  "validate example_source 10002 kind_uid role_ldap_user = Inr () \<and>
   allocate_kind kind_uid example_source role_ldap_user = Some (Inr 10002)"
proof -
  have "allocate_kind kind_uid example_source role_ldap_user = Some (Inr 10002)"
    by code_simp
  moreover have "get_config example_source role_ldap_user = Inr example_config"
    by (simp add: example_source_def)
  ultimately show ?thesis
    using allocate_least [of kind_uid example_source role_ldap_user example_config 10002]
    by (simp add: example_config_def range_min_def range_max_def int64_def min_int64_def max_int64_def)
qed

text \<open>
  AllocateUID and AllocateGID report an exhausted range exactly when the directory and the system
  tables could be read and no id at all validates for the role.
\<close>

theorem allocate_exhausted:
  assumes "kind \<in> {kind_uid, kind_gid}" and "get_config src role = Inr cfg"
    and "int64 (range_min kind cfg)" and "range_max kind cfg < max_int64"
  shows "allocate_kind kind src role = Some (Inl RangeExhausted) \<longleftrightarrow>
    (\<exists>ldap. kind_ldap kind src = Inr ldap) \<and> (\<exists>sys. kind_sys kind src = Inr sys) \<and>
    (\<forall>n. validate src n kind role \<noteq> Inr ())"
proof (cases "kind_ldap kind src"; cases "kind_sys kind src")
  fix ldap sys assume lists: "kind_ldap kind src = Inr ldap" "kind_sys kind src = Inr sys"
  have "allocate_kind kind src role = Some (Inl RangeExhausted) \<longleftrightarrow>
      scan_range (taken kind cfg ldap sys) (range_max kind cfg) (range_min kind cfg) = Some None"
    by (auto simp: allocate_kind_readable [OF assms(1,2) lists] split: option.splits)
  also have "\<dots> \<longleftrightarrow> (\<forall>k. range_min kind cfg \<le> k \<and> k \<le> range_max kind cfg \<longrightarrow> taken kind cfg ldap sys k)"
    by (rule scan.scan_exhausted_iff [OF assms(3,4)]) simp
  finally show ?thesis
    unfolding validate_ok_iff [OF assms(1)] using lists assms(2) by auto
qed (auto elim!: allocate_kind_readable_iff [OF assms(1,2)])

lemma allocate_exhausted_witness:
  "allocate_kind kind_gid example_source role_ldap_user = Some (Inl RangeExhausted) \<and>
   (\<forall>n. validate example_source n kind_gid role_ldap_user \<noteq> Inr ())"
proof -
  have "allocate_kind kind_gid example_source role_ldap_user = Some (Inl RangeExhausted)"
    by code_simp
  moreover have "get_config example_source role_ldap_user = Inr example_config"
    by (simp add: example_source_def)
  ultimately show ?thesis
    using allocate_exhausted [of kind_gid example_source role_ldap_user example_config]
    by (simp add: example_config_def range_min_def range_max_def int64_def min_int64_def max_int64_def)
qed

text \<open>
  With a range that reaches the largest int and is fully taken, the scan wraps round: the
  allocators return the smallest int, which Validate rejects as out of range.
\<close>

theorem allocate_past_top:
  assumes "kind \<in> {kind_uid, kind_gid}" and "get_config src role = Inr cfg"
    and "kind_ldap kind src = Inr ldap" and "kind_sys kind src = Inr sys"
    and "range_max kind cfg = max_int64" and "min_int64 < range_min kind cfg"
    and "range_min kind cfg \<le> max_int64"
    and "\<forall>n. range_min kind cfg \<le> n \<longrightarrow> n \<le> max_int64 \<longrightarrow> taken kind cfg ldap sys n"
    and "\<not> taken kind cfg ldap sys min_int64"
  shows "allocate_kind kind src role = Some (Inr min_int64) \<and>
    validate src min_int64 kind role = Inl (OutOfRange min_int64 (range_min kind cfg) max_int64)"
proof -
  let ?t = "taken kind cfg ldap sys"
  have "scan_range ?t max_int64 i = Some (Some min_int64)" if "range_min kind cfg \<le> i" "i \<le> max_int64" for i
    using that
  proof (induction "nat (max_int64 - i)" arbitrary: i rule: less_induct)
    case less
    have "scan_range ?t max_int64 i = scan_range ?t max_int64 (wrap64 (i + 1))"
      using less.prems assms(8) by (subst scan_range.simps) auto
    also have "\<dots> = Some (Some min_int64)"
    proof (cases "i = max_int64")
      case True
      have "scan_range ?t max_int64 min_int64 = Some (Some min_int64)"
        using assms(9) by (intro scan.scan_hit) (simp_all add: min_int64_def max_int64_def)
      then show ?thesis by (simp add: True wrap64_Suc_max)
    next
      case False
      then have "int64 (i + 1)" using less.prems assms(6) by (simp add: int64_def)
      moreover have "nat (max_int64 - (i + 1)) < nat (max_int64 - i)" using False less.prems by simp
      ultimately show ?thesis using less.hyps [of "i + 1"] less.prems False by simp
    qed
    finally show ?case .
  qed
  then have "allocate_kind kind src role = Some (Inr min_int64)"
    using assms by (simp add: allocate_kind_readable)
  then show ?thesis
    using assms by (auto simp: validate_def kind_defs)
qed

definition example_top_source :: "string id_source" where
  "example_top_source = example_source\<lparr>get_config := (\<lambda>role. Inr (example_config
     \<lparr>uid_min := 10000, uid_max := max_int64, reserved_uid_ranges := [(0, max_int64)]\<rparr>))\<rparr>"

lemma allocate_past_top_witness:
  "allocate_kind kind_uid example_top_source role_ldap_user = Some (Inr min_int64)"
  using allocate_past_top [of kind_uid example_top_source role_ldap_user
      "example_config\<lparr>uid_min := 10000, uid_max := max_int64, reserved_uid_ranges := [(0, max_int64)]\<rparr>"
      "[10000, 10003]" "[]"]
  by (simp add: example_top_source_def example_source_def kind_defs taken_def min_int64_def max_int64_def)

end
