(* ===== verification/Multicast.thy ===== *)
theory Multicast
  imports Go_Prelude
begin

text \<open>
  The multicast scheduler of \<open>internal/multicast\<close> with the tables it writes (\<open>internal/db/multicast.go\<close>)
  and the endpoint that feeds it outcomes. Every operation is a function on the state; the goroutines
  (one \<open>runWindow\<close> per session, the HTTP requests) interleave in the step relation \<open>mc_step\<close>, whose
  atomic steps are what a goroutine does under one lock or in one database call. A session entry is
  shared by pointer between the map of the scheduler, its goroutine and the waiting requests, so the
  entries live in a heap indexed by session ID and the map is the set of the IDs it holds.
  Time is an \<^typ>\<open>int\<close> of seconds that the caller passes in.
\<close>

section \<open>Sender ports and groups\<close>

definition port_range_min :: int where "port_range_min = 9000"
definition port_range_max :: int where "port_range_max = 9999"

type_synonym port_alloc = "int \<rightharpoonup> string"

definition first_port :: "port_alloc \<Rightarrow> int \<Rightarrow> int \<Rightarrow> int option" where
  "first_port used hi lo = find (\<lambda>p. used p = None) [lo..hi]"

text \<open>\<open>Acquire\<close>: \<open>None\<close> when all ports are in use.\<close>

definition acquire :: "string \<Rightarrow> port_alloc \<Rightarrow> (int \<times> port_alloc) option" where
  "acquire session_id used =
     (case first_port used port_range_max port_range_min of
        None \<Rightarrow> None
      | Some p \<Rightarrow> Some (p, used(p \<mapsto> session_id)))"

definition release :: "int \<Rightarrow> port_alloc \<Rightarrow> port_alloc" where
  "release port used = used(port := None)"

text \<open>
  \<open>groupForSession\<close>; \<open>parse_ip4\<close> is \<open>net.ParseIP(s).To4()\<close>, the four octets of an address.
\<close>

definition byte_sum :: "string \<Rightarrow> nat" where
  "byte_sum s = sum_list (map of_char s)"

definition group_octet :: "string \<Rightarrow> nat" where
  "group_octet session_id = byte_sum session_id mod 254 + 1"

definition group_for_session ::
  "(string \<Rightarrow> (nat \<times> nat \<times> nat \<times> nat) option) \<Rightarrow> string \<Rightarrow> string \<Rightarrow> string option" where
  "group_for_session parse_ip4 session_id group_base =
     (case parse_ip4 group_base of
        None \<Rightarrow> None
      | Some (a, b, c, _) \<Rightarrow>
        Some (join ''.'' [dec_nat a, dec_nat b, dec_nat c, dec_nat (group_octet session_id)]))"

text \<open>\<open>bitRateFlag\<close>: bytes per second to the rate argument of udp-sender, in 64-bit arithmetic.\<close>

definition bit_rate_flag :: "int \<Rightarrow> string" where
  "bit_rate_flag rate_bps =
     (let bits = wrap64 (rate_bps * 8) in
      if bits \<ge> 1000000000 then dec_int (bits div 1000000000) @ ''g''
      else if bits \<ge> 1000000 then dec_int (bits div 1000000) @ ''m''
      else if bits \<ge> 1000 then dec_int (bits div 1000) @ ''k''
      else dec_int bits)"

definition max_stderr_capture :: nat where "max_stderr_capture = 4096"

definition limited_write :: "string \<Rightarrow> string \<Rightarrow> nat \<times> string" where
  "limited_write buf p =
     (length p,
      if max_stderr_capture > length buf then buf @ take (max_stderr_capture - length buf) p else buf)"

section \<open>Sessions\<close>

datatype mc_state = Staging | Transmitting | Complete | Failed | Partial

datatype mc_outcome = OutSuccess | OutFailed | OutFellback

definition outcome_of_string :: "string \<Rightarrow> mc_outcome option" where
  "outcome_of_string s =
     (if s = ''success'' then Some OutSuccess
      else if s = ''failed'' then Some OutFailed
      else if s = ''fellback_unicast'' then Some OutFellback
      else None)"

record mc_session =
  sess_id :: string
  image_id :: string
  layout_id :: string
  sess_state :: mc_state
  mc_group :: string
  sender_port :: int
  rate_bps :: int
  started_at :: int
  fire_at :: int
  transmit_started_at :: "int option"
  completed_at :: "int option"
  sess_error :: string
  member_count :: int
  success_count :: int

record descriptor =
  desc_session :: string
  desc_group :: string
  desc_port :: int
  desc_rate :: int
  desc_image_url :: string
  desc_layout :: string

text \<open>
  \<open>sessionEntry\<close>: the session, its members, the channel \<open>ready\<close> (closed or not), the descriptor, the
  failure flag and whether the window timer was cancelled.
\<close>

record session_entry =
  session :: mc_session
  members :: "string list"
  ready :: bool
  descriptor :: "descriptor option"
  failed :: bool
  cancelled :: bool

record mc_member =
  joined_at :: int
  notified_at :: "int option"
  finished_at :: "int option"
  mem_outcome :: "mc_outcome option"

record enqueue_request =
  req_image :: string
  req_layout :: string
  req_node :: string
  force_immediate :: bool

record mc_config =
  enabled :: bool
  window_seconds :: int
  threshold :: int
  cfg_rate_bps :: int
  group_base :: string

definition default_config :: mc_config where
  "default_config = \<lparr>enabled = True, window_seconds = 60, threshold = 2,
     cfg_rate_bps = 100000000, group_base = ''239.255.42.0''\<rparr>"

definition parse_pos_int :: "string \<Rightarrow> int \<Rightarrow> int \<Rightarrow> int" where
  "parse_pos_int val least old =
     (case atoi val of Some n \<Rightarrow> if n \<ge> least then n else old | None \<Rightarrow> old)"

text \<open>\<open>MulticastGetConfig\<close>: the rows of the key-value table over the defaults, each in turn.\<close>

definition config_row :: "mc_config \<Rightarrow> string \<times> string \<Rightarrow> mc_config" where
  "config_row cfg row =
     (let (key, val) = row in
      if key = ''enabled'' then cfg\<lparr>enabled := (val = ''true'' \<or> val = ''1'')\<rparr>
      else if key = ''window_seconds'' then cfg\<lparr>window_seconds := parse_pos_int val 1 (window_seconds cfg)\<rparr>
      else if key = ''threshold'' then cfg\<lparr>threshold := parse_pos_int val 0 (threshold cfg)\<rparr>
      else if key = ''rate_bps'' then cfg\<lparr>cfg_rate_bps := parse_pos_int val 1 (cfg_rate_bps cfg)\<rparr>
      else if key = ''group_base'' then (if val \<noteq> '''' then cfg\<lparr>group_base := val\<rparr> else cfg)
      else cfg)"

definition db_get_config :: "(string \<times> string) list \<Rightarrow> mc_config" where
  "db_get_config rows = foldl config_row default_config rows"

section \<open>The tables\<close>

record mc_db =
  db_sessions :: "string \<rightharpoonup> mc_session"
  db_members :: "string \<times> string \<rightharpoonup> mc_member"

record session_update =
  up_transmit :: "int option"
  up_completed :: "int option"
  up_error :: string
  up_members :: "int option"
  up_success :: "int option"

definition no_update :: session_update where
  "no_update = \<lparr>up_transmit = None, up_completed = None, up_error = '''', up_members = None,
     up_success = None\<rparr>"

text \<open>
  Each call of the database may fail; \<open>ok\<close> says whether it is carried out. An insert also fails on a
  key that is there; a member insert then does nothing (\<open>INSERT OR IGNORE\<close>).
\<close>

definition db_insert_session :: "bool \<Rightarrow> mc_session \<Rightarrow> mc_db \<Rightarrow> bool \<times> mc_db" where
  "db_insert_session ok s db =
     (if ok \<and> db_sessions db (sess_id s) = None
      then (True, db\<lparr>db_sessions := (db_sessions db)(sess_id s \<mapsto> s\<lparr>sess_state := Staging\<rparr>)\<rparr>)
      else (False, db))"

definition update_session_row :: "mc_state \<Rightarrow> session_update \<Rightarrow> mc_session \<Rightarrow> mc_session" where
  "update_session_row state u s =
     s\<lparr>sess_state := state,
       transmit_started_at := (if up_transmit u \<noteq> None then up_transmit u else transmit_started_at s),
       completed_at := (if up_completed u \<noteq> None then up_completed u else completed_at s),
       sess_error := (if up_error u \<noteq> '''' then up_error u else sess_error s),
       member_count := (case up_members u of Some n \<Rightarrow> n | None \<Rightarrow> member_count s),
       success_count := (case up_success u of Some n \<Rightarrow> n | None \<Rightarrow> success_count s)\<rparr>"

definition db_update_session ::
  "bool \<Rightarrow> string \<Rightarrow> mc_state \<Rightarrow> session_update \<Rightarrow> mc_db \<Rightarrow> mc_db" where
  "db_update_session ok sid state u db =
     (if ok then
        db\<lparr>db_sessions := (db_sessions db)
          (sid := map_option (update_session_row state u) (db_sessions db sid))\<rparr>
      else db)"

definition db_insert_member :: "bool \<Rightarrow> string \<Rightarrow> string \<Rightarrow> int \<Rightarrow> mc_db \<Rightarrow> mc_db" where
  "db_insert_member ok sid node now db =
     (if ok \<and> db_members db (sid, node) = None then
        db\<lparr>db_members := (db_members db)((sid, node) \<mapsto>
          \<lparr>joined_at = now, notified_at = None, finished_at = None, mem_outcome = None\<rparr>)\<rparr>
      else db)"

record member_update =
  mu_notified :: "int option"
  mu_finished :: "int option"
  mu_outcome :: "mc_outcome option"

definition update_member_row :: "member_update \<Rightarrow> mc_member \<Rightarrow> mc_member" where
  "update_member_row u m =
     m\<lparr>notified_at := (if mu_notified u \<noteq> None then mu_notified u else notified_at m),
       finished_at := (if mu_finished u \<noteq> None then mu_finished u else finished_at m),
       mem_outcome := (if mu_outcome u \<noteq> None then mu_outcome u else mem_outcome m)\<rparr>"

definition db_update_member :: "bool \<Rightarrow> string \<Rightarrow> string \<Rightarrow> member_update \<Rightarrow> mc_db \<Rightarrow> bool \<times> mc_db" where
  "db_update_member ok sid node u db =
     (if mu_notified u = None \<and> mu_finished u = None \<and> mu_outcome u = None then (True, db)
      else if ok then
        (True, db\<lparr>db_members := (db_members db)
          ((sid, node) := map_option (update_member_row u) (db_members db (sid, node)))\<rparr>)
      else (False, db))"

definition active_state :: "mc_state \<Rightarrow> bool" where
  "active_state s \<longleftrightarrow> s = Staging \<or> s = Transmitting"

section \<open>The scheduler\<close>

text \<open>
  Where the goroutine \<open>runWindow\<close> of a session is: waiting for the window to end, about to persist
  the state \<open>transmitting\<close>, about to publish the descriptor, about to close \<open>ready\<close>, in the sender, in
  one of the three parts of \<open>cleanupSession\<close> (with the final state and message), or finished.
\<close>

datatype win_pc =
    AtWindow
  | AtPersist int
  | AtDescribe
  | AtClose
  | AtSender
  | AtRelease mc_state string
  | AtDelete mc_state string
  | AtFinish mc_state string
  | WinDone

record scheduler =
  cfg :: mc_config
  ports :: port_alloc
  heap :: "string \<rightharpoonup> session_entry"
  live :: "string set"
  win :: "string \<rightharpoonup> win_pc"
  waiting :: "(string \<times> string) set"
  db :: mc_db
  panicked :: bool

datatype mc_error = GroupError string | PortsExhausted | InsertFailed

text \<open>\<open>Start\<close>: read the configuration, mark the sessions left in flight as failed.\<close>

definition orphan_error :: string where
  "orphan_error = ''serverd restarted while session was in-flight''"

definition recover :: "(string \<Rightarrow> bool) \<Rightarrow> string list \<Rightarrow> mc_db \<Rightarrow> mc_db" where
  "recover ok sids d =
     foldl (\<lambda>d sid. db_update_session (ok sid) sid Failed (no_update\<lparr>up_error := orphan_error\<rparr>) d) d sids"

definition start ::
  "mc_config option \<Rightarrow> string list option \<Rightarrow> (string \<Rightarrow> bool) \<Rightarrow> scheduler \<Rightarrow> bool \<times> scheduler" where
  "start loaded active ok sc =
     (let sc = (case loaded of Some c \<Rightarrow> sc\<lparr>cfg := c\<rparr> | None \<Rightarrow> sc) in
      case active of
        None \<Rightarrow> (False, sc)
      | Some sids \<Rightarrow> (True, sc\<lparr>db := recover ok sids (db sc)\<rparr>))"

definition new_scheduler :: "mc_db \<Rightarrow> scheduler" where
  "new_scheduler d = \<lparr>cfg = default_config, ports = Map.empty, heap = Map.empty, live = {},
     win = Map.empty, waiting = {}, db = d, panicked = False\<rparr>"

definition set_config :: "mc_config \<Rightarrow> scheduler \<Rightarrow> scheduler" where
  "set_config c sc = sc\<lparr>cfg := c\<rparr>"

text \<open>The outcome of the two database calls of an enqueue.\<close>

record enqueue_io =
  io_session :: bool
  io_member :: bool

definition upd_entry :: "string \<Rightarrow> (session_entry \<Rightarrow> session_entry) \<Rightarrow> scheduler \<Rightarrow> scheduler" where
  "upd_entry sid f sc = sc\<lparr>heap := (heap sc)(sid := map_option f (heap sc sid))\<rparr>"

definition attach_member :: "enqueue_io \<Rightarrow> int \<Rightarrow> string \<Rightarrow> string \<Rightarrow> scheduler \<Rightarrow> scheduler" where
  "attach_member io now sid node sc =
     (case heap sc sid of
        None \<Rightarrow> sc
      | Some e \<Rightarrow>
        let mc = member_count (session e) + 1;
            d = db_update_session (io_session io) sid Staging (no_update\<lparr>up_members := Some mc\<rparr>) (db sc);
            d = db_insert_member (io_member io) sid node now d
        in sc\<lparr>heap := (heap sc)(sid \<mapsto>
               e\<lparr>members := members e @ [node], session := (session e)\<lparr>member_count := mc\<rparr>\<rparr>), db := d\<rparr>)"

text \<open>\<open>createSession\<close>; \<open>sid\<close> is the new UUID.\<close>

definition new_session :: "mc_config \<Rightarrow> string \<Rightarrow> int \<Rightarrow> int \<Rightarrow> string \<Rightarrow> enqueue_request \<Rightarrow> mc_session" where
  "new_session c grp port now sid req =
     \<lparr>sess_id = sid, image_id = req_image req, layout_id = req_layout req,
      sess_state = Staging, mc_group = grp, sender_port = port,
      rate_bps = cfg_rate_bps c, started_at = now,
      fire_at = (if force_immediate req then now else now + window_seconds c),
      transmit_started_at = None, completed_at = None, sess_error = '''',
      member_count = 1, success_count = 0\<rparr>"

definition new_entry :: "mc_session \<Rightarrow> string \<Rightarrow> session_entry" where
  "new_entry s node = \<lparr>session = s, members = [node], ready = False, descriptor = None,
     failed = False, cancelled = False\<rparr>"

definition create_session ::
  "(string \<Rightarrow> (nat \<times> nat \<times> nat \<times> nat) option) \<Rightarrow> enqueue_io \<Rightarrow> int \<Rightarrow> string \<Rightarrow> enqueue_request \<Rightarrow>
   scheduler \<Rightarrow> (mc_error + string) \<times> scheduler" where
  "create_session parse_ip4 io now sid req sc =
     (case group_for_session parse_ip4 sid (group_base (cfg sc)) of
        None \<Rightarrow> (Inl (GroupError (group_base (cfg sc))), sc)
      | Some grp \<Rightarrow>
        (case acquire sid (ports sc) of
           None \<Rightarrow> (Inl PortsExhausted, sc)
         | Some (port, used) \<Rightarrow>
           let s = new_session (cfg sc) grp port now sid req;
               (ok, d) = db_insert_session (io_session io) s (db sc)
           in if \<not> ok then (Inl InsertFailed, sc\<lparr>ports := release port used, db := d\<rparr>)
              else (Inr sid,
                sc\<lparr>ports := used,
                  heap := (heap sc)(sid \<mapsto> new_entry s (req_node req)),
                  live := insert sid (live sc),
                  win := (win sc)(sid \<mapsto> AtWindow),
                  db := db_insert_member (io_member io) sid (req_node req) now d\<rparr>)))"

definition compatible :: "scheduler \<Rightarrow> enqueue_request \<Rightarrow> string \<Rightarrow> bool" where
  "compatible sc req sid =
     (case heap sc sid of
        None \<Rightarrow> False
      | Some e \<Rightarrow> sess_state (session e) = Staging \<and> image_id (session e) = req_image req \<and>
          layout_id (session e) = req_layout req)"

text \<open>\<open>Enqueue\<close>; \<open>order\<close> is the order in which the range over the map visits its keys.\<close>

definition enqueue ::
  "(string \<Rightarrow> (nat \<times> nat \<times> nat \<times> nat) option) \<Rightarrow> string list \<Rightarrow> enqueue_io \<Rightarrow> int \<Rightarrow> string \<Rightarrow>
   enqueue_request \<Rightarrow> scheduler \<Rightarrow> (mc_error + string) \<times> scheduler" where
  "enqueue parse_ip4 order io now sid req sc =
     (case find (compatible sc req) order of
        Some old \<Rightarrow> (Inr old, attach_member io now old (req_node req) sc)
      | None \<Rightarrow> create_session parse_ip4 io now sid req sc)"

text \<open>\<open>close(entry.ready)\<close>: closing a closed channel panics.\<close>

definition close_ready :: "string \<Rightarrow> scheduler \<Rightarrow> scheduler" where
  "close_ready sid sc =
     (case heap sc sid of
        None \<Rightarrow> sc
      | Some e \<Rightarrow> if ready e then sc\<lparr>panicked := True\<rparr> else upd_entry sid (\<lambda>e. e\<lparr>ready := True\<rparr>) sc)"

definition set_win :: "string \<Rightarrow> win_pc \<Rightarrow> scheduler \<Rightarrow> scheduler" where
  "set_win sid pc sc = sc\<lparr>win := (win sc)(sid \<mapsto> pc)\<rparr>"

text \<open>The part of \<open>runWindow\<close> under the lock, when the window has ended.\<close>

definition fire_window :: "int \<Rightarrow> string \<Rightarrow> scheduler \<Rightarrow> scheduler" where
  "fire_window now sid sc =
     (if sid \<notin> live sc then set_win sid WinDone sc
      else
        (case heap sc sid of
           None \<Rightarrow> set_win sid WinDone sc
         | Some e \<Rightarrow>
           if member_count (session e) < threshold (cfg sc) then
             set_win sid (AtRelease Failed ''below threshold at fire time'')
               (close_ready sid (upd_entry sid (\<lambda>e. e\<lparr>failed := True\<rparr>) sc))
           else
             set_win sid (AtPersist now)
               (upd_entry sid (\<lambda>e. e\<lparr>session := (session e)\<lparr>sess_state := Transmitting,
                  transmit_started_at := Some now\<rparr>\<rparr>) sc)))"

definition build_image_url :: "string \<Rightarrow> string \<Rightarrow> string" where
  "build_image_url server_url img = server_url @ ''/api/v1/images/'' @ img @ ''/blob''"

definition describe :: "string \<Rightarrow> mc_session \<Rightarrow> descriptor" where
  "describe server_url s =
     \<lparr>desc_session = sess_id s, desc_group = mc_group s, desc_port = sender_port s,
      desc_rate = rate_bps s, desc_image_url = build_image_url server_url (image_id s),
      desc_layout = layout_id s\<rparr>"

text \<open>
  One step of \<open>runWindow\<close>. \<open>now\<close> is the time, \<open>ok\<close> whether a database call of the step is carried out,
  \<open>sent\<close> the error of the sender or \<open>None\<close>. Before the end of the window there is no step, unless the
  context of the window was cancelled (which only the session's own cleanup does).
\<close>

definition window_step :: "string \<Rightarrow> int \<Rightarrow> bool \<Rightarrow> string option \<Rightarrow> string \<Rightarrow> scheduler \<Rightarrow> scheduler option" where
  "window_step server_url now ok sent sid sc =
     (case (win sc sid, heap sc sid) of
        (Some pc, Some e) \<Rightarrow>
          (case pc of
             AtWindow \<Rightarrow>
               if now \<ge> fire_at (session e) then Some (fire_window now sid sc)
               else if cancelled e then Some (set_win sid WinDone sc)
               else None
           | AtPersist at \<Rightarrow>
               Some (set_win sid AtDescribe
                 (sc\<lparr>db := db_update_session ok sid Transmitting (no_update\<lparr>up_transmit := Some at\<rparr>) (db sc)\<rparr>))
           | AtDescribe \<Rightarrow>
               Some (set_win sid AtClose
                 (upd_entry sid (\<lambda>e. e\<lparr>descriptor := Some (describe server_url (session e))\<rparr>) sc))
           | AtClose \<Rightarrow> Some (set_win sid AtSender (close_ready sid sc))
           | AtSender \<Rightarrow>
               (case sent of
                  Some err \<Rightarrow> Some (set_win sid (AtRelease Failed err) sc)
                | None \<Rightarrow> Some (set_win sid (AtRelease Complete '''') sc))
           | AtRelease st msg \<Rightarrow>
               Some (set_win sid (AtDelete st msg)
                 ((upd_entry sid (\<lambda>e. e\<lparr>cancelled := True\<rparr>) sc)
                    \<lparr>ports := release (sender_port (session e)) (ports sc)\<rparr>))
           | AtDelete st msg \<Rightarrow> Some (set_win sid (AtFinish st msg) (sc\<lparr>live := live sc - {sid}\<rparr>))
           | AtFinish st msg \<Rightarrow>
               Some (set_win sid WinDone
                 (sc\<lparr>db := db_update_session ok sid st
                   (no_update\<lparr>up_completed := Some now, up_error := msg\<rparr>) (db sc)\<rparr>))
           | WinDone \<Rightarrow> None)
      | _ \<Rightarrow> None)"

text \<open>\<open>Wait\<close>: the lookup, and the part after the channel was closed.\<close>

datatype wait_result = Fallback | Descriptor "descriptor option"

definition wait_begin :: "string \<Rightarrow> string \<Rightarrow> scheduler \<Rightarrow> wait_result option \<times> scheduler" where
  "wait_begin sid node sc =
     (if sid \<notin> live sc then (Some Fallback, sc)
      else (None, sc\<lparr>waiting := insert (sid, node) (waiting sc)\<rparr>))"

definition wait_return :: "bool \<Rightarrow> int \<Rightarrow> string \<Rightarrow> string \<Rightarrow> scheduler \<Rightarrow> (wait_result \<times> scheduler) option" where
  "wait_return ok now sid node sc =
     (case heap sc sid of
        None \<Rightarrow> None
      | Some e \<Rightarrow>
        if \<not> ready e then None
        else
          (let sc = sc\<lparr>waiting := waiting sc - {(sid, node)}\<rparr> in
           if failed e then Some (Fallback, sc)
           else Some (Descriptor (descriptor e),
             sc\<lparr>db := snd (db_update_member ok sid node
               \<lparr>mu_notified = Some now, mu_finished = None, mu_outcome = None\<rparr> (db sc))\<rparr>)))"

text \<open>\<open>RecordOutcome\<close>: \<open>False\<close> when the member row could not be written.\<close>

definition outcome_error :: "string \<Rightarrow> mc_outcome \<Rightarrow> string" where
  "outcome_error node out =
     ''node '' @ node @ '' reported outcome='' @
     (case out of OutSuccess \<Rightarrow> ''success'' | OutFailed \<Rightarrow> ''failed'' | OutFellback \<Rightarrow> ''fellback_unicast'')"

definition record_outcome :: "bool \<Rightarrow> bool \<Rightarrow> int \<Rightarrow> string \<Rightarrow> string \<Rightarrow> mc_outcome \<Rightarrow> mc_db \<Rightarrow> bool \<times> mc_db" where
  "record_outcome ok1 ok2 now sid node out d =
     (let (written, d) = db_update_member ok1 sid node
            \<lparr>mu_notified = None, mu_finished = Some now, mu_outcome = Some out\<rparr> d in
      if \<not> written then (False, d)
      else if out = OutFailed \<or> out = OutFellback then
        (True, db_update_session ok2 sid Partial (no_update\<lparr>up_error := outcome_error node out\<rparr>) d)
      else (True, d))"

section \<open>Interleaving\<close>

text \<open>
  The scheduler with any number of requests and session goroutines. A new UUID names no session yet,
  and the range over the map visits each of its keys once, in any order.
\<close>

inductive mc_step ::
  "(string \<Rightarrow> (nat \<times> nat \<times> nat \<times> nat) option) \<Rightarrow> string \<Rightarrow> scheduler \<Rightarrow> scheduler \<Rightarrow> bool"
  for parse_ip4 server_url where
  step_enqueue: "heap sc sid = None \<Longrightarrow> distinct order \<Longrightarrow> set order = live sc \<Longrightarrow>
    enqueue parse_ip4 order io now sid req sc = (r, sc') \<Longrightarrow> mc_step parse_ip4 server_url sc sc'"
| step_window: "window_step server_url now ok sent sid sc = Some sc' \<Longrightarrow>
    mc_step parse_ip4 server_url sc sc'"
| step_wait: "wait_begin sid node sc = (r, sc') \<Longrightarrow> mc_step parse_ip4 server_url sc sc'"
| step_return: "(sid, node) \<in> waiting sc \<Longrightarrow> wait_return ok now sid node sc = Some (r, sc') \<Longrightarrow>
    mc_step parse_ip4 server_url sc sc'"
| step_timeout: "mc_step parse_ip4 server_url sc (sc\<lparr>waiting := waiting sc - {(sid, node)}\<rparr>)"
| step_outcome: "record_outcome ok1 ok2 now sid node out (db sc) = (r, d) \<Longrightarrow>
    mc_step parse_ip4 server_url sc (sc\<lparr>db := d\<rparr>)"
| step_config: "mc_step parse_ip4 server_url sc (set_config c sc)"

inductive_cases mc_stepE: "mc_step parse_ip4 server_url sc sc'"

inductive reachable ::
  "(string \<Rightarrow> (nat \<times> nat \<times> nat \<times> nat) option) \<Rightarrow> string \<Rightarrow> scheduler \<Rightarrow> bool"
  for parse_ip4 server_url where
  reach_start: "start loaded active ok (new_scheduler d) = (True, sc) \<Longrightarrow> reachable parse_ip4 server_url sc"
| reach_step: "reachable parse_ip4 server_url sc \<Longrightarrow> mc_step parse_ip4 server_url sc sc' \<Longrightarrow>
    reachable parse_ip4 server_url sc'"

section \<open>The invariant\<close>

text \<open>What a goroutine still holds: its port, its place in the map; and whether \<open>ready\<close> is closed.\<close>

fun holds_port :: "win_pc \<Rightarrow> bool" where
  "holds_port (AtDelete _ _) = False"
| "holds_port (AtFinish _ _) = False"
| "holds_port WinDone = False"
| "holds_port _ = True"

fun in_map :: "win_pc \<Rightarrow> bool" where
  "in_map (AtFinish _ _) = False"
| "in_map WinDone = False"
| "in_map _ = True"

fun is_ready :: "win_pc \<Rightarrow> bool" where
  "is_ready AtWindow = False"
| "is_ready (AtPersist _) = False"
| "is_ready AtDescribe = False"
| "is_ready AtClose = False"
| "is_ready _ = True"

text \<open>What holds of one session, of its entry and the place of its goroutine.\<close>

definition entry_ok :: "string \<Rightarrow> string \<Rightarrow> session_entry \<Rightarrow> win_pc \<Rightarrow> bool" where
  "entry_ok url sid e pc \<longleftrightarrow>
     sess_id (session e) = sid \<and>
     port_range_min \<le> sender_port (session e) \<and> sender_port (session e) \<le> port_range_max \<and>
     (ready e \<longleftrightarrow> is_ready pc) \<and>
     (failed e \<longrightarrow> is_ready pc \<and> pc \<noteq> AtSender) \<and>
     (sess_state (session e) = Staging \<longleftrightarrow> pc = AtWindow \<or> failed e) \<and>
     (sess_state (session e) = Staging \<or> sess_state (session e) = Transmitting) \<and>
     (\<not> failed e \<and> (pc = AtClose \<or> is_ready pc) \<longrightarrow> descriptor e = Some (describe url (session e))) \<and>
     (cancelled e \<longrightarrow> \<not> holds_port pc) \<and>
     member_count (session e) = int (length (members e)) \<and> members e \<noteq> []"

definition same_tuple :: "session_entry \<Rightarrow> session_entry \<Rightarrow> bool" where
  "same_tuple e e' \<longleftrightarrow> image_id (session e) = image_id (session e') \<and>
     layout_id (session e) = layout_id (session e')"

definition staging_in :: "scheduler \<Rightarrow> string \<Rightarrow> session_entry \<Rightarrow> bool" where
  "staging_in sc sid e \<longleftrightarrow>
     sid \<in> live sc \<and> heap sc sid = Some e \<and> sess_state (session e) = Staging"

definition inv_entries :: "string \<Rightarrow> scheduler \<Rightarrow> bool" where
  "inv_entries url sc \<longleftrightarrow>
     (\<forall>sid e pc. heap sc sid = Some e \<longrightarrow> win sc sid = Some pc \<longrightarrow> entry_ok url sid e pc)"

definition inv_live :: "scheduler \<Rightarrow> bool" where
  "inv_live sc \<longleftrightarrow> (\<forall>sid. sid \<in> live sc \<longleftrightarrow> (\<exists>pc. win sc sid = Some pc \<and> in_map pc))"

definition port_owner :: "scheduler \<Rightarrow> int \<Rightarrow> string \<Rightarrow> bool" where
  "port_owner sc p sid \<longleftrightarrow> (\<exists>e pc. heap sc sid = Some e \<and> win sc sid = Some pc \<and>
     sender_port (session e) = p \<and> holds_port pc)"

definition inv_ports :: "scheduler \<Rightarrow> bool" where
  "inv_ports sc \<longleftrightarrow> (\<forall>p sid. ports sc p = Some sid \<longleftrightarrow> port_owner sc p sid)"

definition inv_unique :: "scheduler \<Rightarrow> bool" where
  "inv_unique sc \<longleftrightarrow> (\<forall>s1 e1 s2 e2. staging_in sc s1 e1 \<longrightarrow> staging_in sc s2 e2 \<longrightarrow>
     same_tuple e1 e2 \<longrightarrow> s1 = s2)"

definition mc_inv :: "string \<Rightarrow> scheduler \<Rightarrow> bool" where
  "mc_inv url sc \<longleftrightarrow> inv_entries url sc \<and> dom (win sc) = dom (heap sc) \<and> inv_live sc \<and>
     inv_ports sc \<and> inv_unique sc \<and> fst ` waiting sc \<subseteq> dom (heap sc) \<and> \<not> panicked sc"

lemma mc_inv_entry:
  assumes "mc_inv url sc" "heap sc sid = Some e" "win sc sid = Some pc"
  shows "entry_ok url sid e pc"
  using assms by (simp add: mc_inv_def inv_entries_def)

lemma mc_inv_ports: "mc_inv url sc \<Longrightarrow> ports sc p = Some sid \<longleftrightarrow> port_owner sc p sid"
  by (simp add: mc_inv_def inv_ports_def)

lemma mc_inv_live: "mc_inv url sc \<Longrightarrow> sid \<in> live sc \<longleftrightarrow> (\<exists>pc. win sc sid = Some pc \<and> in_map pc)"
  by (simp add: mc_inv_def inv_live_def)

lemma mc_inv_unique:
  assumes "mc_inv url sc" "staging_in sc s1 e1" "staging_in sc s2 e2" "same_tuple e1 e2"
  shows "s1 = s2"
proof -
  have "inv_unique sc" using assms(1) by (simp add: mc_inv_def)
  with assms(2-4) show ?thesis unfolding inv_unique_def by blast
qed

lemma mc_inv_dom: "mc_inv url sc \<Longrightarrow> dom (win sc) = dom (heap sc)"
  by (simp add: mc_inv_def)

lemma mc_inv_win:
  assumes "mc_inv url sc" and "heap sc sid = Some e"
  obtains pc where "win sc sid = Some pc" "entry_ok url sid e pc"
proof -
  have "sid \<in> dom (win sc)" using assms by (auto simp: mc_inv_dom)
  with assms mc_inv_entry that show ?thesis by blast
qed

lemma mc_inv_rest: "mc_inv url sc \<Longrightarrow> fst ` waiting sc \<subseteq> dom (heap sc) \<and> \<not> panicked sc"
  by (simp add: mc_inv_def)

text \<open>
  Every step changes one session at most. To keep the invariant it is enough that the changed session
  is in order, that the ports of the others are untouched and that it is the only one of its tuple.
\<close>

lemma mc_inv_change:
  assumes inv: "mc_inv url sc"
    and heap': "heap sc' = (heap sc)(sid \<mapsto> e')" and win': "win sc' = (win sc)(sid \<mapsto> pc')"
    and live': "live sc' = (if in_map pc' then insert sid (live sc) else live sc - {sid})"
    and others: "\<And>p s. s \<noteq> sid \<Longrightarrow> ports sc' p = Some s \<longleftrightarrow> ports sc p = Some s"
    and own: "\<And>p. ports sc' p = Some sid \<longleftrightarrow> p = sender_port (session e') \<and> holds_port pc'"
    and ok: "entry_ok url sid e' pc'"
    and uniq: "\<And>s e. in_map pc' \<Longrightarrow> sess_state (session e') = Staging \<Longrightarrow> s \<noteq> sid \<Longrightarrow>
      staging_in sc s e \<Longrightarrow> same_tuple e e' \<Longrightarrow> False"
    and rest: "waiting sc' = waiting sc" "panicked sc' = panicked sc"
  shows "mc_inv url sc'"
  unfolding mc_inv_def
proof (intro conjI)
  show "inv_entries url sc'"
    unfolding inv_entries_def
  proof (intro allI impI)
    fix s e pc assume a: "heap sc' s = Some e" "win sc' s = Some pc"
    show "entry_ok url s e pc"
    proof (cases "s = sid")
      case True
      with a ok show ?thesis by (simp add: heap' win')
    next
      case False
      with a have "heap sc s = Some e" "win sc s = Some pc" by (simp_all add: heap' win')
      then show ?thesis by (rule mc_inv_entry [OF inv])
    qed
  qed
  show "dom (win sc') = dom (heap sc')" by (simp add: heap' win' mc_inv_dom [OF inv])
  show "inv_live sc'"
    unfolding inv_live_def
  proof
    fix s show "s \<in> live sc' \<longleftrightarrow> (\<exists>pc. win sc' s = Some pc \<and> in_map pc)"
      by (cases "s = sid") (simp_all add: live' win' mc_inv_live [OF inv, of s])
  qed
  show "inv_ports sc'"
    unfolding inv_ports_def
  proof (intro allI)
    fix p s
    show "ports sc' p = Some s \<longleftrightarrow> port_owner sc' p s"
    proof (cases "s = sid")
      case True
      then show ?thesis by (auto simp add: own heap' win' port_owner_def)
    next
      case False
      then show ?thesis by (simp add: others heap' win' mc_inv_ports [OF inv, of p s] port_owner_def)
    qed
  qed
  have old: "staging_in sc s e" if "staging_in sc' s e" "s \<noteq> sid" for s e
    using that by (simp add: staging_in_def heap' live' split: if_splits)
  have new: "e = e' \<and> in_map pc' \<and> sess_state (session e') = Staging" if "staging_in sc' sid e" for e
    using that by (simp add: staging_in_def heap' live' split: if_splits)
  have one: "s = sid" if "staging_in sc' s e" "staging_in sc' sid e2" "same_tuple e e2" for s e e2
    using uniq [of s e] old [OF that(1)] new [OF that(2)] that(3) by blast
  show "inv_unique sc'"
    unfolding inv_unique_def
  proof (intro allI impI)
    fix s1 e1 s2 e2
    assume a: "staging_in sc' s1 e1" "staging_in sc' s2 e2" "same_tuple e1 e2"
    then have sym: "same_tuple e2 e1" by (simp add: same_tuple_def)
    consider "s2 = sid" | "s1 = sid" | "s1 \<noteq> sid" "s2 \<noteq> sid" by blast
    then show "s1 = s2"
    proof cases
      case 1
      with a one show ?thesis by blast
    next
      case 2
      with a sym one show ?thesis by blast
    next
      case 3
      with a show ?thesis by (intro mc_inv_unique [OF inv, of s1 e1 s2 e2] old)
    qed
  qed
  have "fst ` waiting sc \<subseteq> dom (heap sc)" using mc_inv_rest [OF inv] by simp
  then show "fst ` waiting sc' \<subseteq> dom (heap sc')" by (simp only: rest heap' dom_fun_upd) auto
  show "\<not> panicked sc'" using mc_inv_rest [OF inv] by (simp add: rest)
qed

lemma mc_inv_frame:
  assumes "mc_inv url sc" "heap sc' = heap sc" "win sc' = win sc" "live sc' = live sc"
    "ports sc' = ports sc" "waiting sc' \<subseteq> waiting sc" "panicked sc' = panicked sc"
  shows "mc_inv url sc'"
proof -
  have "staging_in sc' = staging_in sc" "port_owner sc' = port_owner sc"
    by (simp_all add: fun_eq_iff staging_in_def port_owner_def assms(2-4))
  moreover have "fst ` waiting sc' \<subseteq> dom (heap sc)"
    using mc_inv_rest [OF assms(1)] assms(6) by blast
  ultimately show ?thesis
    using assms(1)
    by (simp add: mc_inv_def inv_entries_def inv_live_def inv_ports_def inv_unique_def assms(2-5,7))
qed

lemma own_port:
  assumes "mc_inv url sc" "heap sc sid = Some e" "win sc sid = Some pc"
  shows "ports sc p = Some sid \<longleftrightarrow> p = sender_port (session e) \<and> holds_port pc"
  using assms(2,3) by (auto simp: mc_inv_ports [OF assms(1)] port_owner_def)

lemma live_self:
  assumes "mc_inv url sc" "win sc sid = Some pc"
  shows "live sc = (if in_map pc then insert sid (live sc) else live sc - {sid})"
  using mc_inv_live [OF assms(1), of sid] assms(2) by auto

lemma uniq_self:
  assumes "mc_inv url sc" "heap sc sid = Some e" "win sc sid = Some pc" "in_map pc"
    and "sess_state (session e) = Staging" and "s \<noteq> sid" "staging_in sc s e2" "same_tuple e2 e"
  shows False
proof -
  have "staging_in sc sid e"
    using assms(2-5) mc_inv_live [OF assms(1), of sid] by (simp add: staging_in_def)
  from mc_inv_unique [OF assms(1,7) this assms(8)] assms(6) show False by simp
qed

lemma start_inv:
  assumes "start loaded active ok (new_scheduler d) = (True, sc)"
  shows "mc_inv url sc"
proof -
  have "mc_inv url (new_scheduler d)"
    by (simp add: mc_inv_def new_scheduler_def inv_entries_def inv_live_def inv_ports_def
        port_owner_def inv_unique_def staging_in_def)
  moreover have "heap sc = Map.empty" "win sc = Map.empty" "live sc = {}" "ports sc = Map.empty"
    "waiting sc = {}" "\<not> panicked sc"
    using assms by (auto simp: start_def new_scheduler_def Let_def split: option.splits)
  ultimately show ?thesis by (elim mc_inv_frame) (simp_all add: new_scheduler_def)
qed

lemma attach_inv:
  assumes inv: "mc_inv url sc" and e: "heap sc sid = Some e" and st: "sess_state (session e) = Staging"
  shows "mc_inv url (attach_member io now sid node sc)"
proof -
  obtain pc where pc: "win sc sid = Some pc" and ok: "entry_ok url sid e pc"
    using mc_inv_win [OF inv e] .
  define e' where "e' = e\<lparr>members := members e @ [node],
    session := (session e)\<lparr>member_count := member_count (session e) + 1\<rparr>\<rparr>"
  have same: "sender_port (session e') = sender_port (session e)" "sess_state (session e') = Staging"
    "same_tuple e2 e' \<longleftrightarrow> same_tuple e2 e" for e2
    using st by (simp_all add: e'_def same_tuple_def)
  have ok': "entry_ok url sid e' pc"
    using ok st by (auto simp: entry_ok_def e'_def describe_def)
  show ?thesis
  proof (rule mc_inv_change [OF inv, where sid = sid and e' = e' and pc' = pc])
    show "win (attach_member io now sid node sc) = (win sc)(sid \<mapsto> pc)"
      using pc by (auto simp: attach_member_def e Let_def fun_eq_iff)
    show "live (attach_member io now sid node sc) = (if in_map pc then insert sid (live sc) else live sc - {sid})"
      using live_self [OF inv pc] by (simp add: attach_member_def e Let_def)
    show "ports (attach_member io now sid node sc) p = Some sid \<longleftrightarrow> p = sender_port (session e') \<and> holds_port pc" for p
      using own_port [OF inv e pc] by (simp add: attach_member_def e Let_def same)
    show False if "in_map pc" "s \<noteq> sid" "staging_in sc s e2" "same_tuple e2 e'" for s e2
      using uniq_self [OF inv e pc that(1) st that(2,3)] that(4) same by simp
  qed (simp_all add: attach_member_def e Let_def e'_def ok' [unfolded e'_def])
qed

lemma find_first_port:
  "first_port used hi lo = Some p \<Longrightarrow> lo \<le> p \<and> p \<le> hi \<and> used p = None"
  by (auto simp: first_port_def find_Some_iff in_set_conv_nth)

text \<open>The port allocator is a first-fit scan.\<close>

interpretation port_scan: first_fit
  "\<lambda>hi lo. Some (first_port used hi lo)" "\<lambda>p. used p \<noteq> None" Some None
  for used :: port_alloc
proof
  fix i lim
  show "Some (first_port used lim i) = Some (Some i)" if "i \<le> lim" "\<not> used i \<noteq> None"
    using that by (simp add: first_port_def upto_rec1)
  show "Some (first_port used lim i) = Some (first_port used lim (i + 1))" if "i \<le> lim" "used i \<noteq> None"
    using that by (auto simp add: first_port_def upto_rec1)
  show "Some (first_port used lim i) = Some None" if "\<not> i \<le> lim"
    using that by (simp add: first_port_def)
qed

lemma first_port_rec:
  "first_port used hi lo =
    (if lo \<le> hi then if used lo = None then Some lo else first_port used hi (lo + 1) else None)"
  by (simp add: first_port_def upto_rec1)

lemma acquire_first:
  assumes "acquire sid used = Some (p, used')"
  shows "used' = used(p \<mapsto> sid) \<and> used p = None \<and> port_range_min \<le> p \<and> p \<le> port_range_max"
  using assms find_first_port by (auto simp: acquire_def split: option.splits)

lemma create_inv:
  assumes inv: "mc_inv url sc" and fresh: "heap sc sid = None"
    and none: "\<And>s e. staging_in sc s e \<Longrightarrow> image_id (session e) = req_image req \<Longrightarrow>
      layout_id (session e) = req_layout req \<Longrightarrow> False"
    and create: "create_session parse_ip4 io now sid req sc = (r, sc')"
  shows "mc_inv url sc'"
proof (cases r)
  case (Inl err)
  with create have "heap sc' = heap sc" "win sc' = win sc" "live sc' = live sc" "ports sc' = ports sc"
    "waiting sc' = waiting sc" "panicked sc' = panicked sc"
    by (auto simp: create_session_def Let_def release_def acquire_first split: option.splits if_splits prod.splits
        dest!: acquire_first)
  then show ?thesis by (intro mc_inv_frame [OF inv]) simp_all
next
  case (Inr new)
  with create obtain grp p used where acq: "acquire sid (ports sc) = Some (p, used)"
    and sc': "heap sc' = (heap sc)(sid \<mapsto> new_entry (new_session (cfg sc) grp p now sid req) (req_node req))"
      "win sc' = (win sc)(sid \<mapsto> AtWindow)" "live sc' = insert sid (live sc)" "ports sc' = used"
      "waiting sc' = waiting sc" "panicked sc' = panicked sc"
    by (auto simp: create_session_def Let_def split: option.splits if_splits prod.splits)
  define e' where "e' = new_entry (new_session (cfg sc) grp p now sid req) (req_node req)"
  note e'_simps = e'_def new_entry_def new_session_def
  have p: "used = (ports sc)(p \<mapsto> sid)" "ports sc p = None" "port_range_min \<le> p" "p \<le> port_range_max"
    using acquire_first [OF acq] by simp_all
  have unused: "ports sc q \<noteq> Some sid" for q
    using fresh by (simp add: mc_inv_ports [OF inv] port_owner_def)
  show ?thesis
  proof (rule mc_inv_change [OF inv sc'(1) [folded e'_def] sc'(2)])
    show "ports sc' q = Some s \<longleftrightarrow> ports sc q = Some s" if "s \<noteq> sid" for q s
      using that p(2) by (simp add: sc'(4) p(1))
    show "ports sc' q = Some sid \<longleftrightarrow> q = sender_port (session e') \<and> holds_port AtWindow" for q
      using unused by (simp add: sc'(4) p(1) e'_simps)
    show "entry_ok url sid e' AtWindow" using p(3,4) by (simp add: entry_ok_def e'_simps)
    show False if "staging_in sc s e" "same_tuple e e'" for s e
      using none [OF that(1)] that(2) by (simp add: same_tuple_def e'_simps)
  qed (simp_all add: sc')
qed

lemma compatible_staging:
  "compatible sc req sid \<longleftrightarrow> (\<exists>e. heap sc sid = Some e \<and> sess_state (session e) = Staging \<and>
     image_id (session e) = req_image req \<and> layout_id (session e) = req_layout req)"
  by (simp add: compatible_def split: option.splits)

lemma enqueue_inv:
  assumes inv: "mc_inv url sc" and fresh: "heap sc sid = None" and order: "set order = live sc"
    and enq: "enqueue parse_ip4 order io now sid req sc = (r, sc')"
  shows "mc_inv url sc'"
proof (cases "find (compatible sc req) order")
  case (Some old)
  then obtain e where "heap sc old = Some e" "sess_state (session e) = Staging"
    by (auto simp: find_Some_iff compatible_staging)
  then have "mc_inv url (attach_member io now old (req_node req) sc)" by (rule attach_inv [OF inv])
  with Some enq show ?thesis by (simp add: enqueue_def)
next
  case None
  have no: "False" if "staging_in sc s e" "image_id (session e) = req_image req"
    "layout_id (session e) = req_layout req" for s e
  proof -
    have "s \<in> set order" "compatible sc req s"
      using that order by (simp_all add: staging_in_def compatible_staging)
    with None show False by (auto simp: find_None_iff)
  qed
  from None enq have "create_session parse_ip4 io now sid req sc = (r, sc')"
    by (simp add: enqueue_def)
  from create_inv [OF inv fresh no this] show ?thesis .
qed

text \<open>What the steps of \<open>runWindow\<close> have in common: the entry of the session and the place change.\<close>

lemma mc_inv_window:
  assumes inv: "mc_inv url sc" and e: "heap sc sid = Some e" and pc: "win sc sid = Some pc"
    and heap': "heap sc' = (heap sc)(sid \<mapsto> e')" and win': "win sc' = (win sc)(sid \<mapsto> pc')"
    and live': "live sc' = (if in_map pc' then live sc else live sc - {sid})"
    and ports': "ports sc' = (if holds_port pc = holds_port pc' then ports sc
      else release (sender_port (session e)) (ports sc))"
    and ok: "entry_ok url sid e' pc'" and mono: "in_map pc' \<Longrightarrow> in_map pc" "holds_port pc' \<Longrightarrow> holds_port pc"
    and same: "sender_port (session e') = sender_port (session e)" "same_tuple e' e"
      "sess_state (session e') = Staging \<Longrightarrow> sess_state (session e) = Staging"
    and rest: "waiting sc' = waiting sc" "panicked sc' = panicked sc"
  shows "mc_inv url sc'"
proof (rule mc_inv_change [OF inv heap' win'])
  show "live sc' = (if in_map pc' then insert sid (live sc) else live sc - {sid})"
    using live_self [OF inv pc] mono(1) by (cases "in_map pc'") (simp_all add: live')
  show "ports sc' p = Some s \<longleftrightarrow> ports sc p = Some s" if "s \<noteq> sid" for p s
  proof (cases "holds_port pc = holds_port pc'")
    case True
    then show ?thesis by (simp add: ports')
  next
    case False
    with mono(2) have "holds_port pc" by blast
    then have "ports sc (sender_port (session e)) = Some sid"
      using own_port [OF inv e pc] by simp
    with that False show ?thesis by (auto simp: ports' release_def)
  qed
  show "ports sc' p = Some sid \<longleftrightarrow> p = sender_port (session e') \<and> holds_port pc'" for p
    using own_port [OF inv e pc, of p] mono(2) by (auto simp: ports' release_def same(1))
  show False if "in_map pc'" "sess_state (session e') = Staging" "s \<noteq> sid" "staging_in sc s e2" "same_tuple e2 e'"
    for s e2
  proof (rule uniq_self [OF inv e pc])
    show "same_tuple e2 e" using that(5) same(2) by (simp add: same_tuple_def)
  qed (use that mono same in simp_all)
qed (use ok rest in simp_all)

lemma upd_entry_some [simp]:
  "heap sc sid = Some e \<Longrightarrow> upd_entry sid f sc = sc\<lparr>heap := (heap sc)(sid \<mapsto> f e)\<rparr>"
  by (simp add: upd_entry_def)

lemma fire_inv:
  assumes inv: "mc_inv url sc" and e: "heap sc sid = Some e" and pc: "win sc sid = Some AtWindow"
  shows "mc_inv url (fire_window now sid sc)"
proof -
  have ok: "entry_ok url sid e AtWindow" by (rule mc_inv_entry [OF inv e pc])
  have live: "sid \<in> live sc" using mc_inv_live [OF inv, of sid] pc by simp
  show ?thesis
  proof (cases "member_count (session e) < threshold (cfg sc)")
    case True
    define e' where "e' = e\<lparr>failed := True, ready := True\<rparr>"
    have "entry_ok url sid e' (AtRelease Failed msg)" for msg
      using ok by (auto simp: entry_ok_def e'_def)
    moreover have "fire_window now sid sc = set_win sid (AtRelease Failed ''below threshold at fire time'')
        (sc\<lparr>heap := (heap sc)(sid \<mapsto> e')\<rparr>)"
      using True live e ok by (simp add: fire_window_def close_ready_def e'_def entry_ok_def)
    ultimately show ?thesis
      by (intro mc_inv_window [OF inv e pc, of _ e' "AtRelease Failed ''below threshold at fire time''"])
        (simp_all add: set_win_def e'_def same_tuple_def)
  next
    case False
    define e' where "e' = e\<lparr>session := (session e)\<lparr>sess_state := Transmitting, transmit_started_at := Some now\<rparr>\<rparr>"
    have "entry_ok url sid e' (AtPersist now)"
      using ok by (auto simp: entry_ok_def e'_def)
    moreover have "fire_window now sid sc = set_win sid (AtPersist now) (sc\<lparr>heap := (heap sc)(sid \<mapsto> e')\<rparr>)"
      using False live e by (simp add: fire_window_def e'_def)
    ultimately show ?thesis
      by (intro mc_inv_window [OF inv e pc, of _ e' "AtPersist now"])
        (simp_all add: set_win_def e'_def same_tuple_def)
  qed
qed

lemma window_inv:
  assumes inv: "mc_inv url sc" and step: "window_step url now ok sent sid sc = Some sc'"
  shows "mc_inv url sc'"
proof -
  from step obtain pc e where pc: "win sc sid = Some pc" and e: "heap sc sid = Some e"
    by (auto simp: window_step_def split: option.splits)
  have ok: "entry_ok url sid e pc" by (rule mc_inv_entry [OF inv e pc])
  have self: "(heap sc)(sid \<mapsto> e) = heap sc" using e by (simp add: fun_upd_idem)
  note go = mc_inv_window [OF inv e pc]
  note defs = window_step_def pc e set_win_def same_tuple_def entry_ok_def self
  show ?thesis
  proof (cases pc)
    case AtWindow
    then show ?thesis
      using step fire_inv [OF inv e] ok pc e by (auto simp: window_step_def entry_ok_def split: if_splits)
  next
    case (AtPersist t)
    show ?thesis
      by (rule go [of _ e AtDescribe]) (use step ok AtPersist in \<open>auto simp: defs\<close>)
  next
    case AtDescribe
    show ?thesis
      by (rule go [of _ "e\<lparr>descriptor := Some (describe url (session e))\<rparr>" AtClose])
        (use step ok AtDescribe in \<open>auto simp: defs\<close>)
  next
    case AtClose
    show ?thesis
      by (rule go [of _ "e\<lparr>ready := True\<rparr>" AtSender])
        (use step ok AtClose in \<open>auto simp: defs close_ready_def\<close>)
  next
    case AtSender
    show ?thesis
    proof (cases sent)
      case None
      show ?thesis
        by (rule go [of _ e "AtRelease Complete ''''"]) (use step ok AtSender None in \<open>auto simp: defs\<close>)
    next
      case (Some err)
      show ?thesis
        by (rule go [of _ e "AtRelease Failed err"]) (use step ok AtSender Some in \<open>auto simp: defs\<close>)
    qed
  next
    case (AtRelease st msg)
    show ?thesis
      by (rule go [of _ "e\<lparr>cancelled := True\<rparr>" "AtDelete st msg"])
        (use step ok AtRelease in \<open>auto simp: defs\<close>)
  next
    case (AtDelete st msg)
    show ?thesis
      by (rule go [of _ e "AtFinish st msg"]) (use step ok AtDelete in \<open>auto simp: defs\<close>)
  next
    case (AtFinish st msg)
    show ?thesis
      by (rule go [of _ e WinDone]) (use step ok AtFinish mc_inv_live [OF inv, of sid] pc in \<open>auto simp: defs\<close>)
  next
    case WinDone
    with step show ?thesis by (simp add: defs)
  qed
qed

lemma mc_step_inv:
  assumes "mc_step parse_ip4 url sc sc'" and "mc_inv url sc"
  shows "mc_inv url sc'"
  using assms
proof cases
  case (step_enqueue sid order io now req r)
  then show ?thesis by (intro enqueue_inv [OF assms(2)])
next
  case (step_window now ok sent sid)
  then show ?thesis by (intro window_inv [OF assms(2)])
next
  case (step_wait sid node r)
  show ?thesis
  proof (cases "sid \<in> live sc")
    case True
    then obtain e where "heap sc sid = Some e"
      using mc_inv_live [OF assms(2), of sid] mc_inv_dom [OF assms(2)] by blast
    moreover have "sc' = sc\<lparr>waiting := insert (sid, node) (waiting sc)\<rparr>"
      using step_wait True by (simp add: wait_begin_def)
    moreover have "staging_in (sc\<lparr>waiting := w\<rparr>) = staging_in sc" "port_owner (sc\<lparr>waiting := w\<rparr>) = port_owner sc" for w
      by (simp_all add: fun_eq_iff staging_in_def port_owner_def)
    ultimately show ?thesis
      using assms(2) by (simp add: mc_inv_def inv_entries_def inv_live_def inv_ports_def inv_unique_def) auto
  next
    case False
    with step_wait assms(2) show ?thesis by (simp add: wait_begin_def)
  qed
next
  case (step_return sid node ok now r)
  then show ?thesis
    by (intro mc_inv_frame [OF assms(2)]) (auto simp: wait_return_def Let_def split: option.splits if_splits)
next
  case (step_timeout sid node)
  then show ?thesis by (intro mc_inv_frame [OF assms(2)]) auto
next
  case (step_outcome ok1 ok2 now sid node out r d)
  then show ?thesis by (intro mc_inv_frame [OF assms(2)]) auto
next
  case (step_config c)
  then show ?thesis by (intro mc_inv_frame [OF assms(2)]) (auto simp: set_config_def)
qed

lemma reachable_inv: "reachable parse_ip4 url sc \<Longrightarrow> mc_inv url sc"
  by (induction rule: reachable.induct) (blast intro: start_inv mc_step_inv)+

section \<open>Progress of a session\<close>

fun win_rank :: "win_pc \<Rightarrow> nat" where
  "win_rank AtWindow = 8"
| "win_rank (AtPersist _) = 7"
| "win_rank AtDescribe = 6"
| "win_rank AtClose = 5"
| "win_rank AtSender = 4"
| "win_rank (AtRelease _ _) = 3"
| "win_rank (AtDelete _ _) = 2"
| "win_rank (AtFinish _ _) = 1"
| "win_rank WinDone = 0"

lemma ready_rank: "entry_ok url sid e pc \<Longrightarrow> ready e \<longleftrightarrow> win_rank pc \<le> 4"
  by (cases pc) (simp_all add: entry_ok_def)

lemma rank_done: "win_rank pc = 0 \<longleftrightarrow> pc = WinDone"
  by (cases pc) simp_all

lemma close_ready_frame [simp]:
  "win (close_ready sid sc) = win sc" "live (close_ready sid sc) = live sc"
  "waiting (close_ready sid sc) = waiting sc" "db (close_ready sid sc) = db sc"
  "ports (close_ready sid sc) = ports sc" "cfg (close_ready sid sc) = cfg sc"
  by (auto simp: close_ready_def upd_entry_def split: option.splits)

lemma close_ready_heap:
  "heap sc sid = Some e \<Longrightarrow> heap (close_ready sid sc) sid = Some (e\<lparr>ready := True\<rparr>)"
  by (auto simp: close_ready_def)

text \<open>A step of \<open>runWindow\<close> moves its session on, leaves the others and never frees a waiter.\<close>

lemma window_step_win:
  assumes "window_step url now ok sent sid sc = Some sc'" and "win sc sid = Some pc"
  obtains pc' where "win sc' = (win sc)(sid \<mapsto> pc')" "win_rank pc' < win_rank pc"
proof -
  from assms obtain e where e: "heap sc sid = Some e"
    by (auto simp: window_step_def split: option.splits)
  have "\<exists>pc'. win sc' = (win sc)(sid \<mapsto> pc') \<and> win_rank pc' < win_rank pc"
    using assms e
    by (cases pc; cases sent) (auto simp: window_step_def set_win_def fire_window_def split: if_splits)
  with that show ?thesis by blast
qed

lemma window_step_waiting: "window_step url now ok sent sid sc = Some sc' \<Longrightarrow> waiting sc' = waiting sc"
  by (auto simp: window_step_def set_win_def fire_window_def upd_entry_def
      split: option.splits if_splits win_pc.splits)

lemma window_step_fire_at:
  assumes "window_step url now ok sent sid sc = Some sc'" "heap sc sid = Some e"
  obtains e' where "heap sc' sid = Some e'" "fire_at (session e') = fire_at (session e)"
proof -
  have "\<exists>e'. heap sc' sid = Some e' \<and> fire_at (session e') = fire_at (session e)"
    using assms
    by (auto simp: window_step_def set_win_def fire_window_def close_ready_def
        split: option.splits if_splits win_pc.splits)
  with that show ?thesis by blast
qed

lemma window_enabled:
  assumes "heap sc sid = Some e" "win sc sid = Some pc" "pc \<noteq> WinDone" "fire_at (session e) \<le> now"
  obtains sc' where "window_step url now ok sent sid sc = Some sc'"
proof -
  have "\<exists>sc'. window_step url now ok sent sid sc = Some sc'"
    using assms by (cases pc; cases sent) (simp_all add: window_step_def)
  with that show ?thesis by blast
qed

lemma run_to_ready:
  assumes "mc_inv url sc" "heap sc sid = Some e" "fire_at (session e) \<le> now"
  shows "\<exists>sc'. (mc_step parse_ip4 url)\<^sup>*\<^sup>* sc sc' \<and> waiting sc' = waiting sc \<and>
    (\<exists>e'. heap sc' sid = Some e' \<and> ready e')"
proof -
  obtain pc where "win sc sid = Some pc" using mc_inv_win [OF assms(1,2)] .
  with assms show ?thesis
  proof (induction "win_rank pc" arbitrary: sc e pc rule: less_induct)
    case less
    note inv = \<open>mc_inv url sc\<close> and e = \<open>heap sc sid = Some e\<close> and pc = \<open>win sc sid = Some pc\<close>
    have ok: "entry_ok url sid e pc" by (rule mc_inv_entry [OF inv e pc])
    show ?case
    proof (cases "ready e")
      case True
      with e show ?thesis by blast
    next
      case False
      with ready_rank [OF ok] have "pc \<noteq> WinDone" by auto
      then obtain sc1 where step: "window_step url now True None sid sc = Some sc1"
        using window_enabled [OF e pc _ less.prems(3)] by blast
      obtain pc1 where pc1: "win sc1 = (win sc)(sid \<mapsto> pc1)" "win_rank pc1 < win_rank pc"
        using window_step_win [OF step pc] .
      obtain e1 where e1: "heap sc1 sid = Some e1" "fire_at (session e1) = fire_at (session e)"
        using window_step_fire_at [OF step e] .
      have "\<exists>sc'. (mc_step parse_ip4 url)\<^sup>*\<^sup>* sc1 sc' \<and> waiting sc' = waiting sc1 \<and>
          (\<exists>e'. heap sc' sid = Some e' \<and> ready e')"
        using less.hyps [OF pc1(2) window_inv [OF inv step] e1(1)] e1(2) less.prems(3) pc1(1) by simp
      moreover have "mc_step parse_ip4 url sc sc1" by (rule step_window [OF step])
      ultimately show ?thesis
        using window_step_waiting [OF step] by (metis converse_rtranclp_into_rtranclp)
    qed
  qed
qed

section \<open>Properties\<close>

text \<open>A state for the examples: the address parser knows the default group base.\<close>

definition example_parse :: "string \<Rightarrow> (nat \<times> nat \<times> nat \<times> nat) option" where
  "example_parse s = (if s = ''239.255.42.0'' then Some (239, 255, 42, 0) else None)"

definition example_request :: "string \<Rightarrow> enqueue_request" where
  "example_request node = \<lparr>req_image = ''img'', req_layout = '''', req_node = node, force_immediate = False\<rparr>"

definition example_io :: enqueue_io where "example_io = \<lparr>io_session = True, io_member = True\<rparr>"

definition example_db :: mc_db where
  "example_db = \<lparr>db_sessions = Map.empty, db_members = Map.empty\<rparr>"

definition example_one :: scheduler where
  "example_one = snd (enqueue example_parse [] example_io 100 ''s1'' (example_request ''n1'') (new_scheduler example_db))"

definition example_two :: scheduler where
  "example_two = snd (enqueue example_parse [''s1''] example_io 110 ''s2''
     (\<lparr>req_image = ''other'', req_layout = '''', req_node = ''n2'', force_immediate = False\<rparr>) example_one)"

lemma example_group: "group_for_session example_parse ''s1'' ''239.255.42.0'' = Some ''239.255.42.165''"
  by code_simp

lemma example_one_enqueue:
  "enqueue example_parse [] example_io 100 ''s1'' (example_request ''n1'') (new_scheduler example_db) =
    (Inr ''s1'', example_one)"
proof -
  have "fst (enqueue example_parse [] example_io 100 ''s1'' (example_request ''n1'') (new_scheduler example_db)) =
      Inr ''s1''"
    by (simp add: enqueue_def create_session_def new_scheduler_def default_config_def example_group
        acquire_def port_range_min_def port_range_max_def first_port_rec [of _ _ 9000] db_insert_session_def
        example_io_def example_db_def new_session_def example_request_def Let_def)
  then show ?thesis by (simp add: example_one_def prod_eq_iff)
qed

lemma example_one_entry:
  "heap example_one = [''s1'' \<mapsto> new_entry (new_session default_config ''239.255.42.165'' 9000 100 ''s1''
     (example_request ''n1'')) ''n1'']"
  "win example_one = [''s1'' \<mapsto> AtWindow]"
  "live example_one = {''s1''}" "ports example_one = [9000 \<mapsto> ''s1'']" "cfg example_one = default_config"
  by (simp_all add: example_one_def enqueue_def create_session_def new_scheduler_def default_config_def example_group
      acquire_def port_range_min_def port_range_max_def first_port_rec [of _ _ 9000] db_insert_session_def
      example_io_def example_db_def new_session_def example_request_def Let_def)

lemma example_one_reachable: "reachable example_parse url example_one"
proof (rule reach_step)
  show "reachable example_parse url (new_scheduler example_db)"
    by (rule reach_start [of None "Some []" _ example_db]) (simp add: start_def recover_def)
  show "mc_step example_parse url (new_scheduler example_db) example_one"
    by (rule step_enqueue [OF _ _ _ example_one_enqueue]) (simp_all add: new_scheduler_def)
qed

lemma example_two_reachable: "reachable example_parse url example_two"
proof (rule reach_step [OF example_one_reachable])
  show "mc_step example_parse url example_one example_two"
    unfolding example_two_def
    by (rule step_enqueue [OF _ _ _ prod.collapse [symmetric]]) (simp_all add: example_one_entry)
qed

text \<open>
  C33. In every state the scheduler can reach, two sessions that have not released their sender ports
  have different ports, each in the range of udpcast, and the table of used ports holds exactly these.
\<close>

theorem ports_exclusive:
  assumes "reachable parse_ip4 url sc"
    and "heap sc s1 = Some e1" "win sc s1 = Some pc1" "holds_port pc1"
  shows "port_range_min \<le> sender_port (session e1) \<and> sender_port (session e1) \<le> port_range_max \<and>
    ports sc (sender_port (session e1)) = Some s1 \<and>
    (\<forall>s2 e2 pc2. heap sc s2 = Some e2 \<and> win sc s2 = Some pc2 \<and> holds_port pc2 \<and>
       sender_port (session e2) = sender_port (session e1) \<longrightarrow> s2 = s1) \<and>
    (\<forall>p s. ports sc p = Some s \<longrightarrow> (\<exists>pc. win sc s = Some pc \<and> holds_port pc))"
proof -
  have inv: "mc_inv url sc" using assms(1) by (rule reachable_inv)
  have "entry_ok url s1 e1 pc1" by (rule mc_inv_entry [OF inv assms(2,3)])
  moreover have "ports sc (sender_port (session e1)) = Some s1"
    using own_port [OF inv assms(2,3)] assms(4) by simp
  moreover have "s2 = s1" if "heap sc s2 = Some e2" "win sc s2 = Some pc2" "holds_port pc2"
    "sender_port (session e2) = sender_port (session e1)" for s2 e2 pc2
    using own_port [OF inv that(1,2), of "sender_port (session e1)"] that calculation(2) by simp
  moreover have "\<exists>pc. win sc s = Some pc \<and> holds_port pc" if "ports sc p = Some s" for p s
    using that unfolding mc_inv_ports [OF inv] port_owner_def by blast
  ultimately show ?thesis unfolding entry_ok_def by blast
qed

lemma ports_exclusive_witness: "ports example_one 9000 = Some ''s1''"
  using ports_exclusive [OF example_one_reachable, of "''s1''"]
  by (simp add: example_one_entry new_entry_def new_session_def)

text \<open>
  In every reachable state, the order in which Enqueue ranges over the map of sessions makes no
  difference: there is at most one staging session for an image and layout.
\<close>

theorem enqueue_order_irrelevant:
  assumes "reachable parse_ip4 url sc" and "set order1 = live sc" and "set order2 = live sc"
  shows "enqueue parse_ip4 order1 io now sid req sc = enqueue parse_ip4 order2 io now sid req sc"
proof -
  have inv: "mc_inv url sc" using assms(1) by (rule reachable_inv)
  have one: "s1 = s2" if "s1 \<in> live sc" "s2 \<in> live sc" "compatible sc req s1" "compatible sc req s2" for s1 s2
  proof -
    from that obtain e1 e2 where "staging_in sc s1 e1" "staging_in sc s2 e2" "same_tuple e1 e2"
      by (auto simp: compatible_staging staging_in_def same_tuple_def)
    then show ?thesis by (rule mc_inv_unique [OF inv])
  qed
  have "find (compatible sc req) order1 = find (compatible sc req) order2"
  proof (cases "find (compatible sc req) order1")
    case None
    with assms(2,3) have "find (compatible sc req) order2 = None" by (simp add: find_None_iff)
    with None show ?thesis by simp
  next
    case (Some s1)
    then have s1: "s1 \<in> live sc" "compatible sc req s1" using assms(2) by (auto simp: find_Some_iff)
    then obtain s2 where s2: "find (compatible sc req) order2 = Some s2"
      using assms(3) by (cases "find (compatible sc req) order2") (auto simp: find_None_iff)
    then have "s2 \<in> live sc" "compatible sc req s2" using assms(3) by (auto simp: find_Some_iff)
    with s1 have "s1 = s2" by (intro one)
    with Some s2 show ?thesis by simp
  qed
  then show ?thesis by (simp add: enqueue_def)
qed

lemma enqueue_order_irrelevant_witness:
  "enqueue example_parse [''s1'', ''s1''] example_io 110 ''s2'' (example_request ''n2'') example_one =
   enqueue example_parse [''s1''] example_io 110 ''s2'' (example_request ''n2'') example_one"
  by (rule enqueue_order_irrelevant [OF example_one_reachable]) (simp_all add: example_one_entry)

text \<open>
  In every reachable state no \<open>ready\<close> channel has been closed twice (which would panic), and a node
  whose Wait returns gets either the unicast fallback or the full descriptor of its session, with the
  group and port of the session; a descriptor only from a session that was not below the threshold.
\<close>

theorem wait_answers:
  assumes "reachable parse_ip4 url sc" and "heap sc sid = Some e"
    and "wait_return ok now sid node sc = Some (r, sc')"
  shows "\<not> panicked sc \<and> ((failed e \<and> r = Fallback) \<or>
    (\<not> failed e \<and> sess_state (session e) = Transmitting \<and> r = Descriptor (Some (describe url (session e)))))"
proof -
  have inv: "mc_inv url sc" using assms(1) by (rule reachable_inv)
  obtain pc where ok: "win sc sid = Some pc" "entry_ok url sid e pc" using mc_inv_win [OF inv assms(2)] .
  have "ready e" "r = (if failed e then Fallback else Descriptor (descriptor e))"
    using assms(2,3) by (auto simp: wait_return_def Let_def split: if_splits)
  with ok(2) mc_inv_rest [OF inv] show ?thesis by (cases pc) (auto simp: entry_ok_def)
qed

definition example_failed :: scheduler where
  "example_failed = fire_window 200 ''s1'' example_one"

lemma example_failed_reachable: "reachable example_parse url example_failed"
proof (rule reach_step [OF example_one_reachable step_window])
  show "window_step url 200 True None ''s1'' example_one = Some example_failed"
    by (simp add: window_step_def example_one_entry new_entry_def new_session_def example_request_def
        default_config_def example_failed_def)
qed

lemma wait_answers_witness:
  "\<exists>sc'. wait_return True 201 ''s1'' ''n1'' example_failed = Some (Fallback, sc')"
proof -
  obtain e where e: "heap example_failed ''s1'' = Some e" "failed e" "ready e"
    by (simp add: example_failed_def fire_window_def example_one_entry new_entry_def new_session_def
        default_config_def close_ready_def set_win_def upd_entry_def)
  then obtain r sc' where w: "wait_return True 201 ''s1'' ''n1'' example_failed = Some (r, sc')"
    by (auto simp: wait_return_def Let_def)
  from wait_answers [OF example_failed_reachable e(1) w] e(2) w show ?thesis by simp
qed

text \<open>
  C34. No node waits for ever: from every reachable state with a pending Wait there are steps of the
  scheduler, none of them a timeout of the request, after which that Wait can return.
\<close>

theorem waiter_answered:
  assumes "reachable parse_ip4 url sc" and "(sid, node) \<in> waiting sc"
  shows "\<exists>sc'. (mc_step parse_ip4 url)\<^sup>*\<^sup>* sc sc' \<and> (sid, node) \<in> waiting sc' \<and>
    (\<forall>ok now. \<exists>r sc''. wait_return ok now sid node sc' = Some (r, sc''))"
proof -
  have inv: "mc_inv url sc" using assms(1) by (rule reachable_inv)
  obtain e where e: "heap sc sid = Some e" using mc_inv_rest [OF inv] assms(2) by force
  obtain sc' e' where "(mc_step parse_ip4 url)\<^sup>*\<^sup>* sc sc'" "waiting sc' = waiting sc"
    "heap sc' sid = Some e'" "ready e'"
    using run_to_ready [OF inv e order_refl] by blast
  moreover from this have "\<exists>r sc''. wait_return ok now sid node sc' = Some (r, sc'')" for ok now
    by (simp add: wait_return_def Let_def)
  ultimately show ?thesis using assms(2) by auto
qed

lemma waiter_answered_witness:
  "\<exists>sc'. (mc_step example_parse ''u'')\<^sup>*\<^sup>* (snd (wait_begin ''s1'' ''n1'' example_one)) sc' \<and>
     (''s1'', ''n1'') \<in> waiting sc' \<and>
     (\<forall>ok now. \<exists>r sc''. wait_return ok now ''s1'' ''n1'' sc' = Some (r, sc''))"
proof (rule waiter_answered)
  show "reachable example_parse ''u'' (snd (wait_begin ''s1'' ''n1'' example_one))"
    by (rule reach_step [OF example_one_reachable step_wait [OF prod.collapse [symmetric]]])
  show "(''s1'', ''n1'') \<in> waiting (snd (wait_begin ''s1'' ''n1'' example_one))"
    by (simp add: wait_begin_def example_one_entry)
qed

text \<open>
  The goroutine of a session ends within eight steps of its own once the window is over, whatever
  the database and the sender do: a step is always possible, and every step of it lowers its rank.
  When it has ended, the channel is closed, the session is out of the map and its port is free.
\<close>

theorem window_ends:
  assumes "reachable parse_ip4 url sc" and "heap sc sid = Some e" and "win sc sid = Some pc"
  shows "win_rank pc \<le> 8 \<and>
    (pc \<noteq> WinDone \<and> fire_at (session e) \<le> now \<longrightarrow>
      (\<exists>sc' pc'. window_step url now ok sent sid sc = Some sc' \<and> win sc' sid = Some pc' \<and>
        win_rank pc' < win_rank pc)) \<and>
    (pc = WinDone \<longrightarrow> ready e \<and> sid \<notin> live sc \<and> (\<forall>p. ports sc p \<noteq> Some sid))"
proof -
  have inv: "mc_inv url sc" using assms(1) by (rule reachable_inv)
  have "win_rank pc \<le> 8" by (cases pc) simp_all
  moreover have "\<exists>sc' pc'. window_step url now ok sent sid sc = Some sc' \<and> win sc' sid = Some pc' \<and>
      win_rank pc' < win_rank pc" if go: "pc \<noteq> WinDone" "fire_at (session e) \<le> now"
  proof -
    obtain sc' where step: "window_step url now ok sent sid sc = Some sc'"
      using window_enabled [OF assms(2,3) go] .
    obtain pc' where "win sc' = (win sc)(sid \<mapsto> pc')" "win_rank pc' < win_rank pc"
      using window_step_win [OF step assms(3)] .
    with step show ?thesis by simp
  qed
  moreover have "ready e \<and> sid \<notin> live sc \<and> (\<forall>p. ports sc p \<noteq> Some sid)" if "pc = WinDone"
    using that mc_inv_entry [OF inv assms(2,3)] own_port [OF inv assms(2,3)] mc_inv_live [OF inv, of sid] assms(3)
    by (simp add: entry_ok_def)
  ultimately show ?thesis by blast
qed

lemma window_ends_witness:
  "\<exists>sc' pc'. window_step ''u'' 160 False (Some ''err'') ''s1'' example_one = Some sc' \<and>
     win sc' ''s1'' = Some pc' \<and> win_rank pc' < 8"
  using window_ends [OF example_one_reachable, of "''s1''" _ AtWindow 160 "''u''" False "Some ''err''"]
  by (simp add: example_one_entry new_entry_def new_session_def example_request_def default_config_def)

lemma create_session_ok:
  assumes "create_session parse_ip4 io now sid req sc = (Inr new, sc')"
  obtains grp p where "new = sid" "win sc' sid = Some AtWindow" "sid \<in> live sc'" "cfg sc' = cfg sc"
    "heap sc' sid = Some (new_entry (new_session (cfg sc) grp p now sid req) (req_node req))"
    "\<And>s n. db_members (db sc') (s, n) = db_members (db sc) (s, n) \<or> (s, n) = (sid, req_node req)"
proof -
  from assms obtain grp p used where acq: "acquire sid (ports sc) = Some (p, used)"
    "group_for_session parse_ip4 sid (group_base (cfg sc)) = Some grp"
    by (auto simp: create_session_def split: option.splits prod.splits)
  with assms show ?thesis
    by (intro that [of grp p])
      (auto simp: create_session_def Let_def db_insert_session_def db_insert_member_def split: if_splits)
qed

text \<open>
  A session created by a forced request fires without delay but is still held to the threshold:
  with a threshold above one it fails at once and its node is told to fall back to unicast.
\<close>

theorem forced_falls_back:
  assumes "create_session parse_ip4 io now sid req sc = (Inr sid, sc')"
    and "force_immediate req" and "1 < threshold (cfg sc)" and "now \<le> later"
  shows "\<exists>sc'' sc3. window_step url later ok sent sid sc' = Some sc'' \<and>
    win sc'' sid = Some (AtRelease Failed ''below threshold at fire time'') \<and>
    wait_return ok2 later sid (req_node req) sc'' = Some (Fallback, sc3)"
proof -
  obtain grp p where new: "win sc' sid = Some AtWindow" "sid \<in> live sc'" "cfg sc' = cfg sc"
    "heap sc' sid = Some (new_entry (new_session (cfg sc) grp p now sid req) (req_node req))"
    using create_session_ok [OF assms(1)] .
  then show ?thesis
    using assms(2-4)
    by (simp add: window_step_def fire_window_def new_entry_def new_session_def set_win_def close_ready_def
        wait_return_def Let_def)
qed

lemma forced_falls_back_witness:
  "\<exists>sc'' sc3. window_step ''u'' 100 True None ''s1''
      (snd (create_session example_parse example_io 100 ''s1'' ((example_request ''n1'')\<lparr>force_immediate := True\<rparr>)
        (new_scheduler example_db))) = Some sc'' \<and>
    win sc'' ''s1'' = Some (AtRelease Failed ''below threshold at fire time'') \<and>
    wait_return True 100 ''s1'' ''n1'' sc'' = Some (Fallback, sc3)"
proof -
  let ?req = "(example_request ''n1'')\<lparr>force_immediate := True\<rparr>"
  have "fst (create_session example_parse example_io 100 ''s1'' ?req (new_scheduler example_db)) = Inr ''s1''"
    by (simp add: create_session_def new_scheduler_def default_config_def example_group
      acquire_def port_range_min_def port_range_max_def first_port_rec [of _ _ 9000] db_insert_session_def
      example_io_def example_db_def new_session_def example_request_def Let_def)
  then have "create_session example_parse example_io 100 ''s1'' ?req (new_scheduler example_db) =
      (Inr ''s1'', snd (create_session example_parse example_io 100 ''s1'' ?req (new_scheduler example_db)))"
    by (simp add: prod_eq_iff)
  from forced_falls_back [OF this, of 100 "''u''" True None True] show ?thesis
    by (simp add: new_scheduler_def default_config_def example_request_def)
qed

text \<open>
  The persisted final state depends on the order of two writes: a failed outcome reported before
  the session is closed as complete is overwritten (the row says \<open>complete\<close>), one reported afterwards
  turns the completed row into \<open>partial\<close>.
\<close>

theorem outcome_order:
  assumes "win sc sid = Some (AtFinish Complete msg)" and "heap sc sid = Some e"
    and "db_sessions (db sc) sid = Some row" and "out = OutFailed \<or> out = OutFellback"
    and "record_outcome True True t1 sid node out (db sc) = (w1, d1)"
    and "window_step url t2 True sent sid (sc\<lparr>db := d1\<rparr>) = Some sc1"
    and "window_step url t2 True sent sid sc = Some sc2"
    and "record_outcome True True t3 sid node out (db sc2) = (w3, d3)"
  shows "(\<exists>row1. db_sessions (db sc1) sid = Some row1 \<and> sess_state row1 = Complete) \<and>
    (\<exists>row3. db_sessions d3 sid = Some row3 \<and> sess_state row3 = Partial)"
proof -
  have "db_sessions d1 sid \<noteq> None"
    using assms(3,4,5) by (auto simp: record_outcome_def db_update_member_def db_update_session_def)
  then obtain r1 where "db_sessions d1 sid = Some r1" by blast
  with assms(1,2,6) have "db_sessions (db sc1) sid =
      Some (update_session_row Complete (no_update\<lparr>up_completed := Some t2, up_error := msg\<rparr>) r1)"
    by (auto simp: window_step_def set_win_def db_update_session_def)
  moreover have "db_sessions (db sc2) sid =
      Some (update_session_row Complete (no_update\<lparr>up_completed := Some t2, up_error := msg\<rparr>) row)"
    using assms(1-3,7) by (auto simp: window_step_def set_win_def db_update_session_def)
  with assms(4,8) have "\<exists>r. db_sessions d3 sid = Some (update_session_row Partial
      (no_update\<lparr>up_error := outcome_error node out\<rparr>) r)"
    by (auto simp: record_outcome_def db_update_member_def db_update_session_def)
  ultimately show ?thesis by (auto simp: update_session_row_def)
qed

definition example_finishing :: scheduler where
  "example_finishing = set_win ''s1'' (AtFinish Complete '''') example_one"

lemma outcome_order_witness:
  "\<exists>row1. db_sessions (db (the (window_step ''u'' 300 True None ''s1''
      (example_finishing\<lparr>db := snd (record_outcome True True 290 ''s1'' ''n1'' OutFailed (db example_finishing))\<rparr>))))
      ''s1'' = Some row1 \<and> sess_state row1 = Complete"
proof -
  let ?d1 = "snd (record_outcome True True 290 ''s1'' ''n1'' OutFailed (db example_finishing))"
  have e: "heap example_finishing ''s1'' = heap example_one ''s1''"
    "win example_finishing ''s1'' = Some (AtFinish Complete '''')"
    by (simp_all add: example_finishing_def set_win_def)
  obtain row where row: "db_sessions (db example_finishing) ''s1'' = Some row"
    by (simp add: example_finishing_def set_win_def example_one_def enqueue_def create_session_def new_scheduler_def
      default_config_def example_group acquire_def port_range_min_def port_range_max_def first_port_rec [of _ _ 9000]
      db_insert_session_def db_insert_member_def example_io_def example_db_def new_session_def example_request_def Let_def)
  obtain e' where e': "heap example_finishing ''s1'' = Some e'" using e by (simp add: example_one_entry)
  obtain sc1 where w1: "window_step ''u'' 300 True None ''s1'' (example_finishing\<lparr>db := ?d1\<rparr>) = Some sc1"
    by (simp add: window_step_def e(2) e')
  obtain sc2 where w2: "window_step ''u'' 300 True None ''s1'' example_finishing = Some sc2"
    by (simp add: window_step_def e(2) e')
  from outcome_order [OF e(2) e' row _ prod.collapse [symmetric] w1 w2 prod.collapse [symmetric]] w1
  show ?thesis by simp
qed

text \<open>
  A node that enqueues twice is counted twice: with the default threshold of two its session fires
  for that single node, while the member table has one row for it.
\<close>

theorem duplicate_enqueue_fires:
  assumes "create_session parse_ip4 io now sid req sc = (Inr sid, sc1)" and "threshold (cfg sc) = 2"
    and "attach_member io2 t2 sid (req_node req) sc1 = sc2"
    and "window_step url later ok sent sid sc2 = Some sc3" and "now + window_seconds (cfg sc) \<le> later"
    and "now \<le> later"
  shows "(\<exists>e. heap sc3 sid = Some e \<and> sess_state (session e) = Transmitting \<and> \<not> failed e \<and>
      members e = [req_node req, req_node req]) \<and>
    (\<forall>n. n \<noteq> req_node req \<longrightarrow> db_members (db sc3) (sid, n) = db_members (db sc) (sid, n))"
proof -
  obtain grp p where new: "win sc1 sid = Some AtWindow" "sid \<in> live sc1" "cfg sc1 = cfg sc"
    and e: "heap sc1 sid = Some (new_entry (new_session (cfg sc) grp p now sid req) (req_node req))"
    and db: "\<And>s n. db_members (db sc1) (s, n) = db_members (db sc) (s, n) \<or> (s, n) = (sid, req_node req)"
    using create_session_ok [OF assms(1)] by metis
  have db2: "db_members (db sc2) (sid, n) = db_members (db sc) (sid, n)" if "n \<noteq> req_node req" for n
    using db [of sid n] that e
    by (auto simp: assms(3) [symmetric] attach_member_def Let_def db_insert_member_def db_update_session_def)
  have "sc3 = fire_window later sid sc2"
    using assms(3-6) new e
    by (auto simp: window_step_def attach_member_def Let_def new_entry_def new_session_def split: if_splits)
  then show ?thesis
    using db2 new e assms(2) assms(3) [symmetric]
    by (simp add: fire_window_def attach_member_def Let_def new_entry_def new_session_def set_win_def upd_entry_def)
qed

lemma duplicate_enqueue_fires_witness:
  "\<exists>sc3 e. window_step ''u'' 160 True None ''s1''
      (attach_member example_io 101 ''s1'' ''n1'' example_one) = Some sc3 \<and>
     heap sc3 ''s1'' = Some e \<and> members e = [''n1'', ''n1'']"
proof -
  have create: "create_session example_parse example_io 100 ''s1'' (example_request ''n1'') (new_scheduler example_db) =
      (Inr ''s1'', example_one)"
    using example_one_enqueue by (simp add: enqueue_def)
  obtain sc3 where step: "window_step ''u'' 160 True None ''s1''
      (attach_member example_io 101 ''s1'' ''n1'' example_one) = Some sc3"
    by (simp add: window_step_def attach_member_def Let_def example_one_entry new_entry_def new_session_def
        example_request_def default_config_def)
  have "attach_member example_io 101 ''s1'' (req_node (example_request ''n1'')) example_one =
      attach_member example_io 101 ''s1'' ''n1'' example_one"
    by (simp add: example_request_def)
  from duplicate_enqueue_fires [OF create _ this step] step show ?thesis
    by (auto simp: new_scheduler_def default_config_def example_request_def)
qed

text \<open>
  The group of a session lies in the /24 of the configured base and is neither its network nor its
  broadcast address: the last octet is between 1 and 254, the other three are those of the base.
\<close>

theorem group_in_subnet:
  assumes "parse_ip4 base = Some (a, b, c, d)"
  shows "\<exists>octet. 1 \<le> octet \<and> octet \<le> 254 \<and>
    group_for_session parse_ip4 sid base = Some (join ''.'' [dec_nat a, dec_nat b, dec_nat c, dec_nat octet])"
proof -
  have "byte_sum sid mod 254 < 254" by simp
  then have "1 \<le> group_octet sid \<and> group_octet sid \<le> 254" by (simp add: group_octet_def)
  with assms show ?thesis by (auto simp: group_for_session_def)
qed

lemma group_in_subnet_witness:
  "\<exists>octet. 1 \<le> octet \<and> octet \<le> 254 \<and> group_for_session example_parse ''s1'' ''239.255.42.0'' =
     Some (join ''.'' [dec_nat 239, dec_nat 255, dec_nat 42, dec_nat octet])"
  by (rule group_in_subnet [of _ _ _ _ _ 0]) (simp add: example_parse_def)

text \<open>
  Whatever the rows of the configuration table say, the configuration read from it has a positive
  window and rate, a threshold that is not negative and a group base.
\<close>

theorem db_get_config_valid:
  "0 < window_seconds (db_get_config rows) \<and> 0 \<le> threshold (db_get_config rows) \<and>
   0 < cfg_rate_bps (db_get_config rows) \<and> group_base (db_get_config rows) \<noteq> ''''"
proof -
  have step: "0 < window_seconds (config_row c row) \<and> 0 \<le> threshold (config_row c row) \<and>
      0 < cfg_rate_bps (config_row c row) \<and> group_base (config_row c row) \<noteq> ''''"
    if "0 < window_seconds c \<and> 0 \<le> threshold c \<and> 0 < cfg_rate_bps c \<and> group_base c \<noteq> ''''" for c row
    using that by (auto simp: config_row_def parse_pos_int_def split: prod.splits option.splits)
  have "0 < window_seconds (foldl config_row c rows) \<and> 0 \<le> threshold (foldl config_row c rows) \<and>
      0 < cfg_rate_bps (foldl config_row c rows) \<and> group_base (foldl config_row c rows) \<noteq> ''''"
    if "0 < window_seconds c \<and> 0 \<le> threshold c \<and> 0 < cfg_rate_bps c \<and> group_base c \<noteq> ''''" for c
    using that by (induction rows arbitrary: c) (use step in auto)
  then show ?thesis by (simp add: db_get_config_def default_config_def)
qed

text \<open>
  The rate given to udp-sender never exceeds the configured one and loses less than one unit, as
  long as the rate in bits fits 64 bits.
\<close>

theorem bit_rate_flag_bounds:
  assumes "0 \<le> rate" and "rate * 8 \<le> max_int64"
  shows "\<exists>n unit suffix. (unit, suffix) \<in> {(1, ''''), (1000, ''k''), (1000000, ''m''), (1000000000, ''g'')} \<and>
    bit_rate_flag rate = dec_int n @ suffix \<and> n * unit \<le> rate * 8 \<and> rate * 8 < (n + 1) * unit"
proof -
  have w: "wrap64 (rate * 8) = rate * 8"
    using assms by (intro wrap64_id) (simp add: int64_def min_int64_def)
  have div: "(rate * 8) div u * u \<le> rate * 8 \<and> rate * 8 < ((rate * 8) div u + 1) * u" if "0 < u" for u :: int
  proof -
    have "(rate * 8) div u * u + (rate * 8) mod u = rate * 8" by simp
    moreover have "0 \<le> (rate * 8) mod u" "(rate * 8) mod u < u" using that by simp_all
    ultimately show ?thesis unfolding distrib_right by linarith
  qed
  have flag: "bit_rate_flag rate =
      (if rate * 8 \<ge> 1000000000 then dec_int (rate * 8 div 1000000000) @ ''g''
       else if rate * 8 \<ge> 1000000 then dec_int (rate * 8 div 1000000) @ ''m''
       else if rate * 8 \<ge> 1000 then dec_int (rate * 8 div 1000) @ ''k'' else dec_int (rate * 8))"
    by (simp add: bit_rate_flag_def w Let_def)
  consider "rate * 8 \<ge> 1000000000" | "rate * 8 \<ge> 1000000" "rate * 8 < 1000000000"
    | "rate * 8 \<ge> 1000" "rate * 8 < 1000000" | "rate * 8 < 1000" by linarith
  then show ?thesis
  proof cases
    case 1
    then show ?thesis using flag div [of 1000000000]
      by (intro exI [of _ "rate * 8 div 1000000000"] exI [of _ 1000000000] exI [of _ "''g''"]) simp
  next
    case 2
    then show ?thesis using flag div [of 1000000]
      by (intro exI [of _ "rate * 8 div 1000000"] exI [of _ 1000000] exI [of _ "''m''"]) simp
  next
    case 3
    then show ?thesis using flag div [of 1000]
      by (intro exI [of _ "rate * 8 div 1000"] exI [of _ 1000] exI [of _ "''k''"]) simp
  next
    case 4
    then show ?thesis using flag
      by (intro exI [of _ "rate * 8"] exI [of _ 1] exI [of _ "''''"]) simp
  qed
qed

lemma bit_rate_flag_bounds_witness:
  "\<exists>n unit suffix. (unit, suffix) \<in> {(1, ''''), (1000, ''k''), (1000000, ''m''), (1000000000, ''g'')} \<and>
    bit_rate_flag 100000000 = dec_int n @ suffix \<and> n * unit \<le> 100000000 * 8 \<and> 100000000 * 8 < (n + 1) * unit"
  by (rule bit_rate_flag_bounds) (simp_all add: max_int64_def)

end
