(* ===== verification/Alert_Rules.thy ===== *)
theory Alert_Rules
  imports Complex_Main Go_Prelude "HOL-Library.Char_ord" "HOL-Library.List_Lexorder"
begin

text \<open>
  The rules of the alert engine (\<open>internal/alerts/rule.go\<close>) and how they are loaded from the rule
  directory (\<open>reloadRulesIfChanged\<close>, \<open>loadRuleFile\<close>, \<open>splitYAMLDocs\<close> of \<open>engine.go\<close>). The YAML decoder and
  the regular expressions are third-party or library code: they are the parameters \<open>unmarshal\<close> (one
  document to a rule, \<open>None\<close> an error) and \<open>compile\<close> (a pattern to its matcher, \<open>None\<close> an error).
\<close>

section \<open>Numbers\<close>

text \<open>
  A \<open>float64\<close> that is only compared: not a number, an infinity or a finite value. A comparison with
  \<open>NaN\<close> is false, except \<open>!=\<close>.
\<close>

datatype f64 = NaN | NegInf | Fin rat | PosInf

fun f64_lt :: "f64 \<Rightarrow> f64 \<Rightarrow> bool" where
  "f64_lt (Fin a) (Fin b) = (a < b)"
| "f64_lt NegInf (Fin b) = True"
| "f64_lt NegInf PosInf = True"
| "f64_lt (Fin a) PosInf = True"
| "f64_lt _ _ = False"

definition f64_eq :: "f64 \<Rightarrow> f64 \<Rightarrow> bool" where
  "f64_eq x y \<longleftrightarrow> x \<noteq> NaN \<and> x = y"

definition f64_le :: "f64 \<Rightarrow> f64 \<Rightarrow> bool" where
  "f64_le x y \<longleftrightarrow> f64_lt x y \<or> f64_eq x y"

section \<open>Rules\<close>

datatype op = OpGt | OpGte | OpLt | OpLte | OpEq | OpNeq | OpOther string

definition valid_op :: "op \<Rightarrow> bool" where
  "valid_op p \<longleftrightarrow> p \<in> {OpGt, OpGte, OpLt, OpLte, OpEq, OpNeq}"

definition parse_op :: "string \<Rightarrow> op" where
  "parse_op s =
     (if s = ''>'' then OpGt else if s = ''>='' then OpGte else if s = ''<'' then OpLt
      else if s = ''<='' then OpLte else if s = ''=='' then OpEq else if s = ''!='' then OpNeq
      else OpOther s)"

record threshold =
  th_op :: op
  th_value :: f64

definition evaluate_threshold :: "threshold \<Rightarrow> f64 \<Rightarrow> bool" where
  "evaluate_threshold t v =
     (case th_op t of
        OpGt \<Rightarrow> f64_lt (th_value t) v
      | OpGte \<Rightarrow> f64_le (th_value t) v
      | OpLt \<Rightarrow> f64_lt v (th_value t)
      | OpLte \<Rightarrow> f64_le v (th_value t)
      | OpEq \<Rightarrow> f64_eq v (th_value t)
      | OpNeq \<Rightarrow> \<not> f64_eq v (th_value t)
      | OpOther _ \<Rightarrow> False)"

record notify =
  webhook :: bool
  email :: "string list"

definition role_cluster_node :: string where "role_cluster_node = ''cluster_node''"
definition role_control_plane :: string where "role_control_plane = ''control_plane''"
definition role_any :: string where "role_any = ''any''"

text \<open>
  \<open>Rule\<close>. The labels are a list of keys with their patterns; \<open>compiled\<close> pairs each key with the
  matcher of its anchored pattern. The duration is in nanoseconds.
\<close>

record rule =
  rule_name :: string
  description :: string
  plugin :: string
  sensor :: string
  rule_labels :: "(string \<times> string) list"
  host_role :: string
  rule_threshold :: threshold
  duration :: int
  severity :: string
  rule_notify :: notify
  compiled :: "(string \<times> (string \<Rightarrow> bool)) list"
  source_file :: string

definition effective_host_role :: "rule \<Rightarrow> string" where
  "effective_host_role r =
     (if host_role r = role_control_plane \<or> host_role r = role_any then host_role r
      else role_cluster_node)"

definition applies_to_role :: "rule \<Rightarrow> string \<Rightarrow> bool" where
  "applies_to_role r role = (let eff = effective_host_role r in eff = role_any \<or> eff = role)"

datatype rule_error =
    NameRequired
  | PluginRequired string
  | SensorRequired string
  | UnknownOp string op
  | UnknownSeverity string string
  | UnknownHostRole string string
  | NegativeDuration string
  | InvalidRegex string string string

fun compile_labels ::
  "(string \<Rightarrow> (string \<Rightarrow> bool) option) \<Rightarrow> string \<Rightarrow> (string \<times> string) list \<Rightarrow>
   (string \<times> (string \<Rightarrow> bool)) list \<Rightarrow> rule_error + (string \<times> (string \<Rightarrow> bool)) list" where
  "compile_labels compile name [] acc = Inr acc"
| "compile_labels compile name ((k, pattern) # ls) acc =
     (case compile (''^(?:'' @ pattern @ '')$'') of
        None \<Rightarrow> Inl (InvalidRegex name k pattern)
      | Some re \<Rightarrow> compile_labels compile name ls (acc @ [(k, re)]))"

definition validate_rule :: "(string \<Rightarrow> (string \<Rightarrow> bool) option) \<Rightarrow> rule \<Rightarrow> rule_error + rule" where
  "validate_rule compile r =
     (if rule_name r = '''' then Inl NameRequired
      else if plugin r = '''' then Inl (PluginRequired (rule_name r))
      else if sensor r = '''' then Inl (SensorRequired (rule_name r))
      else if \<not> valid_op (th_op (rule_threshold r)) then Inl (UnknownOp (rule_name r) (th_op (rule_threshold r)))
      else if severity r \<notin> {''info'', ''warn'', ''critical''} then Inl (UnknownSeverity (rule_name r) (severity r))
      else if host_role r \<notin> {'''', role_cluster_node, role_control_plane, role_any}
        then Inl (UnknownHostRole (rule_name r) (host_role r))
      else if duration r < 0 then Inl (NegativeDuration (rule_name r))
      else sbind (compile_labels compile (rule_name r) (rule_labels r) []) (\<lambda>res. Inr (r\<lparr>compiled := res\<rparr>)))"

type_synonym labels = "string \<rightharpoonup> string"

fun match_compiled :: "(string \<times> (string \<Rightarrow> bool)) list \<Rightarrow> labels \<Rightarrow> bool" where
  "match_compiled [] ls = True"
| "match_compiled ((k, re) # res) ls =
     (case ls k of
        None \<Rightarrow> False
      | Some v \<Rightarrow> if \<not> re v then False else match_compiled res ls)"

definition matches_labels :: "rule \<Rightarrow> labels \<Rightarrow> bool" where
  "matches_labels r ls = match_compiled (compiled r) ls"

section \<open>Rule files\<close>

text \<open>\<open>bytes.Split\<close> at a separator (not empty).\<close>

function split_str :: "string \<Rightarrow> string \<Rightarrow> string \<Rightarrow> string list" where
  "split_str sep acc [] = [acc]"
| "split_str sep acc (c # cs) =
     (if sep \<noteq> [] \<and> prefix sep (c # cs) then acc # split_str sep [] (drop (length sep) (c # cs))
      else split_str sep (acc @ [c]) cs)"
  by pat_completeness auto
termination
  by (relation "measure (\<lambda>(_, _, s). length s)") auto

definition yaml_sep :: string where "yaml_sep = CHR 0x0A # ''---''"

definition trim_prefix :: "string \<Rightarrow> string \<Rightarrow> string" where
  "trim_prefix p s = (if prefix p s then drop (length p) s else s)"

definition split_yaml_docs :: "string \<Rightarrow> string list" where
  "split_yaml_docs data =
     (let body = trim_prefix (''---'' @ [CHR 0x0A]) data;
          parts = split_str yaml_sep [] (CHR 0x0A # body)
      in map (trim_prefix [CHR 0x0A]) parts)"

datatype load_error = YamlError | RuleError rule_error

text \<open>\<open>loadRuleFile\<close> on the bytes of a file; the first error of a document drops the whole file.\<close>

fun load_docs ::
  "(string \<Rightarrow> rule option) \<Rightarrow> (string \<Rightarrow> (string \<Rightarrow> bool) option) \<Rightarrow> string \<Rightarrow> string list \<Rightarrow> rule list \<Rightarrow>
   load_error + rule list" where
  "load_docs unmarshal compile path [] rules = Inr rules"
| "load_docs unmarshal compile path (doc # docs) rules =
     (if trim_space doc = [] then load_docs unmarshal compile path docs rules
      else
        (case unmarshal doc of
           None \<Rightarrow> Inl YamlError
         | Some r \<Rightarrow>
           if rule_name r = '''' \<and> plugin r = '''' \<and> sensor r = '''' then load_docs unmarshal compile path docs rules
           else
             (case validate_rule compile (r\<lparr>source_file := path\<rparr>) of
                Inl e \<Rightarrow> Inl (RuleError e)
              | Inr r' \<Rightarrow> load_docs unmarshal compile path docs (rules @ [r']))))"

definition load_rule_file ::
  "(string \<Rightarrow> rule option) \<Rightarrow> (string \<Rightarrow> (string \<Rightarrow> bool) option) \<Rightarrow> string \<Rightarrow> string \<Rightarrow> load_error + rule list" where
  "load_rule_file unmarshal compile path data = load_docs unmarshal compile path (split_yaml_docs data) []"

text \<open>Rules whose name is taken are skipped.\<close>

fun add_rules :: "rule list \<Rightarrow> rule list \<Rightarrow> rule list" where
  "add_rules loaded [] = loaded"
| "add_rules loaded (r # rs) =
     add_rules (if rule_name r \<in> rule_name ` set loaded then loaded else loaded @ [r]) rs"

fun load_paths ::
  "(string \<Rightarrow> rule option) \<Rightarrow> (string \<Rightarrow> (string \<Rightarrow> bool) option) \<Rightarrow> (string \<Rightarrow> string option) \<Rightarrow> string list \<Rightarrow>
   rule list \<Rightarrow> rule list" where
  "load_paths unmarshal compile read_file [] loaded = loaded"
| "load_paths unmarshal compile read_file (p # ps) loaded =
     (case read_file p of
        None \<Rightarrow> load_paths unmarshal compile read_file ps loaded
      | Some data \<Rightarrow>
        (case load_rule_file unmarshal compile p data of
           Inl _ \<Rightarrow> load_paths unmarshal compile read_file ps loaded
         | Inr rules \<Rightarrow> load_paths unmarshal compile read_file ps (add_rules loaded rules)))"

text \<open>
  An entry of the rule directory: its name, whether it is a directory and its modification time, if
  that can be read. \<open>rule_mtimes\<close> lists the paths with their times.
\<close>

record dir_entry =
  entry_name :: string
  entry_is_dir :: bool
  entry_mtime :: "int option"

record rule_set =
  rules :: "rule list"
  rule_mtimes :: "(string \<times> int) list"

definition is_rule_file :: "dir_entry \<Rightarrow> bool" where
  "is_rule_file e \<longleftrightarrow> \<not> entry_is_dir e \<and> (suffix ''.yml'' (entry_name e) \<or> suffix ''.yaml'' (entry_name e))"

definition current_paths :: "(string \<Rightarrow> string) \<Rightarrow> dir_entry list \<Rightarrow> (string \<times> int) list" where
  "current_paths join_dir entries =
     map (\<lambda>e. (join_dir (entry_name e), the (entry_mtime e)))
       (filter (\<lambda>e. is_rule_file e \<and> entry_mtime e \<noteq> None) entries)"

text \<open>
  \<open>reloadRulesIfChanged\<close>: \<open>entries\<close> is \<open>None\<close> when the directory cannot be read, \<open>join_dir\<close> is
  \<open>filepath.Join\<close> with the rule directory. The entries of a directory have different names.
\<close>

definition reload_rules ::
  "(string \<Rightarrow> rule option) \<Rightarrow> (string \<Rightarrow> (string \<Rightarrow> bool) option) \<Rightarrow> (string \<Rightarrow> string) \<Rightarrow>
   dir_entry list option \<Rightarrow> (string \<Rightarrow> string option) \<Rightarrow> rule_set \<Rightarrow> rule_set" where
  "reload_rules unmarshal compile join_dir entries read_file e =
     (case entries of
        None \<Rightarrow> e
      | Some es \<Rightarrow>
        (let current = current_paths join_dir es;
             changed = (length current \<noteq> length (rule_mtimes e) \<or>
               list_ex (\<lambda>(p, mt). map_of (rule_mtimes e) p \<noteq> Some mt) current)
         in if \<not> changed then e
            else e\<lparr>rules := load_paths unmarshal compile read_file (sort (map fst current)) [],
                   rule_mtimes := current\<rparr>))"

section \<open>What loading guarantees\<close>

text \<open>A string in which the document separator does not occur.\<close>

definition sep_free :: "string \<Rightarrow> bool" where
  "sep_free s \<longleftrightarrow> \<not> sublist yaml_sep s"

lemma sep_free_Cons: "sep_free (c # s) \<Longrightarrow> sep_free s"
  by (auto simp: sep_free_def sublist_Cons_right)

lemma sep_not_prefix:
  assumes "sep_free p" and "p \<noteq> []"
  shows "\<not> prefix yaml_sep (p @ yaml_sep @ s)"
proof
  assume pre: "prefix yaml_sep (p @ yaml_sep @ s)"
  have "\<not> prefix yaml_sep p" using assms(1) by (auto simp: sep_free_def intro: prefix_imp_sublist)
  then have "length p < 4"
    using prefix_length_prefix [OF pre, of p] by (fastforce simp: yaml_sep_def)
  with assms(2) consider a where "p = [a]" | a b where "p = [a, b]" | a b c where "p = [a, b, c]"
    by (cases p; cases "tl p"; cases "tl (tl p)") auto
  then show False using pre by cases (simp_all add: yaml_sep_def)
qed

lemma split_str_app:
  "sep_free p \<Longrightarrow> split_str yaml_sep acc (p @ yaml_sep @ s) = (acc @ p) # split_str yaml_sep [] s"
proof (induction p arbitrary: acc)
  case Nil
  show ?case by (simp add: yaml_sep_def)
next
  case (Cons c p)
  have "split_str yaml_sep acc ((c # p) @ yaml_sep @ s) = split_str yaml_sep (acc @ [c]) (p @ yaml_sep @ s)"
    using sep_not_prefix [OF Cons.prems, of s] by simp
  then show ?case using Cons.IH [OF sep_free_Cons [OF Cons.prems]] by simp
qed

lemma split_str_last: "sep_free p \<Longrightarrow> split_str yaml_sep acc p = [acc @ p]"
proof (induction p arbitrary: acc)
  case Nil
  then show ?case by simp
next
  case (Cons c p)
  have "\<not> prefix yaml_sep (c # p)" using Cons.prems by (auto simp: sep_free_def intro: prefix_imp_sublist)
  then show ?case using Cons.IH [OF sep_free_Cons [OF Cons.prems]] by simp
qed

lemma split_str_join:
  "ps \<noteq> [] \<Longrightarrow> \<forall>p \<in> set ps. sep_free p \<Longrightarrow> split_str yaml_sep [] (join yaml_sep ps) = ps"
  by (induction yaml_sep ps rule: join.induct) (simp_all add: split_str_app split_str_last)

lemma join_newlines:
  "ds \<noteq> [] \<Longrightarrow> join yaml_sep (map (Cons (CHR 0x0A)) ds) = CHR 0x0A # join (yaml_sep @ [CHR 0x0A]) ds"
  by (induction "yaml_sep @ [CHR 0x0A]" ds rule: join.induct) simp_all

lemma join_prefix: "prefix (hd ds) (join sep ds) \<or> ds = []"
  by (induction sep ds rule: join.induct) auto

text \<open>
  A file of documents put together with separator lines is split back into exactly these
  documents, whatever they contain, as long as no line of theirs starts with the separator.
\<close>

theorem split_yaml_docs_join:
  assumes "docs \<noteq> []" and "\<forall>d \<in> set docs. sep_free (CHR 0x0A # d)"
  shows "split_yaml_docs (join (yaml_sep @ [CHR 0x0A]) docs) = docs"
proof -
  let ?data = "join (yaml_sep @ [CHR 0x0A]) docs"
  have body: "CHR 0x0A # ?data = join yaml_sep (map (Cons (CHR 0x0A)) docs)"
    using join_newlines [OF assms(1)] by simp
  have "\<not> prefix (''---'' @ [CHR 0x0A]) ?data"
  proof
    assume a: "prefix (''---'' @ [CHR 0x0A]) ?data"
    obtain d ds where docs: "docs = d # ds" using assms(1) by (cases docs) auto
    have free: "sep_free (CHR 0x0A # d)" using assms(2) docs by simp
    have "prefix yaml_sep (CHR 0x0A # ?data)" using a by (auto simp: yaml_sep_def prefix_def)
    moreover have "\<exists>t. CHR 0x0A # ?data = (CHR 0x0A # d) @ yaml_sep @ t \<or> CHR 0x0A # ?data = CHR 0x0A # d"
      unfolding docs by (cases ds) auto
    moreover have "\<not> prefix yaml_sep (CHR 0x0A # d)"
      using free by (auto simp: sep_free_def intro: prefix_imp_sublist)
    ultimately show False using sep_not_prefix [OF free] by (metis list.distinct(1))
  qed
  then have "split_yaml_docs ?data = map (trim_prefix [CHR 0x0A]) (split_str yaml_sep [] (CHR 0x0A # ?data))"
    by (simp add: split_yaml_docs_def Let_def trim_prefix_def del: append_Cons)
  also have "\<dots> = map (trim_prefix [CHR 0x0A]) (map (Cons (CHR 0x0A)) docs)"
    unfolding body using assms by (subst split_str_join) auto
  also have "\<dots> = docs" by (induction docs) (simp_all add: trim_prefix_def)
  finally show ?thesis .
qed

lemma split_yaml_docs_join_witness:
  "split_yaml_docs (join (yaml_sep @ [CHR 0x0A]) [''name: a'', ''name: b'']) = [''name: a'', ''name: b'']"
  by (rule split_yaml_docs_join)
    (simp_all add: sep_free_def yaml_sep_def sublist_Cons_right)

text \<open>A rule that came out of \<open>Validate\<close>.\<close>

definition valid_rule :: "rule \<Rightarrow> bool" where
  "valid_rule r \<longleftrightarrow> rule_name r \<noteq> '''' \<and> plugin r \<noteq> '''' \<and> sensor r \<noteq> '''' \<and>
     valid_op (th_op (rule_threshold r)) \<and> severity r \<in> {''info'', ''warn'', ''critical''} \<and>
     0 \<le> duration r \<and> map fst (compiled r) = map fst (rule_labels r)"

lemma compile_labels_keys:
  "compile_labels compile name ls acc = Inr res \<Longrightarrow> map fst res = map fst acc @ map fst ls"
  by (induction compile name ls acc rule: compile_labels.induct) (auto split: option.splits)

lemma validate_valid: "validate_rule compile r = Inr r' \<Longrightarrow> valid_rule r' \<and> rule_name r' = rule_name r"
  by (auto simp: validate_rule_def valid_rule_def sbind_eq_Inr_iff split: if_splits dest!: compile_labels_keys)

lemma load_docs_valid:
  "load_docs unmarshal compile path docs rs = Inr rs' \<Longrightarrow> \<forall>r \<in> set rs. valid_rule r \<Longrightarrow>
    \<forall>r \<in> set rs'. valid_rule r"
proof (induction docs arbitrary: rs)
  case Nil
  then show ?case by simp
next
  case (Cons doc docs)
  have "load_docs unmarshal compile path docs rs = Inr rs' \<or>
      (\<exists>r'. valid_rule r' \<and> load_docs unmarshal compile path docs (rs @ [r']) = Inr rs')"
  proof (cases "unmarshal doc")
    case None
    with Cons.prems(1) show ?thesis by (simp split: if_splits)
  next
    case (Some r)
    show ?thesis
    proof (cases "validate_rule compile (r\<lparr>source_file := path\<rparr>)")
      case (Inl e)
      with Some Cons.prems(1) show ?thesis by (simp split: if_splits)
    next
      case (Inr r')
      from validate_valid [OF Inr] have "valid_rule r'" by simp
      moreover have "load_docs unmarshal compile path docs rs = Inr rs' \<or>
          load_docs unmarshal compile path docs (rs @ [r']) = Inr rs'"
        using Some Inr Cons.prems(1) by (simp split: if_splits)
      ultimately show ?thesis by blast
    qed
  qed
  then show ?case
  proof
    assume "load_docs unmarshal compile path docs rs = Inr rs'"
    from Cons.IH [OF this Cons.prems(2)] show ?thesis .
  next
    assume "\<exists>r'. valid_rule r' \<and> load_docs unmarshal compile path docs (rs @ [r']) = Inr rs'"
    then obtain r' where r': "valid_rule r'" "load_docs unmarshal compile path docs (rs @ [r']) = Inr rs'"
      by blast
    have "\<forall>r \<in> set (rs @ [r']). valid_rule r" using Cons.prems(2) r'(1) by (auto simp del: not_None_eq)
    from Cons.IH [OF r'(2) this] show ?thesis .
  qed
qed

definition rules_ok :: "rule list \<Rightarrow> bool" where
  "rules_ok rs \<longleftrightarrow> distinct (map rule_name rs) \<and> (\<forall>r \<in> set rs. valid_rule r)"

lemma add_rules_ok: "rules_ok loaded \<Longrightarrow> \<forall>r \<in> set rs. valid_rule r \<Longrightarrow> rules_ok (add_rules loaded rs)"
proof (induction rs arbitrary: loaded)
  case Nil
  then show ?case by simp
next
  case (Cons r rs)
  have "rules_ok (if rule_name r \<in> rule_name ` set loaded then loaded else loaded @ [r])"
    using Cons.prems by (auto simp: rules_ok_def)
  moreover have "\<forall>r \<in> set rs. valid_rule r" using Cons.prems(2) by simp
  ultimately show ?case unfolding add_rules.simps by (rule Cons.IH)
qed

lemma load_paths_ok: "rules_ok loaded \<Longrightarrow> rules_ok (load_paths unmarshal compile read_file paths loaded)"
proof (induction unmarshal compile read_file paths loaded rule: load_paths.induct)
  case (1 unmarshal compile read_file loaded)
  then show ?case by simp
next
  case (2 unmarshal compile read_file p ps loaded)
  show ?case
  proof (cases "read_file p")
    case None
    with 2 show ?thesis by simp
  next
    case (Some data)
    show ?thesis
    proof (cases "load_rule_file unmarshal compile p data")
      case (Inl e)
      with 2 Some show ?thesis by simp
    next
      case (Inr rs)
      then have "\<forall>r \<in> set rs. valid_rule r"
        using load_docs_valid [of unmarshal compile p _ "[]"] by (simp add: load_rule_file_def)
      then have "rules_ok (add_rules loaded rs)" by (rule add_rules_ok [OF "2.prems"])
      with 2 Some Inr show ?thesis by simp
    qed
  qed
qed

text \<open>
  However the rule directory changes, after every reload the engine has rules with different names,
  each with a name, plugin, sensor, known operator and severity, a duration that is not negative and a
  matcher for each of its label patterns.
\<close>

theorem reload_rules_ok:
  assumes "rules_ok (rules e)"
  shows "rules_ok (rules (reload_rules unmarshal compile join_dir entries read_file e))"
proof -
  have "rules_ok []" by (simp add: rules_ok_def)
  then show ?thesis
    using assms by (auto simp: reload_rules_def Let_def load_paths_ok split: option.splits)
qed

definition example_rule :: rule where
  "example_rule = \<lparr>rule_name = ''disk'', description = '''', plugin = ''disks'', sensor = ''used_pct'',
     rule_labels = [], host_role = '''', rule_threshold = \<lparr>th_op = OpGte, th_value = Fin 90\<rparr>,
     duration = 300 * 10 ^ 9, severity = ''warn'', rule_notify = \<lparr>webhook = True, email = []\<rparr>,
     compiled = [], source_file = ''r.yml''\<rparr>"

lemma reload_rules_ok_witness:
  "rules_ok (rules (reload_rules (\<lambda>_. Some example_rule) (\<lambda>_. None) (\<lambda>n. n)
     (Some [\<lparr>entry_name = ''r.yml'', entry_is_dir = False, entry_mtime = Some 5\<rparr>]) (\<lambda>_. Some ''x'')
     \<lparr>rules = [], rule_mtimes = []\<rparr>))"
  by (rule reload_rules_ok) (simp add: rules_ok_def)

end
