(* ===== verification/Alert_Engine.thy ===== *)
theory Alert_Engine
  imports Alert_Rules
begin

text \<open>
  The alert engine of \<open>internal/alerts\<close>: the silences (\<open>silence.go\<close>), the store of alerts with its
  cache of firing ones (\<open>state.go\<close>) and the evaluation of the rules (\<open>engine.go\<close>). A table is the list
  of its rows. A label map is an association list; the JSON encoder and decoder of label maps are the
  parameter \<open>codec\<close>. Every database call can fail, as the functions of \<open>engine_io\<close> say. The order in which
  Go ranges over a map is the parameter \<open>orders\<close>. Time is counted in nanoseconds, stored in seconds.
\<close>

section \<open>Silences\<close>

record silence =
  sil_id :: string
  sil_rule :: string
  sil_node :: "string option"
  sil_expires :: int
  sil_created :: int
  sil_by :: string

definition create_silence :: "bool \<Rightarrow> silence \<Rightarrow> silence list \<Rightarrow> bool \<times> silence list" where
  "create_silence ok s table =
     (if \<not> ok \<or> sil_id s \<in> sil_id ` set table then (False, table)
      else (True, table @ [s\<lparr>sil_node := (if sil_node s = Some '''' then None else sil_node s)\<rparr>]))"

definition delete_silence :: "bool \<Rightarrow> string \<Rightarrow> silence list \<Rightarrow> bool \<times> silence list" where
  "delete_silence ok n table =
     (if \<not> ok then (False, table)
      else (n \<in> sil_id ` set table, filter (\<lambda>s. sil_id s \<noteq> n) table))"

definition unexpired :: "int \<Rightarrow> silence \<Rightarrow> bool" where
  "unexpired now s \<longleftrightarrow> sil_expires s = -1 \<or> sil_expires s > now"

definition list_silences :: "silence list \<Rightarrow> silence list" where
  "list_silences table = sort_key (\<lambda>s. - sil_created s) table"

definition list_active_silences :: "int \<Rightarrow> silence list \<Rightarrow> silence list" where
  "list_active_silences now table = list_silences (filter (unexpired now) table)"

definition is_silenced :: "int \<Rightarrow> string \<Rightarrow> string \<Rightarrow> silence list \<Rightarrow> bool" where
  "is_silenced now rule node table \<longleftrightarrow>
     0 < length (filter (\<lambda>s. sil_rule s = rule \<and> (sil_node s = None \<or> sil_node s = Some node) \<and>
           (sil_expires s = -1 \<or> sil_expires s > now)) table)"

section \<open>The store\<close>

type_synonym label_list = "(string \<times> string) list"

record codec =
  encode :: "label_list \<Rightarrow> string"
  decode :: "string \<Rightarrow> label_list option"

definition labels_to_json :: "codec \<Rightarrow> label_list \<Rightarrow> string" where
  "labels_to_json c ls = (if ls = [] then '''' else encode c ls)"

record alert_key =
  k_rule :: string
  k_node :: string
  k_sensor :: string
  k_labels :: string

datatype alert_state = Firing | Resolved

record alert_row =
  row_id :: int
  row_rule :: string
  row_node :: string
  row_sensor :: string
  row_labels :: "string option"
  row_severity :: string
  row_state :: alert_state
  row_fired :: int
  row_resolved :: "int option"
  row_value :: f64
  row_op :: op
  row_threshold :: f64

record alert =
  al_id :: int
  al_rule :: string
  al_node :: string
  al_sensor :: string
  al_labels :: label_list
  al_severity :: string
  al_state :: alert_state
  al_fired :: int
  al_resolved :: "int option"
  al_value :: f64
  al_op :: op
  al_threshold :: f64

record alert_store =
  alert_rows :: "alert_row list"
  next_id :: int
  active :: "alert_key \<rightharpoonup> int \<times> int"

definition row_key :: "alert_row \<Rightarrow> alert_key" where
  "row_key row = \<lparr>k_rule = row_rule row, k_node = row_node row, k_sensor = row_sensor row,
     k_labels = (case row_labels row of None \<Rightarrow> '''' | Some l \<Rightarrow> l)\<rparr>"

definition load_row :: "alert_row \<Rightarrow> (alert_key \<rightharpoonup> int \<times> int) \<Rightarrow> (alert_key \<rightharpoonup> int \<times> int)" where
  "load_row row m = (if row_state row = Firing then m(row_key row \<mapsto> (row_id row, row_fired row)) else m)"

definition load_active :: "alert_row list \<Rightarrow> (alert_key \<rightharpoonup> int \<times> int)" where
  "load_active table = fold load_row table Map.empty"

definition is_active :: "alert_store \<Rightarrow> alert_key \<Rightarrow> bool" where
  "is_active st k \<longleftrightarrow> active st k \<noteq> None"

definition rule_key :: "rule \<Rightarrow> string \<Rightarrow> string \<Rightarrow> alert_key" where
  "rule_key r node lj = \<lparr>k_rule = rule_name r, k_node = node, k_sensor = sensor r, k_labels = lj\<rparr>"

text \<open>
  \<open>Fire\<close>; \<open>ok\<close> says whether the database takes the row (its unique key, which contains the second of
  the firing, is one reason to refuse).
\<close>

definition fire ::
  "codec \<Rightarrow> bool \<Rightarrow> int \<Rightarrow> rule \<Rightarrow> string \<Rightarrow> label_list \<Rightarrow> f64 \<Rightarrow> alert_store \<Rightarrow> alert option \<times> alert_store" where
  "fire c ok now r node ls v st =
     (let lj = labels_to_json c ls; n = next_id st in
      if \<not> ok then (None, st)
      else
        (Some \<lparr>al_id = n, al_rule = rule_name r, al_node = node, al_sensor = sensor r, al_labels = ls,
           al_severity = severity r, al_state = Firing, al_fired = now, al_resolved = None, al_value = v,
           al_op = th_op (rule_threshold r), al_threshold = th_value (rule_threshold r)\<rparr>,
         st\<lparr>alert_rows := alert_rows st @
             [\<lparr>row_id = n, row_rule = rule_name r, row_node = node, row_sensor = sensor r,
               row_labels = (if lj = '''' then None else Some lj), row_severity = severity r,
               row_state = Firing, row_fired = now, row_resolved = None, row_value = v,
               row_op = th_op (rule_threshold r), row_threshold = th_value (rule_threshold r)\<rparr>],
           next_id := n + 1,
           active := (active st)(rule_key r node lj \<mapsto> (n, now))\<rparr>))"

text \<open>\<open>scanAlert\<close>: labels that do not decode are an error.\<close>

definition scan_alert :: "codec \<Rightarrow> alert_row \<Rightarrow> alert option" where
  "scan_alert c row =
     (case (case row_labels row of None \<Rightarrow> Some [] | Some l \<Rightarrow> if l = '''' then Some [] else decode c l) of
        None \<Rightarrow> None
      | Some ls \<Rightarrow>
        Some \<lparr>al_id = row_id row, al_rule = row_rule row, al_node = row_node row, al_sensor = row_sensor row,
          al_labels = ls, al_severity = row_severity row, al_state = row_state row, al_fired = row_fired row,
          al_resolved = row_resolved row, al_value = row_value row, al_op = row_op row,
          al_threshold = row_threshold row\<rparr>)"

definition update_row :: "int \<Rightarrow> (alert_row \<Rightarrow> alert_row) \<Rightarrow> alert_store \<Rightarrow> alert_store" where
  "update_row n f st = st\<lparr>alert_rows := map (\<lambda>row. if row_id row = n then f row else row) (alert_rows st)\<rparr>"

definition fetch_by_id :: "codec \<Rightarrow> bool \<Rightarrow> int \<Rightarrow> alert_store \<Rightarrow> alert option" where
  "fetch_by_id c ok n st =
     (if \<not> ok then None
      else (case find (\<lambda>row. row_id row = n) (alert_rows st) of None \<Rightarrow> None | Some row \<Rightarrow> scan_alert c row))"

text \<open>
  \<open>Resolve\<close>: the key leaves the cache first; an alert comes back when the row was updated and read.
\<close>

definition resolve_alert ::
  "codec \<Rightarrow> bool \<Rightarrow> bool \<Rightarrow> int \<Rightarrow> alert_key \<Rightarrow> f64 \<Rightarrow> alert_store \<Rightarrow> alert option \<times> alert_store" where
  "resolve_alert c ok fetched now k v st =
     (case active st k of
        None \<Rightarrow> (None, st)
      | Some (n, _) \<Rightarrow>
        (let st = st\<lparr>active := (active st)(k := None)\<rparr> in
         if \<not> ok then (None, st)
         else
           (let st = update_row n (\<lambda>row. row\<lparr>row_state := Resolved, row_resolved := Some now, row_value := v\<rparr>) st
            in (fetch_by_id c fetched n st, st))))"

definition update_last_value :: "bool \<Rightarrow> alert_key \<Rightarrow> f64 \<Rightarrow> alert_store \<Rightarrow> alert_store" where
  "update_last_value ok k v st =
     (case active st k of
        None \<Rightarrow> st
      | Some (n, _) \<Rightarrow> if ok then update_row n (\<lambda>row. row\<lparr>row_value := v\<rparr>) st else st)"

definition scan_all :: "codec \<Rightarrow> alert_row list \<Rightarrow> alert list option" where
  "scan_all c table = those (map (scan_alert c) table)"

definition by_fired_desc :: "alert_row list \<Rightarrow> alert_row list" where
  "by_fired_desc table = sort_key (\<lambda>row. - row_fired row) table"

definition query_active :: "codec \<Rightarrow> alert_store \<Rightarrow> alert list option" where
  "query_active c st = scan_all c (by_fired_desc (filter (\<lambda>row. row_state row = Firing) (alert_rows st)))"

definition query_recent :: "codec \<Rightarrow> int \<Rightarrow> alert_store \<Rightarrow> alert list option" where
  "query_recent c now st =
     (let cutoff = now - 24 * 3600 in
      scan_all c (sort_key (\<lambda>row. case row_resolved row of Some t \<Rightarrow> - t | None \<Rightarrow> 0)
        (filter (\<lambda>row. row_state row = Resolved \<and> (case row_resolved row of Some t \<Rightarrow> cutoff \<le> t | None \<Rightarrow> False))
          (alert_rows st))))"

definition query_filtered ::
  "codec \<Rightarrow> string list \<Rightarrow> string \<Rightarrow> string \<Rightarrow> alert_state option \<Rightarrow> alert_store \<Rightarrow> alert list option" where
  "query_filtered c severities node rule state st =
     scan_all c (take 1000 (by_fired_desc (filter
       (\<lambda>row. (severities = [] \<or> row_severity row \<in> set severities) \<and> (node = '''' \<or> row_node row = node) \<and>
          (rule = '''' \<or> row_rule row = rule) \<and> (state = None \<or> state = Some (row_state row)))
       (alert_rows st))))"

section \<open>The engine\<close>

record stat_row =
  sr_node :: string
  sr_plugin :: string
  sr_sensor :: string
  sr_value :: f64
  sr_labels :: label_list
  sr_ts :: int

text \<open>What an evaluation reads: the statistics, the nodes with when they were last seen, the hosts.\<close>

record engine_env =
  node_stats :: "stat_row list"
  node_configs :: "(string \<times> int option) list"
  hosts :: "(string \<times> string) list"
  silences :: "silence list option"

record engine_io =
  io_nodes :: bool
  io_null :: bool
  io_stats :: "string \<Rightarrow> bool"
  io_fire :: "alert_key \<Rightarrow> bool"
  io_resolve :: "alert_key \<Rightarrow> bool"
  io_fetch :: "alert_key \<Rightarrow> bool"
  io_update :: "alert_key \<Rightarrow> bool"
  io_silence :: bool

record orders =
  group_order :: "(string \<times> stat_row list) list \<Rightarrow> (string \<times> stat_row list) list"
  key_order :: "alert_key set \<Rightarrow> alert_key list"

datatype event = FireEvent rule alert | ResolveEvent rule alert

type_synonym run = "alert_store \<times> event list"

definition seconds :: "int \<Rightarrow> int" where "seconds t = t div 10 ^ 9"

definition tick_interval :: int where "tick_interval = 60 * 10 ^ 9"

definition engine_silenced :: "engine_io \<Rightarrow> engine_env \<Rightarrow> int \<Rightarrow> string \<Rightarrow> string \<Rightarrow> bool" where
  "engine_silenced io env now rule node =
     (case silences env of
        None \<Rightarrow> False
      | Some table \<Rightarrow> io_silence io \<and> is_silenced (seconds now) rule node table)"

definition in_window :: "rule \<Rightarrow> int \<Rightarrow> int \<Rightarrow> stat_row \<Rightarrow> bool" where
  "in_window r since until s \<longleftrightarrow> sr_plugin s = plugin r \<and> sr_sensor s = sensor r \<and>
     seconds since \<le> sr_ts s \<and> sr_ts s \<le> seconds until"

definition role_selects :: "engine_env \<Rightarrow> rule \<Rightarrow> string \<Rightarrow> bool" where
  "role_selects env r node =
     (if effective_host_role r = role_control_plane then (node, role_control_plane) \<in> set (hosts env)
      else if effective_host_role r = role_any then True
      else node \<in> fst ` set (node_configs env))"

definition window_nodes :: "engine_env \<Rightarrow> rule \<Rightarrow> int \<Rightarrow> int \<Rightarrow> string list" where
  "window_nodes env r since until =
     remdups (map sr_node (filter (\<lambda>s. role_selects env r (sr_node s) \<and> in_window r since until s) (node_stats env)))"

definition stats_limit :: nat where "stats_limit = 10000"

definition query_node_stats :: "engine_env \<Rightarrow> string \<Rightarrow> rule \<Rightarrow> int \<Rightarrow> int \<Rightarrow> stat_row list" where
  "query_node_stats env node r since until =
     take stats_limit (sort_key sr_ts (filter (\<lambda>s. sr_node s = node \<and> seconds since \<le> sr_ts s \<and>
        sr_ts s \<le> seconds until \<and> (plugin r = '''' \<or> sr_plugin s = plugin r) \<and>
        (sensor r = '''' \<or> sr_sensor s = sensor r)) (node_stats env)))"

definition group_by_labels :: "codec \<Rightarrow> stat_row list \<Rightarrow> (string \<times> stat_row list) list" where
  "group_by_labels c samples =
     map (\<lambda>k. (k, filter (\<lambda>s. labels_to_json c (sr_labels s) = k) samples))
       (add_new [] (map (\<lambda>s. labels_to_json c (sr_labels s)) samples))"

definition group_labels :: "codec \<Rightarrow> string \<Rightarrow> label_list" where
  "group_labels c lj = (if lj = '''' then [] else (case decode c lj of Some ls \<Rightarrow> ls | None \<Rightarrow> []))"

definition all_satisfy :: "rule \<Rightarrow> stat_row list \<Rightarrow> bool" where
  "all_satisfy r samples = list_all (\<lambda>s. evaluate_threshold (rule_threshold r) (sr_value s)) samples"

text \<open>Resolving one key and telling the dispatcher.\<close>

definition resolve_key :: "codec \<Rightarrow> engine_io \<Rightarrow> int \<Rightarrow> rule \<Rightarrow> f64 \<Rightarrow> alert_key \<Rightarrow> run \<Rightarrow> run" where
  "resolve_key c io now r v k run =
     (let (st, evs) = run;
          (res, st) = resolve_alert c (io_resolve io k) (io_fetch io k) (seconds now) k v st
      in (st, case res of None \<Rightarrow> evs | Some al \<Rightarrow> evs @ [ResolveEvent r al]))"

text \<open>Firing one key and telling the dispatcher, unless silenced.\<close>

definition fire_key ::
  "codec \<Rightarrow> engine_io \<Rightarrow> engine_env \<Rightarrow> int \<Rightarrow> rule \<Rightarrow> string \<Rightarrow> label_list \<Rightarrow> f64 \<Rightarrow> alert_key \<Rightarrow> run \<Rightarrow> run" where
  "fire_key c io env now r node ls v k run =
     (let (st, evs) = run;
          (res, st) = fire c (io_fire io k) (seconds now) r node ls v st
      in (st, case res of
          None \<Rightarrow> evs
        | Some al \<Rightarrow> if engine_silenced io env now (rule_name r) node then evs else evs @ [FireEvent r al]))"

definition evaluate_group ::
  "codec \<Rightarrow> engine_io \<Rightarrow> engine_env \<Rightarrow> int \<Rightarrow> rule \<Rightarrow> string \<Rightarrow> string \<times> stat_row list \<Rightarrow> run \<Rightarrow> run" where
  "evaluate_group c io env now r node grp run =
     (let (lj, samples) = grp; ls = group_labels c lj in
      if \<not> matches_labels r (map_of ls) then run
      else
        (let last = sr_value (last samples); k = rule_key r node lj in
         if all_satisfy r samples then
           (if \<not> is_active (fst run) k then fire_key c io env now r node ls last k run
            else (update_last_value (io_update io k) k last (fst run), snd run))
         else if is_active (fst run) k then resolve_key c io now r last k run
         else run))"

definition evaluate_node ::
  "codec \<Rightarrow> orders \<Rightarrow> engine_io \<Rightarrow> engine_env \<Rightarrow> int \<Rightarrow> rule \<Rightarrow> int \<Rightarrow> int \<Rightarrow> string \<Rightarrow> run \<Rightarrow> run" where
  "evaluate_node c ord io env now r since until node run =
     (if \<not> io_stats io node then run
      else fold (evaluate_group c io env now r node)
        (group_order ord (group_by_labels c (query_node_stats env node r since until))) run)"

definition active_keys :: "orders \<Rightarrow> alert_store \<Rightarrow> alert_key list" where
  "active_keys ord st = key_order ord (dom (active st))"

definition resolve_stale ::
  "codec \<Rightarrow> orders \<Rightarrow> engine_io \<Rightarrow> int \<Rightarrow> rule \<Rightarrow> string list \<Rightarrow> run \<Rightarrow> run" where
  "resolve_stale c ord io now r nodes run =
     fold (resolve_key c io now r (Fin 0))
       (filter (\<lambda>k. k_rule k = rule_name r \<and> k_node k \<notin> set nodes) (active_keys ord (fst run))) run"

definition evaluate_all_nodes ::
  "codec \<Rightarrow> orders \<Rightarrow> engine_io \<Rightarrow> engine_env \<Rightarrow> int \<Rightarrow> rule \<Rightarrow> int \<Rightarrow> int \<Rightarrow> run \<Rightarrow> run" where
  "evaluate_all_nodes c ord io env now r since until run =
     (if \<not> io_nodes io then run
      else
        (let nodes = window_nodes env r since until in
         resolve_stale c ord io now r nodes
           (fold (evaluate_node c ord io env now r since until) nodes run)))"

definition offline_nodes :: "engine_io \<Rightarrow> engine_env \<Rightarrow> int \<Rightarrow> string list" where
  "offline_nodes io env cutoff =
     map fst (filter (\<lambda>(_, seen). case seen of Some t \<Rightarrow> t < cutoff | None \<Rightarrow> False) (node_configs env)) @
     (if io_null io then map fst (filter (\<lambda>(_, seen). seen = None) (node_configs env)) else [])"

definition fire_offline :: "codec \<Rightarrow> engine_io \<Rightarrow> engine_env \<Rightarrow> int \<Rightarrow> rule \<Rightarrow> string \<Rightarrow> run \<Rightarrow> run" where
  "fire_offline c io env now r node run =
     (let k = rule_key r node '''' in
      if \<not> is_active (fst run) k then fire_key c io env now r node [] (Fin 0) k run else run)"

definition evaluate_offline ::
  "codec \<Rightarrow> orders \<Rightarrow> engine_io \<Rightarrow> engine_env \<Rightarrow> int \<Rightarrow> rule \<Rightarrow> run \<Rightarrow> run" where
  "evaluate_offline c ord io env now r run =
     (let window = (if duration r \<le> 0 then 120 * 10 ^ 9 else duration r);
          cutoff = seconds (now - window) in
      if \<not> io_nodes io then run
      else
        (let offline = offline_nodes io env cutoff;
             run = fold (fire_offline c io env now r) offline run
         in fold (resolve_key c io now r (Fin 0))
              (filter (\<lambda>k. k_rule k = rule_name r \<and> k_node k \<notin> set offline) (active_keys ord (fst run))) run))"

definition evaluate_rule ::
  "codec \<Rightarrow> orders \<Rightarrow> engine_io \<Rightarrow> engine_env \<Rightarrow> int \<Rightarrow> rule \<Rightarrow> run \<Rightarrow> run" where
  "evaluate_rule c ord io env now r run =
     (if plugin r = ''_meta'' \<and> sensor r = ''node_offline'' then
        (if applies_to_role r role_cluster_node then evaluate_offline c ord io env now r run else run)
      else
        (let window = (if duration r < tick_interval then tick_interval else duration r)
         in evaluate_all_nodes c ord io env now r (now - window) now run))"

definition evaluate :: "codec \<Rightarrow> orders \<Rightarrow> engine_io \<Rightarrow> engine_env \<Rightarrow> int \<Rightarrow> rule list \<Rightarrow> run \<Rightarrow> run" where
  "evaluate c ord io env now rs run = fold (evaluate_rule c ord io env now) rs run"

section \<open>Invariants of the engine\<close>

text \<open>
  What is assumed of the library: the JSON text of a label map that is not empty is not empty and
  decodes to a map with the same text. A range over a map visits each key once.
\<close>

definition codec_ok :: "codec \<Rightarrow> bool" where
  "codec_ok c \<longleftrightarrow> (\<forall>ls. ls \<noteq> [] \<longrightarrow> encode c ls \<noteq> '''' \<and>
     (\<exists>ls'. ls' \<noteq> [] \<and> decode c (encode c ls) = Some ls' \<and> encode c ls' = encode c ls))"

definition orders_ok :: "orders \<Rightarrow> bool" where
  "orders_ok ord \<longleftrightarrow> (\<forall>gs. set (group_order ord gs) = set gs) \<and>
     (\<forall>ks. finite ks \<longrightarrow> set (key_order ord ks) = ks)"

lemma group_keys:
  assumes "codec_ok c" and "(lj, samples) \<in> set (group_by_labels c rows')"
  shows "labels_to_json c (group_labels c lj) = lj"
proof -
  have "\<exists>s :: stat_row. lj = labels_to_json c (sr_labels s)"
    using assms(2) by (auto simp: group_by_labels_def)
  then obtain s :: stat_row where "lj = labels_to_json c (sr_labels s)" ..
  with assms(1) show ?thesis
    by (cases "sr_labels s = []") (auto simp: labels_to_json_def group_labels_def codec_ok_def split: option.splits)
qed

text \<open>
  A property of runs that firing, resolving and updating a key keep is kept by whole evaluations.
\<close>

locale engine_invariant =
  fixes c :: codec and io :: engine_io and env :: engine_env and now :: int and P :: "run \<Rightarrow> bool"
  assumes keep_fire: "P run \<Longrightarrow> k = rule_key r node (labels_to_json c ls) \<Longrightarrow> \<not> is_active (fst run) k \<Longrightarrow>
      P (fire_key c io env now r node ls v k run)"
    and keep_resolve: "P run \<Longrightarrow> P (resolve_key c io now r v k run)"
    and keep_update: "P run \<Longrightarrow> P (update_last_value ok k v (fst run), snd run)"
begin

lemma keep_fold: "(\<And>x run. x \<in> set xs \<Longrightarrow> P run \<Longrightarrow> P (f x run)) \<Longrightarrow> P run \<Longrightarrow> P (fold f xs run)"
  by (induction xs arbitrary: run) simp_all

lemma keep_group:
  assumes "P run" and "labels_to_json c (group_labels c lj) = lj"
  shows "P (evaluate_group c io env now r node (lj, samples) run)"
  using assms keep_fire [OF assms(1), of _ r node "group_labels c lj"]
  by (simp add: evaluate_group_def Let_def keep_resolve keep_update)

lemma keep_node:
  assumes "codec_ok c" and "orders_ok ord" and "P run"
  shows "P (evaluate_node c ord io env now r since until node run)"
proof -
  have "P (evaluate_group c io env now r node g run')"
    if "g \<in> set (group_order ord (group_by_labels c (query_node_stats env node r since until)))" "P run'" for g run'
  proof -
    obtain lj samples where g: "g = (lj, samples)" by (cases g)
    have "g \<in> set (group_by_labels c (query_node_stats env node r since until))"
      using that(1) assms(2) by (simp add: orders_ok_def)
    then show ?thesis
      unfolding g by (rule keep_group [OF that(2) group_keys [OF assms(1)]])
  qed
  with assms(3) show ?thesis by (simp add: evaluate_node_def keep_fold)
qed

lemma keep_rule:
  assumes "codec_ok c" and "orders_ok ord" and "P run"
  shows "P (evaluate_rule c ord io env now r run)"
proof -
  have offline: "P (fire_offline c io env now r node run')" if "P run'" for node run'
    using that keep_fire [OF that, of _ r node "[]"]
    by (simp add: fire_offline_def Let_def labels_to_json_def)
  have resolve: "P (fold (resolve_key c io now r v) ks run')" if "P run'" for v ks run'
    using that by (intro keep_fold keep_resolve)
  have nodes: "P (fold (evaluate_node c ord io env now r since until) ns run')" if "P run'" for since until ns run'
    using that by (intro keep_fold keep_node [OF assms(1,2)])
  have "P (evaluate_offline c ord io env now r run)"
    using assms(3) by (simp add: evaluate_offline_def Let_def resolve keep_fold offline)
  moreover have "P (evaluate_all_nodes c ord io env now r since until run)" for since until
    using assms(3) by (simp add: evaluate_all_nodes_def resolve_stale_def Let_def resolve nodes)
  ultimately show ?thesis using assms(3) by (simp add: evaluate_rule_def Let_def)
qed

lemma keep_evaluate:
  assumes "codec_ok c" and "orders_ok ord" and "P run"
  shows "P (evaluate c ord io env now rs run)"
  unfolding evaluate_def using assms(3) by (rule keep_fold [rotated]) (rule keep_rule [OF assms(1,2)])

end

text \<open>The cache agrees with the table: an active key has a firing row of its own.\<close>

definition store_ok :: "alert_store \<Rightarrow> bool" where
  "store_ok st \<longleftrightarrow> distinct (map row_id (alert_rows st)) \<and> (\<forall>row \<in> set (alert_rows st). row_id row < next_id st) \<and>
     (\<forall>k n t. active st k = Some (n, t) \<longrightarrow>
        (\<exists>row \<in> set (alert_rows st). row_id row = n \<and> row_key row = k \<and> row_state row = Firing))"

text \<open>And no other row is firing.\<close>

definition store_exact :: "alert_store \<Rightarrow> bool" where
  "store_exact st \<longleftrightarrow> store_ok st \<and>
     (\<forall>row \<in> set (alert_rows st). row_state row = Firing \<longrightarrow> (\<exists>t. active st (row_key row) = Some (row_id row, t)))"

lemma store_ok_row:
  assumes "store_ok st" "active st k = Some (n, t)"
  obtains row where "row \<in> set (alert_rows st)" "row_id row = n" "row_key row = k" "row_state row = Firing"
  using assms unfolding store_ok_def by blast

lemma row_ids: "store_ok st \<Longrightarrow> row \<in> set (alert_rows st) \<Longrightarrow> row' \<in> set (alert_rows st) \<Longrightarrow>
    row_id row = row_id row' \<Longrightarrow> row = row'"
  unfolding store_ok_def by (auto simp: distinct_map inj_on_def)

lemma active_ids: "store_ok st \<Longrightarrow> active st k = Some (n, t) \<Longrightarrow> active st k' = Some (n, t') \<Longrightarrow> k = k'"
  by (metis store_ok_row row_ids)

lemma fire_active:
  "active (snd (fire c ok now r node ls v st)) =
    (if ok then (active st)(rule_key r node (labels_to_json c ls) \<mapsto> (next_id st, now)) else active st)"
  by (simp add: fire_def Let_def)

lemma new_row_key:
  "row_key \<lparr>row_id = n, row_rule = rule_name r, row_node = node, row_sensor = sensor r,
     row_labels = (if lj = '''' then None else Some lj), row_severity = sv, row_state = ast, row_fired = t,
     row_resolved = rt, row_value = v, row_op = p, row_threshold = th\<rparr> = rule_key r node lj"
  by (simp add: row_key_def rule_key_def)

lemma fire_ok: "store_ok st \<Longrightarrow> store_ok (snd (fire c ok now r node ls v st))"
  unfolding store_ok_def
  by (auto simp: fire_def Let_def new_row_key less_le)

lemma fire_exact:
  assumes "store_exact st" "\<not> is_active st (rule_key r node (labels_to_json c ls))"
  shows "store_exact (snd (fire c ok now r node ls v st))"
proof -
  have "store_ok (snd (fire c ok now r node ls v st))"
    using assms(1) by (simp add: store_exact_def fire_ok)
  moreover have "row_key row \<noteq> rule_key r node (labels_to_json c ls)"
    if "row \<in> set (alert_rows st)" "row_state row = Firing" for row
    using assms that by (auto simp: store_exact_def is_active_def)
  ultimately show ?thesis
    using assms(1) unfolding store_exact_def
    by (auto simp: fire_def Let_def new_row_key)
qed

lemma update_row_keys:
  assumes "\<And>row. row_id (f row) = row_id row \<and> row_key (f row) = row_key row"
  shows "map row_id (alert_rows (update_row n f st)) = map row_id (alert_rows st)"
    "next_id (update_row n f st) = next_id st" "active (update_row n f st) = active st"
    "set (alert_rows (update_row n f st)) = (\<lambda>row. if row_id row = n then f row else row) ` set (alert_rows st)"
  using assms by (simp_all add: update_row_def)

text \<open>Changing the row of an active key without touching what identifies it.\<close>

lemma update_value_ok:
  assumes "\<And>row. row_id (f row) = row_id row \<and> row_key (f row) = row_key row \<and> row_state (f row) = row_state row"
  shows "store_ok (update_row n f st) \<longleftrightarrow> store_ok st" "store_exact (update_row n f st) \<longleftrightarrow> store_exact st"
proof -
  define g where "g = (\<lambda>row. if row_id row = n then f row else row)"
  have g: "row_id (g row) = row_id row" "row_key (g row) = row_key row" "row_state (g row) = row_state row" for row
    using assms by (simp_all add: g_def)
  have upd: "map row_id (alert_rows (update_row n f st)) = map row_id (alert_rows st)"
    "next_id (update_row n f st) = next_id st" "active (update_row n f st) = active st"
    "set (alert_rows (update_row n f st)) = g ` set (alert_rows st)"
    using g by (simp_all add: update_row_def comp_def flip: g_def)
  show ok: "store_ok (update_row n f st) \<longleftrightarrow> store_ok st"
    unfolding store_ok_def upd by (simp add: g)
  show "store_exact (update_row n f st) \<longleftrightarrow> store_exact st"
    unfolding store_exact_def ok unfolding upd by (simp add: g)
qed

lemma row_key_value [simp]: "row_key (row\<lparr>row_value := v\<rparr>) = row_key row"
  "row_key (row\<lparr>row_state := s, row_resolved := t, row_value := v\<rparr>) = row_key row"
  by (simp_all add: row_key_def)

lemma update_last_value_ok:
  "store_ok (update_last_value ok k v st) \<longleftrightarrow> store_ok st"
  "store_exact (update_last_value ok k v st) \<longleftrightarrow> store_exact st"
  "active (update_last_value ok k v st) = active st"
  by (auto simp: update_last_value_def update_value_ok split: option.splits) (simp_all add: update_row_def)

lemma resolve_active [simp]:
  "active (snd (resolve_alert c ok fetched now k v st)) = (active st)(k := None)"
  by (auto simp: resolve_alert_def Let_def update_row_def split: option.splits)

lemma resolve_rows:
  assumes "active st k = Some (n, t)"
  shows "alert_rows (snd (resolve_alert c ok fetched now k v st)) =
      (if ok then map (\<lambda>row. if row_id row = n
         then row\<lparr>row_state := Resolved, row_resolved := Some now, row_value := v\<rparr> else row) (alert_rows st)
       else alert_rows st)"
    "next_id (snd (resolve_alert c ok fetched now k v st)) = next_id st"
  using assms by (simp_all add: resolve_alert_def Let_def update_row_def)

lemma resolve_none: "active st k = None \<Longrightarrow> resolve_alert c ok fetched now k v st = (None, st)"
  by (simp add: resolve_alert_def)

lemma resolve_ok:
  assumes ok: "store_ok st"
  shows "store_ok (snd (resolve_alert c good fetched now k v st))"
proof (cases "active st k")
  case None
  with ok show ?thesis by (simp add: resolve_none)
next
  case (Some a)
  then obtain n t where k: "active st k = Some (n, t)" by (cases a) auto
  let ?st = "snd (resolve_alert c good fetched now k v st)"
  have "map row_id (alert_rows ?st) = map row_id (alert_rows st)"
    by (simp add: resolve_rows [OF k])
  moreover have "\<forall>row \<in> set (alert_rows ?st). row_id row < next_id ?st"
    using ok by (auto simp: resolve_rows [OF k] store_ok_def split: if_splits)
  moreover have "\<exists>row \<in> set (alert_rows ?st). row_id row = n' \<and> row_key row = k' \<and> row_state row = Firing"
    if "active ?st k' = Some (n', t')" for k' n' t'
  proof -
    have k': "k' \<noteq> k" "active st k' = Some (n', t')" using that by (simp_all split: if_splits)
    obtain row where row: "row \<in> set (alert_rows st)" "row_id row = n'" "row_key row = k'" "row_state row = Firing"
      using store_ok_row [OF ok k'(2)] .
    obtain row2 where row2: "row2 \<in> set (alert_rows st)" "row_id row2 = n" "row_key row2 = k"
      using store_ok_row [OF ok k] by metis
    have "n' \<noteq> n" using row_ids [OF ok row(1) row2(1)] row row2 k'(1) by auto
    with row show ?thesis by (auto simp: resolve_rows [OF k] intro!: bexI [of _ row])
  qed
  ultimately show ?thesis
    using ok unfolding store_ok_def by presburger
qed

lemma resolve_alert_exact:
  assumes ex: "store_exact st"
  shows "store_exact (snd (resolve_alert c True fetched now k v st))"
proof (cases "active st k")
  case None
  with ex show ?thesis by (simp add: resolve_none)
next
  case (Some a)
  then obtain n t where k: "active st k = Some (n, t)" by (cases a) auto
  have ok: "store_ok st" using ex by (simp add: store_exact_def)
  obtain row2 where row2: "row2 \<in> set (alert_rows st)" "row_id row2 = n" "row_key row2 = k"
    using store_ok_row [OF ok k] by metis
  have "\<exists>t. active (snd (resolve_alert c True fetched now k v st)) (row_key row) = Some (row_id row, t)"
    if row: "row \<in> set (alert_rows (snd (resolve_alert c True fetched now k v st)))" "row_state row = Firing" for row
  proof -
    from row(1) obtain r0 where r0: "r0 \<in> set (alert_rows st)"
      "row = (if row_id r0 = n then r0\<lparr>row_state := Resolved, row_resolved := Some now, row_value := v\<rparr> else r0)"
      by (auto simp only: resolve_rows [OF k] simp_thms if_True set_map)
    have "row_id r0 \<noteq> n"
    proof
      assume "row_id r0 = n"
      with r0(2) have "row_state row = Resolved" by simp
      with row(2) show False by simp
    qed
    with r0 have old: "row \<in> set (alert_rows st)" "row_id row \<noteq> n" by simp_all
    then obtain t' where t': "active st (row_key row) = Some (row_id row, t')"
      using ex row(2) by (auto simp: store_exact_def)
    with k old(2) have "row_key row \<noteq> k" by auto
    with t' show ?thesis by simp
  qed
  then show ?thesis unfolding store_exact_def using resolve_ok [OF ok] by blast
qed

lemma fire_key_fst: "fst (fire_key c io env now r node ls v k run) =
    snd (fire c (io_fire io k) (seconds now) r node ls v (fst run))"
  by (simp add: fire_key_def split: prod.splits)

lemma resolve_key_fst: "fst (resolve_key c io now r v k run) =
    snd (resolve_alert c (io_resolve io k) (io_fetch io k) (seconds now) k v (fst run))"
  by (simp add: resolve_key_def split: prod.splits)

text \<open>The invariants the engine keeps: the cache is sound, exact if every resolve is written, and silenced
  rules do not fire.\<close>

interpretation sound: engine_invariant c io env now "\<lambda>run. store_ok (fst run)" for c io env now
  by unfold_locales (simp_all add: fire_key_fst resolve_key_fst fire_ok resolve_ok update_last_value_ok)

interpretation exact: engine_invariant c io env now
  "\<lambda>run. (\<forall>k. io_resolve io k) \<longrightarrow> store_exact (fst run)" for c io env now
  by unfold_locales (simp_all add: fire_key_fst resolve_key_fst fire_exact resolve_alert_exact update_last_value_ok)

definition quiet :: "engine_io \<Rightarrow> engine_env \<Rightarrow> int \<Rightarrow> event \<Rightarrow> bool" where
  "quiet io env now e = (case e of FireEvent r al \<Rightarrow> \<not> engine_silenced io env now (rule_name r) (al_node al)
     | ResolveEvent r al \<Rightarrow> True)"

interpretation quiet: engine_invariant c io env now "\<lambda>run. \<forall>e \<in> set (snd run). quiet io env now e"
  for c io env now
proof
  fix run :: run and r node ls v k
  assume "\<forall>e \<in> set (snd run). quiet io env now e"
  then show "\<forall>e \<in> set (snd (fire_key c io env now r node ls v k run)). quiet io env now e"
    by (auto simp: fire_key_def fire_def Let_def quiet_def split: prod.splits option.splits if_splits)
next
  fix run :: run and r v k
  assume "\<forall>e \<in> set (snd run). quiet io env now e"
  then show "\<forall>e \<in> set (snd (resolve_key c io now r v k run)). quiet io env now e"
    by (auto simp: resolve_key_def quiet_def split: prod.splits option.splits)
qed simp

section \<open>What one evaluation decides\<close>

lemma fold_verdict:
  assumes "\<And>x run. x \<in> set xs \<Longrightarrow> Q (f x run) \<longleftrightarrow> (case v x of Some b' \<Rightarrow> b' | None \<Rightarrow> Q run)"
    and "\<And>x. x \<in> set xs \<Longrightarrow> v x = None \<or> v x = Some b"
  shows "Q (fold f xs run) \<longleftrightarrow> (if \<exists>x \<in> set xs. v x \<noteq> None then b else Q run)"
  using assms
proof (induction xs arbitrary: run)
  case Nil
  then show ?case by simp
next
  case (Cons x xs)
  have "Q (fold f xs (f x run)) \<longleftrightarrow> (if \<exists>x \<in> set xs. v x \<noteq> None then b else Q (f x run))"
    by (rule Cons.IH) (use Cons.prems in auto)
  moreover have "Q (f x run) \<longleftrightarrow> (case v x of Some b' \<Rightarrow> b' | None \<Rightarrow> Q run)" by (rule Cons.prems(1)) simp
  moreover have "v x = None \<or> v x = Some b" by (rule Cons.prems(2)) simp
  ultimately show ?case by auto
qed

text \<open>A database that carries out what the engine asks of it.\<close>

definition io_ok :: "engine_io \<Rightarrow> bool" where
  "io_ok io \<longleftrightarrow> io_nodes io \<and> io_null io \<and> (\<forall>n. io_stats io n) \<and> (\<forall>k. io_fire io k) \<and> (\<forall>k. io_resolve io k)"

text \<open>
  What one tick says of a key of the rule on a node with samples in the window: \<open>None\<close> when the label
  group of the key has no sample or does not match the rule.
\<close>

definition group_verdict ::
  "codec \<Rightarrow> engine_env \<Rightarrow> rule \<Rightarrow> int \<Rightarrow> int \<Rightarrow> string \<Rightarrow> alert_key \<Rightarrow> bool option" where
  "group_verdict c env r since until node k =
     (let samples = filter (\<lambda>s. labels_to_json c (sr_labels s) = k_labels k)
            (query_node_stats env node r since until)
      in if k = rule_key r node (k_labels k) \<and> samples \<noteq> [] \<and>
           matches_labels r (map_of (group_labels c (k_labels k)))
         then Some (all_satisfy r samples) else None)"

lemma is_active_fire_key:
  "io_ok io \<Longrightarrow> is_active (fst (fire_key c io env now r node ls v k0 run)) k \<longleftrightarrow>
    k = rule_key r node (labels_to_json c ls) \<or> is_active (fst run) k"
  by (simp add: fire_key_fst is_active_def fire_active io_ok_def)

lemma is_active_resolve_key:
  "is_active (fst (resolve_key c io now r v k0 run)) k \<longleftrightarrow> k \<noteq> k0 \<and> is_active (fst run) k"
  by (simp add: resolve_key_fst is_active_def)

lemma is_active_update: "is_active (update_last_value ok k0 v st) k \<longleftrightarrow> is_active st k"
  by (simp add: is_active_def update_last_value_ok)

lemma is_active_group:
  assumes "io_ok io" and "labels_to_json c (group_labels c lj) = lj"
  shows "is_active (fst (evaluate_group c io env now r node (lj, samples) run)) k \<longleftrightarrow>
    (case (if k = rule_key r node lj \<and> matches_labels r (map_of (group_labels c lj))
           then Some (all_satisfy r samples) else None) of
       Some b \<Rightarrow> b | None \<Rightarrow> is_active (fst run) k)"
  using assms
  by (auto simp: evaluate_group_def Let_def is_active_fire_key is_active_resolve_key is_active_update)

lemma rule_key_sel [simp]:
  "k_rule (rule_key r node lj) = rule_name r" "k_node (rule_key r node lj) = node"
  "k_sensor (rule_key r node lj) = sensor r" "k_labels (rule_key r node lj) = lj"
  by (simp_all add: rule_key_def)

lemma in_groups:
  "(lj, samples) \<in> set (group_by_labels c sts) \<longleftrightarrow>
    samples = filter (\<lambda>s. labels_to_json c (sr_labels s) = lj) sts \<and> samples \<noteq> []"
  by (auto simp: group_by_labels_def filter_empty_conv)

lemma is_active_node:
  assumes io: "io_ok io" and codec: "codec_ok c" and ord: "orders_ok ord"
  shows "is_active (fst (evaluate_node c ord io env now r since until node run)) k \<longleftrightarrow>
    (case group_verdict c env r since until node k of Some b \<Rightarrow> b | None \<Rightarrow> is_active (fst run) k)"
proof -
  let ?gs = "group_order ord (group_by_labels c (query_node_stats env node r since until))"
  define samples where "samples = filter (\<lambda>s. labels_to_json c (sr_labels s) = k_labels k)
    (query_node_stats env node r since until)"
  define v where "v = (\<lambda>(lj, ss). if k = rule_key r node lj \<and> matches_labels r (map_of (group_labels c lj))
    then Some (all_satisfy r ss) else None)"
  have gs: "(lj, ss) \<in> set ?gs \<longleftrightarrow> ss = filter (\<lambda>s. labels_to_json c (sr_labels s) = lj)
      (query_node_stats env node r since until) \<and> ss \<noteq> []" for lj ss
    using ord by (simp add: orders_ok_def in_groups)
  have step: "is_active (fst (evaluate_group c io env now r node g run')) k \<longleftrightarrow>
      (case v g of Some b \<Rightarrow> b | None \<Rightarrow> is_active (fst run') k)" if "g \<in> set ?gs" for g run'
  proof -
    obtain lj ss where g: "g = (lj, ss)" by (cases g)
    have "(lj, ss) \<in> set (group_by_labels c (query_node_stats env node r since until))"
      using that ord unfolding g by (simp add: orders_ok_def)
    from is_active_group [OF io group_keys [OF codec this]] show ?thesis
      by (simp add: g v_def)
  qed
  have agree: "v g = None \<or> v g = Some (all_satisfy r samples)" if "g \<in> set ?gs" for g
  proof -
    obtain lj ss where g: "g = (lj, ss)" by (cases g)
    with that gs have "ss = filter (\<lambda>s. labels_to_json c (sr_labels s) = lj)
      (query_node_stats env node r since until)" by simp
    then show ?thesis by (simp add: g v_def samples_def)
  qed
  have some: "(\<exists>g \<in> set ?gs. v g \<noteq> None) \<longleftrightarrow> k = rule_key r node (k_labels k) \<and> samples \<noteq> [] \<and>
      matches_labels r (map_of (group_labels c (k_labels k)))"
  proof
    assume "\<exists>g \<in> set ?gs. v g \<noteq> None"
    then obtain lj ss where "(lj, ss) \<in> set ?gs" "v (lj, ss) \<noteq> None" by auto
    moreover from this have "k = rule_key r node lj" by (auto simp: v_def split: if_splits)
    ultimately show "k = rule_key r node (k_labels k) \<and> samples \<noteq> [] \<and>
        matches_labels r (map_of (group_labels c (k_labels k)))"
      using gs by (auto simp: v_def samples_def split: if_splits)
  next
    assume k: "k = rule_key r node (k_labels k) \<and> samples \<noteq> [] \<and>
        matches_labels r (map_of (group_labels c (k_labels k)))"
    then have "(k_labels k, samples) \<in> set ?gs" by (simp add: gs samples_def)
    moreover have "v (k_labels k, samples) \<noteq> None" using k by (simp add: v_def)
    ultimately show "\<exists>g \<in> set ?gs. v g \<noteq> None" by blast
  qed
  have "io_stats io node" using io by (simp add: io_ok_def)
  then have "is_active (fst (evaluate_node c ord io env now r since until node run)) k \<longleftrightarrow>
      (if \<exists>g \<in> set ?gs. v g \<noteq> None then all_satisfy r samples else is_active (fst run) k)"
    using fold_verdict [of ?gs "\<lambda>run. is_active (fst run) k" "evaluate_group c io env now r node" v, OF step agree]
    by (simp add: evaluate_node_def)
  then show ?thesis unfolding some by (simp add: group_verdict_def Let_def flip: samples_def)
qed

lemma is_active_nodes:
  assumes io: "io_ok io" and codec: "codec_ok c" and ord: "orders_ok ord"
  shows "is_active (fst (fold (evaluate_node c ord io env now r since until) nodes run)) k \<longleftrightarrow>
    (case (if k_node k \<in> set nodes then group_verdict c env r since until (k_node k) k else None) of
       Some b \<Rightarrow> b | None \<Rightarrow> is_active (fst run) k)"
proof -
  let ?v = "\<lambda>node. group_verdict c env r since until node k"
  have only: "node = k_node k" if "?v node \<noteq> None" for node
  proof -
    from that have "k = rule_key r node (k_labels k)" by (simp add: group_verdict_def Let_def split: if_splits)
    then have "k_node k = k_node (rule_key r node (k_labels k))" by (rule arg_cong)
    then show ?thesis by simp
  qed
  have same: "?v node = None \<or> ?v node = Some b" if "?v (k_node k) = None \<or> ?v (k_node k) = Some b" for node b
  proof (cases "?v node = None")
    case False
    then have "node = k_node k" by (rule only)
    with that show ?thesis by simp
  qed simp
  have some: "(\<exists>node \<in> set nodes. ?v node \<noteq> None) \<longleftrightarrow> k_node k \<in> set nodes \<and> ?v (k_node k) \<noteq> None"
  proof
    assume "\<exists>node \<in> set nodes. ?v node \<noteq> None"
    then obtain node where "node \<in> set nodes" "?v node \<noteq> None" ..
    moreover from only [OF this(2)] have "node = k_node k" .
    ultimately show "k_node k \<in> set nodes \<and> ?v (k_node k) \<noteq> None" by simp
  qed blast
  obtain b where b: "?v (k_node k) = None \<or> ?v (k_node k) = Some b" by (cases "?v (k_node k)") auto
  have "is_active (fst (fold (evaluate_node c ord io env now r since until) nodes run)) k \<longleftrightarrow>
      (if \<exists>node \<in> set nodes. ?v node \<noteq> None then b else is_active (fst run) k)"
    by (rule fold_verdict [of nodes "\<lambda>run. is_active (fst run) k", OF is_active_node [OF io codec ord] same [OF b]])
  with b show ?thesis unfolding some by (auto split: option.split)
qed

lemma is_active_resolve_all:
  "is_active (fst (fold (resolve_key c io now r v) ks run)) k \<longleftrightarrow> k \<notin> set ks \<and> is_active (fst run) k"
  by (induction ks arbitrary: run) (auto simp: is_active_resolve_key)

lemma active_finite: "store_ok st \<Longrightarrow> finite (dom (active st))"
proof -
  assume "store_ok st"
  then have "dom (active st) \<subseteq> row_key ` set (alert_rows st)"
    unfolding store_ok_def by fastforce
  then show ?thesis by (rule finite_subset) simp
qed

lemma set_active_keys: "store_ok st \<Longrightarrow> orders_ok ord \<Longrightarrow> set (active_keys ord st) = {k. is_active st k}"
  by (auto simp: active_keys_def orders_ok_def active_finite is_active_def)

lemma is_active_all_nodes:
  assumes io: "io_ok io" and codec: "codec_ok c" and ord: "orders_ok ord" and ok: "store_ok (fst run)"
  shows "is_active (fst (evaluate_all_nodes c ord io env now r since until run)) k \<longleftrightarrow>
    (if k_node k \<in> set (window_nodes env r since until)
     then (case group_verdict c env r since until (k_node k) k of Some b \<Rightarrow> b | None \<Rightarrow> is_active (fst run) k)
     else k_rule k \<noteq> rule_name r \<and> is_active (fst run) k)"
proof -
  let ?nodes = "window_nodes env r since until"
  define mid where "mid = fold (evaluate_node c ord io env now r since until) ?nodes run"
  have "store_ok (fst mid)"
    unfolding mid_def by (rule sound.keep_fold [OF _ ok]) (rule sound.keep_node [OF codec ord])
  note keys = set_active_keys [OF this ord]
  have mid: "is_active (fst mid) k \<longleftrightarrow> (case (if k_node k \<in> set ?nodes then
      group_verdict c env r since until (k_node k) k else None) of Some b \<Rightarrow> b | None \<Rightarrow> is_active (fst run) k)"
    unfolding mid_def by (rule is_active_nodes [OF io codec ord])
  have "io_nodes io" using io by (simp add: io_ok_def)
  then have "evaluate_all_nodes c ord io env now r since until run = resolve_stale c ord io now r ?nodes mid"
    by (simp add: evaluate_all_nodes_def Let_def mid_def)
  then have "is_active (fst (evaluate_all_nodes c ord io env now r since until run)) k \<longleftrightarrow>
      \<not> (k_rule k = rule_name r \<and> k_node k \<notin> set ?nodes) \<and> is_active (fst mid) k"
    by (auto simp: resolve_stale_def is_active_resolve_all keys)
  with mid show ?thesis by (auto split: option.split)
qed

lemma is_active_fire_offline:
  "io_ok io \<Longrightarrow> is_active (fst (fold (fire_offline c io env now r) nodes run)) k \<longleftrightarrow>
    (\<exists>node \<in> set nodes. k = rule_key r node '''') \<or> is_active (fst run) k"
proof (induction nodes arbitrary: run)
  case Nil
  then show ?case by simp
next
  case (Cons node nodes)
  have "is_active (fst (fire_offline c io env now r node run)) k \<longleftrightarrow>
      k = rule_key r node '''' \<or> is_active (fst run) k"
    using Cons.prems by (auto simp: fire_offline_def Let_def is_active_fire_key labels_to_json_def)
  with Cons show ?case by auto
qed

lemma is_active_offline:
  assumes io: "io_ok io" and ord: "orders_ok ord" and ok: "store_ok (fst run)"
    and off: "offline = offline_nodes io env (seconds (now - (if duration r \<le> 0 then 120 * 10 ^ 9 else duration r)))"
  shows "is_active (fst (evaluate_offline c ord io env now r run)) k \<longleftrightarrow>
    (if k_rule k = rule_name r
     then k_node k \<in> set offline \<and> (k = rule_key r (k_node k) '''' \<or> is_active (fst run) k)
     else is_active (fst run) k)"
proof -
  define mid where "mid = fold (fire_offline c io env now r) offline run"
  have "store_ok (fst mid)"
    unfolding mid_def
  proof (rule sound.keep_fold [OF _ ok])
    fix node and run :: run assume "store_ok (fst run)"
    then show "store_ok (fst (fire_offline c io env now r node run))"
      by (simp add: fire_offline_def Let_def fire_key_fst fire_ok)
  qed
  note keys = set_active_keys [OF this ord]
  have "io_nodes io" using io by (simp add: io_ok_def)
  then have "evaluate_offline c ord io env now r run = fold (resolve_key c io now r (Fin 0))
      (filter (\<lambda>k. k_rule k = rule_name r \<and> k_node k \<notin> set offline) (active_keys ord (fst mid))) mid"
    unfolding evaluate_offline_def Let_def mid_def off by simp
  then have "is_active (fst (evaluate_offline c ord io env now r run)) k \<longleftrightarrow>
      \<not> (k_rule k = rule_name r \<and> k_node k \<notin> set offline) \<and> is_active (fst mid) k"
    by (auto simp: is_active_resolve_all keys)
  moreover have "is_active (fst mid) k \<longleftrightarrow> (\<exists>node \<in> set offline. k = rule_key r node '''') \<or> is_active (fst run) k"
    unfolding mid_def by (rule is_active_fire_offline [OF io])
  moreover have "(\<exists>node \<in> set offline. k = rule_key r node '''') \<longleftrightarrow>
      k_node k \<in> set offline \<and> k = rule_key r (k_node k) ''''"
    by (metis rule_key_sel(2))
  moreover have "k = rule_key r (k_node k) '''' \<Longrightarrow> k_rule k = rule_name r" by (metis rule_key_sel(1))
  ultimately show ?thesis by auto
qed

section \<open>Properties\<close>

definition example_codec :: codec where
  "example_codec = \<lparr>encode = (\<lambda>ls. ''j''), decode = (\<lambda>_. Some [(''mount'', ''/'')])\<rparr>"

definition example_orders :: orders where
  "example_orders = \<lparr>group_order = (\<lambda>gs. gs), key_order = (\<lambda>ks. SOME xs. set xs = ks)\<rparr>"

definition example_eio :: engine_io where
  "example_eio = \<lparr>io_nodes = True, io_null = True, io_stats = (\<lambda>_. True), io_fire = (\<lambda>_. True),
     io_resolve = (\<lambda>_. True), io_fetch = (\<lambda>_. True), io_update = (\<lambda>_. True), io_silence = True\<rparr>"

lemma example_codec_ok: "codec_ok example_codec"
  by (simp add: codec_ok_def example_codec_def)

lemma example_orders_ok: "orders_ok example_orders"
proof -
  have "set (SOME xs. set xs = ks) = ks" if "finite ks" for ks :: "alert_key set"
    using someI_ex [OF finite_list [OF that]] .
  then show ?thesis by (simp add: orders_ok_def example_orders_def)
qed

lemma example_io_ok: "io_ok example_eio"
  by (simp add: io_ok_def example_eio_def)

definition example_sample :: "int \<Rightarrow> rat \<Rightarrow> stat_row" where
  "example_sample t v = \<lparr>sr_node = ''n1'', sr_plugin = ''disks'', sr_sensor = ''used_pct'', sr_value = Fin v,
     sr_labels = [], sr_ts = t\<rparr>"

definition example_env :: engine_env where
  "example_env = \<lparr>node_stats = [example_sample 990 95, example_sample 1000 97],
     node_configs = [(''n1'', Some 1000), (''n2'', None)], hosts = [], silences = None\<rparr>"

definition empty_store :: alert_store where
  "empty_store = \<lparr>alert_rows = [], next_id = 1, active = Map.empty\<rparr>"

lemma empty_store_exact: "store_ok empty_store" "store_exact empty_store"
  by (simp_all add: store_ok_def store_exact_def empty_store_def)

text \<open>
  C35. One evaluation of a rule over all nodes, on a working database, leaves a key firing exactly when:
  its node has samples in the window and either all samples of its label group satisfy the threshold,
  or its group has none (or does not match the labels of the rule) and it was firing before; on nodes
  without samples only the keys of other rules stay.
\<close>

theorem evaluate_all_nodes_active:
  assumes "io_ok io" and "codec_ok c" and "orders_ok ord" and "store_ok (fst run)"
  shows "is_active (fst (evaluate_all_nodes c ord io env now r since until run)) k \<longleftrightarrow>
    (if k_node k \<in> set (window_nodes env r since until)
     then (case group_verdict c env r since until (k_node k) k of Some b \<Rightarrow> b | None \<Rightarrow> is_active (fst run) k)
     else k_rule k \<noteq> rule_name r \<and> is_active (fst run) k)"
  using assms by (rule is_active_all_nodes)

lemma evaluate_all_nodes_active_witness:
  "is_active (fst (evaluate_all_nodes example_codec example_orders example_eio example_env (1000 * 10 ^ 9)
     example_rule (900 * 10 ^ 9) (1000 * 10 ^ 9) (empty_store, []))) (rule_key example_rule ''n1'' '''')"
proof -
  have "group_verdict example_codec example_env example_rule (900 * 10 ^ 9) (1000 * 10 ^ 9) ''n1''
      (rule_key example_rule ''n1'' '''') = Some True"
    by (simp add: group_verdict_def rule_key_def example_rule_def query_node_stats_def example_env_def
        example_sample_def seconds_def stats_limit_def labels_to_json_def matches_labels_def all_satisfy_def
        evaluate_threshold_def f64_le_def Let_def)
  moreover have "''n1'' \<in> set (window_nodes example_env example_rule (900 * 10 ^ 9) (1000 * 10 ^ 9))"
    by (simp add: window_nodes_def example_env_def example_sample_def in_window_def example_rule_def seconds_def
        role_selects_def effective_host_role_def role_control_plane_def role_any_def role_cluster_node_def)
  ultimately show ?thesis
    using evaluate_all_nodes_active [OF example_io_ok example_codec_ok example_orders_ok, of "(empty_store, [])"]
      empty_store_exact(1) by simp
qed

text \<open>
  Whatever calls of the database fail during an evaluation of all rules, every key of the cache keeps
  a firing row of its own; and if every resolve is written, the cache holds every firing row, so that
  no key has two.
\<close>

theorem evaluate_store:
  assumes "codec_ok c" and "orders_ok ord" and "evaluate c ord io env now rs (st, []) = (st', evs)"
  shows "(store_ok st \<longrightarrow> store_ok st') \<and> (store_exact st \<and> (\<forall>k. io_resolve io k) \<longrightarrow> store_exact st')"
  using sound.keep_evaluate [OF assms(1,2), where run = "(st, [])" and io = io and env = env and now = now and rs = rs]
    exact.keep_evaluate [OF assms(1,2), where run = "(st, [])" and io = io and env = env and now = now and rs = rs]
  by (simp add: assms(3))

lemma evaluate_store_witness:
  "store_exact (fst (evaluate example_codec example_orders example_eio example_env 0 [example_rule] (empty_store, [])))"
  using evaluate_store [OF example_codec_ok example_orders_ok prod.collapse [symmetric]] empty_store_exact
  by (simp add: example_eio_def)

lemma load_active_some:
  assumes "distinct (map row_key (filter (\<lambda>row. row_state row = Firing) table))"
    and "row \<in> set table" "row_state row = Firing"
  shows "fold load_row table m (row_key row) = Some (row_id row, row_fired row)"
  using assms
proof (induction table arbitrary: m)
  case Nil
  then show ?case by simp
next
  case (Cons x table)
  have keep: "fold load_row table m' k = m' k" if "\<forall>y \<in> set table. row_state y = Firing \<longrightarrow> row_key y \<noteq> k" for m' k
    using that by (induction table arbitrary: m') (auto simp: load_row_def)
  show ?case
  proof (cases "row = x")
    case True
    with Cons.prems have "row_key row \<notin> row_key ` {y \<in> set table. row_state y = Firing}" by simp
    then have "\<forall>y \<in> set table. row_state y = Firing \<longrightarrow> row_key y \<noteq> row_key row"
      by (metis (mono_tags, lifting) image_eqI mem_Collect_eq)
    moreover have "load_row x m = m(row_key x \<mapsto> (row_id x, row_fired x))"
      using True Cons.prems(3) by (simp add: load_row_def)
    ultimately show ?thesis using True by (simp add: keep)
  next
    case False
    with Cons show ?thesis by (auto split: if_splits)
  qed
qed

lemma load_active_none:
  "\<forall>row \<in> set table. row_state row = Firing \<longrightarrow> row_key row \<noteq> k \<Longrightarrow> fold load_row table m k = m k"
  by (induction table arbitrary: m) (auto simp: load_row_def)

lemma exact_distinct:
  assumes "store_exact st"
  shows "distinct (map row_key (filter (\<lambda>row. row_state row = Firing) (alert_rows st)))"
proof -
  have ok: "store_ok st" using assms by (simp add: store_exact_def)
  have "row = row'" if "row \<in> set (alert_rows st)" "row' \<in> set (alert_rows st)" "row_state row = Firing"
    "row_state row' = Firing" "row_key row = row_key row'" for row row' :: alert_row
  proof -
    note a = that
    obtain t t' where "active st (row_key row) = Some (row_id row, t)" "active st (row_key row') = Some (row_id row', t')"
      using assms a unfolding store_exact_def by blast
    with a(5) have "row_id row = row_id row'" by simp
    with a(1,2) show ?thesis by (rule row_ids [OF ok])
  qed
  moreover have "distinct (alert_rows st)" using ok by (simp add: store_ok_def distinct_map)
  ultimately show ?thesis by (auto simp: distinct_map inj_on_def)
qed

text \<open>
  A restart loses nothing: from the rows of a store whose cache is exact, \<open>loadActive\<close> rebuilds the
  cache, each key with the row it had.
\<close>

theorem restart_exact:
  assumes "store_exact st"
  shows "map_option fst (load_active (alert_rows st) k) = map_option fst (active st k)"
proof (cases "active st k")
  case None
  then have "\<forall>row \<in> set (alert_rows st). row_state row = Firing \<longrightarrow> row_key row \<noteq> k"
    using assms unfolding store_exact_def by auto
  then show ?thesis using None by (simp add: load_active_def load_active_none)
next
  case (Some a)
  then obtain n t where k: "active st k = Some (n, t)" by (cases a) auto
  obtain row where row: "row \<in> set (alert_rows st)" "row_id row = n" "row_key row = k" "row_state row = Firing"
    using assms k store_ok_row by (metis store_exact_def)
  from load_active_some [OF exact_distinct [OF assms] row(1,4)] row(2,3) k show ?thesis
    by (simp add: load_active_def)
qed

lemma restart_exact_witness: "load_active (alert_rows empty_store) k = None"
  using restart_exact [OF empty_store_exact(2), of k] by (simp add: empty_store_def)

text \<open>
  No notification of a firing alert is dispatched for a rule and node that an unexpired silence
  covers, as long as the silences can be read; an unreadable table silences nothing.
\<close>

theorem silenced_not_dispatched:
  assumes "codec_ok c" and "orders_ok ord" and "evaluate c ord io env now rs (st, []) = (st', evs)"
    and "FireEvent r al \<in> set evs" and "silences env = Some table" and "io_silence io"
  shows "\<forall>s \<in> set table. sil_rule s = rule_name r \<and> unexpired (seconds now) s \<longrightarrow>
    sil_node s \<noteq> None \<and> sil_node s \<noteq> Some (al_node al)"
proof -
  have "\<forall>e \<in> set evs. quiet io env now e"
    using quiet.keep_evaluate [OF assms(1,2), where run = "(st, [])" and io = io and env = env and now = now and rs = rs]
    by (simp add: assms(3))
  then have "\<not> engine_silenced io env now (rule_name r) (al_node al)"
    using assms(4) by (auto simp: quiet_def)
  then show ?thesis
    using assms(5,6) by (auto simp: engine_silenced_def is_silenced_def unexpired_def filter_empty_conv)
qed

definition example_off_env :: engine_env where
  "example_off_env = \<lparr>node_stats = [], node_configs = [(''n2'', None)], hosts = [],
     silences = Some [\<lparr>sil_id = ''s'', sil_rule = ''off'', sil_node = Some ''n1'', sil_expires = -1,
       sil_created = 0, sil_by = ''''\<rparr>]\<rparr>"

definition example_off_rule :: rule where
  "example_off_rule = example_rule\<lparr>rule_name := ''off'', plugin := ''_meta'', sensor := ''node_offline''\<rparr>"

definition example_off_run :: run where
  "example_off_run = evaluate example_codec example_orders example_eio example_off_env 0 [example_off_rule] (empty_store, [])"

lemma example_off_fires: "\<exists>al. al_node al = ''n2'' \<and> FireEvent example_off_rule al \<in> set (snd example_off_run)"
proof -
  have keep: "e \<in> set (snd run) \<Longrightarrow> e \<in> set (snd (fold (resolve_key c io now r v) ks run))" for e c io now r v ks run
  proof (induction ks arbitrary: run)
    case Nil
    then show ?case by simp
  next
    case (Cons k ks)
    then have "e \<in> set (snd (resolve_key c io now r v k run))"
      by (auto simp: resolve_key_def split: prod.splits option.splits)
    then show ?case by (simp add: Cons.IH)
  qed
  define run1 where "run1 = fire_offline example_codec example_eio example_off_env 0 example_off_rule ''n2'' (empty_store, [])"
  have ev: "\<exists>al. al_node al = ''n2'' \<and> FireEvent example_off_rule al \<in> set (snd run1)"
    by (simp add: run1_def fire_offline_def fire_key_def fire_def Let_def empty_store_def is_active_def example_eio_def
        engine_silenced_def example_off_env_def is_silenced_def example_off_rule_def)
  have "fold (fire_offline example_codec example_eio example_off_env 0 example_off_rule)
      (offline_nodes example_eio example_off_env t) (empty_store, []) = run1" for t
    by (simp add: offline_nodes_def example_off_env_def example_eio_def run1_def)
  then have run: "example_off_run = fold (resolve_key example_codec example_eio 0 example_off_rule (Fin 0))
      (filter (\<lambda>k. k_rule k = ''off'' \<and> k_node k \<notin> {''n2''}) (active_keys example_orders (fst run1))) run1"
    by (simp add: example_off_run_def evaluate_def evaluate_rule_def example_off_rule_def example_rule_def
        evaluate_offline_def applies_to_role_def effective_host_role_def role_control_plane_def role_any_def
        role_cluster_node_def Let_def example_eio_def offline_nodes_def example_off_env_def run1_def)
  from ev obtain al where al: "al_node al = ''n2''" "FireEvent example_off_rule al \<in> set (snd run1)" by blast
  have "FireEvent example_off_rule al \<in> set (snd example_off_run)" unfolding run by (rule keep) (rule al(2))
  with al(1) show ?thesis by blast
qed

lemma silenced_not_dispatched_witness:
  "\<exists>al. FireEvent example_off_rule al \<in> set (snd example_off_run) \<and> Some ''n1'' \<noteq> Some (al_node al)"
proof -
  obtain al where al: "FireEvent example_off_rule al \<in> set (snd example_off_run)"
    using example_off_fires by blast
  have run: "evaluate example_codec example_orders example_eio example_off_env 0 [example_off_rule] (empty_store, []) =
      (fst example_off_run, snd example_off_run)" by (simp add: example_off_run_def)
  define s where "s = \<lparr>sil_id = ''s'', sil_rule = ''off'', sil_node = Some ''n1'', sil_expires = -1 :: int,
    sil_created = 0 :: int, sil_by = ''''\<rparr>"
  have table: "silences example_off_env = Some [s]" by (simp add: example_off_env_def s_def)
  have "io_silence example_eio" by (simp add: example_eio_def)
  from silenced_not_dispatched [OF example_codec_ok example_orders_ok run al table this]
  have "sil_rule s = rule_name example_off_rule \<and> unexpired (seconds 0) s \<longrightarrow> sil_node s \<noteq> Some (al_node al)"
    by simp
  moreover have "sil_rule s = rule_name example_off_rule" "unexpired (seconds 0) s" "sil_node s = Some ''n1''"
    by (simp_all add: s_def example_off_rule_def unexpired_def)
  ultimately have "Some ''n1'' \<noteq> Some (al_node al)" by metis
  with al show ?thesis by blast
qed

text \<open>
  After an evaluation of the offline rule the nodes with a firing alert of the rule are exactly those
  last seen before the window or never seen, on a working database.
\<close>

theorem evaluate_offline_active:
  assumes "io_ok io" and "orders_ok ord" and "store_ok (fst run)"
    and "cutoff = seconds (now - (if duration r \<le> 0 then 120 * 10 ^ 9 else duration r))"
  shows "(\<exists>k. k_rule k = rule_name r \<and> k_node k = node \<and> is_active (fst (evaluate_offline c ord io env now r run)) k) \<longleftrightarrow>
    (\<exists>seen. (node, seen) \<in> set (node_configs env) \<and> (case seen of None \<Rightarrow> True | Some t \<Rightarrow> t < cutoff))"
proof -
  have off: "node \<in> set (offline_nodes io env cutoff) \<longleftrightarrow>
      (\<exists>seen. (node, seen) \<in> set (node_configs env) \<and> (case seen of None \<Rightarrow> True | Some t \<Rightarrow> t < cutoff))"
  proof
    assume "node \<in> set (offline_nodes io env cutoff)"
    then show "\<exists>seen. (node, seen) \<in> set (node_configs env) \<and> (case seen of None \<Rightarrow> True | Some t \<Rightarrow> t < cutoff)"
      by (fastforce simp: offline_nodes_def split: option.splits if_splits)
  next
    assume "\<exists>seen. (node, seen) \<in> set (node_configs env) \<and> (case seen of None \<Rightarrow> True | Some t \<Rightarrow> t < cutoff)"
    then obtain seen where seen: "(node, seen) \<in> set (node_configs env)" "case seen of None \<Rightarrow> True | Some t \<Rightarrow> t < cutoff"
      by blast
    have "io_null io" using assms(1) by (simp add: io_ok_def)
    with seen show "node \<in> set (offline_nodes io env cutoff)"
      by (cases seen) (auto simp: offline_nodes_def image_iff intro: bexI [rotated])
  qed
  note act = is_active_offline [OF assms(1-3) refl, where r = r and now = now and env = env and c = c,
      folded assms(4)]
  have "(\<exists>k. k_rule k = rule_name r \<and> k_node k = node \<and>
      is_active (fst (evaluate_offline c ord io env now r run)) k) \<longleftrightarrow> node \<in> set (offline_nodes io env cutoff)"
  proof
    assume "\<exists>k. k_rule k = rule_name r \<and> k_node k = node \<and>
        is_active (fst (evaluate_offline c ord io env now r run)) k"
    then obtain k where "k_rule k = rule_name r" "k_node k = node"
      "is_active (fst (evaluate_offline c ord io env now r run)) k" by blast
    with act [of k] show "node \<in> set (offline_nodes io env cutoff)" by simp
  next
    assume "node \<in> set (offline_nodes io env cutoff)"
    then have "is_active (fst (evaluate_offline c ord io env now r run)) (rule_key r node '''')"
      using act [of "rule_key r node ''''"] by simp
    then show "\<exists>k. k_rule k = rule_name r \<and> k_node k = node \<and>
        is_active (fst (evaluate_offline c ord io env now r run)) k"
      by (intro exI [of _ "rule_key r node ''''"]) simp
  qed
  with off show ?thesis by simp
qed

lemma evaluate_offline_active_witness:
  "\<exists>k. k_rule k = ''off'' \<and> k_node k = ''n2'' \<and>
     is_active (fst (evaluate_offline example_codec example_orders example_eio example_off_env 0
       example_off_rule (empty_store, []))) k"
proof -
  have "(''n2'', None) \<in> set (node_configs example_off_env)" by (simp add: example_off_env_def)
  moreover have "rule_name example_off_rule = ''off''" by (simp add: example_off_rule_def)
  ultimately show ?thesis
    using evaluate_offline_active [OF example_io_ok example_orders_ok, of "(empty_store, [])",
        OF _ refl, where r = example_off_rule and node = "''n2''" and env = example_off_env]
      empty_store_exact(1) by fastforce
qed

text \<open>
  A firing alert whose label group has no more samples is never resolved as long as its node still
  reports other samples for the rule: the evaluation leaves it firing.
\<close>

theorem vanished_group_stays:
  assumes "io_ok io" and "codec_ok c" and "orders_ok ord" and "store_ok (fst run)"
    and "is_active (fst run) k" and "k_node k \<in> set (window_nodes env r since until)"
    and "\<forall>s \<in> set (node_stats env). labels_to_json c (sr_labels s) \<noteq> k_labels k"
  shows "is_active (fst (evaluate_all_nodes c ord io env now r since until run)) k"
proof -
  have "set (query_node_stats env (k_node k) r since until) \<subseteq> set (node_stats env)"
    unfolding query_node_stats_def using set_take_subset by fastforce
  then have "filter (\<lambda>s. labels_to_json c (sr_labels s) = k_labels k)
      (query_node_stats env (k_node k) r since until) = []"
    using assms(7) by (auto simp: filter_empty_conv)
  then have "group_verdict c env r since until (k_node k) k = None"
    by (simp add: group_verdict_def Let_def)
  then show ?thesis using is_active_all_nodes [OF assms(1-4)] assms(5,6) by simp
qed

definition example_firing :: alert_store where
  "example_firing = snd (fire example_codec True 0 example_rule ''n1'' [(''mount'', ''/'')] (Fin 95) empty_store)"

lemma vanished_group_stays_witness:
  "is_active (fst (evaluate_all_nodes example_codec example_orders example_eio example_env (1000 * 10 ^ 9)
     example_rule (900 * 10 ^ 9) (1000 * 10 ^ 9) (example_firing, []))) (rule_key example_rule ''n1'' ''j'')"
proof (rule vanished_group_stays [OF example_io_ok example_codec_ok example_orders_ok])
  show "store_ok (fst (example_firing, []))"
    using fire_ok [OF empty_store_exact(1)] by (simp add: example_firing_def)
  show "is_active (fst (example_firing, [])) (rule_key example_rule ''n1'' ''j'')"
    by (simp add: is_active_def example_firing_def fire_active labels_to_json_def example_codec_def)
  show "k_node (rule_key example_rule ''n1'' ''j'') \<in> set (window_nodes example_env example_rule (900 * 10 ^ 9) (1000 * 10 ^ 9))"
    by (simp add: window_nodes_def example_env_def example_sample_def in_window_def example_rule_def seconds_def
        role_selects_def effective_host_role_def role_control_plane_def role_any_def role_cluster_node_def)
  show "\<forall>s \<in> set (node_stats example_env). labels_to_json example_codec (sr_labels s) \<noteq> k_labels (rule_key example_rule ''n1'' ''j'')"
    by (simp add: example_env_def example_sample_def labels_to_json_def)
qed

text \<open>
  The duration of a rule is not a time the condition must have held: a single sample taken right now
  fires a rule of any duration, if the node has no other sample for it in the window.
\<close>

theorem one_sample_fires:
  assumes "io_ok io" and "codec_ok c" and "orders_ok ord" and "store_ok (fst run)" and "valid_rule r"
    and "\<not> (plugin r = ''_meta'' \<and> sensor r = ''node_offline'')"
    and "s \<in> set (node_stats env)" and "role_selects env r (sr_node s)"
    and "sr_plugin s = plugin r" and "sr_sensor s = sensor r" and "sr_ts s = seconds now"
    and "filter (\<lambda>x. sr_node x = sr_node s \<and> sr_plugin x = plugin r \<and> sr_sensor x = sensor r) (node_stats env) = [s]"
    and "matches_labels r (map_of (group_labels c (labels_to_json c (sr_labels s))))"
    and "evaluate_threshold (rule_threshold r) (sr_value s)"
  shows "is_active (fst (evaluate_rule c ord io env now r run)) (rule_key r (sr_node s) (labels_to_json c (sr_labels s)))"
proof -
  define window where "window = (if duration r < tick_interval then tick_interval else duration r)"
  let ?k = "rule_key r (sr_node s) (labels_to_json c (sr_labels s))"
  have "0 \<le> window" by (simp add: window_def tick_interval_def)
  then have since: "seconds (now - window) \<le> seconds now" by (simp add: seconds_def zdiv_mono1)
  let ?mine = "\<lambda>x. sr_node x = sr_node s \<and> sr_plugin x = plugin r \<and> sr_sensor x = sensor r"
  let ?now = "\<lambda>x. seconds (now - window) \<le> sr_ts x \<and> sr_ts x \<le> seconds now"
  have "filter ?now (filter ?mine (node_stats env)) = [s]"
    using since assms(11) by (simp add: assms(12))
  then have "filter (\<lambda>x. sr_node x = sr_node s \<and> seconds (now - window) \<le> sr_ts x \<and> sr_ts x \<le> seconds now \<and>
      sr_plugin x = plugin r \<and> sr_sensor x = sensor r) (node_stats env) = [s]"
    by (simp add: filter_filter conj_commute conj_left_commute)
  then have query: "query_node_stats env (sr_node s) r (now - window) now = [s]"
    using assms(5) by (simp add: query_node_stats_def valid_rule_def stats_limit_def)
  have "group_verdict c env r (now - window) now (sr_node s) ?k = Some True"
    using assms(13,14) by (simp add: group_verdict_def query Let_def all_satisfy_def)
  moreover have "sr_node s \<in> set (window_nodes env r (now - window) now)"
    using assms(7-11) since by (auto simp: window_nodes_def in_window_def)
  moreover have "evaluate_rule c ord io env now r run = evaluate_all_nodes c ord io env now r (now - window) now run"
    using assms(6) by (auto simp: evaluate_rule_def window_def Let_def)
  ultimately show ?thesis using is_active_all_nodes [OF assms(1-4)] by simp
qed

lemma one_sample_fires_witness:
  "is_active (fst (evaluate_rule example_codec example_orders example_eio
     (example_env\<lparr>node_stats := [example_sample 1000 97]\<rparr>) (1000 * 10 ^ 9) example_rule (empty_store, [])))
     (rule_key example_rule ''n1'' '''')"
proof -
  have "is_active (fst (evaluate_rule example_codec example_orders example_eio
     (example_env\<lparr>node_stats := [example_sample 1000 97]\<rparr>) (1000 * 10 ^ 9) example_rule (empty_store, [])))
     (rule_key example_rule (sr_node (example_sample 1000 97)) (labels_to_json example_codec (sr_labels (example_sample 1000 97))))"
    by (rule one_sample_fires [OF example_io_ok example_codec_ok example_orders_ok])
      (simp_all add: empty_store_exact valid_rule_def valid_op_def example_rule_def example_env_def example_sample_def
        role_selects_def effective_host_role_def role_control_plane_def role_any_def role_cluster_node_def seconds_def
        matches_labels_def evaluate_threshold_def f64_le_def)
  then show ?thesis by (simp add: example_sample_def labels_to_json_def)
qed

text \<open>
  When the write of a resolve fails, the row stays firing in the table although its key has left the
  cache, and the next firing of the key adds a second firing row for it.
\<close>

theorem failed_resolve_orphans:
  assumes "store_ok st" and "active st k = Some (n, t)" and "k = rule_key r node (labels_to_json c ls)"
    and "st1 = snd (resolve_alert c False fetched now k v st)"
    and "st2 = snd (fire c True later r node ls v2 st1)"
  shows "active st1 k = None \<and> (\<exists>row \<in> set (alert_rows st1). row_key row = k \<and> row_state row = Firing) \<and>
    (\<exists>row \<in> set (alert_rows st2). \<exists>row' \<in> set (alert_rows st2). row_id row \<noteq> row_id row' \<and>
       row_key row = k \<and> row_key row' = k \<and> row_state row = Firing \<and> row_state row' = Firing)"
proof -
  have st1: "alert_rows st1 = alert_rows st" "next_id st1 = next_id st" "active st1 k = None"
    using assms(2) by (simp_all add: assms(4) resolve_rows)
  obtain row where row: "row \<in> set (alert_rows st)" "row_id row = n" "row_key row = k" "row_state row = Firing"
    using store_ok_row [OF assms(1,2)] .
  have less: "row_id row < next_id st" using assms(1) row(1) by (simp add: store_ok_def)
  obtain new where "alert_rows st2 = alert_rows st @ [new]" "row_id new = next_id st" "row_key new = k" "row_state new = Firing"
    using assms(3) st1 by (simp add: assms(5) fire_def Let_def new_row_key)
  then have "row \<in> set (alert_rows st2)" "new \<in> set (alert_rows st2)" "row_id row \<noteq> row_id new" "row_key new = k"
    "row_state new = Firing" using row(1) less by simp_all
  with st1 row show ?thesis by metis
qed

lemma failed_resolve_orphans_witness:
  "\<exists>row \<in> set (alert_rows (snd (resolve_alert example_codec False True 5 (rule_key example_rule ''n1'' ''j'')
      (Fin 0) example_firing))). row_state row = Firing"
proof -
  have "store_ok example_firing" using fire_ok [OF empty_store_exact(1)] by (simp add: example_firing_def)
  moreover have "active example_firing (rule_key example_rule ''n1'' ''j'') = Some (1, 0)"
    by (simp add: example_firing_def fire_active labels_to_json_def example_codec_def empty_store_def)
  moreover have "rule_key example_rule ''n1'' ''j'' =
      rule_key example_rule ''n1'' (labels_to_json example_codec [(''mount'', ''/'')])"
    by (simp add: labels_to_json_def example_codec_def)
  ultimately show ?thesis using failed_resolve_orphans [OF _ _ _ refl refl] by blast
qed

end
