(* ===== verification/Rbac.thy ===== *)
theory Rbac
  imports Go_Prelude "HOL-Library.Char_ord" "HOL-Library.List_Lexorder"
begin

text \<open>
  Role resolution and permission checks of \<open>internal/auth\<close> (\<open>rbac.go\<close>, \<open>permissions.go\<close>). The tables are
  lists of rows and every query may fail. The JSON decoders of the cached groups and of the stored
  permissions are parameters (\<open>None\<close> an error).
\<close>

section \<open>Permission checks\<close>

text \<open>
  \<open>Resolution\<close>: the permissions are the list of the keys whose value is true.
\<close>

record resolution =
  user_id :: string
  is_admin :: bool
  role_names :: "string list"
  permissions :: "string list"
  user_groups :: "string list"

definition verb_node_read :: string where "verb_node_read = ''node.read''"
definition verb_node_write :: string where "verb_node_write = ''node.write''"
definition verb_node_reimage :: string where "verb_node_reimage = ''node.reimage''"
definition verb_config_dangerous_push :: string where "verb_config_dangerous_push = ''config.dangerous_push''"
definition verb_backup_list :: string where "verb_backup_list = ''backup.list''"
definition verb_backup_restore :: string where "verb_backup_restore = ''backup.restore''"
definition verb_admin_notices :: string where "verb_admin_notices = ''admin.notices''"
definition verb_admin_events_tail :: string where "verb_admin_events_tail = ''admin.events.tail''"

text \<open>\<open>strings.LastIndexByte\<close>.\<close>

definition last_index_byte :: "string \<Rightarrow> char \<Rightarrow> nat option" where
  "last_index_byte s c = (case index_byte (rev s) c of None \<Rightarrow> None | Some i \<Rightarrow> Some (length s - 1 - i))"

definition allow :: "resolution option \<Rightarrow> string \<Rightarrow> bool" where
  "allow res verb =
     (case res of
        None \<Rightarrow> False
      | Some r \<Rightarrow>
        if CHR ''*'' \<in> set verb then False
        else if is_admin r then True
        else if verb \<in> set (permissions r) then True
        else
          (case last_index_byte verb CHR ''.'' of
             None \<Rightarrow> False
           | Some idx \<Rightarrow> take idx verb @ ''.*'' \<in> set (permissions r)))"

section \<open>Role resolution\<close>

record user_row =
  u_id :: string
  u_role :: "string option"
  u_groups :: "string option"

record role_row =
  r_id :: string
  r_name :: string
  r_permissions :: string

record assignment =
  as_role :: string
  as_kind :: string
  as_subject :: string

record rbac_db =
  users :: "user_row list"
  roles :: "role_row list"
  assignments :: "assignment list"
  read_user_ok :: bool
  read_assignments_ok :: "string \<Rightarrow> string \<Rightarrow> bool"

record decoders =
  decode_groups :: "string \<Rightarrow> string list option"
  decode_permissions :: "string \<Rightarrow> (string \<times> bool) list option"

datatype rbac_error = FetchUser string | LoadUser string | LoadGroup string string

definition append_unique :: "string list \<Rightarrow> string \<Rightarrow> string list" where
  "append_unique names n = (if n \<in> set names then names else names @ [n])"

definition granted_keys :: "(string \<times> bool) list \<Rightarrow> string list" where
  "granted_keys p = map fst (filter snd p)"

definition assigned_roles :: "rbac_db \<Rightarrow> string \<Rightarrow> string \<Rightarrow> role_row list" where
  "assigned_roles db kind subject =
     concat (map (\<lambda>a. filter (\<lambda>r. r_id r = as_role a) (roles db))
       (filter (\<lambda>a. as_kind a = kind \<and> as_subject a = subject) (assignments db)))"

fun merge_roles :: "decoders \<Rightarrow> role_row list \<Rightarrow> string list \<Rightarrow> string list \<Rightarrow> string list \<times> string list" where
  "merge_roles dec [] names perms = (names, perms)"
| "merge_roles dec (r # rs) names perms =
     merge_roles dec rs (names @ [r_name r])
       (case decode_permissions dec (r_permissions r) of
          None \<Rightarrow> perms
        | Some p \<Rightarrow> perms @ granted_keys p)"

definition load_assignments ::
  "decoders \<Rightarrow> rbac_db \<Rightarrow> string \<Rightarrow> string \<Rightarrow> (string list \<times> string list) option" where
  "load_assignments dec db kind subject =
     (if read_assignments_ok db kind subject then Some (merge_roles dec (assigned_roles db kind subject) [] [])
      else None)"

definition legacy_role_permissions :: "string \<Rightarrow> string \<times> string list" where
  "legacy_role_permissions role =
     (if role = ''admin'' then (''admin'', [''*''])
      else if role = ''operator'' then (''operator'', [''node.read'', ''node.write'', ''node.reimage''])
      else if role \<in> {''readonly'', ''viewer'', ''pi'', ''director''} then (''viewer'', [''node.read''])
      else ('''', []))"

fun add_groups ::
  "decoders \<Rightarrow> rbac_db \<Rightarrow> string \<Rightarrow> string list \<Rightarrow> string list \<times> string list \<Rightarrow>
   rbac_error + (string list \<times> string list)" where
  "add_groups dec db user [] acc = Inr acc"
| "add_groups dec db user (cn # cns) (names, perms) =
     (case load_assignments dec db ''posix_group'' cn of
        None \<Rightarrow> Inl (LoadGroup user cn)
      | Some (gnames, gperms) \<Rightarrow>
        add_groups dec db user cns (foldl append_unique names gnames, perms @ gperms))"

definition cached_groups :: "decoders \<Rightarrow> user_row \<Rightarrow> string list" where
  "cached_groups dec u =
     (let json = (case u_groups u of None \<Rightarrow> ''[]'' | Some j \<Rightarrow> j) in
      if json \<noteq> '''' \<and> json \<noteq> ''[]'' then
        (case decode_groups dec json of None \<Rightarrow> [] | Some gs \<Rightarrow> gs)
      else [])"

definition legacy_role :: "user_row \<Rightarrow> string" where
  "legacy_role u = (case u_role u of None \<Rightarrow> '''' | Some r \<Rightarrow> r)"

definition resolve_roles :: "decoders \<Rightarrow> rbac_db \<Rightarrow> string \<Rightarrow> rbac_error + resolution" where
  "resolve_roles dec db user =
     (if \<not> read_user_ok db then Inl (FetchUser user)
      else
        (case find (\<lambda>u. u_id u = user) (users db) of
           None \<Rightarrow> Inr \<lparr>user_id = user, is_admin = False, role_names = [], permissions = [], user_groups = []\<rparr>
         | Some u \<Rightarrow>
           (let groups = cached_groups dec u in
            case load_assignments dec db ''user'' user of
              None \<Rightarrow> Inl (LoadUser user)
            | Some direct \<Rightarrow>
              sbind (add_groups dec db user groups direct) (\<lambda>(names, perms).
                let (fallback, fallback_perms) = legacy_role_permissions (legacy_role u);
                    legacy = (names = [] \<and> legacy_role u \<noteq> '''' \<and> fallback \<noteq> '''');
                    names = (if legacy then [fallback] else names);
                    perms = (if legacy then fallback_perms else perms)
                in Inr \<lparr>user_id = user, is_admin = (''*'' \<in> set perms), role_names = sort names,
                        permissions = perms, user_groups = groups\<rparr>))))"

section \<open>What a user may do\<close>

text \<open>The grants that cover a concrete verb, and the grants a user's roles give.\<close>

definition covers :: "string \<Rightarrow> string \<Rightarrow> bool" where
  "covers grant verb \<longleftrightarrow> grant = ''*'' \<or> grant = verb \<or>
     (\<exists>ns act. verb = ns @ ''.'' @ act \<and> CHR ''.'' \<notin> set act \<and> grant = ns @ ''.*'')"

definition effective_roles :: "decoders \<Rightarrow> rbac_db \<Rightarrow> user_row \<Rightarrow> role_row set" where
  "effective_roles dec db u =
     set (assigned_roles db ''user'' (u_id u)) \<union>
     (\<Union>cn \<in> set (cached_groups dec u). set (assigned_roles db ''posix_group'' cn))"

definition role_grants :: "decoders \<Rightarrow> role_row \<Rightarrow> string set" where
  "role_grants dec r =
     (case decode_permissions dec (r_permissions r) of None \<Rightarrow> {} | Some p \<Rightarrow> {k. (k, True) \<in> set p})"

definition user_grants :: "decoders \<Rightarrow> rbac_db \<Rightarrow> user_row \<Rightarrow> string set" where
  "user_grants dec db u =
     (if effective_roles dec db u = {} then set (snd (legacy_role_permissions (legacy_role u)))
      else (\<Union>r \<in> effective_roles dec db u. role_grants dec r))"

lemma last_index_byte_None: "last_index_byte s c = None \<longleftrightarrow> c \<notin> set s"
  using index_byte_None [of "rev s" c] by (auto simp: last_index_byte_def simp del: index_byte_None split: option.splits)

lemma last_index_byte_split:
  assumes "CHR ''.'' \<notin> set act"
  shows "last_index_byte (ns @ ''.'' @ act) CHR ''.'' = Some (length ns)"
proof -
  have "index_byte (rev act @ CHR ''.'' # rev ns) CHR ''.'' = Some (length (rev act))"
    using assms by (intro index_byte_append) simp
  then show ?thesis by (simp add: last_index_byte_def)
qed

lemma last_dot:
  assumes "CHR ''.'' \<in> set verb"
  obtains ns act where "verb = ns @ ''.'' @ act" "CHR ''.'' \<notin> set act"
  using split_list_last [OF assms] by auto

lemma allow_iff:
  "allow (Some r) verb \<longleftrightarrow> CHR ''*'' \<notin> set verb \<and> (is_admin r \<or> verb \<in> set (permissions r) \<or>
     (\<exists>ns act. verb = ns @ ''.'' @ act \<and> CHR ''.'' \<notin> set act \<and> ns @ ''.*'' \<in> set (permissions r)))"
proof (cases "CHR ''.'' \<in> set verb")
  case False
  then have "last_index_byte verb CHR ''.'' = None" by (simp add: last_index_byte_None)
  with False show ?thesis by (auto simp: allow_def)
next
  case True
  then obtain ns act where v: "verb = ns @ ''.'' @ act" "CHR ''.'' \<notin> set act" by (rule last_dot)
  have idx: "last_index_byte verb CHR ''.'' = Some (length ns)" unfolding v(1) by (rule last_index_byte_split [OF v(2)])
  have same: "ns' = ns" if "verb = ns' @ ''.'' @ act'" "CHR ''.'' \<notin> set act'" for ns' act'
  proof -
    have "last_index_byte verb CHR ''.'' = Some (length ns')" unfolding that(1) by (rule last_index_byte_split [OF that(2)])
    with idx have "length ns' = length ns" by simp
    with that(1) v(1) show ?thesis by simp
  qed
  have "(\<exists>ns act. verb = ns @ ''.'' @ act \<and> CHR ''.'' \<notin> set act \<and> ns @ ''.*'' \<in> set (permissions r)) \<longleftrightarrow>
      ns @ ''.*'' \<in> set (permissions r)"
    using v same by metis
  moreover have "take (length ns) verb = ns" by (simp add: v(1))
  ultimately show ?thesis by (simp add: allow_def idx)
qed

lemma covers_allow:
  assumes "CHR ''*'' \<notin> set verb" and "is_admin r \<longleftrightarrow> ''*'' \<in> set (permissions r)"
  shows "allow (Some r) verb \<longleftrightarrow> (\<exists>g \<in> set (permissions r). covers g verb)"
  unfolding allow_iff covers_def using assms by blast

lemma granted_keys_set: "set (granted_keys p) = {k. (k, True) \<in> set p}"
  by (force simp: granted_keys_def)

lemma merge_roles_fst: "fst (merge_roles dec rs names perms) = names @ map r_name rs"
  by (induction dec rs names perms rule: merge_roles.induct) simp_all

lemma merge_roles_snd:
  "set (snd (merge_roles dec rs names perms)) = set perms \<union> (\<Union>r \<in> set rs. role_grants dec r)"
  by (induction dec rs names perms rule: merge_roles.induct)
    (auto simp: role_grants_def granted_keys_set split: option.splits)

lemma load_assignments_some:
  assumes "load_assignments dec db kind subject = Some (names, perms)"
  shows "names = map r_name (assigned_roles db kind subject)"
    "set perms = (\<Union>r \<in> set (assigned_roles db kind subject). role_grants dec r)"
  using assms merge_roles_fst [of dec "assigned_roles db kind subject" "[]" "[]"]
    merge_roles_snd [of dec "assigned_roles db kind subject" "[]" "[]"]
  by (auto simp: load_assignments_def split: if_splits)

lemma set_append_unique: "set (foldl append_unique names gs) = set names \<union> set gs"
  by (induction gs arbitrary: names) (auto simp: append_unique_def)

lemma add_groups_some:
  assumes "add_groups dec db user cns (names, perms) = Inr (names', perms')"
  shows "set names' = set names \<union> (\<Union>cn \<in> set cns. r_name ` set (assigned_roles db ''posix_group'' cn))"
    "set perms' = set perms \<union> (\<Union>cn \<in> set cns. \<Union>r \<in> set (assigned_roles db ''posix_group'' cn). role_grants dec r)"
proof -
  have "set names' = set names \<union> (\<Union>cn \<in> set cns. r_name ` set (assigned_roles db ''posix_group'' cn)) \<and>
    set perms' = set perms \<union> (\<Union>cn \<in> set cns. \<Union>r \<in> set (assigned_roles db ''posix_group'' cn). role_grants dec r)"
    using assms
  proof (induction cns arbitrary: names perms)
    case Nil
    then show ?case by simp
  next
    case (Cons cn cns)
    then obtain gn gp where g: "load_assignments dec db ''posix_group'' cn = Some (gn, gp)"
      and rest: "add_groups dec db user cns (foldl append_unique names gn, perms @ gp) = Inr (names', perms')"
      by (auto split: option.splits)
    from Cons.IH [OF rest] load_assignments_some [OF g] show ?case
      by (auto simp: set_append_unique)
  qed
  then show "set names' = set names \<union> (\<Union>cn \<in> set cns. r_name ` set (assigned_roles db ''posix_group'' cn))"
    "set perms' = set perms \<union> (\<Union>cn \<in> set cns. \<Union>r \<in> set (assigned_roles db ''posix_group'' cn). role_grants dec r)"
    by simp_all
qed

lemma resolve_known:
  assumes res: "resolve_roles dec db user = Inr res" and u: "find (\<lambda>u. u_id u = user) (users db) = Some u"
  shows "set (permissions res) = user_grants dec db u" "is_admin res \<longleftrightarrow> ''*'' \<in> set (permissions res)"
    "effective_roles dec db u \<noteq> {} \<Longrightarrow> set (role_names res) = r_name ` effective_roles dec db u"
    "sorted (role_names res)"
proof -
  have uid: "u_id u = user" using u by (auto simp: find_Some_iff)
  from res u obtain direct where direct: "load_assignments dec db ''user'' user = Some direct"
    by (auto simp: resolve_roles_def Let_def split: if_splits option.splits)
  obtain dn dp where d: "direct = (dn, dp)" by (cases direct)
  from res u direct obtain names perms
    where acc: "add_groups dec db user (cached_groups dec u) (dn, dp) = Inr (names, perms)"
    by (auto simp: resolve_roles_def Let_def d sbind_eq_Inr_iff split: if_splits)
  have dir: "dn = map r_name (assigned_roles db ''user'' user)"
    "set dp = (\<Union>r \<in> set (assigned_roles db ''user'' user). role_grants dec r)"
    using load_assignments_some [of dec db "''user''" user dn dp] direct d by simp_all
  have names: "set names = r_name ` effective_roles dec db u"
    using add_groups_some(1) [OF acc] dir(1) by (auto simp: effective_roles_def uid)
  have perms: "set perms = (\<Union>r \<in> effective_roles dec db u. role_grants dec r)"
    using add_groups_some(2) [OF acc] dir(2) by (auto simp: effective_roles_def uid)
  have none: "names = [] \<longleftrightarrow> effective_roles dec db u = {}"
    using names by (metis image_is_empty set_empty)
  have legacy: "legacy_role u = '''' \<Longrightarrow> snd (legacy_role_permissions (legacy_role u)) = []"
    "fst (legacy_role_permissions (legacy_role u)) = '''' \<Longrightarrow> snd (legacy_role_permissions (legacy_role u)) = []"
    by (auto simp: legacy_role_permissions_def)
  obtain fb fp where f: "legacy_role_permissions (legacy_role u) = (fb, fp)"
    by (cases "legacy_role_permissions (legacy_role u)")
  have out: "permissions res = (if names = [] \<and> legacy_role u \<noteq> '''' \<and> fb \<noteq> '''' then fp else perms)"
    "role_names res = sort (if names = [] \<and> legacy_role u \<noteq> '''' \<and> fb \<noteq> '''' then [fb] else names)"
    "is_admin res \<longleftrightarrow> ''*'' \<in> set (permissions res)"
    using res u direct acc f by (auto simp: resolve_roles_def Let_def d split: if_splits)
  show "set (permissions res) = user_grants dec db u"
    using out(1) none perms legacy f by (auto simp: user_grants_def)
  show "is_admin res \<longleftrightarrow> ''*'' \<in> set (permissions res)" by (rule out(3))
  show "set (role_names res) = r_name ` effective_roles dec db u" if "effective_roles dec db u \<noteq> {}"
    using that out(2) none names by simp
  show "sorted (role_names res)" by (simp add: out(2))
qed

text \<open>
  C36. For a user the database knows, a request is allowed exactly when its verb is concrete and one of
  the grants of the user's roles covers it: of the roles assigned to the user or to one of the cached
  groups, and only without any such role of the built-in role of the legacy column.
\<close>

theorem allow_exact:
  assumes "resolve_roles dec db user = Inr res" and "find (\<lambda>u. u_id u = user) (users db) = Some u"
  shows "allow (Some res) verb \<longleftrightarrow> CHR ''*'' \<notin> set verb \<and> (\<exists>g \<in> user_grants dec db u. covers g verb)"
proof (cases "CHR ''*'' \<in> set verb")
  case True
  then show ?thesis by (simp add: allow_def)
next
  case False
  from covers_allow [OF this resolve_known(2) [OF assms]] False show ?thesis
    by (simp add: resolve_known(1) [OF assms])
qed

definition example_dec :: decoders where
  "example_dec = \<lparr>decode_groups = (\<lambda>_. Some [''hpc'']),
     decode_permissions = (\<lambda>j. if j = ''J'' then Some [(''node.*'', True), (''*'', False)] else None)\<rparr>"

definition example_rbac :: rbac_db where
  "example_rbac = \<lparr>users = [\<lparr>u_id = ''u1'', u_role = Some ''admin'', u_groups = Some ''[\"hpc\"]''\<rparr>],
     roles = [\<lparr>r_id = ''r1'', r_name = ''ops'', r_permissions = ''J''\<rparr>],
     assignments = [\<lparr>as_role = ''r1'', as_kind = ''posix_group'', as_subject = ''hpc''\<rparr>],
     read_user_ok = True, read_assignments_ok = (\<lambda>_ _. True)\<rparr>"

lemma allow_exact_witness:
  "\<exists>res. resolve_roles example_dec example_rbac ''u1'' = Inr res \<and>
     allow (Some res) verb_node_reimage \<and> \<not> allow (Some res) verb_backup_restore"
proof -
  obtain res where res: "resolve_roles example_dec example_rbac ''u1'' = Inr res"
    by (simp add: resolve_roles_def example_rbac_def load_assignments_def assigned_roles_def cached_groups_def
        example_dec_def Let_def legacy_role_def legacy_role_permissions_def)
  obtain u where u: "find (\<lambda>u. u_id u = ''u1'') (users example_rbac) = Some u"
    "cached_groups example_dec u = [''hpc'']" "u_id u = ''u1''"
    by (simp add: example_rbac_def cached_groups_def example_dec_def)
  have grants: "user_grants example_dec example_rbac u = {''node.*''}"
  proof -
    have "assigned_roles example_rbac ''posix_group'' ''hpc'' = roles example_rbac"
      "assigned_roles example_rbac ''user'' ''u1'' = []"
      by (simp_all add: assigned_roles_def example_rbac_def)
    then have eff: "effective_roles example_dec example_rbac u = set (roles example_rbac)"
      by (simp add: effective_roles_def u(2,3))
    show ?thesis
      unfolding user_grants_def eff by (auto simp: example_rbac_def role_grants_def example_dec_def)
  qed
  have "covers ''node.*'' verb_node_reimage"
    by (simp add: covers_def verb_node_reimage_def)
  moreover have "\<not> covers ''node.*'' verb_backup_restore"
    by (auto simp: covers_def verb_backup_restore_def Cons_eq_append_conv)
  ultimately show ?thesis
    using res allow_exact [OF res u(1), of verb_node_reimage] allow_exact [OF res u(1), of verb_backup_restore]
    by (simp add: grants) (simp add: verb_node_reimage_def)
qed

text \<open>
  An unknown user may do nothing, and a role whose permissions do not decode grants nothing; a user
  with such a role does not get the permissions of the legacy column either.
\<close>

theorem deny_by_default:
  assumes "resolve_roles dec db user = Inr res"
    and "case find (\<lambda>u. u_id u = user) (users db) of None \<Rightarrow> True
      | Some u \<Rightarrow> effective_roles dec db u \<noteq> {} \<and>
          (\<forall>r \<in> effective_roles dec db u. decode_permissions dec (r_permissions r) = None)"
  shows "\<not> allow (Some res) verb"
proof (cases "find (\<lambda>u. u_id u = user) (users db)")
  case None
  with assms(1) have "permissions res = []" "\<not> is_admin res"
    by (auto simp: resolve_roles_def split: if_splits)
  then show ?thesis by (simp add: allow_iff)
next
  case (Some u)
  then have "user_grants dec db u = {}"
    using assms(2) by (auto simp: user_grants_def role_grants_def)
  with resolve_known(1,2) [OF assms(1) Some] show ?thesis by (simp add: allow_iff)
qed

lemma deny_by_default_witness:
  "\<exists>res. resolve_roles example_dec example_rbac ''nobody'' = Inr res \<and> \<not> allow (Some res) verb_node_read"
proof -
  obtain res where res: "resolve_roles example_dec example_rbac ''nobody'' = Inr res"
    by (simp add: resolve_roles_def example_rbac_def)
  moreover have "find (\<lambda>u. u_id u = ''nobody'') (users example_rbac) = None" by (simp add: example_rbac_def)
  ultimately show ?thesis using deny_by_default [OF res] by simp
qed

end
