(* ===== verification/Layout_Types.thy ===== *)
theory Layout_Types
  imports Go_Prelude "HOL-Library.Word"
begin

text \<open>
  The data of the disk layouts (\<open>pkg/api/types.go\<close>) and of the discovered hardware
  (\<open>internal/hardware\<close>), with the case-insensitive string functions the layout code uses. Sizes of disks
  and memory are 64-bit words; sizes of partitions are \<open>int64\<close>, an \<^typ>\<open>int\<close> whose sums wrap.
\<close>

section \<open>Case folding\<close>

text \<open>
  A case mapping of the library on the bytes of a string: the listed UTF-8 sequences map to an ASCII
  letter, ASCII letters as \<open>f\<close> says. Other letters beyond ASCII map to letters beyond ASCII; they are
  left as they are, which makes no difference where the result is compared with ASCII text.
\<close>

function fold_runes :: "(string \<times> char) list \<Rightarrow> (char \<Rightarrow> char) \<Rightarrow> string \<Rightarrow> string" where
  "fold_runes rs f [] = []"
| "fold_runes rs f (c # cs) =
     (case find (\<lambda>(r, _). prefix r (c # cs)) rs of
        Some (r, d) \<Rightarrow> d # fold_runes rs f (drop (length r - 1) cs)
      | None \<Rightarrow> f c # fold_runes rs f cs)"
  by pat_completeness auto
termination
  by (relation "measure (\<lambda>(_, _, s). length s)") (auto simp: less_Suc_eq_le)

definition lower_char :: "char \<Rightarrow> char" where
  "lower_char c = (let n = of_char c :: nat in if 65 \<le> n \<and> n \<le> 90 then char_of (n + 32) else c)"

definition upper_char :: "char \<Rightarrow> char" where
  "upper_char c = (let n = of_char c :: nat in if 97 \<le> n \<and> n \<le> 122 then char_of (n - 32) else c)"

text \<open>\<open>strings.ToLower\<close>: the dotted capital I and the Kelvin sign have ASCII lower case.\<close>

definition to_lower :: "string \<Rightarrow> string" where
  "to_lower s = fold_runes [([CHR 0xC4, CHR 0xB0], CHR ''i''), ([CHR 0xE2, CHR 0x84, CHR 0xAA], CHR ''k'')] lower_char s"

text \<open>\<open>strings.ToUpper\<close>: the dotless i and the long s have ASCII upper case.\<close>

definition to_upper :: "string \<Rightarrow> string" where
  "to_upper s = fold_runes [([CHR 0xC4, CHR 0xB1], CHR ''I''), ([CHR 0xC5, CHR 0xBF], CHR ''S'')] upper_char s"

text \<open>\<open>strings.EqualFold\<close> with lower-case ASCII text: the long s folds to s, the Kelvin sign to k.\<close>

definition equal_fold :: "string \<Rightarrow> string \<Rightarrow> bool" where
  "equal_fold s ascii \<longleftrightarrow>
     fold_runes [([CHR 0xC5, CHR 0xBF], CHR ''s''), ([CHR 0xE2, CHR 0x84, CHR 0xAA], CHR ''k'')] lower_char s = ascii"

section \<open>Layouts\<close>

record raid_spec =
  rd_name :: string
  rd_level :: string
  rd_members :: "string list"
  rd_chunk_kb :: int
  rd_spare :: int
  rd_force_software :: bool
  rd_type :: string
  rd_imsm :: string

record zfs_pool =
  zp_name :: string
  zp_vdev :: string
  zp_members :: "string list"
  zp_mountpoint :: string
  zp_properties :: "(string \<times> string) list"

record partition_spec =
  ps_device :: string
  ps_label :: string
  ps_size :: int
  ps_fs :: string
  ps_mount :: string
  ps_flags :: "string list"
  ps_min :: int

record bootloader =
  bl_type :: string
  bl_target :: string

record disk_layout =
  raid_arrays :: "raid_spec list"
  zfs_pools :: "zfs_pool list"
  partitions :: "partition_spec list"
  boot_loader :: bootloader
  target_device :: string

text \<open>A partition with the fields a literal of the code sets, the others zero.\<close>

definition part :: "string \<Rightarrow> int \<Rightarrow> string \<Rightarrow> string \<Rightarrow> string list \<Rightarrow> partition_spec" where
  "part label sz fs mount flags =
     \<lparr>ps_device = '''', ps_label = label, ps_size = sz, ps_fs = fs, ps_mount = mount, ps_flags = flags, ps_min = 0\<rparr>"

definition kind_bios :: string where "kind_bios = ''bios''"
definition kind_uefi :: string where "kind_uefi = ''uefi''"
definition kind_any :: string where "kind_any = ''any''"

record stored_layout =
  sl_id :: string
  sl_name :: string
  sl_source_node :: string
  sl_layout :: disk_layout
  sl_firmware :: string

section \<open>Hardware\<close>

record disk_partition =
  dp_name :: string
  dp_size :: "64 word"
  dp_fstype :: string
  dp_mount :: string

record disk =
  d_name :: string
  d_size :: "64 word"
  d_transport :: string
  d_rotational :: bool
  d_partitions :: "disk_partition list"

record system_info =
  si_disks :: "disk list"
  si_total_kb :: "64 word"
  si_bios_vendor :: string
  si_bios_version :: string

text \<open>The conversion \<open>int64(x)\<close> of an unsigned size.\<close>

definition to_int64 :: "64 word \<Rightarrow> int" where
  "to_int64 w = sint w"

lemma int64_to_int64 [simp]: "int64 (to_int64 w)"
proof -
  have "- (2 ^ (64 - 1)) \<le> sint w" "sint w < 2 ^ (64 - 1)"
    using sint_ge [of w] sint_lt [of w] by simp_all
  then show ?thesis by (simp add: to_int64_def int64_def min_int64_def max_int64_def)
qed

definition size_mb :: int where "size_mb = 1048576"
definition size_gb :: int where "size_gb = 1073741824"

end
