(* ===== verification/Layout_Validate.thy ===== *)
theory Layout_Validate
  imports Layout_Types
begin

text \<open>
  The validation of disk layouts (\<open>internal/image/layout/validate.go\<close>). The errors and warnings are
  constructors that carry what the messages print. The sum of the partition sizes is an \<open>int64\<close>.
\<close>

section \<open>Errors and warnings\<close>

datatype layout_error =
    NoPartitions
  | NegativeSize nat string
  | SecondFill nat string
  | UnsupportedFs nat string string
  | EspNotFat nat string string
  | SwapWrongFs nat string string
  | SwapFsElsewhere nat string string
  | NoRoot
  | BiosbootAndEsp
  | NoEspForUefi
  | DoesNotFit int string int
  | PoolNoName nat
  | PoolNoMountpoint nat string
  | PoolNoMembers nat string
  | PoolMirror nat string nat
  | PoolRaidz nat string nat
  | PoolVdev nat string string

datatype layout_warning =
    NoBiosboot
  | NoBootPartition
  | Unallocated int int string
  | LargeSwap int
  | SwapOverRam int int

record validation_result =
  valid :: bool
  errors :: "layout_error list"
  warnings :: "layout_warning list"

section \<open>Validation\<close>

definition allowed_filesystems :: "string list" where
  "allowed_filesystems =
     [''xfs'', ''ext4'', ''vfat'', ''fat32'', ''fat'', ''swap'', ''biosboot'', ''bios_grub'', '''']"

text \<open>The variables of the loop over the partitions.\<close>

record scan_state =
  has_root :: bool
  has_esp :: bool
  has_bios_grub :: bool
  has_boot :: bool
  has_swap :: bool
  fixed_total :: int
  fill_count :: nat
  errs :: "layout_error list"

definition is_fat :: "string \<Rightarrow> bool" where
  "is_fat fs \<longleftrightarrow> fs = ''vfat'' \<or> fs = ''fat32'' \<or> fs = ''fat''"

definition has_flag :: "string list \<Rightarrow> partition_spec \<Rightarrow> bool" where
  "has_flag fl p \<longleftrightarrow> list_ex (\<lambda>f. f \<in> set fl) (ps_flags p)"

definition size_errors :: "nat \<Rightarrow> partition_spec \<Rightarrow> nat \<Rightarrow> layout_error list" where
  "size_errors idx p fills =
     (if ps_size p < 0 then [NegativeSize idx (ps_label p)] else []) @
     (if ps_size p = 0 \<and> fills + 1 > 1 then [SecondFill idx (ps_label p)] else [])"

definition fs_errors :: "nat \<Rightarrow> partition_spec \<Rightarrow> layout_error list" where
  "fs_errors idx p =
     (let fs = to_lower (ps_fs p); mp = to_lower (ps_mount p) in
      (if fs \<notin> set allowed_filesystems then [UnsupportedFs idx (ps_label p) (ps_fs p)] else []) @
      (if (mp = ''/boot/efi'' \<or> has_flag [''esp'', ''boot''] p) \<and> \<not> is_fat fs \<and> fs \<noteq> ''''
       then [EspNotFat idx (ps_label p) (ps_fs p)] else []) @
      (if mp = ''swap'' \<and> fs \<noteq> ''swap'' \<and> fs \<noteq> '''' then [SwapWrongFs idx (ps_label p) (ps_fs p)] else []) @
      (if fs = ''swap'' \<and> mp \<noteq> ''swap'' \<and> ps_mount p \<noteq> '''' then [SwapFsElsewhere idx (ps_label p) (ps_mount p)]
       else []))"

definition scan_partition :: "nat \<Rightarrow> partition_spec \<Rightarrow> scan_state \<Rightarrow> scan_state" where
  "scan_partition idx p st =
     (let fs = to_lower (ps_fs p); mp = to_lower (ps_mount p) in
      st\<lparr>errs := errs st @ size_errors idx p (fill_count st) @ fs_errors idx p,
         fill_count := (if ps_size p = 0 then fill_count st + 1 else fill_count st),
         fixed_total := (if ps_size p = 0 then fixed_total st else wrap64 (fixed_total st + ps_size p)),
         has_root := has_root st \<or> mp = ''/'',
         has_boot := has_boot st \<or> mp = ''/boot'',
         has_swap := has_swap st \<or> mp = ''swap'',
         has_esp := has_esp st \<or> mp = ''/boot/efi'' \<or> has_flag [''esp'', ''boot''] p \<or> is_fat fs,
         has_bios_grub := has_bios_grub st \<or> has_flag [''bios_grub'', ''biosboot''] p \<or> fs = ''biosboot'' \<or>
           fs = ''bios_grub''\<rparr>)"

fun scan_partitions :: "nat \<Rightarrow> partition_spec list \<Rightarrow> scan_state \<Rightarrow> scan_state" where
  "scan_partitions idx [] st = st"
| "scan_partitions idx (p # ps) st = scan_partitions (idx + 1) ps (scan_partition idx p st)"

definition scan_init :: scan_state where
  "scan_init = \<lparr>has_root = False, has_esp = False, has_bios_grub = False, has_boot = False, has_swap = False,
     fixed_total = 0, fill_count = 0, errs = []\<rparr>"

text \<open>\<open>strings.Contains\<close>.\<close>

definition contains :: "string \<Rightarrow> string \<Rightarrow> bool" where
  "contains s t \<longleftrightarrow> sublist t s"

definition is_uefi_bootloader :: "bootloader \<Rightarrow> bool" where
  "is_uefi_bootloader bl \<longleftrightarrow> contains (to_lower (bl_target bl)) ''efi'' \<or> contains (to_lower (bl_type bl)) ''efi''"

definition boot_errors :: "disk_layout \<Rightarrow> scan_state \<Rightarrow> layout_error list" where
  "boot_errors l st =
     (if \<not> has_root st then [NoRoot] else []) @
     (if has_bios_grub st \<and> has_esp st then [BiosbootAndEsp] else []) @
     (if is_uefi_bootloader (boot_loader l) \<and> \<not> has_esp st then [NoEspForUefi] else [])"

definition boot_warnings :: "disk_layout \<Rightarrow> scan_state \<Rightarrow> layout_warning list" where
  "boot_warnings l st =
     (if \<not> is_uefi_bootloader (boot_loader l) \<and> \<not> has_bios_grub st \<and> bl_type (boot_loader l) = ''grub2'' \<and>
         bl_target (boot_loader l) = ''i386-pc'' then [NoBiosboot] else []) @
     (if \<not> has_boot st then [NoBootPartition] else [])"

definition size_check :: "disk \<Rightarrow> scan_state \<Rightarrow> layout_error list \<times> layout_warning list" where
  "size_check d st =
     (if 0 < d_size d \<and> fixed_total st > 0 then
        (let disk_bytes = to_int64 (d_size d) in
         if fixed_total st > disk_bytes then ([DoesNotFit (fixed_total st) (d_name d) disk_bytes], [])
         else if fill_count st = 0 \<and> fixed_total st < disk_bytes
           then ([], [Unallocated (wrap64 (disk_bytes - fixed_total st)) disk_bytes (d_name d)])
         else ([], []))
      else ([], []))"

definition swap_warnings :: "partition_spec list \<Rightarrow> layout_warning list" where
  "swap_warnings ps =
     concat (map (\<lambda>p. if equal_fold (ps_mount p) ''swap'' \<and> ps_size p > 0 \<and> ps_size p > 32 * size_gb
        then [LargeSwap (ps_size p)] else []) ps)"

definition pool_errors :: "nat \<Rightarrow> zfs_pool \<Rightarrow> layout_error list" where
  "pool_errors idx z =
     (if zp_name z = '''' then [PoolNoName idx] else []) @
     (if zp_mountpoint z = '''' then [PoolNoMountpoint idx (zp_name z)] else []) @
     (if zp_members z = [] then [PoolNoMembers idx (zp_name z)] else []) @
     (if zp_vdev z = ''mirror'' then
        (if length (zp_members z) < 2 then [PoolMirror idx (zp_name z) (length (zp_members z))] else [])
      else if zp_vdev z = ''raidz'' then
        (if length (zp_members z) < 3 then [PoolRaidz idx (zp_name z) (length (zp_members z))] else [])
      else if zp_vdev z = ''stripe'' \<or> zp_vdev z = '''' then []
      else [PoolVdev idx (zp_name z) (zp_vdev z)])"

fun pools_errors :: "nat \<Rightarrow> zfs_pool list \<Rightarrow> layout_error list" where
  "pools_errors idx [] = []"
| "pools_errors idx (z # zs) = pool_errors idx z @ pools_errors (idx + 1) zs"

definition validate_layout :: "disk_layout \<Rightarrow> disk \<Rightarrow> validation_result" where
  "validate_layout l d =
     (if partitions l = [] then \<lparr>valid = False, errors = [NoPartitions], warnings = []\<rparr>
      else
        (let st = scan_partitions 1 (partitions l) scan_init;
             (size_errs, size_warns) = size_check d st;
             es = errs st @ boot_errors l st @ size_errs @ pools_errors 1 (zfs_pools l);
             ws = boot_warnings l st @ size_warns @ swap_warnings (partitions l)
         in \<lparr>valid = (es = []), errors = es, warnings = ws\<rparr>))"

definition validate_with_ram :: "disk_layout \<Rightarrow> disk \<Rightarrow> 64 word \<Rightarrow> validation_result" where
  "validate_with_ram l d ram_kb =
     (let result = validate_layout l d in
      if ram_kb = 0 then result
      else
        (let ram_bytes = wrap64 (to_int64 ram_kb * 1024) in
         result\<lparr>warnings := warnings result @
           concat (map (\<lambda>p. if equal_fold (ps_mount p) ''swap'' \<and> ps_size p > 0 \<and> ps_size p > wrap64 (2 * ram_bytes)
             then [SwapOverRam (ps_size p) ram_bytes] else []) (partitions l))\<rparr>))"

section \<open>What a valid layout is\<close>

definition esp_like :: "partition_spec \<Rightarrow> bool" where
  "esp_like p \<longleftrightarrow> to_lower (ps_mount p) = ''/boot/efi'' \<or> has_flag [''esp'', ''boot''] p \<or> is_fat (to_lower (ps_fs p))"

definition bios_like :: "partition_spec \<Rightarrow> bool" where
  "bios_like p \<longleftrightarrow> has_flag [''bios_grub'', ''biosboot''] p \<or> to_lower (ps_fs p) = ''biosboot'' \<or>
     to_lower (ps_fs p) = ''bios_grub''"

definition root_like :: "partition_spec \<Rightarrow> bool" where
  "root_like p \<longleftrightarrow> to_lower (ps_mount p) = ''/''"

definition part_ok :: "partition_spec \<Rightarrow> bool" where
  "part_ok p \<longleftrightarrow> 0 \<le> ps_size p \<and> to_lower (ps_fs p) \<in> set allowed_filesystems \<and>
     (to_lower (ps_fs p) \<noteq> '''' \<longrightarrow>
        (to_lower (ps_mount p) = ''/boot/efi'' \<or> has_flag [''esp'', ''boot''] p \<longrightarrow> is_fat (to_lower (ps_fs p))) \<and>
        (to_lower (ps_mount p) = ''swap'' \<longrightarrow> to_lower (ps_fs p) = ''swap'')) \<and>
     (to_lower (ps_fs p) = ''swap'' \<and> ps_mount p \<noteq> '''' \<longrightarrow> to_lower (ps_mount p) = ''swap'')"

definition pool_ok :: "zfs_pool \<Rightarrow> bool" where
  "pool_ok z \<longleftrightarrow> zp_name z \<noteq> '''' \<and> zp_mountpoint z \<noteq> '''' \<and> zp_members z \<noteq> [] \<and>
     zp_vdev z \<in> {''mirror'', ''raidz'', ''stripe'', ''''} \<and>
     (zp_vdev z = ''mirror'' \<longrightarrow> 2 \<le> length (zp_members z)) \<and>
     (zp_vdev z = ''raidz'' \<longrightarrow> 3 \<le> length (zp_members z))"

definition fills :: "partition_spec list \<Rightarrow> nat" where
  "fills ps = length (filter (\<lambda>p. ps_size p = 0) ps)"

text \<open>The sum of the sizes the way the code computes it.\<close>

definition wrapped_total :: "partition_spec list \<Rightarrow> int" where
  "wrapped_total ps = foldl (\<lambda>t p. if ps_size p = 0 then t else wrap64 (t + ps_size p)) 0 ps"

lemma scan_partitions_fields:
  "fixed_total (scan_partitions idx ps st) =
     foldl (\<lambda>t p. if ps_size p = 0 then t else wrap64 (t + ps_size p)) (fixed_total st) ps"
  "fill_count (scan_partitions idx ps st) = fill_count st + fills ps"
  "has_root (scan_partitions idx ps st) \<longleftrightarrow> has_root st \<or> (\<exists>p \<in> set ps. root_like p)"
  "has_esp (scan_partitions idx ps st) \<longleftrightarrow> has_esp st \<or> (\<exists>p \<in> set ps. esp_like p)"
  "has_bios_grub (scan_partitions idx ps st) \<longleftrightarrow> has_bios_grub st \<or> (\<exists>p \<in> set ps. bios_like p)"
  by (induction ps arbitrary: idx st)
    (auto simp: scan_partition_def Let_def fills_def root_like_def esp_like_def bios_like_def)

lemma part_errors:
  "size_errors idx p n @ fs_errors idx p = [] \<longleftrightarrow> part_ok p \<and> (ps_size p = 0 \<longrightarrow> n = 0)"
proof -
  define fs where "fs = to_lower (ps_fs p)"
  define mp where "mp = to_lower (ps_mount p)"
  have "size_errors idx p n = [] \<longleftrightarrow> 0 \<le> ps_size p \<and> (ps_size p = 0 \<longrightarrow> n = 0)"
    by (simp add: size_errors_def not_less)
  moreover have "fs_errors idx p = [] \<longleftrightarrow> fs \<in> set allowed_filesystems \<and>
      (fs \<noteq> '''' \<longrightarrow> (mp = ''/boot/efi'' \<or> has_flag [''esp'', ''boot''] p \<longrightarrow> is_fat fs) \<and>
         (mp = ''swap'' \<longrightarrow> fs = ''swap'')) \<and> (fs = ''swap'' \<and> ps_mount p \<noteq> '''' \<longrightarrow> mp = ''swap'')"
    unfolding fs_errors_def Let_def fs_def [symmetric] mp_def [symmetric] by simp blast
  ultimately show ?thesis
    unfolding part_ok_def fs_def [symmetric] mp_def [symmetric] by simp blast
qed

lemma scan_partitions_errs:
  "errs (scan_partitions idx ps st) = [] \<longleftrightarrow>
    errs st = [] \<and> (\<forall>p \<in> set ps. part_ok p) \<and> (fills ps = 0 \<or> fill_count st + fills ps \<le> 1)"
proof (induction ps arbitrary: idx st)
  case Nil
  then show ?case by (simp add: fills_def)
next
  case (Cons p ps)
  have "errs (scan_partition idx p st) = [] \<longleftrightarrow> errs st = [] \<and> part_ok p \<and> (ps_size p = 0 \<longrightarrow> fill_count st = 0)"
    using part_errors [of idx p "fill_count st"] by (auto simp: scan_partition_def Let_def)
  moreover have "fill_count (scan_partition idx p st) = (if ps_size p = 0 then fill_count st + 1 else fill_count st)"
    by (simp add: scan_partition_def Let_def)
  moreover have "fills (p # ps) = (if ps_size p = 0 then 1 + fills ps else fills ps)" by (simp add: fills_def)
  ultimately show ?case using Cons.IH by auto
qed

lemma pool_errors_ok: "pool_errors idx z = [] \<longleftrightarrow> pool_ok z"
proof -
  consider "zp_vdev z = ''mirror''" | "zp_vdev z = ''raidz''" | "zp_vdev z = ''stripe'' \<or> zp_vdev z = ''''"
    | "zp_vdev z \<notin> {''mirror'', ''raidz'', ''stripe'', ''''}" by blast
  then show ?thesis
  proof cases
    case 1
    then show ?thesis by (simp add: pool_errors_def pool_ok_def not_less)
  next
    case 2
    then show ?thesis by (simp add: pool_errors_def pool_ok_def not_less)
  next
    case 3
    then show ?thesis by (elim disjE) (simp_all add: pool_errors_def pool_ok_def)
  next
    case 4
    then show ?thesis by (simp add: pool_errors_def pool_ok_def)
  qed
qed

lemma pools_errors_ok: "pools_errors idx zs = [] \<longleftrightarrow> (\<forall>z \<in> set zs. pool_ok z)"
  by (induction idx zs rule: pools_errors.induct) (simp_all add: pool_errors_ok)

text \<open>The layouts that validate, without the code.\<close>

definition layout_ok :: "disk_layout \<Rightarrow> disk \<Rightarrow> bool" where
  "layout_ok l d \<longleftrightarrow>
     (\<forall>p \<in> set (partitions l). part_ok p) \<and> fills (partitions l) \<le> 1 \<and>
     (\<exists>p \<in> set (partitions l). root_like p) \<and>
     \<not> ((\<exists>p \<in> set (partitions l). bios_like p) \<and> (\<exists>p \<in> set (partitions l). esp_like p)) \<and>
     (is_uefi_bootloader (boot_loader l) \<longrightarrow> (\<exists>p \<in> set (partitions l). esp_like p)) \<and>
     (0 < d_size d \<longrightarrow> wrapped_total (partitions l) \<le> max 0 (to_int64 (d_size d))) \<and>
     (\<forall>z \<in> set (zfs_pools l). pool_ok z)"

lemma size_check_ok:
  "fst (size_check d st) = [] \<longleftrightarrow> (0 < d_size d \<longrightarrow> fixed_total st \<le> max 0 (to_int64 (d_size d)))"
  by (auto simp: size_check_def Let_def)

lemma valid_layout_ok: "valid (validate_layout l d) \<longleftrightarrow> layout_ok l d"
proof (cases "partitions l = []")
  case True
  then show ?thesis by (simp add: validate_layout_def layout_ok_def)
next
  case False
  let ?st = "scan_partitions 1 (partitions l) scan_init"
  have "valid (validate_layout l d) \<longleftrightarrow> errs ?st = [] \<and> boot_errors l ?st = [] \<and> fst (size_check d ?st) = [] \<and>
      pools_errors 1 (zfs_pools l) = []"
    using False by (simp add: validate_layout_def Let_def split: prod.splits)
  moreover have "boot_errors l ?st = [] \<longleftrightarrow> has_root ?st \<and> \<not> (has_bios_grub ?st \<and> has_esp ?st) \<and>
      (is_uefi_bootloader (boot_loader l) \<longrightarrow> has_esp ?st)"
    by (simp add: boot_errors_def)
  moreover have "errs ?st = [] \<longleftrightarrow> (\<forall>p \<in> set (partitions l). part_ok p) \<and> fills (partitions l) \<le> 1"
    unfolding scan_partitions_errs by (auto simp: scan_init_def)
  moreover have "fixed_total ?st = wrapped_total (partitions l)"
    by (simp add: scan_partitions_fields wrapped_total_def scan_init_def)
  moreover have "has_root ?st \<longleftrightarrow> (\<exists>p \<in> set (partitions l). root_like p)"
    by (simp add: scan_partitions_fields scan_init_def)
  moreover have "has_esp ?st \<longleftrightarrow> (\<exists>p \<in> set (partitions l). esp_like p)"
    by (simp add: scan_partitions_fields scan_init_def)
  moreover have "has_bios_grub ?st \<longleftrightarrow> (\<exists>p \<in> set (partitions l). bios_like p)"
    by (simp add: scan_partitions_fields scan_init_def)
  ultimately show ?thesis
    unfolding layout_ok_def size_check_ok pools_errors_ok by (simp only: conj_assoc)
qed

section \<open>Properties\<close>


lemma wrapped_total_sum:
  assumes "\<forall>p \<in> set ps. 0 \<le> ps_size p" and "sum_list (map ps_size ps) \<le> max_int64"
  shows "wrapped_total ps = sum_list (map ps_size ps)"
  using assms
proof (induction ps rule: rev_induct)
  case Nil
  then show ?case by (simp add: wrapped_total_def)
next
  case (snoc p ps)
  have nonneg: "0 \<le> sum_list (map ps_size ps)" using snoc.prems(1) by (intro sum_list_nonneg) auto
  then have "wrapped_total ps = sum_list (map ps_size ps)" using snoc by simp
  moreover have "int64 (sum_list (map ps_size ps) + ps_size p)"
    using snoc.prems nonneg by (simp add: int64_def min_int64_def)
  ultimately show ?case by (simp add: wrapped_total_def)
qed

text \<open>
  A layout whose sizes add up to at most the largest \<open>int64\<close> and that Validate accepts for a disk
  fits that disk.
\<close>

theorem valid_fits:
  assumes "valid (validate_layout l d)" and "sum_list (map ps_size (partitions l)) \<le> max_int64"
    and "0 < to_int64 (d_size d)"
  shows "sum_list (map ps_size (partitions l)) \<le> to_int64 (d_size d)"
proof -
  have ok: "layout_ok l d" using assms(1) by (simp add: valid_layout_ok)
  have "\<forall>p \<in> set (partitions l). 0 \<le> ps_size p" using ok by (auto simp: layout_ok_def part_ok_def)
  from wrapped_total_sum [OF this assms(2)] have total: "wrapped_total (partitions l) = sum_list (map ps_size (partitions l))" .
  have "d_size d \<noteq> 0" using assms(3) by (auto simp: to_int64_def)
  then have "0 < d_size d" by (simp add: word_neq_0_conv)
  then show ?thesis using ok assms(3) total by (simp add: layout_ok_def)
qed

definition example_layout :: disk_layout where
  "example_layout = \<lparr>raid_arrays = [], zfs_pools = [],
     partitions = [part ''biosboot'' size_mb ''biosboot'' '''' [''bios_grub''], part ''root'' (20 * size_gb) ''xfs'' ''/'' []],
     boot_loader = \<lparr>bl_type = ''grub2'', bl_target = ''i386-pc''\<rparr>, target_device = ''''\<rparr>"

definition example_disk :: disk where
  "example_disk = \<lparr>d_name = ''sda'', d_size = 107374182400, d_transport = ''sata'', d_rotational = False, d_partitions = []\<rparr>"

lemma valid_fits_witness: "sum_list (map ps_size (partitions example_layout)) \<le> to_int64 (d_size example_disk)"
proof (rule valid_fits)
  show "valid (validate_layout example_layout example_disk)" by code_simp
  show "sum_list (map ps_size (partitions example_layout)) \<le> max_int64"
    by (simp add: example_layout_def part_def size_mb_def size_gb_def max_int64_def)
  show "0 < to_int64 (d_size example_disk)" by (simp add: example_disk_def to_int64_def)
qed

text \<open>
  Beyond that the sum wraps round and the check of the disk size is no check: there is a layout with
  two partitions of eight exbibytes each that Validate accepts for a disk of 100 GiB.
\<close>

theorem oversized_accepted:
  "\<exists>l. valid (validate_layout l example_disk) \<and> errors (validate_layout l example_disk) = [] \<and>
     to_int64 (d_size example_disk) < sum_list (map ps_size (partitions l))"
proof -
  let ?l = "example_layout\<lparr>partitions := [part ''root'' max_int64 ''xfs'' ''/'' [], part ''data'' max_int64 ''xfs'' ''/data'' []]\<rparr>"
  have "validate_layout ?l example_disk = \<lparr>valid = True, errors = [], warnings = [NoBiosboot, NoBootPartition]\<rparr>"
    by code_simp
  moreover have "to_int64 (d_size example_disk) < sum_list (map ps_size (partitions ?l))"
    by (simp add: part_def max_int64_def example_disk_def to_int64_def)
  ultimately show ?thesis by (intro exI [of _ ?l]) simp
qed

end
