(* ===== verification/Layout_Select.thy ===== *)
theory Layout_Select
  imports Layout_Validate
begin

text \<open>
  The choice of the layout a node gets: the correction of a layout to the firmware of the node
  (\<open>internal/image/layout/autocorrect.go\<close>), the choice among the layouts of the catalogue
  (\<open>firmware_select.go\<close>) and the six levels of \<open>GetEffectiveLayout\<close>
  (\<open>internal/server/handlers/layout.go\<close>, \<open>pkg/api/types.go\<close>). The catalogue is the interface
  \<open>diskLayoutCatalogResolver\<close>, a record of its four functions.
\<close>

section \<open>Correction to the firmware\<close>

definition is_esp :: "partition_spec \<Rightarrow> bool" where
  "is_esp p \<longleftrightarrow> equal_fold (ps_fs p) ''vfat'' \<or> list_ex (\<lambda>f. equal_fold f ''esp'') (ps_flags p)"

definition is_bios_boot :: "partition_spec \<Rightarrow> bool" where
  "is_bios_boot p \<longleftrightarrow> equal_fold (ps_fs p) ''biosboot'' \<or> list_ex (\<lambda>f. equal_fold f ''bios_grub'') (ps_flags p)"

definition biosboot_part :: "string \<Rightarrow> partition_spec" where
  "biosboot_part dev = (part ''biosboot'' (1 * 1024 * 1024) ''biosboot'' '''' [''bios_grub''])\<lparr>ps_device := dev\<rparr>"

definition esp_part :: "string \<Rightarrow> partition_spec" where
  "esp_part dev = (part ''esp'' (512 * 1024 * 1024) ''vfat'' ''/boot/efi'' [''esp'', ''boot''])\<lparr>ps_device := dev\<rparr>"

text \<open>
  The loop of both conversions: \<open>old\<close> recognises the partition to replace, \<open>new\<close> builds its successor
  on the same device; \<open>replaced\<close> is the flag that only the first one is replaced.
\<close>

fun replace_loop :: "(partition_spec \<Rightarrow> bool) \<Rightarrow> (string \<Rightarrow> partition_spec) \<Rightarrow> bool \<Rightarrow> partition_spec list \<Rightarrow>
    partition_spec list \<times> bool" where
  "replace_loop old new replaced [] = ([], replaced)"
| "replace_loop old new replaced (p # ps) =
     (if \<not> replaced \<and> old p
      then (let (qs, r) = replace_loop old new True ps in (new (ps_device p) # qs, r))
      else (let (qs, r) = replace_loop old new replaced ps in (p # qs, r)))"

definition convert_uefi_to_bios :: "disk_layout \<Rightarrow> disk_layout" where
  "convert_uefi_to_bios l =
     (let (new_parts, replaced) = replace_loop is_esp biosboot_part False (partitions l) in
      l\<lparr>boot_loader := \<lparr>bl_type = ''grub2'', bl_target = ''i386-pc''\<rparr>,
        partitions := (if replaced then new_parts else biosboot_part '''' # new_parts)\<rparr>)"

definition convert_bios_to_uefi :: "disk_layout \<Rightarrow> disk_layout" where
  "convert_bios_to_uefi l =
     (let (new_parts, replaced) = replace_loop is_bios_boot esp_part False (partitions l) in
      l\<lparr>boot_loader := \<lparr>bl_type = ''grub2'', bl_target = ''x86_64-efi''\<rparr>,
        partitions := (if replaced then new_parts else esp_part '''' # new_parts)\<rparr>)"

definition auto_correct :: "disk_layout \<Rightarrow> string \<Rightarrow> string \<Rightarrow> disk_layout" where
  "auto_correct l image_fw node_fw =
     (if node_fw = '''' then l
      else
        (let img = to_lower image_fw; node = to_lower node_fw in
         if img = node then l
         else if node = ''bios'' \<and> (img = ''uefi'' \<or> img = '''') then convert_uefi_to_bios l
         else if node = ''uefi'' \<and> img = ''bios'' then convert_bios_to_uefi l
         else l))"

section \<open>Choice by firmware\<close>

definition layout_has_esp :: "disk_layout \<Rightarrow> bool" where
  "layout_has_esp l \<longleftrightarrow> list_ex is_esp (partitions l)"

definition layout_has_bios_boot :: "disk_layout \<Rightarrow> bool" where
  "layout_has_bios_boot l \<longleftrightarrow> list_ex is_bios_boot (partitions l)"

definition is_layout_compatible :: "disk_layout \<Rightarrow> string \<Rightarrow> bool" where
  "is_layout_compatible l firmware =
     (let target = to_lower (trim_space firmware);
          esp = layout_has_esp l;
          bios = layout_has_bios_boot l
      in if target = kind_uefi then (if bios \<and> \<not> esp then False else True)
         else if target = kind_bios then (if esp \<and> \<not> bios then False else True)
         else True)"

definition normalize_kind :: "string \<Rightarrow> string" where
  "normalize_kind k =
     (let n = to_lower (trim_space k) in
      if n = kind_bios then kind_bios else if n = kind_uefi then kind_uefi else kind_any)"

datatype pick_source = Firmware_Unknown | Firmware_Match | Firmware_Predicate | Firmware_Tag | Firmware_Agnostic
  | Firmware_Mismatch

text \<open>The five buckets of the loop over the candidates.\<close>

record buckets =
  exact_match :: "stored_layout list"
  exact_tag_only :: "stored_layout list"
  any_compatible :: "stored_layout list"
  any_tagged :: "stored_layout list"
  opposite_tag :: "stored_layout list"

definition bucket_step :: "string \<Rightarrow> stored_layout \<Rightarrow> buckets \<Rightarrow> buckets" where
  "bucket_step target c b =
     (let kind = normalize_kind (sl_firmware c); ok = is_layout_compatible (sl_layout c) target in
      if kind = target \<and> ok then b\<lparr>exact_match := exact_match b @ [c]\<rparr>
      else if kind = target then b\<lparr>exact_tag_only := exact_tag_only b @ [c]\<rparr>
      else if kind = kind_any \<and> ok then b\<lparr>any_compatible := any_compatible b @ [c]\<rparr>
      else if kind = kind_any then b\<lparr>any_tagged := any_tagged b @ [c]\<rparr>
      else b\<lparr>opposite_tag := opposite_tag b @ [c]\<rparr>)"

definition no_buckets :: buckets where
  "no_buckets = \<lparr>exact_match = [], exact_tag_only = [], any_compatible = [], any_tagged = [], opposite_tag = []\<rparr>"

text \<open>\<open>PickLayoutForFirmware\<close>; a result with \<open>Picked\<close> false is \<open>None\<close>.\<close>

definition pick_layout :: "stored_layout list \<Rightarrow> string \<Rightarrow> (stored_layout \<times> pick_source) option" where
  "pick_layout candidates node_firmware =
     (if candidates = [] then None
      else
        (let target = to_lower (trim_space node_firmware) in
         if target \<noteq> kind_bios \<and> target \<noteq> kind_uefi then Some (hd candidates, Firmware_Unknown)
         else
           (let b = fold (bucket_step target) candidates no_buckets in
            if exact_match b \<noteq> [] then Some (hd (exact_match b), Firmware_Match)
            else if any_compatible b \<noteq> [] then Some (hd (any_compatible b), Firmware_Predicate)
            else if exact_tag_only b \<noteq> [] then Some (hd (exact_tag_only b), Firmware_Tag)
            else if any_tagged b \<noteq> [] then Some (hd (any_tagged b), Firmware_Agnostic)
            else Some (hd (opposite_tag b), Firmware_Mismatch))))"

section \<open>The effective layout\<close>

record catalog =
  node_layout_id :: "string \<Rightarrow> string"
  group_layout_id :: "string \<Rightarrow> string"
  get_layout :: "string \<Rightarrow> stored_layout option"
  all_layouts :: "stored_layout list option"

datatype layout_source = From_Node_FK | From_Group_FK | From_Catalog pick_source | From_Node | From_Group | From_Image

record base_image =
  im_layout :: disk_layout
  im_firmware :: string

record layout_node =
  ln_id :: string
  ln_group :: string
  ln_override :: "disk_layout option"
  ln_firmware :: string

definition zero_layout :: disk_layout where
  "zero_layout = \<lparr>raid_arrays = [], zfs_pools = [], partitions = [],
     boot_loader = \<lparr>bl_type = '''', bl_target = ''''\<rparr>, target_device = ''''\<rparr>"

definition resolve_from_catalog :: "catalog \<Rightarrow> string \<Rightarrow> string \<Rightarrow> string \<Rightarrow> (disk_layout \<times> layout_source) option" where
  "resolve_from_catalog r node_id group_id node_firmware =
     (let node_fk = node_layout_id r node_id;
          node_hit = (if node_fk \<noteq> '''' then get_layout r node_fk else None)
      in case node_hit of
           Some stored \<Rightarrow> Some (sl_layout stored, From_Node_FK)
         | None \<Rightarrow>
             (let group_fk = (if group_id \<noteq> '''' then group_layout_id r group_id else '''');
                  group_hit = (if group_id \<noteq> '''' \<and> group_fk \<noteq> '''' then get_layout r group_fk else None)
              in case group_hit of
                   Some stored \<Rightarrow> Some (sl_layout stored, From_Group_FK)
                 | None \<Rightarrow>
                     if node_firmware \<noteq> '''' then
                       (case all_layouts r of
                          None \<Rightarrow> None
                        | Some ls \<Rightarrow>
                            if ls = [] then None
                            else map_option (\<lambda>(c, src). (sl_layout c, From_Catalog src)) (pick_layout ls node_firmware))
                     else None))"

text \<open>\<open>NodeConfig.EffectiveLayout\<close> and \<open>EffectiveLayoutSource\<close>; a group that is absent or has no override is \<open>None\<close>.\<close>

definition effective_inline :: "layout_node \<Rightarrow> base_image option \<Rightarrow> disk_layout option \<Rightarrow> disk_layout" where
  "effective_inline n img group_override =
     (case ln_override n of
        Some l \<Rightarrow> l
      | None \<Rightarrow>
          (case group_override of
             Some l \<Rightarrow> l
           | None \<Rightarrow> (case img of Some i \<Rightarrow> im_layout i | None \<Rightarrow> zero_layout)))"

definition effective_source :: "layout_node \<Rightarrow> disk_layout option \<Rightarrow> layout_source" where
  "effective_source n group_override =
     (if ln_override n \<noteq> None then From_Node else if group_override \<noteq> None then From_Group else From_Image)"

definition resolve_effective :: "catalog \<Rightarrow> layout_node \<Rightarrow> base_image option \<Rightarrow> disk_layout option \<Rightarrow> disk_layout \<times> layout_source" where
  "resolve_effective r n img group_override =
     (case resolve_from_catalog r (ln_id n) (ln_group n) '''' of
        Some res \<Rightarrow> res
      | None \<Rightarrow>
          if ln_override n \<noteq> None \<or> group_override \<noteq> None
          then (effective_inline n img group_override, effective_source n group_override)
          else
            (case resolve_from_catalog r (ln_id n) (ln_group n) (ln_firmware n) of
               Some res \<Rightarrow> res
             | None \<Rightarrow> (effective_inline n img group_override, effective_source n group_override)))"

definition get_effective_layout :: "catalog \<Rightarrow> layout_node \<Rightarrow> base_image option \<Rightarrow> disk_layout option \<Rightarrow> disk_layout \<times> layout_source" where
  "get_effective_layout r n img group_override =
     (let (effective, source) = resolve_effective r n img group_override in
      case img of
        Some i \<Rightarrow>
          if ln_firmware n \<noteq> '''' \<and> source = From_Image
          then (auto_correct effective (im_firmware i) (ln_firmware n), source) else (effective, source)
      | None \<Rightarrow> (effective, source))"

section \<open>Lemmas\<close>

lemma replace_loop_done: "replace_loop old new True ps = (ps, True)"
  by (induction ps) simp_all

lemma replace_loop_none: "\<forall>p \<in> set ps. \<not> old p \<Longrightarrow> replace_loop old new False ps = (ps, False)"
  by (induction ps) simp_all

lemma replace_loop_first:
  "\<forall>p \<in> set as. \<not> old p \<Longrightarrow> old p \<Longrightarrow> replace_loop old new False (as @ p # bs) = (as @ new (ps_device p) # bs, True)"
  by (induction as) (simp_all add: replace_loop_done)

lemma replace_loop_has:
  assumes "\<And>d. q (new d)"
  shows "case replace_loop old new False ps of (qs, r) \<Rightarrow> r \<longrightarrow> list_ex q qs"
  using assms by (induction ps) (auto simp: replace_loop_done split: prod.splits if_splits)

lemma is_bios_boot_part [simp]: "is_bios_boot (biosboot_part d)"
proof -
  have "equal_fold ''biosboot'' ''biosboot''" by code_simp
  then show ?thesis by (simp add: is_bios_boot_def biosboot_part_def part_def)
qed

lemma is_esp_part [simp]: "is_esp (esp_part d)"
proof -
  have "equal_fold ''vfat'' ''vfat''" by code_simp
  then show ?thesis by (simp add: is_esp_def esp_part_def part_def)
qed

lemma convert_uefi_has: "layout_has_bios_boot (convert_uefi_to_bios l)"
  using replace_loop_has [of is_bios_boot biosboot_part is_esp "partitions l"]
  by (auto simp: layout_has_bios_boot_def convert_uefi_to_bios_def split: prod.splits)

lemma convert_bios_has: "layout_has_esp (convert_bios_to_uefi l)"
  using replace_loop_has [of is_esp esp_part is_bios_boot "partitions l"]
  by (auto simp: layout_has_esp_def convert_bios_to_uefi_def split: prod.splits)

text \<open>The rank of a candidate for a target, without the buckets.\<close>

definition rank :: "string \<Rightarrow> stored_layout \<Rightarrow> nat" where
  "rank target c =
     (let kind = normalize_kind (sl_firmware c); ok = is_layout_compatible (sl_layout c) target in
      if kind = target then (if ok then 0 else 2)
      else if kind = kind_any then (if ok then 1 else 3) else 4)"

lemma bucket_fold:
  "exact_match (fold (bucket_step target) cs b) = exact_match b @ filter (\<lambda>c. rank target c = 0) cs"
  "any_compatible (fold (bucket_step target) cs b) = any_compatible b @ filter (\<lambda>c. rank target c = 1) cs"
  "exact_tag_only (fold (bucket_step target) cs b) = exact_tag_only b @ filter (\<lambda>c. rank target c = 2) cs"
  "any_tagged (fold (bucket_step target) cs b) = any_tagged b @ filter (\<lambda>c. rank target c = 3) cs"
  "opposite_tag (fold (bucket_step target) cs b) = opposite_tag b @ filter (\<lambda>c. rank target c = 4) cs"
  by (induction cs arbitrary: b) (simp_all add: bucket_step_def rank_def Let_def)

lemma rank_le: "rank target c \<le> 4"
  by (simp add: rank_def Let_def)

definition rank_source :: "nat \<Rightarrow> pick_source" where
  "rank_source n = [Firmware_Match, Firmware_Predicate, Firmware_Tag, Firmware_Agnostic, Firmware_Mismatch] ! n"

lemma first_of_rank:
  assumes "filter (\<lambda>c. f c = k) cs \<noteq> []" and "\<forall>c \<in> set cs. (k :: nat) \<le> f c"
  shows "\<exists>pre post. cs = pre @ hd (filter (\<lambda>c. f c = k) cs) # post \<and> (\<forall>x \<in> set pre. k < f x) \<and>
    (\<forall>x \<in> set post. k \<le> f x) \<and> f (hd (filter (\<lambda>c. f c = k) cs)) = k"
proof -
  obtain c rest where c: "filter (\<lambda>c. f c = k) cs = c # rest" using assms(1) by (meson neq_Nil_conv)
  then obtain pre post where "cs = pre @ c # post" "\<forall>x \<in> set pre. f x \<noteq> k" "f c = k"
    by (auto simp: filter_eq_Cons_iff)
  moreover from this assms(2) have "\<forall>x \<in> set pre. k < f x" by (auto simp: le_neq_implies_less)
  ultimately show ?thesis using assms(2) c by (intro exI [of _ pre] exI [of _ post]) auto
qed

lemma pick_by_rank:
  assumes "cs \<noteq> []" and "to_lower (trim_space fw) = target" and "target = kind_bios \<or> target = kind_uefi"
  shows "\<exists>k. filter (\<lambda>c. rank target c = k) cs \<noteq> [] \<and> (\<forall>c \<in> set cs. k \<le> rank target c) \<and>
    pick_layout cs fw = Some (hd (filter (\<lambda>c. rank target c = k) cs), rank_source k)"
proof -
  let ?F = "\<lambda>k. filter (\<lambda>c. rank target c = k) cs"
  define k where "k = Min (rank target ` set cs)"
  have fin: "finite (rank target ` set cs)" "rank target ` set cs \<noteq> {}" using assms(1) by auto
  have "k \<in> rank target ` set cs" unfolding k_def by (rule Min_in [OF fin])
  then have ne: "?F k \<noteq> []" and le4: "k \<le> 4" by (auto simp: filter_empty_conv rank_le)
  have low: "\<forall>c \<in> set cs. k \<le> rank target c" unfolding k_def using fin by auto
  then have empty: "?F j = []" if "j < k" for j using that by (auto simp: filter_empty_conv)
  have "k = 0 \<or> k = 1 \<or> k = 2 \<or> k = 3 \<or> k = 4" using le4 by arith
  then have "pick_layout cs fw = Some (hd (?F k), rank_source k)"
    using assms(1) ne empty assms(3) unfolding pick_layout_def assms(2) Let_def bucket_fold
    by (elim disjE) (simp_all add: no_buckets_def rank_source_def)
  with ne low show ?thesis by blast
qed

section \<open>Properties\<close>

text \<open>
  For a node that reports BIOS or UEFI, PickLayoutForFirmware returns the first of the candidates of
  the best rank (tag and structure, agnostic and compatible, tag only, agnostic, the other firmware), with
  the source of that rank.
\<close>

theorem pick_first_best:
  assumes "cs \<noteq> []" and "to_lower (trim_space fw) = target" and "target = kind_bios \<or> target = kind_uefi"
  shows "\<exists>pre c post. cs = pre @ c # post \<and> pick_layout cs fw = Some (c, rank_source (rank target c)) \<and>
    (\<forall>x \<in> set pre. rank target c < rank target x) \<and> (\<forall>x \<in> set post. rank target c \<le> rank target x)"
proof -
  obtain k where k: "filter (\<lambda>c. rank target c = k) cs \<noteq> []" "\<forall>c \<in> set cs. k \<le> rank target c"
      "pick_layout cs fw = Some (hd (filter (\<lambda>c. rank target c = k) cs), rank_source k)"
    using pick_by_rank [OF assms] by blast
  let ?c = "hd (filter (\<lambda>c. rank target c = k) cs)"
  from first_of_rank [OF k(1,2)] obtain pre post where "cs = pre @ ?c # post" "\<forall>x \<in> set pre. k < rank target x"
      "\<forall>x \<in> set post. k \<le> rank target x" "rank target ?c = k" by blast
  with k(3) show ?thesis by (intro exI [of _ pre] exI [of _ ?c] exI [of _ post]) simp
qed

definition stored :: "string \<Rightarrow> string \<Rightarrow> partition_spec list \<Rightarrow> stored_layout" where
  "stored i fw ps = \<lparr>sl_id = i, sl_name = i, sl_source_node = '''', sl_layout = zero_layout\<lparr>partitions := ps\<rparr>,
     sl_firmware = fw\<rparr>"

lemma pick_first_best_witness:
  "\<exists>pre c post. [stored ''a'' ''any'' [esp_part ''''], stored ''b'' ''BIOS '' [biosboot_part '''']] = pre @ c # post \<and>
    pick_layout [stored ''a'' ''any'' [esp_part ''''], stored ''b'' ''BIOS '' [biosboot_part '''']] ''bios'' =
      Some (c, rank_source (rank kind_bios c)) \<and>
    (\<forall>x \<in> set pre. rank kind_bios c < rank kind_bios x) \<and> (\<forall>x \<in> set post. rank kind_bios c \<le> rank kind_bios x)"
proof (rule pick_first_best)
  show "to_lower (trim_space ''bios'') = kind_bios" by code_simp
qed simp_all

lemma resolve_no_firmware:
  "resolve_from_catalog r node_id group_id fw =
    (case resolve_from_catalog r node_id group_id '''' of
       Some res \<Rightarrow> Some res
     | None \<Rightarrow>
         if fw = '''' then None
         else Option.bind (all_layouts r) (\<lambda>ls. map_option (\<lambda>(c, src). (sl_layout c, From_Catalog src)) (pick_layout ls fw)))"
  by (auto simp: resolve_from_catalog_def Let_def pick_layout_def split: option.splits)

text \<open>The six levels, from the highest, each with what it offers.\<close>

definition levels :: "catalog \<Rightarrow> layout_node \<Rightarrow> disk_layout option \<Rightarrow> base_image option \<Rightarrow> (disk_layout \<times> layout_source) option list" where
  "levels r n group_override img =
     [if node_layout_id r (ln_id n) = '''' then None
      else map_option (\<lambda>s. (sl_layout s, From_Node_FK)) (get_layout r (node_layout_id r (ln_id n))),
      if ln_group n = '''' \<or> group_layout_id r (ln_group n) = '''' then None
      else map_option (\<lambda>s. (sl_layout s, From_Group_FK)) (get_layout r (group_layout_id r (ln_group n))),
      map_option (\<lambda>l. (l, From_Node)) (ln_override n),
      map_option (\<lambda>l. (l, From_Group)) group_override,
      if ln_firmware n = '''' then None
      else Option.bind (all_layouts r) (\<lambda>ls. map_option (\<lambda>(c, src). (sl_layout c, From_Catalog src)) (pick_layout ls (ln_firmware n))),
      Some (case img of None \<Rightarrow> zero_layout | Some i \<Rightarrow> im_layout i, From_Image)]"

text \<open>
  GetEffectiveLayout takes the layout of the first level that offers one: the node's catalogue entry,
  the group's, the node's own override, the group's, the pick for the firmware, the image; an inline
  override is never shadowed by the pick for the firmware.
\<close>

theorem effective_first_level:
  "Some (Some (resolve_effective r n img group_override)) =
    find (\<lambda>level. level \<noteq> None) (levels r n group_override img)"
proof -
  define a where "a = (if node_layout_id r (ln_id n) = '''' then None
      else map_option (\<lambda>s. (sl_layout s, From_Node_FK)) (get_layout r (node_layout_id r (ln_id n))))"
  define b where "b = (if ln_group n = '''' \<or> group_layout_id r (ln_group n) = '''' then None
      else map_option (\<lambda>s. (sl_layout s, From_Group_FK)) (get_layout r (group_layout_id r (ln_group n))))"
  define c where "c = (if ln_firmware n = '''' then None
      else Option.bind (all_layouts r) (\<lambda>ls. map_option (\<lambda>(c, src). (sl_layout c, From_Catalog src)) (pick_layout ls (ln_firmware n))))"
  have fk: "resolve_from_catalog r (ln_id n) (ln_group n) '''' = (case a of None \<Rightarrow> b | Some res \<Rightarrow> Some res)"
    by (auto simp: resolve_from_catalog_def a_def b_def Let_def split: option.splits)
  have fw: "resolve_from_catalog r (ln_id n) (ln_group n) (ln_firmware n) =
      (case a of Some res \<Rightarrow> Some res | None \<Rightarrow> (case b of Some res \<Rightarrow> Some res | None \<Rightarrow> c))"
    unfolding resolve_no_firmware [of r _ _ "ln_firmware n"] fk by (simp add: c_def split: option.splits)
  have lv: "levels r n group_override img =
      [a, b, map_option (\<lambda>l. (l, From_Node)) (ln_override n), map_option (\<lambda>l. (l, From_Group)) group_override, c,
       Some (case img of None \<Rightarrow> zero_layout | Some i \<Rightarrow> im_layout i, From_Image)]"
    by (simp add: levels_def a_def b_def c_def)
  show ?thesis unfolding lv resolve_effective_def fk fw effective_inline_def effective_source_def
    by (cases a; cases b; cases "ln_override n"; cases group_override; cases c) (simp_all split: option.splits)
qed


section \<open>The corrected layout\<close>

lemma std_parts:
  "part_ok (biosboot_part d)" "\<not> esp_like (biosboot_part d)" "bios_like (biosboot_part d)"
  "part_ok (esp_part d)" "esp_like (esp_part d)" "\<not> bios_like (esp_part d)"
proof -
  have "part_ok (biosboot_part '''')" "\<not> esp_like (biosboot_part '''')" "bios_like (biosboot_part '''')"
    "part_ok (esp_part '''')" "esp_like (esp_part '''')" "\<not> bios_like (esp_part '''')" by code_simp+
  then show "part_ok (biosboot_part d)" "\<not> esp_like (biosboot_part d)" "bios_like (biosboot_part d)"
    "part_ok (esp_part d)" "esp_like (esp_part d)" "\<not> bios_like (esp_part d)"
    by (simp_all add: biosboot_part_def esp_part_def part_ok_def esp_like_def bios_like_def has_flag_def)
qed

lemma std_bootloaders:
  "\<not> is_uefi_bootloader \<lparr>bl_type = ''grub2'', bl_target = ''i386-pc''\<rparr>"
  "is_uefi_bootloader \<lparr>bl_type = ''grub2'', bl_target = ''x86_64-efi''\<rparr>"
  by code_simp+

text \<open>One partition of a valid layout replaced by another and a boot loader to go with it.\<close>

lemma replace_part_ok:
  assumes ok: "layout_ok l d" and ps: "partitions l = as @ p # bs" and "\<not> root_like p"
    and q: "part_ok q" and sizes: "0 < ps_size p" "0 < ps_size q"
    and boot: "(\<forall>x \<in> set (as @ q # bs). \<not> esp_like x) \<or> (\<forall>x \<in> set (as @ q # bs). \<not> bios_like x)"
    and bl: "is_uefi_bootloader bl \<Longrightarrow> esp_like q"
    and total: "sum_list (map ps_size (as @ q # bs)) \<le> max_int64"
    and fits: "0 < d_size d \<Longrightarrow> sum_list (map ps_size (as @ q # bs)) \<le> max 0 (to_int64 (d_size d))"
  shows "layout_ok (l\<lparr>boot_loader := bl, partitions := as @ q # bs\<rparr>) d"
proof -
  have parts: "\<forall>x \<in> set (as @ q # bs). part_ok x" using ok q unfolding layout_ok_def ps by auto
  then have "wrapped_total (as @ q # bs) = sum_list (map ps_size (as @ q # bs))"
    by (intro wrapped_total_sum [OF _ total]) (auto simp: part_ok_def)
  with fits have fit: "0 < d_size d \<longrightarrow> wrapped_total (as @ q # bs) \<le> max 0 (to_int64 (d_size d))" by simp
  have "fills (as @ q # bs) = fills (partitions l)" using sizes unfolding ps by (simp add: fills_def)
  then have "fills (as @ q # bs) \<le> 1" using ok unfolding layout_ok_def by simp
  moreover have "\<exists>x \<in> set (as @ q # bs). root_like x" using ok assms(3) unfolding layout_ok_def ps by auto
  moreover have "\<not> ((\<exists>x \<in> set (as @ q # bs). bios_like x) \<and> (\<exists>x \<in> set (as @ q # bs). esp_like x))"
    using boot by blast
  moreover have "is_uefi_bootloader bl \<longrightarrow> (\<exists>x \<in> set (as @ q # bs). esp_like x)" using bl by auto
  moreover have "\<forall>z \<in> set (zfs_pools l). pool_ok z" using ok unfolding layout_ok_def by blast
  ultimately show ?thesis using parts fit unfolding layout_ok_def by simp
qed

lemma auto_correct_to_bios:
  "to_lower node_fw = ''bios'' \<Longrightarrow> to_lower img \<in> {''uefi'', ''''} \<Longrightarrow> auto_correct l img node_fw = convert_uefi_to_bios l"
  by (auto simp: auto_correct_def Let_def to_lower_def)

lemma auto_correct_to_uefi:
  "to_lower node_fw = ''uefi'' \<Longrightarrow> to_lower img = ''bios'' \<Longrightarrow> auto_correct l img node_fw = convert_bios_to_uefi l"
  by (auto simp: auto_correct_def Let_def to_lower_def)

lemma convert_uefi_first:
  assumes "partitions l = as @ p # bs" and "is_esp p" and "\<forall>x \<in> set as. \<not> is_esp x"
  shows "convert_uefi_to_bios l = l\<lparr>boot_loader := \<lparr>bl_type = ''grub2'', bl_target = ''i386-pc''\<rparr>,
    partitions := as @ biosboot_part (ps_device p) # bs\<rparr>"
  using replace_loop_first [OF assms(3,2)] by (simp add: convert_uefi_to_bios_def assms(1))

lemma convert_bios_first:
  assumes "partitions l = as @ p # bs" and "is_bios_boot p" and "\<forall>x \<in> set as. \<not> is_bios_boot x"
  shows "convert_bios_to_uefi l = l\<lparr>boot_loader := \<lparr>bl_type = ''grub2'', bl_target = ''x86_64-efi''\<rparr>,
    partitions := as @ esp_part (ps_device p) # bs\<rparr>"
  using replace_loop_first [OF assms(3,2)] by (simp add: convert_bios_to_uefi_def assms(1))

text \<open>
  A valid UEFI layout whose only ESP is one that autocorrect recognises and is at least one MiB stays
  valid for the disk when it is corrected for a BIOS node.
\<close>

theorem corrected_to_bios_valid:
  assumes "valid (validate_layout l d)" and "partitions l = as @ p # bs" and "is_esp p" and "\<not> root_like p"
    and "\<forall>x \<in> set (as @ bs). \<not> is_esp x \<and> \<not> esp_like x" and "size_mb \<le> ps_size p"
    and "sum_list (map ps_size (partitions l)) \<le> max_int64"
    and "to_lower node_fw = ''bios''" and "to_lower img \<in> {''uefi'', ''''}"
  shows "valid (validate_layout (auto_correct l img node_fw) d)"
proof -
  have ok: "layout_ok l d" using assms(1) by (simp add: valid_layout_ok)
  have total: "sum_list (map ps_size (partitions l)) = sum_list (map ps_size as) + ps_size p + sum_list (map ps_size bs)"
    by (simp add: assms(2))
  have q: "ps_size (biosboot_part (ps_device p)) = size_mb" by (simp add: biosboot_part_def part_def size_mb_def)
  have "\<forall>x \<in> set (partitions l). 0 \<le> ps_size x" using ok by (auto simp: layout_ok_def part_ok_def)
  then have "wrapped_total (partitions l) = sum_list (map ps_size (partitions l))" by (rule wrapped_total_sum [OF _ assms(7)])
  then have fit: "0 < d_size d \<Longrightarrow> sum_list (map ps_size (partitions l)) \<le> max 0 (to_int64 (d_size d))"
    using ok unfolding layout_ok_def by simp
  have "layout_ok (l\<lparr>boot_loader := \<lparr>bl_type = ''grub2'', bl_target = ''i386-pc''\<rparr>,
      partitions := as @ biosboot_part (ps_device p) # bs\<rparr>) d"
  proof (rule replace_part_ok [OF ok assms(2,4) std_parts(1)])
    show "0 < ps_size p" using assms(6) by (simp add: size_mb_def)
    show "0 < ps_size (biosboot_part (ps_device p))" by (simp add: q size_mb_def)
    show "(\<forall>x \<in> set (as @ biosboot_part (ps_device p) # bs). \<not> esp_like x) \<or>
        (\<forall>x \<in> set (as @ biosboot_part (ps_device p) # bs). \<not> bios_like x)"
      using assms(5) std_parts(2) by auto
    show "is_uefi_bootloader \<lparr>bl_type = ''grub2'', bl_target = ''i386-pc''\<rparr> \<Longrightarrow> esp_like (biosboot_part (ps_device p))"
      using std_bootloaders(1) by blast
    show "sum_list (map ps_size (as @ biosboot_part (ps_device p) # bs)) \<le> max_int64"
      using assms(6,7) total by (simp add: q)
    show "0 < d_size d \<Longrightarrow> sum_list (map ps_size (as @ biosboot_part (ps_device p) # bs)) \<le> max 0 (to_int64 (d_size d))"
      using fit assms(6) total by (simp add: q)
  qed
  moreover have "auto_correct l img node_fw = l\<lparr>boot_loader := \<lparr>bl_type = ''grub2'', bl_target = ''i386-pc''\<rparr>,
      partitions := as @ biosboot_part (ps_device p) # bs\<rparr>"
    unfolding auto_correct_to_bios [OF assms(8,9)]
    by (rule convert_uefi_first [OF assms(2,3)]) (use assms(5) in auto)
  ultimately show ?thesis by (simp add: valid_layout_ok)
qed

definition uefi_example :: disk_layout where
  "uefi_example = \<lparr>raid_arrays = [], zfs_pools = [],
     partitions = [esp_part '''', part ''root'' 0 ''xfs'' ''/'' []],
     boot_loader = \<lparr>bl_type = ''grub2'', bl_target = ''x86_64-efi''\<rparr>, target_device = ''''\<rparr>"

lemma corrected_to_bios_valid_witness: "valid (validate_layout (auto_correct uefi_example ''uefi'' ''BIOS'') example_disk)"
proof (rule corrected_to_bios_valid [where as = "[]" and p = "esp_part ''''" and bs = "[part ''root'' 0 ''xfs'' ''/'' []]"])
  show "valid (validate_layout uefi_example example_disk)" by code_simp
  show "partitions uefi_example = [] @ esp_part '''' # [part ''root'' 0 ''xfs'' ''/'' []]" by (simp add: uefi_example_def)
  show "\<not> root_like (esp_part '''')" by code_simp
  show "\<forall>x \<in> set ([] @ [part ''root'' 0 ''xfs'' ''/'' []]). \<not> is_esp x \<and> \<not> esp_like x" by code_simp
  show "size_mb \<le> ps_size (esp_part '''')" by (simp add: esp_part_def part_def size_mb_def)
  show "sum_list (map ps_size (partitions uefi_example)) \<le> max_int64"
    by (simp add: uefi_example_def esp_part_def part_def max_int64_def)
  show "to_lower ''BIOS'' = ''bios''" by code_simp
  have "to_lower ''uefi'' = ''uefi''" by code_simp
  then show "to_lower ''uefi'' \<in> {''uefi'', ''''}" by simp
qed simp

text \<open>
  Correcting to BIOS and back gives a layout whose first ESP is the standard one, with no BIOS boot
  partition before it and the UEFI boot loader of GRUB, exactly as it was.
\<close>

theorem correction_round_trip:
  assumes "partitions l = as @ esp_part dev # bs" and "\<forall>x \<in> set as. \<not> is_esp x \<and> \<not> is_bios_boot x"
    and "boot_loader l = \<lparr>bl_type = ''grub2'', bl_target = ''x86_64-efi''\<rparr>"
    and "to_lower bios = ''bios''" and "to_lower uefi = ''uefi''"
  shows "auto_correct (auto_correct l uefi bios) bios uefi = l"
proof -
  have dev: "ps_device (esp_part dev) = dev" "ps_device (biosboot_part dev) = dev" by (simp_all add: esp_part_def biosboot_part_def)
  have "to_lower uefi \<in> {''uefi'', ''''}" using assms(5) by simp
  then have "auto_correct l uefi bios = convert_uefi_to_bios l" by (rule auto_correct_to_bios [OF assms(4)])
  also have "\<dots> = l\<lparr>boot_loader := \<lparr>bl_type = ''grub2'', bl_target = ''i386-pc''\<rparr>, partitions := as @ biosboot_part dev # bs\<rparr>"
    using convert_uefi_first [OF assms(1) is_esp_part] assms(2) by (simp add: dev)
  finally have there: "auto_correct l uefi bios =
      l\<lparr>boot_loader := \<lparr>bl_type = ''grub2'', bl_target = ''i386-pc''\<rparr>, partitions := as @ biosboot_part dev # bs\<rparr>" .
  have parts: "partitions (auto_correct l uefi bios) = as @ biosboot_part dev # bs" by (simp add: there)
  have "auto_correct (auto_correct l uefi bios) bios uefi = (auto_correct l uefi bios)\<lparr>boot_loader :=
      \<lparr>bl_type = ''grub2'', bl_target = ''x86_64-efi''\<rparr>, partitions := as @ esp_part dev # bs\<rparr>"
    using convert_bios_first [OF parts is_bios_boot_part] assms(2)
    by (simp add: auto_correct_to_uefi [OF assms(5,4)] dev)
  also have "\<dots> = l" unfolding there by (simp add: assms(1) [symmetric] assms(3) [symmetric])
  finally show ?thesis .
qed

lemma correction_round_trip_witness:
  "auto_correct (auto_correct uefi_example ''UEFI'' ''bios'') ''bios'' ''UEFI'' = uefi_example"
proof (rule correction_round_trip [where as = "[]" and dev = "''''" and bs = "[part ''root'' 0 ''xfs'' ''/'' []]"])
  show "partitions uefi_example = [] @ esp_part '''' # [part ''root'' 0 ''xfs'' ''/'' []]" by (simp add: uefi_example_def)
  show "boot_loader uefi_example = \<lparr>bl_type = ''grub2'', bl_target = ''x86_64-efi''\<rparr>" by (simp add: uefi_example_def)
  show "to_lower ''bios'' = ''bios''" "to_lower ''UEFI'' = ''uefi''" by code_simp+
qed simp

text \<open>
  The ESP that Validate knows is not always the one that autocorrect knows: a valid layout with a
  \<open>fat32\<close> ESP keeps it beside the new BIOS boot partition and is no longer valid.
\<close>

theorem fat32_esp_breaks:
  "\<exists>l. valid (validate_layout l example_disk) \<and>
     errors (validate_layout (auto_correct l ''uefi'' ''bios'') example_disk) = [BiosbootAndEsp]"
proof -
  let ?l = "uefi_example\<lparr>partitions := [part ''efi'' (512 * size_mb) ''fat32'' ''/boot/efi'' [], part ''root'' 0 ''xfs'' ''/'' []]\<rparr>"
  have "valid (validate_layout ?l example_disk)" by code_simp
  moreover have "errors (validate_layout (auto_correct ?l ''uefi'' ''bios'') example_disk) = [BiosbootAndEsp]" by code_simp
  ultimately show ?thesis by blast
qed

end
