(* ===== verification/Layout_Recommend.thy ===== *)
theory Layout_Recommend
  imports Layout_Select
begin

text \<open>
  The recommendation of a layout for discovered hardware (\<open>internal/image/layout/recommend.go\<close>). The
  builder is the state that the steps pass on: the reasons and warnings collected so far, constructors
  that carry what the messages print. \<open>sort.Slice\<close> is not stable, so the sorting of the disks is an
  argument of the definitions: any function that sorts by size (locale \<open>size_sort\<close>).
\<close>

section \<open>Constants and results\<close>

definition biosboot_size :: int where "biosboot_size = 1 * size_mb"
definition esp_size :: int where "esp_size = 512 * size_mb"
definition boot_small :: int where "boot_small = 1 * size_gb"
definition boot_large :: int where "boot_large = 2 * size_gb"
definition swap_small :: int where "swap_small = 4 * size_gb"
definition swap_mid :: int where "swap_mid = 16 * size_gb"
definition swap_large :: int where "swap_large = 32 * size_gb"
definition root_mid :: int where "root_mid = 100 * size_gb"
definition root_large :: int where "root_large = 200 * size_gb"
definition small_disk_threshold :: int where "small_disk_threshold = 500 * size_gb"
definition large_disk_threshold :: int where "large_disk_threshold = 2 * 1024 * size_gb"
definition high_ram_threshold :: int where "high_ram_threshold = 64 * size_gb"
definition many_disks_threshold :: nat where "many_disks_threshold = 4"

datatype reason =
    Image_Bios | Image_Uefi | Dmi_Uefi | Dmi_Bios
  | High_Ram int
  | Two_Identical | Mixed_Topology | Many_Candidates nat | No_Topology nat
  | Primary_Disk string string int
  | Swap_Small int | Swap_Mid int | Swap_Large int | Swap int
  | Root_Rest | Root_Mid int | Root_Large int
  | Raid_Members string int string int | Raid_Whole_Disk | Raid_On_Partitions
  | Os_Nvme string int | Sata_Scratch string string
  | Os_Disk string int | Extra_Disk string nat

datatype caveat = Only_Smallest_Used | Needs_Mdadm

datatype recommend_error = No_Disks | No_Candidates | Index_Panic

record builder =
  bd_reasons :: "reason list"
  bd_warnings :: "caveat list"

record recommendation =
  rc_layout :: disk_layout
  rc_reasoning :: "reason list"
  rc_warnings :: "caveat list"

definition reason :: "reason \<Rightarrow> builder \<Rightarrow> builder" where
  "reason r b = b\<lparr>bd_reasons := bd_reasons b @ [r]\<rparr>"

definition warn :: "caveat \<Rightarrow> builder \<Rightarrow> builder" where
  "warn w b = b\<lparr>bd_warnings := bd_warnings b @ [w]\<rparr>"

definition recommend_with :: "disk_layout \<Rightarrow> builder \<Rightarrow> recommendation" where
  "recommend_with l b = \<lparr>rc_layout = l, rc_reasoning = bd_reasons b, rc_warnings = bd_warnings b\<rparr>"

section \<open>Disks\<close>

definition is_boot_disk :: "disk \<Rightarrow> bool" where
  "is_boot_disk d \<longleftrightarrow>
     list_ex (\<lambda>p. let mp = trim_space (dp_mount p) in mp = ''/'' \<or> mp = ''/boot'' \<or> mp = ''/boot/efi'') (d_partitions d)"

text \<open>The quotient of Go, which rounds toward zero.\<close>

definition go_quot :: "int \<Rightarrow> int \<Rightarrow> int" where
  "go_quot a b = sgn a * sgn b * (abs a div abs b)"

definition identical_size :: "disk \<Rightarrow> disk \<Rightarrow> bool" where
  "identical_size a b =
     (if d_size a = 0 \<or> d_size b = 0 then False
      else
        (let delta = wrap64 (to_int64 (d_size a) - to_int64 (d_size b));
             delta = (if delta < 0 then wrap64 (- delta) else delta)
         in go_quot (wrap64 (delta * 100)) (to_int64 (d_size a)) \<le> 1))"

definition has_mixed_nvme_sata :: "disk list \<Rightarrow> bool" where
  "has_mixed_nvme_sata ds \<longleftrightarrow>
     list_ex (\<lambda>d. to_lower (d_transport d) = ''nvme'') ds \<and>
     list_ex (\<lambda>d. to_lower (d_transport d) \<in> {''sata'', ''sas'', ''ata'', ''''}) ds"

text \<open>\<open>disks[0]\<close> of an empty slice panics.\<close>

fun smallest_disk :: "disk list \<Rightarrow> disk option" where
  "smallest_disk [] = None"
| "smallest_disk (d # ds) = Some (foldl (\<lambda>best d. if d_size d < d_size best then d else best) d ds)"

definition eligible :: "disk \<Rightarrow> bool" where
  "eligible d \<longleftrightarrow> \<not> is_boot_disk d \<and> \<not> equal_fold (d_transport d) ''usb''"

definition candidate_disks :: "(disk list \<Rightarrow> disk list) \<Rightarrow> system_info \<Rightarrow> disk list" where
  "candidate_disks srt hw = srt (filter eligible (si_disks hw))"

definition detect_uefi :: "system_info \<Rightarrow> bool" where
  "detect_uefi hw =
     (let vendor = to_upper (si_bios_vendor hw); version = to_upper (si_bios_version hw) in
      list_ex (\<lambda>kw. contains vendor kw \<or> contains version kw) [''UEFI'', ''EFI'', ''TIANOCORE'', ''OVMF'', ''EDK''])"

section \<open>Partitions\<close>

definition boot_partitions :: "bool \<Rightarrow> partition_spec list" where
  "boot_partitions uefi =
     (if uefi
      then [part ''esp'' esp_size ''vfat'' ''/boot/efi'' [''esp'', ''boot''], part ''boot'' boot_large ''xfs'' ''/boot'' []]
      else [part ''biosboot'' biosboot_size ''biosboot'' '''' [''bios_grub''], part ''boot'' boot_small ''xfs'' ''/boot'' []])"

definition bootloader_for :: "bool \<Rightarrow> bootloader" where
  "bootloader_for uefi = \<lparr>bl_type = ''grub2'', bl_target = (if uefi then ''x86_64-efi'' else ''i386-pc'')\<rparr>"

definition swap_size :: "int \<Rightarrow> bool \<Rightarrow> builder \<Rightarrow> int \<times> builder" where
  "swap_size disk_size skip b =
     (if skip then (0, b)
      else if disk_size < small_disk_threshold then (swap_small, reason (Swap_Small swap_small) b)
      else if disk_size < large_disk_threshold then (swap_mid, reason (Swap_Mid swap_mid) b)
      else (swap_large, reason (Swap_Large swap_large) b))"

definition swap_part :: "string \<Rightarrow> int \<Rightarrow> partition_spec list" where
  "swap_part dev sz = (if sz > 0 then [(part ''swap'' sz ''swap'' ''swap'' [])\<lparr>ps_device := dev\<rparr>] else [])"

definition root_part :: "string \<Rightarrow> int \<Rightarrow> partition_spec" where
  "root_part dev sz = (part ''root'' sz ''xfs'' ''/'' [])\<lparr>ps_device := dev\<rparr>"

section \<open>Topologies\<close>

definition single_disk :: "disk \<Rightarrow> bool \<Rightarrow> bool \<Rightarrow> builder \<Rightarrow> recommendation" where
  "single_disk d uefi skip b =
     (let sz = to_int64 (d_size d);
          b = reason (Primary_Disk (d_name d) (d_transport d) sz) b;
          (swap, b) = swap_size sz skip b;
          b = (if swap > 0 then reason (Swap swap) b else b);
          (rest, b) =
            (if sz < small_disk_threshold then ([root_part '''' 0], reason Root_Rest b)
             else if sz < large_disk_threshold then
               ([root_part '''' root_mid, part ''scratch'' 0 ''xfs'' ''/scratch'' []],
                reason (Root_Mid (wrap64 (sz - root_mid))) b)
             else
               ([root_part '''' root_large, part ''scratch'' 0 ''xfs'' ''/scratch'' []],
                reason (Root_Large (wrap64 (sz - root_large))) b))
      in recommend_with
           \<lparr>raid_arrays = [], zfs_pools = [], partitions = boot_partitions uefi @ swap_part '''' swap @ rest,
             boot_loader = bootloader_for uefi, target_device = d_name d\<rparr> b)"

definition raid1 :: "string \<Rightarrow> string list \<Rightarrow> raid_spec" where
  "raid1 name members =
     \<lparr>rd_name = name, rd_level = ''raid1'', rd_members = members, rd_chunk_kb = 0, rd_spare = 0,
       rd_force_software = False, rd_type = '''', rd_imsm = ''''\<rparr>"

definition part_name :: "disk \<Rightarrow> nat \<Rightarrow> string" where
  "part_name d n = d_name d @ dec_nat n"

definition uefi_raid_layout :: "disk \<Rightarrow> disk \<Rightarrow> int \<Rightarrow> disk_layout" where
  "uefi_raid_layout d0 d1 swap =
     \<lparr>raid_arrays = [raid1 ''md0'' [d_name d0, d_name d1]], zfs_pools = [],
       partitions = map (\<lambda>p. p\<lparr>ps_device := ''md0''\<rparr>) (boot_partitions True) @ swap_part ''md0'' swap @ [root_part ''md0'' 0],
       boot_loader = bootloader_for True, target_device = ''''\<rparr>"

definition bios_raid_layout :: "disk \<Rightarrow> disk \<Rightarrow> int \<Rightarrow> disk_layout" where
  "bios_raid_layout d0 d1 swap =
     (let boot_size = (if to_int64 (d_size d0) \<ge> small_disk_threshold then boot_large else boot_small);
          ps = [part ''biosboot'' biosboot_size ''biosboot'' '''' [''bios_grub''],
                (part ''boot'' boot_size ''xfs'' ''/boot'' [])\<lparr>ps_device := ''md0''\<rparr>] @
               swap_part ''md1'' swap @ [root_part ''md2'' 0];
          arrays = [raid1 ''md0'' [part_name d0 2, part_name d1 2]];
          next_part = 3;
          (arrays, next_part) =
            (if swap > 0
             then (arrays @ [raid1 ''md1'' [part_name d0 next_part, part_name d1 next_part]], next_part + 1)
             else (arrays, next_part));
          arrays = arrays @ [raid1 (''md'' @ dec_nat (length arrays)) [part_name d0 next_part, part_name d1 next_part]]
      in \<lparr>raid_arrays = arrays, zfs_pools = [], partitions = ps, boot_loader = bootloader_for False,
           target_device = ''''\<rparr>)"

definition two_identical_disks :: "disk \<Rightarrow> disk \<Rightarrow> bool \<Rightarrow> bool \<Rightarrow> builder \<Rightarrow> recommendation" where
  "two_identical_disks d0 d1 uefi skip b =
     (let b = reason (Raid_Members (d_name d0) (to_int64 (d_size d0)) (d_name d1) (to_int64 (d_size d1))) b;
          (swap, b) = swap_size (to_int64 (d_size d0)) skip b;
          (l, b) =
            (if uefi then (uefi_raid_layout d0 d1 swap, reason Raid_Whole_Disk b)
             else (bios_raid_layout d0 d1 swap, reason Raid_On_Partitions b))
      in recommend_with l (warn Needs_Mdadm b))"

text \<open>The scratch partitions of the SATA disks; \<open>i\<close> is the index of the loop, \<open>n\<close> the number of disks.\<close>

fun sata_parts :: "nat \<Rightarrow> nat \<Rightarrow> disk list \<Rightarrow> builder \<Rightarrow> partition_spec list \<times> builder" where
  "sata_parts n i [] b = ([], b)"
| "sata_parts n i (d # ds) b =
     (let mp = (if n = 1 then ''/scratch'' else ''/scratch-'' @ dec_nat (i + 1));
          p = (part (''scratch'' @ dec_nat (i + 1)) 0 ''xfs'' mp [])\<lparr>ps_device := d_name d\<rparr>;
          (ps, b) = sata_parts n (i + 1) ds (reason (Sata_Scratch (d_name d) mp) b)
      in (p # ps, b))"

definition nvme_sata_layout :: "disk list \<Rightarrow> bool \<Rightarrow> bool \<Rightarrow> builder \<Rightarrow> recommend_error + recommendation" where
  "nvme_sata_layout candidates uefi skip b =
     (let nvme = filter (\<lambda>d. equal_fold (d_transport d) ''nvme'') candidates;
          sata = filter (\<lambda>d. \<not> equal_fold (d_transport d) ''nvme'') candidates
      in case smallest_disk nvme of
           None \<Rightarrow> Inl Index_Panic
         | Some primary \<Rightarrow>
             (let b = reason (Os_Nvme (d_name primary) (to_int64 (d_size primary))) b;
                  (swap, b) = swap_size (to_int64 (d_size primary)) skip b;
                  (scratch, b) = sata_parts (length sata) 0 sata b
              in Inr (recommend_with
                   \<lparr>raid_arrays = [], zfs_pools = [],
                     partitions = boot_partitions uefi @ swap_part '''' swap @ [root_part '''' 0] @ scratch,
                     boot_loader = bootloader_for uefi, target_device = d_name primary\<rparr> b)))"

fun extra_parts :: "string \<Rightarrow> nat \<Rightarrow> disk list \<Rightarrow> builder \<Rightarrow> partition_spec list \<times> builder" where
  "extra_parts primary idx [] b = ([], b)"
| "extra_parts primary idx (d # ds) b =
     (if d_name d = primary then extra_parts primary idx ds b
      else
        (let p = (part (''scratch'' @ dec_nat idx) 0 ''xfs'' (''/scratch-'' @ dec_nat idx) [])\<lparr>ps_device := d_name d\<rparr>;
             (ps, b) = extra_parts primary (idx + 1) ds (reason (Extra_Disk (d_name d) idx) b)
         in (p # ps, b)))"

definition many_disks :: "disk list \<Rightarrow> bool \<Rightarrow> bool \<Rightarrow> builder \<Rightarrow> recommend_error + recommendation" where
  "many_disks candidates uefi skip b =
     (case smallest_disk candidates of
        None \<Rightarrow> Inl Index_Panic
      | Some primary \<Rightarrow>
          (let b = reason (Os_Disk (d_name primary) (to_int64 (d_size primary))) b;
               (swap, b) = swap_size (to_int64 (d_size primary)) skip b;
               (scratch, b) = extra_parts (d_name primary) 1 candidates b
           in Inr (recommend_with
                \<lparr>raid_arrays = [], zfs_pools = [],
                  partitions = boot_partitions uefi @ swap_part '''' swap @ [root_part '''' 0] @ scratch,
                  boot_loader = bootloader_for uefi, target_device = d_name primary\<rparr> b)))"

section \<open>The recommendation\<close>

definition choose_firmware :: "system_info \<Rightarrow> string \<Rightarrow> builder \<Rightarrow> bool \<times> builder" where
  "choose_firmware hw image_firmware b =
     (if to_lower image_firmware = ''bios'' then (False, reason Image_Bios b)
      else if to_lower image_firmware = ''uefi'' then (True, reason Image_Uefi b)
      else if detect_uefi hw then (True, reason Dmi_Uefi b) else (False, reason Dmi_Bios b))"

definition ram_bytes :: "system_info \<Rightarrow> int" where
  "ram_bytes hw = wrap64 (to_int64 (si_total_kb hw) * 1024)"

definition dispatch :: "disk list \<Rightarrow> bool \<Rightarrow> bool \<Rightarrow> builder \<Rightarrow> recommend_error + recommendation" where
  "dispatch candidates uefi skip b =
     (if length candidates = 1 then Inr (single_disk (hd candidates) uefi skip b)
      else if length candidates = 2 \<and> identical_size (candidates ! 0) (candidates ! 1) then
        Inr (two_identical_disks (candidates ! 0) (candidates ! 1) uefi skip (reason Two_Identical b))
      else if has_mixed_nvme_sata candidates then nvme_sata_layout candidates uefi skip (reason Mixed_Topology b)
      else if length candidates > many_disks_threshold then
        many_disks candidates uefi skip (reason (Many_Candidates (length candidates)) b)
      else
        (case smallest_disk candidates of
           None \<Rightarrow> Inl Index_Panic
         | Some primary \<Rightarrow>
             Inr (single_disk primary uefi skip (warn Only_Smallest_Used (reason (No_Topology (length candidates)) b)))))"

definition recommend :: "(disk list \<Rightarrow> disk list) \<Rightarrow> system_info \<Rightarrow> string \<Rightarrow> recommend_error + recommendation" where
  "recommend srt hw image_firmware =
     (if si_disks hw = [] then Inl No_Disks
      else
        (let (uefi, b) = choose_firmware hw image_firmware \<lparr>bd_reasons = [], bd_warnings = []\<rparr>;
             skip = (ram_bytes hw \<ge> high_ram_threshold);
             b = (if skip then reason (High_Ram (ram_bytes hw)) b else b);
             candidates = candidate_disks srt hw
         in if candidates = [] then Inl No_Candidates else dispatch candidates uefi skip b))"

section \<open>Lemmas\<close>

text \<open>The contract of \<open>sort.Slice\<close> with the order by size.\<close>

locale size_sort = key_sort srt "d_size :: disk \<Rightarrow> 64 word" for srt :: "disk list \<Rightarrow> disk list"
begin

lemma candidates_eligible: "d \<in> set (candidate_disks srt hw) \<longleftrightarrow> d \<in> set (si_disks hw) \<and> eligible d"
  by (auto simp: candidate_disks_def)

lemma no_candidates: "candidate_disks srt hw = [] \<longleftrightarrow> (\<forall>d \<in> set (si_disks hw). \<not> eligible d)"
  by (simp add: candidate_disks_def filter_empty_conv)

lemma smallest_first:
  assumes "candidate_disks srt hw \<noteq> []"
  shows "smallest_disk (candidate_disks srt hw) = Some (hd (candidate_disks srt hw))"
proof -
  obtain d ds where c: "candidate_disks srt hw = d # ds" using assms by (meson neq_Nil_conv)
  have "sorted (map d_size (d # ds))" using ascending [of "filter eligible (si_disks hw)"] c by (simp add: candidate_disks_def)
  then have "\<forall>x \<in> set ds. d_size d \<le> d_size x" by simp
  then have "foldl (\<lambda>best d. if d_size d < d_size best then d else best) d ds = d" by (induction ds) auto
  then show ?thesis by (simp add: c)
qed

end

interpretation insertion: size_sort "sort_key d_size"
  by unfold_locales simp_all

lemma fold_runes_plain:
  assumes "\<forall>(r, c) \<in> set rs. r \<noteq> [] \<and> c \<notin> set t \<and> f (hd r) \<notin> set t"
  shows "fold_runes rs f s = t \<longleftrightarrow> map f s = t"
  using assms
proof (induction rs f s arbitrary: t rule: fold_runes.induct)
  case (1 rs f)
  then show ?case by simp
next
  case (2 rs f c cs)
  show ?case
  proof (cases "find (\<lambda>(r, _). prefix r (c # cs)) rs")
    case None
    then have eq: "fold_runes rs f (c # cs) = f c # fold_runes rs f cs" by simp
    show ?thesis
    proof (cases t)
      case (Cons x xs)
      have "\<forall>(r, c) \<in> set rs. r \<noteq> [] \<and> c \<notin> set xs \<and> f (hd r) \<notin> set xs" using "2.prems" Cons by auto
      from "2.IH"(1) [OF None this] show ?thesis unfolding eq Cons by simp
    qed (simp add: None)
  next
    case (Some a)
    obtain r x where a: "a = (r, x)" by (cases a)
    have r: "(r, x) \<in> set rs" "prefix r (c # cs)" using Some unfolding a
      by (auto simp: find_Some_iff) (metis nth_mem)
    with "2.prems" have "r \<noteq> []" "x \<notin> set t" "f (hd r) \<notin> set t" by auto
    moreover from this r(2) have "hd r = c" by (cases r) auto
    moreover have "fold_runes rs f (c # cs) = x # fold_runes rs f (drop (length r - 1) cs)" using Some a by simp
    ultimately show ?thesis by auto
  qed
qed

lemma lower_nvme: "to_lower s = ''nvme'' \<longleftrightarrow> equal_fold s ''nvme''"
proof -
  have "lower_char (CHR 0xC4) = CHR 0xC4" "lower_char (CHR 0xE2) = CHR 0xE2" "lower_char (CHR 0xC5) = CHR 0xC5" by code_simp+
  then show ?thesis unfolding to_lower_def equal_fold_def by (simp add: fold_runes_plain)
qed

lemma smallest_disk_in: "smallest_disk ds = Some d \<Longrightarrow> d \<in> set ds"
proof (cases ds)
  case (Cons x xs)
  have "foldl (\<lambda>best d. if d_size d < d_size best then d else best) x xs \<in> insert x (set xs)" for x
    by (induction xs arbitrary: x) auto
  then show "smallest_disk ds = Some d \<Longrightarrow> d \<in> set ds" using Cons by auto
qed simp

lemma smallest_disk_None [simp]: "smallest_disk ds = None \<longleftrightarrow> ds = []"
  by (cases ds) simp_all

lemma mixed_has_nvme: "has_mixed_nvme_sata ds \<Longrightarrow> filter (\<lambda>d. equal_fold (d_transport d) ''nvme'') ds \<noteq> []"
  by (auto simp: has_mixed_nvme_sata_def lower_nvme list_ex_iff filter_empty_conv)

lemma mixed_has_sata: "has_mixed_nvme_sata ds \<Longrightarrow> filter (\<lambda>d. \<not> equal_fold (d_transport d) ''nvme'') ds \<noteq> []"
  unfolding has_mixed_nvme_sata_def lower_nvme [symmetric] list_ex_iff filter_empty_conv by auto force+

lemma dispatch_total:
  assumes "candidates \<noteq> []"
  shows "\<exists>rc. dispatch candidates uefi skip b = Inr rc"
proof -
  have "\<exists>rc. nvme_sata_layout candidates uefi skip b = Inr rc" if "has_mixed_nvme_sata candidates" for b
    using mixed_has_nvme [OF that] by (auto simp: nvme_sata_layout_def Let_def split: option.splits prod.splits)
  moreover have "\<exists>rc. many_disks candidates uefi skip b = Inr rc" for b
    using assms by (auto simp: many_disks_def Let_def split: option.splits prod.splits)
  ultimately show ?thesis using assms unfolding dispatch_def by (auto split: option.splits)
qed

lemma recommend_cases:
  "recommend srt hw fw =
     (if si_disks hw = [] then Inl No_Disks
      else if candidate_disks srt hw = [] then Inl No_Candidates
      else dispatch (candidate_disks srt hw) (fst (choose_firmware hw fw \<lparr>bd_reasons = [], bd_warnings = []\<rparr>))
        (high_ram_threshold \<le> ram_bytes hw)
        (let b = snd (choose_firmware hw fw \<lparr>bd_reasons = [], bd_warnings = []\<rparr>) in
         if high_ram_threshold \<le> ram_bytes hw then reason (High_Ram (ram_bytes hw)) b else b))"
  by (simp add: recommend_def Let_def split: prod.splits)

lemma recommend_returns:
  "si_disks hw \<noteq> [] \<Longrightarrow> candidate_disks srt hw \<noteq> [] \<Longrightarrow> \<exists>rc. recommend srt hw fw = Inr rc"
  unfolding recommend_cases using dispatch_total by simp

lemma swap_size_fst: "fst (swap_size sz skip b) =
    (if skip then 0 else if sz < small_disk_threshold then swap_small else if sz < large_disk_threshold then swap_mid else swap_large)"
  by (simp add: swap_size_def)

section \<open>Properties\<close>

text \<open>
  Recommend fails only when no disk was discovered or none is eligible (not a boot disk, not USB), and
  never indexes an empty list of disks: with an eligible disk it returns a recommendation.
\<close>

theorem recommend_total:
  assumes "size_sort srt"
  shows "(if \<exists>d \<in> set (si_disks hw). eligible d then \<exists>rc. recommend srt hw fw = Inr rc
     else recommend srt hw fw = Inl (if si_disks hw = [] then No_Disks else No_Candidates))"
  unfolding recommend_cases using size_sort.no_candidates [OF assms, of hw] dispatch_total by auto

definition one_disk_node :: "disk \<Rightarrow> system_info" where
  "one_disk_node d = \<lparr>si_disks = [d], si_total_kb = 0, si_bios_vendor = '''', si_bios_version = ''''\<rparr>"

lemma recommend_total_witness:
  "\<exists>rc. recommend (sort_key d_size) (one_disk_node example_disk) '''' = Inr rc"
proof -
  have "eligible example_disk" by code_simp
  then show ?thesis using recommend_total [OF insertion.size_sort_axioms, of "one_disk_node example_disk" "''''"]
    by (simp add: one_disk_node_def)
qed


section \<open>Which disks a layout names\<close>

text \<open>The disks a layout names: the target, the devices of partitions that are no arrays, the members of the arrays.\<close>

definition array_names :: "string set" where
  "array_names = {'''', ''md0'', ''md1'', ''md2''}"

definition names_only :: "string set \<Rightarrow> disk_layout \<Rightarrow> bool" where
  "names_only names l \<longleftrightarrow> target_device l \<in> names \<union> {''''} \<and>
     (\<forall>p \<in> set (partitions l). ps_device p \<in> names \<union> array_names) \<and>
     (\<forall>a \<in> set (raid_arrays l). \<forall>m \<in> set (rd_members a). m \<in> names \<or> (\<exists>n \<in> names. \<exists>k. m = n @ dec_nat k))"

lemma boot_swap_devices:
  "p \<in> set (boot_partitions uefi) \<Longrightarrow> ps_device p = ''''"
  "p \<in> set (swap_part dev sz) \<Longrightarrow> ps_device p = dev"
  "ps_device (root_part dev sz) = dev"
  "ps_device (part a b c d e) = ''''"
proof -
  show blank: "ps_device (part a b c d e) = ''''" for a b c d e by (simp add: Layout_Types.part_def)
  show "p \<in> set (boot_partitions uefi) \<Longrightarrow> ps_device p = ''''" by (auto simp: boot_partitions_def blank split: if_splits)
  show "p \<in> set (swap_part dev sz) \<Longrightarrow> ps_device p = dev" by (auto simp: swap_part_def split: if_splits)
  show "ps_device (root_part dev sz) = dev" by (simp add: root_part_def)
qed

lemma sata_parts_devices: "p \<in> set (fst (sata_parts n i ds b)) \<Longrightarrow> ps_device p \<in> d_name ` set ds"
  by (induction n i ds b rule: sata_parts.induct) (auto simp: Let_def split: prod.splits if_splits)

lemma extra_parts_devices: "p \<in> set (fst (extra_parts primary idx ds b)) \<Longrightarrow> ps_device p \<in> d_name ` set ds"
  by (induction primary idx ds b rule: extra_parts.induct) (auto simp: Let_def split: prod.splits if_splits)

lemma single_disk_names: "names_only {d_name d} (rc_layout (single_disk d uefi skip b))"
  by (auto simp: single_disk_def Let_def recommend_with_def names_only_def array_names_def boot_swap_devices
      dest: boot_swap_devices(1,2) split: prod.splits if_splits)

lemma uefi_raid_names: "names_only {d_name d0, d_name d1} (uefi_raid_layout d0 d1 swap)"
  by (auto simp: uefi_raid_layout_def raid1_def names_only_def array_names_def boot_swap_devices
      dest: boot_swap_devices(1,2))

lemma bios_raid_names: "names_only {d_name d0, d_name d1} (bios_raid_layout d0 d1 swap)"
  by (auto simp: bios_raid_layout_def Let_def raid1_def part_name_def names_only_def array_names_def boot_swap_devices
      dest: boot_swap_devices(1,2))

lemma nvme_sata_shape:
  assumes "nvme_sata_layout ds uefi skip b = Inr rc"
  obtains primary sw b2 where "smallest_disk (filter (\<lambda>d. equal_fold (d_transport d) ''nvme'') ds) = Some primary"
    "target_device (rc_layout rc) = d_name primary" "raid_arrays (rc_layout rc) = []"
    "partitions (rc_layout rc) = boot_partitions uefi @ swap_part '''' sw @ [root_part '''' 0] @
       fst (sata_parts (length (filter (\<lambda>d. \<not> equal_fold (d_transport d) ''nvme'') ds)) 0
         (filter (\<lambda>d. \<not> equal_fold (d_transport d) ''nvme'') ds) b2)"
proof (cases "smallest_disk (filter (\<lambda>d. equal_fold (d_transport d) ''nvme'') ds)")
  case None
  then show ?thesis using assms by (simp add: nvme_sata_layout_def Let_def)
next
  case (Some primary)
  let ?sata = "filter (\<lambda>d. \<not> equal_fold (d_transport d) ''nvme'') ds"
  obtain sw b2 where sw: "swap_size (to_int64 (d_size primary)) skip
      (reason (Os_Nvme (d_name primary) (to_int64 (d_size primary))) b) = (sw, b2)" by fastforce
  obtain scratch b3 where s: "sata_parts (length ?sata) 0 ?sata b2 = (scratch, b3)" by fastforce
  have "rc = recommend_with \<lparr>raid_arrays = [], zfs_pools = [],
      partitions = boot_partitions uefi @ swap_part '''' sw @ [root_part '''' 0] @ scratch,
      boot_loader = bootloader_for uefi, target_device = d_name primary\<rparr> b3"
    using assms unfolding nvme_sata_layout_def Let_def Some by (simp add: sw s)
  then show ?thesis using that [OF Some, of sw b2] by (simp add: recommend_with_def s)
qed

lemma many_disks_shape:
  assumes "many_disks ds uefi skip b = Inr rc"
  obtains primary sw b2 where "smallest_disk ds = Some primary"
    "target_device (rc_layout rc) = d_name primary" "raid_arrays (rc_layout rc) = []"
    "partitions (rc_layout rc) = boot_partitions uefi @ swap_part '''' sw @ [root_part '''' 0] @
       fst (extra_parts (d_name primary) 1 ds b2)"
proof (cases "smallest_disk ds")
  case None
  then show ?thesis using assms by (simp add: many_disks_def)
next
  case (Some primary)
  obtain sw b2 where sw: "swap_size (to_int64 (d_size primary)) skip
      (reason (Os_Disk (d_name primary) (to_int64 (d_size primary))) b) = (sw, b2)" by fastforce
  obtain scratch b3 where s: "extra_parts (d_name primary) 1 ds b2 = (scratch, b3)" by fastforce
  have "rc = recommend_with \<lparr>raid_arrays = [], zfs_pools = [],
      partitions = boot_partitions uefi @ swap_part '''' sw @ [root_part '''' 0] @ scratch,
      boot_loader = bootloader_for uefi, target_device = d_name primary\<rparr> b3"
    using assms unfolding many_disks_def Let_def Some by (simp add: sw s del: One_nat_def)
  then show ?thesis using that [OF Some, of sw b2] by (simp add: recommend_with_def s del: One_nat_def)
qed

lemma nvme_sata_names:
  assumes "nvme_sata_layout ds uefi skip b = Inr rc"
  shows "names_only (d_name ` set ds) (rc_layout rc)"
  using assms
proof (cases rule: nvme_sata_shape)
  case (1 primary sw b2)
  have "primary \<in> set ds" using smallest_disk_in [OF 1(1)] by simp
  moreover note sata_parts_devices [of _ "length (filter (\<lambda>d. \<not> equal_fold (d_transport d) ''nvme'') ds)" 0
      "filter (\<lambda>d. \<not> equal_fold (d_transport d) ''nvme'') ds" b2]
  ultimately show ?thesis using 1(2-)
    by (auto simp: names_only_def array_names_def boot_swap_devices dest: boot_swap_devices(1,2))
qed

lemma many_disks_names:
  assumes "many_disks ds uefi skip b = Inr rc"
  shows "names_only (d_name ` set ds) (rc_layout rc)"
  using assms
proof (cases rule: many_disks_shape)
  case (1 primary sw b2)
  have "primary \<in> set ds" using smallest_disk_in [OF 1(1)] .
  moreover note extra_parts_devices [of _ "d_name primary" 1 ds b2]
  ultimately show ?thesis using 1(2-)
    by (auto simp: names_only_def array_names_def boot_swap_devices dest: boot_swap_devices(1,2))
qed

lemma names_only_mono: "names_only A l \<Longrightarrow> A \<subseteq> B \<Longrightarrow> names_only B l"
  unfolding names_only_def by blast

lemma dispatch_names:
  assumes "dispatch ds uefi skip b = Inr rc" and "ds \<noteq> []"
  shows "names_only (d_name ` set ds) (rc_layout rc)"
proof -
  have two: "names_only (d_name ` set ds) (rc_layout (two_identical_disks (ds ! 0) (ds ! 1) uefi skip b'))" if "length ds = 2" for b'
  proof -
    have "{d_name (ds ! 0), d_name (ds ! 1)} \<subseteq> d_name ` set ds" using that by simp
    then show ?thesis
      using names_only_mono [OF uefi_raid_names] names_only_mono [OF bios_raid_names]
      by (simp add: two_identical_disks_def Let_def recommend_with_def split: prod.splits)
  qed
  have single: "names_only (d_name ` set ds) (rc_layout (single_disk d uefi skip b'))" if "d \<in> set ds" for d b'
    using that by (intro names_only_mono [OF single_disk_names]) auto
  from assms(1) show ?thesis unfolding dispatch_def
    using two single nvme_sata_names many_disks_names smallest_disk_in assms(2)
    by (auto split: if_splits option.splits)
qed

text \<open>
  A recommendation names only eligible disks: its target, the devices of its partitions and the members of
  its arrays are disks the node is not booted from and that are not on USB (or partitions of such disks, or
  the arrays md0 to md2).
\<close>

theorem recommend_eligible_only:
  assumes "size_sort srt" and "recommend srt hw fw = Inr rc"
  shows "names_only (d_name ` {d \<in> set (si_disks hw). eligible d}) (rc_layout rc)"
proof -
  have ne: "candidate_disks srt hw \<noteq> []" using assms(2) by (auto simp: recommend_cases split: if_splits)
  have "set (candidate_disks srt hw) = {d \<in> set (si_disks hw). eligible d}"
    using size_sort.candidates_eligible [OF assms(1)] by blast
  moreover have "names_only (d_name ` set (candidate_disks srt hw)) (rc_layout rc)"
    using assms(2) ne dispatch_names unfolding recommend_cases by (auto split: if_splits)
  ultimately show ?thesis by simp
qed

definition usb_disk :: disk where
  "usb_disk = \<lparr>d_name = ''sdz'', d_size = 8000000000, d_transport = ''USB'', d_rotational = False, d_partitions = []\<rparr>"

definition usb_node :: system_info where
  "usb_node = \<lparr>si_disks = [usb_disk, example_disk], si_total_kb = 0, si_bios_vendor = '''', si_bios_version = ''''\<rparr>"

lemma recommend_eligible_only_witness:
  "names_only {''sda''} (rc_layout (single_disk example_disk False False \<lparr>bd_reasons = [Dmi_Bios], bd_warnings = []\<rparr>))"
proof -
  have e: "eligible example_disk" "\<not> eligible usb_disk" by code_simp+
  then have disks: "{d \<in> set (si_disks usb_node). eligible d} = {example_disk}" by (auto simp: usb_node_def)
  have "candidate_disks (sort_key d_size) usb_node = [example_disk]" using e by (simp add: candidate_disks_def usb_node_def)
  moreover have "choose_firmware usb_node '''' \<lparr>bd_reasons = [], bd_warnings = []\<rparr> =
      (False, \<lparr>bd_reasons = [Dmi_Bios], bd_warnings = []\<rparr>)" by code_simp
  moreover have "\<not> high_ram_threshold \<le> ram_bytes usb_node" by code_simp
  ultimately have "recommend (sort_key d_size) usb_node '''' =
      Inr (single_disk example_disk False False \<lparr>bd_reasons = [Dmi_Bios], bd_warnings = []\<rparr>)"
    by (simp add: recommend_cases dispatch_def usb_node_def)
  from recommend_eligible_only [OF insertion.size_sort_axioms this] show ?thesis
    unfolding disks by (simp add: example_disk_def)
qed


section \<open>Which recommendations validate\<close>

text \<open>A partition that is neither an ESP nor a BIOS boot partition.\<close>

definition plain_part :: "partition_spec \<Rightarrow> bool" where
  "plain_part p \<longleftrightarrow> part_ok p \<and> \<not> esp_like p \<and> \<not> bios_like p"

lemma lower_texts:
  "to_lower ''xfs'' = ''xfs''" "to_lower ''swap'' = ''swap''" "to_lower ''/'' = ''/''" "to_lower ''/boot'' = ''/boot''"
  "to_lower ''/scratch'' = ''/scratch''"
  by code_simp+

lemma plain_parts:
  "0 \<le> sz \<Longrightarrow> plain_part (root_part dev sz)"
  "p \<in> set (swap_part dev sz) \<Longrightarrow> plain_part p"
  "0 \<le> sz \<Longrightarrow> plain_part ((part ''boot'' sz ''xfs'' ''/boot'' [])\<lparr>ps_device := dev\<rparr>)"
  "0 \<le> sz \<Longrightarrow> plain_part (part ''scratch'' sz ''xfs'' ''/scratch'' [])"
  "root_like (root_part dev sz)"
  by (auto simp: plain_part_def root_part_def swap_part_def Layout_Types.part_def part_ok_def esp_like_def bios_like_def
      root_like_def has_flag_def is_fat_def lower_texts allowed_filesystems_def split: if_splits)

lemma boot_head_parts:
  "part_ok (part ''esp'' esp_size ''vfat'' ''/boot/efi'' [''esp'', ''boot''])"
  "esp_like (part ''esp'' esp_size ''vfat'' ''/boot/efi'' [''esp'', ''boot''])"
  "\<not> bios_like (part ''esp'' esp_size ''vfat'' ''/boot/efi'' [''esp'', ''boot''])"
  "part_ok (part ''biosboot'' biosboot_size ''biosboot'' '''' [''bios_grub''])"
  "\<not> esp_like (part ''biosboot'' biosboot_size ''biosboot'' '''' [''bios_grub''])"
  by code_simp+

lemma device_irrelevant [simp]:
  "part_ok (p\<lparr>ps_device := dev\<rparr>) = part_ok p" "esp_like (p\<lparr>ps_device := dev\<rparr>) = esp_like p"
  "bios_like (p\<lparr>ps_device := dev\<rparr>) = bios_like p"
  by (simp_all add: part_ok_def esp_like_def bios_like_def has_flag_def)

text \<open>The first partition is the ESP or the BIOS boot partition, the others are plain, one is the root.\<close>

lemma headed_layout_ok:
  assumes head: "h = (if uefi then part ''esp'' esp_size ''vfat'' ''/boot/efi'' [''esp'', ''boot'']
      else part ''biosboot'' biosboot_size ''biosboot'' '''' [''bios_grub''])\<lparr>ps_device := dev\<rparr>"
    and ps: "partitions l = h # ps" and plain: "\<forall>p \<in> set ps. plain_part p" and root: "\<exists>p \<in> set ps. root_like p"
    and one: "fills ps \<le> 1" and bl: "boot_loader l = bootloader_for uefi" and "zfs_pools l = []"
    and total: "sum_list (map ps_size (h # ps)) \<le> to_int64 (d_size d)"
  shows "layout_ok l d"
proof -
  have h: "part_ok h" "if uefi then esp_like h \<and> \<not> bios_like h else \<not> esp_like h"
    using boot_head_parts by (cases uefi; simp add: head)+
  have "0 < ps_size h" by (simp add: head Layout_Types.part_def esp_size_def biosboot_size_def size_mb_def)
  then have fill: "fills (h # ps) \<le> 1" using one by (simp add: fills_def)
  have parts: "\<forall>p \<in> set (h # ps). part_ok p" using h(1) plain by (auto simp: plain_part_def)
  have "int64 (to_int64 (d_size d))" by simp
  then have "sum_list (map ps_size (h # ps)) \<le> max_int64" using total by (simp add: int64_def del: int64_to_int64)
  then have "wrapped_total (h # ps) = sum_list (map ps_size (h # ps))"
    using parts by (intro wrapped_total_sum) (auto simp: part_ok_def)
  then have fit: "wrapped_total (h # ps) \<le> max 0 (to_int64 (d_size d))" using total by simp
  have kinds: "\<not> ((\<exists>p \<in> set (h # ps). bios_like p) \<and> (\<exists>p \<in> set (h # ps). esp_like p))"
    using h(2) plain by (cases uefi) (auto simp: plain_part_def)
  have boot: "is_uefi_bootloader (boot_loader l) \<longrightarrow> (\<exists>p \<in> set (h # ps). esp_like p)"
    using h(2) std_bootloaders(1) unfolding bl bootloader_for_def by (cases uefi) simp_all
  show ?thesis unfolding layout_ok_def ps using parts fill root kinds boot fit assms(7) by simp
qed

lemmas layout_sizes = esp_size_def biosboot_size_def boot_small_def boot_large_def swap_small_def swap_mid_def swap_large_def
  root_mid_def root_large_def small_disk_threshold_def large_disk_threshold_def size_mb_def size_gb_def

lemma swap_size_sum:
  "sum_list (map ps_size (swap_part dev (fst (swap_size sz skip b)))) \<le>
     (if sz < small_disk_threshold then swap_small else if sz < large_disk_threshold then swap_mid else swap_large)"
  "fills (swap_part dev sw) = 0"
  by (auto simp: swap_size_fst swap_part_def Layout_Types.part_def fills_def layout_sizes)

lemma fills_append [simp]: "fills (xs @ ys) = fills xs + fills ys" "fills [] = 0"
  "fills (p # ps) = (if ps_size p = 0 then 1 else 0) + fills ps"
  by (simp_all add: fills_def)

lemma part_sizes [simp]: "ps_size (root_part dev sz) = sz" "ps_size (part a sz c e f) = sz"
  by (simp_all add: root_part_def Layout_Types.part_def)

lemma boot_partitions_split:
  "boot_partitions uefi =
    [(if uefi then part ''esp'' esp_size ''vfat'' ''/boot/efi'' [''esp'', ''boot'']
      else part ''biosboot'' biosboot_size ''biosboot'' '''' [''bios_grub''])\<lparr>ps_device := ''''\<rparr>,
     (part ''boot'' (if uefi then boot_large else boot_small) ''xfs'' ''/boot'' [])\<lparr>ps_device := ''''\<rparr>]"
  by (simp add: boot_partitions_def Layout_Types.part_def)

lemma single_disk_ok:
  assumes "7 * size_gb \<le> to_int64 (d_size d)"
  shows "layout_ok (rc_layout (single_disk d uefi skip b)) d"
proof -
  let ?sz = "to_int64 (d_size d)"
  obtain sw b2 where sw: "swap_size ?sz skip (reason (Primary_Disk (d_name d) (d_transport d) ?sz) b) = (sw, b2)"
    by (cases "swap_size ?sz skip (reason (Primary_Disk (d_name d) (d_transport d) ?sz) b)")
  define rest where "rest = (if ?sz < small_disk_threshold then [root_part '''' 0]
    else [root_part '''' (if ?sz < large_disk_threshold then root_mid else root_large), part ''scratch'' 0 ''xfs'' ''/scratch'' []])"
  have l: "rc_layout (single_disk d uefi skip b) =
      \<lparr>raid_arrays = [], zfs_pools = [], partitions = boot_partitions uefi @ swap_part '''' sw @ rest,
       boot_loader = bootloader_for uefi, target_device = d_name d\<rparr>"
    by (simp add: single_disk_def Let_def sw recommend_with_def rest_def)
  have swap: "sum_list (map ps_size (swap_part '''' sw)) \<le>
      (if ?sz < small_disk_threshold then swap_small else if ?sz < large_disk_threshold then swap_mid else swap_large)"
    using swap_size_sum(1) [of "''''" ?sz skip] sw by (metis fst_conv)
  show ?thesis unfolding l
  proof (rule headed_layout_ok [OF refl])
    show "partitions \<lparr>raid_arrays = [], zfs_pools = [], partitions = boot_partitions uefi @ swap_part '''' sw @ rest,
        boot_loader = bootloader_for uefi, target_device = d_name d\<rparr> =
      (if uefi then part ''esp'' esp_size ''vfat'' ''/boot/efi'' [''esp'', ''boot'']
       else part ''biosboot'' biosboot_size ''biosboot'' '''' [''bios_grub''])\<lparr>ps_device := ''''\<rparr> #
      (part ''boot'' (if uefi then boot_large else boot_small) ''xfs'' ''/boot'' [])\<lparr>ps_device := ''''\<rparr> # swap_part '''' sw @ rest"
      by (simp add: boot_partitions_split)
    show "\<forall>p \<in> set ((part ''boot'' (if uefi then boot_large else boot_small) ''xfs'' ''/boot'' [])\<lparr>ps_device := ''''\<rparr> #
        swap_part '''' sw @ rest). plain_part p"
      using plain_parts by (auto simp: rest_def layout_sizes)
    show "\<exists>p \<in> set ((part ''boot'' (if uefi then boot_large else boot_small) ''xfs'' ''/boot'' [])\<lparr>ps_device := ''''\<rparr> #
        swap_part '''' sw @ rest). root_like p"
      using plain_parts(5) by (auto simp: rest_def)
    show "fills ((part ''boot'' (if uefi then boot_large else boot_small) ''xfs'' ''/boot'' [])\<lparr>ps_device := ''''\<rparr> #
        swap_part '''' sw @ rest) \<le> 1"
      by (simp add: rest_def swap_size_sum layout_sizes)
    show "sum_list (map ps_size ((if uefi then part ''esp'' esp_size ''vfat'' ''/boot/efi'' [''esp'', ''boot'']
       else part ''biosboot'' biosboot_size ''biosboot'' '''' [''bios_grub''])\<lparr>ps_device := ''''\<rparr> #
      (part ''boot'' (if uefi then boot_large else boot_small) ''xfs'' ''/boot'' [])\<lparr>ps_device := ''''\<rparr> # swap_part '''' sw @ rest))
      \<le> ?sz"
      using swap assms by (auto simp: rest_def layout_sizes split: if_splits)
  qed simp_all
qed


lemma uefi_raid_ok:
  assumes "7 * size_gb \<le> to_int64 (d_size d0)" and sw: "fst (swap_size (to_int64 (d_size d0)) skip b) = sw"
  shows "layout_ok (uefi_raid_layout d0 d1 sw) d0"
proof (rule headed_layout_ok [where uefi = True and dev = "''md0''", OF refl])
  let ?ps = "(part ''boot'' boot_large ''xfs'' ''/boot'' [])\<lparr>ps_device := ''md0''\<rparr> # swap_part ''md0'' sw @ [root_part ''md0'' 0]"
  show "partitions (uefi_raid_layout d0 d1 sw) =
      (if True then part ''esp'' esp_size ''vfat'' ''/boot/efi'' [''esp'', ''boot'']
       else part ''biosboot'' biosboot_size ''biosboot'' '''' [''bios_grub''])\<lparr>ps_device := ''md0''\<rparr> # ?ps"
    by (simp add: uefi_raid_layout_def boot_partitions_split)
  show "\<forall>p \<in> set ?ps. plain_part p" using plain_parts by (auto simp: layout_sizes)
  show "\<exists>p \<in> set ?ps. root_like p" using plain_parts(5) by auto
  show "fills ?ps \<le> 1" by (simp add: swap_size_sum layout_sizes)
  show "sum_list (map ps_size ((if True then part ''esp'' esp_size ''vfat'' ''/boot/efi'' [''esp'', ''boot'']
       else part ''biosboot'' biosboot_size ''biosboot'' '''' [''bios_grub''])\<lparr>ps_device := ''md0''\<rparr> # ?ps)) \<le> to_int64 (d_size d0)"
    using swap_size_sum(1) [of "''md0''" "to_int64 (d_size d0)" skip b] assms
    by (auto simp: layout_sizes split: if_splits)
qed (simp_all add: uefi_raid_layout_def)

lemma bios_raid_ok:
  assumes "7 * size_gb \<le> to_int64 (d_size d0)" and sw: "fst (swap_size (to_int64 (d_size d0)) skip b) = sw"
  shows "layout_ok (bios_raid_layout d0 d1 sw) d0"
proof (rule headed_layout_ok [where uefi = False and dev = "''''", OF refl])
  let ?boot = "if to_int64 (d_size d0) \<ge> small_disk_threshold then boot_large else boot_small"
  let ?ps = "(part ''boot'' ?boot ''xfs'' ''/boot'' [])\<lparr>ps_device := ''md0''\<rparr> # swap_part ''md1'' sw @ [root_part ''md2'' 0]"
  show "partitions (bios_raid_layout d0 d1 sw) =
      (if False then part ''esp'' esp_size ''vfat'' ''/boot/efi'' [''esp'', ''boot'']
       else part ''biosboot'' biosboot_size ''biosboot'' '''' [''bios_grub''])\<lparr>ps_device := ''''\<rparr> # ?ps"
    by (simp add: bios_raid_layout_def Let_def Layout_Types.part_def)
  show "\<forall>p \<in> set ?ps. plain_part p" using plain_parts by (auto simp: layout_sizes)
  show "\<exists>p \<in> set ?ps. root_like p" using plain_parts(5) by auto
  show "fills ?ps \<le> 1" by (simp add: swap_size_sum layout_sizes)
  show "sum_list (map ps_size ((if False then part ''esp'' esp_size ''vfat'' ''/boot/efi'' [''esp'', ''boot'']
       else part ''biosboot'' biosboot_size ''biosboot'' '''' [''bios_grub''])\<lparr>ps_device := ''''\<rparr> # ?ps)) \<le> to_int64 (d_size d0)"
    using swap_size_sum(1) [of "''md1''" "to_int64 (d_size d0)" skip b] assms
    by (auto simp: layout_sizes split: if_splits)
qed (simp_all add: bios_raid_layout_def Let_def)

lemma two_identical_ok:
  assumes "7 * size_gb \<le> to_int64 (d_size d0)"
  shows "layout_ok (rc_layout (two_identical_disks d0 d1 uefi skip b)) d0"
proof -
  let ?b = "reason (Raid_Members (d_name d0) (to_int64 (d_size d0)) (d_name d1) (to_int64 (d_size d1))) b"
  obtain sw b2 where "swap_size (to_int64 (d_size d0)) skip ?b = (sw, b2)" by fastforce
  then show ?thesis using uefi_raid_ok [OF assms, of skip ?b sw d1] bios_raid_ok [OF assms, of skip ?b sw d1]
    by (simp add: two_identical_disks_def Let_def recommend_with_def)
qed

text \<open>
  Where one disk, or a pair of equal ones, is used (no mix of NVMe and SATA, at most four candidates), and
  every candidate has at least 7 GiB, the recommended layout validates for the smallest of them.
\<close>

theorem recommend_validates:
  assumes "size_sort srt" and "recommend srt hw fw = Inr rc"
    and "ds = candidate_disks srt hw" and "\<forall>d \<in> set ds. 7 * size_gb \<le> to_int64 (d_size d)"
    and "length ds = 2 \<and> identical_size (ds ! 0) (ds ! 1) \<or> length ds = 1 \<or>
      \<not> has_mixed_nvme_sata ds \<and> length ds \<le> many_disks_threshold"
  shows "valid (validate_layout (rc_layout rc) (hd ds))"
proof -
  have ne: "ds \<noteq> []" using assms(2,3) by (auto simp: recommend_cases split: if_splits)
  then have big: "7 * size_gb \<le> to_int64 (d_size (hd ds))" using assms(4) by simp
  have first: "smallest_disk ds = Some (hd ds)" using size_sort.smallest_first [OF assms(1)] ne assms(3) by simp
  obtain uefi skip b where "dispatch ds uefi skip b = Inr rc"
    using assms(2) unfolding recommend_cases assms(3) [symmetric] by (auto split: if_splits)
  then have "layout_ok (rc_layout rc) (hd ds)"
    using assms(5) ne single_disk_ok [OF big] two_identical_ok [OF big] first
    by (auto simp: dispatch_def hd_conv_nth split: if_splits)
  then show ?thesis by (simp add: valid_layout_ok)
qed

lemma usb_node_facts:
  "candidate_disks (sort_key d_size) usb_node = [example_disk]"
  "recommend (sort_key d_size) usb_node '''' =
     Inr (single_disk example_disk False False \<lparr>bd_reasons = [Dmi_Bios], bd_warnings = []\<rparr>)"
proof -
  have e: "eligible example_disk" "\<not> eligible usb_disk" by code_simp+
  then show c: "candidate_disks (sort_key d_size) usb_node = [example_disk]" by (simp add: candidate_disks_def usb_node_def)
  have "choose_firmware usb_node '''' \<lparr>bd_reasons = [], bd_warnings = []\<rparr> =
      (False, \<lparr>bd_reasons = [Dmi_Bios], bd_warnings = []\<rparr>)" by code_simp
  moreover have "\<not> high_ram_threshold \<le> ram_bytes usb_node" by code_simp
  ultimately show "recommend (sort_key d_size) usb_node '''' =
      Inr (single_disk example_disk False False \<lparr>bd_reasons = [Dmi_Bios], bd_warnings = []\<rparr>)"
    using c by (simp add: recommend_cases dispatch_def usb_node_def)
qed

lemma recommend_validates_witness:
  "valid (validate_layout (rc_layout (single_disk example_disk False False \<lparr>bd_reasons = [Dmi_Bios], bd_warnings = []\<rparr>)) example_disk)"
  using recommend_validates [OF insertion.size_sort_axioms usb_node_facts(2) refl]
  by (simp add: usb_node_facts(1) example_disk_def to_int64_def size_gb_def)

section \<open>Which recommendations do not\<close>

lemma fills_parts: "p \<in> set ps \<Longrightarrow> ps_size p = 0 \<Longrightarrow> 0 < fills ps"
  by (auto simp: fills_def filter_empty_conv)

lemma sata_parts_fills: "fills (fst (sata_parts n i ds b)) = length ds"
  by (induction n i ds b rule: sata_parts.induct) (auto simp: Let_def split: prod.splits)

lemma extra_parts_fills: "fills (fst (extra_parts primary idx ds b)) = length (filter (\<lambda>d. d_name d \<noteq> primary) ds)"
  by (induction primary idx ds b rule: extra_parts.induct) (auto simp: Let_def split: prod.splits)

text \<open>
  Where several disks get a partition of their own, the recommended layout never validates: a mix of NVMe
  and SATA disks, or five candidates and more under distinct names, gives several partitions that fill the
  rest, whatever the disk, so the layout override refuses what the recommendation offers.
\<close>

theorem recommend_several_rejected:
  assumes "recommend srt hw fw = Inr rc" and "ds = candidate_disks srt hw" and "1 < length ds"
    and "\<not> (length ds = 2 \<and> identical_size (ds ! 0) (ds ! 1))"
    and "has_mixed_nvme_sata ds \<or> many_disks_threshold < length ds \<and> distinct (map d_name ds)"
  shows "\<not> valid (validate_layout (rc_layout rc) d)"
proof -
  obtain uefi skip b where disp: "dispatch ds uefi skip b = Inr rc"
    using assms(1,3) unfolding recommend_cases assms(2) [symmetric] by (auto split: if_splits)
  have "2 \<le> fills (partitions (rc_layout rc))"
  proof (cases "has_mixed_nvme_sata ds")
    case True
    let ?sata = "filter (\<lambda>d. \<not> equal_fold (d_transport d) ''nvme'') ds"
    have "?sata \<noteq> []" using mixed_has_sata [OF True] .
    moreover from disp True assms(3,4) have "nvme_sata_layout ds uefi skip (reason Mixed_Topology b) = Inr rc"
      by (auto simp: dispatch_def split: if_splits)
    then have "fills (partitions (rc_layout rc)) \<ge> 1 + length ?sata"
      by (cases rule: nvme_sata_shape) (simp add: sata_parts_fills)
    ultimately show ?thesis by (cases ?sata) auto
  next
    case False
    then have many: "many_disks_threshold < length ds" "distinct (map d_name ds)" using assms(5) by auto
    then have "many_disks ds uefi skip (reason (Many_Candidates (length ds)) b) = Inr rc"
      using disp False by (auto simp: dispatch_def many_disks_threshold_def split: if_splits)
    then have "\<exists>primary :: disk. 1 + length (filter (\<lambda>d. d_name d \<noteq> d_name primary) ds) \<le> fills (partitions (rc_layout rc))"
    proof (cases rule: many_disks_shape)
      case (1 primary sw b2)
      then show ?thesis by (intro exI [of _ primary]) (simp add: extra_parts_fills)
    qed
    then obtain primary :: disk where "1 + length (filter (\<lambda>d. d_name d \<noteq> d_name primary) ds) \<le> fills (partitions (rc_layout rc))"
      by blast
    moreover have "filter (\<lambda>d. d_name d \<noteq> d_name primary) ds \<noteq> []"
    proof
      assume "filter (\<lambda>d. d_name d \<noteq> d_name primary) ds = []"
      then have "set (map d_name ds) \<subseteq> {d_name primary}" by (auto simp: filter_empty_conv)
      then have "card (set (map d_name ds)) \<le> 1" by (metis card_mono finite.emptyI finite.insertI is_singletonI is_singleton_altdef)
      moreover have "card (set (map d_name ds)) = length ds" using distinct_card [OF many(2)] by simp
      ultimately show False using many(1) by (simp add: many_disks_threshold_def)
    qed
    ultimately show ?thesis by (cases "filter (\<lambda>d. d_name d \<noteq> d_name primary) ds") auto
  qed
  then show ?thesis by (auto simp: valid_layout_ok layout_ok_def)
qed


definition nvme_disk :: disk where
  "nvme_disk = \<lparr>d_name = ''nvme0n1'', d_size = 512000000000, d_transport = ''NVMe'', d_rotational = False, d_partitions = []\<rparr>"

definition mixed_node :: system_info where
  "mixed_node = \<lparr>si_disks = [example_disk, nvme_disk], si_total_kb = 67108864, si_bios_vendor = ''EFI'', si_bios_version = ''''\<rparr>"

lemma mixed_node_facts:
  "candidate_disks (sort_key d_size) mixed_node = [example_disk, nvme_disk]"
  "has_mixed_nvme_sata [example_disk, nvme_disk]" "\<not> identical_size example_disk nvme_disk"
proof -
  have "eligible example_disk" "eligible nvme_disk" by code_simp+
  then show "candidate_disks (sort_key d_size) mixed_node = [example_disk, nvme_disk]"
    by (simp add: candidate_disks_def mixed_node_def) (simp add: example_disk_def nvme_disk_def)
  show "has_mixed_nvme_sata [example_disk, nvme_disk]" by code_simp
  show "\<not> identical_size example_disk nvme_disk" by code_simp
qed

lemma recommend_several_rejected_witness:
  "\<exists>rc. recommend (sort_key d_size) mixed_node '''' = Inr rc \<and> \<not> valid (validate_layout (rc_layout rc) nvme_disk)"
proof -
  have "si_disks mixed_node \<noteq> []" by (simp add: mixed_node_def)
  then obtain rc where rc: "recommend (sort_key d_size) mixed_node '''' = Inr rc"
    using recommend_returns [of mixed_node "sort_key d_size" "''''"] by (auto simp: mixed_node_facts)
  moreover have "\<not> valid (validate_layout (rc_layout rc) nvme_disk)"
    by (rule recommend_several_rejected [OF rc refl]) (use mixed_node_facts in simp_all)
  ultimately show ?thesis by blast
qed

text \<open>
  On a BIOS node with at least 64 GiB of memory and two equal disks the recommended layout puts the root
  file system on an array that it does not define: the swap array is left out and the root array gets its
  name, md1, while the root partition still names md2.
\<close>

theorem raid_without_swap_misnamed:
  assumes "recommend srt hw fw = Inr rc" and "to_lower fw = ''bios''" and "candidate_disks srt hw = [d0, d1]"
    and "identical_size d0 d1" and "high_ram_threshold \<le> ram_bytes hw"
  shows "(\<exists>p \<in> set (partitions (rc_layout rc)). root_like p \<and> ps_device p = ''md2'') \<and>
    map rd_name (raid_arrays (rc_layout rc)) = [''md0'', ''md1'']"
proof -
  have "rc_layout rc = bios_raid_layout d0 d1 0"
    using assms by (auto simp: recommend_cases dispatch_def choose_firmware_def two_identical_disks_def swap_size_def
        recommend_with_def Let_def split: if_splits)
  moreover have "partitions (bios_raid_layout d0 d1 0) =
      [part ''biosboot'' biosboot_size ''biosboot'' '''' [''bios_grub''],
       (part ''boot'' (if to_int64 (d_size d0) \<ge> small_disk_threshold then boot_large else boot_small) ''xfs'' ''/boot'' [])
         \<lparr>ps_device := ''md0''\<rparr>, root_part ''md2'' 0]"
    by (simp add: bios_raid_layout_def Let_def swap_part_def)
  moreover have "dec_nat (length [raid1 ''md0'' [part_name d0 2, part_name d1 2]]) = ''1''" by code_simp
  then have "map rd_name (raid_arrays (bios_raid_layout d0 d1 0)) = [''md0'', ''md1'']"
    by (simp add: bios_raid_layout_def Let_def raid1_def)
  ultimately show ?thesis using plain_parts(5) [of "''md2''" 0] boot_swap_devices(3) [of "''md2''" 0] by simp
qed

definition big_ram_node :: system_info where
  "big_ram_node = \<lparr>si_disks = [example_disk, example_disk\<lparr>d_name := ''sdb''\<rparr>], si_total_kb = 67108864,
     si_bios_vendor = '''', si_bios_version = ''''\<rparr>"

lemma raid_without_swap_misnamed_witness:
  "\<exists>rc. recommend (sort_key d_size) big_ram_node ''BIOS'' = Inr rc \<and>
    (\<exists>p \<in> set (partitions (rc_layout rc)). root_like p \<and> ps_device p = ''md2'') \<and>
    map rd_name (raid_arrays (rc_layout rc)) = [''md0'', ''md1'']"
proof -
  have "eligible example_disk" "eligible (example_disk\<lparr>d_name := ''sdb''\<rparr>)" by code_simp+
  then have c: "candidate_disks (sort_key d_size) big_ram_node = [example_disk, example_disk\<lparr>d_name := ''sdb''\<rparr>]"
    by (simp add: candidate_disks_def big_ram_node_def)
  have "si_disks big_ram_node \<noteq> []" by (simp add: big_ram_node_def)
  then obtain rc where rc: "recommend (sort_key d_size) big_ram_node ''BIOS'' = Inr rc"
    using recommend_returns [of big_ram_node "sort_key d_size" "''BIOS''"] by (auto simp: c)
  have lower: "to_lower ''BIOS'' = ''bios''" by code_simp
  have same: "identical_size example_disk (example_disk\<lparr>d_name := ''sdb''\<rparr>)"
    by (simp add: identical_size_def go_quot_def to_int64_def example_disk_def Let_def int64_def min_int64_def max_int64_def)
  have ram: "high_ram_threshold \<le> ram_bytes big_ram_node"
    by (simp add: ram_bytes_def big_ram_node_def to_int64_def high_ram_threshold_def size_gb_def int64_def
        min_int64_def max_int64_def)
  show ?thesis by (rule exI [of _ rc], rule conjI [OF rc], rule raid_without_swap_misnamed [OF rc lower c same ram])
qed

end
