(* ===== verification/Reimage_State.thy ===== *)
theory Reimage_State
  imports Layout_Types
begin

text \<open>
  The tables behind reimaging and their operations (\<open>internal/db/db.go\<close>), the life-cycle state of a node
  (\<open>NodeConfig.State\<close>, \<open>pkg/api/types.go\<close>) and what the PXE server answers to it
  (\<open>internal/server/handlers/boot.go\<close>). A table is the list of its rows. Each call of the database takes
  the answer of the driver, \<open>Some e\<close> when it fails with \<open>e\<close>. Times are seconds.
\<close>

section \<open>Rows\<close>

datatype reimage_status = Pending | Triggered | In_Progress | Complete | Failed | Canceled

fun is_terminal :: "reimage_status \<Rightarrow> bool" where
  "is_terminal Complete = True"
| "is_terminal Failed = True"
| "is_terminal Canceled = True"
| "is_terminal _ = False"

datatype db_error = Db_Error string | Not_Found | Not_Terminal

datatype provider_error = Unknown_Type string | Factory_Error string | No_Provider

text \<open>The error message of a request: a text, or the text of an error.\<close>

datatype rq_message = Msg string | Db_Msg db_error | Provider_Msg provider_error | Was_In reimage_status

record request =
  rq_id :: string
  rq_node :: string
  rq_image :: string
  rq_status :: reimage_status
  rq_scheduled :: "int option"
  rq_triggered :: "int option"
  rq_started :: "int option"
  rq_completed :: "int option"
  rq_error :: rq_message
  rq_dry :: bool
  rq_bios :: bool
  rq_created :: int
  rq_exit :: "(int \<times> string \<times> string) option"

record provider_config =
  pc_type :: string
  pc_fields :: "(string \<times> string) list"

record bmc_config =
  bmc_ip :: string
  bmc_user :: string
  bmc_password :: string

record node_row =
  nr_id :: string
  nr_mac :: string
  nr_image :: string
  nr_keys :: "string list"
  nr_pending :: bool
  nr_failed_at :: "int option"
  nr_completed :: "int option"
  nr_verified :: "int option"
  nr_timeout :: "int option"
  nr_override :: "int option"
  nr_ldap_ready :: "bool option"
  nr_seen :: "int option"
  nr_mode :: string
  nr_power :: "provider_config option"
  nr_bmc :: "bmc_config option"

record group_job =
  gj_id :: string
  gj_group :: string
  gj_image :: string
  gj_concurrency :: int
  gj_pause_pct :: int
  gj_status :: string
  gj_total :: nat
  gj_triggered :: nat
  gj_succeeded :: nat
  gj_failed :: nat
  gj_error :: string

record rdb =
  nodes :: "node_row list"
  requests :: "request list"
  jobs :: "group_job list"

type_synonym answer = "string option"

section \<open>Operations on nodes\<close>

definition find_node :: "string \<Rightarrow> rdb \<Rightarrow> node_row option" where
  "find_node nid db = find (\<lambda>n. nr_id n = nid) (nodes db)"

definition get_node :: "answer \<Rightarrow> string \<Rightarrow> rdb \<Rightarrow> db_error + node_row" where
  "get_node a nid db =
     (case a of Some e \<Rightarrow> Inl (Db_Error e)
      | None \<Rightarrow> (case find_node nid db of None \<Rightarrow> Inl Not_Found | Some n \<Rightarrow> Inr n))"

text \<open>An UPDATE of the row of a node that must affect one row.\<close>

definition update_node :: "answer \<Rightarrow> string \<Rightarrow> (node_row \<Rightarrow> node_row) \<Rightarrow> rdb \<Rightarrow> db_error option \<times> rdb" where
  "update_node a nid f db =
     (case a of Some e \<Rightarrow> (Some (Db_Error e), db)
      | None \<Rightarrow>
          (if find_node nid db = None then (Some Not_Found, db)
           else (None, db\<lparr>nodes := map (\<lambda>n. if nr_id n = nid then f n else n) (nodes db)\<rparr>)))"

definition set_reimage_pending :: "answer \<Rightarrow> string \<Rightarrow> bool \<Rightarrow> rdb \<Rightarrow> db_error option \<times> rdb" where
  "set_reimage_pending a nid b = update_node a nid (\<lambda>n. n\<lparr>nr_pending := b\<rparr>)"

definition assign_image :: "answer \<Rightarrow> string \<Rightarrow> string \<Rightarrow> rdb \<Rightarrow> db_error option \<times> rdb" where
  "assign_image a nid img = update_node a nid (\<lambda>n. n\<lparr>nr_image := img\<rparr>)"

definition record_deploy_succeeded :: "answer \<Rightarrow> int \<Rightarrow> string \<Rightarrow> rdb \<Rightarrow> db_error option \<times> rdb" where
  "record_deploy_succeeded a now nid =
     update_node a nid (\<lambda>n. n\<lparr>nr_completed := Some now, nr_verified := None, nr_timeout := None, nr_pending := False\<rparr>)"

definition record_deploy_failed :: "answer \<Rightarrow> int \<Rightarrow> string \<Rightarrow> rdb \<Rightarrow> db_error option \<times> rdb" where
  "record_deploy_failed a now nid = update_node a nid (\<lambda>n. n\<lparr>nr_failed_at := Some now\<rparr>)"

definition record_verify_timeout :: "answer \<Rightarrow> int \<Rightarrow> string \<Rightarrow> rdb \<Rightarrow> db_error option \<times> rdb" where
  "record_verify_timeout a now nid = update_node a nid (\<lambda>n. n\<lparr>nr_timeout := Some now\<rparr>)"

definition record_ldap_ready :: "answer \<Rightarrow> string \<Rightarrow> bool \<Rightarrow> rdb \<Rightarrow> db_error option \<times> rdb" where
  "record_ldap_ready a nid b = update_node a nid (\<lambda>n. n\<lparr>nr_ldap_ready := Some b\<rparr>)"

text \<open>\<open>RecordVerifyBooted\<close>: one query and one update; the heartbeat update is not checked for its row.\<close>

definition record_verify_booted :: "answer \<Rightarrow> answer \<Rightarrow> int \<Rightarrow> string \<Rightarrow> rdb \<Rightarrow> (db_error + bool) \<times> rdb" where
  "record_verify_booted q u now nid db =
     (case get_node q nid db of
        Inl e \<Rightarrow> (Inl e, db)
      | Inr n \<Rightarrow>
          (case nr_verified n of
             Some _ \<Rightarrow>
               (case update_node u nid (\<lambda>n. n\<lparr>nr_seen := Some now\<rparr>) db of
                  (Some e, db) \<Rightarrow> (Inl e, db) | (None, db) \<Rightarrow> (Inr False, db))
           | None \<Rightarrow>
               (case update_node u nid (\<lambda>n. n\<lparr>nr_verified := Some now, nr_seen := Some now\<rparr>) db of
                  (Some e, db) \<Rightarrow> (Inl e, db) | (None, db) \<Rightarrow> (Inr True, db))))"

definition awaiting_verification :: "int \<Rightarrow> rdb \<Rightarrow> node_row list" where
  "awaiting_verification now db =
     filter (\<lambda>n. (case nr_completed n of None \<Rightarrow> False | Some t \<Rightarrow> t \<le> now) \<and> nr_verified n = None \<and>
       nr_timeout n = None \<and> \<not> nr_pending n) (nodes db)"

section \<open>Operations on requests\<close>

definition create_request :: "answer \<Rightarrow> request \<Rightarrow> rdb \<Rightarrow> db_error option \<times> rdb" where
  "create_request a r db =
     (case a of Some e \<Rightarrow> (Some (Db_Error e), db)
      | None \<Rightarrow>
          (if \<exists>q \<in> set (requests db). rq_id q = rq_id r then (Some (Db_Error ''UNIQUE constraint failed''), db)
           else (None, db\<lparr>requests := requests db @ [r]\<rparr>)))"

definition find_request :: "string \<Rightarrow> rdb \<Rightarrow> request option" where
  "find_request rid db = find (\<lambda>r. rq_id r = rid) (requests db)"

definition get_request :: "answer \<Rightarrow> string \<Rightarrow> rdb \<Rightarrow> db_error + request" where
  "get_request a rid db =
     (case a of Some e \<Rightarrow> Inl (Db_Error e)
      | None \<Rightarrow> (case find_request rid db of None \<Rightarrow> Inl Not_Found | Some r \<Rightarrow> Inr r))"

definition stamp :: "reimage_status \<Rightarrow> rq_message \<Rightarrow> int \<Rightarrow> request \<Rightarrow> request" where
  "stamp s msg now r =
     (let r = r\<lparr>rq_status := s, rq_error := msg\<rparr> in
      case s of
        Triggered \<Rightarrow> r\<lparr>rq_triggered := Some now\<rparr>
      | In_Progress \<Rightarrow> r\<lparr>rq_started := Some now\<rparr>
      | Complete \<Rightarrow> r\<lparr>rq_completed := Some now\<rparr>
      | Failed \<Rightarrow> r\<lparr>rq_completed := Some now\<rparr>
      | Canceled \<Rightarrow> r\<lparr>rq_completed := Some now\<rparr>
      | Pending \<Rightarrow> r\<lparr>rq_triggered := Some now\<rparr>)"

definition update_request :: "answer \<Rightarrow> string \<Rightarrow> (request \<Rightarrow> request) \<Rightarrow> rdb \<Rightarrow> db_error option \<times> rdb" where
  "update_request a rid f db =
     (case a of Some e \<Rightarrow> (Some (Db_Error e), db)
      | None \<Rightarrow>
          (if find_request rid db = None then (Some Not_Found, db)
           else (None, db\<lparr>requests := map (\<lambda>r. if rq_id r = rid then f r else r) (requests db)\<rparr>)))"

definition update_status :: "answer \<Rightarrow> string \<Rightarrow> reimage_status \<Rightarrow> rq_message \<Rightarrow> int \<Rightarrow> rdb \<Rightarrow> db_error option \<times> rdb" where
  "update_status a rid s msg now = update_request a rid (stamp s msg now)"

definition update_failed :: "answer \<Rightarrow> string \<Rightarrow> string \<Rightarrow> int \<times> string \<times> string \<Rightarrow> int \<Rightarrow> rdb \<Rightarrow> db_error option \<times> rdb" where
  "update_failed a rid msg detail now =
     update_request a rid (\<lambda>r. r\<lparr>rq_status := Failed, rq_error := Msg msg, rq_completed := Some now, rq_exit := Some detail\<rparr>)"

definition close_active :: "answer \<Rightarrow> string \<Rightarrow> reimage_status \<Rightarrow> string \<Rightarrow> int \<Rightarrow> rdb \<Rightarrow> (db_error + nat) \<times> rdb" where
  "close_active a nid s msg now db =
     (if \<not> is_terminal s then (Inl Not_Terminal, db)
      else case a of Some e \<Rightarrow> (Inl (Db_Error e), db)
      | None \<Rightarrow>
          (Inr (length (filter (\<lambda>r. rq_node r = nid \<and> \<not> is_terminal (rq_status r)) (requests db))),
           db\<lparr>requests := map (\<lambda>r. if rq_node r = nid \<and> \<not> is_terminal (rq_status r)
                then r\<lparr>rq_status := s, rq_error := Msg msg, rq_completed := Some now\<rparr> else r) (requests db)\<rparr>))"

text \<open>
  \<open>ORDER BY created_at DESC LIMIT 1\<close> leaves open which of the newest rows is returned: the choice is an
  argument of the definitions.
\<close>

definition active_request :: "(request list \<Rightarrow> request) \<Rightarrow> answer \<Rightarrow> string \<Rightarrow> rdb \<Rightarrow> db_error + request option" where
  "active_request newest a nid db =
     (case a of Some e \<Rightarrow> Inl (Db_Error e)
      | None \<Rightarrow>
          (let rs = filter (\<lambda>r. rq_node r = nid \<and> \<not> is_terminal (rq_status r)) (requests db) in
           Inr (if rs = [] then None else Some (newest rs))))"

text \<open>The requests the scheduler is to trigger; \<open>by_time\<close> sorts by the scheduled time.\<close>

definition due_requests :: "(request list \<Rightarrow> request list) \<Rightarrow> answer \<Rightarrow> int \<Rightarrow> rdb \<Rightarrow> db_error + request list" where
  "due_requests by_time a before db =
     (case a of Some e \<Rightarrow> Inl (Db_Error e)
      | None \<Rightarrow> Inr (by_time (filter (\<lambda>r. rq_status r = Pending \<and>
          (case rq_scheduled r of None \<Rightarrow> False | Some t \<Rightarrow> t \<le> before)) (requests db))))"

text \<open>\<open>CancelAllActiveReimages\<close>; the failure to clear a flag is ignored, node by node.\<close>

definition cancel_all :: "answer \<Rightarrow> answer \<Rightarrow> (string \<Rightarrow> answer) \<Rightarrow> string \<Rightarrow> int \<Rightarrow> rdb \<Rightarrow> (db_error + nat) \<times> rdb" where
  "cancel_all q u clear msg now db =
     (case q of Some e \<Rightarrow> (Inl (Db_Error e), db)
      | None \<Rightarrow>
          (let ids = remdups (map rq_node (filter (\<lambda>r. \<not> is_terminal (rq_status r)) (requests db))) in
           case u of Some e \<Rightarrow> (Inl (Db_Error e), db)
           | None \<Rightarrow>
               (Inr (length (filter (\<lambda>r. \<not> is_terminal (rq_status r)) (requests db))),
                fold (\<lambda>nid db. snd (set_reimage_pending (clear nid) nid False db)) ids
                  (db\<lparr>requests := map (\<lambda>r. if \<not> is_terminal (rq_status r)
                     then r\<lparr>rq_status := Canceled, rq_error := Msg msg, rq_completed := Some now\<rparr> else r) (requests db)\<rparr>))))"

section \<open>State of a node and boot routing\<close>

datatype node_state = Registered | Configured | Reimage_Pending | Deploy_Failed | Deployed_Preboot | Deployed_Verified
  | Verify_Timeout | Ldap_Failed

definition node_state :: "node_row \<Rightarrow> node_state" where
  "node_state n =
     (if nr_pending n then Reimage_Pending
      else if (case nr_failed_at n of None \<Rightarrow> False
          | Some f \<Rightarrow> (case nr_completed n of None \<Rightarrow> True | Some c \<Rightarrow> c < f)) then Deploy_Failed
      else if nr_verified n \<noteq> None then (if nr_ldap_ready n = Some False then Ldap_Failed else Deployed_Verified)
      else if nr_timeout n \<noteq> None then Verify_Timeout
      else if nr_completed n \<noteq> None then Deployed_Preboot
      else if nr_image n \<noteq> '''' then Configured
      else Registered)"

datatype boot_answer = Stateless_Script | Not_Wired string | Disk_Boot | Wait_Retry | Deploy_Script

definition boot_route :: "node_row \<Rightarrow> boot_answer" where
  "boot_route n =
     (let mode = (if nr_mode n = '''' then ''block_install'' else nr_mode n) in
      if mode = ''stateless_nfs'' then Stateless_Script
      else if mode = ''filesystem_install'' \<or> mode = ''stateless_ram'' then Not_Wired mode
      else
        (case node_state n of
           Deployed_Verified \<Rightarrow> Disk_Boot
         | Ldap_Failed \<Rightarrow> Disk_Boot
         | Deployed_Preboot \<Rightarrow> Disk_Boot
         | Verify_Timeout \<Rightarrow> Disk_Boot
         | s \<Rightarrow> if s = Reimage_Pending \<and> nr_image n = '''' then Wait_Retry else Deploy_Script))"

text \<open>
  \<open>ServeIPXEScript\<close> for a MAC address (not empty): the menu item that forces a reimage, the look-up and the
  route. An unknown address registers a node with a fresh id; it and a failing look-up get the deploy script.
\<close>

definition find_mac :: "string \<Rightarrow> rdb \<Rightarrow> node_row option" where
  "find_mac mac db = find (\<lambda>n. nr_mac n = mac) (nodes db)"

definition new_node :: "string \<Rightarrow> string \<Rightarrow> node_row" where
  "new_node nid mac =
     \<lparr>nr_id = nid, nr_mac = mac, nr_image = '''', nr_keys = [], nr_pending = False, nr_failed_at = None,
       nr_completed = None, nr_verified = None, nr_timeout = None, nr_override = None, nr_ldap_ready = None,
       nr_seen = None, nr_mode = ''block_install'', nr_power = None, nr_bmc = None\<rparr>"

definition force_reimage :: "answer \<Rightarrow> answer \<Rightarrow> string \<Rightarrow> rdb \<Rightarrow> rdb" where
  "force_reimage q u mac db =
     (if q \<noteq> None then db
      else
        (case find_mac mac db of
           Some n \<Rightarrow> if nr_image n \<noteq> '''' then snd (set_reimage_pending u (nr_id n) True db) else db
         | None \<Rightarrow> db))"

definition serve_ipxe :: "answer \<Rightarrow> answer \<Rightarrow> answer \<Rightarrow> answer \<Rightarrow> string \<Rightarrow> string \<Rightarrow> bool \<Rightarrow> rdb \<Rightarrow> boot_answer \<times> rdb" where
  "serve_ipxe q1 u q2 ins fresh mac force db =
     (let db = (if force then force_reimage q1 u mac db else db) in
      if q2 \<noteq> None then (Deploy_Script, db)
      else
        (case find_mac mac db of
           Some n \<Rightarrow> (boot_route n, db)
         | None \<Rightarrow> (Deploy_Script, if ins = None then db\<lparr>nodes := nodes db @ [new_node fresh mac]\<rparr> else db)))"

end
