(* ===== verification/Reimage.thy ===== *)
theory Reimage
  imports Reimage_State
begin

text \<open>
  The life of a reimage request: the trigger and the scheduler (\<open>internal/reimage/orchestrator.go\<close>), the
  handlers of the API (\<open>internal/server/handlers/reimage.go\<close>), the reports of the nodes
  (\<open>internal/server/handlers/nodes.go\<close>) and the background workers (\<open>internal/server\<close>). A handler runs
  as a whole; every call of the database or of the power provider may fail. One clock reading \<open>now\<close> serves
  all calls of a handler.
\<close>

section \<open>The trigger\<close>

text \<open>A power provider; the result of \<open>SetNextBoot\<close> is only logged, the power cycle can fail.\<close>

record provider =
  power_cycle :: answer

type_synonym registry = "string \<Rightarrow> (provider_config \<Rightarrow> string + provider) option"

definition create_provider :: "registry \<Rightarrow> provider_config \<Rightarrow> provider_error + provider" where
  "create_provider reg cfg =
     (case reg (pc_type cfg) of
        None \<Rightarrow> Inl (Unknown_Type (pc_type cfg))
      | Some factory \<Rightarrow> (case factory cfg of Inl e \<Rightarrow> Inl (Factory_Error e) | Inr p \<Rightarrow> Inr p))"

definition resolve_bmc :: "registry \<Rightarrow> node_row \<Rightarrow> provider_error + provider" where
  "resolve_bmc reg n =
     (case nr_bmc n of
        Some b \<Rightarrow>
          if bmc_ip b \<noteq> '''' then
            create_provider reg \<lparr>pc_type = ''ipmi'',
              pc_fields = [(''host'', bmc_ip b), (''username'', bmc_user b), (''password'', bmc_password b)]\<rparr>
          else Inl No_Provider
      | None \<Rightarrow> Inl No_Provider)"

definition resolve_provider :: "registry \<Rightarrow> node_row \<Rightarrow> provider_error + provider" where
  "resolve_provider reg n =
     (case nr_power n of
        Some c \<Rightarrow> if pc_type c \<noteq> '''' then create_provider reg c else resolve_bmc reg n
      | None \<Rightarrow> resolve_bmc reg n)"

text \<open>The answers of the calls of one trigger.\<close>

record trigger_io =
  ti_request :: answer
  ti_node :: answer
  ti_assign :: answer
  ti_pending :: answer
  ti_mark :: answer

datatype trigger_error = Load_Request db_error | Load_Node db_error | Resolve_Provider provider_error
  | Assign_Image db_error | Set_Pending db_error | Power_Cycle string

definition mark_failed :: "trigger_io \<Rightarrow> string \<Rightarrow> rq_message \<Rightarrow> int \<Rightarrow> rdb \<Rightarrow> rdb" where
  "mark_failed io rid msg now db = snd (update_status (ti_mark io) rid Failed msg now db)"

definition trigger :: "registry \<Rightarrow> trigger_io \<Rightarrow> int \<Rightarrow> string \<Rightarrow> rdb \<Rightarrow> trigger_error option \<times> rdb" where
  "trigger reg io now rid db =
     (case get_request (ti_request io) rid db of
        Inl e \<Rightarrow> (Some (Load_Request e), db)
      | Inr req \<Rightarrow>
     (case get_node (ti_node io) (rq_node req) db of
        Inl e \<Rightarrow> (Some (Load_Node e), db)
      | Inr n \<Rightarrow>
     (case resolve_provider reg n of
        Inl e \<Rightarrow> (Some (Resolve_Provider e), mark_failed io rid (Provider_Msg e) now db)
      | Inr p \<Rightarrow>
     (case assign_image (ti_assign io) (nr_id n) (rq_image req) db of
        (Some e, db) \<Rightarrow> (Some (Assign_Image e), mark_failed io rid (Db_Msg e) now db)
      | (None, db) \<Rightarrow>
     (case set_reimage_pending (ti_pending io) (nr_id n) True db of
        (Some e, db) \<Rightarrow> (Some (Set_Pending e), mark_failed io rid (Db_Msg e) now db)
      | (None, db) \<Rightarrow>
     (case (if rq_dry req then None else power_cycle p) of
        Some e \<Rightarrow> (Some (Power_Cycle e), mark_failed io rid (Msg (''PowerCycle failed: '' @ e)) now db)
      | None \<Rightarrow> (None, snd (update_status (ti_mark io) rid Triggered (Msg '''') now db))))))))"

text \<open>One tick of the scheduler; \<open>maxc\<close> is the limit of the environment, the answers are per request.\<close>

fun trigger_each :: "registry \<Rightarrow> (string \<Rightarrow> trigger_io) \<Rightarrow> (string \<Rightarrow> int) \<Rightarrow> string list \<Rightarrow> rdb \<Rightarrow> rdb" where
  "trigger_each reg io clock [] db = db"
| "trigger_each reg io clock (rid # rids) db =
     trigger_each reg io clock rids (snd (trigger reg (io rid) (clock rid) rid db))"

definition default_max_concurrent :: int where
  "default_max_concurrent = 20"

definition max_concurrent :: "string \<Rightarrow> int" where
  "max_concurrent env =
     (if env \<noteq> '''' then (case atoi env of Some n \<Rightarrow> if n > 0 then n else default_max_concurrent
        | None \<Rightarrow> default_max_concurrent)
      else default_max_concurrent)"

definition scheduled_batch :: "(request list \<Rightarrow> request list) \<Rightarrow> answer \<Rightarrow> string \<Rightarrow> int \<Rightarrow> rdb \<Rightarrow> request list" where
  "scheduled_batch by_time a env now db =
     (case due_requests by_time a now db of
        Inl e \<Rightarrow> []
      | Inr reqs \<Rightarrow> if int (length reqs) > max_concurrent env then take (nat (max_concurrent env)) reqs else reqs)"

definition run_scheduled :: "(request list \<Rightarrow> request list) \<Rightarrow> registry \<Rightarrow> answer \<Rightarrow> (string \<Rightarrow> trigger_io) \<Rightarrow>
    (string \<Rightarrow> int) \<Rightarrow> string \<Rightarrow> int \<Rightarrow> rdb \<Rightarrow> rdb" where
  "run_scheduled by_time reg a io clock env now db =
     trigger_each reg io clock (map rq_id (scheduled_batch by_time a env now db)) db"

section \<open>The handlers of the API\<close>

record image_row =
  ir_method :: string
  ir_status :: string

record create_body =
  cb_image :: string
  cb_force :: bool
  cb_dry :: bool
  cb_bios :: bool
  cb_scheduled :: "int option"

text \<open>The answers of the calls of \<open>Create\<close>: the image queries, and the guard that checks the blob on disk.\<close>

record create_io =
  ci_node :: answer
  ci_image1 :: "db_error + image_row"
  ci_image2 :: "db_error + image_row"
  ci_guard :: answer
  ci_active :: answer
  ci_insert :: answer

datatype create_reply = Error_Reply db_error | Image_Required | Initramfs_Not_Deployable | Image_Not_Ready
  | Image_Not_Deployable | Reimage_Active string | No_Ssh_Keys | Accepted | Trigger_Failed trigger_error | Triggered_Reply | Not_Retryable

definition new_request :: "string \<Rightarrow> string \<Rightarrow> string \<Rightarrow> int option \<Rightarrow> bool \<Rightarrow> bool \<Rightarrow> int \<Rightarrow> request" where
  "new_request rid nid img sched dry bios now =
     \<lparr>rq_id = rid, rq_node = nid, rq_image = img, rq_status = Pending, rq_scheduled = sched, rq_triggered = None,
       rq_started = None, rq_completed = None, rq_error = Msg '''', rq_dry = dry, rq_bios = bios, rq_created = now,
       rq_exit = None\<rparr>"

text \<open>The checks that \<open>force\<close> skips.\<close>

definition check_image_ready :: "create_io \<Rightarrow> bool \<Rightarrow> create_reply option" where
  "check_image_ready io uses_image =
     (if \<not> uses_image then None
      else
        (case ci_image2 io of
           Inl e \<Rightarrow> Some (Error_Reply e)
         | Inr img \<Rightarrow>
             if ir_status img \<noteq> ''ready'' then Some Image_Not_Ready
             else if ci_guard io \<noteq> None then Some Image_Not_Deployable
             else None))"

definition pre_checks :: "(request list \<Rightarrow> request) \<Rightarrow> create_io \<Rightarrow> bool \<Rightarrow> node_row \<Rightarrow> rdb \<Rightarrow> create_reply option" where
  "pre_checks newest io uses_image n db =
     (case check_image_ready io uses_image of
        Some r \<Rightarrow> Some r
      | None \<Rightarrow>
          (case active_request newest (ci_active io) (nr_id n) db of
             Inl e \<Rightarrow> Some (Error_Reply e)
           | Inr (Some act) \<Rightarrow> Some (Reimage_Active (rq_id act))
           | Inr None \<Rightarrow> if nr_keys n = [] then Some No_Ssh_Keys else None))"

text \<open>The insertion of the request and, unless it is scheduled, its trigger; \<open>Retry\<close> ends in the same way.\<close>

definition submit_request :: "registry \<Rightarrow> answer \<Rightarrow> trigger_io \<Rightarrow> int \<Rightarrow> request \<Rightarrow> rdb \<Rightarrow> create_reply \<times> rdb" where
  "submit_request reg ins tio now r db =
     (case create_request ins r db of
        (Some e, db) \<Rightarrow> (Error_Reply e, db)
      | (None, db) \<Rightarrow>
          if rq_scheduled r \<noteq> None then (Accepted, db)
          else
            (case trigger reg tio now (rq_id r) db of
               (Some e, db) \<Rightarrow> (Trigger_Failed e, db)
             | (None, db) \<Rightarrow> (Triggered_Reply, db)))"

definition create_reimage ::
  "(request list \<Rightarrow> request) \<Rightarrow> registry \<Rightarrow> create_io \<Rightarrow> trigger_io \<Rightarrow> int \<Rightarrow> string \<Rightarrow> string \<Rightarrow> create_body \<Rightarrow> rdb
    \<Rightarrow> create_reply \<times> rdb" where
  "create_reimage newest reg io tio now rid nid body db =
     (case get_node (ci_node io) nid db of
        Inl e \<Rightarrow> (Error_Reply e, db)
      | Inr n \<Rightarrow>
     (let img = (if cb_image body = '''' then nr_image n else cb_image body);
          uses_image = (img \<noteq> '''' \<and> \<not> cb_bios body) in
      if img = '''' \<and> \<not> cb_bios body then (Image_Required, db)
      else
     (case (if uses_image then ci_image1 io else Inr \<lparr>ir_method = '''', ir_status = ''''\<rparr>) of
        Inl e \<Rightarrow> (Error_Reply e, db)
      | Inr row \<Rightarrow>
      if uses_image \<and> ir_method row = ''initramfs'' then (Initramfs_Not_Deployable, db)
      else
     (case (if cb_force body then None else pre_checks newest io uses_image n db) of
        Some r \<Rightarrow> (r, db)
      | None \<Rightarrow>
        submit_request reg (ci_insert io) tio now
          (new_request rid nid img (cb_scheduled body) (cb_dry body) (cb_bios body) now) db))))"

datatype cancel_reply = Cancel_Error db_error | Not_Cancelable | No_Active | Canceled_Reply

definition cancel_reimage :: "answer \<Rightarrow> answer \<Rightarrow> answer \<Rightarrow> int \<Rightarrow> string \<Rightarrow> rdb \<Rightarrow> cancel_reply \<times> rdb" where
  "cancel_reimage q u clear now rid db =
     (case get_request q rid db of
        Inl e \<Rightarrow> (Cancel_Error e, db)
      | Inr req \<Rightarrow>
          if is_terminal (rq_status req) then (Not_Cancelable, db)
          else
            (let msg = (if rq_status req = In_Progress \<or> rq_status req = Triggered then Was_In (rq_status req)
                        else Msg ''canceled by operator'')
             in case update_status u rid Canceled msg now db of
                  (Some e, db) \<Rightarrow> (Cancel_Error e, db)
                | (None, db) \<Rightarrow> (Canceled_Reply, snd (set_reimage_pending clear (rq_node req) False db))))"

definition cancel_active :: "(request list \<Rightarrow> request) \<Rightarrow> answer \<Rightarrow> answer \<Rightarrow> answer \<Rightarrow> answer \<Rightarrow> int \<Rightarrow> string \<Rightarrow> rdb \<Rightarrow>
    cancel_reply \<times> rdb" where
  "cancel_active newest qn q u clear now nid db =
     (case get_node qn nid db of
        Inl e \<Rightarrow> (Cancel_Error e, db)
      | Inr _ \<Rightarrow>
     (case active_request newest q nid db of
        Inl e \<Rightarrow> (Cancel_Error e, db)
      | Inr None \<Rightarrow> (No_Active, db)
      | Inr (Some act) \<Rightarrow>
          (case update_status u (rq_id act) Canceled (Was_In (rq_status act)) now db of
             (Some e, db) \<Rightarrow> (Cancel_Error e, db)
           | (None, db) \<Rightarrow> (Canceled_Reply, snd (set_reimage_pending clear nid False db)))))"

definition retry_reimage :: "(request list \<Rightarrow> request) \<Rightarrow> registry \<Rightarrow> answer \<Rightarrow> answer \<Rightarrow> answer \<Rightarrow> trigger_io \<Rightarrow> int \<Rightarrow> string
    \<Rightarrow> string \<Rightarrow> rdb \<Rightarrow> create_reply \<times> rdb" where
  "retry_reimage newest reg q qa ins tio now fresh rid db =
     (case get_request q rid db of
        Inl e \<Rightarrow> (Error_Reply e, db)
      | Inr orig \<Rightarrow>
      if rq_status orig \<noteq> Failed then (Not_Retryable, db)
      else
     (case active_request newest qa (rq_node orig) db of
        Inl e \<Rightarrow> (Error_Reply e, db)
      | Inr act \<Rightarrow>
     (case (case act of None \<Rightarrow> None | Some a \<Rightarrow> if rq_id a \<noteq> rid then Some a else None) of
        Some a \<Rightarrow> (Reimage_Active (rq_id a), db)
      | None \<Rightarrow>
        submit_request reg ins tio now (new_request fresh (rq_node orig) (rq_image orig) None (rq_dry orig) False now) db)))"

section \<open>The reports of a node\<close>

definition deploy_complete :: "answer \<Rightarrow> answer \<Rightarrow> answer \<Rightarrow> int \<Rightarrow> string \<Rightarrow> rdb \<Rightarrow> db_error option \<times> rdb" where
  "deploy_complete q u c now nid db =
     (case get_node q nid db of
        Inl e \<Rightarrow> (Some e, db)
      | Inr _ \<Rightarrow>
     (case record_deploy_succeeded u now nid db of
        (Some e, db) \<Rightarrow> (Some e, db)
      | (None, db) \<Rightarrow> (None, snd (close_active c nid Complete '''' now db))))"

record failed_payload =
  fp_exit :: int
  fp_name :: string
  fp_phase :: string
  fp_message :: string

text \<open>The active request gets the details of the failure.\<close>

definition fail_active :: "(request list \<Rightarrow> request) \<Rightarrow> answer \<Rightarrow> answer \<Rightarrow> int \<Rightarrow> string \<Rightarrow> failed_payload \<Rightarrow> rdb \<Rightarrow> rdb" where
  "fail_active newest qa ua now nid p db =
     (case active_request newest qa nid db of
        Inl e \<Rightarrow> db
      | Inr None \<Rightarrow> db
      | Inr (Some act) \<Rightarrow>
          snd (update_failed ua (rq_id act)
            (if fp_message p = '''' then ''deploy agent reported failure'' else fp_message p)
            (fp_exit p, fp_name p, fp_phase p) now db))"

definition deploy_failed :: "(request list \<Rightarrow> request) \<Rightarrow> answer \<Rightarrow> answer \<Rightarrow> answer \<Rightarrow> answer \<Rightarrow> answer \<Rightarrow> int \<Rightarrow> string \<Rightarrow>
    failed_payload \<Rightarrow> rdb \<Rightarrow> db_error option \<times> rdb" where
  "deploy_failed newest q u qa ua c now nid p db =
     (case get_node q nid db of
        Inl e \<Rightarrow> (Some e, db)
      | Inr _ \<Rightarrow>
     (case record_deploy_failed u now nid db of
        (Some e, db) \<Rightarrow> (Some e, db)
      | (None, db) \<Rightarrow>
          (None, snd (close_active c nid Failed ''superseded by newer deploy-failed'' now
            (fail_active newest qa ua now nid p db)))))"

record boot_report =
  br_sssd :: string
  br_pam :: bool

definition contains_text :: "string \<Rightarrow> string \<Rightarrow> bool" where
  "contains_text s t \<longleftrightarrow> sublist t s"

definition is_sssd_connected :: "string \<Rightarrow> bool" where
  "is_sssd_connected s =
     (let lower = to_lower (trim_space s) in prefix ''online'' lower \<or> contains_text lower ''online status: online'')"

text \<open>The reply, whether the boot order is flipped to disk first, and the database.\<close>

definition verify_boot :: "answer \<Rightarrow> answer \<Rightarrow> answer \<Rightarrow> answer \<times> bool \<Rightarrow> answer \<Rightarrow> answer \<Rightarrow> int \<Rightarrow> string \<Rightarrow> boot_report \<Rightarrow> rdb \<Rightarrow>
    db_error option \<times> bool \<times> rdb" where
  "verify_boot q qv uv ldap ul c now nid p db =
     (case get_node q nid db of
        Inl e \<Rightarrow> (Some e, False, db)
      | Inr _ \<Rightarrow>
     (case record_verify_booted qv uv now nid db of
        (Inl e, db) \<Rightarrow> (Some e, False, db)
      | (Inr first_time, db) \<Rightarrow>
          (let db =
             (if br_sssd p \<noteq> '''' \<and> fst ldap = None \<and> snd ldap
              then snd (record_ldap_ready ul nid (br_pam p \<and> is_sssd_connected (br_sssd p)) db) else db);
               db = (if first_time then snd (close_active c nid Complete ''closed by verify-boot'' now db) else db)
           in (None, first_time, db))))"

text \<open>What the registration of a node answers to its deploy agent.\<close>

datatype register_action = Wait_Action | Deploy_Action bool | Bios_Only_Action bool

definition register_action :: "(request list \<Rightarrow> request) \<Rightarrow> answer \<Rightarrow> node_row \<Rightarrow> rdb \<Rightarrow> register_action" where
  "register_action newest q n db =
     (if nr_pending n then
        (case active_request newest q (nr_id n) db of
           Inr (Some act) \<Rightarrow> if rq_bios act then Bios_Only_Action (rq_dry act) else Deploy_Action (rq_dry act)
         | _ \<Rightarrow> Deploy_Action False)
      else if nr_image n \<noteq> '''' then Deploy_Action False
      else Wait_Action)"

section \<open>The background workers\<close>

text \<open>The reaper clears the flag of nodes without an active request, node by node.\<close>

fun reap_nodes :: "(request list \<Rightarrow> request) \<Rightarrow> (string \<Rightarrow> answer) \<Rightarrow> (string \<Rightarrow> answer) \<Rightarrow> node_row list \<Rightarrow> rdb \<Rightarrow> rdb" where
  "reap_nodes newest q u [] db = db"
| "reap_nodes newest q u (n # ns) db =
     reap_nodes newest q u ns
       (if \<not> nr_pending n then db
        else
          (case active_request newest (q (nr_id n)) (nr_id n) db of
             Inl e \<Rightarrow> db
           | Inr (Some _) \<Rightarrow> db
           | Inr None \<Rightarrow> snd (set_reimage_pending (u (nr_id n)) (nr_id n) False db)))"

definition reap :: "(request list \<Rightarrow> request) \<Rightarrow> answer \<Rightarrow> (string \<Rightarrow> answer) \<Rightarrow> (string \<Rightarrow> answer) \<Rightarrow> rdb \<Rightarrow> rdb" where
  "reap newest a q u db = (if a \<noteq> None then db else reap_nodes newest q u (nodes db) db)"

text \<open>The scanner for nodes that did not report their first boot; times in nanoseconds below the second are cut.\<close>

definition timed_out :: "int \<Rightarrow> int \<Rightarrow> node_row \<Rightarrow> bool" where
  "timed_out timeout now n =
     (if nr_override n = Some 0 then False
      else
        (let effective = (case nr_override n of Some s \<Rightarrow> s | None \<Rightarrow> timeout) in
         case nr_completed n of None \<Rightarrow> False | Some t \<Rightarrow> \<not> now - t < effective))"

definition verify_scan :: "int \<Rightarrow> answer \<Rightarrow> (string \<Rightarrow> answer) \<Rightarrow> int \<Rightarrow> rdb \<Rightarrow> rdb" where
  "verify_scan timeout a u now db =
     (if a \<noteq> None then db
      else
        fold (\<lambda>n db. snd (record_verify_timeout (u (nr_id n)) now (nr_id n) db))
          (filter (timed_out timeout now) (awaiting_verification now db)) db)"

section \<open>Steps\<close>

text \<open>
  The server is the database and the batch of requests the scheduler has read and not yet triggered: between
  two triggers of a batch it sleeps, and other handlers run.
\<close>

record server =
  sdb :: rdb
  batch :: "string list"

inductive reimage_step :: "(request list \<Rightarrow> request) \<Rightarrow> (request list \<Rightarrow> request list) \<Rightarrow> registry \<Rightarrow> server \<Rightarrow> server \<Rightarrow> bool"
  for newest by_time reg where
  step_create: "reimage_step newest by_time reg s (s\<lparr>sdb := snd (create_reimage newest reg io tio now rid nid body (sdb s))\<rparr>)"
| step_retry: "reimage_step newest by_time reg s (s\<lparr>sdb := snd (retry_reimage newest reg q qa ins tio now fresh rid (sdb s))\<rparr>)"
| step_cancel: "reimage_step newest by_time reg s (s\<lparr>sdb := snd (cancel_reimage q u clear now rid (sdb s))\<rparr>)"
| step_cancel_active: "reimage_step newest by_time reg s (s\<lparr>sdb := snd (cancel_active newest qn q u clear now nid (sdb s))\<rparr>)"
| step_cancel_all: "reimage_step newest by_time reg s (s\<lparr>sdb := snd (cancel_all q u clears ''bulk canceled by operator'' now (sdb s))\<rparr>)"
| step_complete: "reimage_step newest by_time reg s (s\<lparr>sdb := snd (deploy_complete q u c now nid (sdb s))\<rparr>)"
| step_failed: "reimage_step newest by_time reg s (s\<lparr>sdb := snd (deploy_failed newest q u qa ua c now nid p (sdb s))\<rparr>)"
| step_verify: "reimage_step newest by_time reg s (s\<lparr>sdb := snd (snd (verify_boot q qv uv ldap ul c now nid rep (sdb s)))\<rparr>)"
| step_boot: "reimage_step newest by_time reg s (s\<lparr>sdb := snd (serve_ipxe q1 u q2 ins fresh mac force (sdb s))\<rparr>)"
| step_reap: "reimage_step newest by_time reg s (s\<lparr>sdb := reap newest a qs us (sdb s)\<rparr>)"
| step_scan: "reimage_step newest by_time reg s (s\<lparr>sdb := verify_scan timeout a us now (sdb s)\<rparr>)"
| step_tick: "batch s = [] \<Longrightarrow>
    reimage_step newest by_time reg s (s\<lparr>batch := map rq_id (scheduled_batch by_time a env now (sdb s))\<rparr>)"
| step_trigger: "batch s = rid # rids \<Longrightarrow>
    reimage_step newest by_time reg s (s\<lparr>sdb := snd (trigger reg io now rid (sdb s)), batch := rids\<rparr>)"

inductive_cases reimage_stepE: "reimage_step newest by_time reg s s'"

inductive reimage_reachable :: "(request list \<Rightarrow> request) \<Rightarrow> (request list \<Rightarrow> request list) \<Rightarrow> registry \<Rightarrow> server \<Rightarrow> bool"
  for newest by_time reg where
  reach_start: "requests (sdb s) = [] \<Longrightarrow> batch s = [] \<Longrightarrow> reimage_reachable newest by_time reg s"
| reach_step: "reimage_reachable newest by_time reg s \<Longrightarrow> reimage_step newest by_time reg s s' \<Longrightarrow>
    reimage_reachable newest by_time reg s'"

section \<open>How the requests evolve\<close>

text \<open>A request whose times agree with its status; no code marks a request as in progress.\<close>

definition rq_ok :: "request \<Rightarrow> bool" where
  "rq_ok r \<longleftrightarrow> (is_terminal (rq_status r) \<longrightarrow> rq_completed r \<noteq> None) \<and>
     (rq_status r = Triggered \<longrightarrow> rq_triggered r \<noteq> None) \<and> rq_status r \<noteq> In_Progress"

definition requests_ok :: "rdb \<Rightarrow> bool" where
  "requests_ok db \<longleftrightarrow> distinct (map rq_id (requests db)) \<and> (\<forall>r \<in> set (requests db). rq_ok r)"

text \<open>What may become of a request: terminal ones change only when their id is in \<open>T\<close>.\<close>

definition change_ok :: "string set \<Rightarrow> request \<Rightarrow> request \<Rightarrow> bool" where
  "change_ok T r r' \<longleftrightarrow> r' = r \<or> (is_terminal (rq_status r) \<longrightarrow> rq_id r \<in> T) \<and> rq_id r' = rq_id r \<and>
     rq_node r' = rq_node r \<and> rq_ok r'"

definition evolves :: "string set \<Rightarrow> rdb \<Rightarrow> rdb \<Rightarrow> bool" where
  "evolves T db db' \<longleftrightarrow> (\<exists>xs new. requests db' = xs @ new \<and> list_all2 (change_ok T) (requests db) xs \<and>
     (\<forall>r \<in> set new. rq_ok r) \<and> distinct (map rq_id new) \<and> rq_id ` set new \<inter> rq_id ` set (requests db) = {})"

lemma change_ok_refl [simp]: "change_ok T r r"
  by (simp add: change_ok_def)

lemma list_all2_change_refl: "list_all2 (change_ok T) rs rs"
  by (simp add: list_all2_same)

lemma change_ids: "list_all2 (change_ok T) rs xs \<Longrightarrow> map rq_id xs = map rq_id rs"
  by (induction rule: list_all2_induct) (auto simp: change_ok_def)

lemma evolvesI:
  "requests db' = xs @ new \<Longrightarrow> list_all2 (change_ok T) (requests db) xs \<Longrightarrow> \<forall>r \<in> set new. rq_ok r \<Longrightarrow>
    distinct (map rq_id new) \<Longrightarrow> rq_id ` set new \<inter> rq_id ` set (requests db) = {} \<Longrightarrow> evolves T db db'"
  unfolding evolves_def by blast

lemma evolves_same: "requests db' = requests db \<Longrightarrow> evolves T db db'"
  unfolding evolves_def by (intro exI [of _ "requests db"] exI [of _ "[]"]) (simp add: list_all2_change_refl)

lemma evolves_refl [simp]: "evolves T db db"
  by (rule evolves_same) simp

lemma evolves_map:
  assumes "requests db' = map f (requests db)" and "\<And>r. r \<in> set (requests db) \<Longrightarrow> change_ok T r (f r)"
  shows "evolves T db db'"
proof -
  have "list_all2 (change_ok T) (requests db) (map f (requests db))"
    using assms(2) by (simp add: list_all2_conv_all_nth)
  with assms(1) show ?thesis unfolding evolves_def
    by (intro exI [of _ "map f (requests db)"] exI [of _ "[]"]) simp
qed

lemma evolves_trans:
  assumes "evolves T db db'" and "evolves T' db' db''"
  shows "evolves (T \<union> T') db db''"
proof -
  obtain xs new where a: "requests db' = xs @ new" "list_all2 (change_ok T) (requests db) xs"
      "\<forall>r \<in> set new. rq_ok r" "distinct (map rq_id new)" "rq_id ` set new \<inter> rq_id ` set (requests db) = {}"
    using assms(1) unfolding evolves_def by blast
  obtain ys new' where b: "requests db'' = ys @ new'" "list_all2 (change_ok T') (xs @ new) ys"
      "\<forall>r \<in> set new'. rq_ok r" "distinct (map rq_id new')" "rq_id ` set new' \<inter> rq_id ` set (xs @ new) = {}"
    using assms(2) unfolding evolves_def a(1) by blast
  from b(2) obtain zs ws where c: "ys = zs @ ws" "list_all2 (change_ok T') xs zs" "list_all2 (change_ok T') new ws"
    by (auto simp: list_all2_append1)
  have kept: "list_all2 (change_ok (T \<union> T')) (requests db) zs"
    by (rule list_all2_trans [OF _ a(2) c(2)]) (auto simp: change_ok_def)
  have oks: "\<forall>r \<in> set (ws @ new'). rq_ok r"
  proof -
    have "\<forall>r \<in> set ws. rq_ok r" using c(3) a(3)
      by (induction rule: list_all2_induct) (auto simp: change_ok_def)
    with b(3) show ?thesis by auto
  qed
  have ids: "map rq_id ws = map rq_id new" "map rq_id xs = map rq_id (requests db)"
    using change_ids [OF c(3)] change_ids [OF a(2)] .
  have sets: "rq_id ` set ws = rq_id ` set new" "rq_id ` set xs = rq_id ` set (requests db)"
    using ids by (metis set_map)+
  have apart: "rq_id ` set new' \<inter> rq_id ` set new = {}" "rq_id ` set new' \<inter> rq_id ` set (requests db) = {}"
    using b(5) sets(2) by (auto simp: image_Un)
  have new_ids: "distinct (map rq_id (ws @ new'))"
    using a(4) b(4) ids(1) sets(1) apart(1) by (simp add: Int_commute)
  have "rq_id ` set (ws @ new') \<inter> rq_id ` set (requests db) = {}"
    using a(5) sets(1) apart(2) by (simp add: image_Un Int_Un_distrib2)
  then show ?thesis using kept oks new_ids by (intro evolvesI [of _ zs "ws @ new'"]) (simp_all add: b(1) c(1))
qed

lemma evolves_trans_same: "evolves T db db' \<Longrightarrow> evolves T db' db'' \<Longrightarrow> evolves T db db''"
  using evolves_trans [of T db db' T db''] by simp

lemma evolves_mono: "evolves T db db' \<Longrightarrow> T \<subseteq> T' \<Longrightarrow> evolves T' db db'"
  using evolves_trans [of T db db' T' db'] evolves_same [of db' db' T'] by (simp add: Un_absorb1)

lemma evolves_fresh:
  assumes "evolves T db db'" and "T \<inter> rq_id ` set (requests db) = {}"
  shows "evolves {} db db'"
proof -
  have "list_all2 (change_ok {}) (requests db) xs" if "list_all2 (change_ok T) (requests db) xs" for xs
    using that by (rule list.rel_mono_strong) (use assms(2) in \<open>auto simp: change_ok_def\<close>)
  then show ?thesis using assms(1) unfolding evolves_def by blast
qed

lemma evolves_ok:
  assumes "evolves T db db'" and "requests_ok db"
  shows "requests_ok db'"
proof -
  obtain xs new where a: "requests db' = xs @ new" "list_all2 (change_ok T) (requests db) xs"
      "\<forall>r \<in> set new. rq_ok r" "distinct (map rq_id new)" "rq_id ` set new \<inter> rq_id ` set (requests db) = {}"
    using assms(1) unfolding evolves_def by blast
  have "\<forall>r \<in> set (requests db). rq_ok r" using assms(2) unfolding requests_ok_def by blast
  with a(2) have "\<forall>r \<in> set xs. rq_ok r" by (induction rule: list_all2_induct) (auto simp: change_ok_def)
  moreover have ids: "map rq_id xs = map rq_id (requests db)" using change_ids [OF a(2)] .
  have "rq_id ` set xs = rq_id ` set (requests db)" using ids by (metis set_map)
  then have "distinct (map rq_id (xs @ new))" using a(4,5) assms(2) ids unfolding requests_ok_def by (simp add: Int_commute)
  ultimately show ?thesis using a(1,3) unfolding requests_ok_def by auto
qed

lemma evolves_terminal:
  assumes "evolves T db db'" and "r \<in> set (requests db)" and "is_terminal (rq_status r)" and "rq_id r \<notin> T"
  shows "r \<in> set (requests db')"
proof -
  obtain xs new where a: "requests db' = xs @ new" "list_all2 (change_ok T) (requests db) xs"
    using assms(1) unfolding evolves_def by blast
  obtain i where "i < length (requests db)" "requests db ! i = r" using assms(2) by (auto simp: in_set_conv_nth)
  moreover from this a(2) have "xs ! i = r" "i < length xs"
    using assms(3,4) by (auto simp: list_all2_conv_all_nth change_ok_def)
  ultimately show ?thesis using a(1) by (metis Un_iff nth_mem set_append)
qed


section \<open>The operations\<close>

lemma update_node_requests [simp]: "requests (snd (update_node a nid f db)) = requests db"
  by (simp add: update_node_def split: option.splits)

lemma node_ops_requests [simp]:
  "requests (snd (set_reimage_pending a nid b db)) = requests db"
  "requests (snd (assign_image a nid img db)) = requests db"
  "requests (snd (record_deploy_succeeded a now nid db)) = requests db"
  "requests (snd (record_deploy_failed a now nid db)) = requests db"
  "requests (snd (record_verify_timeout a now nid db)) = requests db"
  "requests (snd (record_ldap_ready a nid b db)) = requests db"
  by (simp_all add: set_reimage_pending_def assign_image_def record_deploy_succeeded_def record_deploy_failed_def
      record_verify_timeout_def record_ldap_ready_def)

lemma record_verify_booted_requests [simp]: "requests (snd (record_verify_booted q u now nid db)) = requests db"
proof -
  have "requests db' = requests db" if "update_node u nid f db = (r, db')" for f r db'
    using that update_node_requests [of u nid f db] by simp
  then show ?thesis
    by (auto simp: record_verify_booted_def split: sum.splits option.splits prod.splits)
qed

lemma fold_requests [simp]:
  "(\<And>x db. requests (f x db) = requests db) \<Longrightarrow> requests (fold f xs db) = requests db"
  by (induction xs arbitrary: db) simp_all

lemma stamp_ok:
  "s \<noteq> Pending \<Longrightarrow> s \<noteq> In_Progress \<Longrightarrow> rq_ok (stamp s msg now r) \<and> rq_id (stamp s msg now r) = rq_id r \<and>
    rq_node (stamp s msg now r) = rq_node r \<and> rq_status (stamp s msg now r) = s"
  by (cases s) (simp_all add: stamp_def rq_ok_def Let_def)

lemma update_request_evolves:
  assumes "\<And>r. r \<in> set (requests db) \<Longrightarrow> rq_id r = rid \<Longrightarrow> change_ok T r (f r)"
  shows "evolves T db (snd (update_request a rid f db))"
proof (cases "a = None \<and> find_request rid db \<noteq> None")
  case True
  then show ?thesis using assms
    by (intro evolves_map [where f = "\<lambda>r. if rq_id r = rid then f r else r"]) (auto simp: update_request_def)
next
  case False
  then show ?thesis by (intro evolves_same) (auto simp: update_request_def split: option.splits)
qed

lemma update_status_evolves:
  "s \<noteq> Pending \<Longrightarrow> s \<noteq> In_Progress \<Longrightarrow> evolves {rid} db (snd (update_status a rid s msg now db))"
  unfolding update_status_def by (rule update_request_evolves) (simp add: change_ok_def stamp_ok)

text \<open>With different ids, the request that was read is the one that is updated.\<close>

lemma find_request_unique:
  "requests_ok db \<Longrightarrow> find_request rid db = Some req \<Longrightarrow> r \<in> set (requests db) \<Longrightarrow> rq_id r = rid \<Longrightarrow> r = req"
  unfolding requests_ok_def find_request_def
  by (auto simp: find_Some_iff distinct_conv_nth in_set_conv_nth)

lemma find_request_in: "find_request rid db = Some req \<Longrightarrow> req \<in> set (requests db) \<and> rq_id req = rid"
  by (auto simp: find_request_def find_Some_iff)

lemma get_request_Inr: "get_request a rid db = Inr req \<longleftrightarrow> a = None \<and> find_request rid db = Some req"
  by (auto simp: get_request_def split: option.splits)

lemma update_live_evolves:
  assumes "requests_ok db" and "r \<in> set (requests db)" and "\<not> is_terminal (rq_status r)"
    and "rq_ok (f r)" and "rq_id (f r) = rq_id r" and "rq_node (f r) = rq_node r"
  shows "evolves {} db (snd (update_request a (rq_id r) f db))"
proof (rule update_request_evolves)
  fix r' assume "r' \<in> set (requests db)" "rq_id r' = rq_id r"
  then have "r' = r" using assms(1,2) unfolding requests_ok_def
    by (metis inj_on_eq_iff distinct_map)
  then show "change_ok {} r' (f r')" using assms(3-6) by (simp add: change_ok_def)
qed

lemma close_active_evolves: "evolves {} db (snd (close_active a nid s msg now db))"
proof (cases "is_terminal s \<and> a = None")
  case True
  then show ?thesis
    by (intro evolves_map [where f = "\<lambda>r. if rq_node r = nid \<and> \<not> is_terminal (rq_status r)
        then r\<lparr>rq_status := s, rq_error := Msg msg, rq_completed := Some now\<rparr> else r"])
      (auto simp: close_active_def change_ok_def rq_ok_def split: option.splits)
next
  case False
  then show ?thesis by (intro evolves_same) (auto simp: close_active_def split: option.splits)
qed

lemma cancel_all_evolves: "evolves {} db (snd (cancel_all q u clear msg now db))"
proof (cases "q = None \<and> u = None")
  case True
  then show ?thesis
    by (intro evolves_map [where f = "\<lambda>r. if \<not> is_terminal (rq_status r)
        then r\<lparr>rq_status := Canceled, rq_error := Msg msg, rq_completed := Some now\<rparr> else r"])
      (auto simp: cancel_all_def change_ok_def rq_ok_def Let_def split: option.splits)
next
  case False
  then show ?thesis by (intro evolves_same) (auto simp: cancel_all_def Let_def split: option.splits)
qed

lemma create_request_cases:
  "create_request a r db = (None, db') \<Longrightarrow> rq_id r \<notin> rq_id ` set (requests db) \<and> db' = db\<lparr>requests := requests db @ [r]\<rparr>"
  "create_request a r db = (Some e, db') \<Longrightarrow> db' = db"
  by (auto simp: create_request_def split: option.splits if_splits)

lemma create_request_evolves:
  "rq_ok r \<Longrightarrow> create_request a r db = (None, db') \<Longrightarrow> evolves {} db db'"
  using create_request_cases(1) [of a r db db']
  by (intro evolvesI [of db' "requests db" "[r]"]) (auto simp: list_all2_change_refl)

lemma trigger_evolves: "evolves {rid} db (snd (trigger reg io now rid db))"
proof -
  have up: "evolves {rid} db (snd (update_status (ti_mark io) rid s msg now db'))"
    if "requests db' = requests db" "s \<noteq> Pending" "s \<noteq> In_Progress" for s msg db'
    using evolves_trans_same [OF evolves_same [OF that(1)] update_status_evolves [OF that(2,3)]] .
  have a: "requests db' = requests db" if "assign_image x n i db = (r, db')" for x n i r db'
    using that node_ops_requests(2) [of x n i db] by simp
  have p: "requests db'' = requests db'" if "set_reimage_pending x n b db' = (r, db'')" for x n b r db' db''
    using that node_ops_requests(1) [of x n b db'] by simp
  show ?thesis unfolding trigger_def mark_failed_def
    by (auto split: sum.splits prod.splits option.splits if_splits dest!: a p intro!: up)
qed

lemma new_request_ok [simp]: "rq_ok (new_request rid nid img sched dry bios now)" "rq_id (new_request rid nid img sched dry bios now) = rid"
  by (simp_all add: new_request_def rq_ok_def)

lemma submit_request_evolves:
  assumes "rq_id r = rid" and "rq_ok r"
  shows "evolves {} db (snd (submit_request reg ins tio now r db))"
proof (cases "create_request ins r db")
  case (Pair x db')
  show ?thesis
  proof (cases x)
    case None
    note new = create_request_cases(1) [OF Pair [unfolded None]]
    have "evolves {} db db'" using create_request_evolves [OF assms(2) Pair [unfolded None]] .
    moreover have "evolves {} db (snd (trigger reg tio now (rq_id r) db'))"
    proof (rule evolves_fresh)
      show "evolves {rq_id r} db (snd (trigger reg tio now (rq_id r) db'))"
        using evolves_trans [OF calculation trigger_evolves [of "rq_id r" db' reg tio now]] by simp
      show "{rq_id r} \<inter> rq_id ` set (requests db) = {}" using new by simp
    qed
    moreover obtain y db'' where "trigger reg tio now (rq_id r) db' = (y, db'')" by fastforce
    ultimately show ?thesis by (cases y) (simp_all add: submit_request_def Pair None)
  next
    case (Some e)
    then show ?thesis using create_request_cases(2) [of ins r db e db'] Pair by (simp add: submit_request_def)
  qed
qed

lemma create_reimage_evolves: "evolves {} db (snd (create_reimage newest reg io tio now rid nid body db))"
  by (auto simp: create_reimage_def Let_def submit_request_evolves split: sum.splits option.splits)

lemma retry_reimage_evolves: "evolves {} db (snd (retry_reimage newest reg q qa ins tio now fresh rid db))"
  by (auto simp: retry_reimage_def submit_request_evolves split: sum.splits option.splits)

lemma evolves_after: "evolves {} db db' \<Longrightarrow> requests db'' = requests db' \<Longrightarrow> evolves {} db db''"
  by (rule evolves_trans_same [OF _ evolves_same])

lemma cancel_reimage_evolves:
  assumes "requests_ok db"
  shows "evolves {} db (snd (cancel_reimage q u clear now rid db))"
proof (cases "get_request q rid db")
  case (Inr req)
  then have req: "req \<in> set (requests db)" "rq_id req = rid" using find_request_in by (auto simp: get_request_Inr)
  show ?thesis
  proof (cases "is_terminal (rq_status req)")
    case False
    have "evolves {} db (snd (update_status u rid Canceled msg now db))" for msg
      unfolding update_status_def req(2) [symmetric]
      by (rule update_live_evolves [OF assms req(1) False]) (simp_all add: stamp_ok)
    then have "evolves {} db db'" if "update_status u rid Canceled msg now db = (x, db')" for msg x db'
      by (metis that snd_conv)
    then show ?thesis using Inr False unfolding cancel_reimage_def Let_def
      by (auto split: prod.splits option.splits intro: evolves_after [OF _ node_ops_requests(1)])
  qed (simp add: cancel_reimage_def Inr)
qed (simp add: cancel_reimage_def)

text \<open>The choice among the newest rows returns one of them.\<close>

locale newest_row =
  fixes newest :: "request list \<Rightarrow> request"
  assumes newest_in: "\<And>rs. rs \<noteq> [] \<Longrightarrow> newest rs \<in> set rs"
    and newest_max: "\<And>rs r. r \<in> set rs \<Longrightarrow> rq_created r \<le> rq_created (newest rs)"
begin

lemma active_Some:
  "active_request newest a nid db = Inr (Some act) \<Longrightarrow>
    act \<in> set (requests db) \<and> rq_node act = nid \<and> \<not> is_terminal (rq_status act)"
  using newest_in [of "filter (\<lambda>r. rq_node r = nid \<and> \<not> is_terminal (rq_status r)) (requests db)"]
  by (auto simp: active_request_def Let_def split: option.splits if_splits)

lemma cancel_active_evolves:
  assumes "requests_ok db"
  shows "evolves {} db (snd (cancel_active newest qn q u clear now nid db))"
proof (cases "active_request newest q nid db")
  case (Inr o')
  show ?thesis
  proof (cases o')
    case (Some act)
    note act = active_Some [OF Inr [unfolded Some]]
    have "evolves {} db (snd (update_status u (rq_id act) Canceled msg now db))" for msg
      unfolding update_status_def by (rule update_live_evolves [OF assms]) (use act in \<open>simp_all add: stamp_ok\<close>)
    then have "evolves {} db db'" if "update_status u (rq_id act) Canceled msg now db = (x, db')" for msg x db'
      by (metis that snd_conv)
    then show ?thesis using Inr Some unfolding cancel_active_def
      by (auto split: sum.splits prod.splits option.splits intro: evolves_after [OF _ node_ops_requests(1)])
  qed (auto simp: cancel_active_def Inr split: sum.splits)
qed (auto simp: cancel_active_def split: sum.splits)

lemma fail_active_evolves:
  assumes "requests_ok db"
  shows "evolves {} db (snd (close_active c nid Failed m now (fail_active newest qa ua now nid p db)))"
proof -
  have "evolves {} db (fail_active newest qa ua now nid p db)"
  proof (cases "active_request newest qa nid db")
    case (Inr o')
    show ?thesis
    proof (cases o')
      case (Some act)
      note act = active_Some [OF Inr [unfolded Some]]
      show ?thesis unfolding fail_active_def update_failed_def Inr Some sum.case option.case
        by (rule update_live_evolves [OF assms]) (use act in \<open>simp_all add: rq_ok_def\<close>)
    qed (simp add: fail_active_def Inr)
  qed (simp add: fail_active_def)
  from evolves_trans_same [OF this close_active_evolves] show ?thesis .
qed

lemma deploy_failed_evolves:
  assumes "requests_ok db"
  shows "evolves {} db (snd (deploy_failed newest q u qa ua c now nid p db))"
proof -
  have rec: "requests db' = requests db" if "record_deploy_failed u now nid db = (x, db')" for x db'
    using that node_ops_requests(4) [of u now nid db] by simp
  have "evolves {} db (snd (close_active c nid Failed m now (fail_active newest qa ua now nid p db')))"
    if "requests db' = requests db" for db' m
  proof -
    have "requests_ok db'" using assms that by (simp add: requests_ok_def)
    from evolves_trans_same [OF evolves_same [OF that] fail_active_evolves [OF this]] show ?thesis .
  qed
  then show ?thesis unfolding deploy_failed_def
    by (auto split: sum.splits prod.splits option.splits dest!: rec intro: evolves_same)
qed

end

definition first_newest :: "request list \<Rightarrow> request" where
  "first_newest rs = hd (sort_key (\<lambda>r. - rq_created r) rs)"

lemma sorted_hd: "sorted (map f xs) \<Longrightarrow> x \<in> set xs \<Longrightarrow> f (hd xs) \<le> (f x :: int)"
  by (cases xs) auto

interpretation first_newest: newest_row first_newest
proof
  show "first_newest rs \<in> set rs" if "rs \<noteq> []" for rs :: "request list"
  proof -
    have "sort_key (\<lambda>r. - rq_created r) rs \<noteq> []" using that by (metis length_0_conv length_sort)
    then show ?thesis unfolding first_newest_def by (metis hd_in_set set_sort)
  qed
  show "rq_created r \<le> rq_created (first_newest rs)" if "r \<in> set rs" for r :: request and rs
    using sorted_hd [OF sorted_sort_key [of "\<lambda>r. - rq_created r" rs], of r] that by (simp add: first_newest_def)
qed

lemma deploy_complete_evolves: "evolves {} db (snd (deploy_complete q u c now nid db))"
proof -
  have rec: "requests db' = requests db" if "record_deploy_succeeded u now nid db = (x, db')" for x db'
    using that node_ops_requests(3) [of u now nid db] by simp
  have "evolves {} db (snd (close_active c nid Complete '''' now db'))" if "requests db' = requests db" for db'
    using evolves_trans_same [OF evolves_same [OF that] close_active_evolves] .
  then show ?thesis unfolding deploy_complete_def
    by (auto split: sum.splits prod.splits option.splits dest!: rec intro: evolves_same)
qed

lemma verify_boot_evolves: "evolves {} db (snd (snd (verify_boot q qv uv ldap ul c now nid p db)))"
proof -
  have rec: "requests db' = requests db" if "record_verify_booted qv uv now nid db = (x, db')" for x db'
    using that record_verify_booted_requests [of qv uv now nid db] by simp
  have "evolves {} db (snd (close_active c nid Complete m now db'))" if "requests db' = requests db" for db' m
    using evolves_trans_same [OF evolves_same [OF that] close_active_evolves] .
  then show ?thesis unfolding verify_boot_def Let_def
    by (auto split: sum.splits prod.splits option.splits dest!: rec intro: evolves_same)
qed

lemma serve_ipxe_requests [simp]: "requests (snd (serve_ipxe q1 u q2 ins fresh mac force db)) = requests db"
  by (auto simp: serve_ipxe_def force_reimage_def Let_def split: option.splits)

lemma reap_nodes_requests [simp]: "requests (reap_nodes newest q u ns db) = requests db"
  by (induction newest q u ns db rule: reap_nodes.induct) (auto split: sum.splits option.splits)

lemma workers_requests [simp]:
  "requests (reap newest a q u db) = requests db" "requests (verify_scan timeout a u now db) = requests db"
  by (simp_all add: reap_def verify_scan_def)

lemma step_evolves:
  assumes "reimage_step newest by_time reg s s'" and "newest_row newest" and "requests_ok (sdb s)"
  shows "evolves {} (sdb s) (sdb s') \<or>
    (\<exists>rid io now. batch s = rid # batch s' \<and> sdb s' = snd (trigger reg io now rid (sdb s)))"
  using assms(1)
proof (cases rule: reimage_step.cases)
  case (step_cancel_active qn q u clear now nid)
  then show ?thesis using newest_row.cancel_active_evolves [OF assms(2,3)] by simp
next
  case (step_failed q u qa ua c now nid p)
  then show ?thesis using newest_row.deploy_failed_evolves [OF assms(2,3)] by simp
next
  case (step_boot q1 u q2 ins fresh mac force)
  then show ?thesis by (simp add: evolves_same)
next
  case (step_reap a qs us)
  then show ?thesis by (simp add: evolves_same)
next
  case (step_scan timeout a us now)
  then show ?thesis by (simp add: evolves_same)
next
  case (step_trigger rid rids io now)
  then show ?thesis by (intro disjI2 exI [of _ rid] exI [of _ io] exI [of _ now]) simp
qed (simp_all add: create_reimage_evolves retry_reimage_evolves cancel_reimage_evolves [OF assms(3)] cancel_all_evolves
    deploy_complete_evolves verify_boot_evolves)

lemma step_requests_ok:
  assumes "reimage_step newest by_time reg s s'" and "newest_row newest" and "requests_ok (sdb s)"
  shows "requests_ok (sdb s')"
  using step_evolves [OF assms] evolves_ok [OF _ assms(3)] evolves_ok [OF trigger_evolves assms(3)] by auto

lemma reachable_ok: "reimage_reachable newest by_time reg s \<Longrightarrow> newest_row newest \<Longrightarrow> requests_ok (sdb s)"
  by (induction rule: reimage_reachable.induct) (auto simp: requests_ok_def [of "sdb _"] dest: step_requests_ok)


lemma update_status_requests:
  "requests (snd (update_status a rid s msg now db)) = requests db \<or>
   requests (snd (update_status a rid s msg now db)) = map (\<lambda>r. if rq_id r = rid then stamp s msg now r else r) (requests db)"
  by (auto simp: update_status_def update_request_def split: option.splits)

text \<open>All a trigger does to the requests: it gives the one it is for a status.\<close>

definition restamped :: "string \<Rightarrow> rdb \<Rightarrow> rdb \<Rightarrow> bool" where
  "restamped rid db db' \<longleftrightarrow> requests db' = requests db \<or>
     (\<exists>s msg now. s \<in> {Failed, Triggered} \<and>
       requests db' = map (\<lambda>r. if rq_id r = rid then stamp s msg now r else r) (requests db))"

lemma restamped_update:
  assumes "requests db' = requests db" and "s \<in> {Failed, Triggered}"
  shows "restamped rid db (snd (update_status x rid s msg t db'))"
  using update_status_requests [of x rid s msg t db']
proof
  assume "requests (snd (update_status x rid s msg t db')) = requests db'"
  then show ?thesis using assms(1) by (simp add: restamped_def)
next
  assume "requests (snd (update_status x rid s msg t db')) =
    map (\<lambda>r. if rq_id r = rid then stamp s msg t r else r) (requests db')"
  then have "\<exists>m u. requests (snd (update_status x rid s msg t db')) =
      map (\<lambda>r. if rq_id r = rid then stamp s m u r else r) (requests db)"
    by (intro exI [of _ msg] exI [of _ t]) (simp only: assms(1))
  with assms(2) show ?thesis unfolding restamped_def by (intro disjI2 exI [of _ s]) simp
qed

lemma trigger_restamped: "restamped rid db (snd (trigger reg io now rid db))"
proof -
  have same: "restamped rid db db" by (simp add: restamped_def)
  have a: "requests db' = requests db" if "assign_image x n i db = (r, db')" for x n i r db'
    using that node_ops_requests(2) [of x n i db] by simp
  have p: "requests db'' = requests db'" if "set_reimage_pending x n b db' = (r, db'')" for x n b r db' db''
    using that node_ops_requests(1) [of x n b db'] by simp
  show ?thesis unfolding trigger_def mark_failed_def
    by (auto split: sum.splits prod.splits option.splits if_splits dest!: a p intro!: restamped_update simp: same)
qed

lemma submit_requests:
  "requests (snd (submit_request reg ins tio now r db)) = requests db \<or>
   (\<exists>r'. rq_node r' = rq_node r \<and> requests (snd (submit_request reg ins tio now r db)) = requests db @ [r'])"
proof (cases "create_request ins r db")
  case (Pair x db')
  show ?thesis
  proof (cases x)
    case None
    note new = create_request_cases(1) [OF Pair [unfolded None]]
    obtain y db'' where tr: "trigger reg tio now (rq_id r) db' = (y, db'')" by fastforce
    have other: "rq_id q \<noteq> rq_id r" if "q \<in> set (requests db)" for q
      using new that by (metis image_eqI)
    have old: "map (\<lambda>q. if rq_id q = rq_id r then stamp s m t q else q) (requests db) = requests db" for s m t
      by (intro map_idI) (simp add: other)
    have "restamped (rq_id r) db' db''" using trigger_restamped [of "rq_id r" db' reg tio now] tr by simp
    then have "\<exists>r'. rq_node r' = rq_node r \<and> requests db'' = requests db @ [r']"
      using new old stamp_ok unfolding restamped_def by auto
    moreover have "\<exists>r'. rq_node r' = rq_node r \<and> requests db' = requests db @ [r']" using new by auto
    ultimately show ?thesis using tr by (cases y) (auto simp: submit_request_def Pair None)
  next
    case (Some e)
    then show ?thesis using create_request_cases(2) [of ins r db e db'] Pair by (simp add: submit_request_def)
  qed
qed

section \<open>Nodes\<close>

lemma find_map_update:
  "(\<And>n. nr_id (f n) = nr_id n) \<Longrightarrow>
   find (\<lambda>n. nr_id n = k) (map (\<lambda>n. if nr_id n = nid then f n else n) ns) =
     (if k = nid then map_option f (find (\<lambda>n. nr_id n = k) ns) else find (\<lambda>n. nr_id n = k) ns)"
  by (induction ns) auto

lemma update_node_works:
  assumes "find_node nid db = Some n" and "\<And>n. nr_id (f n) = nr_id n"
  shows "update_node None nid f db = (None, db\<lparr>nodes := map (\<lambda>n. if nr_id n = nid then f n else n) (nodes db)\<rparr>)"
    and "find_node nid (db\<lparr>nodes := map (\<lambda>n. if nr_id n = nid then f n else n) (nodes db)\<rparr>) = Some (f n)"
  using assms find_map_update [of f nid nid "nodes db"] by (simp_all add: update_node_def find_node_def)

lemma find_node_update:
  assumes "\<And>n. nr_id (f n) = nr_id n"
  shows "find_node k (snd (update_node a nid f db)) =
    (if k = nid \<and> a = None then map_option f (find_node k db) else find_node k db)"
  using find_map_update [of f k nid "nodes db"] assms by (auto simp: update_node_def find_node_def split: option.splits)

lemma find_node_requests [simp]: "find_node k (db\<lparr>requests := rs\<rparr>) = find_node k db"
  by (simp add: find_node_def)

lemma find_node_same: "nodes db' = nodes db \<Longrightarrow> find_node k db' = find_node k db"
  by (simp add: find_node_def)

lemma update_request_nodes [simp]: "nodes (snd (update_request a rid f db)) = nodes db"
  by (simp add: update_request_def split: option.splits)

lemma close_active_nodes [simp]: "nodes (snd (close_active a nid s msg now db)) = nodes db"
  by (simp add: close_active_def split: option.splits)

lemma find_request_update:
  "(\<And>r. rq_id (f r) = rq_id r) \<Longrightarrow> find_request k (snd (update_request None rid f db)) =
    (if k = rid then map_option f (find_request k db) else find_request k db)"
proof -
  assume f: "\<And>r. rq_id (f r) = rq_id r"
  have "find (\<lambda>r. rq_id r = k) (map (\<lambda>r. if rq_id r = rid then f r else r) rs) =
      (if k = rid then map_option f (find (\<lambda>r. rq_id r = k) rs) else find (\<lambda>r. rq_id r = k) rs)" for rs
    using f by (induction rs) auto
  then show ?thesis by (auto simp: update_request_def find_request_def)
qed

lemma find_request_nodes [simp]: "find_request k (db\<lparr>nodes := ns\<rparr>) = find_request k db"
  by (simp add: find_request_def)

lemma find_request_same: "requests db' = requests db \<Longrightarrow> find_request k db' = find_request k db"
  by (simp add: find_request_def)

lemma find_node_id: "find_node nid db = Some n \<Longrightarrow> nr_id n = nid"
  by (auto simp: find_node_def find_Some_iff)

definition works :: trigger_io where
  "works = \<lparr>ti_request = None, ti_node = None, ti_assign = None, ti_pending = None, ti_mark = None\<rparr>"

end
