(* ===== verification/Reimage_Life.thy ===== *)
theory Reimage_Life
  imports Reimage
begin

text \<open>
  The properties of reimaging: what holds of the requests in every reachable state, what a trigger, a report of
  a node and a worker do when their calls succeed, and how the state of a node routes its next boot.
\<close>

section \<open>The requests in every reachable state\<close>

text \<open>
  C1. In every state the handlers, the scheduler and the workers reach, whatever calls of the database and of the
  power providers fail, the ids of the requests are different, a terminal request has its completion time, a
  triggered one its trigger time, and no request is in progress.
\<close>

theorem requests_wellformed:
  assumes "reimage_reachable newest by_time reg s" and "newest_row newest"
  shows "distinct (map rq_id (requests (sdb s))) \<and>
    (\<forall>r \<in> set (requests (sdb s)). (is_terminal (rq_status r) \<longrightarrow> rq_completed r \<noteq> None) \<and>
       (rq_status r = Triggered \<longrightarrow> rq_triggered r \<noteq> None) \<and> rq_status r \<noteq> In_Progress)"
  using reachable_ok [OF assms] unfolding requests_ok_def rq_ok_def by blast

text \<open>A site with one node, a BMC provider that works, and the server at its start.\<close>

definition demo_node :: node_row where
  "demo_node = (new_node ''n1'' ''mac'')\<lparr>nr_keys := [''key''], nr_bmc := Some \<lparr>bmc_ip = ''ip'', bmc_user = ''u'', bmc_password = ''p''\<rparr>\<rparr>"

definition demo_registry :: "answer \<Rightarrow> registry" where
  "demo_registry a = (\<lambda>t. if t = ''ipmi'' then Some (\<lambda>_. Inr \<lparr>power_cycle = a\<rparr>) else None)"

definition demo_request :: request where
  "demo_request = new_request ''r1'' ''n1'' ''img'' (Some 5) False False 1"

definition demo_db :: "node_row list \<Rightarrow> request list \<Rightarrow> rdb" where
  "demo_db ns rs = \<lparr>nodes = ns, requests = rs, jobs = []\<rparr>"

definition demo_io :: create_io where
  "demo_io = \<lparr>ci_node = None, ci_image1 = Inr \<lparr>ir_method = '''', ir_status = ''ready''\<rparr>,
     ci_image2 = Inr \<lparr>ir_method = '''', ir_status = ''ready''\<rparr>, ci_guard = None, ci_active = None, ci_insert = None\<rparr>"

definition demo_body :: create_body where
  "demo_body = \<lparr>cb_image = ''img'', cb_force = False, cb_dry = False, cb_bios = False, cb_scheduled = None\<rparr>"

lemmas demo_defs = demo_node_def demo_registry_def demo_request_def demo_db_def demo_io_def demo_body_def new_node_def
  new_request_def

definition demo_created :: rdb where
  "demo_created = snd (create_reimage first_newest (demo_registry None) demo_io works 7 ''r1'' ''n1'' demo_body
     (demo_db [demo_node] []))"

lemma demo_created [simp]:
  "requests demo_created = [stamp Triggered (Msg '''') 7 (demo_request\<lparr>rq_scheduled := None, rq_created := 7\<rparr>)]"
  "nodes demo_created = [demo_node\<lparr>nr_image := ''img'', nr_pending := True\<rparr>]"
  by (simp_all add: demo_created_def create_reimage_def pre_checks_def check_image_ready_def submit_request_def
      create_request_def trigger_def get_request_def find_request_def get_node_def find_node_def resolve_provider_def
      resolve_bmc_def create_provider_def assign_image_def set_reimage_pending_def update_node_def update_status_def
      update_request_def works_def active_request_def stamp_def Let_def demo_defs)

lemma demo_reachable: "reimage_reachable first_newest by_time (demo_registry None) \<lparr>sdb = demo_created, batch = []\<rparr>"
  using reach_step [OF reach_start [of "\<lparr>sdb = demo_db [demo_node] [], batch = []\<rparr>" first_newest by_time
        "demo_registry None"] step_create [of first_newest by_time "demo_registry None" _ demo_io works 7 "''r1''" "''n1''" demo_body]]
  by (simp add: demo_created_def) (simp add: demo_db_def)

theorem requests_wellformed_witness:
  "distinct (map rq_id (requests demo_created)) \<and>
    rq_status (hd (requests demo_created)) = Triggered \<and> rq_triggered (hd (requests demo_created)) \<noteq> None"
proof -
  have "hd (requests demo_created) \<in> set (requests demo_created)" "rq_status (hd (requests demo_created)) = Triggered"
    by (simp_all add: stamp_def Let_def)
  then show ?thesis
    using requests_wellformed [OF demo_reachable [of id] first_newest.newest_row_axioms] by simp
qed


text \<open>A request that is canceled while the scheduler holds it in its batch.\<close>

definition demo_canceled :: server where
  "demo_canceled = \<lparr>sdb = demo_db [demo_node] [stamp Canceled (Msg ''canceled by operator'') 10 demo_request], batch = [''r1'']\<rparr>"

lemma demo_canceled_reachable: "reimage_reachable first_newest id (demo_registry None) demo_canceled"
proof -
  let ?s0 = "\<lparr>sdb = demo_db [demo_node] [], batch = []\<rparr>"
  let ?s1 = "\<lparr>sdb = demo_db [demo_node] [demo_request], batch = []\<rparr>"
  let ?s2 = "\<lparr>sdb = demo_db [demo_node] [demo_request], batch = [''r1'']\<rparr>"
  let ?step = "reimage_step first_newest id (demo_registry None)"
  have "reimage_reachable first_newest id (demo_registry None) ?s0" by (rule reach_start) (simp_all add: demo_db_def)
  moreover have "?step ?s0 ?s1"
    using step_create [of first_newest id "demo_registry None" ?s0 demo_io works 1 "''r1''" "''n1''" "demo_body\<lparr>cb_scheduled := Some 5\<rparr>"]
    by (simp add: create_reimage_def pre_checks_def check_image_ready_def submit_request_def
      create_request_def get_node_def find_node_def active_request_def Let_def demo_defs)
  moreover have "?step ?s1 ?s2"
    using step_tick [of ?s1 first_newest id "demo_registry None" None "''''" 9]
    by (simp add: scheduled_batch_def due_requests_def max_concurrent_def default_max_concurrent_def demo_defs)
  moreover have "?step ?s2 demo_canceled"
    using step_cancel [of first_newest id "demo_registry None" ?s2 None None None 10 "''r1''"]
    by (simp add: demo_canceled_def cancel_reimage_def get_request_def find_request_def update_status_def update_request_def
      set_reimage_pending_def update_node_def find_node_def stamp_def Let_def demo_defs)
  ultimately show ?thesis by (blast intro: reach_step)
qed


section \<open>The trigger\<close>

lemma get_request_None [simp]: "find_request rid db = Some r \<Longrightarrow> get_request None rid db = Inr r"
  by (simp add: get_request_def)

lemma get_node_None [simp]: "find_node nid db = Some n \<Longrightarrow> get_node None nid db = Inr n"
  by (simp add: get_node_def)

lemma works_sel [simp]: "ti_request works = None" "ti_node works = None" "ti_assign works = None" "ti_pending works = None"
  "ti_mark works = None"
  by (simp_all add: works_def)

lemma stamp_id [simp]: "rq_id (stamp s msg now r) = rq_id r" "rq_node (stamp s msg now r) = rq_node r"
  "rq_status (stamp s msg now r) = s"
  by (cases s; simp add: stamp_def Let_def)+

text \<open>The rows of one node, of one request.\<close>

lemma update_node_row:
  assumes "find_node nid db = Some n" and "\<And>n. nr_id (f n) = nr_id n" and "update_node None nid f db = (r, db')"
  shows "r = None" and "find_node k db' = (if k = nid then Some (f n) else find_node k db)" and "requests db' = requests db"
  using find_node_update [of f k None nid db, OF assms(2)] update_node_requests [of None nid f db] assms(1,3)
    update_node_works(1) [OF assms(1,2)]
  by auto

text \<open>A trigger whose calls up to the power cycle succeed.\<close>

lemma trigger_row:
  assumes "find_request rid db = Some req" and "find_node (rq_node req) db = Some n" and "resolve_provider reg n = Inr p"
  shows "find_node k (snd (trigger reg works now rid db)) =
      (if k = rq_node req then Some (n\<lparr>nr_image := rq_image req, nr_pending := True\<rparr>) else find_node k db)"
    and "requests (snd (trigger reg works now rid db)) = map (\<lambda>r. if rq_id r = rid then
      (case (if rq_dry req then None else power_cycle p) of
         None \<Rightarrow> stamp Triggered (Msg '''') now r | Some e \<Rightarrow> stamp Failed (Msg (''PowerCycle failed: '' @ e)) now r)
      else r) (requests db)"
    and "fst (trigger reg works now rid db) = (if rq_dry req then None else map_option Power_Cycle (power_cycle p))"
proof -
  have nid: "nr_id n = rq_node req" using find_node_id [OF assms(2)] .
  obtain r1 db1 where a: "assign_image None (rq_node req) (rq_image req) db = (r1, db1)" by fastforce
  note a1 = update_node_row [OF assms(2) _ a [unfolded assign_image_def], simplified]
  obtain r2 db2 where b: "set_reimage_pending None (rq_node req) True db1 = (r2, db2)" by fastforce
  have n1: "find_node (rq_node req) db1 = Some (n\<lparr>nr_image := rq_image req\<rparr>)" by (simp add: a1(2))
  note b1 = update_node_row [OF n1 _ b [unfolded set_reimage_pending_def], simplified]
  have "find_request rid db2 = Some req" using assms(1) find_request_same [of db2 db rid] a1(3) b1(3) by simp
  note facts = a b a1(1) b1(1) nid assms this
  have step: "trigger reg works now rid db =
      (case (if rq_dry req then None else power_cycle p) of
         None \<Rightarrow> (None, snd (update_status None rid Triggered (Msg '''') now db2))
       | Some e \<Rightarrow> (Some (Power_Cycle e), snd (update_status None rid Failed (Msg (''PowerCycle failed: '' @ e)) now db2)))"
    by (simp add: trigger_def mark_failed_def facts split: option.split)
  have st: "snd (update_status None rid s msg now db2) =
      db2\<lparr>requests := map (\<lambda>r. if rq_id r = rid then stamp s msg now r else r) (requests db2)\<rparr>" for s msg
    using facts by (simp add: update_status_def update_request_def)
  show "find_node k (snd (trigger reg works now rid db)) =
      (if k = rq_node req then Some (n\<lparr>nr_image := rq_image req, nr_pending := True\<rparr>) else find_node k db)"
    unfolding step by (auto simp: st a1(2) b1(2) split: option.splits)
  show "requests (snd (trigger reg works now rid db)) = map (\<lambda>r. if rq_id r = rid then
      (case (if rq_dry req then None else power_cycle p) of
         None \<Rightarrow> stamp Triggered (Msg '''') now r | Some e \<Rightarrow> stamp Failed (Msg (''PowerCycle failed: '' @ e)) now r)
      else r) (requests db)"
    unfolding step by (simp add: st a1(3) b1(3) split: option.splits)
  show "fst (trigger reg works now rid db) = (if rq_dry req then None else map_option Power_Cycle (power_cycle p))"
    unfolding step by (simp split: option.splits)
qed


lemma find_map_same:
  assumes "\<And>r. rq_id (f r) = rq_id r"
  shows "find (\<lambda>r. rq_id r = rid) (map (\<lambda>r. if rq_id r = rid then f r else r) rs) = map_option f (find (\<lambda>r. rq_id r = rid) rs)"
  by (induction rs) (simp_all add: assms)

lemma find_request_map:
  assumes "requests db' = map (\<lambda>r. if rq_id r = rid then f r else r) (requests db)" and "\<And>r. rq_id (f r) = rq_id r"
  shows "find_request rid db' = map_option f (find_request rid db)"
  using find_map_same [OF assms(2)] by (simp add: find_request_def assms(1))

text \<open>
  A trigger whose calls succeed marks the request as triggered whatever its status was, also when it was canceled
  after the scheduler had read it: the node has the image of the request and its reimage flag, no other node
  changes, and the next boot of a node that installs to disk runs the deploy agent.
\<close>

theorem trigger_ignores_status:
  fixes now :: int
  assumes "find_request rid db = Some req" and "find_node (rq_node req) db = Some n" and "resolve_provider reg n = Inr p"
    and "rq_dry req \<or> power_cycle p = None"
  defines "db' \<equiv> snd (trigger reg works now rid db)"
  shows "fst (trigger reg works now rid db) = None \<and> find_request rid db' = Some (stamp Triggered (Msg '''') now req) \<and>
    find_node (rq_node req) db' = Some (n\<lparr>nr_image := rq_image req, nr_pending := True\<rparr>) \<and>
    (\<forall>k. k \<noteq> rq_node req \<longrightarrow> find_node k db' = find_node k db)"
proof -
  note row = trigger_row [OF assms(1-3), where now = now]
  have "requests db' = map (\<lambda>r. if rq_id r = rid then stamp Triggered (Msg '''') now r else r) (requests db)"
    using row(2) assms(4) unfolding db'_def by (auto split: option.splits)
  from find_request_map [OF this stamp_id(1)] show ?thesis
    using row(1,3) assms(1,4) unfolding db'_def by auto
qed

lemma demo_rows [simp]:
  "find_request ''r1'' (demo_db ns (demo_request\<lparr>rq_status := s\<rparr> # rs)) = Some (demo_request\<lparr>rq_status := s\<rparr>)"
  "find_node ''n1'' (demo_db (demo_node # ns) rs) = Some demo_node"
  "resolve_provider (demo_registry a) demo_node = Inr \<lparr>power_cycle = a\<rparr>"
  "rq_node demo_request = ''n1''" "rq_image demo_request = ''img''" "rq_dry demo_request = False" "rq_status demo_request = Pending"
  "rq_id demo_request = ''r1''" "rq_bios demo_request = False"
  by (simp_all add: find_request_def find_node_def resolve_provider_def resolve_bmc_def create_provider_def demo_defs)

lemma demo_node_fields [simp]:
  "nr_id demo_node = ''n1''" "nr_mac demo_node = ''mac''" "nr_mode demo_node = ''block_install''"
  "nr_pending demo_node = False" "nr_failed_at demo_node = None" "nr_completed demo_node = None"
  "nr_verified demo_node = None" "nr_timeout demo_node = None" "nr_ldap_ready demo_node = None" "nr_image demo_node = ''''"
  by (simp_all add: demo_node_def new_node_def)

theorem trigger_ignores_status_witness:
  "rq_status (demo_request\<lparr>rq_status := Canceled\<rparr>) = Canceled \<and>
   find_request ''r1'' (snd (trigger (demo_registry None) works 9 ''r1'' (demo_db [demo_node] [demo_request\<lparr>rq_status := Canceled\<rparr>]))) =
     Some (stamp Triggered (Msg '''') 9 (demo_request\<lparr>rq_status := Canceled\<rparr>))"
  using trigger_ignores_status [of "''r1''" "demo_db [demo_node] [demo_request\<lparr>rq_status := Canceled\<rparr>]"
      "demo_request\<lparr>rq_status := Canceled\<rparr>" demo_node "demo_registry None" "\<lparr>power_cycle = None\<rparr>" 9]
  by simp

text \<open>
  When only the power cycle of a trigger fails, the request is failed with the error of the provider, but the
  node keeps the image it was given and its reimage flag: it counts as waiting for a reimage, and a node that
  installs to disk gets the deploy agent on its next boot.
\<close>

theorem power_failure_leaves_pending:
  fixes now :: int
  assumes "find_request rid db = Some req" and "find_node (rq_node req) db = Some n" and "resolve_provider reg n = Inr p"
    and "\<not> rq_dry req" and "power_cycle p = Some e" and "rq_image req \<noteq> ''''" and "nr_mode n = ''block_install''"
  defines "db' \<equiv> snd (trigger reg works now rid db)"
  shows "fst (trigger reg works now rid db) = Some (Power_Cycle e) \<and>
    (\<exists>r n'. find_request rid db' = Some r \<and> rq_status r = Failed \<and> rq_error r = Msg (''PowerCycle failed: '' @ e) \<and>
       find_node (rq_node req) db' = Some n' \<and> node_state n' = Reimage_Pending \<and> nr_image n' = rq_image req \<and>
       boot_route n' = Deploy_Script)"
proof -
  note row = trigger_row [OF assms(1-3), where now = now]
  have "requests db' = map (\<lambda>r. if rq_id r = rid then stamp Failed (Msg (''PowerCycle failed: '' @ e)) now r else r) (requests db)"
    using row(2) assms(4,5) unfolding db'_def by auto
  from find_request_map [OF this stamp_id(1)]
  have "find_request rid db' = Some (stamp Failed (Msg (''PowerCycle failed: '' @ e)) now req)" using assms(1) by simp
  moreover have "rq_error (stamp Failed m now req) = m" for m by (simp add: stamp_def)
  moreover have "find_node (rq_node req) db' = Some (n\<lparr>nr_image := rq_image req, nr_pending := True\<rparr>)"
    using row(1) unfolding db'_def by simp
  ultimately show ?thesis
    using row(3) assms(4-7) unfolding db'_def by (simp add: node_state_def boot_route_def)
qed

theorem power_failure_leaves_pending_witness:
  "fst (trigger (demo_registry (Some ''down'')) works 9 ''r1'' (demo_db [demo_node] [demo_request\<lparr>rq_status := Pending\<rparr>])) =
     Some (Power_Cycle ''down'')"
  using power_failure_leaves_pending [of "''r1''" "demo_db [demo_node] [demo_request\<lparr>rq_status := Pending\<rparr>]"
      "demo_request\<lparr>rq_status := Pending\<rparr>" demo_node "demo_registry (Some ''down'')" "\<lparr>power_cycle = Some ''down''\<rparr>" "''down''" 9]
  by simp

section \<open>The routing of a boot\<close>




section \<open>The reports of a node\<close>

definition no_active :: "string \<Rightarrow> rdb \<Rightarrow> bool" where
  "no_active nid db \<longleftrightarrow> (\<forall>r \<in> set (requests db). rq_node r = nid \<longrightarrow> is_terminal (rq_status r))"

lemma no_active_same: "requests db' = requests db \<Longrightarrow> no_active nid db' = no_active nid db"
  by (simp add: no_active_def)

lemma close_active_none: "is_terminal s \<Longrightarrow> no_active nid (snd (close_active None nid s msg now db))"
  by (simp add: no_active_def close_active_def ball_Un)

lemma find_map_keep: "(\<And>r. rq_id (f r) = rq_id r) \<Longrightarrow>
  find (\<lambda>r. rq_id r = rid) (map f rs) = map_option f (find (\<lambda>r. rq_id r = rid) rs)"
  by (induction rs) simp_all

lemma close_active_find:
  assumes "is_terminal s"
  shows "find_request rid (snd (close_active None nid s msg now db)) =
    map_option (\<lambda>r. if rq_node r = nid \<and> \<not> is_terminal (rq_status r)
      then r\<lparr>rq_status := s, rq_error := Msg msg, rq_completed := Some now\<rparr> else r) (find_request rid db)"
proof -
  have "requests (snd (close_active None nid s msg now db)) =
      map (\<lambda>r. if rq_node r = nid \<and> \<not> is_terminal (rq_status r)
        then r\<lparr>rq_status := s, rq_error := Msg msg, rq_completed := Some now\<rparr> else r) (requests db)"
    using assms by (simp add: close_active_def)
  then show ?thesis unfolding find_request_def by (simp only:) (rule find_map_keep, simp)
qed

lemma close_active_absent:
  assumes "no_active nid db"
  shows "requests (snd (close_active a nid s msg now db)) = requests db"
proof -
  have "map (\<lambda>r. if rq_node r = nid \<and> \<not> is_terminal (rq_status r) then f r else r) (requests db) = requests db" for f
    by (rule map_idI) (use assms in \<open>auto simp: no_active_def\<close>)
  then show ?thesis by (simp add: close_active_def split: option.splits)
qed

lemma find_node_close [simp]: "find_node k (snd (close_active a nid s msg now db)) = find_node k db"
  by (rule find_node_same) simp

text \<open>The two reports of a successful deployment, all calls succeeding.\<close>

lemma deploy_complete_row:
  assumes "find_node nid db = Some n"
  shows "fst (deploy_complete None None None now nid db) = None"
    and "find_node nid (snd (deploy_complete None None None now nid db)) =
      Some (n\<lparr>nr_completed := Some now, nr_verified := None, nr_timeout := None, nr_pending := False\<rparr>)"
    and "find_request rid (snd (deploy_complete None None None now nid db)) =
      map_option (\<lambda>r. if rq_node r = nid \<and> \<not> is_terminal (rq_status r)
        then r\<lparr>rq_status := Complete, rq_error := Msg '''', rq_completed := Some now\<rparr> else r) (find_request rid db)"
    and "no_active nid (snd (deploy_complete None None None now nid db))"
proof -
  obtain r db' where a: "record_deploy_succeeded None now nid db = (r, db')" by fastforce
  note row = update_node_row [OF assms _ a [unfolded record_deploy_succeeded_def], simplified]
  have eq: "deploy_complete None None None now nid db = (None, snd (close_active None nid Complete '''' now db'))"
    using assms a row(1) by (simp add: deploy_complete_def)
  show "fst (deploy_complete None None None now nid db) = None" by (simp add: eq)
  show "find_node nid (snd (deploy_complete None None None now nid db)) =
      Some (n\<lparr>nr_completed := Some now, nr_verified := None, nr_timeout := None, nr_pending := False\<rparr>)"
    by (simp add: eq row(2))
  show "find_request rid (snd (deploy_complete None None None now nid db)) =
      map_option (\<lambda>r. if rq_node r = nid \<and> \<not> is_terminal (rq_status r)
        then r\<lparr>rq_status := Complete, rq_error := Msg '''', rq_completed := Some now\<rparr> else r) (find_request rid db)"
    by (simp add: eq close_active_find find_request_same [OF row(3)])
  show "no_active nid (snd (deploy_complete None None None now nid db))" by (simp add: eq close_active_none)
qed

lemma verify_boot_row:
  fixes l :: bool and p :: boot_report
  assumes "find_node nid db = Some n" and "nr_verified n = None"
  defines "ldap \<equiv> br_sssd p \<noteq> '''' \<and> l"
  shows "fst (verify_boot None None None (None, l) None None now nid p db) = None"
    and "fst (snd (verify_boot None None None (None, l) None None now nid p db))"
    and "find_node nid (snd (snd (verify_boot None None None (None, l) None None now nid p db))) =
      Some (n\<lparr>nr_verified := Some now, nr_seen := Some now, nr_ldap_ready :=
        (if ldap then Some (br_pam p \<and> is_sssd_connected (br_sssd p)) else nr_ldap_ready n)\<rparr>)"
    and "no_active nid db \<Longrightarrow> requests (snd (snd (verify_boot None None None (None, l) None None now nid p db))) = requests db"
    and "no_active nid (snd (snd (verify_boot None None None (None, l) None None now nid p db)))"
proof -
  let ?f = "\<lambda>n. n\<lparr>nr_verified := Some now, nr_seen := Some now\<rparr>"
  obtain r db1 where u: "update_node None nid ?f db = (r, db1)" by fastforce
  note row = update_node_row [OF assms(1) _ u, simplified]
  have a: "record_verify_booted None None now nid db = (Inr True, db1)"
    using assms(1,2) u row(1) by (simp add: record_verify_booted_def)
  define db2 where "db2 = (if ldap then snd (record_ldap_ready None nid (br_pam p \<and> is_sssd_connected (br_sssd p)) db1) else db1)"
  have eq: "verify_boot None None None (None, l) None None now nid p db =
      (None, True, snd (close_active None nid Complete ''closed by verify-boot'' now db2))"
    using assms(1) a by (simp add: verify_boot_def db2_def ldap_def)
  have n2: "find_node nid db2 = Some (n\<lparr>nr_verified := Some now, nr_seen := Some now, nr_ldap_ready :=
      (if ldap then Some (br_pam p \<and> is_sssd_connected (br_sssd p)) else nr_ldap_ready n)\<rparr>)"
    using find_node_update [of "\<lambda>n. n\<lparr>nr_ldap_ready := Some (br_pam p \<and> is_sssd_connected (br_sssd p))\<rparr>" nid None nid db1] row(2)
    by (simp add: db2_def record_ldap_ready_def)
  have q2: "requests db2 = requests db" by (simp add: db2_def row(3))
  show "fst (verify_boot None None None (None, l) None None now nid p db) = None"
    and "fst (snd (verify_boot None None None (None, l) None None now nid p db))" by (simp_all add: eq)
  show "find_node nid (snd (snd (verify_boot None None None (None, l) None None now nid p db))) =
      Some (n\<lparr>nr_verified := Some now, nr_seen := Some now, nr_ldap_ready :=
        (if ldap then Some (br_pam p \<and> is_sssd_connected (br_sssd p)) else nr_ldap_ready n)\<rparr>)"
    by (simp add: eq n2)
  show "requests (snd (snd (verify_boot None None None (None, l) None None now nid p db))) = requests db" if "no_active nid db"
    using that close_active_absent [of nid db2] q2 by (simp add: eq no_active_same [OF q2])
  show "no_active nid (snd (snd (verify_boot None None None (None, l) None None now nid p db)))"
    by (simp add: eq close_active_none)
qed




text \<open>A status of the directory that is left from the deployment before.\<close>

lemma stale_ldap_ready:
  assumes "find_node nid db = Some n" and "nr_ldap_ready n = Some False" and "br_sssd p = ''''"
    and "\<forall>f. nr_failed_at n = Some f \<longrightarrow> f \<le> t2"
  shows "\<exists>n'. find_node nid (snd (snd (verify_boot None None None (None, l) None None t3 nid p
    (snd (deploy_complete None None None t2 nid db))))) = Some n' \<and> node_state n' = Ldap_Failed"
  using verify_boot_row(3) [OF deploy_complete_row(2) [OF assms(1), of t2], where l = l and now = t3 and p = p] assms(2-4)
  by (auto simp: node_state_def split: option.splits)


lemma fail_active_nodes [simp]: "nodes (fail_active newest qa ua now nid p db) = nodes db"
  by (simp add: fail_active_def update_failed_def split: sum.splits option.splits)

lemma fail_active_request:
  assumes "active_request newest None nid db = Inr (Some act)" and "act \<in> set (requests db)"
  shows "\<exists>r. find_request (rq_id act) (fail_active newest None None now nid p db) = Some r \<and> rq_status r = Failed \<and>
    rq_exit r = Some (fp_exit p, fp_name p, fp_phase p)"
proof -
  have "find_request (rq_id act) db \<noteq> None" using assms(2) by (auto simp: find_request_def find_None_iff)
  then show ?thesis
    using find_request_update [of "\<lambda>r. r\<lparr>rq_status := Failed, rq_error := Msg m, rq_completed := Some now,
        rq_exit := Some (fp_exit p, fp_name p, fp_phase p)\<rparr>" "rq_id act" "rq_id act" db for m]
    by (auto simp: fail_active_def assms(1) update_failed_def)
qed

text \<open>
  A node with the reimage flag that reports a failed deployment has its active request failed with the exit
  details and no active request left, but it keeps the flag: its state is not that of a failed deployment, it is
  still that of waiting for a reimage, and it boots as before.
\<close>

theorem deploy_failed_keeps_flag:
  fixes now :: int and p :: failed_payload
  assumes "find_node nid db = Some n" and "nr_pending n" and "newest_row newest"
  defines "db' \<equiv> snd (deploy_failed newest None None None None None now nid p db)"
  shows "fst (deploy_failed newest None None None None None now nid p db) = None \<and>
    (\<exists>n'. find_node nid db' = Some n' \<and> nr_failed_at n' = Some now \<and> node_state n' = Reimage_Pending \<and>
       boot_route n' = boot_route n) \<and>
    no_active nid db' \<and>
    (\<forall>act. active_request newest None nid db = Inr (Some act) \<longrightarrow>
       (\<exists>r. find_request (rq_id act) db' = Some r \<and> rq_status r = Failed \<and>
          rq_exit r = Some (fp_exit p, fp_name p, fp_phase p)))"
proof -
  obtain x db1 where u: "record_deploy_failed None now nid db = (x, db1)" by fastforce
  note row = update_node_row [OF assms(1) _ u [unfolded record_deploy_failed_def], simplified]
  have eq: "deploy_failed newest None None None None None now nid p db = (None, snd (close_active None nid Failed
      ''superseded by newer deploy-failed'' now (fail_active newest None None now nid p db1)))"
    using assms(1) u row(1) by (simp add: deploy_failed_def)
  have same: "active_request newest None nid db1 = active_request newest None nid db"
    using row(3) by (simp add: active_request_def)
  have act: "\<exists>r. find_request (rq_id act) db' = Some r \<and> rq_status r = Failed \<and>
      rq_exit r = Some (fp_exit p, fp_name p, fp_phase p)" if a: "active_request newest None nid db = Inr (Some act)" for act
  proof -
    have "act \<in> set (requests db1)" using newest_row.active_Some [OF assms(3) a] row(3) by simp
    from fail_active_request [OF a [folded same] this, of now p] obtain r where
      "find_request (rq_id act) (fail_active newest None None now nid p db1) = Some r" "rq_status r = Failed"
      "rq_exit r = Some (fp_exit p, fp_name p, fp_phase p)" by blast
    then show ?thesis unfolding db'_def eq by (simp add: close_active_find)
  qed
  have "find_node nid db' = Some (n\<lparr>nr_failed_at := Some now\<rparr>)"
    using find_node_same [OF fail_active_nodes, of nid newest None None now nid p db1] row(2) by (simp add: db'_def eq)
  then show ?thesis
    using act close_active_none [of Failed nid] assms(2) unfolding db'_def
    by (auto simp: eq node_state_def boot_route_def Let_def)
qed

theorem deploy_failed_keeps_flag_witness:
  "no_active ''n1'' (snd (deploy_failed first_newest None None None None None 9 ''n1''
     \<lparr>fp_exit = 3, fp_name = ''disk'', fp_phase = ''partition'', fp_message = ''''\<rparr> demo_created))"
  using deploy_failed_keeps_flag [of "''n1''" demo_created "demo_node\<lparr>nr_image := ''img'', nr_pending := True\<rparr>" first_newest 9
      "\<lparr>fp_exit = 3, fp_name = ''disk'', fp_phase = ''partition'', fp_message = ''''\<rparr>"]
  by (simp add: find_node_def first_newest.newest_row_axioms)

section \<open>The reaper\<close>

lemma active_request_None: "active_request newest None nid db = Inr None \<longleftrightarrow> no_active nid db"
  by (auto simp: active_request_def no_active_def Let_def filter_empty_conv)

lemma active_request_cases:
  "active_request newest None nid db = Inr None \<or> (\<exists>r. active_request newest None nid db = Inr (Some r))"
  by (simp add: active_request_def Let_def)

text \<open>The flag of a node, as the reaper leaves it.\<close>

definition reaped :: "rdb \<Rightarrow> bool \<Rightarrow> node_row \<Rightarrow> node_row" where
  "reaped db listed n = (if listed \<and> no_active (nr_id n) db then n\<lparr>nr_pending := False\<rparr> else n)"

lemma pending_off: "\<not> nr_pending n \<Longrightarrow> n\<lparr>nr_pending := False\<rparr> = n"
  by (cases n) simp

lemma pending_on: "nr_pending n \<Longrightarrow> n\<lparr>nr_pending := True\<rparr> = n"
  by (cases n) simp

lemma reap_nodes_row:
  "find_node k (reap_nodes newest (\<lambda>_. None) (\<lambda>_. None) ns db) =
     map_option (reaped db (\<exists>m \<in> set ns. nr_id m = k \<and> nr_pending m)) (find_node k db)"
proof (induction ns arbitrary: db)
  case Nil
  then show ?case by (simp add: reaped_def map_option.id [unfolded id_def])
next
  case (Cons m ns)
  define db1 where "db1 = (if nr_pending m \<and> no_active (nr_id m) db then snd (set_reimage_pending None (nr_id m) False db) else db)"
  have step: "reap_nodes newest (\<lambda>_. None) (\<lambda>_. None) (m # ns) db = reap_nodes newest (\<lambda>_. None) (\<lambda>_. None) ns db1"
    using active_request_cases [of newest "nr_id m" db] active_request_None [of newest "nr_id m" db]
    unfolding db1_def by (cases "nr_pending m"; elim disjE exE) simp_all
  have q: "no_active j db1 = no_active j db" for j by (rule no_active_same) (simp add: db1_def)
  have "find_node k db1 = map_option (reaped db (nr_id m = k \<and> nr_pending m)) (find_node k db)"
  proof (cases "find_node k db")
    case (Some n)
    have "nr_id n = k" using find_node_id [OF Some] .
    then show ?thesis using Some
      by (simp add: db1_def reaped_def set_reimage_pending_def find_node_update [of "\<lambda>n. n\<lparr>nr_pending := False\<rparr>"])
  qed (auto simp: db1_def set_reimage_pending_def find_node_update [of "\<lambda>n. n\<lparr>nr_pending := False\<rparr>"])
  then show ?case unfolding step Cons.IH
    by (cases "find_node k db") (auto simp: reaped_def q)
qed

text \<open>
  A run of the reaper whose calls succeed clears the reimage flag of exactly the nodes without an active
  request; nothing else of a node and no request changes.
\<close>

theorem reap_exact:
  fixes newest :: "request list \<Rightarrow> request"
  shows "find_node k (reap newest None (\<lambda>_. None) (\<lambda>_. None) db) =
    map_option (\<lambda>n. n\<lparr>nr_pending := nr_pending n \<and> (\<exists>r \<in> set (requests db). rq_node r = k \<and> \<not> is_terminal (rq_status r))\<rparr>)
      (find_node k db) \<and> requests (reap newest None (\<lambda>_. None) (\<lambda>_. None) db) = requests db"
proof -
  have listed: "(\<exists>m \<in> set (nodes db). nr_id m = k \<and> nr_pending m)" if "find_node k db = Some n" "nr_pending n" for n
    using that by (auto simp: find_node_def find_Some_iff)
  have "reaped db (\<exists>m \<in> set (nodes db). nr_id m = k \<and> nr_pending m) n =
      n\<lparr>nr_pending := nr_pending n \<and> (\<exists>r \<in> set (requests db). rq_node r = k \<and> \<not> is_terminal (rq_status r))\<rparr>"
    if n: "find_node k db = Some n" for n
  proof (cases "nr_pending n")
    case True
    have "(\<exists>m \<in> set (nodes db). nr_id m = k \<and> nr_pending m)" using listed [OF n True] .
    then show ?thesis using True find_node_id [OF n] by (auto simp: reaped_def no_active_def pending_on)
  qed (simp add: reaped_def pending_off)
  then show ?thesis using workers_requests(1) [of newest None "\<lambda>_. None" "\<lambda>_. None" db]
    by (cases "find_node k db") (simp_all add: reap_def reap_nodes_row)
qed


section \<open>One active request per node\<close>

definition active_of :: "string \<Rightarrow> rdb \<Rightarrow> request list" where
  "active_of nid db = filter (\<lambda>r. rq_node r = nid \<and> \<not> is_terminal (rq_status r)) (requests db)"

lemma active_of_none: "no_active nid db \<longleftrightarrow> active_of nid db = []"
  by (auto simp: no_active_def active_of_def filter_empty_conv)

lemma submit_one_active:
  assumes "\<And>k. length (active_of k db) \<le> 1" and "no_active (rq_node r) db"
  shows "length (active_of k (snd (submit_request reg ins tio now r db))) \<le> 1"
  using submit_requests [of reg ins tio now r db]
proof (elim disjE exE conjE)
  fix r' assume r': "rq_node r' = rq_node r" "requests (snd (submit_request reg ins tio now r db)) = requests db @ [r']"
  have "active_of (rq_node r) db = []" using assms(2) active_of_none by blast
  with r' assms(1) [of k] show ?thesis by (cases "rq_node r = k") (simp_all add: active_of_def)
qed (use assms(1) [of k] in \<open>simp add: active_of_def\<close>)

lemma pre_checks_active: "pre_checks newest io uses_image n db = None \<Longrightarrow> no_active (nr_id n) db"
  by (auto simp: pre_checks_def active_request_def no_active_def Let_def filter_empty_conv
      split: option.splits sum.splits if_splits)

lemma create_one_active:
  assumes "\<And>k. length (active_of k db) \<le> 1" and "\<not> cb_force body"
  shows "length (active_of k (snd (create_reimage newest reg io tio now rid nid body db))) \<le> 1"
proof -
  have "no_active nid db" if "get_node a nid db = Inr n" "pre_checks newest io u n db = None" for a n u
    using that pre_checks_active [of newest io u n db] find_node_id [of nid db n]
    by (auto simp: get_node_def split: option.splits)
  then have "length (active_of k (snd (submit_request reg (ci_insert io) tio now r db))) \<le> 1"
    if "get_node a nid db = Inr n" "pre_checks newest io u n db = None" "rq_node r = nid" for a n u r
    using submit_one_active [OF assms(1)] that by blast
  then show ?thesis using assms
    by (auto simp: create_reimage_def Let_def new_request_def split: sum.splits option.splits)
qed

lemma retry_no_active:
  assumes "newest_row newest" and "requests_ok db" and "get_request q rid db = Inr orig" and "rq_status orig = Failed"
    and "active_request newest qa (rq_node orig) db = Inr act" and "\<forall>a. act = Some a \<longrightarrow> rq_id a = rid"
  shows "no_active (rq_node orig) db"
proof (cases act)
  case None
  with assms(5) show ?thesis
    by (auto simp: active_request_def no_active_def Let_def filter_empty_conv split: option.splits if_splits)
next
  case (Some a)
  note a = newest_row.active_Some [OF assms(1) assms(5) [unfolded Some]]
  have "find_request rid db = Some orig" using assms(3) by (simp add: get_request_Inr)
  from find_request_unique [OF assms(2) this, of a] a assms(4,6) Some show ?thesis by simp
qed

text \<open>
  While no node has two active requests, neither a request for a reimage that is not forced nor a retry gives a
  node a second one, scheduled ones included.
\<close>

theorem one_active_kept:
  assumes "newest_row newest" and "requests_ok db" and "\<And>k. length (active_of k db) \<le> 1"
  shows "(\<not> cb_force body \<longrightarrow> length (active_of k (snd (create_reimage newest reg io tio now rid nid body db))) \<le> 1) \<and>
    length (active_of k (snd (retry_reimage newest reg q qa ins tio now fresh rid db))) \<le> 1"
proof
  show "\<not> cb_force body \<longrightarrow> length (active_of k (snd (create_reimage newest reg io tio now rid nid body db))) \<le> 1"
    using create_one_active [OF assms(3)] by blast
  have "length (active_of k (snd (submit_request reg ins tio now r db))) \<le> 1"
    if "get_request q rid db = Inr orig" "rq_status orig = Failed" "active_request newest qa (rq_node orig) db = Inr act"
      "\<forall>a. act = Some a \<longrightarrow> rq_id a = rid" "rq_node r = rq_node orig" for orig act r
    using submit_one_active [OF assms(3)] retry_no_active [OF assms(1,2) that(1-4)] that(5) by simp
  then show "length (active_of k (snd (retry_reimage newest reg q qa ins tio now fresh rid db))) \<le> 1"
    using assms(3) by (auto simp: retry_reimage_def new_request_def split: sum.splits option.splits if_splits)
qed

theorem one_active_kept_witness:
  "length (active_of ''n1'' (snd (create_reimage first_newest (demo_registry None) demo_io works 9 ''r2'' ''n1'' demo_body demo_created))) \<le> 1"
proof -
  have ok: "requests_ok demo_created" using reachable_ok [OF demo_reachable first_newest.newest_row_axioms] by simp
  have "length (active_of k demo_created) \<le> 1" for k by (simp add: active_of_def)
  from one_active_kept [OF first_newest.newest_row_axioms ok this] show ?thesis
    by (simp add: demo_body_def)
qed

text \<open>The trigger of a request that was canceled in the meantime can.\<close>

lemma revived_second_active:
  "length (active_of ''n1'' (snd (trigger (demo_registry None) works 9 ''r1''
     (demo_db [demo_node] [demo_request\<lparr>rq_status := Canceled\<rparr>, demo_request\<lparr>rq_id := ''r2''\<rparr>])))) = 2"
proof -
  have "requests (snd (trigger (demo_registry None) works 9 ''r1''
      (demo_db [demo_node] [demo_request\<lparr>rq_status := Canceled\<rparr>, demo_request\<lparr>rq_id := ''r2''\<rparr>]))) =
      [stamp Triggered (Msg '''') 9 (demo_request\<lparr>rq_status := Canceled\<rparr>), demo_request\<lparr>rq_id := ''r2''\<rparr>]"
    using trigger_row(2) [of "''r1''" "demo_db [demo_node] [demo_request\<lparr>rq_status := Canceled\<rparr>, demo_request\<lparr>rq_id := ''r2''\<rparr>]"
        "demo_request\<lparr>rq_status := Canceled\<rparr>" demo_node "demo_registry None" "\<lparr>power_cycle = None\<rparr>", where now = 9]
    by simp (simp add: demo_db_def)
  then show ?thesis by (simp add: active_of_def)
qed

text \<open>Canceling one of two requests clears the flag of the node the other still needs.\<close>

lemma cancel_clears_flag:
  assumes "find_request rid db = Some req" and "\<not> is_terminal (rq_status req)" and "find_node (rq_node req) db = Some n"
  shows "find_node (rq_node req) (snd (cancel_reimage None None None now rid db)) = Some (n\<lparr>nr_pending := False\<rparr>)"
  using assms
  by (auto simp: cancel_reimage_def Let_def set_reimage_pending_def update_status_def update_request_def find_node_update)


section \<open>Retries and early reports\<close>

lemma create_request_fresh:
  "\<forall>q \<in> set (requests db). rq_id q \<noteq> rq_id r \<Longrightarrow> create_request None r db = (None, db\<lparr>requests := requests db @ [r]\<rparr>)"
  by (auto simp: create_request_def)

lemma find_last: "\<forall>x \<in> set xs. \<not> P x \<Longrightarrow> P y \<Longrightarrow> find P (xs @ [y]) = Some y"
  by (induction xs) auto

lemma find_request_append:
  "\<forall>q \<in> set (requests db). rq_id q \<noteq> rq_id r \<Longrightarrow> find_request (rq_id r) (db\<lparr>requests := requests db @ [r]\<rparr>) = Some r"
  unfolding find_request_def by (simp add: find_last)

text \<open>
  The retry of a failed request does not keep that it was for the BIOS settings only: when its calls succeed, the
  node is told at its next registration to deploy the image.
\<close>

theorem retry_deploys_image:
  fixes now :: int
  assumes "newest_row newest" and "find_request rid db = Some orig" and "rq_status orig = Failed"
    and "no_active (rq_node orig) db" and "\<forall>q \<in> set (requests db). rq_id q \<noteq> fresh"
    and "find_node (rq_node orig) db = Some n" and "resolve_provider reg n = Inr p"
    and "rq_dry orig \<or> power_cycle p = None"
  defines "db' \<equiv> snd (retry_reimage newest reg None None None works now fresh rid db)"
  shows "fst (retry_reimage newest reg None None None works now fresh rid db) = Triggered_Reply \<and>
    (\<exists>n'. find_node (rq_node orig) db' = Some n' \<and> register_action newest None n' db' = Deploy_Action (rq_dry orig))"
proof -
  let ?r = "new_request fresh (rq_node orig) (rq_image orig) None (rq_dry orig) False now"
  let ?db = "db\<lparr>requests := requests db @ [?r]\<rparr>"
  have fresh: "\<forall>q \<in> set (requests db). rq_id q \<noteq> rq_id ?r" using assms(5) by simp
  have r: "rq_id ?r = fresh" "rq_node ?r = rq_node orig" "rq_image ?r = rq_image orig" "rq_dry ?r = rq_dry orig" "\<not> rq_bios ?r"
    by (simp_all add: new_request_def)
  have found: "find_request fresh ?db = Some ?r" using find_request_append [OF fresh] by simp
  have node: "find_node (rq_node ?r) ?db = Some n" using assms(6) r(2) by simp
  note row = trigger_row [OF found node assms(7), where now = now]
  obtain e db2 where tr: "trigger reg works now fresh ?db = (e, db2)" by fastforce
  have pc: "(if rq_dry ?r then None else power_cycle p) = None" using r(4) assms(8) by auto
  have e: "e = None" using row(3) tr pc by (simp split: if_splits)
  have reqs: "requests db2 = requests db @ [stamp Triggered (Msg '''') now ?r]"
  proof -
    have "map (\<lambda>q. if rq_id q = fresh then stamp Triggered (Msg '''') now q else q) (requests db) = requests db"
      using assms(5) by (intro map_idI) simp
    then show ?thesis using row(2) tr r(1) unfolding pc option.case by simp
  qed
  have eq: "retry_reimage newest reg None None None works now fresh rid db = (Triggered_Reply, db2)"
  proof -
    have "active_request newest None (rq_node orig) db = Inr None" using assms(4) active_request_None by blast
    moreover have "rq_scheduled ?r = None" by (simp add: new_request_def)
    ultimately show ?thesis using assms(2,3) create_request_fresh [OF fresh] tr e r(1)
      by (simp add: retry_reimage_def submit_request_def)
  qed
  have "active_request newest None (rq_node orig) db2 = Inr (Some (stamp Triggered (Msg '''') now ?r))"
  proof -
    have only: "filter (\<lambda>q. rq_node q = rq_node orig \<and> \<not> is_terminal (rq_status q)) (requests db2) =
        [stamp Triggered (Msg '''') now ?r]"
      using assms(4) r(2) unfolding reqs no_active_def by (simp add: filter_empty_conv)
    have "newest [q] = q" for q
      using newest_row.newest_in [OF assms(1), of "[q]"] by simp
    then show ?thesis by (simp add: active_request_def only)
  qed
  moreover have "rq_dry (stamp Triggered (Msg '''') now ?r) = rq_dry orig" "\<not> rq_bios (stamp Triggered (Msg '''') now ?r)"
    by (simp_all add: stamp_def new_request_def)
  moreover have "find_node (rq_node orig) db2 = Some (n\<lparr>nr_image := rq_image orig, nr_pending := True\<rparr>)"
    using row(1) tr r(2,3) by simp
  ultimately show ?thesis unfolding db'_def eq
    using find_node_id [OF assms(6)] by (simp add: register_action_def)
qed

theorem retry_deploys_image_witness:
  "rq_bios (demo_request\<lparr>rq_status := Failed, rq_bios := True\<rparr>) \<and>
   fst (retry_reimage first_newest (demo_registry None) None None None works 9 ''r2'' ''r1''
     (demo_db [demo_node] [demo_request\<lparr>rq_status := Failed, rq_bios := True\<rparr>])) = Triggered_Reply"
proof -
  let ?q = "demo_request\<lparr>rq_status := Failed, rq_bios := True\<rparr>"
  have "find_request ''r1'' (demo_db [demo_node] [?q]) = Some ?q" "no_active ''n1'' (demo_db [demo_node] [?q])"
    "\<forall>q \<in> set (requests (demo_db [demo_node] [?q])). rq_id q \<noteq> ''r2''"
    by (simp_all add: find_request_def demo_db_def no_active_def)
  then show ?thesis
    using retry_deploys_image [of first_newest "''r1''" "demo_db [demo_node] [?q]" ?q "''r2''" demo_node "demo_registry None"
        "\<lparr>power_cycle = None\<rparr>" 9] first_newest.newest_row_axioms
    by simp
qed

text \<open>
  The first boot report of the system that is about to be replaced completes the request that was triggered to
  replace it; the node keeps the flag.
\<close>

lemma early_report_completes:
  assumes "find_node nid db = Some n" and "nr_pending n" and "nr_verified n = None"
    and "find_request rid db = Some r" and "rq_node r = nid" and "rq_status r = Triggered"
  shows "\<exists>n' r'. find_node nid (snd (snd (verify_boot None None None (None, l) None None now nid p db))) = Some n' \<and>
      node_state n' = Reimage_Pending \<and>
      find_request rid (snd (snd (verify_boot None None None (None, l) None None now nid p db))) = Some r' \<and> rq_status r' = Complete"
proof -
  obtain x db1 where u: "update_node None nid (\<lambda>n. n\<lparr>nr_verified := Some now, nr_seen := Some now\<rparr>) db = (x, db1)" by fastforce
  note row = update_node_row [OF assms(1) _ u, simplified]
  have rec: "record_verify_booted None None now nid db = (Inr True, db1)"
    using assms(1,3) u row(1) by (simp add: record_verify_booted_def)
  have "find_request rid (snd (snd (verify_boot None None None (None, l) None None now nid p db))) =
      Some (r\<lparr>rq_status := Complete, rq_error := Msg ''closed by verify-boot'', rq_completed := Some now\<rparr>)"
    using assms(1,4-6) rec find_request_same [OF row(3)]
    by (simp add: verify_boot_def close_active_find Let_def find_request_same [OF node_ops_requests(6)])
  then show ?thesis using verify_boot_row(3) [OF assms(1,3), where now = now and l = l and p = p] assms(2)
    by (simp add: node_state_def)
qed

end
