(* ===== verification/Reimage_Group.thy ===== *)
theory Reimage_Group
  imports Reimage_Life
begin

text \<open>
  The rolling reimage of a group (\<open>internal/reimage/group.go\<close>), its job table (\<open>internal/db/db.go\<close>), the
  handlers of the API (\<open>internal/server/handlers/node_groups.go\<close>) and the resumption at start-up
  (\<open>internal/server/reimage_workers.go\<close>). The nodes of a wave run concurrently; here they run one after the
  other in an order given by an argument. The events for the browser are left out.
\<close>

section \<open>Jobs\<close>

definition find_job :: "string \<Rightarrow> rdb \<Rightarrow> group_job option" where
  "find_job jid db = find (\<lambda>j. gj_id j = jid) (jobs db)"

definition get_job :: "answer \<Rightarrow> string \<Rightarrow> rdb \<Rightarrow> db_error + group_job" where
  "get_job a jid db =
     (case a of Some e \<Rightarrow> Inl (Db_Error e)
      | None \<Rightarrow> (case find_job jid db of None \<Rightarrow> Inl Not_Found | Some j \<Rightarrow> Inr j))"

definition create_job :: "answer \<Rightarrow> group_job \<Rightarrow> rdb \<Rightarrow> db_error option \<times> rdb" where
  "create_job a j db =
     (case a of Some e \<Rightarrow> (Some (Db_Error e), db)
      | None \<Rightarrow>
          (if \<exists>k \<in> set (jobs db). gj_id k = gj_id j then (Some (Db_Error ''UNIQUE constraint failed''), db)
           else (None, db\<lparr>jobs := jobs db @ [j]\<rparr>)))"

text \<open>The UPDATE of the fields that change; the number of rows is not checked.\<close>

definition update_job :: "answer \<Rightarrow> group_job \<Rightarrow> rdb \<Rightarrow> db_error option \<times> rdb" where
  "update_job a j db =
     (case a of Some e \<Rightarrow> (Some (Db_Error e), db)
      | None \<Rightarrow>
          (None, db\<lparr>jobs := map (\<lambda>k. if gj_id k = gj_id j
             then k\<lparr>gj_status := gj_status j, gj_total := gj_total j, gj_triggered := gj_triggered j,
               gj_succeeded := gj_succeeded j, gj_failed := gj_failed j, gj_error := gj_error j\<rparr> else k) (jobs db)\<rparr>))"

definition resume_job :: "answer \<Rightarrow> string \<Rightarrow> rdb \<Rightarrow> db_error option \<times> rdb" where
  "resume_job a jid db =
     (case a of Some e \<Rightarrow> (Some (Db_Error e), db)
      | None \<Rightarrow>
          (None, db\<lparr>jobs := map (\<lambda>k. if gj_id k = jid \<and> gj_status k = ''paused'' then k\<lparr>gj_status := ''running''\<rparr> else k)
             (jobs db)\<rparr>))"

section \<open>One node, one wave\<close>

text \<open>The answers of the calls, per node or per wave; \<open>gi_order\<close> is the order in which the nodes of a wave run.\<close>

record group_io =
  gi_insert :: "string \<Rightarrow> answer"
  gi_fresh :: "string \<Rightarrow> string"
  gi_trigger :: "string \<Rightarrow> trigger_io"
  gi_now :: "string \<Rightarrow> int"
  gi_job :: "nat \<Rightarrow> answer"
  gi_update :: "string \<Rightarrow> answer"
  gi_final :: answer
  gi_order :: "string list \<Rightarrow> string list"

record wave_state =
  ws_db :: rdb
  ws_triggered :: nat
  ws_succeeded :: nat
  ws_failed :: nat
  ws_wave_failed :: nat

definition job_row :: "group_job \<Rightarrow> wave_state \<Rightarrow> string \<Rightarrow> string \<Rightarrow> group_job" where
  "job_row job w status msg =
     job\<lparr>gj_status := status, gj_triggered := ws_triggered w, gj_succeeded := ws_succeeded w, gj_failed := ws_failed w,
       gj_error := msg\<rparr>"

definition create_node_request :: "group_io \<Rightarrow> group_job \<Rightarrow> string \<Rightarrow> rdb \<Rightarrow> db_error option \<times> rdb" where
  "create_node_request io job nid db =
     create_request (gi_insert io nid) (new_request (gi_fresh io nid) nid (gj_image job) None False False (gi_now io nid)) db"

definition run_node :: "registry \<Rightarrow> group_io \<Rightarrow> group_job \<Rightarrow> string \<Rightarrow> wave_state \<Rightarrow> wave_state" where
  "run_node reg io job nid w =
     (case create_node_request io job nid (ws_db w) of
        (Some e, db) \<Rightarrow> w\<lparr>ws_wave_failed := ws_wave_failed w + 1, ws_failed := ws_failed w + 1\<rparr>
      | (None, db) \<Rightarrow>
          (let w = (case trigger reg (gi_trigger io nid) (gi_now io nid) (gi_fresh io nid) db of
                 (Some e, db) \<Rightarrow> w\<lparr>ws_db := db, ws_wave_failed := ws_wave_failed w + 1, ws_failed := ws_failed w + 1\<rparr>
               | (None, db) \<Rightarrow> w\<lparr>ws_db := db, ws_succeeded := ws_succeeded w + 1\<rparr>);
               w = w\<lparr>ws_triggered := ws_triggered w + 1\<rparr>
           in w\<lparr>ws_db := snd (update_job (gi_update io nid) (job_row job w ''running'' '''') (ws_db w))\<rparr>))"

definition fail_pct :: "nat \<Rightarrow> nat \<Rightarrow> int" where
  "fail_pct bad n = int ((bad * 100) div n)"

definition over_threshold :: "group_job \<Rightarrow> nat \<Rightarrow> nat \<Rightarrow> bool" where
  "over_threshold job n bad \<longleftrightarrow> n > 0 \<and> bad > 0 \<and> fail_pct bad n > gj_pause_pct job"

definition no_longer_running :: "answer \<Rightarrow> group_job \<Rightarrow> rdb \<Rightarrow> bool" where
  "no_longer_running a job db = (case get_job a (gj_id job) db of Inl e \<Rightarrow> False | Inr j \<Rightarrow> gj_status j \<noteq> ''running'')"

text \<open>How the loop over the waves ends; a pause carries the percentage for the message.\<close>

datatype run_end = Finished | Stopped | Paused int

text \<open>With a concurrency of zero the loop does not end: the value is then \<open>None\<close>.\<close>

partial_function (option) run_waves :: "registry \<Rightarrow> group_io \<Rightarrow> group_job \<Rightarrow> nat \<Rightarrow> string list \<Rightarrow> wave_state \<Rightarrow>
    (run_end \<times> wave_state) option" where
  "run_waves reg io job k members w =
     (if members = [] then Some (Finished, w)
      else
        (let wave = take (nat (gj_concurrency job)) members in
         if no_longer_running (gi_job io k) job (ws_db w) then Some (Stopped, w)
         else
           (let w = fold (run_node reg io job) (gi_order io wave) (w\<lparr>ws_wave_failed := 0\<rparr>) in
            if over_threshold job (length wave) (ws_wave_failed w)
            then Some (Paused (fail_pct (ws_wave_failed w) (length wave)), w)
            else run_waves reg io job (k + 1) (drop (nat (gj_concurrency job)) members) w)))"

definition pause_message :: "group_job \<Rightarrow> int \<Rightarrow> string" where
  "pause_message job pct =
     ''paused: '' @ dec_int pct @ ''% of wave failed (threshold: '' @ dec_int (gj_pause_pct job) @ ''%)''"

definition finish_run :: "group_io \<Rightarrow> group_job \<Rightarrow> run_end \<Rightarrow> wave_state \<Rightarrow> rdb" where
  "finish_run io job e w =
     (case e of
        Stopped \<Rightarrow> ws_db w
      | Paused pct \<Rightarrow> snd (update_job (gi_final io) (job_row job w ''paused'' (pause_message job pct)) (ws_db w))
      | Finished \<Rightarrow> snd (update_job (gi_final io) (job_row job w (if ws_failed w > 0 then ''failed'' else ''complete'') '''') (ws_db w)))"

definition run_group :: "registry \<Rightarrow> group_io \<Rightarrow> group_job \<Rightarrow> string list \<Rightarrow> rdb \<Rightarrow> rdb option" where
  "run_group reg io job members db =
     map_option (\<lambda>(e, w). finish_run io job e w)
       (run_waves reg io job 0 members \<lparr>ws_db = db, ws_triggered = 0, ws_succeeded = 0, ws_failed = 0, ws_wave_failed = 0\<rparr>)"

section \<open>Starting and resuming a job\<close>

datatype group_error = Load_Group db_error | List_Members db_error | No_Members | Create_Job db_error | Load_Job db_error
  | Resume_Job db_error | Image_Id_Required | Not_Paused string

text \<open>
  \<open>TriggerGroupReimage\<close> up to the start of its goroutine: the job and the members it is started with. The groups
  and their members are tables that are not modelled: their queries are arguments.
\<close>

definition start_group :: "db_error option \<Rightarrow> db_error + string list \<Rightarrow> answer \<Rightarrow> string \<Rightarrow> string \<Rightarrow> string \<Rightarrow> int \<Rightarrow> int \<Rightarrow>
    rdb \<Rightarrow> (group_error + group_job \<times> string list) \<times> rdb" where
  "start_group get_group list_members ins fresh gid img concurrency pct db =
     (let concurrency = (if concurrency \<le> 0 then 5 else concurrency);
          pct = (if pct \<le> 0 then 20 else pct) in
      case get_group of
        Some e \<Rightarrow> (Inl (Load_Group e), db)
      | None \<Rightarrow>
     (case list_members of
        Inl e \<Rightarrow> (Inl (List_Members e), db)
      | Inr members \<Rightarrow>
      if members = [] then (Inl No_Members, db)
      else
        (let job = \<lparr>gj_id = fresh, gj_group = gid, gj_image = img, gj_concurrency = concurrency, gj_pause_pct = pct,
               gj_status = ''running'', gj_total = length members, gj_triggered = 0, gj_succeeded = 0, gj_failed = 0,
               gj_error = ''''\<rparr>
         in case create_job ins job db of
              (Some e, db) \<Rightarrow> (Inl (Create_Job e), db)
            | (None, db) \<Rightarrow> (Inr (job, members), db))))"

text \<open>The handler: a missing image is refused, the same defaults are set.\<close>

definition reimage_group :: "db_error option \<Rightarrow> db_error + string list \<Rightarrow> answer \<Rightarrow> string \<Rightarrow> string \<Rightarrow> string \<Rightarrow> int \<Rightarrow> int \<Rightarrow>
    rdb \<Rightarrow> (group_error + group_job \<times> string list) \<times> rdb" where
  "reimage_group get_group list_members ins fresh gid img concurrency pct db =
     (if img = '''' then (Inl Image_Id_Required, db)
      else start_group get_group list_members ins fresh gid img (if concurrency \<le> 0 then 5 else concurrency)
        (if pct \<le> 0 then 20 else pct) db)"

text \<open>The members without an active request; a member whose query fails is skipped.\<close>

definition remaining_members :: "(request list \<Rightarrow> request) \<Rightarrow> (string \<Rightarrow> answer) \<Rightarrow> string list \<Rightarrow> rdb \<Rightarrow> string list" where
  "remaining_members newest a members db =
     filter (\<lambda>m. case active_request newest (a m) m db of Inl e \<Rightarrow> False | Inr act \<Rightarrow> act = None) members"

text \<open>\<open>ResumeGroupReimageJob\<close> of the orchestrator: the run to start, if there is one.\<close>

definition resume_group :: "(request list \<Rightarrow> request) \<Rightarrow> answer \<Rightarrow> answer \<Rightarrow> (string \<Rightarrow> db_error + string list) \<Rightarrow>
    (string \<Rightarrow> answer) \<Rightarrow> string \<Rightarrow> rdb \<Rightarrow> (group_error + (group_job \<times> string list) option) \<times> rdb" where
  "resume_group newest q u list_members a jid db =
     (case get_job q jid db of
        Inl e \<Rightarrow> (Inl (Load_Job e), db)
      | Inr job \<Rightarrow>
     (case (if gj_status job = ''paused''
            then (case resume_job u jid db of (Some e, db) \<Rightarrow> (Some e, job, db) | (None, db) \<Rightarrow> (None, job\<lparr>gj_status := ''running''\<rparr>, db))
            else (None, job, db)) of
        (Some e, job, db) \<Rightarrow> (Inl (Resume_Job e), db)
      | (None, job, db) \<Rightarrow>
      if gj_status job \<noteq> ''running'' then (Inr None, db)
      else
     (case list_members (gj_group job) of
        Inl e \<Rightarrow> (Inl (List_Members e), db)
      | Inr members \<Rightarrow>
        (let rest = remaining_members newest a members db in
         if rest = [] then (Inr None, db) else (Inr (Some (job, rest)), db)))))"

text \<open>The handler of the API.\<close>

definition resume_handler :: "answer \<Rightarrow> answer \<Rightarrow> string \<Rightarrow> rdb \<Rightarrow> (group_error + group_job) \<times> rdb" where
  "resume_handler q u jid db =
     (case get_job q jid db of
        Inl e \<Rightarrow> (Inl (Load_Job e), db)
      | Inr job \<Rightarrow>
      if gj_status job \<noteq> ''paused'' then (Inl (Not_Paused (gj_status job)), db)
      else
     (case resume_job u jid db of
        (Some e, db) \<Rightarrow> (Inl (Resume_Job e), db)
      | (None, db) \<Rightarrow> (Inr (job\<lparr>gj_status := ''running''\<rparr>), db)))"

text \<open>The jobs that start-up resumes, each in a goroutine of its own.\<close>

definition running_jobs :: "answer \<Rightarrow> rdb \<Rightarrow> db_error + group_job list" where
  "running_jobs a db =
     (case a of Some e \<Rightarrow> Inl (Db_Error e) | None \<Rightarrow> Inr (filter (\<lambda>j. gj_status j = ''running'') (jobs db)))"

definition resume_at_startup :: "(request list \<Rightarrow> request) \<Rightarrow> answer \<Rightarrow> (string \<Rightarrow> answer) \<Rightarrow> (string \<Rightarrow> answer) \<Rightarrow>
    (string \<Rightarrow> db_error + string list) \<Rightarrow> (string \<Rightarrow> answer) \<Rightarrow> rdb \<Rightarrow> (group_job \<times> string list) list \<times> rdb" where
  "resume_at_startup newest q qj uj list_members a db =
     (case running_jobs q db of
        Inl e \<Rightarrow> ([], db)
      | Inr js \<Rightarrow>
          fold (\<lambda>j (runs, db).
            case resume_group newest (qj (gj_id j)) (uj (gj_id j)) list_members a (gj_id j) db of
              (Inr (Some run), db) \<Rightarrow> (runs @ [run], db)
            | (r, db) \<Rightarrow> (runs, db)) js ([], db))"


section \<open>The nodes of a wave\<close>

definition node_request :: "group_io \<Rightarrow> group_job \<Rightarrow> string \<Rightarrow> request" where
  "node_request io job nid = new_request (gi_fresh io nid) nid (gj_image job) None False False (gi_now io nid)"

lemma update_job_requests [simp]: "requests (snd (update_job a j db)) = requests db" "nodes (snd (update_job a j db)) = nodes db"
  by (simp_all add: update_job_def split: option.splits)

lemma run_node_requests:
  "requests (ws_db (run_node reg io job nid w)) =
    requests (snd (submit_request reg (gi_insert io nid) (gi_trigger io nid) (gi_now io nid) (node_request io job nid) (ws_db w)))"
  by (auto simp: run_node_def create_node_request_def submit_request_def node_request_def [symmetric] Let_def
      split: prod.splits option.splits dest: create_request_cases(2))
    (simp_all add: node_request_def new_request_def)

lemma run_node_others:
  assumes "nid \<in> S"
  shows "filter (\<lambda>r. rq_node r \<notin> S) (requests (ws_db (run_node reg io job nid w))) =
    filter (\<lambda>r. rq_node r \<notin> S) (requests (ws_db w))"
  using submit_requests [of reg "gi_insert io nid" "gi_trigger io nid" "gi_now io nid" "node_request io job nid" "ws_db w"] assms
  unfolding run_node_requests by (auto simp: node_request_def new_request_def)

lemma run_node_counts:
  "ws_succeeded (run_node reg io job nid w) + ws_failed (run_node reg io job nid w) = ws_succeeded w + ws_failed w + 1"
  "ws_wave_failed (run_node reg io job nid w) + ws_failed w = ws_wave_failed w + ws_failed (run_node reg io job nid w)"
  "ws_triggered (run_node reg io job nid w) \<le> ws_triggered w + 1"
  "ws_wave_failed w \<le> ws_wave_failed (run_node reg io job nid w)"
  "ws_wave_failed (run_node reg io job nid w) \<le> ws_wave_failed w + 1"
  by (simp_all add: run_node_def Let_def split: prod.splits option.splits)

text \<open>The job stays in its table, and running: only the end of the run gives it another status.\<close>

definition job_running :: "string \<Rightarrow> rdb \<Rightarrow> bool" where
  "job_running jid db \<longleftrightarrow> (\<exists>j. find_job jid db = Some j \<and> gj_status j = ''running'')"

lemma find_job_update:
  "find_job jid (snd (update_job a j db)) =
    (if a = None \<and> gj_id j = jid
     then map_option (\<lambda>k. k\<lparr>gj_status := gj_status j, gj_total := gj_total j, gj_triggered := gj_triggered j,
       gj_succeeded := gj_succeeded j, gj_failed := gj_failed j, gj_error := gj_error j\<rparr>) (find_job jid db)
     else find_job jid db)"
proof -
  have "find (\<lambda>k. gj_id k = jid) (map (\<lambda>k. if gj_id k = i then f k else k) js) =
      (if i = jid then map_option f (find (\<lambda>k. gj_id k = jid) js) else find (\<lambda>k. gj_id k = jid) js)"
    if "\<And>k. gj_id (f k) = gj_id k" for f :: "group_job \<Rightarrow> group_job" and i js
    using that by (induction js) auto
  then show ?thesis by (simp add: update_job_def find_job_def split: option.splits)
qed

lemma find_job_jobs: "jobs db' = jobs db \<Longrightarrow> find_job jid db' = find_job jid db"
  by (simp add: find_job_def)

lemma node_ops_jobs [simp]: "jobs (snd (update_node a nid f db)) = jobs db" "jobs (snd (update_request a rid g db)) = jobs db"
  by (simp_all add: update_node_def update_request_def split: option.splits)

lemma trigger_jobs: "jobs (snd (trigger reg io now rid db)) = jobs db"
proof -
  have up: "jobs (snd (update_status x rid s msg t db')) = jobs db'" for x s msg t db'
    by (simp add: update_status_def)
  have a: "jobs db' = jobs db" if "assign_image x n i db = (r, db')" for x n i r db'
    using that node_ops_jobs(1) [of x n _ db] unfolding assign_image_def by (metis snd_conv)
  have p: "jobs db'' = jobs db'" if "set_reimage_pending x n b db' = (r, db'')" for x n b r db' db''
    using that node_ops_jobs(1) [of x n _ db'] unfolding set_reimage_pending_def by (metis snd_conv)
  show ?thesis unfolding trigger_def mark_failed_def
    by (auto split: sum.splits prod.splits option.splits dest!: a p simp: up)
qed

lemma create_request_jobs: "create_request a r db = (x, db') \<Longrightarrow> jobs db' = jobs db"
  by (auto simp: create_request_def split: option.splits if_splits)

lemma job_running_update:
  "job_running jid db \<Longrightarrow> job_running jid (snd (update_job a (job_row job w ''running'' msg) db))"
  by (auto simp: job_running_def find_job_update job_row_def)

lemma run_node_running:
  assumes "job_running (gj_id job) (ws_db w)"
  shows "job_running (gj_id job) (ws_db (run_node reg io job nid w))"
proof (cases "create_node_request io job nid (ws_db w)")
  case (Pair x db1)
  obtain y db2 where tr: "trigger reg (gi_trigger io nid) (gi_now io nid) (gi_fresh io nid) db1 = (y, db2)" by fastforce
  have "jobs db1 = jobs (ws_db w)" using Pair create_request_jobs unfolding create_node_request_def by blast
  moreover have "jobs db2 = jobs db1"
    using trigger_jobs [of reg "gi_trigger io nid" "gi_now io nid" "gi_fresh io nid" db1] tr by simp
  ultimately have "job_running (gj_id job) db2"
    using assms find_job_jobs [of db2 "ws_db w"] by (simp add: job_running_def)
  from job_running_update [OF this] show ?thesis
    using assms by (cases x; cases y) (simp_all add: run_node_def Pair tr Let_def)
qed

lemma wave_counts:
  fixes reg io job and w :: wave_state and ns
  defines "w' \<equiv> fold (run_node reg io job) ns w"
  shows "ws_succeeded w' + ws_failed w' = ws_succeeded w + ws_failed w + length ns"
    and "ws_wave_failed w' + ws_failed w = ws_wave_failed w + ws_failed w'"
    and "ws_triggered w' \<le> ws_triggered w + length ns"
    and "ws_wave_failed w' \<le> ws_wave_failed w + length ns"
    and "set ns \<subseteq> S \<Longrightarrow> filter (\<lambda>r. rq_node r \<notin> S) (requests (ws_db w')) = filter (\<lambda>r. rq_node r \<notin> S) (requests (ws_db w))"
    and "job_running (gj_id job) (ws_db w) \<Longrightarrow> job_running (gj_id job) (ws_db w')"
  unfolding w'_def
proof (induction ns arbitrary: w)
  case (Cons n ns)
  note step = run_node_counts [where reg = reg and io = io and job = job and nid = n]
  { case 1 then show ?case using Cons(1) [of "run_node reg io job n w"] step(1) [of w] by simp }
  { case 2 then show ?case using Cons(2) [of "run_node reg io job n w"] step(2) [of w] by simp }
  { case 3 then show ?case using Cons(3) [of "run_node reg io job n w"] step(3) [of w] by simp }
  { case 4 then show ?case using Cons(4) [of "run_node reg io job n w"] step(5) [of w] by simp }
  { case 5 then show ?case using Cons(5) [of "run_node reg io job n w"] run_node_others [of n S reg io job w] by simp }
  { case 6 then show ?case using Cons(6) [of "run_node reg io job n w"] run_node_running [of job w reg io n] by simp }
qed simp_all


section \<open>The waves\<close>

definition start_state :: "rdb \<Rightarrow> wave_state" where
  "start_state db = \<lparr>ws_db = db, ws_triggered = 0, ws_succeeded = 0, ws_failed = 0, ws_wave_failed = 0\<rparr>"

text \<open>The nodes run in some order, each once.\<close>

definition fair_order :: "group_io \<Rightarrow> bool" where
  "fair_order io \<longleftrightarrow> (\<forall>ns. set (gi_order io ns) = set ns \<and> length (gi_order io ns) = length ns)"

text \<open>What a run of the waves comes to, \<open>m\<close> being the number of nodes it reached.\<close>

definition waves_end :: "group_job \<Rightarrow> string list \<Rightarrow> wave_state \<Rightarrow> run_end \<times> wave_state \<Rightarrow> nat \<Rightarrow> bool" where
  "waves_end job members w r m \<longleftrightarrow>
     (let (e, w') = r in
      m \<le> length members \<and> ws_succeeded w' + ws_failed w' = ws_succeeded w + ws_failed w + m \<and> ws_failed w \<le> ws_failed w' \<and>
      ws_triggered w' \<le> ws_triggered w + m \<and> (e = Finished \<longrightarrow> m = length members) \<and>
      (\<forall>pct. e = Paused pct \<longrightarrow> 0 < m \<and> ws_failed w < ws_failed w' \<and> gj_pause_pct job < pct \<and> pct \<le> 100) \<and>
      (\<forall>S. set (take m members) \<subseteq> S \<longrightarrow>
         filter (\<lambda>r. rq_node r \<notin> S) (requests (ws_db w')) = filter (\<lambda>r. rq_node r \<notin> S) (requests (ws_db w))) \<and>
      (job_running (gj_id job) (ws_db w) \<longrightarrow> job_running (gj_id job) (ws_db w')) \<and>
      (e = Stopped \<longrightarrow> \<not> job_running (gj_id job) (ws_db w')))"

lemma fail_pct_le: "bad \<le> n \<Longrightarrow> 0 < n \<Longrightarrow> fail_pct bad n \<le> 100"
  unfolding fail_pct_def using div_le_mono [of "bad * 100" "n * 100" n] by simp

lemma one_wave:
  fixes reg io job wave w
  assumes "fair_order io"
  defines "w1 \<equiv> fold (run_node reg io job) (gi_order io wave) (w\<lparr>ws_wave_failed := 0\<rparr>)"
  shows "ws_succeeded w1 + ws_failed w1 = ws_succeeded w + ws_failed w + length wave"
    and "ws_failed w1 = ws_failed w + ws_wave_failed w1" and "ws_triggered w1 \<le> ws_triggered w + length wave"
    and "ws_wave_failed w1 \<le> length wave"
    and "set wave \<subseteq> S \<Longrightarrow> filter (\<lambda>r. rq_node r \<notin> S) (requests (ws_db w1)) = filter (\<lambda>r. rq_node r \<notin> S) (requests (ws_db w))"
    and "job_running (gj_id job) (ws_db w) \<Longrightarrow> job_running (gj_id job) (ws_db w1)"
proof -
  have o: "set (gi_order io wave) = set wave" "length (gi_order io wave) = length wave"
    using assms(1) unfolding fair_order_def by blast+
  note c = wave_counts [where reg = reg and io = io and job = job and ns = "gi_order io wave" and w = "w\<lparr>ws_wave_failed := 0\<rparr>",
      folded w1_def, simplified, unfolded o]
  show "ws_succeeded w1 + ws_failed w1 = ws_succeeded w + ws_failed w + length wave" using c(1) .
  show "ws_failed w1 = ws_failed w + ws_wave_failed w1" using c(2) by simp
  show "ws_triggered w1 \<le> ws_triggered w + length wave" using c(3) .
  show "ws_wave_failed w1 \<le> length wave" using c(4) .
  show "set wave \<subseteq> S \<Longrightarrow> filter (\<lambda>r. rq_node r \<notin> S) (requests (ws_db w1)) = filter (\<lambda>r. rq_node r \<notin> S) (requests (ws_db w))"
    using c(5) .
  show "job_running (gj_id job) (ws_db w) \<Longrightarrow> job_running (gj_id job) (ws_db w1)" using c(6) .
qed

lemma waves_end_step:
  assumes "waves_end job (drop (length wave) members) w1 (e, w') m"
    and "take (length wave) members = wave" and "0 < length wave"
    and "ws_succeeded w1 + ws_failed w1 = ws_succeeded w + ws_failed w + length wave" and "ws_failed w \<le> ws_failed w1"
    and "ws_triggered w1 \<le> ws_triggered w + length wave"
    and "\<And>S. set wave \<subseteq> S \<Longrightarrow>
      filter (\<lambda>r. rq_node r \<notin> S) (requests (ws_db w1)) = filter (\<lambda>r. rq_node r \<notin> S) (requests (ws_db w))"
    and "job_running (gj_id job) (ws_db w) \<Longrightarrow> job_running (gj_id job) (ws_db w1)"
  shows "waves_end job members w (e, w') (length wave + m)"
proof -
  have tk: "take (length wave + m) members = wave @ take m (drop (length wave) members)" by (simp add: take_add assms(2))
  have len: "length wave \<le> length members" by (metis assms(2) length_take min.cobounded1)
  have others: "filter (\<lambda>r. rq_node r \<notin> S) (requests (ws_db w')) = filter (\<lambda>r. rq_node r \<notin> S) (requests (ws_db w))"
    if "set (take (length wave + m) members) \<subseteq> S" for S
    using assms(1) assms(7) [of S] that unfolding tk waves_end_def Let_def by simp
  show ?thesis unfolding waves_end_def Let_def prod.case
  proof (intro conjI)
    show "\<forall>S. set (take (length wave + m) members) \<subseteq> S \<longrightarrow>
        filter (\<lambda>r. rq_node r \<notin> S) (requests (ws_db w')) = filter (\<lambda>r. rq_node r \<notin> S) (requests (ws_db w))"
      using others by blast
  qed (use assms(1,3-6,8) len in \<open>simp_all add: waves_end_def Let_def\<close>, (linarith | fastforce)+)
qed

lemma waves_end_exists:
  assumes "fair_order io" and "0 < gj_concurrency job"
  shows "\<exists>e w' m. run_waves reg io job k members w = Some (e, w') \<and> waves_end job members w (e, w') m"
proof (induction "length members" arbitrary: members k w rule: less_induct)
  case less
  define c where "c = nat (gj_concurrency job)"
  define wave where "wave = take c members"
  define w1 where "w1 = fold (run_node reg io job) (gi_order io wave) (w\<lparr>ws_wave_failed := 0\<rparr>)"
  note eq = run_waves.simps [of reg io job k members w, folded c_def, folded wave_def]
  show ?case
  proof (cases "members = [] \<or> no_longer_running (gi_job io k) job (ws_db w)")
    case True
    then have "\<not> job_running (gj_id job) (ws_db w)" if "members \<noteq> []" using that
      by (auto simp: no_longer_running_def job_running_def get_job_def split: option.splits sum.splits)
    then show ?thesis using True
      by (intro exI [of _ "if members = [] then Finished else Stopped"] exI [of _ w] exI [of _ 0])
        (auto simp: eq waves_end_def Let_def)
  next
    case False
    have "0 < c" using assms(2) by (simp add: c_def)
    note o = one_wave [OF assms(1), where reg = reg and job = job and wave = wave and w = w, folded w1_def]
    have len: "length wave \<le> length members" "0 < length wave" using False \<open>0 < c\<close> by (simp_all add: wave_def)
    show ?thesis
    proof (cases "over_threshold job (length wave) (ws_wave_failed w1)")
      case over: True
      have tk: "take (length wave) members = wave" by (simp add: wave_def min_def)
      have "waves_end job members w (Paused (fail_pct (ws_wave_failed w1) (length wave)), w1) (length wave)"
        using over o len fail_pct_le [OF o(4) len(2)] by (simp add: waves_end_def over_threshold_def tk)
      then show ?thesis using False over by (simp add: eq Let_def w1_def) blast
    next
      case under: False
      have "length (drop c members) < length members" using False \<open>0 < c\<close> by (cases members) simp_all
      from less [OF this, of "k + 1" w1] obtain e w' m where
        r: "run_waves reg io job (k + 1) (drop c members) w1 = Some (e, w')" and m: "waves_end job (drop c members) w1 (e, w') m"
        by blast
      have "waves_end job members w (e, w') (length wave + m)"
      proof (rule waves_end_step [where wave = wave])
        have "drop (length wave) members = drop c members" by (simp add: wave_def min_def)
        then show "waves_end job (drop (length wave) members) w1 (e, w') m" using m by simp
        show "take (length wave) members = wave" by (simp add: wave_def min_def)
      qed (use o len in simp_all)
      then show ?thesis using False under r by (simp add: eq Let_def w1_def) blast
    qed
  qed
qed



definition demo_group_io :: group_io where
  "demo_group_io = \<lparr>gi_insert = \<lambda>_. None, gi_fresh = \<lambda>n. ''r-'' @ n, gi_trigger = \<lambda>_. works, gi_now = \<lambda>_. 9,
     gi_job = \<lambda>_. None, gi_update = \<lambda>_. None, gi_final = None, gi_order = \<lambda>ns. ns\<rparr>"

definition demo_job :: group_job where
  "demo_job = \<lparr>gj_id = ''j'', gj_group = ''g'', gj_image = ''img'', gj_concurrency = 2, gj_pause_pct = 20, gj_status = ''running'',
     gj_total = 1, gj_triggered = 0, gj_succeeded = 0, gj_failed = 0, gj_error = ''''\<rparr>"

lemma demo_group [simp]: "fair_order demo_group_io" "gj_concurrency demo_job = 2" "gi_final demo_group_io = None"
  "gj_id demo_job = ''j''" "gj_status demo_job = ''running''" "gj_group demo_job = ''g''"
  by (simp_all add: fair_order_def demo_group_io_def demo_job_def)


text \<open>
  A run that starts with its job running and whose last update succeeds leaves the job complete, failed or
  paused, with the counters of the run: complete when every member succeeded, failed when every member was tried
  and some failed, paused when some failed.
\<close>

theorem group_final_status:
  assumes "fair_order io" and "0 < gj_concurrency job" and "gi_final io = None" and "job_running (gj_id job) db"
  shows "\<exists>db' j. run_group reg io job members db = Some db' \<and> find_job (gj_id job) db' = Some j \<and>
    (gj_status j = ''complete'' \<and> gj_failed j = 0 \<and> gj_succeeded j = length members \<or>
     gj_status j = ''failed'' \<and> 0 < gj_failed j \<and> gj_succeeded j + gj_failed j = length members \<or>
     gj_status j = ''paused'' \<and> 0 < gj_failed j \<and> gj_succeeded j + gj_failed j \<le> length members)"
proof -
  obtain e w m where r: "run_waves reg io job 0 members (start_state db) = Some (e, w)"
      and end_: "waves_end job members (start_state db) (e, w) m"
    using waves_end_exists [OF assms(1,2), of reg 0 members "start_state db"] by blast
  from end_ assms(4) have "job_running (gj_id job) (ws_db w)" and e: "e \<noteq> Stopped"
    by (auto simp: waves_end_def start_state_def)
  then obtain k where k: "find_job (gj_id job) (ws_db w) = Some k" unfolding job_running_def by blast
  have run: "run_group reg io job members db = Some (finish_run io job e w)"
    using r by (simp add: run_group_def start_state_def)
  have job: "find_job (gj_id job) (snd (update_job (gi_final io) (job_row job w s msg) (ws_db w))) =
      Some (k\<lparr>gj_status := s, gj_total := gj_total job, gj_triggered := ws_triggered w, gj_succeeded := ws_succeeded w,
        gj_failed := ws_failed w, gj_error := msg\<rparr>)" for s msg
    using k assms(3) by (simp add: find_job_update job_row_def)
  show ?thesis
    using end_ e by (cases e) (auto simp: run finish_run_def job waves_end_def start_state_def)
qed

theorem group_final_status_witness:
  "\<exists>db' j. run_group (demo_registry None) demo_group_io demo_job [''n1''] ((demo_db [demo_node] [])\<lparr>jobs := [demo_job]\<rparr>) = Some db' \<and>
     find_job ''j'' db' = Some j"
proof -
  have "job_running (gj_id demo_job) ((demo_db [demo_node] [])\<lparr>jobs := [demo_job]\<rparr>)"
    by (simp add: job_running_def find_job_def)
  from group_final_status [OF _ _ _ this, of demo_group_io "demo_registry None" "[''n1'']"] show ?thesis by auto
qed

section \<open>Resuming\<close>

text \<open>
  The resumption of a job that is running or paused, all calls succeeding, dispatches exactly the members that
  have no active request, so also a member whose reimage of this job is already complete or failed; when there are
  none the job stays running with nothing that drives it. No request changes.
\<close>

theorem resume_targets:
  fixes newest :: "request list \<Rightarrow> request"
  assumes "find_job jid db = Some job" and "gj_status job = ''running'' \<or> gj_status job = ''paused''"
    and "list_members (gj_group job) = Inr members"
  defines "rest \<equiv> filter (\<lambda>m. \<forall>r \<in> set (requests db). rq_node r = m \<longrightarrow> is_terminal (rq_status r)) members"
  defines "r \<equiv> resume_group newest None None list_members (\<lambda>_. None) jid db"
  shows "fst r = Inr (if rest = [] then None else Some (job\<lparr>gj_status := ''running''\<rparr>, rest)) \<and>
    requests (snd r) = requests db \<and> (\<exists>j. find_job jid (snd r) = Some j \<and> gj_status j = ''running'')"
proof -
  have rest: "remaining_members newest (\<lambda>_. None) members db' = rest" if "requests db' = requests db" for db'
  proof -
    have "(case active_request newest None m db' of Inl e \<Rightarrow> False | Inr act \<Rightarrow> act = None) = no_active m db" for m
      using that by (auto simp: active_request_def no_active_def Let_def filter_empty_conv)
    then show ?thesis by (simp add: remaining_members_def rest_def no_active_def)
  qed
  have same: "job\<lparr>gj_status := gj_status job\<rparr> = job" by (cases job) simp
  have find: "find (\<lambda>k. gj_id k = jid) (map (\<lambda>k. if gj_id k = jid \<and> gj_status k = ''paused'' then k\<lparr>gj_status := ''running''\<rparr> else k) js) =
      map_option (\<lambda>k. if gj_status k = ''paused'' then k\<lparr>gj_status := ''running''\<rparr> else k) (find (\<lambda>k. gj_id k = jid) js)" for js
    by (induction js) auto
  show ?thesis
  proof (cases "gj_status job = ''paused''")
    case True
    then show ?thesis using assms(1,3) rest [of "snd (resume_job None jid db)"] find [of "jobs db"]
      by (simp add: r_def resume_group_def get_job_def resume_job_def find_job_def Let_def)
  next
    case False
    then show ?thesis using assms(1-3) rest [of db] same
      by (simp add: r_def resume_group_def get_job_def Let_def)
  qed
qed

theorem resume_targets_witness:
  "fst (resume_group first_newest None None (\<lambda>_. Inr [''n1'']) (\<lambda>_. None) ''j''
     ((demo_db [demo_node] [demo_request\<lparr>rq_status := Complete\<rparr>])\<lparr>jobs := [demo_job]\<rparr>)) = Inr (Some (demo_job\<lparr>gj_status := ''running''\<rparr>, [''n1'']))"
  using resume_targets [of "''j''" "(demo_db [demo_node] [demo_request\<lparr>rq_status := Complete\<rparr>])\<lparr>jobs := [demo_job]\<rparr>" demo_job
      "\<lambda>_. Inr [''n1'']" "[''n1'']" first_newest]
  by (simp add: find_job_def demo_db_def)

text \<open>The handler of the API only changes the status: no request is made and no run is started.\<close>

lemma resume_handler_requests: "requests (snd (resume_handler q u jid db)) = requests db \<and> nodes (snd (resume_handler q u jid db)) = nodes db"
  by (simp add: resume_handler_def resume_job_def split: sum.splits option.splits)

end
