(* ===== verification/Reconcile_Image.thy ===== *)
theory Reconcile_Image
  imports Go_Prelude
begin

text \<open>
  The reconciliation of images with their files (\<open>internal/server/reconcile_image.go\<close>, the types of
  \<open>pkg/reconcile\<close> and the statements of \<open>internal/db/db.go\<close>). A file is its size, its time of
  modification in seconds and the hash of its content; a path that can be statted is one the file map has. The
  paths of the image directory and of the ids are clean, so joining them puts a slash between. Each call of the
  database or of the file system takes its answer, \<open>Some e\<close> when it fails. Times are seconds.
\<close>

section \<open>State\<close>

datatype image_status = Building | Ready | Error_Status | Archived | Interrupted | Corrupt | Blob_Missing

datatype image_format = Filesystem_Format | Block_Format | Other_Format string

datatype detail = No_Detail | Blob_Absent string | Size_Differs int int | Mutated string string string
  | No_Corroboration string string | Sources_Disagree string string string

record image_row =
  im_id :: string
  im_name :: string
  im_method :: string
  im_status :: image_status
  im_format :: image_format
  im_size :: int
  im_checksum :: string
  im_path :: string
  im_error :: detail

record blob_file =
  bf_size :: int
  bf_mtime :: int
  bf_sha :: string

record image_meta =
  me_id :: string
  me_name :: string
  me_method :: string
  me_sha :: string
  me_size :: int

datatype outcome = Ok_Outcome | Healed | Quarantined | Blob_Missing_Outcome | No_Change | Re_Finalized

datatype resolution = At_Db_Path | At_Default_Layout | Not_At_All

record checks =
  ck_exists :: bool
  ck_disk_size :: int
  ck_db_size :: int
  ck_disk_sha :: string
  ck_db_sha :: string
  ck_meta_sha :: string
  ck_resolution :: resolution

datatype action = Set_Status_Missing | Set_Status_Corrupt | Updated_Path | Cleared_Status | Updated_Checksum | Updated_Size
  | Rewrote_Metadata

record result =
  rs_image :: string
  rs_outcome :: outcome
  rs_previous :: image_status
  rs_new :: image_status
  rs_checks :: checks
  rs_actions :: "action list"
  rs_audited :: bool
  rs_detail :: detail

record cache_entry =
  ce_result :: result
  ce_at :: int
  ce_key :: "int \<times> int"

datatype audit_action = Audit_Missing | Audit_Healed | Audit_Quarantined | Audit_Forced

record store =
  st_images :: "image_row list"
  st_files :: "string \<Rightarrow> blob_file option"
  st_meta :: "string \<Rightarrow> image_meta option"
  st_cache :: "string \<Rightarrow> cache_entry option"
  st_audit :: "(string \<times> audit_action \<times> image_status \<times> image_status) list"

type_synonym reply = "string option"

record reconcile_io =
  io_image :: reply
  io_path :: reply
  io_path2 :: reply
  io_stat :: reply
  io_hash :: reply
  io_set_path :: reply
  io_status :: reply
  io_repair :: reply
  io_meta :: reply

datatype reconcile_error = Fetch string | No_Image | Stat string | Hash string | Repair string | No_Row | Write_Metadata string
  | Not_Deployable image_status detail

record options =
  op_ttl :: int
  op_force :: bool
  op_fail :: bool

section \<open>Statements\<close>

definition find_image :: "string \<Rightarrow> store \<Rightarrow> image_row option" where
  "find_image i st = find (\<lambda>im. im_id im = i) (st_images st)"

definition get_image :: "reply \<Rightarrow> string \<Rightarrow> store \<Rightarrow> reconcile_error + image_row" where
  "get_image a i st =
     (case a of Some e \<Rightarrow> Inl (Fetch e)
      | None \<Rightarrow> (case find_image i st of None \<Rightarrow> Inl No_Image | Some im \<Rightarrow> Inr im))"

definition update_image :: "reply \<Rightarrow> (string \<Rightarrow> reconcile_error) \<Rightarrow> string \<Rightarrow> (image_row \<Rightarrow> image_row) \<Rightarrow> store \<Rightarrow>
    reconcile_error option \<times> store" where
  "update_image a err i f st =
     (case a of Some e \<Rightarrow> (Some (err e), st)
      | None \<Rightarrow>
          (if find_image i st = None then (Some No_Row, st)
           else (None, st\<lparr>st_images := map (\<lambda>im. if im_id im = i then f im else im) (st_images st)\<rparr>)))"

definition set_status :: "reply \<Rightarrow> string \<Rightarrow> image_status \<Rightarrow> detail \<Rightarrow> store \<Rightarrow> reconcile_error option \<times> store" where
  "set_status a i s d = update_image a Fetch i (\<lambda>im. im\<lparr>im_status := s, im_error := d\<rparr>)"

definition set_path :: "reply \<Rightarrow> string \<Rightarrow> string \<Rightarrow> store \<Rightarrow> reconcile_error option \<times> store" where
  "set_path a i p = update_image a Fetch i (\<lambda>im. im\<lparr>im_path := p\<rparr>)"

definition repair_checksum :: "reply \<Rightarrow> string \<Rightarrow> string \<Rightarrow> int \<Rightarrow> store \<Rightarrow> reconcile_error option \<times> store" where
  "repair_checksum a i sha n =
     update_image a Repair i (\<lambda>im. im\<lparr>im_checksum := sha, im_size := n, im_status := Ready, im_error := No_Detail\<rparr>)"

definition get_path :: "reply \<Rightarrow> string \<Rightarrow> store \<Rightarrow> string option" where
  "get_path a i st = (if a \<noteq> None then None else map_option im_path (find_image i st))"

definition audit :: "string \<Rightarrow> audit_action \<Rightarrow> image_status \<Rightarrow> image_status \<Rightarrow> store \<Rightarrow> store" where
  "audit i act old new st = st\<lparr>st_audit := st_audit st @ [(i, act, old, new)], st_cache := (st_cache st)(i := None)\<rparr>"

section \<open>The path of a blob\<close>

definition join_path :: "string list \<Rightarrow> string" where
  "join_path ps = join ''/'' ps"

definition default_blob_path :: "string \<Rightarrow> string \<Rightarrow> image_format \<Rightarrow> string" where
  "default_blob_path dir i f =
     (case f of
        Block_Format \<Rightarrow> join_path [dir, i, ''image.img'']
      | Filesystem_Format \<Rightarrow> join_path [dir, i, ''rootfs.tar'']
      | Other_Format _ \<Rightarrow> join_path [dir, i, ''rootfs.tar''])"

definition resolve_blob_path :: "string \<Rightarrow> reconcile_io \<Rightarrow> image_row \<Rightarrow> store \<Rightarrow> string \<times> resolution" where
  "resolve_blob_path dir io im st =
     (let def_path = default_blob_path dir (im_id im) (im_format im) in
      case get_path (io_path io) (im_id im) st of
        Some p \<Rightarrow>
          if p \<noteq> '''' then
            (if st_files st p \<noteq> None then (p, At_Db_Path)
             else if st_files st def_path \<noteq> None then (def_path, At_Default_Layout)
             else (p, Not_At_All))
          else if st_files st def_path \<noteq> None then (def_path, At_Default_Layout)
          else (def_path, Not_At_All)
      | None \<Rightarrow> if st_files st def_path \<noteq> None then (def_path, At_Default_Layout) else (def_path, Not_At_All))"

section \<open>The checks\<close>

text \<open>
  The status is written only when it changes; the action and the audit record only when the write succeeds.
\<close>

definition quarantine :: "reconcile_io \<Rightarrow> image_row \<Rightarrow> image_status \<Rightarrow> audit_action \<Rightarrow> action \<Rightarrow> result \<Rightarrow> store \<Rightarrow> result \<times> store" where
  "quarantine io im s act a res st =
     (if im_status im = s then (res, st)
      else
        (case set_status (io_status io) (im_id im) s (rs_detail res) st of
           (Some e, st) \<Rightarrow> (res, st)
         | (None, st) \<Rightarrow> (res\<lparr>rs_actions := [a], rs_audited := True\<rparr>, audit (im_id im) act (im_status im) s st)))"

definition self_heal :: "reconcile_io \<Rightarrow> image_row \<Rightarrow> string \<Rightarrow> int \<Rightarrow> checks \<Rightarrow> result \<Rightarrow> store \<Rightarrow>
    (reconcile_error + result) \<times> store" where
  "self_heal io im sha n ck res st =
     (case repair_checksum (io_repair io) (im_id im) sha n st of
        (Some e, st) \<Rightarrow> (Inl e, st)
      | (None, st) \<Rightarrow>
          (Inr (res\<lparr>rs_checks := ck, rs_outcome := Healed, rs_new := Ready,
             rs_actions := rs_actions res @ [Updated_Checksum, Updated_Size] @ (if im_status im \<noteq> Ready then [Cleared_Status] else []),
             rs_audited := True\<rparr>),
           audit (im_id im) Audit_Healed (im_status im) Ready st))"

definition force_refinalize :: "reconcile_io \<Rightarrow> image_row \<Rightarrow> string \<Rightarrow> int \<Rightarrow> checks \<Rightarrow> result \<Rightarrow> store \<Rightarrow>
    (reconcile_error + result) \<times> store" where
  "force_refinalize io im sha n ck res st =
     (let meta = (case st_meta st (im_id im) of Some m \<Rightarrow> m
          | None \<Rightarrow> \<lparr>me_id = im_id im, me_name = im_name im, me_method = im_method im, me_sha = '''', me_size = 0\<rparr>);
          meta = meta\<lparr>me_sha := sha, me_size := n\<rparr>
      in case io_meta io of
           Some e \<Rightarrow> (Inl (Write_Metadata e), st)
         | None \<Rightarrow>
             (case repair_checksum (io_repair io) (im_id im) sha n (st\<lparr>st_meta := (st_meta st)(im_id im := Some meta)\<rparr>) of
                (Some e, st) \<Rightarrow> (Inl e, st)
              | (None, st) \<Rightarrow>
                  (Inr (res\<lparr>rs_checks := ck\<lparr>ck_meta_sha := sha\<rparr>, rs_outcome := Re_Finalized, rs_new := Ready,
                     rs_actions := [Updated_Checksum, Updated_Size, Rewrote_Metadata] @
                       (if im_status im \<noteq> Ready then [Cleared_Status] else []),
                     rs_audited := True\<rparr>),
                   audit (im_id im) Audit_Forced (im_status im) Ready st)))"

text \<open>The check of the blob that was found, once its path is repaired.\<close>

definition heal_path :: "reconcile_io \<Rightarrow> image_row \<Rightarrow> string \<Rightarrow> resolution \<Rightarrow> result \<Rightarrow> store \<Rightarrow> result \<times> store" where
  "heal_path io im path rsl res st =
     (if rsl \<noteq> At_Default_Layout then (res, st)
      else
        (let stored = (case get_path (io_path2 io) (im_id im) st of None \<Rightarrow> '''' | Some p \<Rightarrow> p) in
         if stored = path then (res, st)
         else
           (case set_path (io_set_path io) (im_id im) path st of
              (Some e, st) \<Rightarrow> (res, st)
            | (None, st) \<Rightarrow>
                (res\<lparr>rs_actions := rs_actions res @ [Updated_Path], rs_audited := True\<rparr>,
                 audit (im_id im) Audit_Healed (im_status im) (im_status im) st))))"

definition check_ok :: "reconcile_io \<Rightarrow> image_row \<Rightarrow> checks \<Rightarrow> result \<Rightarrow> store \<Rightarrow> result \<times> store" where
  "check_ok io im ck res st =
     (let res = res\<lparr>rs_checks := ck, rs_outcome := Ok_Outcome, rs_new := im_status im\<rparr> in
      if im_status im = Corrupt \<or> im_status im = Blob_Missing then
        (case set_status (io_status io) (im_id im) Ready No_Detail st of
           (Some e, st) \<Rightarrow> (res, st)
         | (None, st) \<Rightarrow>
             (res\<lparr>rs_new := Ready, rs_outcome := Healed, rs_actions := rs_actions res @ [Cleared_Status], rs_audited := True\<rparr>,
              audit (im_id im) Audit_Healed (im_status im) Ready st))
      else (res, st))"

definition drift_detail :: "string \<Rightarrow> string \<Rightarrow> string \<Rightarrow> detail" where
  "drift_detail sha db meta =
     (if meta \<noteq> '''' \<and> meta = db then Mutated sha db meta
      else if meta = '''' then No_Corroboration sha db
      else Sources_Disagree sha db meta)"

definition check_hash :: "reconcile_io \<Rightarrow> options \<Rightarrow> image_row \<Rightarrow> blob_file \<Rightarrow> checks \<Rightarrow> result \<Rightarrow> store \<Rightarrow>
    (reconcile_error + result) \<times> store" where
  "check_hash io opts im f ck res st =
     (let meta = (case st_meta st (im_id im) of None \<Rightarrow> '''' | Some m \<Rightarrow> me_sha m);
          ck = ck\<lparr>ck_disk_sha := bf_sha f, ck_meta_sha := meta\<rparr>
      in if bf_sha f = im_checksum im then (let (res, st) = check_ok io im ck res st in (Inr res, st))
         else if op_force opts then force_refinalize io im (bf_sha f) (bf_size f) ck res st
         else if meta \<noteq> '''' \<and> meta = bf_sha f then self_heal io im (bf_sha f) (bf_size f) ck res st
         else
           (let res = res\<lparr>rs_checks := ck, rs_outcome := Quarantined, rs_new := Corrupt,
                  rs_detail := drift_detail (bf_sha f) (im_checksum im) meta\<rparr>;
                (res, st) = quarantine io im Corrupt Audit_Quarantined Set_Status_Corrupt res st
            in (Inr res, st)))"

definition run_checks :: "reconcile_io \<Rightarrow> options \<Rightarrow> image_row \<Rightarrow> string \<Rightarrow> resolution \<Rightarrow> store \<Rightarrow>
    (reconcile_error + result) \<times> store" where
  "run_checks io opts im path rsl st =
     (let ck = \<lparr>ck_exists = False, ck_disk_size = 0, ck_db_size = im_size im, ck_disk_sha = '''', ck_db_sha = im_checksum im,
            ck_meta_sha = '''', ck_resolution = rsl\<rparr>;
          res = \<lparr>rs_image = im_id im, rs_outcome = No_Change, rs_previous = im_status im, rs_new = im_status im, rs_checks = ck,
            rs_actions = [], rs_audited = False, rs_detail = No_Detail\<rparr>
      in if rsl = Not_At_All then
           (let res = res\<lparr>rs_outcome := Blob_Missing_Outcome, rs_new := Blob_Missing, rs_detail := Blob_Absent path\<rparr>;
                (res, st) = quarantine io im Blob_Missing Audit_Missing Set_Status_Missing res st
            in (Inr res, st))
         else
           (case (if io_stat io = None then st_files st path else None) of
              None \<Rightarrow> (Inl (Stat path), st)
            | Some f \<Rightarrow>
                (let ck = ck\<lparr>ck_exists := True, ck_disk_size := bf_size f\<rparr>;
                     (res, st) = heal_path io im path rsl res st
                 in if im_size im > 0 \<and> bf_size f \<noteq> im_size im then
                      (let res = res\<lparr>rs_checks := ck, rs_outcome := Quarantined, rs_new := Corrupt,
                             rs_detail := Size_Differs (im_size im) (bf_size f)\<rparr>;
                           (res, st) = quarantine io im Corrupt Audit_Quarantined Set_Status_Corrupt res st
                       in (Inr res, st))
                    else
                      (case io_hash io of
                         Some e \<Rightarrow> (Inl (Hash e), st)
                       | None \<Rightarrow> check_hash io opts im f ck res st))))"

section \<open>One image, all images\<close>

definition bad_outcome :: "outcome \<Rightarrow> bool" where
  "bad_outcome c \<longleftrightarrow> c = Quarantined \<or> c = Blob_Missing_Outcome"

definition answer :: "options \<Rightarrow> result \<Rightarrow> reconcile_error + result" where
  "answer opts res =
     (if op_fail opts \<and> bad_outcome (rs_outcome res) then Inl (Not_Deployable (rs_new res) (rs_detail res)) else Inr res)"

definition reconcilable :: "image_status \<Rightarrow> bool" where
  "reconcilable s \<longleftrightarrow> s = Ready \<or> s = Corrupt \<or> s = Blob_Missing"

definition no_change :: "image_row \<Rightarrow> result" where
  "no_change im =
     \<lparr>rs_image = im_id im, rs_outcome = No_Change, rs_previous = im_status im, rs_new = im_status im,
       rs_checks = \<lparr>ck_exists = False, ck_disk_size = 0, ck_db_size = 0, ck_disk_sha = '''', ck_db_sha = '''', ck_meta_sha = '''',
         ck_resolution = Not_At_All\<rparr>,
       rs_actions = [], rs_audited = False, rs_detail = No_Detail\<rparr>"

definition stat_key :: "string \<Rightarrow> store \<Rightarrow> (int \<times> int) option" where
  "stat_key path st = (if path = '''' then None else map_option (\<lambda>f. (bf_mtime f, bf_size f)) (st_files st path))"

text \<open>A cached result, when the options allow one that is not too old and of the same file.\<close>

definition cached :: "options \<Rightarrow> int \<Rightarrow> string \<Rightarrow> (int \<times> int) option \<Rightarrow> store \<Rightarrow> result option" where
  "cached opts now i key st =
     (if op_ttl opts > 0 then
        (case (key, st_cache st i) of
           (Some k, Some e) \<Rightarrow> if ce_key e = k \<and> now - ce_at e < op_ttl opts then Some (ce_result e) else None
         | _ \<Rightarrow> None)
      else None)"

definition reconcile_image :: "string \<Rightarrow> reconcile_io \<Rightarrow> options \<Rightarrow> int \<Rightarrow> string \<Rightarrow> store \<Rightarrow>
    (reconcile_error + result) \<times> store" where
  "reconcile_image dir io opts now i st =
     (case get_image (io_image io) i st of
        Inl e \<Rightarrow> (Inl e, st)
      | Inr im \<Rightarrow>
      if \<not> reconcilable (im_status im) then (Inr (no_change im), st)
      else
     (let (path, rsl) = resolve_blob_path dir io im st;
          key = stat_key path st
      in case cached opts now i key st of
           Some res \<Rightarrow> (answer opts res, st)
         | None \<Rightarrow>
             (case run_checks io opts im path rsl st of
                (Inl e, st) \<Rightarrow> (Inl e, st)
              | (Inr res, st) \<Rightarrow>
                  (answer opts res,
                   case key of None \<Rightarrow> st
                   | Some k \<Rightarrow> st\<lparr>st_cache := (st_cache st)(i \<mapsto> \<lparr>ce_result = res, ce_at = now, ce_key = k\<rparr>)\<rparr>))))"

text \<open>The options of the guard before a deployment, of the endpoint and of the passes over all images.\<close>

definition guard_options :: "int \<Rightarrow> options" where
  "guard_options ttl = \<lparr>op_ttl = ttl, op_force = False, op_fail = True\<rparr>"

definition endpoint_options :: "bool \<Rightarrow> options" where
  "endpoint_options force = \<lparr>op_ttl = 0, op_force = force, op_fail = False\<rparr>"

definition list_images :: "reply \<Rightarrow> image_status \<Rightarrow> store \<Rightarrow> image_row list option" where
  "list_images a s st = (if a \<noteq> None then None else Some (filter (\<lambda>im. im_status im = s) (st_images st)))"

fun reconcile_each :: "string \<Rightarrow> (string \<Rightarrow> reconcile_io) \<Rightarrow> (string \<Rightarrow> int) \<Rightarrow> string list \<Rightarrow> store \<Rightarrow> store" where
  "reconcile_each dir io clock [] st = st"
| "reconcile_each dir io clock (i # is) st =
     reconcile_each dir io clock is (snd (reconcile_image dir (io i) \<lparr>op_ttl = 0, op_force = False, op_fail = False\<rparr> (clock i) i st))"

definition reconcile_all :: "string \<Rightarrow> reply \<Rightarrow> reply \<Rightarrow> reply \<Rightarrow> (string \<Rightarrow> reconcile_io) \<Rightarrow> (string \<Rightarrow> int) \<Rightarrow> store \<Rightarrow> store" where
  "reconcile_all dir a b c io clock st =
     (case list_images a Ready st of
        None \<Rightarrow> st
      | Some ready \<Rightarrow>
          (let corrupt = (case list_images b Corrupt st of None \<Rightarrow> [] | Some xs \<Rightarrow> xs);
               missing = (case list_images c Blob_Missing st of None \<Rightarrow> [] | Some xs \<Rightarrow> xs)
           in reconcile_each dir io clock (map im_id (ready @ corrupt @ missing)) st))"


section \<open>What the operations leave alone\<close>

lemma update_image_keeps [simp]:
  "st_files (snd (update_image a err i f st)) = st_files st" "st_meta (snd (update_image a err i f st)) = st_meta st"
  "st_cache (snd (update_image a err i f st)) = st_cache st"
  by (simp_all add: update_image_def split: option.splits)

lemma audit_keeps [simp]:
  "st_files (audit i act old new st) = st_files st" "st_meta (audit i act old new st) = st_meta st"
  "st_images (audit i act old new st) = st_images st" "find_image k (audit i act old new st) = find_image k st"
  by (simp_all add: audit_def find_image_def)

lemma find_image_update:
  assumes "\<And>im. im_id (f im) = im_id im"
  shows "find_image k (snd (update_image a err i f st)) =
    (if k = i \<and> a = None then map_option f (find_image k st) else find_image k st)"
proof -
  have "find (\<lambda>im. im_id im = k) (map (\<lambda>im. if im_id im = i then f im else im) ims) =
      (if k = i then map_option f (find (\<lambda>im. im_id im = k) ims) else find (\<lambda>im. im_id im = k) ims)" for ims
    using assms by (induction ims) auto
  then show ?thesis by (auto simp: update_image_def find_image_def split: option.splits)
qed

lemma update_image_result:
  "update_image a err i f st = (None, st') \<Longrightarrow> st' = snd (update_image None err i f st) \<and> a = None \<and> find_image i st \<noteq> None"
  "update_image a err i f st = (Some e, st') \<Longrightarrow> st' = st"
  by (auto simp: update_image_def split: option.splits if_splits)

text \<open>An operation on one image: no other row changes, and it leaves files alone.\<close>

definition touches :: "string \<Rightarrow> store \<Rightarrow> store \<Rightarrow> bool" where
  "touches i st st' \<longleftrightarrow> st_files st' = st_files st \<and> (\<forall>k. k \<noteq> i \<longrightarrow> find_image k st' = find_image k st) \<and>
     (\<forall>k. k \<noteq> i \<longrightarrow> st_meta st' k = st_meta st k) \<and> map im_id (st_images st') = map im_id (st_images st)"

lemma touches_refl [simp]: "touches i st st"
  by (simp add: touches_def)

lemma touches_trans: "touches i st st' \<Longrightarrow> touches i st' st'' \<Longrightarrow> touches i st st''"
  by (simp add: touches_def)

lemma touches_audit [simp]: "touches i st (audit k act old new st') \<longleftrightarrow> touches i st st'"
  by (simp add: touches_def)

lemma touches_update: "(\<And>im. im_id (f im) = im_id im) \<Longrightarrow> touches i st (snd (update_image a err i f st))"
  unfolding touches_def by (simp add: find_image_update) (simp add: update_image_def split: option.splits)

lemma touches_statements:
  "touches i st (snd (set_status a i s d st))" "touches i st (snd (set_path a i p st))"
  "touches i st (snd (repair_checksum a i sha n st))"
  unfolding set_status_def set_path_def repair_checksum_def by (rule touches_update, simp)+

lemma touches_results:
  "set_status a i s d st = (x, st') \<Longrightarrow> touches i st st'" "set_path a i p st = (x, st') \<Longrightarrow> touches i st st'"
  "repair_checksum a i sha n st = (x, st') \<Longrightarrow> touches i st st'"
  using touches_statements(1) [of i st a s d] touches_statements(2) [of i st a p] touches_statements(3) [of i st a sha n] by simp_all

lemma touches_meta [simp]: "touches i st (st\<lparr>st_meta := (st_meta st)(i := m)\<rparr>)"
  by (simp add: touches_def find_image_def)

lemma touches_quarantine: "quarantine io im s act a res st = (r, st') \<Longrightarrow> touches (im_id im) st st'"
  by (auto simp: quarantine_def split: prod.splits option.splits if_splits dest: touches_results)

lemma touches_heal_path: "heal_path io im path rsl res st = (r, st') \<Longrightarrow> touches (im_id im) st st'"
  by (auto simp: heal_path_def Let_def split: prod.splits option.splits if_splits dest: touches_results)

lemma touches_check_ok: "check_ok io im ck res st = (r, st') \<Longrightarrow> touches (im_id im) st st'"
  by (auto simp: check_ok_def Let_def split: prod.splits option.splits if_splits dest: touches_results)

lemma touches_self_heal: "self_heal io im sha n ck res st = (r, st') \<Longrightarrow> touches (im_id im) st st'"
  by (auto simp: self_heal_def split: prod.splits option.splits if_splits dest: touches_results)

lemma touches_force: "force_refinalize io im sha n ck res st = (r, st') \<Longrightarrow> touches (im_id im) st st'"
  by (auto simp: force_refinalize_def Let_def split: prod.splits option.splits if_splits
      dest!: touches_results intro: touches_trans [OF touches_meta])

lemma touches_check_hash: "check_hash io opts im f ck res st = (r, st') \<Longrightarrow> touches (im_id im) st st'"
  by (auto simp: check_hash_def Let_def split: prod.splits if_splits
      dest: touches_check_ok touches_force touches_self_heal touches_quarantine)

lemma touches_run_checks: "run_checks io opts im path rsl st = (r, st') \<Longrightarrow> touches (im_id im) st st'"
  by (auto simp: run_checks_def Let_def split: prod.splits option.splits if_splits
      dest!: touches_heal_path touches_quarantine touches_check_hash intro: touches_trans)

lemma touches_reconcile: "touches i st (snd (reconcile_image dir io opts now i st))"
proof -
  have c: "touches i st (st'\<lparr>st_cache := c\<rparr>) \<longleftrightarrow> touches i st st'" for st' c
    by (simp add: touches_def find_image_def)
  have im: "im_id im = i" if "get_image a i st = Inr im" for a im
    using that by (auto simp: get_image_def find_image_def find_Some_iff split: option.splits)
  show ?thesis unfolding reconcile_image_def Let_def
    by (auto split: sum.splits prod.splits option.splits simp: c dest!: im touches_run_checks)
qed


section \<open>The failure matrix\<close>

text \<open>What a pass finds, in the order of the matrix, and what it makes of the row.\<close>

datatype verdict = Missing | Wrong_Size | Match | Forced | Corroborated | Drifted

definition verdict :: "options \<Rightarrow> image_row \<Rightarrow> blob_file option \<Rightarrow> string \<Rightarrow> verdict" where
  "verdict opts im blob meta =
     (case blob of None \<Rightarrow> Missing
      | Some f \<Rightarrow>
          if im_size im > 0 \<and> bf_size f \<noteq> im_size im then Wrong_Size
          else if bf_sha f = im_checksum im then Match
          else if op_force opts then Forced
          else if meta \<noteq> '''' \<and> meta = bf_sha f then Corroborated
          else Drifted)"

definition outcome_of :: "verdict \<Rightarrow> image_status \<Rightarrow> outcome" where
  "outcome_of v s =
     (case v of Missing \<Rightarrow> Blob_Missing_Outcome | Wrong_Size \<Rightarrow> Quarantined | Drifted \<Rightarrow> Quarantined | Forced \<Rightarrow> Re_Finalized
      | Corroborated \<Rightarrow> Healed | Match \<Rightarrow> if s = Ready then Ok_Outcome else Healed)"

definition mark :: "image_status \<Rightarrow> detail \<Rightarrow> image_row \<Rightarrow> image_row" where
  "mark s d im = (if im_status im = s then im else im\<lparr>im_status := s, im_error := d\<rparr>)"

definition row_after :: "verdict \<Rightarrow> string \<Rightarrow> blob_file option \<Rightarrow> string \<Rightarrow> image_row \<Rightarrow> image_row" where
  "row_after v path blob meta im =
     (case blob of None \<Rightarrow> mark Blob_Missing (Blob_Absent path) im
      | Some f \<Rightarrow>
          (let im = im\<lparr>im_path := path\<rparr> in
           case v of
             Missing \<Rightarrow> im
           | Wrong_Size \<Rightarrow> mark Corrupt (Size_Differs (im_size im) (bf_size f)) im
           | Match \<Rightarrow> (if im_status im = Ready then im else im\<lparr>im_status := Ready, im_error := No_Detail\<rparr>)
           | Forced \<Rightarrow> im\<lparr>im_checksum := bf_sha f, im_size := bf_size f, im_status := Ready, im_error := No_Detail\<rparr>
           | Corroborated \<Rightarrow> im\<lparr>im_checksum := bf_sha f, im_size := bf_size f, im_status := Ready, im_error := No_Detail\<rparr>
           | Drifted \<Rightarrow> mark Corrupt (drift_detail (bf_sha f) (im_checksum im) meta) im))"

definition no_faults :: reconcile_io where
  "no_faults = \<lparr>io_image = None, io_path = None, io_path2 = None, io_stat = None, io_hash = None, io_set_path = None,
     io_status = None, io_repair = None, io_meta = None\<rparr>"

lemma no_faults_sel [simp]: "io_image no_faults = None" "io_path no_faults = None" "io_path2 no_faults = None"
  "io_stat no_faults = None" "io_hash no_faults = None" "io_set_path no_faults = None" "io_status no_faults = None"
  "io_repair no_faults = None" "io_meta no_faults = None"
  by (simp_all add: no_faults_def)

definition meta_sha :: "string \<Rightarrow> store \<Rightarrow> string" where
  "meta_sha i st = (case st_meta st i of None \<Rightarrow> '''' | Some m \<Rightarrow> me_sha m)"

text \<open>A statement on the row of an image.\<close>

lemma statement_rows:
  assumes "find_image i st = Some im"
  shows "\<exists>st'. set_status None i s d st = (None, st') \<and> find_image i st' = Some (im\<lparr>im_status := s, im_error := d\<rparr>) \<and>
      st_meta st' = st_meta st \<and> st_files st' = st_files st"
    and "\<exists>st'. set_path None i p st = (None, st') \<and> find_image i st' = Some (im\<lparr>im_path := p\<rparr>) \<and>
      st_meta st' = st_meta st \<and> st_files st' = st_files st"
    and "\<exists>st'. repair_checksum None i sha n st = (None, st') \<and>
      find_image i st' = Some (im\<lparr>im_checksum := sha, im_size := n, im_status := Ready, im_error := No_Detail\<rparr>) \<and>
      st_meta st' = st_meta st \<and> st_files st' = st_files st"
proof -
  have *: "\<exists>st'. update_image None err i f st = (None, st') \<and> find_image i st' = Some (f im) \<and>
      st_meta st' = st_meta st \<and> st_files st' = st_files st" if "\<And>im. im_id (f im) = im_id im" for err f
    using find_image_update [of f i None err i st, OF that] assms update_image_keeps [of None err i f st]
    by (simp add: update_image_def)
  show "\<exists>st'. set_status None i s d st = (None, st') \<and> find_image i st' = Some (im\<lparr>im_status := s, im_error := d\<rparr>) \<and>
      st_meta st' = st_meta st \<and> st_files st' = st_files st"
    unfolding set_status_def by (rule *) simp
  show "\<exists>st'. set_path None i p st = (None, st') \<and> find_image i st' = Some (im\<lparr>im_path := p\<rparr>) \<and>
      st_meta st' = st_meta st \<and> st_files st' = st_files st"
    unfolding set_path_def by (rule *) simp
  show "\<exists>st'. repair_checksum None i sha n st = (None, st') \<and>
      find_image i st' = Some (im\<lparr>im_checksum := sha, im_size := n, im_status := Ready, im_error := No_Detail\<rparr>) \<and>
      st_meta st' = st_meta st \<and> st_files st' = st_files st"
    unfolding repair_checksum_def by (rule *) simp
qed

lemma quarantine_row:
  assumes "find_image (im_id im) st = Some im'" and "im_status im' = im_status im"
  shows "\<exists>r st'. quarantine no_faults im s act a res st = (r, st') \<and> rs_outcome r = rs_outcome res \<and>
    find_image (im_id im) st' = Some (mark s (rs_detail res) im')"
  using statement_rows(1) [OF assms(1), of s "rs_detail res"] assms
  by (auto simp: quarantine_def mark_def)

lemma heal_path_row:
  assumes "find_image (im_id im) st = Some im" and "rsl = At_Db_Path \<Longrightarrow> path = im_path im" and "rsl \<noteq> Not_At_All"
  shows "\<exists>r st'. heal_path no_faults im path rsl res st = (r, st') \<and> rs_outcome r = rs_outcome res \<and>
    find_image (im_id im) st' = Some (im\<lparr>im_path := path\<rparr>) \<and> st_meta st' = st_meta st"
proof (cases "rsl = At_Default_Layout \<and> im_path im \<noteq> path")
  case True
  then show ?thesis using statement_rows(2) [OF assms(1), of path] assms(1)
    by (auto simp: heal_path_def get_path_def)
next
  case False
  then have "im_path im = path" using assms(2,3) by (cases rsl) auto
  then have "im\<lparr>im_path := path\<rparr> = im" by (cases im) simp
  then show ?thesis using False assms(1) by (auto simp: heal_path_def get_path_def)
qed


lemma check_ok_row:
  assumes "find_image (im_id im) st = Some (im\<lparr>im_path := path\<rparr>)" and "reconcilable (im_status im)"
  shows "\<exists>r st'. check_ok no_faults im ck res st = (r, st') \<and> rs_outcome r = outcome_of Match (im_status im) \<and>
    find_image (im_id im) st' = Some (row_after Match path (Some f) meta im)"
proof (cases "im_status im = Ready")
  case True
  then show ?thesis using assms(1) by (simp add: check_ok_def row_after_def outcome_of_def Let_def)
next
  case False
  then have "im_status im = Corrupt \<or> im_status im = Blob_Missing" using assms(2) by (simp add: reconcilable_def)
  then show ?thesis using statement_rows(1) [OF assms(1), of Ready No_Detail] False
    by (auto simp: check_ok_def row_after_def outcome_of_def Let_def)
qed

lemma check_hash_row:
  fixes opts :: options
  assumes im: "find_image (im_id im) st = Some (im\<lparr>im_path := path\<rparr>)" and "reconcilable (im_status im)"
    and size: "\<not> (im_size im > 0 \<and> bf_size f \<noteq> im_size im)"
  defines "v \<equiv> verdict opts im (Some f) (meta_sha (im_id im) st)"
  shows "\<exists>r st'. check_hash no_faults opts im f ck res st = (Inr r, st') \<and> rs_outcome r = outcome_of v (im_status im) \<and>
    find_image (im_id im) st' = Some (row_after v path (Some f) (meta_sha (im_id im) st) im)"
proof -
  let ?ck = "ck\<lparr>ck_disk_sha := bf_sha f, ck_meta_sha := meta_sha (im_id im) st\<rparr>"
  have unf: "check_hash no_faults opts im f ck res st =
      (if bf_sha f = im_checksum im then (let (res, st) = check_ok no_faults im ?ck res st in (Inr res, st))
       else if op_force opts then force_refinalize no_faults im (bf_sha f) (bf_size f) ?ck res st
       else if meta_sha (im_id im) st \<noteq> '''' \<and> meta_sha (im_id im) st = bf_sha f
         then self_heal no_faults im (bf_sha f) (bf_size f) ?ck res st
       else (let res = res\<lparr>rs_checks := ?ck, rs_outcome := Quarantined, rs_new := Corrupt,
                   rs_detail := drift_detail (bf_sha f) (im_checksum im) (meta_sha (im_id im) st)\<rparr>;
                 (res, st) = quarantine no_faults im Corrupt Audit_Quarantined Set_Status_Corrupt res st
             in (Inr res, st)))"
    by (simp add: check_hash_def meta_sha_def Let_def)
  have "v \<noteq> Missing" "v \<noteq> Wrong_Size" using size by (simp_all add: v_def verdict_def)
  then consider "v = Match" | "v = Forced" | "v = Corroborated" | "v = Drifted" by (cases v) auto
  then show ?thesis
  proof cases
    case 1
    then have "bf_sha f = im_checksum im" using size by (auto simp: v_def verdict_def split: if_splits)
    then show ?thesis using 1 check_ok_row [OF im assms(2), of ?ck res f "meta_sha (im_id im) st"] by (auto simp: unf)
  next
    case 2
    then have c: "bf_sha f \<noteq> im_checksum im" "op_force opts" using size by (auto simp: v_def verdict_def split: if_splits)
    let ?m = "(st_meta st)(im_id im \<mapsto> ((case st_meta st (im_id im) of Some m \<Rightarrow> m
        | None \<Rightarrow> \<lparr>me_id = im_id im, me_name = im_name im, me_method = im_method im, me_sha = '''', me_size = 0\<rparr>)
          \<lparr>me_sha := bf_sha f, me_size := bf_size f\<rparr>))"
    have "find_image (im_id im) (st\<lparr>st_meta := ?m\<rparr>) = Some (im\<lparr>im_path := path\<rparr>)"
      using im by (simp add: find_image_def)
    from statement_rows(3) [OF this, of "bf_sha f" "bf_size f"]
    obtain st' where rep: "repair_checksum None (im_id im) (bf_sha f) (bf_size f) (st\<lparr>st_meta := ?m\<rparr>) = (None, st')"
      and row: "find_image (im_id im) st' = Some (im\<lparr>im_path := path, im_checksum := bf_sha f, im_size := bf_size f,
        im_status := Ready, im_error := No_Detail\<rparr>)" by blast
    have "\<exists>r. force_refinalize no_faults im (bf_sha f) (bf_size f) ?ck res st =
        (Inr r, audit (im_id im) Audit_Forced (im_status im) Ready st') \<and> rs_outcome r = Re_Finalized"
      by (simp add: force_refinalize_def Let_def rep)
    then show ?thesis using c row by (auto simp: unf 2 outcome_of_def row_after_def)
  next
    case 3
    then have c: "bf_sha f \<noteq> im_checksum im" "\<not> op_force opts" "meta_sha (im_id im) st \<noteq> ''''" "meta_sha (im_id im) st = bf_sha f"
      using size by (auto simp: v_def verdict_def split: if_splits)
    then show ?thesis using statement_rows(3) [OF im, of "bf_sha f" "bf_size f"]
      by (auto simp: unf 3 self_heal_def outcome_of_def row_after_def)
  next
    case 4
    then have c: "bf_sha f \<noteq> im_checksum im" "\<not> op_force opts" "\<not> (meta_sha (im_id im) st \<noteq> '''' \<and> meta_sha (im_id im) st = bf_sha f)"
      using size by (auto simp: v_def verdict_def split: if_splits)
    let ?res = "res\<lparr>rs_checks := ?ck, rs_outcome := Quarantined, rs_new := Corrupt,
        rs_detail := drift_detail (bf_sha f) (im_checksum im) (meta_sha (im_id im) st)\<rparr>"
    obtain r st' where q: "quarantine no_faults im Corrupt Audit_Quarantined Set_Status_Corrupt ?res st = (r, st')"
        "rs_outcome r = Quarantined" "find_image (im_id im) st' =
          Some (mark Corrupt (drift_detail (bf_sha f) (im_checksum im) (meta_sha (im_id im) st)) (im\<lparr>im_path := path\<rparr>))"
      using quarantine_row [OF im, of Corrupt Audit_Quarantined Set_Status_Corrupt ?res] by auto
    have "check_hash no_faults opts im f ck res st = (Inr r, st')" using c q(1) unfolding unf by auto
    then show ?thesis using q(2,3) by (simp add: 4 outcome_of_def row_after_def)
  qed
qed

lemma run_checks_row:
  fixes opts :: options
  assumes im: "find_image (im_id im) st = Some im" and "reconcilable (im_status im)"
    and rsl: "rsl = At_Db_Path \<Longrightarrow> path = im_path im" and found_iff: "rsl \<noteq> Not_At_All \<longleftrightarrow> blob \<noteq> None"
    and blob: "blob \<noteq> None \<Longrightarrow> st_files st path = blob"
  defines "v \<equiv> verdict opts im blob (meta_sha (im_id im) st)"
  shows "\<exists>r st'. run_checks no_faults opts im path rsl st = (Inr r, st') \<and> rs_outcome r = outcome_of v (im_status im) \<and>
    find_image (im_id im) st' = Some (row_after v path blob (meta_sha (im_id im) st) im)"
proof (cases blob)
  case None
  then have "rsl = Not_At_All" "v = Missing" using found_iff by (simp_all add: v_def verdict_def)
  then show ?thesis using None quarantine_row [OF im refl, of Blob_Missing Audit_Missing Set_Status_Missing
        "\<lparr>rs_image = im_id im, rs_outcome = Blob_Missing_Outcome, rs_previous = im_status im, rs_new = Blob_Missing,
          rs_checks = \<lparr>ck_exists = False, ck_disk_size = 0, ck_db_size = im_size im, ck_disk_sha = '''',
            ck_db_sha = im_checksum im, ck_meta_sha = '''', ck_resolution = Not_At_All\<rparr>,
          rs_actions = [], rs_audited = False, rs_detail = Blob_Absent path\<rparr>"]
    by (auto simp: run_checks_def Let_def row_after_def outcome_of_def)
next
  case (Some f)
  then have found: "rsl \<noteq> Not_At_All" "st_files st path = Some f" using found_iff blob by auto
  let ?ck = "\<lparr>ck_exists = False, ck_disk_size = 0, ck_db_size = im_size im, ck_disk_sha = '''', ck_db_sha = im_checksum im,
      ck_meta_sha = '''', ck_resolution = rsl\<rparr>"
  let ?res = "\<lparr>rs_image = im_id im, rs_outcome = No_Change, rs_previous = im_status im, rs_new = im_status im, rs_checks = ?ck,
      rs_actions = [], rs_audited = False, rs_detail = No_Detail\<rparr>"
  obtain r1 st1 where h: "heal_path no_faults im path rsl ?res st = (r1, st1)" and
      im1: "find_image (im_id im) st1 = Some (im\<lparr>im_path := path\<rparr>)" and m1: "st_meta st1 = st_meta st"
    using heal_path_row [OF im rsl found(1), of ?res] by blast
  have meta: "meta_sha (im_id im) st1 = meta_sha (im_id im) st" using m1 by (simp add: meta_sha_def)
  let ?ck2 = "?ck\<lparr>ck_exists := True, ck_disk_size := bf_size f\<rparr>"
  have eq: "run_checks no_faults opts im path rsl st =
      (if im_size im > 0 \<and> bf_size f \<noteq> im_size im then
         (let (res, st) = quarantine no_faults im Corrupt Audit_Quarantined Set_Status_Corrupt
             (r1\<lparr>rs_checks := ?ck2, rs_outcome := Quarantined, rs_new := Corrupt, rs_detail := Size_Differs (im_size im) (bf_size f)\<rparr>) st1
          in (Inr res, st))
       else check_hash no_faults opts im f ?ck2 r1 st1)"
    using found h by (simp add: run_checks_def Let_def)
  show ?thesis
  proof (cases "im_size im > 0 \<and> bf_size f \<noteq> im_size im")
    case True
    then have "v = Wrong_Size" by (simp add: v_def verdict_def Some)
    then show ?thesis using True Some
        quarantine_row [OF im1, of Corrupt Audit_Quarantined Set_Status_Corrupt
          "r1\<lparr>rs_checks := ?ck2, rs_outcome := Quarantined, rs_new := Corrupt, rs_detail := Size_Differs (im_size im) (bf_size f)\<rparr>"]
      by (fastforce simp: eq row_after_def outcome_of_def)
  next
    case False
    show ?thesis unfolding eq if_not_P [OF False] v_def Some
      using check_hash_row [OF im1 assms(2) False, of opts ?ck2 r1] unfolding meta .
  qed
qed


section \<open>One pass over an image\<close>

text \<open>The file of an image: the first of the stored path and the default one at which there is one.\<close>

definition blob_paths :: "string \<Rightarrow> image_row \<Rightarrow> string list" where
  "blob_paths dir im = filter (\<lambda>p. p \<noteq> '''') [im_path im] @ [default_blob_path dir (im_id im) (im_format im)]"

definition blob_path :: "string \<Rightarrow> image_row \<Rightarrow> store \<Rightarrow> string" where
  "blob_path dir im st =
     (case find (\<lambda>p. st_files st p \<noteq> None) (blob_paths dir im) of None \<Rightarrow> hd (blob_paths dir im) | Some p \<Rightarrow> p)"

lemma resolve_path:
  assumes "find_image (im_id im) st = Some im" and "resolve_blob_path dir no_faults im st = (path, rsl)"
  shows "path = blob_path dir im st" "rsl = At_Db_Path \<Longrightarrow> path = im_path im" "rsl \<noteq> Not_At_All \<longleftrightarrow> st_files st path \<noteq> None"
  using assms by (auto simp: resolve_blob_path_def get_path_def blob_path_def blob_paths_def Let_def split: if_splits)

lemma find_image_id: "find_image i st = Some im \<Longrightarrow> im_id im = i"
  by (auto simp: find_image_def find_Some_iff)

lemma find_image_cache [simp]: "find_image i (st\<lparr>st_cache := c\<rparr>) = find_image i st"
  by (simp add: find_image_def)

lemma reconcile_row:
  fixes dir i :: string and st :: store and opts :: options
  assumes im: "find_image i st = Some im" and "reconcilable (im_status im)" and "op_ttl opts \<le> 0"
  defines "path \<equiv> blob_path dir im st"
  defines "v \<equiv> verdict opts im (st_files st path) (meta_sha i st)"
  shows "\<exists>r st'. reconcile_image dir no_faults opts now i st = (answer opts r, st') \<and> rs_outcome r = outcome_of v (im_status im) \<and>
    find_image i st' = Some (row_after v path (st_files st path) (meta_sha i st) im)"
proof -
  have id: "im_id im = i" using im by (rule find_image_id)
  obtain rsl where rp: "resolve_blob_path dir no_faults im st = (path, rsl)"
    and rsl: "rsl = At_Db_Path \<Longrightarrow> path = im_path im" "rsl \<noteq> Not_At_All \<longleftrightarrow> st_files st path \<noteq> None"
    using resolve_path [of im st dir] im id by (metis path_def surj_pair)
  obtain r st' where rc: "run_checks no_faults opts im path rsl st = (Inr r, st')" "rs_outcome r = outcome_of v (im_status im)"
      "find_image i st' = Some (row_after v path (st_files st path) (meta_sha i st) im)"
    using run_checks_row [of im st rsl path "st_files st path" opts] im id rsl assms(2) by (auto simp: v_def)
  have "cached opts now i (stat_key path st) st = None" using assms(3) by (simp add: cached_def)
  then show ?thesis using im assms(2) rp rc by (auto simp: reconcile_image_def get_image_def Let_def split: option.split)
qed


text \<open>Only the forced repair writes the metadata.\<close>

lemma meta_statements:
  "set_status a i s d st = (x, st') \<Longrightarrow> st_meta st' = st_meta st" "set_path a i p st = (x, st') \<Longrightarrow> st_meta st' = st_meta st"
  "repair_checksum a i sha n st = (x, st') \<Longrightarrow> st_meta st' = st_meta st"
  unfolding set_status_def set_path_def repair_checksum_def by (metis update_image_keeps(2) snd_conv)+

lemma meta_quarantine: "quarantine io im s act a res st = (r, st') \<Longrightarrow> st_meta st' = st_meta st"
  by (auto simp: quarantine_def split: prod.splits option.splits if_splits dest: meta_statements)

lemma meta_heal_path: "heal_path io im path rsl res st = (r, st') \<Longrightarrow> st_meta st' = st_meta st"
  by (auto simp: heal_path_def Let_def split: prod.splits option.splits if_splits dest: meta_statements)

lemma meta_check_hash:
  assumes "check_hash io opts im f ck res st = (r, st')" and "\<not> op_force opts"
  shows "st_meta st' = st_meta st"
  using assms by (auto simp: check_hash_def check_ok_def self_heal_def Let_def split: prod.splits option.splits if_splits
      dest: meta_statements meta_quarantine)

lemma meta_run_checks:
  "run_checks io opts im path rsl st = (r, st') \<Longrightarrow> \<not> op_force opts \<Longrightarrow> st_meta st' = st_meta st"
  by (auto simp: run_checks_def Let_def split: prod.splits option.splits if_splits
      dest!: meta_heal_path meta_quarantine meta_check_hash)

lemma meta_reconcile: "\<not> op_force opts \<Longrightarrow> st_meta (snd (reconcile_image dir io opts now i st)) = st_meta st"
  by (auto simp: reconcile_image_def Let_def split: sum.splits prod.splits option.splits dest: meta_run_checks)

text \<open>What a row is after a pass, a second pass finds settled.\<close>

lemma row_after_id [simp]: "im_id (row_after v path blob meta im) = im_id im"
  "im_format (row_after v path blob meta im) = im_format im"
  by (auto simp: row_after_def mark_def Let_def split: option.split verdict.split)

lemma row_after_status:
  assumes "reconcilable (im_status im)" and "v \<noteq> Missing \<longleftrightarrow> blob \<noteq> None"
  shows "reconcilable (im_status (row_after v path blob meta im))"
    and "im_status (row_after v path blob meta im) = Ready \<longleftrightarrow> v = Match \<or> v = Forced \<or> v = Corroborated"
  using assms by (cases v; auto simp: row_after_def mark_def reconcilable_def Let_def split: option.split)+

lemma row_after_path: "im_path (row_after v path (Some f) meta im) = path"
  by (cases v) (auto simp: row_after_def mark_def Let_def)

lemma verdict_settled:
  fixes opts :: options and im :: image_row and blob :: "blob_file option" and meta :: string
  assumes "op_force opts \<or> meta' = meta"
  defines "v \<equiv> verdict opts im blob meta"
  shows "verdict opts (row_after v path blob meta im) blob meta' = (if v \<in> {Match, Forced, Corroborated} then Match else v)"
proof (cases blob)
  case (Some f)
  then have "v \<noteq> Missing" by (simp add: v_def verdict_def)
  then consider "v = Wrong_Size" | "v \<in> {Match, Forced, Corroborated}" | "v = Drifted" by (cases v) auto
  then show ?thesis
  proof cases
    case 1
    then show ?thesis by (auto simp: row_after_def mark_def verdict_def v_def Some Let_def split: if_splits)
  next
    case 2
    then have "v = Match \<Longrightarrow> bf_sha f = im_checksum im \<and> \<not> (im_size im > 0 \<and> bf_size f \<noteq> im_size im)"
      by (simp add: v_def verdict_def Some split: if_splits)
    then show ?thesis using 2 by (auto simp: row_after_def verdict_def Some Let_def)
  next
    case 3
    then have "\<not> (im_size im > 0 \<and> bf_size f \<noteq> im_size im) \<and> bf_sha f \<noteq> im_checksum im \<and> \<not> op_force opts \<and>
        \<not> (meta \<noteq> '''' \<and> meta = bf_sha f)"
      by (simp add: v_def verdict_def Some split: if_splits)
    then show ?thesis using 3 assms(1) by (auto simp: row_after_def mark_def verdict_def Some Let_def)
  qed
qed (simp add: v_def verdict_def)

lemma row_after_again:
  assumes "v \<noteq> Missing \<longleftrightarrow> blob \<noteq> None" and "v = Drifted \<Longrightarrow> meta' = meta"
  shows "row_after (if v \<in> {Match, Forced, Corroborated} then Match else v) path blob meta' (row_after v path blob meta im) =
    row_after v path blob meta im"
  using assms by (cases v; cases blob) (simp_all add: row_after_def mark_def Let_def)

lemma row_after_settled:
  assumes "v = verdict opts im blob meta" and "op_force opts \<or> meta' = meta"
  shows "row_after (verdict opts (row_after v path blob meta im) blob meta') path blob meta' (row_after v path blob meta im) =
    row_after v path blob meta im"
proof -
  have "v \<noteq> Missing \<longleftrightarrow> blob \<noteq> None" "v = Drifted \<Longrightarrow> meta' = meta"
    using assms by (auto simp: verdict_def split: option.splits if_splits)
  from row_after_again [OF this] show ?thesis unfolding assms(1) verdict_settled [OF assms(2)] .
qed

lemma blob_path_cong: "blob_paths dir a = blob_paths dir b \<Longrightarrow> blob_path dir a st = blob_path dir b st"
  by (simp add: blob_path_def split: option.split)

lemma blob_path_row_after:
  fixes dir :: string and im :: image_row and st :: store
  defines "path \<equiv> blob_path dir im st"
  shows "blob_path dir (row_after v path (st_files st path) meta im) st = path"
proof (cases "st_files st path")
  case None
  then have "im_path (row_after v path (st_files st path) meta im) = im_path im" by (simp add: row_after_def mark_def)
  then have "blob_paths dir (row_after v path (st_files st path) meta im) = blob_paths dir im" by (simp add: blob_paths_def)
  from blob_path_cong [OF this] show ?thesis unfolding path_def .
next
  case (Some f)
  have "path \<noteq> '''' " by (auto simp: path_def blob_path_def blob_paths_def default_blob_path_def join_path_def split: option.split image_format.split)
  then show ?thesis using Some by (simp add: blob_path_def blob_paths_def row_after_path)
qed


section \<open>The guard\<close>

text \<open>Whatever fails, a pass that does not quarantine has hashed the file and left its hash in the row.\<close>

lemma checksum_statements:
  "set_status a k s d st = (x, st') \<Longrightarrow> map_option im_checksum (find_image i st') = map_option im_checksum (find_image i st)"
  "set_path a k p st = (x, st') \<Longrightarrow> map_option im_checksum (find_image i st') = map_option im_checksum (find_image i st)"
  "repair_checksum a i sha n st = (None, st') \<Longrightarrow> \<exists>im. find_image i st' = Some im \<and> im_checksum im = sha"
proof -
  have keep: "map_option im_checksum (find_image i (snd (update_image a err k f st))) = map_option im_checksum (find_image i st)"
    if "\<And>im. im_id (f im) = im_id im" "\<And>im. im_checksum (f im) = im_checksum im" for f err
    using find_image_update [where f = f, OF that(1), where k = i] that(2) by (simp add: option.map_comp comp_def)
  show "set_status a k s d st = (x, st') \<Longrightarrow> map_option im_checksum (find_image i st') = map_option im_checksum (find_image i st)"
    using keep [of "\<lambda>im. im\<lparr>im_status := s, im_error := d\<rparr>" Fetch] by (simp add: set_status_def)
  show "set_path a k p st = (x, st') \<Longrightarrow> map_option im_checksum (find_image i st') = map_option im_checksum (find_image i st)"
    using keep [of "\<lambda>im. im\<lparr>im_path := p\<rparr>" Fetch] by (simp add: set_path_def)
  assume rep: "repair_checksum a i sha n st = (None, st')"
  then obtain im where "find_image i st = Some im" "a = None" by (auto simp: repair_checksum_def update_image_def split: option.splits if_splits)
  then show "\<exists>im. find_image i st' = Some im \<and> im_checksum im = sha" using statement_rows(3) [of i st im sha n] rep by auto
qed

lemma quarantine_outcome: "quarantine io im s act a res st = (r, st') \<Longrightarrow> rs_outcome r = rs_outcome res"
  by (auto simp: quarantine_def split: prod.splits option.splits if_splits)

lemma heal_path_checksum:
  "heal_path io im path rsl res st = (r, st') \<Longrightarrow> map_option im_checksum (find_image i st') = map_option im_checksum (find_image i st)"
  by (auto simp: heal_path_def Let_def split: prod.splits option.splits if_splits dest: checksum_statements(2) [where i = i])

lemma check_hash_checksum:
  assumes "check_hash io opts im f ck res st = (Inr r, st')" and "\<not> bad_outcome (rs_outcome r)"
    and "map_option im_checksum (find_image (im_id im) st) = Some (im_checksum im)"
  shows "map_option im_checksum (find_image (im_id im) st') = Some (bf_sha f)"
  using assms by (auto simp: check_hash_def check_ok_def self_heal_def force_refinalize_def Let_def bad_outcome_def
      split: prod.splits option.splits if_splits
      dest: quarantine_outcome checksum_statements(3) checksum_statements(1) [where i = "im_id im"])

lemma run_checks_checksum:
  assumes "run_checks io opts im path rsl st = (Inr r, st')" and ok: "\<not> bad_outcome (rs_outcome r)"
    and im: "find_image (im_id im) st = Some im"
  shows "\<exists>f. st_files st path = Some f \<and> map_option im_checksum (find_image (im_id im) st') = Some (bf_sha f)"
proof -
  obtain res res' f ck st1 where f: "st_files st path = Some f" and hp: "heal_path io im path rsl res st = (res', st1)"
      and ch: "check_hash io opts im f ck res' st1 = (Inr r, st')"
    using assms(1) ok
    by (auto simp: run_checks_def Let_def bad_outcome_def split: prod.splits option.splits if_splits dest: quarantine_outcome)
  have "map_option im_checksum (find_image (im_id im) st1) = Some (im_checksum im)"
    using heal_path_checksum [OF hp, of "im_id im"] im by simp
  then show ?thesis using f check_hash_checksum [OF ch ok] by blast
qed

section \<open>A pass over all images\<close>

lemma find_key: "distinct (map f xs) \<Longrightarrow> x \<in> set xs \<Longrightarrow> find (\<lambda>y. f y = f x) xs = Some x"
  by (induction xs) auto

text \<open>A row and the file it names agree.\<close>

definition intact :: "store \<Rightarrow> image_row \<Rightarrow> bool" where
  "intact st im =
     (case st_files st (im_path im) of None \<Rightarrow> False
      | Some f \<Rightarrow> bf_sha f = im_checksum im \<and> (im_size im > 0 \<longrightarrow> bf_size f = im_size im))"

definition ready_intact :: "string \<Rightarrow> store \<Rightarrow> bool" where
  "ready_intact k st = (case find_image k st of None \<Rightarrow> True | Some im \<Rightarrow> im_status im = Ready \<longrightarrow> intact st im)"

lemma row_after_intact:
  assumes "v = verdict opts im (st_files st path) meta" and "im_status (row_after v path (st_files st path) meta im) = Ready"
    and "reconcilable (im_status im)"
  shows "intact st (row_after v path (st_files st path) meta im)"
proof -
  have iff: "v \<noteq> Missing \<longleftrightarrow> st_files st path \<noteq> None" unfolding assms(1) by (simp add: verdict_def split: option.split)
  then have v: "v = Match \<or> v = Forced \<or> v = Corroborated" using row_after_status(2) [OF assms(3) iff] assms(2) by simp
  then obtain f where f: "st_files st path = Some f" using iff by auto
  have "v = Match \<Longrightarrow> bf_sha f = im_checksum im \<and> \<not> (im_size im > 0 \<and> bf_size f \<noteq> im_size im)"
    unfolding assms(1) by (simp add: verdict_def f split: if_splits)
  then show ?thesis using v by (auto simp: intact_def row_after_def f Let_def)
qed

lemma ready_intact_step:
  fixes io :: "string \<Rightarrow> reconcile_io" and dir :: string and now :: int and st :: store
  assumes "io i = no_faults"
  defines "st' \<equiv> snd (reconcile_image dir (io i) \<lparr>op_ttl = 0, op_force = False, op_fail = False\<rparr> now i st)"
  shows "ready_intact i st'" and "ready_intact k st \<Longrightarrow> ready_intact k st'"
proof -
  have t: "touches i st st'" unfolding st'_def by (rule touches_reconcile)
  show "ready_intact i st'"
  proof (cases "find_image i st")
    case None
    then show ?thesis by (simp add: st'_def assms(1) reconcile_image_def get_image_def ready_intact_def)
  next
    case (Some im)
    show ?thesis
    proof (cases "reconcilable (im_status im)")
      case True
      obtain r where "find_image i st' = Some (row_after (verdict \<lparr>op_ttl = 0, op_force = False, op_fail = False\<rparr> im
            (st_files st (blob_path dir im st)) (meta_sha i st)) (blob_path dir im st) (st_files st (blob_path dir im st)) (meta_sha i st) im)"
        using reconcile_row [OF Some True, of "\<lparr>op_ttl = 0, op_force = False, op_fail = False\<rparr>" dir now]
        by (auto simp: st'_def assms(1))
      moreover have "intact st' x \<longleftrightarrow> intact st x" for x using t by (simp add: intact_def touches_def)
      ultimately show ?thesis by (simp add: ready_intact_def row_after_intact [OF refl _ True])
    next
      case False
      then show ?thesis using Some
        by (auto simp: st'_def assms(1) reconcile_image_def get_image_def ready_intact_def reconcilable_def)
    qed
  qed
  then show "ready_intact k st \<Longrightarrow> ready_intact k st'"
    using t by (cases "k = i") (auto simp: ready_intact_def touches_def intact_def split: option.splits)
qed

lemma ready_intact_each:
  assumes "io = (\<lambda>_. no_faults)" and "\<forall>k. k \<in> set is \<or> ready_intact k st"
  shows "ready_intact k (reconcile_each dir io clock is st)"
  using assms(2)
proof (induction "is" arbitrary: st)
  case (Cons i "is")
  let ?st = "snd (reconcile_image dir (io i) \<lparr>op_ttl = 0, op_force = False, op_fail = False\<rparr> (clock i) i st)"
  have "k \<in> set is \<or> ready_intact k ?st" for k
    using Cons.prems ready_intact_step(1) [of io i dir "clock i" st] ready_intact_step(2) [of io i k st dir "clock i"] assms(1)
    by (cases "k = i") auto
  then show ?case using Cons.IH by simp
qed simp

lemma touches_each_ids: "map im_id (st_images (reconcile_each dir io clock is st)) = map im_id (st_images st)"
  using touches_reconcile by (induction "is" arbitrary: st) (simp_all add: touches_def)

section \<open>Properties\<close>

text \<open>An image and a store for the examples.\<close>

definition demo_image :: image_row where
  "demo_image = \<lparr>im_id = ''i1'', im_name = ''rocky'', im_method = ''pull'', im_status = Corrupt, im_format = Block_Format,
     im_size = 7, im_checksum = ''aa'', im_path = '''', im_error = No_Detail\<rparr>"

definition demo_store :: "int \<Rightarrow> string \<Rightarrow> string option \<Rightarrow> store" where
  "demo_store n sha meta =
     \<lparr>st_images = [demo_image], st_files = (\<lambda>p. if p = ''/img/i1/image.img'' then Some \<lparr>bf_size = n, bf_mtime = 5, bf_sha = sha\<rparr> else None),
      st_meta = (\<lambda>_. map_option (\<lambda>s. \<lparr>me_id = ''i1'', me_name = '''', me_method = '''', me_sha = s, me_size = n\<rparr>) meta),
      st_cache = (\<lambda>_. None), st_audit = []\<rparr>"

lemmas demo_simps = demo_image_def demo_store_def find_image_def reconcilable_def blob_path_def blob_paths_def
  default_blob_path_def join_path_def verdict_def meta_sha_def intact_def




text \<open>A second fresh pass over an image changes no row of the table.\<close>

theorem reconcile_stable:
  assumes "find_image i st = Some im" and "reconcilable (im_status im)" and "op_ttl opts \<le> 0"
    and "st' = snd (reconcile_image dir no_faults opts now i st)"
  shows "\<forall>k. find_image k (snd (reconcile_image dir no_faults opts later i st')) = find_image k st'"
proof
  fix k
  let ?p = "blob_path dir im st"
  let ?v = "verdict opts im (st_files st ?p) (meta_sha i st)"
  let ?im = "row_after ?v ?p (st_files st ?p) (meta_sha i st) im"
  have t: "touches i st st'" unfolding assms(4) by (rule touches_reconcile)
  then have files: "st_files st' = st_files st" by (simp add: touches_def)
  have im': "find_image i st' = Some ?im" using reconcile_row [OF assms(1-3), of dir now] assms(4) by auto
  have ready: "reconcilable (im_status ?im)" using assms(2) by (rule row_after_status) (simp add: verdict_def split: option.split)
  have p: "blob_path dir ?im st' = ?p" using blob_path_row_after [where dir = dir and im = im and st = st and v = ?v and meta = "meta_sha i st"] files by (simp add: blob_path_def)
  have m: "op_force opts \<or> meta_sha i st' = meta_sha i st"
    using meta_reconcile [of opts dir no_faults now i st] assms(4) by (cases "op_force opts") (simp_all add: meta_sha_def)
  have "find_image i (snd (reconcile_image dir no_faults opts later i st')) = Some ?im"
    using reconcile_row [OF im' ready assms(3), of dir later] row_after_settled [OF refl m, where im = im and blob = "st_files st ?p" and path = ?p]
    unfolding p files by auto
  moreover have "touches i st' (snd (reconcile_image dir no_faults opts later i st'))" by (rule touches_reconcile)
  ultimately show "find_image k (snd (reconcile_image dir no_faults opts later i st')) = find_image k st'"
    using im' by (cases "k = i") (auto simp: touches_def)
qed


theorem reconcile_stable_witness:
  "find_image ''i1'' (snd (reconcile_image ''/img'' no_faults (endpoint_options True) 8 ''i1''
      (snd (reconcile_image ''/img'' no_faults (endpoint_options True) 7 ''i1'' (demo_store 7 ''bb'' None))))) =
   find_image ''i1'' (snd (reconcile_image ''/img'' no_faults (endpoint_options True) 7 ''i1'' (demo_store 7 ''bb'' None)))"
  using reconcile_stable [of "''i1''" "demo_store 7 ''bb'' None" demo_image "endpoint_options True", OF _ _ _ refl, of "''/img''" 8 7]
  by (simp add: demo_simps endpoint_options_def)

text \<open>C7. The guard before a deployment is sound whatever calls fail: when a fresh check of a finished image lets it
  through, a file with exactly the checksum the row then has is at the path that was checked.\<close>

theorem guard_sound:
  assumes "find_image i st = Some im" and "reconcilable (im_status im)" and "op_ttl opts \<le> 0" and "op_fail opts"
    and "reconcile_image dir io opts now i st = (Inr r, st')"
  shows "\<exists>im' f. find_image i st' = Some im' \<and> st_files st' (fst (resolve_blob_path dir io im st)) = Some f \<and>
    bf_sha f = im_checksum im'"
proof -
  have id: "im_id im = i" using assms(1) by (rule find_image_id)
  obtain path rsl where rp: "resolve_blob_path dir io im st = (path, rsl)" by (metis surj_pair)
  have get: "get_image (io_image io) i st = Inr im" using assms(1,5)
    by (auto simp: reconcile_image_def get_image_def split: option.splits)
  have "cached opts now i (stat_key path st) st = None" using assms(3) by (simp add: cached_def)
  then obtain res st1 where rc: "run_checks io opts im path rsl st = (Inr res, st1)" and res: "answer opts res = Inr r"
      and st': "find_image i st' = find_image i st1"
    using assms(2,5) get rp by (auto simp: reconcile_image_def Let_def split: sum.splits prod.splits option.splits)
  have ok: "\<not> bad_outcome (rs_outcome res)" using res assms(4) by (auto simp: answer_def split: if_splits)
  have files: "st_files st' = st_files st"
    using touches_reconcile [of i st dir io opts now] assms(5) by (simp add: touches_def)
  from run_checks_checksum [OF rc ok] assms(1) id
  obtain f where "st_files st path = Some f" "map_option im_checksum (find_image i st1) = Some (bf_sha f)" by auto
  then show ?thesis using rp st' files by auto
qed


theorem guard_sound_witness:
  "\<exists>r st' im f. reconcile_image ''/img'' no_faults (guard_options 0) 9 ''i1'' (demo_store 7 ''aa'' None) = (Inr r, st') \<and>
     find_image ''i1'' st' = Some im \<and> st_files st' ''/img/i1/image.img'' = Some f \<and> bf_sha f = im_checksum im"
proof -
  have im: "find_image ''i1'' (demo_store 7 ''aa'' None) = Some demo_image" by (simp add: demo_simps)
  obtain r st' where r: "reconcile_image ''/img'' no_faults (guard_options 0) 9 ''i1'' (demo_store 7 ''aa'' None) = (Inr r, st')"
    using reconcile_row [OF im, of "guard_options 0" "''/img''" 9]
    by (auto simp: demo_simps guard_options_def outcome_of_def row_after_def Let_def answer_def bad_outcome_def)
  have "fst (resolve_blob_path ''/img'' no_faults demo_image (demo_store 7 ''aa'' None)) = ''/img/i1/image.img''"
    by (simp add: resolve_blob_path_def get_path_def demo_simps)
  with guard_sound [OF im _ _ _ r] r show ?thesis by (auto simp: reconcilable_def demo_image_def guard_options_def)
qed

text \<open>After a pass over all images whose calls succeed, every image that is ready has a file at its stored path,
  with the hash and (when it is known) the size of its row.\<close>

theorem ready_consistent:
  assumes "distinct (map im_id (st_images st))"
    and "st' = reconcile_all dir None None None (\<lambda>_. no_faults) clock st"
  shows "\<forall>im \<in> set (st_images st'). im_status im = Ready \<longrightarrow> intact st' im"
proof clarify
  fix im assume im: "im \<in> set (st_images st')" "im_status im = Ready"
  let ?is = "map im_id (filter (\<lambda>im. im_status im = Ready) (st_images st) @ filter (\<lambda>im. im_status im = Corrupt) (st_images st) @
      filter (\<lambda>im. im_status im = Blob_Missing) (st_images st))"
  have st': "st' = reconcile_each dir (\<lambda>_. no_faults) clock ?is st"
    by (simp add: assms(2) reconcile_all_def list_images_def)
  have "k \<in> set ?is \<or> ready_intact k st" for k
    by (auto simp: ready_intact_def find_image_def find_Some_iff split: option.split)
  then have "ready_intact (im_id im) st'" unfolding st' by (intro ready_intact_each) auto
  moreover have "distinct (map im_id (st_images st'))" unfolding st' touches_each_ids by (rule assms(1))
  then have "find_image (im_id im) st' = Some im" using im(1) find_key [of im_id] by (simp add: find_image_def)
  ultimately show "intact st' im" using im(2) by (simp add: ready_intact_def)
qed


theorem ready_consistent_witness:
  "(let st' = reconcile_all ''/img'' None None None (\<lambda>_. no_faults) (\<lambda>_. 3) (demo_store 7 ''aa'' None) in
    list_all (\<lambda>im. if im_status im = Ready then intact st' im else True) (st_images st'))"
  using ready_consistent [OF _ refl, of "demo_store 7 ''aa'' None" "''/img''" "\<lambda>_. 3"]
  by (simp add: Let_def list_all_iff) (simp add: demo_store_def)

lemma force_refuses_size:
  assumes "find_image i st = Some im" and "reconcilable (im_status im)"
    and "st_files st (blob_path dir im st) = Some f" and "0 < im_size im" and "bf_size f \<noteq> im_size im"
  shows "\<exists>r st' im'. reconcile_image dir no_faults (endpoint_options True) now i st = (Inr r, st') \<and> rs_outcome r = Quarantined \<and>
    find_image i st' = Some im' \<and> im_status im' = Corrupt \<and> im_checksum im' = im_checksum im"
proof -
  have "op_ttl (endpoint_options True) \<le> 0" by (simp add: endpoint_options_def)
  from reconcile_row [OF assms(1,2) this, of dir now] show ?thesis
    using assms(3-5) by (auto simp: verdict_def outcome_of_def row_after_def mark_def Let_def answer_def endpoint_options_def)
qed

lemma guard_passes_unfinished:
  assumes "find_image i st = Some im" and "\<not> reconcilable (im_status im)"
  shows "reconcile_image dir no_faults (guard_options ttl) now i st = (Inr (no_change im), st)"
  using assms by (simp add: reconcile_image_def get_image_def)


text \<open>An error that leaves no result: the handler that asks the guard reads the outcome of the result all the same.\<close>

lemma guard_error_without_result:
  assumes "find_image i st = Some im" and "im_status im = Ready" and "st_files st (blob_path dir im st) = Some f"
    and "bf_size f = im_size im"
  shows "\<exists>st'. reconcile_image dir (no_faults\<lparr>io_hash := Some e\<rparr>) (guard_options 0) now i st = (Inl (Hash e), st')"
proof -
  have id: "im_id im = i" using assms(1) by (rule find_image_id)
  obtain path rsl where rp: "resolve_blob_path dir no_faults im st = (path, rsl)" by (metis surj_pair)
  have "resolve_blob_path dir (no_faults\<lparr>io_hash := Some e\<rparr>) im st = (path, rsl)" using rp by (simp add: resolve_blob_path_def)
  moreover have "st_files st path = Some f" "rsl \<noteq> Not_At_All"
    using resolve_path [of im st dir, OF _ rp] assms(1,3) id by auto
  ultimately show ?thesis using assms(1,2,4)
    by (simp add: reconcile_image_def get_image_def reconcilable_def cached_def guard_options_def run_checks_def Let_def
        split: prod.split option.split)
qed

end
