(* ===== verification/Config_Observer.thy ===== *)
theory Config_Observer
  imports Go_Prelude "HOL-Library.List_Lexorder" "HOL-Library.Char_ord" "HOL-Library.Product_Lexorder"
begin

text \<open>
  The registry of configuration plugins and the observer that renders them (\<open>internal/config\<close>:
  \<open>plugin.go\<close>, \<open>plugin_metadata.go\<close>, \<open>observer.go\<close>, \<open>render_diff.go\<close>). A plugin is a record of what its
  methods return. The configuration of a node is a type parameter. The map of the queues of a batch is ranged
  over in an order the language leaves open, so firing takes that order as an argument.
\<close>

section \<open>Plugins\<close>

record backup_spec =
  bs_paths :: "string list"
  bs_retain :: int
  bs_stored :: string

record plugin_meta =
  pm_priority :: int
  pm_dangerous :: bool
  pm_reason :: string
  pm_backup :: "backup_spec option"

record instruction =
  in_opcode :: string
  in_target :: string
  in_payload :: string
  in_anchors :: "(string \<times> string) option"

record 'c cluster_state =
  cs_node :: string
  cs_config :: 'c
  cs_all :: "'c list"

text \<open>A violation is its path, its message and its code; the validator is there when the plugin implements it.\<close>

type_synonym violation = "string \<times> string \<times> string"

record ('b, 'c) plugin =
  pl_name :: string
  pl_keys :: "string list"
  pl_meta :: plugin_meta
  pl_render :: "'c cluster_state \<Rightarrow> string + instruction list"
  pl_validate :: "('b \<Rightarrow> violation list) option"

datatype meta_error = Bad_Priority | Missing_Reason | Unwanted_Reason | No_Backup_Paths

definition default_priority :: int where
  "default_priority = 100"

definition priority_max :: int where
  "priority_max = 1000"

definition validate_metadata :: "plugin_meta \<Rightarrow> meta_error option" where
  "validate_metadata m =
     (if pm_priority m < 0 \<or> pm_priority m > priority_max then Some Bad_Priority
      else if pm_dangerous m \<and> pm_reason m = '''' then Some Missing_Reason
      else if \<not> pm_dangerous m \<and> pm_reason m \<noteq> '''' then Some Unwanted_Reason
      else (case pm_backup m of
              Some b \<Rightarrow> if bs_paths b = [] then Some No_Backup_Paths else None
            | None \<Rightarrow> None))"

definition effective_priority :: "plugin_meta \<Rightarrow> int" where
  "effective_priority m = (if pm_priority m = 0 then default_priority else pm_priority m)"

definition validate_priority :: "int \<Rightarrow> meta_error option" where
  "validate_priority p = (if p < 0 then Some Bad_Priority else None)"

section \<open>Registry\<close>

text \<open>The order of registration is the position in the list of queues, and the watch index holds positions.\<close>

record ('b, 'c) registry =
  rg_queues :: "('b, 'c) plugin list"
  rg_watch :: "string \<Rightarrow> nat list"

datatype register_panic = Duplicate_Name string | Invalid_Meta meta_error

definition empty_registry :: "('b, 'c) registry" where
  "empty_registry = \<lparr>rg_queues = [], rg_watch = (\<lambda>_. [])\<rparr>"

definition find_plugin :: "('b, 'c) registry \<Rightarrow> string \<Rightarrow> ('b, 'c) plugin option" where
  "find_plugin rg name = find (\<lambda>p. pl_name p = name) (rg_queues rg)"

fun watch_keys :: "nat \<Rightarrow> string list \<Rightarrow> (string \<Rightarrow> nat list) \<Rightarrow> string \<Rightarrow> nat list" where
  "watch_keys q [] w = w"
| "watch_keys q (k # ks) w = watch_keys q ks (w(k := w k @ [q]))"

definition register :: "('b, 'c) plugin \<Rightarrow> ('b, 'c) registry \<Rightarrow> register_panic + ('b, 'c) registry" where
  "register p rg =
     (if find_plugin rg (pl_name p) \<noteq> None then Inl (Duplicate_Name (pl_name p))
      else (case validate_metadata (pl_meta p) of
              Some e \<Rightarrow> Inl (Invalid_Meta e)
            | None \<Rightarrow>
                Inr \<lparr>rg_queues = rg_queues rg @ [p],
                     rg_watch = watch_keys (length (rg_queues rg)) (pl_keys p) (rg_watch rg)\<rparr>))"

fun register_all :: "('b, 'c) plugin list \<Rightarrow> ('b, 'c) registry \<Rightarrow> register_panic + ('b, 'c) registry" where
  "register_all [] rg = Inr rg"
| "register_all (p # ps) rg = sbind (register p rg) (register_all ps)"

definition plugin_metadata :: "('b, 'c) registry \<Rightarrow> string \<Rightarrow> plugin_meta option" where
  "plugin_metadata rg name = map_option pl_meta (find_plugin rg name)"

definition is_dangerous :: "('b, 'c) registry \<Rightarrow> string \<Rightarrow> bool" where
  "is_dangerous rg name = (case plugin_metadata rg name of None \<Rightarrow> False | Some m \<Rightarrow> pm_dangerous m)"

section \<open>Hash of the instructions\<close>

text \<open>
  \<open>sort.Slice\<close> is not stable: what is known of \<open>srt\<close> is that it sorts by target and opcode. \<open>digest\<close> is the hash of the
  canonical JSON of a list of instructions.
\<close>

definition instruction_key :: "instruction \<Rightarrow> string \<times> string" where
  "instruction_key i = (in_target i, in_opcode i)"

definition hash_instructions :: "(instruction list \<Rightarrow> instruction list) \<Rightarrow> (instruction list \<Rightarrow> string) \<Rightarrow> instruction list \<Rightarrow> string" where
  "hash_instructions srt digest is = digest (srt is)"

datatype render_error = Not_Registered string | Render_Error string

definition render_by_name :: "(instruction list \<Rightarrow> instruction list) \<Rightarrow> (instruction list \<Rightarrow> string) \<Rightarrow> ('b, 'c) registry \<Rightarrow>
    string \<Rightarrow> 'c cluster_state \<Rightarrow> render_error + (instruction list \<times> string)" where
  "render_by_name srt digest rg name st =
     (case find_plugin rg name of
        None \<Rightarrow> Inl (Not_Registered name)
      | Some p \<Rightarrow>
          (case pl_render p st of
             Inl e \<Rightarrow> Inl (Render_Error e)
           | Inr is \<Rightarrow> Inr (is, hash_instructions srt digest is)))"

section \<open>Notifications and batches\<close>

record 'c event =
  ev_keys :: "string list"
  ev_state :: "'c cluster_state"

record 'c batch =
  ba_queues :: "nat set"
  ba_pending :: "'c event list"
  ba_timer :: bool

definition idle :: "'c batch" where
  "idle = \<lparr>ba_queues = {}, ba_pending = [], ba_timer = False\<rparr>"

definition affected :: "('b, 'c) registry \<Rightarrow> string list \<Rightarrow> nat list" where
  "affected rg changed = add_new [] (concat (map (rg_watch rg) changed))"

definition notify :: "('b, 'c) registry \<Rightarrow> 'c event \<Rightarrow> 'c batch \<Rightarrow> 'c batch" where
  "notify rg e b =
     (if ev_keys e = [] then b
      else
        (let qs = affected rg (ev_keys e) in
         if qs = [] then b
         else \<lparr>ba_queues = ba_queues b \<union> set qs, ba_pending = ba_pending b @ [e], ba_timer = True\<rparr>))"

definition stop :: "'c batch \<Rightarrow> 'c batch" where
  "stop b = idle"

text \<open>The order in which a batch is sorted, as its comparison is written.\<close>

datatype rank = Rank int nat

definition rank_before :: "rank \<Rightarrow> rank \<Rightarrow> bool" where
  "rank_before a b = (case (a, b) of (Rank pi i, Rank pj j) \<Rightarrow> if pi \<noteq> pj then pi < pj else i < j)"

instantiation rank :: linorder
begin

definition less_rank :: "rank \<Rightarrow> rank \<Rightarrow> bool" where
  "less_rank = rank_before"

definition less_eq_rank :: "rank \<Rightarrow> rank \<Rightarrow> bool" where
  "less_eq_rank a b = (a = b \<or> (a :: rank) < b)"

instance
proof
  fix x y z :: rank
  show "x < y \<longleftrightarrow> x \<le> y \<and> \<not> y \<le> x"
    by (cases x; cases y) (auto simp: less_eq_rank_def less_rank_def rank_before_def split: if_splits)
  show "x \<le> x" by (simp add: less_eq_rank_def)
  show "x \<le> y \<Longrightarrow> y \<le> z \<Longrightarrow> x \<le> z"
    by (cases x; cases y; cases z) (auto simp: less_eq_rank_def less_rank_def rank_before_def split: if_splits)
  show "x \<le> y \<Longrightarrow> y \<le> x \<Longrightarrow> x = y"
    by (cases x; cases y) (auto simp: less_eq_rank_def less_rank_def rank_before_def split: if_splits)
  show "x \<le> y \<or> y \<le> x"
    by (cases x; cases y) (auto simp: less_eq_rank_def less_rank_def rank_before_def)
qed

end

definition queue_rank :: "('b, 'c) registry \<Rightarrow> nat \<Rightarrow> rank" where
  "queue_rank rg q = Rank (effective_priority (pl_meta (rg_queues rg ! q))) q"

definition sorted_by_priority :: "('b, 'c) registry \<Rightarrow> nat list \<Rightarrow> nat list" where
  "sorted_by_priority rg qs = sort_key (queue_rank rg) qs"

text \<open>
  One render: the alert of the node is raised with the error or cleared; the writes of the alert store can fail. Alerts are keyed
  by the node, the key \<open>config_render_failed\<close> being the same for all.
\<close>

definition render :: "('b, 'c) plugin \<Rightarrow> bool \<Rightarrow> 'c cluster_state \<Rightarrow> (string \<rightharpoonup> string) \<Rightarrow> (string \<rightharpoonup> string)" where
  "render p ok st alerts =
     (case pl_render p st of
        Inl e \<Rightarrow> if ok then alerts(cs_node st \<mapsto> e) else alerts
      | Inr is \<Rightarrow> if ok then alerts(cs_node st := None) else alerts)"

text \<open>
  Firing drains the batch and renders the queues one after the other with the state of the last event; \<open>order\<close> lists the drained
  set. The result is the batch that is left and the calls of \<open>Render\<close> in their order.
\<close>

definition fire :: "('b, 'c) registry \<Rightarrow> nat list \<Rightarrow> 'c batch \<Rightarrow> 'c batch \<times> (('b, 'c) plugin \<times> 'c cluster_state) list" where
  "fire rg order b =
     (idle,
      if ba_queues b = {} \<or> ba_pending b = [] then []
      else map (\<lambda>q. (rg_queues rg ! q, ev_state (last (ba_pending b)))) (sorted_by_priority rg order))"

fun render_batch :: "(string \<Rightarrow> bool) \<Rightarrow> (('b, 'c) plugin \<times> 'c cluster_state) list \<Rightarrow> (string \<rightharpoonup> string) \<Rightarrow> (string \<rightharpoonup> string)" where
  "render_batch ok [] alerts = alerts"
| "render_batch ok ((p, st) # calls) alerts = render_batch ok calls (render p (ok (pl_name p)) st alerts)"


section \<open>The registry\<close>

lemma watch_keys_set: "set (watch_keys q ks w k) = set (w k) \<union> (if k \<in> set ks then {q} else {})"
  by (induction ks arbitrary: w) auto

text \<open>The watch index holds under a key exactly the plugins that declare it.\<close>

definition watching :: "('b, 'c) registry \<Rightarrow> string \<Rightarrow> nat set" where
  "watching rg k = {q. q < length (rg_queues rg) \<and> k \<in> set (pl_keys (rg_queues rg ! q))}"

definition registry_ok :: "('b, 'c) registry \<Rightarrow> bool" where
  "registry_ok rg \<longleftrightarrow> distinct (map pl_name (rg_queues rg)) \<and> (\<forall>p \<in> set (rg_queues rg). validate_metadata (pl_meta p) = None) \<and>
     (\<forall>k. set (rg_watch rg k) = watching rg k)"

lemma registry_ok_empty: "registry_ok empty_registry"
  by (simp add: registry_ok_def empty_registry_def watching_def)

lemma find_plugin_None: "find_plugin rg n = None \<longleftrightarrow> n \<notin> pl_name ` set (rg_queues rg)"
  by (auto simp: find_plugin_def find_None_iff)

lemma register_ok:
  assumes "registry_ok rg" and "register p rg = Inr rg'"
  shows "registry_ok rg'" and "rg_queues rg' = rg_queues rg @ [p]"
proof -
  have reg: "find_plugin rg (pl_name p) = None" "validate_metadata (pl_meta p) = None"
      "rg' = \<lparr>rg_queues = rg_queues rg @ [p], rg_watch = watch_keys (length (rg_queues rg)) (pl_keys p) (rg_watch rg)\<rparr>"
    using assms(2) by (auto simp: register_def split: if_splits option.splits)
  show "rg_queues rg' = rg_queues rg @ [p]" by (simp add: reg)
  show "registry_ok rg'" using assms(1) reg(1,2)
    by (auto simp: registry_ok_def reg(3) watching_def watch_keys_set find_plugin_None nth_append less_Suc_eq)
qed

lemma register_Inr_iff:
  "(\<exists>rg'. register p rg = Inr rg') \<longleftrightarrow> pl_name p \<notin> pl_name ` set (rg_queues rg) \<and> validate_metadata (pl_meta p) = None"
  by (auto simp: register_def find_plugin_None [symmetric] split: option.split)

lemma register_all_ok:
  assumes "registry_ok rg"
  shows "(\<exists>rg'. register_all ps rg = Inr rg') \<longleftrightarrow>
      distinct (map pl_name (rg_queues rg @ ps)) \<and> (\<forall>p \<in> set ps. validate_metadata (pl_meta p) = None)"
    and "register_all ps rg = Inr rg' \<Longrightarrow> registry_ok rg' \<and> rg_queues rg' = rg_queues rg @ ps"
  using assms
proof (induction ps arbitrary: rg)
  case Nil
  { case 1 then show ?case by (simp add: registry_ok_def) }
  { case 2 then show ?case by simp }
next
  case (Cons p ps)
  { case 1
    show ?case
    proof (cases "register p rg")
      case (Inl e)
      then show ?thesis using register_Inr_iff [of p rg] by auto
    next
      case (Inr rg1)
      then have p: "pl_name p \<notin> pl_name ` set (rg_queues rg)" "validate_metadata (pl_meta p) = None"
        using register_Inr_iff [of p rg] by auto
      from Cons.IH(1) [OF register_ok(1) [OF 1 Inr]] p show ?thesis by (simp add: Inr register_ok(2) [OF 1 Inr])
    qed }
  { case 2
    then obtain rg1 where r: "register p rg = Inr rg1" "register_all ps rg1 = Inr rg'" by (auto simp: sbind_eq_Inr_iff)
    show ?case using Cons.IH(2) [OF r(2) register_ok(1) [OF 2(2) r(1)]] register_ok(2) [OF 2(2) r(1)] by simp }
qed

text \<open>Registration at start-up panics exactly when two plugins have one name or the metadata of one is not valid. Otherwise every
  plugin is registered in its order, and the watch index holds under each key exactly the plugins that declare it.\<close>

theorem registration_exact:
  "case register_all ps empty_registry of
     Inl e \<Rightarrow> \<not> (distinct (map pl_name ps) \<and> list_all (\<lambda>p. validate_metadata (pl_meta p) = None) ps)
   | Inr rg \<Rightarrow> distinct (map pl_name ps) \<and> list_all (\<lambda>p. validate_metadata (pl_meta p) = None) ps \<and> rg_queues rg = ps \<and>
       (\<forall>k. set (rg_watch rg k) = {q. q < length ps \<and> k \<in> set (pl_keys (ps ! q))})"
  using register_all_ok [OF registry_ok_empty, of ps]
  by (auto simp: empty_registry_def registry_ok_def watching_def list_all_iff split: sum.split)

text \<open>Two plugins for the examples; the second one renders nothing but an error.\<close>

definition demo_hosts :: "(unit, unit) plugin" where
  "demo_hosts = \<lparr>pl_name = ''hosts'', pl_keys = [''nodes.*.hostname''], pl_meta = \<lparr>pm_priority = 0, pm_dangerous = False, pm_reason = '''',
     pm_backup = None\<rparr>, pl_render = (\<lambda>st. Inr []), pl_validate = None\<rparr>"

definition demo_sssd :: "(unit, unit) plugin" where
  "demo_sssd = \<lparr>pl_name = ''sssd'', pl_keys = [''nodes.*.hostname'', ''nodes.*.ldap_config''], pl_meta = \<lparr>pm_priority = 80,
     pm_dangerous = True, pm_reason = ''login'', pm_backup = Some \<lparr>bs_paths = [''/etc/sssd/sssd.conf''], bs_retain = 10, bs_stored = ''''\<rparr>\<rparr>,
     pl_render = (\<lambda>st. Inl ''no base dn''), pl_validate = None\<rparr>"

definition demo_registry :: "(unit, unit) registry" where
  "demo_registry = \<lparr>rg_queues = [demo_hosts, demo_sssd],
     rg_watch = (\<lambda>_. [])(''nodes.*.hostname'' := [0, 1], ''nodes.*.ldap_config'' := [1])\<rparr>"

definition demo_event :: "string \<Rightarrow> string \<Rightarrow> unit event" where
  "demo_event n k = \<lparr>ev_keys = [k], ev_state = \<lparr>cs_node = n, cs_config = (), cs_all = []\<rparr>\<rparr>"

lemma demo_registered: "register_all [demo_hosts, demo_sssd] empty_registry = Inr demo_registry"
  by (simp add: register_def find_plugin_def empty_registry_def demo_hosts_def demo_sssd_def demo_registry_def validate_metadata_def
      priority_max_def fun_eq_iff)

lemma demo_registry_ok: "registry_ok demo_registry"
  using register_all_ok(2) [OF registry_ok_empty demo_registered] by simp

section \<open>Batches\<close>

lemma set_affected: "registry_ok rg \<Longrightarrow> set (affected rg ks) = (\<Union>k \<in> set ks. watching rg k)"
  by (simp add: affected_def registry_ok_def)

definition concerns :: "('b, 'c) registry \<Rightarrow> 'c event \<Rightarrow> bool" where
  "concerns rg e \<longleftrightarrow> affected rg (ev_keys e) \<noteq> []"

lemma notify_if: "notify rg e b =
    (if concerns rg e then \<lparr>ba_queues = ba_queues b \<union> set (affected rg (ev_keys e)), ba_pending = ba_pending b @ [e], ba_timer = True\<rparr>
     else b)"
  by (auto simp: notify_def concerns_def Let_def affected_def)

lemma fold_notify:
  "ba_queues (fold (notify rg) es b) = ba_queues b \<union> (\<Union>e \<in> set es. set (affected rg (ev_keys e)))"
  "ba_pending (fold (notify rg) es b) = ba_pending b @ filter (concerns rg) es"
  by (induction es arbitrary: b) (auto simp: notify_if concerns_def)

lemma inj_queue_rank: "inj_on (queue_rank rg) A"
  by (rule inj_onI) (simp add: queue_rank_def)

lemma sorted_by_priority_props:
  assumes "distinct qs"
  shows "sorted (map (queue_rank rg) (sorted_by_priority rg qs))" "distinct (sorted_by_priority rg qs)"
    "set (sorted_by_priority rg qs) = set qs"
  using assms by (simp_all add: sorted_by_priority_def)

lemma sorted_by_priority_unique:
  assumes "distinct qs" and "distinct qs'" and "set qs = set qs'"
  shows "sorted_by_priority rg qs = sorted_by_priority rg qs'"
proof -
  have "map (queue_rank rg) (sorted_by_priority rg qs) = map (queue_rank rg) (sorted_by_priority rg qs')"
    using assms sorted_by_priority_props [of qs rg] sorted_by_priority_props [of qs' rg]
    by (intro sorted_distinct_set_unique) (auto simp: distinct_map inj_queue_rank)
  then show ?thesis by (rule map_inj_on) (rule inj_queue_rank)
qed


text \<open>Which of two queues is rendered first.\<close>

definition before :: "('b, 'c) registry \<Rightarrow> nat \<Rightarrow> nat \<Rightarrow> bool" where
  "before rg i j \<longleftrightarrow>
     (let p = (\<lambda>q. effective_priority (pl_meta (rg_queues rg ! q))) in p i < p j \<or> p i = p j \<and> i < j)"

lemma sorted_by_priority_before: "distinct qs \<Longrightarrow> sorted_wrt (before rg) (sorted_by_priority rg qs)"
proof -
  assume "distinct qs"
  then have "sorted_wrt (<) (map (queue_rank rg) (sorted_by_priority rg qs))"
    using sorted_by_priority_props [of qs rg] by (simp add: strict_sorted_iff distinct_map inj_queue_rank)
  then show ?thesis
    by (auto simp: sorted_wrt_map less_rank_def rank_before_def queue_rank_def before_def Let_def elim!: sorted_wrt_mono_rel [rotated] split: if_splits)
qed

text \<open>C12. A batch renders exactly the plugins that watch a key of one of its notifications, each once, in the order of priority and then of
  registration, whatever the order of the map of queues; and every one gets the state of the last notification that concerns a
  plugin. The batch is left idle.\<close>

theorem batch_exact:
  assumes "registry_ok rg" and "distinct order" and "set order = ba_queues (fold (notify rg) es idle)"
    and "filter (concerns rg) es \<noteq> []"
  shows "\<exists>qs. fire rg order (fold (notify rg) es idle) =
      (idle, map (\<lambda>q. (rg_queues rg ! q, ev_state (last (filter (concerns rg) es)))) qs) \<and>
    sorted_wrt (before rg) qs \<and>
    set qs = {q. q < length (rg_queues rg) \<and> (\<exists>e \<in> set es. \<exists>k \<in> set (ev_keys e). k \<in> set (pl_keys (rg_queues rg ! q)))}"
proof (intro exI conjI)
  let ?b = "fold (notify rg) es idle" and ?qs = "sorted_by_priority rg order"
  have pending: "ba_pending ?b = filter (concerns rg) es" by (simp add: fold_notify idle_def)
  have queues: "ba_queues ?b = (\<Union>e \<in> set es. \<Union>k \<in> set (ev_keys e). watching rg k)"
    using assms(1) by (simp add: fold_notify idle_def set_affected)
  obtain e where "e \<in> set es" "concerns rg e" using assms(4) by (auto simp: filter_empty_conv)
  then have "ba_queues ?b \<noteq> {}" using assms(1) by (auto simp: fold_notify idle_def concerns_def)
  then show "fire rg order ?b = (idle, map (\<lambda>q. (rg_queues rg ! q, ev_state (last (filter (concerns rg) es)))) ?qs)"
    using assms(4) by (simp add: fire_def pending)
  show "sorted_wrt (before rg) ?qs" by (rule sorted_by_priority_before [OF assms(2)])
  have "set ?qs = ba_queues ?b" using sorted_by_priority_props(3) [OF assms(2), of rg] assms(3) by simp
  then show "set ?qs = {q. q < length (rg_queues rg) \<and> (\<exists>e \<in> set es. \<exists>k \<in> set (ev_keys e). k \<in> set (pl_keys (rg_queues rg ! q)))}"
    unfolding queues by (auto simp: watching_def)
qed

theorem batch_exact_witness:
  "\<exists>qs. fire demo_registry [0, 1] (fold (notify demo_registry) [demo_event ''n1'' ''nodes.*.hostname'',
       demo_event ''n2'' ''nodes.*.ldap_config''] idle) =
     (idle, map (\<lambda>q. (rg_queues demo_registry ! q, ev_state (demo_event ''n2'' ''''))) qs) \<and> set qs = {0, 1} \<and>
     sorted_wrt (before demo_registry) qs"
proof -
  let ?es = "[demo_event ''n1'' ''nodes.*.hostname'', demo_event ''n2'' ''nodes.*.ldap_config'']"
  have concerned: "filter (concerns demo_registry) ?es = ?es"
    by (simp add: concerns_def affected_def demo_registry_def demo_event_def)
  have queues: "set [0, 1] = ba_queues (fold (notify demo_registry) ?es idle)"
    by (simp only: fold_notify) (auto simp: idle_def affected_def demo_registry_def demo_event_def)
  have watched: "{q. q < length (rg_queues demo_registry) \<and> (\<exists>e \<in> set ?es. \<exists>k \<in> set (ev_keys e).
      k \<in> set (pl_keys (rg_queues demo_registry ! q)))} = {0, 1}"
    by (auto simp: demo_registry_def demo_event_def demo_hosts_def demo_sssd_def less_Suc_eq)
  from batch_exact [OF demo_registry_ok _ queues] concerned show ?thesis unfolding watched
    by (auto simp: demo_event_def)
qed

lemma fire_order_irrelevant:
  assumes "distinct order" and "distinct order'" and "set order = set order'"
  shows "fire rg order b = fire rg order' b"
  using sorted_by_priority_unique [OF assms, of rg] by (simp add: fire_def)

text \<open>Two nodes in one batch: the first one is not rendered at all.\<close>

lemma batch_drops_first_node:
  assumes "concerns rg e1" and "concerns rg e2" and "cs_node (ev_state e1) \<noteq> cs_node (ev_state e2)"
    and "c \<in> set (snd (fire rg order (fold (notify rg) [e1, e2] idle)))"
  shows "cs_node (snd c) \<noteq> cs_node (ev_state e1)"
  using assms by (auto simp: fire_def notify_if idle_def split: if_splits)

text \<open>A second shot of the timer, after its batch was drained or stopped, does nothing.\<close>

lemma fire_idle: "fire rg order idle = (idle, [])"
  by (simp add: fire_def idle_def)

section \<open>Alerts of a batch\<close>

lemma render_batch_append: "render_batch ok (xs @ ys) alerts = render_batch ok ys (render_batch ok xs alerts)"
  by (induction xs arbitrary: alerts) auto

text \<open>When the writes to the alert store succeed, the alert of the node after a batch is the one of the last plugin alone: the
  plugins before it leave no trace, be it that they failed.\<close>

theorem batch_alert_last:
  assumes "ok (pl_name p)"
  shows "render_batch ok (calls @ [(p, st)]) alerts (cs_node st) = (case pl_render p st of Inl e \<Rightarrow> Some e | Inr is \<Rightarrow> None)"
  using assms by (simp add: render_batch_append render_def split: sum.split)

theorem batch_alert_last_witness:
  "render_batch (\<lambda>_. True) ([(demo_sssd, ev_state (demo_event ''n1'' ''''))] @ [(demo_hosts, ev_state (demo_event ''n1'' ''''))])
     (\<lambda>_. None) ''n1'' = None"
  using batch_alert_last [of "\<lambda>_. True" demo_hosts "[(demo_sssd, ev_state (demo_event ''n1'' ''''))]" "ev_state (demo_event ''n1'' '''')"]
  by (simp add: demo_event_def demo_hosts_def)

section \<open>Hashes\<close>

interpretation instructions: key_sort "sort_key instruction_key" instruction_key
  by unfold_locales simp_all

text \<open>The hash of a set of instructions with different targets or opcodes does not depend on their order, whatever algorithm sorts
  them.\<close>

theorem hash_order_irrelevant:
  assumes "\<And>xs. mset (srt xs) = mset xs" and "\<And>xs. sorted (map instruction_key (srt xs))"
    and "mset is = mset is'" and "inj_on instruction_key (set is)"
  shows "hash_instructions srt digest is = hash_instructions srt digest is'"
  unfolding hash_instructions_def
  by (simp only: key_sort.sort_order_irrelevant [OF key_sort.intro [OF assms(1,2)] assms(3,4)])

theorem hash_order_irrelevant_witness:
  "hash_instructions (sort_key instruction_key) (\<lambda>is. concat (map in_target is)) [\<lparr>in_opcode = ''o'', in_target = ''b'', in_payload = '''', in_anchors = None\<rparr>,
     \<lparr>in_opcode = ''o'', in_target = ''a'', in_payload = '''', in_anchors = None\<rparr>] =
   hash_instructions (sort_key instruction_key) (\<lambda>is. concat (map in_target is)) [\<lparr>in_opcode = ''o'', in_target = ''a'', in_payload = '''', in_anchors = None\<rparr>,
     \<lparr>in_opcode = ''o'', in_target = ''b'', in_payload = '''', in_anchors = None\<rparr>]"
  by (rule hash_order_irrelevant) (simp_all add: instruction_key_def)

text \<open>Two instructions for one target and opcode keep the order they came in, and the hash tells them apart.\<close>

lemma hash_depends_on_order:
  assumes "digest [i, j] \<noteq> digest [j, i]" and "instruction_key i = instruction_key j"
  shows "hash_instructions (sort_key instruction_key) digest [i, j] \<noteq> hash_instructions (sort_key instruction_key) digest [j, i]"
  using assms by (simp add: hash_instructions_def sort_key_def)

end
