(* ===== verification/Config_Apply.thy ===== *)
theory Config_Apply
  imports Go_Prelude
begin

text \<open>
  What a node does with a pushed configuration file (\<open>internal/clientd/configapply.go\<close>, the payload of
  \<open>messages.go\<close>, \<open>handleConfigPush\<close> of \<open>client.go\<close>). The file system is a map from paths to content and mode; every
  call of it and every run of an apply action takes its answer. A write that fails leaves what it had written, unless the
  file could not be opened. The modes are those of a umask that clears none of their bits.
\<close>

section \<open>Payload and targets\<close>

record directive =
  di_paths :: "string list"
  di_retain :: int
  di_stored_at :: string
  di_manifest :: string

record push_payload =
  pp_target :: string
  pp_content :: string
  pp_checksum :: string
  pp_plugin :: string
  pp_hash :: string
  pp_priority :: int
  pp_backup :: "directive option"

datatype apply_action = Restart string | Reload string | Dnf_Clean | Trust_Extract_Restart

record target =
  tg_path :: string
  tg_mode :: nat
  tg_action :: "apply_action option"

definition config_targets :: "string \<Rightarrow> target option" where
  "config_targets = map_of
    [(''hostname'', \<lparr>tg_path = ''etc/hostname'', tg_mode = 420, tg_action = None\<rparr>),
     (''hosts'', \<lparr>tg_path = ''etc/hosts'', tg_mode = 420, tg_action = None\<rparr>),
     (''sssd'', \<lparr>tg_path = ''etc/sssd/sssd.conf'', tg_mode = 384, tg_action = Some (Restart ''sssd'')\<rparr>),
     (''limits'', \<lparr>tg_path = ''etc/security/limits.conf'', tg_mode = 420, tg_action = None\<rparr>),
     (''chrony'', \<lparr>tg_path = ''etc/chrony.conf'', tg_mode = 420, tg_action = Some (Restart ''chronyd'')\<rparr>),
     (''ntp'', \<lparr>tg_path = ''etc/ntp.conf'', tg_mode = 420, tg_action = Some (Restart ''ntpd'')\<rparr>),
     (''resolv'', \<lparr>tg_path = ''etc/resolv.conf'', tg_mode = 420, tg_action = None\<rparr>),
     (''sudoers'', \<lparr>tg_path = ''etc/sudoers.d/clustr-admins'', tg_mode = 288, tg_action = None\<rparr>),
     (''clustr-internal-repo'', \<lparr>tg_path = ''etc/yum.repos.d/clustr-internal-repo.repo'', tg_mode = 420, tg_action = Some Dnf_Clean\<rparr>),
     (''ldap-ca-cert'', \<lparr>tg_path = ''etc/pki/ca-trust/source/anchors/clustr-ca.crt'', tg_mode = 420, tg_action = Some Trust_Extract_Restart\<rparr>),
     (''sshd-ldap-keys'', \<lparr>tg_path = ''etc/ssh/sshd_config.d/50-clustr-ldap-keys.conf'', tg_mode = 420, tg_action = Some (Reload ''sshd'')\<rparr>)]"

definition max_config_size :: nat where
  "max_config_size = 1048576"

section \<open>Files\<close>

type_synonym files = "string \<Rightarrow> (string \<times> nat) option"

datatype copy_fault = Open_Fails | Copy_Fails string

datatype copy_result = Copied | Source_Missing | Copy_Error

text \<open>Copying keeps the mode of a destination that exists; when it fails half way the destination holds a part.\<close>

definition copy_file :: "copy_fault option \<Rightarrow> string \<Rightarrow> string \<Rightarrow> files \<Rightarrow> copy_result \<times> files" where
  "copy_file a src dst fs =
     (case fs src of
        None \<Rightarrow> (if a = Some Open_Fails then Copy_Error else Source_Missing, fs)
      | Some (content, mode) \<Rightarrow>
          (let mode' = (case fs dst of None \<Rightarrow> mode | Some (_, m) \<Rightarrow> m) in
           case a of
             None \<Rightarrow> (Copied, fs(dst \<mapsto> (content, mode')))
           | Some Open_Fails \<Rightarrow> (Copy_Error, fs)
           | Some (Copy_Fails part) \<Rightarrow> (Copy_Error, fs(dst \<mapsto> (part, mode')))))"

record apply_io =
  ap_mkdir :: bool
  ap_backup :: "copy_fault option"
  ap_write :: "copy_fault option"
  ap_chmod :: bool
  ap_rename :: bool
  ap_action :: bool
  ap_restore :: "copy_fault option"
  ap_retry :: bool

datatype apply_error = Unknown_Target string | Too_Large nat | Bad_Checksum | Mkdir_Failed | Backup_Failed | Write_Failed
  | Chmod_Failed | Rename_Failed | Rollback_Failed | Degraded | Rolled_Back

definition root_path :: "string \<Rightarrow> string \<Rightarrow> string" where
  "root_path root rel = (if root = ''/'' then root @ rel else root @ ''/'' @ rel)"

definition validate_checksum :: "(string \<Rightarrow> string) \<Rightarrow> string \<Rightarrow> string \<Rightarrow> bool" where
  "validate_checksum sha content checksum \<longleftrightarrow>
     prefix ''sha256:'' checksum \<and> sha content = drop (length ''sha256:'') checksum"

text \<open>The run of the apply action, only on the live root, with the rollback when it fails.\<close>

definition action_ok :: "apply_action \<Rightarrow> bool \<Rightarrow> bool" where
  "action_ok a answer \<longleftrightarrow> a = Dnf_Clean \<or> answer"

definition run_action :: "apply_io \<Rightarrow> string \<Rightarrow> target \<Rightarrow> files \<Rightarrow> apply_error option \<times> files" where
  "run_action io root t fs =
     (let path = root_path root (tg_path t) in
      case tg_action t of
        None \<Rightarrow> (None, fs)
      | Some a \<Rightarrow>
          if root \<noteq> ''/'' \<or> action_ok a (ap_action io) then (None, fs)
          else
            (case copy_file (ap_restore io) (path @ ''.bak'') path fs of
               (Copied, fs) \<Rightarrow> (if action_ok a (ap_retry io) then Some Rolled_Back else Some Degraded, fs)
             | (_, fs) \<Rightarrow> (Some Rollback_Failed, fs)))"

definition apply_one :: "string \<Rightarrow> (string \<Rightarrow> string) \<Rightarrow> apply_io \<Rightarrow> push_payload \<Rightarrow> files \<Rightarrow> apply_error option \<times> files" where
  "apply_one root sha io p fs =
     (case config_targets (pp_target p) of
        None \<Rightarrow> (Some (Unknown_Target (pp_target p)), fs)
      | Some t \<Rightarrow>
          if length (pp_content p) > max_config_size then (Some (Too_Large (length (pp_content p))), fs)
          else if \<not> validate_checksum sha (pp_content p) (pp_checksum p) then (Some Bad_Checksum, fs)
          else
            (let path = root_path root (tg_path t); bak = path @ ''.bak''; tmp = path @ ''.tmp'' in
             if \<not> ap_mkdir io then (Some Mkdir_Failed, fs)
             else
               (case copy_file (ap_backup io) path bak fs of
                  (Copy_Error, fs) \<Rightarrow> (Some Backup_Failed, fs)
                | (_, fs) \<Rightarrow>
                    (case ap_write io of
                       Some Open_Fails \<Rightarrow> (Some Write_Failed, fs)
                     | Some (Copy_Fails part) \<Rightarrow>
                         (Some Write_Failed, fs(tmp \<mapsto> (part, case fs tmp of None \<Rightarrow> tg_mode t | Some (_, m) \<Rightarrow> m)))
                     | None \<Rightarrow>
                         if \<not> ap_chmod io then (Some Chmod_Failed, fs(tmp := None))
                         else if \<not> ap_rename io then (Some Rename_Failed, fs(tmp := None))
                         else run_action io root t (fs(path \<mapsto> (pp_content p, tg_mode t), tmp := None))))))"

text \<open>The handler answers with an acknowledgement.\<close>

definition handle_config_push :: "(string \<Rightarrow> string) \<Rightarrow> apply_io \<Rightarrow> push_payload option \<Rightarrow> files \<Rightarrow> (bool \<times> apply_error option) \<times> files" where
  "handle_config_push sha io m fs =
     (case m of
        None \<Rightarrow> ((False, None), fs)
      | Some p \<Rightarrow> (case apply_one ''/'' sha io p fs of (e, fs) \<Rightarrow> ((e = None, e), fs)))"

section \<open>Lemmas\<close>

lemma config_targets_cases:
  assumes "config_targets k = Some t"
  shows "k \<in> {''hostname'', ''hosts'', ''sssd'', ''limits'', ''chrony'', ''ntp'', ''resolv'', ''sudoers'', ''clustr-internal-repo'',
    ''ldap-ca-cert'', ''sshd-ldap-keys''}" and "prefix ''etc/'' (tg_path t)"
  using assms by (auto simp: config_targets_def split: if_splits)

lemma copy_file_elsewhere: "copy_file a src dst fs = (r, fs') \<Longrightarrow> p \<noteq> dst \<Longrightarrow> fs' p = fs p"
  by (auto simp: copy_file_def Let_def split: option.splits copy_fault.splits prod.splits)

lemma copy_file_result:
  "copy_file a src dst fs = (Copied, fs') \<longleftrightarrow>
     a = None \<and> (\<exists>c m. fs src = Some (c, m) \<and> fs' = fs(dst \<mapsto> (c, case fs dst of None \<Rightarrow> m | Some (_, m) \<Rightarrow> m)))"
  "copy_file a src dst fs = (Source_Missing, fs') \<longleftrightarrow> fs src = None \<and> a \<noteq> Some Open_Fails \<and> fs' = fs"
  by (auto simp: copy_file_def Let_def split: option.splits copy_fault.splits prod.splits)

lemma run_action_elsewhere: "run_action io root t fs = (e, fs') \<Longrightarrow> p \<noteq> root_path root (tg_path t) \<Longrightarrow> fs' p = fs p"
  by (auto simp: run_action_def Let_def split: if_splits option.splits prod.splits copy_result.splits dest: copy_file_elsewhere)

text \<open>C11. A push changes nothing but the file of its target in the white list and the two files beside it, whatever fails.\<close>

theorem apply_confined:
  assumes "apply_one root sha io p fs = (e, fs')" and "fs' q \<noteq> fs q"
  shows "\<exists>t. config_targets (pp_target p) = Some t \<and> prefix ''etc/'' (tg_path t) \<and>
    q \<in> {root_path root (tg_path t), root_path root (tg_path t) @ ''.bak'', root_path root (tg_path t) @ ''.tmp''}"
proof (cases "config_targets (pp_target p)")
  case None
  then show ?thesis using assms by (simp add: apply_one_def)
next
  case (Some t)
  let ?p = "root_path root (tg_path t)"
  have "q \<in> {?p, ?p @ ''.bak'', ?p @ ''.tmp''}"
  proof (rule ccontr)
    assume q: "q \<notin> {?p, ?p @ ''.bak'', ?p @ ''.tmp''}"
    have "fs' q = fs q" using assms(1) q
      by (auto simp: apply_one_def Some Let_def split: if_splits prod.splits copy_result.splits copy_fault.splits option.splits
          dest!: copy_file_elsewhere [where p = q] run_action_elsewhere [where p = q])
    then show False using assms(2) by simp
  qed
  then show ?thesis using Some config_targets_cases(2) [OF Some] by blast
qed


definition demo_push :: "string \<Rightarrow> push_payload" where
  "demo_push content = \<lparr>pp_target = ''sssd'', pp_content = content, pp_checksum = ''sha256:aa'', pp_plugin = '''', pp_hash = '''',
     pp_priority = 0, pp_backup = None\<rparr>"

definition good_io :: apply_io where
  "good_io = \<lparr>ap_mkdir = True, ap_backup = None, ap_write = None, ap_chmod = True, ap_rename = True, ap_action = True,
     ap_restore = None, ap_retry = True\<rparr>"

lemma good_io_sel [simp]: "ap_mkdir good_io" "ap_backup good_io = None" "ap_write good_io = None" "ap_chmod good_io"
  "ap_rename good_io" "ap_action good_io" "ap_restore good_io = None" "ap_retry good_io"
  by (simp_all add: good_io_def)

definition accepted :: "(string \<Rightarrow> string) \<Rightarrow> push_payload \<Rightarrow> target \<Rightarrow> bool" where
  "accepted sha p t \<longleftrightarrow> config_targets (pp_target p) = Some t \<and> length (pp_content p) \<le> max_config_size \<and>
     validate_checksum sha (pp_content p) (pp_checksum p)"

lemma demo_accepted: "length c \<le> max_config_size \<Longrightarrow>
  accepted (\<lambda>_. ''aa'') (demo_push c) \<lparr>tg_path = ''etc/sssd/sssd.conf'', tg_mode = 384, tg_action = Some (Restart ''sssd'')\<rparr>"
  by (simp add: accepted_def demo_push_def config_targets_def validate_checksum_def)

theorem apply_confined_witness:
  "\<exists>t. config_targets ''sssd'' = Some t \<and> ''/etc/sssd/sssd.conf'' \<in> {root_path ''/'' (tg_path t),
     root_path ''/'' (tg_path t) @ ''.bak'', root_path ''/'' (tg_path t) @ ''.tmp''}"
proof -
  obtain e fs' where "apply_one ''/'' (\<lambda>_. ''aa'') good_io (demo_push ''x'') (\<lambda>_. None) = (e, fs')"
      "fs' ''/etc/sssd/sssd.conf'' \<noteq> None"
    using demo_accepted [of "''x''"]
    by (simp add: apply_one_def accepted_def copy_file_def run_action_def action_ok_def root_path_def max_config_size_def)
  from apply_confined [OF this(1), of "''/etc/sssd/sssd.conf''"] this(2) show ?thesis by (auto simp: demo_push_def)
qed

text \<open>A push is acknowledged only when the target file then has exactly the content of the push and the mode of the target, and no
  temporary file is left; outside the live root no action runs.\<close>

theorem apply_ok_exact:
  assumes "apply_one root sha io p fs = (None, fs')"
  shows "\<exists>t. accepted sha p t \<and> fs' (root_path root (tg_path t)) = Some (pp_content p, tg_mode t) \<and>
    fs' (root_path root (tg_path t) @ ''.tmp'') = None \<and>
    (root = ''/'' \<longrightarrow> (\<forall>a. tg_action t = Some a \<longrightarrow> action_ok a (ap_action io)))"
  using assms
  by (auto simp: apply_one_def accepted_def run_action_def Let_def split: if_splits prod.splits copy_result.splits copy_fault.splits option.splits)

theorem apply_ok_exact_witness:
  "\<exists>fs'. apply_one ''/'' (\<lambda>_. ''aa'') good_io (demo_push ''x'') (\<lambda>_. None) = (None, fs') \<and>
     fs' ''/etc/sssd/sssd.conf'' = Some (''x'', 384)"
proof -
  obtain fs' where r: "apply_one ''/'' (\<lambda>_. ''aa'') good_io (demo_push ''x'') (\<lambda>_. None) = (None, fs')"
    using demo_accepted [of "''x''"]
    by (simp add: apply_one_def accepted_def copy_file_def run_action_def action_ok_def root_path_def max_config_size_def)
  from apply_ok_exact [OF r] show ?thesis using r by (auto simp: accepted_def demo_push_def config_targets_def root_path_def)
qed

text \<open>When only the apply action fails the old content comes back if there was a file. If there was none, the content of whatever
  backup an earlier push has left takes its place, and without one the rejected content stays.\<close>

theorem failed_action_rollback:
  assumes "accepted sha p t" and "tg_action t = Some a" and "a \<noteq> Dnf_Clean" and "path = root_path ''/'' (tg_path t)"
    and "apply_one ''/'' sha (good_io\<lparr>ap_action := False, ap_retry := retry\<rparr>) p fs = (e, fs')"
  shows "fs' path = Some
      (case fs path of Some (old, m) \<Rightarrow> old
       | None \<Rightarrow> (case fs (path @ ''.bak'') of Some (stale, m) \<Rightarrow> stale | None \<Rightarrow> pp_content p), tg_mode t) \<and>
    e = Some (if fs path = None \<and> fs (path @ ''.bak'') = None then Rollback_Failed
      else if retry then Rolled_Back else Degraded)"
  using assms
  by (auto simp: apply_one_def accepted_def run_action_def action_ok_def Let_def copy_file_def split: if_splits option.splits prod.splits)

theorem failed_action_rollback_witness:
  "\<exists>fs'. apply_one ''/'' (\<lambda>_. ''aa'') (good_io\<lparr>ap_action := False, ap_retry := True\<rparr>) (demo_push ''x'')
     ((\<lambda>_. None)(''/etc/sssd/sssd.conf.bak'' \<mapsto> (''stale'', 384))) = (Some Rolled_Back, fs') \<and>
     fs' ''/etc/sssd/sssd.conf'' = Some (''stale'', 384)"
proof -
  obtain e fs' where r: "apply_one ''/'' (\<lambda>_. ''aa'') (good_io\<lparr>ap_action := False, ap_retry := True\<rparr>) (demo_push ''x'')
     ((\<lambda>_. None)(''/etc/sssd/sssd.conf.bak'' \<mapsto> (''stale'', 384))) = (e, fs')"
    by (metis surj_pair)
  from failed_action_rollback [OF demo_accepted _ _ _ r, of "Restart ''sssd''" "''/etc/sssd/sssd.conf''"] show ?thesis
    using r by (auto simp: root_path_def max_config_size_def)
qed

lemma backup_directive_ignored: "handle_config_push sha io (Some (p\<lparr>pp_backup := b\<rparr>)) fs = handle_config_push sha io (Some p) fs"
proof -
  have "pp_target (p\<lparr>pp_backup := b\<rparr>) = pp_target p" "pp_content (p\<lparr>pp_backup := b\<rparr>) = pp_content p"
    "pp_checksum (p\<lparr>pp_backup := b\<rparr>) = pp_checksum p" by simp_all
  then show ?thesis unfolding handle_config_push_def apply_one_def option.case by (simp only:)
qed

end
