(* ===== verification/Dangerous_Push.thy ===== *)
theory Dangerous_Push
  imports Config_Observer Config_Apply
begin

text \<open>
  Pushes of configuration files from the server to the nodes, and the confirmation of the dangerous ones
  (\<open>internal/server/handlers/dangerous_push.go\<close>, \<open>clientd.go\<close>, \<open>internal/db/dangerous_push.go\<close>, the janitor of
  \<open>internal/server/dangerous_push_janitor.go\<close>, the fan-out of \<open>internal/ldap/manager.go\<close>). Times are nanoseconds, the
  database keeps seconds. A confirmation is a request that gives way between its calls of the database and of the
  hub, so it is a state machine whose states are the points between the calls; the handler as a whole runs it to its end. A payload in
  the database is the payload itself, its JSON being written and read by the same type. Each call takes its answer, \<open>Some e\<close> when
  it fails.
\<close>

section \<open>State\<close>

text \<open>What a validator is asked about: the raw body of a request, or the envelope that was staged.\<close>

datatype body = Stage_Body string | Envelope push_payload

record 'c gate_env =
  ge_registry :: "(body, 'c) registry"
  ge_cluster :: string
  ge_sha :: "string \<Rightarrow> string"
  ge_srt :: "instruction list \<Rightarrow> instruction list"
  ge_digest :: "instruction list \<Rightarrow> string"
  ge_enabled :: bool

record dp_row =
  dp_id :: string
  dp_node :: string
  dp_plugin :: string
  dp_hash :: string
  dp_payload :: push_payload
  dp_reason :: string
  dp_challenge :: string
  dp_expires :: int
  dp_by :: string
  dp_created :: int
  dp_attempts :: int
  dp_consumed :: bool

record backup_row =
  br_id :: string
  br_node :: string
  br_plugin :: string
  br_path :: string
  br_taken :: int
  br_pending :: string

text \<open>A frame that the hub has taken for a node; \<open>fr_pending\<close> remembers the staged push it comes from.\<close>

record frame =
  fr_node :: string
  fr_payload :: push_payload
  fr_pending :: "string option"

datatype dp_event = Ev_Staged string | Ev_Mismatch string int int | Ev_Locked string int | Ev_Confirmed string string
  | Ev_Expired string | Ev_Swept nat nat

record gate =
  g_rows :: "dp_row list"
  g_frames :: "frame list"
  g_backups :: "backup_row list"
  g_events :: "dp_event list"

type_synonym reply = "string option"

definition max_attempts :: int where
  "max_attempts = 3"

definition stage_ttl :: int where
  "stage_ttl = 600 * 1000000000"

definition unix :: "int \<Rightarrow> int" where
  "unix t = t div 1000000000"

section \<open>Statements\<close>

definition find_row :: "string \<Rightarrow> gate \<Rightarrow> dp_row option" where
  "find_row i g = find (\<lambda>r. dp_id r = i) (g_rows g)"

definition insert_row :: "reply \<Rightarrow> dp_row \<Rightarrow> gate \<Rightarrow> bool \<times> gate" where
  "insert_row a r g = (if a \<noteq> None \<or> find_row (dp_id r) g \<noteq> None then (False, g) else (True, g\<lparr>g_rows := g_rows g @ [r]\<rparr>))"

definition update_row :: "string \<Rightarrow> (dp_row \<Rightarrow> dp_row) \<Rightarrow> gate \<Rightarrow> gate" where
  "update_row i f g = g\<lparr>g_rows := map (\<lambda>r. if dp_id r = i then f r else r) (g_rows g)\<rparr>"

text \<open>A transaction; when it fails nothing is written and the count is zero.\<close>

definition increment_attempts :: "reply \<Rightarrow> string \<Rightarrow> int \<Rightarrow> gate \<Rightarrow> int \<times> gate" where
  "increment_attempts a i limit g =
     (if a \<noteq> None then (0, g)
      else (case find_row i g of
              None \<Rightarrow> (0, g)
            | Some r \<Rightarrow>
                (let n = dp_attempts r + 1 in
                 (n, update_row i (\<lambda>r. r\<lparr>dp_attempts := n, dp_consumed := dp_consumed r \<or> n \<ge> limit\<rparr>) g))))"

definition consume :: "reply \<Rightarrow> string \<Rightarrow> gate \<Rightarrow> gate" where
  "consume a i g = (if a \<noteq> None then g else update_row i (\<lambda>r. r\<lparr>dp_consumed := True\<rparr>) g)"

definition stale :: "int \<Rightarrow> dp_row \<Rightarrow> bool" where
  "stale t r \<longleftrightarrow> dp_consumed r \<or> dp_expires r < t"

definition purge :: "int \<Rightarrow> gate \<Rightarrow> gate \<times> nat" where
  "purge older g =
     (g\<lparr>g_rows := filter (\<lambda>r. \<not> stale (unix older) r) (g_rows g)\<rparr>, length (filter (stale (unix older)) (g_rows g)))"

definition janitor_sweep :: "int \<Rightarrow> gate \<Rightarrow> string list \<times> nat \<times> gate" where
  "janitor_sweep now g =
     (map dp_id (filter (\<lambda>r. \<not> dp_consumed r \<and> dp_expires r < unix now) (g_rows g)),
      length (filter (stale (unix now)) (g_rows g)),
      g\<lparr>g_rows := filter (\<lambda>r. \<not> stale (unix now) r) (g_rows g)\<rparr>)"

definition log_event :: "dp_event \<Rightarrow> gate \<Rightarrow> gate" where
  "log_event e g = g\<lparr>g_events := g_events g @ [e]\<rparr>"

definition sweep :: "reply \<Rightarrow> int \<Rightarrow> gate \<Rightarrow> gate" where
  "sweep a now g =
     (if a \<noteq> None then g
      else
        (let (expired, n, g) = janitor_sweep now g in
         if n = 0 then g
         else log_event (Ev_Swept n (length expired)) (fold (\<lambda>i. log_event (Ev_Expired i)) expired g)))"

section \<open>Staging\<close>

datatype push_render_error = Node_Lookup string | Render_Failure render_error | No_Instructions

definition render_for_push :: "'c gate_env \<Rightarrow> string \<Rightarrow> string \<Rightarrow> string + 'c \<Rightarrow> push_render_error + (instruction \<times> string)" where
  "render_for_push env name node cfg =
     (case cfg of
        Inl e \<Rightarrow> Inl (Node_Lookup e)
      | Inr c \<Rightarrow>
          (case render_by_name (ge_srt env) (ge_digest env) (ge_registry env) name \<lparr>cs_node = node, cs_config = c, cs_all = []\<rparr> of
             Inl e \<Rightarrow> Inl (Render_Failure e)
           | Inr (is, h) \<Rightarrow> if is = [] then Inl No_Instructions else Inr (hd is, h)))"

record stage_request =
  sr_node :: string
  sr_plugin :: string
  sr_payload :: string

datatype stage_reply = Stage_Invalid | Plugin_Not_Found | Plugin_Not_Dangerous | Stage_Violations "violation list"
  | Render_Failed push_render_error | Stage_Internal | Staged dp_row

definition violations :: "(body, 'c) registry \<Rightarrow> string \<Rightarrow> body \<Rightarrow> violation list" where
  "violations rg name b =
     (case find_plugin rg name of None \<Rightarrow> []
      | Some p \<Rightarrow> (case pl_validate p of None \<Rightarrow> [] | Some v \<Rightarrow> v b))"

definition checksum :: "(string \<Rightarrow> string) \<Rightarrow> string \<Rightarrow> string" where
  "checksum sha content = ''sha256:'' @ sha content"

definition cluster_name :: "'c gate_env \<Rightarrow> string" where
  "cluster_name env = (if ge_cluster env = '''' then ''clustr'' else ge_cluster env)"

definition staged_payload :: "'c gate_env \<Rightarrow> string \<Rightarrow> plugin_meta \<Rightarrow> instruction \<Rightarrow> string \<Rightarrow> push_payload" where
  "staged_payload env name m i h =
     \<lparr>pp_target = name, pp_content = in_payload i, pp_checksum = checksum (ge_sha env) (in_payload i), pp_plugin = name,
      pp_hash = h, pp_priority = effective_priority m, pp_backup = None\<rparr>"

definition stage :: "'c gate_env \<Rightarrow> string + 'c \<Rightarrow> reply \<Rightarrow> int \<Rightarrow> string \<Rightarrow> string \<Rightarrow> stage_request \<Rightarrow> gate \<Rightarrow> stage_reply \<times> gate" where
  "stage env cfg ins now pid actor req g =
     (if sr_node req = '''' \<or> sr_plugin req = '''' then (Stage_Invalid, g)
      else
        (case plugin_metadata (ge_registry env) (sr_plugin req) of
           None \<Rightarrow> (Plugin_Not_Found, g)
         | Some m \<Rightarrow>
             if \<not> pm_dangerous m then (Plugin_Not_Dangerous, g)
             else if sr_payload req \<noteq> '''' \<and> violations (ge_registry env) (sr_plugin req) (Stage_Body (sr_payload req)) \<noteq> [] then
               (Stage_Violations (violations (ge_registry env) (sr_plugin req) (Stage_Body (sr_payload req))), g)
             else
               (case render_for_push env (sr_plugin req) (sr_node req) cfg of
                  Inl e \<Rightarrow> (Render_Failed e, g)
                | Inr (i, h) \<Rightarrow>
                    (let r = \<lparr>dp_id = pid, dp_node = sr_node req, dp_plugin = sr_plugin req, dp_hash = h,
                              dp_payload = staged_payload env (sr_plugin req) m i h, dp_reason = pm_reason m,
                              dp_challenge = cluster_name env, dp_expires = unix (now + stage_ttl), dp_by = actor,
                              dp_created = unix now, dp_attempts = 0, dp_consumed = False\<rparr>
                     in case insert_row ins r g of
                          (False, g) \<Rightarrow> (Stage_Internal, g)
                        | (True, g) \<Rightarrow> (Staged r, log_event (Ev_Staged pid) g)))))"

section \<open>Confirmation\<close>

datatype confirm_reply = Invalid_Request | Not_Found | Lookup_Failed | Gone | Expired | Locked_Out | Mismatch int | Invalidated
  | Node_Offline | Confirmed string string

datatype phase = Incrementing dp_row | Invalidating dp_row | Recording dp_row push_payload backup_row
  | Sending dp_row push_payload string | Consuming dp_row push_payload string | Answered confirm_reply

definition retain_count :: "int \<Rightarrow> int" where
  "retain_count n = (let n = (if n \<le> 0 then 3 else n) in if n > 16 then 16 else n)"

definition stored_at :: "dp_row \<Rightarrow> int \<Rightarrow> string" where
  "stored_at r now = ''/var/lib/clustr/backups/'' @ dp_node r @ ''/'' @ dp_plugin r @ ''/'' @ dec_int (unix now) @ ''/''"

text \<open>The payload with the backup directive of the plugin, and the row that records the backup.\<close>

definition prepare :: "plugin_meta \<Rightarrow> int \<Rightarrow> dp_row \<Rightarrow> phase" where
  "prepare m now r =
     (case pm_backup m of
        None \<Rightarrow> Sending r (dp_payload r) ''''
      | Some spec \<Rightarrow>
          Recording r
            ((dp_payload r)\<lparr>pp_backup := Some \<lparr>di_paths = bs_paths spec, di_retain = retain_count (bs_retain spec),
                 di_stored_at = stored_at r now, di_manifest = ''manifest.json''\<rparr>\<rparr>)
            \<lparr>br_id = ''pb-'' @ dec_int now, br_node = dp_node r, br_plugin = dp_plugin r,
             br_path = stored_at r now @ ''snapshot.tar.gz'', br_taken = unix now, br_pending = dp_id r\<rparr>)"

definition load :: "'c gate_env \<Rightarrow> reply \<Rightarrow> int \<Rightarrow> string \<Rightarrow> string \<Rightarrow> gate \<Rightarrow> phase" where
  "load env a now pid typed g =
     (if pid = '''' \<or> typed = '''' then Answered Invalid_Request
      else if a \<noteq> None then Answered Lookup_Failed
      else
        (case find_row pid g of
           None \<Rightarrow> Answered Not_Found
         | Some r \<Rightarrow>
             if dp_consumed r then Answered Gone
             else if now > dp_expires r * 1000000000 then Answered Expired
             else if typed \<noteq> dp_challenge r then Incrementing r
             else
               (case find_plugin (ge_registry env) (dp_plugin r) of
                  None \<Rightarrow> Invalidating r
                | Some p \<Rightarrow>
                    if violations (ge_registry env) (dp_plugin r) (Envelope (dp_payload r)) \<noteq> [] then Invalidating r
                    else prepare (pl_meta p) now r)))"

record confirm_io =
  co_increment :: reply
  co_backup :: reply
  co_send :: reply
  co_consume :: reply

text \<open>One call of a confirmation.\<close>

fun advance :: "confirm_io \<Rightarrow> phase \<Rightarrow> gate \<Rightarrow> phase \<times> gate" where
  "advance io (Incrementing r) g =
     (let (n, g) = increment_attempts (co_increment io) (dp_id r) max_attempts g; left = max_attempts - n in
      if left \<le> 0 then (Answered Locked_Out, log_event (Ev_Locked (dp_id r) n) g)
      else (Answered (Mismatch left), log_event (Ev_Mismatch (dp_id r) n left) g))"
| "advance io (Invalidating r) g = (Answered Invalidated, consume (co_consume io) (dp_id r) g)"
| "advance io (Recording r p b) g =
     (if co_backup io \<noteq> None then (Sending r p '''', g) else (Sending r p (br_id b), g\<lparr>g_backups := g_backups g @ [b]\<rparr>))"
| "advance io (Sending r p b) g =
     (if co_send io \<noteq> None then (Answered Node_Offline, g)
      else (Consuming r p b, g\<lparr>g_frames := g_frames g @ [\<lparr>fr_node = dp_node r, fr_payload = p, fr_pending = Some (dp_id r)\<rparr>]\<rparr>))"
| "advance io (Consuming r p b) g =
     (Answered (Confirmed (dp_plugin r) (dp_node r)),
      log_event (Ev_Confirmed (dp_id r) b) (consume (co_consume io) (dp_id r) g))"
| "advance io (Answered x) g = (Answered x, g)"

fun finish :: "nat \<Rightarrow> confirm_io \<Rightarrow> phase \<times> gate \<Rightarrow> phase \<times> gate" where
  "finish 0 io (ph, g) = (ph, g)"
| "finish (Suc n) io (ph, g) = finish n io (advance io ph g)"

text \<open>The handler when nothing comes in between; three calls are the most it makes.\<close>

definition confirm :: "'c gate_env \<Rightarrow> reply \<Rightarrow> confirm_io \<Rightarrow> int \<Rightarrow> string \<Rightarrow> string \<Rightarrow> gate \<Rightarrow> phase \<times> gate" where
  "confirm env a io now pid typed g = finish 3 io (load env a now pid typed g, g)"

section \<open>Other pushes\<close>

datatype ack = Ack_Ok | Ack_Error string | Ack_Timeout | Client_Gone

datatype push_reply = Push_Invalid | Use_Dangerous_Push | Push_Offline | Send_Failed | Push_Answer ack

definition plain_payload :: "(string \<Rightarrow> string) \<Rightarrow> string \<Rightarrow> string \<Rightarrow> push_payload" where
  "plain_payload sha tgt content =
     \<lparr>pp_target = tgt, pp_content = content, pp_checksum = checksum sha content, pp_plugin = '''', pp_hash = '''', pp_priority = 0,
      pp_backup = None\<rparr>"

definition send_frame :: "string \<Rightarrow> push_payload \<Rightarrow> gate \<Rightarrow> gate" where
  "send_frame node p g = g\<lparr>g_frames := g_frames g @ [\<lparr>fr_node = node, fr_payload = p, fr_pending = None\<rparr>]\<rparr>"

definition config_push :: "'c gate_env \<Rightarrow> bool \<Rightarrow> reply \<Rightarrow> ack \<Rightarrow> string \<Rightarrow> string \<Rightarrow> string \<Rightarrow> gate \<Rightarrow> push_reply \<times> gate" where
  "config_push env connected a ack node tgt content g =
     (if node = '''' \<or> tgt = '''' \<or> length content > 1048576 then (Push_Invalid, g)
      else if ge_enabled env \<and> is_dangerous (ge_registry env) tgt then (Use_Dangerous_Push, g)
      else if \<not> connected then (Push_Offline, g)
      else if a \<noteq> None then (Send_Failed, g)
      else (Push_Answer ack, send_frame node (plain_payload (ge_sha env) tgt content) g))"

text \<open>The fan-out of the LDAP module: three pushes one after the other, of which the last may fail.\<close>

definition send_config_push :: "(string \<Rightarrow> string) \<Rightarrow> reply \<Rightarrow> ack \<Rightarrow> string \<Rightarrow> string \<Rightarrow> string \<Rightarrow> gate \<Rightarrow> bool \<times> gate" where
  "send_config_push sha a ack node tgt content g =
     (if a \<noteq> None then (False, g) else (ack = Ack_Ok, send_frame node (plain_payload sha tgt content) g))"

definition push_ldap_to_node :: "(string \<Rightarrow> string) \<Rightarrow> (nat \<Rightarrow> reply \<times> ack) \<Rightarrow> string \<Rightarrow> string \<Rightarrow> string \<Rightarrow> string \<Rightarrow> gate \<Rightarrow> bool \<times> gate" where
  "push_ldap_to_node sha answers node ca sssd dropin g =
     (case send_config_push sha (fst (answers 0)) (snd (answers 0)) node ''ldap-ca-cert'' ca g of
        (False, g) \<Rightarrow> (False, g)
      | (True, g) \<Rightarrow>
          (case send_config_push sha (fst (answers 1)) (snd (answers 1)) node ''sssd'' sssd g of
             (False, g) \<Rightarrow> (False, g)
           | (True, g) \<Rightarrow>
               (True, snd (send_config_push sha (fst (answers 2)) (snd (answers 2)) node ''sshd-ldap-keys'' dropin g))))"

section \<open>The server\<close>

text \<open>
  Requests are numbered; each has its id, the string that was typed and the point it has reached. \<open>gs_issued\<close> remembers every row that
  was staged. The id of a new row is a fresh UUID.
\<close>

record gate_sys =
  gs_gate :: gate
  gs_requests :: "nat \<Rightarrow> (string \<times> string \<times> phase) option"
  gs_issued :: "dp_row list"

definition is_answered :: "phase \<Rightarrow> bool" where
  "is_answered ph = (case ph of Answered _ \<Rightarrow> True | _ \<Rightarrow> False)"

inductive gate_step :: "'c gate_env \<Rightarrow> gate_sys \<Rightarrow> gate_sys \<Rightarrow> bool" for env where
  stage_ok: "stage env cfg ins now pid actor req (gs_gate s) = (Staged r, g) \<Longrightarrow> pid \<notin> dp_id ` set (gs_issued s) \<Longrightarrow>
     gate_step env s (s\<lparr>gs_gate := g, gs_issued := gs_issued s @ [r]\<rparr>)"
| begin_confirm: "gs_requests s k = None \<Longrightarrow>
     gate_step env s (s\<lparr>gs_requests := (gs_requests s)(k \<mapsto> (pid, typed, load env a now pid typed (gs_gate s)))\<rparr>)"
| advance_confirm: "gs_requests s k = Some (pid, typed, ph) \<Longrightarrow> \<not> is_answered ph \<Longrightarrow> advance io ph (gs_gate s) = (ph', g) \<Longrightarrow>
     gate_step env s (s\<lparr>gs_gate := g, gs_requests := (gs_requests s)(k \<mapsto> (pid, typed, ph'))\<rparr>)"
| plain_push: "config_push env connected a ack node tgt content (gs_gate s) = (rep, g) \<Longrightarrow> gate_step env s (s\<lparr>gs_gate := g\<rparr>)"
| janitor: "gate_step env s (s\<lparr>gs_gate := sweep a now (gs_gate s)\<rparr>)"

inductive_cases gate_stepE: "gate_step env s s'"

definition start :: gate_sys where
  "start = \<lparr>gs_gate = \<lparr>g_rows = [], g_frames = [], g_backups = [], g_events = []\<rparr>, gs_requests = (\<lambda>_. None), gs_issued = []\<rparr>"


section \<open>Tables\<close>

definition same_push :: "dp_row \<Rightarrow> dp_row \<Rightarrow> bool" where
  "same_push r q \<longleftrightarrow> r\<lparr>dp_attempts := 0, dp_consumed := False\<rparr> = q\<lparr>dp_attempts := 0, dp_consumed := False\<rparr>"

lemma same_pushD:
  assumes "same_push r q"
  shows "dp_id r = dp_id q" "dp_node r = dp_node q" "dp_plugin r = dp_plugin q" "dp_payload r = dp_payload q"
    "dp_challenge r = dp_challenge q" "dp_expires r = dp_expires q"
  using assms by (cases r; cases q; simp add: same_push_def)+

lemma same_push_refl [simp]: "same_push r r"
  by (simp add: same_push_def)

lemma same_push_update [simp]:
  "same_push (r\<lparr>dp_attempts := n, dp_consumed := c\<rparr>) q = same_push r q" "same_push (r\<lparr>dp_attempts := n\<rparr>) q = same_push r q" "same_push (r\<lparr>dp_consumed := c\<rparr>) q = same_push r q"
  by (simp_all add: same_push_def)

lemma find_row_Some: "find_row i g = Some r \<Longrightarrow> r \<in> set (g_rows g) \<and> dp_id r = i"
  by (auto simp: find_row_def find_Some_iff)

lemma find_row_None: "find_row i g = None \<longleftrightarrow> i \<notin> dp_id ` set (g_rows g)"
  by (auto simp: find_row_def find_None_iff)

lemma log_event_sel [simp]: "g_rows (log_event e g) = g_rows g" "g_frames (log_event e g) = g_frames g"
  "find_row i (log_event e g) = find_row i g"
  by (simp_all add: log_event_def find_row_def)

lemma fold_log_sel [simp]: "g_rows (fold (\<lambda>i. log_event (f i)) is g) = g_rows g" "g_frames (fold (\<lambda>i. log_event (f i)) is g) = g_frames g"
  by (induction "is" arbitrary: g) simp_all

lemma update_row_sel [simp]: "g_frames (update_row i f g) = g_frames g"
  "g_rows (update_row i f g) = map (\<lambda>r. if dp_id r = i then f r else r) (g_rows g)"
  by (simp_all add: update_row_def)

lemma find_row_update:
  assumes "\<And>r. dp_id (f r) = dp_id r"
  shows "find_row k (update_row i f g) = (if k = i then map_option f (find_row k g) else find_row k g)"
proof -
  have "find (\<lambda>r. dp_id r = k) (map (\<lambda>r. if dp_id r = i then f r else r) rs) =
      (if k = i then map_option f (find (\<lambda>r. dp_id r = k) rs) else find (\<lambda>r. dp_id r = k) rs)" for rs
    using assms by (induction rs) auto
  then show ?thesis by (simp add: find_row_def)
qed

text \<open>What a table can do: rows go, and those that stay keep their push, never become live again and lose no attempt.\<close>

definition struck_out :: "dp_row \<Rightarrow> bool" where
  "struck_out r \<longleftrightarrow> (dp_attempts r \<ge> max_attempts \<longrightarrow> dp_consumed r)"

definition row_later :: "dp_row \<Rightarrow> dp_row \<Rightarrow> bool" where
  "row_later r r' \<longleftrightarrow> same_push r' r \<and> (dp_consumed r \<longrightarrow> dp_consumed r') \<and> dp_attempts r \<le> dp_attempts r' \<and>
     (struck_out r \<longrightarrow> struck_out r')"

definition table_later :: "gate \<Rightarrow> gate \<Rightarrow> bool" where
  "table_later g g' \<longleftrightarrow> (\<forall>r' \<in> set (g_rows g'). \<exists>r \<in> set (g_rows g). row_later r r')"

lemma row_later_refl [simp]: "row_later r r"
  by (simp add: row_later_def)

lemma row_later_bex [intro]: "r \<in> A \<Longrightarrow> \<exists>q \<in> A. row_later q r"
  using row_later_refl by blast

lemma table_later_refl [simp]: "table_later g g"
  by (auto simp: table_later_def)

lemma table_later_rows: "set (g_rows g') \<subseteq> set (g_rows g) \<Longrightarrow> table_later g g'"
  by (auto simp: table_later_def)

lemma table_later_update:
  assumes "\<And>r. r \<in> set (g_rows g) \<Longrightarrow> dp_id r = i \<Longrightarrow> row_later r (f r)"
  shows "table_later g (update_row i f g)"
  using assms by (auto simp: table_later_def)

lemma table_later_consume: "table_later g (consume a i g)"
  by (auto simp: consume_def intro!: table_later_update simp: row_later_def struck_out_def)

lemma consume_sel [simp]: "g_frames (consume a i g) = g_frames g"
  by (simp add: consume_def)

text \<open>The counter is that of the row, which the id determines.\<close>

lemma find_row_unique:
  assumes "distinct (map dp_id (g_rows g))" and "r \<in> set (g_rows g)"
  shows "find_row (dp_id r) g = Some r"
proof -
  have "distinct (map dp_id rs) \<Longrightarrow> r \<in> set rs \<Longrightarrow> find (\<lambda>q. dp_id q = dp_id r) rs = Some r" for rs
    by (induction rs) auto
  then show ?thesis using assms by (simp add: find_row_def)
qed

lemma table_later_increment:
  assumes "distinct (map dp_id (g_rows g))" and "increment_attempts a i max_attempts g = (n, g')"
  shows "table_later g g'" and "g_frames g' = g_frames g"
proof -
  show "table_later g g'"
  proof (cases "a \<noteq> None \<or> find_row i g = None")
    case True
    then have "g' = g" using assms(2) by (auto simp: increment_attempts_def split: if_splits)
    then show ?thesis by simp
  next
    case False
    then obtain r where r: "find_row i g = Some r" "a = None" by auto
    have only: "q = r" if "q \<in> set (g_rows g)" "dp_id q = i" for q
      using find_row_unique [OF assms(1) that(1)] that(2) r(1) by simp
    have "g' = update_row i (\<lambda>q. q\<lparr>dp_attempts := dp_attempts r + 1, dp_consumed := dp_consumed q \<or> dp_attempts r + 1 \<ge> max_attempts\<rparr>) g"
      using assms(2) r by (auto simp: increment_attempts_def Let_def)
    moreover have "row_later q (q\<lparr>dp_attempts := dp_attempts r + 1, dp_consumed := dp_consumed q \<or> dp_attempts r + 1 \<ge> max_attempts\<rparr>)"
      if "q \<in> set (g_rows g)" "dp_id q = i" for q
      using only [OF that] by (simp add: row_later_def struck_out_def)
    ultimately show ?thesis by (auto intro!: table_later_update)
  qed
  show "g_frames g' = g_frames g" using assms(2) by (auto simp: increment_attempts_def Let_def split: option.splits if_splits)
qed

lemma increment_ids: "increment_attempts a i n g = (m, g') \<Longrightarrow> map dp_id (g_rows g') = map dp_id (g_rows g)"
  by (auto simp: increment_attempts_def Let_def comp_def split: option.splits if_splits)

lemma consume_ids [simp]: "map dp_id (g_rows (consume a i g)) = map dp_id (g_rows g)"
  by (simp add: consume_def comp_def if_distrib cong: if_cong)

lemma sweep_rows:
  "g_rows (sweep a now g) = (if a \<noteq> None then g_rows g else filter (\<lambda>r. \<not> stale (unix now) r) (g_rows g))"
  "g_frames (sweep a now g) = g_frames g"
  by (auto simp: sweep_def janitor_sweep_def Let_def filter_empty_conv intro!: filter_True [symmetric])

lemma table_later_sweep: "table_later g (sweep a now g)"
  by (rule table_later_rows) (auto simp: sweep_rows)


section \<open>Invariants of the server\<close>

definition strip :: "push_payload \<Rightarrow> push_payload" where
  "strip p = p\<lparr>pp_backup := None\<rparr>"

text \<open>A request that is past its checks carries a row that was staged, and the operator has typed its challenge.\<close>

definition carries :: "dp_row list \<Rightarrow> string \<Rightarrow> string \<Rightarrow> dp_row \<Rightarrow> push_payload \<Rightarrow> bool" where
  "carries issued pid typed r p \<longleftrightarrow>
     (\<exists>q \<in> set issued. same_push r q) \<and> dp_id r = pid \<and> typed = dp_challenge r \<and> strip p = dp_payload r"

fun request_ok :: "dp_row list \<Rightarrow> string \<times> string \<times> phase \<Rightarrow> bool" where
  "request_ok issued (pid, typed, Incrementing r) \<longleftrightarrow> dp_id r = pid \<and> typed \<noteq> dp_challenge r"
| "request_ok issued (pid, typed, Invalidating r) \<longleftrightarrow> dp_id r = pid"
| "request_ok issued (pid, typed, Recording r p b) \<longleftrightarrow> carries issued pid typed r p"
| "request_ok issued (pid, typed, Sending r p b) \<longleftrightarrow> carries issued pid typed r p"
| "request_ok issued (pid, typed, Consuming r p b) \<longleftrightarrow> carries issued pid typed r p"
| "request_ok issued (pid, typed, Answered x) \<longleftrightarrow> True"

definition typed_challenge :: "gate_sys \<Rightarrow> dp_row \<Rightarrow> bool" where
  "typed_challenge s q \<longleftrightarrow> (\<exists>k ph. gs_requests s k = Some (dp_id q, dp_challenge q, ph))"

text \<open>A frame is either a plain push that the gate lets through or comes from a staged push whose challenge was typed.\<close>

definition frame_ok :: "'c gate_env \<Rightarrow> gate_sys \<Rightarrow> frame \<Rightarrow> bool" where
  "frame_ok env s f =
     (case fr_pending f of
        None \<Rightarrow> \<not> (ge_enabled env \<and> is_dangerous (ge_registry env) (pp_target (fr_payload f))) \<and>
          pp_checksum (fr_payload f) = checksum (ge_sha env) (pp_content (fr_payload f))
      | Some pid \<Rightarrow> (\<exists>q \<in> set (gs_issued s). dp_id q = pid \<and> fr_node f = dp_node q \<and> strip (fr_payload f) = dp_payload q \<and>
          typed_challenge s q))"

definition issued_ok :: "'c gate_env \<Rightarrow> dp_row \<Rightarrow> bool" where
  "issued_ok env q \<longleftrightarrow> dp_challenge q = cluster_name env \<and> is_dangerous (ge_registry env) (dp_plugin q) \<and>
     pp_target (dp_payload q) = dp_plugin q \<and> pp_backup (dp_payload q) = None \<and>
     pp_checksum (dp_payload q) = checksum (ge_sha env) (pp_content (dp_payload q)) \<and> struck_out q"

definition sys_ok :: "'c gate_env \<Rightarrow> gate_sys \<Rightarrow> bool" where
  "sys_ok env s \<longleftrightarrow>
     (\<forall>r \<in> set (g_rows (gs_gate s)). struck_out r \<and> (\<exists>q \<in> set (gs_issued s). same_push r q)) \<and>
     distinct (map dp_id (g_rows (gs_gate s))) \<and> distinct (map dp_id (gs_issued s)) \<and>
     (\<forall>q \<in> set (gs_issued s). issued_ok env q) \<and>
     (\<forall>k x. gs_requests s k = Some x \<longrightarrow> request_ok (gs_issued s) x) \<and>
     (\<forall>f \<in> set (g_frames (gs_gate s)). frame_ok env s f)"

lemma sys_okD:
  assumes "sys_ok env s"
  shows "\<And>r. r \<in> set (g_rows (gs_gate s)) \<Longrightarrow> struck_out r" "\<And>r. r \<in> set (g_rows (gs_gate s)) \<Longrightarrow> \<exists>q \<in> set (gs_issued s). same_push r q"
    "distinct (map dp_id (g_rows (gs_gate s)))" "distinct (map dp_id (gs_issued s))" "\<And>q. q \<in> set (gs_issued s) \<Longrightarrow> issued_ok env q"
    "\<And>k x. gs_requests s k = Some x \<Longrightarrow> request_ok (gs_issued s) x" "\<And>f. f \<in> set (g_frames (gs_gate s)) \<Longrightarrow> frame_ok env s f"
  using assms by (auto simp: sys_ok_def)

lemma sys_ok_start: "sys_ok env start"
  by (simp add: sys_ok_def start_def)

lemma carries_mono: "carries issued pid typed r p \<Longrightarrow> carries (issued @ rs) pid typed r p"
  by (auto simp: carries_def)

lemma request_ok_mono: "request_ok issued x \<Longrightarrow> request_ok (issued @ rs) x"
  by (induction issued x rule: request_ok.induct) (auto intro: carries_mono)

text \<open>A step keeps what was staged and what was typed, so frames stay explained.\<close>

definition grows :: "gate_sys \<Rightarrow> gate_sys \<Rightarrow> bool" where
  "grows s s' \<longleftrightarrow> set (gs_issued s) \<subseteq> set (gs_issued s') \<and>
     (\<forall>k pid typed ph. gs_requests s k = Some (pid, typed, ph) \<longrightarrow> (\<exists>ph'. gs_requests s' k = Some (pid, typed, ph')))"

lemma frame_ok_grows:
  assumes "sys_ok env s" and "grows s s'" and "f \<in> set (g_frames (gs_gate s))"
  shows "frame_ok env s' f"
proof -
  have "typed_challenge s q \<Longrightarrow> typed_challenge s' q" for q using assms(2) unfolding grows_def typed_challenge_def by blast
  moreover have "frame_ok env s f" using sys_okD(7) [OF assms(1,3)] .
  ultimately show ?thesis using assms(2) by (fastforce simp: frame_ok_def grows_def split: option.splits)
qed

lemma table_later_ok:
  assumes "table_later g g'" and "\<forall>r \<in> set (g_rows g). struck_out r \<and> (\<exists>q \<in> set issued. same_push r q)"
  shows "\<forall>r \<in> set (g_rows g'). struck_out r \<and> (\<exists>q \<in> set issued. same_push r q)"
proof
  fix r' assume "r' \<in> set (g_rows g')"
  then obtain r where r: "r \<in> set (g_rows g)" "row_later r r'" using assms(1) by (auto simp: table_later_def)
  then obtain q where "q \<in> set issued" "same_push r q" using assms(2) by auto
  then show "struck_out r' \<and> (\<exists>q \<in> set issued. same_push r' q)" using r assms(2) by (auto simp: row_later_def same_push_def)
qed

lemma load_ok:
  assumes "\<And>r. r \<in> set (g_rows g) \<Longrightarrow> \<exists>q \<in> set issued. same_push r q" and "\<And>q. q \<in> set issued \<Longrightarrow> pp_backup (dp_payload q) = None"
  shows "request_ok issued (pid, typed, load env a now pid typed g)"
proof -
  have payload: "strip (dp_payload r) = dp_payload r" if r: "r \<in> set (g_rows g)" for r
  proof -
    obtain q where q: "q \<in> set issued" "same_push r q" using assms(1) [OF r] by blast
    then have "pp_backup (dp_payload r) = None" using assms(2) [OF q(1)] same_pushD(4) [OF q(2)] by simp
    then show ?thesis by (simp add: strip_def)
  qed
  have strip: "strip (p\<lparr>pp_backup := b\<rparr>) = strip p" for p b by (simp add: strip_def)
  show ?thesis
    by (auto simp: load_def prepare_def carries_def payload strip dest!: find_row_Some dest: assms(1) split: option.split)
qed

lemma advance_request_ok: "request_ok issued (pid, typed, ph) \<Longrightarrow> advance io ph g = (ph', g') \<Longrightarrow> request_ok issued (pid, typed, ph')"
  by (induction io ph g rule: advance.induct) (auto simp: Let_def split: prod.splits if_splits)

lemma advance_table:
  assumes "distinct (map dp_id (g_rows g))" and "advance io ph g = (ph', g')"
  shows "table_later g g'" and "map dp_id (g_rows g') = map dp_id (g_rows g)"
  using assms
  by (cases ph; auto simp: Let_def table_later_rows table_later_def split: prod.splits if_splits
      dest: table_later_increment(1) increment_ids table_later_consume [unfolded table_later_def, rule_format])+


lemma increment_frames: "increment_attempts a i n g = (m, g') \<Longrightarrow> g_frames g' = g_frames g"
  by (auto simp: increment_attempts_def Let_def split: option.splits if_splits)

text \<open>Only the step that sends makes a frame.\<close>

lemma advance_frames:
  assumes "advance io ph g = (ph', g')"
  shows "g_frames g' = g_frames g @
    (case ph of Sending r p b \<Rightarrow> if co_send io = None then [\<lparr>fr_node = dp_node r, fr_payload = p, fr_pending = Some (dp_id r)\<rparr>] else []
     | _ \<Rightarrow> [])"
  using assms by (cases ph) (auto simp: Let_def split: prod.splits if_splits dest: increment_frames)

lemma stage_issued_ok:
  assumes "stage env cfg ins now pid actor req g = (Staged r, g')"
  shows "issued_ok env r" "dp_id r = pid" "g_frames g' = g_frames g" "g_rows g' = g_rows g @ [r]"
    "pid \<notin> dp_id ` set (g_rows g)" "dp_attempts r = 0" "\<not> dp_consumed r"
  using assms
  by (auto simp: stage_def issued_ok_def staged_payload_def is_dangerous_def Let_def insert_row_def find_row_None struck_out_def
      max_attempts_def split: if_splits option.splits sum.splits prod.splits bool.splits)

lemma config_push_frames:
  assumes "config_push env connected a ack node tgt content g = (rep, g')"
  shows "g_rows g' = g_rows g" and "g_frames g' = g_frames g \<or>
    (\<not> (ge_enabled env \<and> is_dangerous (ge_registry env) tgt) \<and> rep = Push_Answer ack \<and>
     g_frames g' = g_frames g @ [\<lparr>fr_node = node, fr_payload = plain_payload (ge_sha env) tgt content, fr_pending = None\<rparr>])"
  using assms by (auto simp: config_push_def send_frame_def split: if_splits)

lemma sys_ok_step:
  assumes "gate_step env s s'" and "sys_ok env s"
  shows "sys_ok env s'"
  using assms(1)
proof cases
  case (stage_ok cfg ins now pid actor req r g)
  note st = stage_issued_ok [OF stage_ok(2)] and ok = sys_okD [OF assms(2)]
  have "grows s s'" by (auto simp: stage_ok(1) grows_def)
  note frames = frame_ok_grows [OF assms(2) this]
  show ?thesis unfolding sys_ok_def
    using ok(1-6) st stage_ok(3) frames
    by (auto simp: stage_ok(1) issued_ok_def intro: request_ok_mono)
next
  case (begin_confirm k pid typed a now)
  note ok = sys_okD [OF assms(2)]
  have "grows s s'" by (auto simp: begin_confirm(1) grows_def begin_confirm(2))
  note frames = frame_ok_grows [OF assms(2) this]
  have "request_ok (gs_issued s) (pid, typed, load env a now pid typed (gs_gate s))"
    by (rule load_ok) (use ok(2,5) in \<open>auto simp: issued_ok_def\<close>)
  then show ?thesis unfolding sys_ok_def using ok(1-6) frames by (auto simp: begin_confirm(1))
next
  case (advance_confirm k pid typed ph io ph' g)
  note ok = sys_okD [OF assms(2)]
  have "grows s s'" using advance_confirm(2) by (auto simp: advance_confirm(1) grows_def)
  note frames = frame_ok_grows [OF assms(2) this]
  note table = advance_table [OF ok(3) advance_confirm(4)]
  have new: "frame_ok env s' f" if f: "f \<in> set (g_frames g)" "f \<notin> set (g_frames (gs_gate s))" for f
  proof -
    obtain r p b where ph: "ph = Sending r p b" "f = \<lparr>fr_node = dp_node r, fr_payload = p, fr_pending = Some (dp_id r)\<rparr>"
      using f advance_frames [OF advance_confirm(4)] by (auto split: phase.splits if_splits)
    then obtain q where q: "q \<in> set (gs_issued s)" "same_push r q" "dp_id r = pid" "typed = dp_challenge r" "strip p = dp_payload r"
      using ok(6) [OF advance_confirm(2)] by (auto simp: carries_def)
    have "typed_challenge s' q" using q same_pushD [OF q(2)] by (auto simp: advance_confirm(1) typed_challenge_def)
    then show ?thesis using q same_pushD [OF q(2)] by (auto simp: frame_ok_def ph(2) advance_confirm(1))
  qed
  have "request_ok (gs_issued s) (pid, typed, ph')" using advance_request_ok [OF ok(6) [OF advance_confirm(2)] advance_confirm(4)] .
  moreover have "\<forall>r \<in> set (g_rows g). struck_out r \<and> (\<exists>q \<in> set (gs_issued s). same_push r q)"
    by (rule table_later_ok [OF table(1)]) (use ok(1,2) in auto)
  moreover have "\<forall>f \<in> set (g_frames g). frame_ok env s' f" using frames new by blast
  ultimately show ?thesis unfolding sys_ok_def using ok(3-6) table(2) by (auto simp: advance_confirm(1))
next
  case (plain_push connected a ack node tgt content rep g)
  note ok = sys_okD [OF assms(2)]
  have "grows s s'" by (auto simp: plain_push(1) grows_def)
  note frames = frame_ok_grows [OF assms(2) this]
  then have "\<forall>f \<in> set (g_frames g). frame_ok env s' f"
    using config_push_frames(2) [OF plain_push(2)] by (auto simp: frame_ok_def plain_payload_def)
  then show ?thesis unfolding sys_ok_def
    using ok(1-6) config_push_frames(1) [OF plain_push(2)] by (auto simp: plain_push(1))
next
  case (janitor a now)
  note ok = sys_okD [OF assms(2)]
  have "grows s s'" by (auto simp: janitor grows_def)
  note frames = frame_ok_grows [OF assms(2) this]
  have "distinct (map dp_id (g_rows (sweep a now (gs_gate s))))" using ok(3) by (simp add: sweep_rows distinct_map_filter)
  moreover have "\<forall>r \<in> set (g_rows (sweep a now (gs_gate s))). struck_out r \<and> (\<exists>q \<in> set (gs_issued s). same_push r q)"
    using ok(1,2) by (auto simp: sweep_rows)
  ultimately show ?thesis unfolding sys_ok_def using ok(4-6) frames by (auto simp: janitor sweep_rows)
qed

lemma sys_ok_reach: "(gate_step env)\<^sup>*\<^sup>* s s' \<Longrightarrow> sys_ok env s \<Longrightarrow> sys_ok env s'"
  by (induction rule: rtranclp_induct) (auto intro: sys_ok_step)


section \<open>A run for the examples\<close>

definition demo_plugin :: "(body, unit) plugin" where
  "demo_plugin = \<lparr>pl_name = ''sssd'', pl_keys = [], pl_meta = \<lparr>pm_priority = 80, pm_dangerous = True, pm_reason = ''login'', pm_backup = None\<rparr>,
     pl_render = (\<lambda>st. Inr [\<lparr>in_opcode = ''overwrite'', in_target = '''', in_payload = ''conf'', in_anchors = None\<rparr>]), pl_validate = None\<rparr>"

definition demo_env :: "unit gate_env" where
  "demo_env = \<lparr>ge_registry = \<lparr>rg_queues = [demo_plugin], rg_watch = (\<lambda>_. [])\<rparr>, ge_cluster = ''lab'', ge_sha = (\<lambda>_. ''aa''),
     ge_srt = sort_key instruction_key, ge_digest = (\<lambda>_. ''h''), ge_enabled = True\<rparr>"

definition demo_row :: dp_row where
  "demo_row = \<lparr>dp_id = ''p1'', dp_node = ''n1'', dp_plugin = ''sssd'', dp_hash = ''h'',
     dp_payload = \<lparr>pp_target = ''sssd'', pp_content = ''conf'', pp_checksum = ''sha256:aa'', pp_plugin = ''sssd'', pp_hash = ''h'',
       pp_priority = 80, pp_backup = None\<rparr>, dp_reason = ''login'', dp_challenge = ''lab'', dp_expires = 600, dp_by = ''op'',
     dp_created = 0, dp_attempts = 0, dp_consumed = False\<rparr>"

definition demo_staged :: gate where
  "demo_staged = \<lparr>g_rows = [demo_row], g_frames = [], g_backups = [], g_events = [Ev_Staged ''p1'']\<rparr>"

definition demo_frame :: frame where
  "demo_frame = \<lparr>fr_node = ''n1'', fr_payload = dp_payload demo_row, fr_pending = Some ''p1''\<rparr>"

definition demo_sent :: "gate_sys" where
  "demo_sent = \<lparr>gs_gate = demo_staged\<lparr>g_frames := [demo_frame]\<rparr>,
     gs_requests = (\<lambda>_. None)(0 \<mapsto> (''p1'', ''lab'', Consuming demo_row (dp_payload demo_row) '''')), gs_issued = [demo_row]\<rparr>"

definition demo_confirmed :: "gate_sys" where
  "demo_confirmed = \<lparr>gs_gate = demo_staged\<lparr>g_rows := [demo_row\<lparr>dp_consumed := True\<rparr>], g_frames := [demo_frame],
       g_events := [Ev_Staged ''p1'', Ev_Confirmed ''p1'' '''']\<rparr>,
     gs_requests = (\<lambda>_. None)(0 \<mapsto> (''p1'', ''lab'', Answered (Confirmed ''sssd'' ''n1''))), gs_issued = [demo_row]\<rparr>"

lemma demo_stage:
  "stage demo_env (Inr ()) None 0 ''p1'' ''op'' \<lparr>sr_node = ''n1'', sr_plugin = ''sssd'', sr_payload = ''''\<rparr> (gs_gate start) =
     (Staged demo_row, demo_staged)"
  by (simp add: stage_def demo_env_def demo_plugin_def plugin_metadata_def find_plugin_def render_for_push_def render_by_name_def
      hash_instructions_def Let_def staged_payload_def cluster_name_def checksum_def effective_priority_def unix_def stage_ttl_def
      insert_row_def find_row_def start_def log_event_def demo_row_def demo_staged_def)

lemma demo_load: "load demo_env None 1 ''p1'' ''lab'' demo_staged = Sending demo_row (dp_payload demo_row) ''''"
  by (simp add: load_def demo_staged_def find_row_def demo_row_def demo_env_def find_plugin_def demo_plugin_def violations_def prepare_def)

lemma demo_reach: "(gate_step demo_env)\<^sup>*\<^sup>* start demo_sent"
proof -
  let ?s1 = "start\<lparr>gs_gate := demo_staged, gs_issued := gs_issued start @ [demo_row]\<rparr>"
  let ?ph = "Sending demo_row (dp_payload demo_row) ''''"
  let ?s2 = "?s1\<lparr>gs_requests := (gs_requests ?s1)(0 \<mapsto> (''p1'', ''lab'', ?ph))\<rparr>"
  have 1: "gate_step demo_env start ?s1" by (rule stage_ok [OF demo_stage]) (simp add: start_def)
  have 2: "gate_step demo_env ?s1 ?s2"
    using begin_confirm [of ?s1 0 demo_env "''p1''" "''lab''" None 1] by (simp add: demo_load) (simp add: start_def)
  have 3: "gate_step demo_env ?s2 (?s2\<lparr>gs_gate := demo_staged\<lparr>g_frames := [demo_frame]\<rparr>,
      gs_requests := (gs_requests ?s2)(0 \<mapsto> (''p1'', ''lab'', Consuming demo_row (dp_payload demo_row) ''''))\<rparr>)"
    by (rule advance_confirm [where io = "\<lparr>co_increment = None, co_backup = None, co_send = None, co_consume = None\<rparr>" and ph = ?ph])
      (simp_all add: is_answered_def demo_staged_def demo_frame_def demo_row_def)
  have eq: "?s2\<lparr>gs_gate := demo_staged\<lparr>g_frames := [demo_frame]\<rparr>,
      gs_requests := (gs_requests ?s2)(0 \<mapsto> (''p1'', ''lab'', Consuming demo_row (dp_payload demo_row) ''''))\<rparr> = demo_sent"
    by (simp add: demo_sent_def start_def)
  have r1: "(gate_step demo_env)\<^sup>*\<^sup>* start ?s1" by (rule r_into_rtranclp) (rule 1)
  have r2: "(gate_step demo_env)\<^sup>*\<^sup>* start ?s2" by (rule rtranclp.rtrancl_into_rtrancl) (rule r1, rule 2)
  show ?thesis unfolding eq [symmetric] by (rule rtranclp.rtrancl_into_rtrancl) (rule r2, rule 3)
qed

lemma demo_reach_confirmed: "(gate_step demo_env)\<^sup>*\<^sup>* start demo_confirmed"
proof -
  let ?s = "demo_sent\<lparr>gs_gate := gs_gate demo_confirmed,
      gs_requests := (gs_requests demo_sent)(0 \<mapsto> (''p1'', ''lab'', Answered (Confirmed ''sssd'' ''n1'')))\<rparr>"
  have "gate_step demo_env demo_sent ?s"
    by (rule advance_confirm [where io = "\<lparr>co_increment = None, co_backup = None, co_send = None, co_consume = None\<rparr>"
          and ph = "Consuming demo_row (dp_payload demo_row) ''''"])
      (simp_all add: is_answered_def demo_sent_def demo_confirmed_def consume_def update_row_def log_event_def demo_staged_def demo_row_def)
  moreover have "?s = demo_confirmed" by (simp add: demo_sent_def demo_confirmed_def)
  ultimately show ?thesis using demo_reach by simp
qed

section \<open>Safety of the gate\<close>



text \<open>A staged push that is consumed or gone, with no request under way for it.\<close>

definition spent :: "string \<Rightarrow> gate_sys \<Rightarrow> bool" where
  "spent pid s \<longleftrightarrow> pid \<in> dp_id ` set (gs_issued s) \<and> (\<forall>r \<in> set (g_rows (gs_gate s)). dp_id r = pid \<longrightarrow> dp_consumed r) \<and>
     (\<forall>k typed ph. gs_requests s k = Some (pid, typed, ph) \<longrightarrow> is_answered ph)"

definition deliveries :: "string \<Rightarrow> gate_sys \<Rightarrow> frame list" where
  "deliveries pid s = filter (\<lambda>f. fr_pending f = Some pid) (g_frames (gs_gate s))"

lemma table_later_consumed:
  assumes "table_later g g'" and "\<forall>r \<in> set (g_rows g). dp_id r = pid \<longrightarrow> dp_consumed r"
  shows "\<forall>r \<in> set (g_rows g'). dp_id r = pid \<longrightarrow> dp_consumed r"
proof safe
  fix r' assume r': "r' \<in> set (g_rows g')" "pid = dp_id r'"
  then obtain r where "r \<in> set (g_rows g)" "row_later r r'" using assms(1) by (auto simp: table_later_def)
  then show "dp_consumed r'" using assms(2) r'(2) by (auto simp: row_later_def dest: same_pushD(1))
qed

lemma load_spent:
  assumes "\<forall>r \<in> set (g_rows g). dp_id r = pid \<longrightarrow> dp_consumed r"
  shows "is_answered (load env a now pid typed g)"
  using assms by (auto simp: load_def is_answered_def dest!: find_row_Some split: option.split)

lemma spent_step:
  assumes "gate_step env s s'" and "sys_ok env s" and "spent pid s"
  shows "spent pid s' \<and> deliveries pid s' = deliveries pid s"
  using assms(1)
proof cases
  case (stage_ok cfg ins now pid' actor req r g)
  show ?thesis using assms(3) stage_issued_ok(2-4) [OF stage_ok(2)] stage_ok(3)
    by (auto simp: stage_ok(1) spent_def deliveries_def)
next
  case (begin_confirm k pid' typed a now)
  have "is_answered (load env a now pid' typed (gs_gate s))" if "pid' = pid"
    using assms(3) unfolding that by (intro load_spent) (simp add: spent_def)
  then show ?thesis using assms(3) by (auto simp: begin_confirm(1) spent_def deliveries_def)
next
  case (advance_confirm k pid' typed ph io ph' g)
  have other: "pid' \<noteq> pid" using assms(3) advance_confirm(2,3) by (auto simp: spent_def)
  note ok = sys_okD [OF assms(2)]
  have "dp_id r = pid'" if "ph = Sending r p b" for r p b using ok(6) [OF advance_confirm(2)] that by (simp add: carries_def)
  then have frames: "filter (\<lambda>f. fr_pending f = Some pid) (g_frames g) = filter (\<lambda>f. fr_pending f = Some pid) (g_frames (gs_gate s))"
    using other advance_frames [OF advance_confirm(4)] by (auto split: phase.splits)
  have rows: "\<forall>r \<in> set (g_rows g). dp_id r = pid \<longrightarrow> dp_consumed r"
    by (rule table_later_consumed [OF advance_table(1) [OF ok(3) advance_confirm(4)]]) (use assms(3) in \<open>simp add: spent_def\<close>)
  have "pid \<in> dp_id ` set (gs_issued s)" "\<forall>k typed ph. gs_requests s k = Some (pid, typed, ph) \<longrightarrow> is_answered ph"
    using assms(3) by (simp_all add: spent_def)
  then show ?thesis using frames rows other by (simp add: advance_confirm(1) spent_def deliveries_def)
next
  case (plain_push connected a ack node tgt content rep g)
  show ?thesis using assms(3) config_push_frames [OF plain_push(2)] by (auto simp: plain_push(1) spent_def deliveries_def)
next
  case (janitor a now)
  show ?thesis using assms(3) by (auto simp: janitor spent_def deliveries_def sweep_rows)
qed

text \<open>C10. Once a staged push is confirmed, locked out or swept and no request for it is under way, no later step delivers it.\<close>

theorem spent_never_sent:
  assumes "(gate_step env)\<^sup>*\<^sup>* start s" and "spent pid s" and "(gate_step env)\<^sup>*\<^sup>* s s'"
  shows "spent pid s' \<and> deliveries pid s' = deliveries pid s"
  using assms(3)
proof (induction rule: rtranclp_induct)
  case base
  show ?case using assms(2) by simp
next
  case (step t u)
  have "sys_ok env t" using sys_ok_reach [OF _ sys_ok_start] assms(1) step.hyps(1) by (metis rtranclp_trans)
  then show ?case using spent_step [OF step.hyps(2)] step.IH by auto
qed


theorem spent_never_sent_witness:
  "deliveries ''p1'' (demo_confirmed\<lparr>gs_gate := sweep None 700000000000 (gs_gate demo_confirmed)\<rparr>) = [demo_frame]"
proof -
  have s: "spent ''p1'' demo_confirmed" by (simp add: spent_def demo_confirmed_def demo_row_def is_answered_def)
  have d: "deliveries ''p1'' demo_confirmed = [demo_frame]" by (simp add: deliveries_def demo_confirmed_def demo_frame_def)
  have r: "(gate_step demo_env)\<^sup>*\<^sup>* demo_confirmed (demo_confirmed\<lparr>gs_gate := sweep None 700000000000 (gs_gate demo_confirmed)\<rparr>)"
    by (rule r_into_rtranclp) (rule janitor)
  show ?thesis using spent_never_sent [OF demo_reach_confirmed s r] d by (simp only:)
qed

section \<open>One confirmation at a time\<close>

text \<open>What a staged push is to the operator: a token with the number of wrong answers so far.\<close>

datatype token = Unknown | Live int | Spent

definition token_of :: "string \<Rightarrow> gate \<Rightarrow> token" where
  "token_of pid g =
     (case find_row pid g of None \<Rightarrow> Unknown | Some r \<Rightarrow> if dp_consumed r then Spent else Live (dp_attempts r))"

definition token_confirm :: "confirm_reply \<Rightarrow> bool \<Rightarrow> bool \<Rightarrow> bool \<Rightarrow> bool \<Rightarrow> token \<Rightarrow> confirm_reply \<times> token" where
  "token_confirm success expired right valid online tok =
     (case tok of
        Unknown \<Rightarrow> (Not_Found, Unknown)
      | Spent \<Rightarrow> (Gone, Spent)
      | Live n \<Rightarrow>
          if expired then (Expired, Live n)
          else if \<not> right then (if n + 1 \<ge> 3 then (Locked_Out, Spent) else (Mismatch (2 - n), Live (n + 1)))
          else if \<not> valid then (Invalidated, Spent)
          else if \<not> online then (Node_Offline, Live n)
          else (success, Spent))"

definition still_valid :: "'c gate_env \<Rightarrow> dp_row \<Rightarrow> bool" where
  "still_valid env r \<longleftrightarrow> find_plugin (ge_registry env) (dp_plugin r) \<noteq> None \<and>
     violations (ge_registry env) (dp_plugin r) (Envelope (dp_payload r)) = []"

definition works :: "confirm_io \<Rightarrow> bool" where
  "works io \<longleftrightarrow> co_increment io = None \<and> co_consume io = None"

lemma token_update:
  assumes "find_row pid g = Some r" and "dp_id (f r) = pid" and "\<And>r. dp_id (f r) = dp_id r"
  shows "token_of pid (update_row pid f g) = (if dp_consumed (f r) then Spent else Live (dp_attempts (f r)))"
  by (simp add: token_of_def find_row_update [OF assms(3)] assms(1))

lemma token_log [simp]: "token_of pid (log_event e g) = token_of pid g"
  by (simp add: token_of_def)

lemma token_frames [simp]: "token_of pid (g\<lparr>g_frames := fs\<rparr>) = token_of pid g" "token_of pid (g\<lparr>g_backups := bs\<rparr>) = token_of pid g"
  by (simp_all add: token_of_def find_row_def)

lemma token_increment:
  assumes "find_row pid g = Some r" and "\<not> dp_consumed r"
  shows "\<exists>g'. increment_attempts None pid max_attempts g = (dp_attempts r + 1, g') \<and> g_frames g' = g_frames g \<and>
    token_of pid g' = (if dp_attempts r + 1 \<ge> 3 then Spent else Live (dp_attempts r + 1))"
  using assms token_update [OF assms(1), of "\<lambda>q. q\<lparr>dp_attempts := dp_attempts r + 1, dp_consumed := dp_consumed q \<or> dp_attempts r + 1 \<ge> max_attempts\<rparr>"]
    find_row_Some [OF assms(1)]
  by (simp add: increment_attempts_def Let_def max_attempts_def)

lemma token_consume:
  assumes "find_row pid g = Some r"
  shows "token_of pid (consume None pid g) = Spent"
  using token_update [OF assms, of "\<lambda>q. q\<lparr>dp_consumed := True\<rparr>"] find_row_Some [OF assms] by (simp add: consume_def)

lemma find_row_frames [simp]: "find_row pid (g\<lparr>g_frames := fs\<rparr>) = find_row pid g" "find_row pid (g\<lparr>g_backups := bs\<rparr>) = find_row pid g"
  by (simp_all add: find_row_def)

text \<open>What sending comes to, from the row on; the backup row is written or not.\<close>

definition sent_frame :: "dp_row \<Rightarrow> push_payload \<Rightarrow> frame" where
  "sent_frame r p = \<lparr>fr_node = dp_node r, fr_payload = p, fr_pending = Some (dp_id r)\<rparr>"

lemma finish_sending:
  assumes "find_row (dp_id r) g = Some r" and "\<not> dp_consumed r" and "works io" and "n \<ge> 2"
  shows "\<exists>g'. finish n io (Sending r p b, g) =
      (Answered (if co_send io = None then Confirmed (dp_plugin r) (dp_node r) else Node_Offline), g') \<and>
    token_of (dp_id r) g' = (if co_send io = None then Spent else Live (dp_attempts r)) \<and>
    g_frames g' = g_frames g @ (if co_send io = None then [sent_frame r p] else [])"
proof -
  obtain m where n: "n = Suc (Suc m)" using assms(4) by (metis Suc_le_D numeral_2_eq_2 Suc_le_mono)
  have answered: "finish m io (Answered x, g) = (Answered x, g)" for x g by (induction m) auto
  show ?thesis
  proof (cases "co_send io")
    case None
    then show ?thesis using assms(1-3) token_consume [of "dp_id r" "g\<lparr>g_frames := g_frames g @ [sent_frame r p]\<rparr>" r]
      by (simp add: n answered works_def sent_frame_def)
  next
    case (Some e)
    then show ?thesis using assms(1,2) by (simp add: n answered token_of_def)
  qed
qed


lemma prepare_sends:
  assumes "find_row (dp_id r) g = Some r" and "\<not> dp_consumed r" and "works io"
  shows "\<exists>g' p. finish 3 io (prepare m now r, g) =
      (Answered (if co_send io = None then Confirmed (dp_plugin r) (dp_node r) else Node_Offline), g') \<and>
    token_of (dp_id r) g' = (if co_send io = None then Spent else Live (dp_attempts r)) \<and>
    g_frames g' = g_frames g @ (if co_send io = None then [sent_frame r p] else []) \<and> strip p = strip (dp_payload r)"
proof (cases "pm_backup m")
  case None
  then show ?thesis using finish_sending [OF assms, of 3 "dp_payload r" "''''"] by (auto simp: prepare_def)
next
  case (Some spec)
  then obtain p b where ph: "prepare m now r = Recording r p b" "strip p = strip (dp_payload r)"
    by (simp add: prepare_def strip_def)
  show ?thesis
  proof (cases "co_backup io")
    case None
    then show ?thesis using ph finish_sending [of r "g\<lparr>g_backups := g_backups g @ [b]\<rparr>" io 2 p "br_id b"] assms
      by (auto simp: ph(1) numeral_3_eq_3 numeral_2_eq_2 simp del: finish.simps(1))
  next
    case (Some e)
    then show ?thesis using ph finish_sending [of r g io 2 p "''''"] assms
      by (auto simp: ph(1) numeral_3_eq_3 numeral_2_eq_2 simp del: finish.simps(1))
  qed
qed

lemma finish_answered: "finish n io (Answered x, g) = (Answered x, g)"
  by (induction n) auto

text \<open>C9. A confirmation that runs alone, on a working database, is exactly one step of the token: a wrong string costs one of three
  attempts and the third one ends it, the right string sends the staged content once when the node is connected, and nothing else
  does.\<close>

theorem confirm_token:
  assumes "find_row pid g = Some r" and "pid \<noteq> ''''" and "typed \<noteq> ''''" and "works io"
    and "confirm env None io now pid typed g = (ph, g')"
  shows "\<exists>x p. ph = Answered x \<and>
    (x, token_of pid g') = token_confirm (Confirmed (dp_plugin r) (dp_node r)) (now > dp_expires r * 1000000000) (typed = dp_challenge r)
      (still_valid env r) (co_send io = None) (token_of pid g) \<and>
    g_frames g' = g_frames g @ (if x = Confirmed (dp_plugin r) (dp_node r) then [sent_frame r p] else []) \<and>
    strip p = strip (dp_payload r)"
proof -
  have id: "dp_id r = pid" using find_row_Some [OF assms(1)] by simp
  have strip: "\<exists>p. strip p = strip (dp_payload r)" by blast
  have tok: "token_of pid g = (if dp_consumed r then Spent else Live (dp_attempts r))" by (simp add: token_of_def assms(1))
  consider "dp_consumed r" | "\<not> dp_consumed r" "now > dp_expires r * 1000000000"
    | "\<not> dp_consumed r" "\<not> now > dp_expires r * 1000000000" "typed \<noteq> dp_challenge r"
    | "\<not> dp_consumed r" "\<not> now > dp_expires r * 1000000000" "typed = dp_challenge r" "\<not> still_valid env r"
    | "\<not> dp_consumed r" "\<not> now > dp_expires r * 1000000000" "typed = dp_challenge r" "still_valid env r"
    by blast
  then show ?thesis
  proof cases
    case 1
    then have "ph = Answered Gone" "g' = g" using assms by (simp_all add: confirm_def load_def finish_answered)
    then show ?thesis using 1 strip by (simp add: tok token_confirm_def)
  next
    case 2
    then have "ph = Answered Expired" "g' = g" using assms by (simp_all add: confirm_def load_def finish_answered)
    then show ?thesis using 2 strip by (simp add: tok token_confirm_def)
  next
    case 3
    then have l: "load env None now pid typed g = Incrementing r" using assms by (simp add: load_def)
    obtain g1 where "increment_attempts None pid max_attempts g = (dp_attempts r + 1, g1)" "g_frames g1 = g_frames g"
        "token_of pid g1 = (if dp_attempts r + 1 \<ge> 3 then Spent else Live (dp_attempts r + 1))"
      using token_increment [OF assms(1) 3(1)] by blast
    then show ?thesis using 3 assms(4,5) strip
      by (auto simp: confirm_def l numeral_3_eq_3 works_def id Let_def max_attempts_def tok token_confirm_def split: if_splits)
  next
    case 4
    then have l: "load env None now pid typed g = Invalidating r" using assms by (auto simp: load_def still_valid_def split: option.split)
    then show ?thesis using 4 assms(4,5) strip token_consume [OF assms(1)]
      by (auto simp: confirm_def numeral_3_eq_3 works_def id tok token_confirm_def)
  next
    case 5
    then obtain m where l: "load env None now pid typed g = prepare m now r"
      using assms(1-3) by (auto simp: load_def still_valid_def split: option.split)
    obtain g1 p where "finish 3 io (prepare m now r, g) =
        (Answered (if co_send io = None then Confirmed (dp_plugin r) (dp_node r) else Node_Offline), g1)"
        "token_of pid g1 = (if co_send io = None then Spent else Live (dp_attempts r))"
        "g_frames g1 = g_frames g @ (if co_send io = None then [sent_frame r p] else [])" "strip p = strip (dp_payload r)"
      using prepare_sends [of r g io m now] assms(1,4) 5(1) unfolding id by blast
    then show ?thesis using 5 assms(5) [unfolded confirm_def l] by (auto simp: tok token_confirm_def)
  qed
qed


theorem confirm_token_witness:
  "\<exists>ph g'. confirm demo_env None \<lparr>co_increment = None, co_backup = None, co_send = None, co_consume = None\<rparr> 1 ''p1'' ''lab'' demo_staged =
     (ph, g') \<and> ph = Answered (Confirmed ''sssd'' ''n1'') \<and> token_of ''p1'' g' = Spent"
proof -
  let ?io = "\<lparr>co_increment = None, co_backup = None, co_send = None, co_consume = None\<rparr>"
  obtain ph g' where c: "confirm demo_env None ?io 1 ''p1'' ''lab'' demo_staged = (ph, g')" by (metis surj_pair)
  have r: "find_row ''p1'' demo_staged = Some demo_row" by (simp add: find_row_def demo_staged_def demo_row_def)
  have v: "still_valid demo_env demo_row"
    by (simp add: still_valid_def demo_env_def find_plugin_def demo_plugin_def demo_row_def violations_def)
  have "token_of ''p1'' demo_staged = Live 0" by (simp add: token_of_def r) (simp add: demo_row_def)
  with confirm_token [OF r _ _ _ c] v show ?thesis
    by (auto simp: c works_def token_confirm_def demo_row_def)
qed

lemma three_strikes:
  assumes "token_of pid g = Live 0"
  shows "snd (token_confirm x False False v o1 (snd (token_confirm x False False v o2 (snd (token_confirm x False False v o3 (token_of pid g)))))) = Spent"
  by (simp add: assms token_confirm_def)

section \<open>Confirmations that overlap\<close>

text \<open>A request that finds the row live and valid is about to send, whatever happens to the row meanwhile.\<close>

lemma load_sends:
  assumes "find_row pid g = Some r" and "pid \<noteq> ''''" and "dp_challenge r \<noteq> ''''" and "\<not> dp_consumed r"
    and "now \<le> dp_expires r * 1000000000" and "find_plugin (ge_registry env) (dp_plugin r) = Some p" and "pm_backup (pl_meta p) = None"
    and "violations (ge_registry env) (dp_plugin r) (Envelope (dp_payload r)) = []"
  shows "load env None now pid (dp_challenge r) g = Sending r (dp_payload r) ''''"
  using assms by (simp add: load_def prepare_def)

definition all_good :: confirm_io where
  "all_good = \<lparr>co_increment = None, co_backup = None, co_send = None, co_consume = None\<rparr>"

lemma all_good_sel [simp]: "co_increment all_good = None" "co_backup all_good = None" "co_send all_good = None" "co_consume all_good = None"
  by (simp_all add: all_good_def)

lemma send_step:
  assumes "gs_requests s k = Some (pid, typed, Sending r p b)" and "dp_id r = pid"
  shows "\<exists>s'. gate_step env s s' \<and> length (deliveries pid s') = length (deliveries pid s) + 1 \<and>
    (\<forall>j. j \<noteq> k \<longrightarrow> gs_requests s' j = gs_requests s j)"
proof -
  let ?g = "(gs_gate s)\<lparr>g_frames := g_frames (gs_gate s) @ [\<lparr>fr_node = dp_node r, fr_payload = p, fr_pending = Some (dp_id r)\<rparr>]\<rparr>"
  let ?s = "s\<lparr>gs_gate := ?g, gs_requests := (gs_requests s)(k \<mapsto> (pid, typed, Consuming r p b))\<rparr>"
  have "gate_step env s ?s"
    by (rule advance_confirm [OF assms(1), of all_good]) (simp_all add: is_answered_def)
  then show ?thesis by (intro exI [of _ ?s]) (simp add: deliveries_def assms(2))
qed

lemma double_delivery:
  assumes "find_row pid (gs_gate s) = Some r" and "load env None now pid (dp_challenge r) (gs_gate s) = Sending r p b"
    and "gs_requests s j = None" and "gs_requests s k = None" and "j \<noteq> k"
  shows "\<exists>s'. (gate_step env)\<^sup>*\<^sup>* s s' \<and> length (deliveries pid s') = length (deliveries pid s) + 2"
proof -
  have id: "dp_id r = pid" using find_row_Some [OF assms(1)] by simp
  let ?req = "(pid, dp_challenge r, Sending r p b)"
  let ?s1 = "s\<lparr>gs_requests := (gs_requests s)(j \<mapsto> ?req)\<rparr>"
  let ?s2 = "?s1\<lparr>gs_requests := (gs_requests ?s1)(k \<mapsto> ?req)\<rparr>"
  have 1: "gate_step env s ?s1" using begin_confirm [OF assms(3), of env pid "dp_challenge r" None now] by (simp add: assms(2))
  have 2: "gate_step env ?s1 ?s2" using begin_confirm [of ?s1 k env pid "dp_challenge r" None now] assms(4,5) by (simp add: assms(2))
  obtain s3 where 3: "gate_step env ?s2 s3" "length (deliveries pid s3) = length (deliveries pid ?s2) + 1"
      "gs_requests s3 j = Some ?req"
    using send_step [of ?s2 k pid "dp_challenge r" r p b env] id assms(5) by auto
  obtain s4 where 4: "gate_step env s3 s4" "length (deliveries pid s4) = length (deliveries pid s3) + 1"
    using send_step [OF 3(3) id] by blast
  have "(gate_step env)\<^sup>*\<^sup>* s s4" using 1 2 3(1) 4(1) by (meson rtranclp.rtrancl_into_rtrancl rtranclp.rtrancl_refl)
  moreover have "deliveries pid ?s2 = deliveries pid s" by (simp add: deliveries_def)
  ultimately show ?thesis using 3(2) 4(2) by (intro exI [of _ s4]) simp
qed

text \<open>A request that was loaded before the third strike delivers after the lock-out.\<close>

lemma delivery_after_lockout:
  assumes "gs_requests s k = Some (pid, dp_challenge r, Sending r p b)" and "dp_id r = pid" and "gs_requests s j = Some (pid, typed, Incrementing r)"
    and "find_row pid (gs_gate s) = Some q" and "dp_attempts q = 2" and "j \<noteq> k"
  shows "\<exists>s1 s2. gate_step env s s1 \<and> gs_requests s1 j = Some (pid, typed, Answered Locked_Out) \<and> gate_step env s1 s2 \<and>
    length (deliveries pid s2) = length (deliveries pid s) + 1"
proof -
  obtain n g where inc: "increment_attempts None pid max_attempts (gs_gate s) = (n, g)" by (metis surj_pair)
  then have n: "n = 3" using assms(4,5) by (auto simp: increment_attempts_def Let_def)
  let ?g = "log_event (Ev_Locked pid 3) g"
  let ?s1 = "s\<lparr>gs_gate := ?g, gs_requests := (gs_requests s)(j \<mapsto> (pid, typed, Answered Locked_Out))\<rparr>"
  have "advance all_good (Incrementing r) (gs_gate s) = (Answered Locked_Out, ?g)"
    using inc n assms(2) by (simp add: max_attempts_def)
  then have 1: "gate_step env s ?s1" by (rule advance_confirm [OF assms(3), rotated]) (simp add: is_answered_def)
  have frames: "deliveries pid ?s1 = deliveries pid s" using increment_frames [OF inc] by (simp add: deliveries_def)
  obtain s2 where "gate_step env ?s1 s2" "length (deliveries pid s2) = length (deliveries pid ?s1) + 1"
    using send_step [of ?s1 k pid "dp_challenge r" r p b env] assms(1,2,6) by auto
  then show ?thesis using 1 frames by (intro exI [of _ ?s1] exI [of _ s2]) simp
qed

text \<open>When the counter cannot be written, every wrong string is answered as if it were the first, for ever.\<close>

lemma failing_counter_never_locks:
  assumes "co_increment io = Some e"
  shows "advance io (Incrementing r) g = (Answered (Mismatch 3), log_event (Ev_Mismatch (dp_id r) 0 3) g)"
  using assms by (simp add: increment_attempts_def max_attempts_def)

text \<open>A backup is on record although the node was not connected.\<close>

lemma backup_recorded_without_delivery:
  assumes "co_backup io = None" and "co_send io = Some e"
  shows "finish 3 io (Recording r p b, g) = (Answered Node_Offline, g\<lparr>g_backups := g_backups g @ [b]\<rparr>)"
  using assms by (simp add: numeral_3_eq_3)

text \<open>The fan-out of the LDAP module delivers the configuration of \<open>sssd\<close> without a confirmation.\<close>

lemma ldap_push_bypasses_gate:
  "g_frames (snd (push_ldap_to_node sha (\<lambda>_. (None, Ack_Ok)) node ca sssd dropin g)) = g_frames g @
     map (\<lambda>(t, c). \<lparr>fr_node = node, fr_payload = plain_payload sha t c, fr_pending = None\<rparr>)
       [(''ldap-ca-cert'', ca), (''sssd'', sssd), (''sshd-ldap-keys'', dropin)]"
  by (simp add: push_ldap_to_node_def send_config_push_def send_frame_def)


section \<open>Janitor\<close>

text \<open>A sweep leaves exactly the rows that are neither consumed nor expired, reports exactly the expired ones that nobody confirmed, and
  what it takes as expired is refused by every confirmation from then on.\<close>

theorem sweep_exact:
  assumes "distinct (map dp_id (g_rows g))" and "g' = sweep None now g"
  shows "set (g_rows g') = {r \<in> set (g_rows g). \<not> dp_consumed r \<and> unix now \<le> dp_expires r} \<and>
    filter (\<lambda>e. \<exists>i. e = Ev_Expired i) (g_events g') = filter (\<lambda>e. \<exists>i. e = Ev_Expired i) (g_events g) @
      map (\<lambda>r. Ev_Expired (dp_id r)) (filter (\<lambda>r. \<not> dp_consumed r \<and> dp_expires r < unix now) (g_rows g)) \<and>
    (\<forall>r \<in> set (g_rows g) - set (g_rows g'). \<forall>later typed. \<not> dp_consumed r \<longrightarrow> now \<le> later \<longrightarrow> dp_id r \<noteq> '''' \<longrightarrow> typed \<noteq> '''' \<longrightarrow>
      load env None later (dp_id r) typed g = Answered Expired)"
proof (intro conjI ballI allI impI)
  show rows: "set (g_rows g') = {r \<in> set (g_rows g). \<not> dp_consumed r \<and> unix now \<le> dp_expires r}"
    by (auto simp: assms(2) sweep_rows stale_def)
  let ?ids = "map dp_id (filter (\<lambda>r. \<not> dp_consumed r \<and> dp_expires r < unix now) (g_rows g))"
  have events: "g_events (fold (\<lambda>i. log_event (Ev_Expired i)) is h) = g_events h @ map Ev_Expired is" for "is" h
    by (induction "is" arbitrary: h) (simp_all add: log_event_def)
  have none: "?ids = []" if "filter (stale (unix now)) (g_rows g) = []"
    using that by (auto simp: filter_empty_conv stale_def)
  show "filter (\<lambda>e. \<exists>i. e = Ev_Expired i) (g_events g') = filter (\<lambda>e. \<exists>i. e = Ev_Expired i) (g_events g) @
      map (\<lambda>r. Ev_Expired (dp_id r)) (filter (\<lambda>r. \<not> dp_consumed r \<and> dp_expires r < unix now) (g_rows g))"
    using none by (simp add: assms(2) sweep_def janitor_sweep_def Let_def log_event_def [of "Ev_Swept _ _"] events filter_map comp_def)
  fix r later and typed :: string
  assume r: "r \<in> set (g_rows g) - set (g_rows g')" "\<not> dp_consumed r" "now \<le> later" "dp_id r \<noteq> ''''" "typed \<noteq> ''''"
  then have "dp_expires r < unix now" unfolding rows by auto
  then have "dp_expires r * 1000000000 < later" using r(3) unfolding unix_def by linarith
  then show "load env None later (dp_id r) typed g = Answered Expired"
    using r find_row_unique [OF assms(1)] by (simp add: load_def)
qed

theorem sweep_exact_witness:
  "set (g_rows (sweep None 700000000000 demo_staged)) = {}"
proof -
  have d: "distinct (map dp_id (g_rows demo_staged))" and e: "{r \<in> set (g_rows demo_staged). \<not> dp_consumed r \<and> unix 700000000000 \<le> dp_expires r} = {}"
    by (auto simp: demo_staged_def demo_row_def unix_def)
  show ?thesis unfolding sweep_exact [OF d refl, THEN conjunct1] by (rule e)
qed

section \<open>From the server to the node\<close>

lemma checksum_valid: "validate_checksum sha content (checksum sha content)"
  by (simp add: validate_checksum_def checksum_def)

text \<open>A frame that the server has sent, in any reachable state, passes the check of the node, and when its target is on the white list and
  its content is not too large, a node on which nothing fails ends with exactly the staged or pushed content in the file.\<close>

theorem sent_frame_applies:
  assumes "(gate_step env)\<^sup>*\<^sup>* start s" and "f \<in> set (g_frames (gs_gate s))"
    and "config_targets (pp_target (fr_payload f)) = Some t" and "length (pp_content (fr_payload f)) \<le> max_config_size"
  shows "\<exists>fs'. apply_one ''/'' (ge_sha env) good_io (fr_payload f) fs = (None, fs') \<and>
    fs' (root_path ''/'' (tg_path t)) = Some (pp_content (fr_payload f), tg_mode t)"
proof -
  have ok: "sys_ok env s" using sys_ok_reach [OF assms(1) sys_ok_start] .
  have sum: "pp_checksum (fr_payload f) = checksum (ge_sha env) (pp_content (fr_payload f))"
  proof (cases "fr_pending f")
    case None
    then show ?thesis using sys_okD(7) [OF ok assms(2)] by (simp add: frame_ok_def)
  next
    case (Some pid)
    then obtain q where q: "q \<in> set (gs_issued s)" "strip (fr_payload f) = dp_payload q"
      using sys_okD(7) [OF ok assms(2)] by (auto simp: frame_ok_def)
    have "pp_checksum (strip (fr_payload f)) = checksum (ge_sha env) (pp_content (strip (fr_payload f)))"
      unfolding q(2) using sys_okD(5) [OF ok q(1)] by (simp add: issued_ok_def)
    then show ?thesis by (simp add: strip_def)
  qed
  show ?thesis using assms(3,4) checksum_valid [of "ge_sha env" "pp_content (fr_payload f)"]
    by (cases "fs (root_path ''/'' (tg_path t))")
      (auto simp: apply_one_def sum Let_def copy_file_def run_action_def action_ok_def split: option.split)
qed

theorem sent_frame_applies_witness:
  "\<exists>fs'. apply_one ''/'' (\<lambda>_. ''aa'') good_io (dp_payload demo_row) (\<lambda>_. None) = (None, fs') \<and>
     fs' ''/etc/sssd/sssd.conf'' = Some (''conf'', 384)"
proof -
  have "demo_frame \<in> set (g_frames (gs_gate demo_sent))" "config_targets (pp_target (fr_payload demo_frame)) =
      Some \<lparr>tg_path = ''etc/sssd/sssd.conf'', tg_mode = 384, tg_action = Some (Restart ''sssd'')\<rparr>"
      "length (pp_content (fr_payload demo_frame)) \<le> max_config_size"
    by (simp_all add: demo_sent_def demo_frame_def demo_row_def config_targets_def max_config_size_def)
  from sent_frame_applies [OF demo_reach this, of "\<lambda>_. None"] show ?thesis
    by (simp add: demo_env_def demo_frame_def root_path_def) (simp add: demo_row_def)
qed

end
