(* ===== verification/Clientd_Hub.thy ===== *)
theory Clientd_Hub
  imports Go_Prelude
begin

text \<open>
  The hub of the connections to the nodes (\<open>internal/server/clientdhub.go\<close>, the WebSocket and log handlers of
  \<open>internal/server/handlers/clientd.go\<close>, the push on connect of \<open>internal/ldap/manager.go\<close>). A connection has a goroutine that
  reads and one that writes; both are steps of a relation over the state of the hub, and so is everything that can come between
  the lookup of a connection and the use of its channel.
\<close>

section \<open>Ring of recent entries\<close>

definition journal_ring_size :: nat where
  "journal_ring_size = 500"

record 'e ring =
  ri_buf :: "'e list"
  ri_head :: nat
  ri_full :: bool

definition new_ring :: "'e \<Rightarrow> 'e ring" where
  "new_ring zero = \<lparr>ri_buf = replicate journal_ring_size zero, ri_head = 0, ri_full = False\<rparr>"

definition ring_push :: "'e \<Rightarrow> 'e ring \<Rightarrow> 'e ring" where
  "ring_push e r =
     (let h = (ri_head r + 1) mod journal_ring_size
      in \<lparr>ri_buf = (ri_buf r)[ri_head r := e], ri_head = h, ri_full = ri_full r \<or> h = 0\<rparr>)"

definition ring_snapshot :: "'e ring \<Rightarrow> 'e list" where
  "ring_snapshot r =
     (if \<not> ri_full r then take (ri_head r) (ri_buf r)
      else drop (ri_head r) (ri_buf r) @ take (ri_head r) (ri_buf r))"

text \<open>What a bounded log promises, whatever holds it: the newest entries in their order.\<close>

definition last_n :: "nat \<Rightarrow> 'e list \<Rightarrow> 'e list" where
  "last_n n xs = drop (length xs - n) xs"

lemma last_n_short [simp]: "length xs \<le> n \<Longrightarrow> last_n n xs = xs"
  by (simp add: last_n_def)

lemma last_n_append: "last_n n (last_n n xs @ ys) = last_n n (xs @ ys)"
  by (auto simp: last_n_def min_def not_le intro!: arg_cong2 [where f = append] arg_cong2 [where f = drop])

lemma last_n_snoc_full: "length xs = n \<Longrightarrow> 0 < n \<Longrightarrow> last_n n (xs @ [x]) = tl xs @ [x]"
  by (cases xs) (auto simp: last_n_def)

locale recent_log =
  fixes ok :: "'r \<Rightarrow> bool" and push :: "'e \<Rightarrow> 'r \<Rightarrow> 'r" and snapshot :: "'r \<Rightarrow> 'e list" and capacity :: nat
  assumes push_ok: "ok r \<Longrightarrow> ok (push e r)"
    and push_snapshot: "ok r \<Longrightarrow> snapshot (push e r) = last_n capacity (snapshot r @ [e])"
    and snapshot_short: "ok r \<Longrightarrow> length (snapshot r) \<le> capacity"
begin

lemma fold_ok: "ok r \<Longrightarrow> ok (fold push es r)"
  by (induction es arbitrary: r) (simp_all add: push_ok)

lemma fold_snapshot: "ok r \<Longrightarrow> snapshot (fold push es r) = last_n capacity (snapshot r @ es)"
proof (induction es arbitrary: r)
  case Nil
  then show ?case by (simp add: snapshot_short)
next
  case (Cons e es)
  from Cons.IH [OF push_ok [OF Cons.prems]] show ?case
    by (simp add: push_snapshot [OF Cons.prems] last_n_append)
qed

end

definition ring_ok :: "'e ring \<Rightarrow> bool" where
  "ring_ok r \<longleftrightarrow> length (ri_buf r) = journal_ring_size \<and> ri_head r < journal_ring_size"

lemma ring_size_pos [simp]: "0 < journal_ring_size"
  by (simp add: journal_ring_size_def)

lemma new_ring_ok: "ring_ok (new_ring z)" "ring_snapshot (new_ring z) = []"
  by (simp_all add: ring_ok_def new_ring_def ring_snapshot_def)

lemma ring_push_snapshot:
  assumes "ring_ok r"
  shows "ring_snapshot (ring_push e r) = last_n journal_ring_size (ring_snapshot r @ [e])"
proof -
  have head: "ri_head r < length (ri_buf r)" and len: "length (ri_buf r) = journal_ring_size"
    using assms by (simp_all add: ring_ok_def)
  have upd: "(ri_buf r)[ri_head r := e] = take (ri_head r) (ri_buf r) @ e # drop (Suc (ri_head r)) (ri_buf r)"
    using head by (rule upd_conv_take_nth_drop)
  have split: "drop (ri_head r) (ri_buf r) = ri_buf r ! ri_head r # drop (Suc (ri_head r)) (ri_buf r)"
    using head by (rule Cons_nth_drop_Suc [symmetric])
  show ?thesis
  proof (cases "Suc (ri_head r) = journal_ring_size")
    case True
    then have wrap: "Suc (ri_head r) mod journal_ring_size = 0" by simp
    show ?thesis
    proof (cases "ri_full r")
      case True
      have "length (ring_snapshot r) = journal_ring_size" using True head len by (simp add: ring_snapshot_def)
      then show ?thesis using \<open>Suc (ri_head r) = _\<close> len True
        by (simp add: last_n_snoc_full) (simp add: ring_snapshot_def ring_push_def wrap upd split)
    next
      case False
      then show ?thesis using \<open>Suc (ri_head r) = _\<close> len
        by (simp add: ring_snapshot_def ring_push_def wrap upd)
    qed
  next
    case False
    then have next_pos: "Suc (ri_head r) < journal_ring_size" using head len by simp
    then have step: "Suc (ri_head r) mod journal_ring_size = Suc (ri_head r)" by simp
    show ?thesis
    proof (cases "ri_full r")
      case True
      have "length (ring_snapshot r) = journal_ring_size" using True head len by (simp add: ring_snapshot_def)
      then show ?thesis using head len True
        by (simp add: last_n_snoc_full) (simp add: ring_snapshot_def ring_push_def step upd split)
    next
      case False
      then show ?thesis using next_pos len head by (simp add: ring_snapshot_def ring_push_def step upd)
    qed
  qed
qed

interpretation journal: recent_log ring_ok ring_push ring_snapshot journal_ring_size
  by unfold_locales
    (auto simp: ring_push_snapshot, auto simp: ring_ok_def ring_push_def ring_snapshot_def Let_def)


section \<open>Batches of log entries\<close>

record log_entry =
  le_id :: string
  le_mac :: string
  le_hostname :: string
  le_level :: string
  le_component :: string
  le_phase :: string
  le_fields :: string
  le_time :: "int option"
  le_message :: string

definition zero_entry :: log_entry where
  "zero_entry = \<lparr>le_id = '''', le_mac = '''', le_hostname = '''', le_level = '''', le_component = '''', le_phase = '''', le_fields = '''',
     le_time = None, le_message = ''''\<rparr>"

type_synonym journals = "string \<Rightarrow> log_entry ring option"

definition journal_for :: "string \<Rightarrow> journals \<Rightarrow> log_entry ring" where
  "journal_for node js = (case js node of Some r \<Rightarrow> r | None \<Rightarrow> new_ring zero_entry)"

definition append_entries :: "string \<Rightarrow> log_entry list \<Rightarrow> journals \<Rightarrow> journals" where
  "append_entries node es js = js(node \<mapsto> fold ring_push es (journal_for node js))"

definition journal_snapshot :: "string \<Rightarrow> journals \<Rightarrow> log_entry list" where
  "journal_snapshot node js = (case js node of None \<Rightarrow> [] | Some r \<Rightarrow> ring_snapshot r)"

text \<open>Missing fields are filled in; \<open>ids\<close> are the new identifiers, one for each entry.\<close>

definition stamp_entry :: "string \<Rightarrow> int \<Rightarrow> string \<Rightarrow> log_entry \<Rightarrow> log_entry" where
  "stamp_entry mac now new_id e =
     (let e = (if le_mac e = '''' \<and> mac \<noteq> '''' then e\<lparr>le_mac := mac\<rparr> else e);
          e = (if le_id e = '''' then e\<lparr>le_id := new_id\<rparr> else e)
      in (if le_time e = None then e\<lparr>le_time := Some now\<rparr> else e))"

text \<open>
  The handler of a batch: nothing for a batch that does not parse or is empty; \<open>mac\<close> is the lookup of the node, \<open>insert_ok\<close> the answer
  of the insert of the whole batch. The result is what is published.
\<close>

definition handle_log_batch :: "string option \<Rightarrow> bool \<Rightarrow> int \<Rightarrow> (nat \<Rightarrow> string) \<Rightarrow> string \<Rightarrow> log_entry list option \<Rightarrow> journals \<Rightarrow>
    log_entry list \<times> journals" where
  "handle_log_batch mac insert_ok now ids node batch js =
     (case batch of
        None \<Rightarrow> ([], js)
      | Some es \<Rightarrow>
          (let es = map (\<lambda>(i, e). stamp_entry (case mac of None \<Rightarrow> '''' | Some m \<Rightarrow> m) now (ids i) e) (enumerate 0 es) in
           if es = [] \<or> \<not> insert_ok then ([], js) else (es, append_entries node es js)))"

section \<open>Registries of awaited results\<close>

text \<open>
  The seven registries of the hub have one shape: a result is awaited on a channel of capacity one that is found by the id of the message.
\<close>

type_synonym 'a registry = "string \<Rightarrow> 'a option option"

definition register_wait :: "string \<Rightarrow> 'a registry \<Rightarrow> 'a registry" where
  "register_wait m reg = reg(m \<mapsto> None)"

definition unregister_wait :: "string \<Rightarrow> 'a registry \<Rightarrow> 'a registry" where
  "unregister_wait m reg = reg(m := None)"

definition deliver_result :: "string \<Rightarrow> 'a \<Rightarrow> 'a registry \<Rightarrow> bool \<times> 'a registry" where
  "deliver_result m p reg = (case reg m of Some None \<Rightarrow> (True, reg(m \<mapsto> Some p)) | _ \<Rightarrow> (False, reg))"

section \<open>Connections\<close>

record ack =
  ak_ref :: string
  ak_ok :: bool

text \<open>
  Where the goroutine that reads stands. \<open>Awaiting m t n\<close> is the handler of a hello that has pushed the message \<open>m\<close> to the connection
  \<open>t\<close>, waits for its acknowledgement and has \<open>n\<close> files to push after it.
\<close>

datatype reader = Reading | Awaiting string nat nat | Draining | Gone

text \<open>A message is known by its id. \<open>se_accepted\<close> remembers what was put into the channel; \<open>se_wire\<close> is what was written.\<close>

record session =
  se_node :: string
  se_queue :: "string list"
  se_accepted :: "string list"
  se_wire :: "string list"
  se_canceled :: bool
  se_closed :: bool
  se_writer :: bool
  se_reader :: reader

definition send_capacity :: nat where
  "send_capacity = 64"

definition new_session :: "string \<Rightarrow> session" where
  "new_session node = \<lparr>se_node = node, se_queue = [], se_accepted = [], se_wire = [], se_canceled = False, se_closed = False,
     se_writer = True, se_reader = Reading\<rparr>"

text \<open>\<open>hb_sends\<close> are the calls of \<open>Send\<close> between the lookup and the channel; \<open>hb_owner\<close> remembers
  who has drawn an id: a request, or the reader of a connection; ids are new UUIDs.\<close>

datatype owner = Request | Reader nat

record hub =
  hb_conns :: "string \<Rightarrow> nat option"
  hb_sessions :: "nat \<Rightarrow> session option"
  hb_acks :: "ack registry"
  hb_sends :: "(nat \<times> string) list"
  hb_owner :: "string \<Rightarrow> owner option"

definition new_hub :: hub where
  "new_hub = \<lparr>hb_conns = (\<lambda>_. None), hb_sessions = (\<lambda>_. None), hb_acks = (\<lambda>_. None), hb_sends = [], hb_owner = (\<lambda>_. None)\<rparr>"

definition upd_session :: "nat \<Rightarrow> (session \<Rightarrow> session) \<Rightarrow> hub \<Rightarrow> hub" where
  "upd_session s f h = h\<lparr>hb_sessions := (hb_sessions h)(s := map_option f (hb_sessions h s))\<rparr>"

definition register_conn :: "string \<Rightarrow> nat \<Rightarrow> hub \<Rightarrow> hub" where
  "register_conn node s h =
     (let h = (case hb_conns h node of
                 None \<Rightarrow> h
               | Some old \<Rightarrow> upd_session old (\<lambda>se. se\<lparr>se_canceled := True, se_closed := True\<rparr>) h)
      in h\<lparr>hb_conns := (hb_conns h)(node \<mapsto> s), hb_sessions := (hb_sessions h)(s \<mapsto> new_session node)\<rparr>)"

definition unregister :: "string \<Rightarrow> hub \<Rightarrow> hub" where
  "unregister node h = h\<lparr>hb_conns := (hb_conns h)(node := None)\<rparr>"

definition is_connected :: "hub \<Rightarrow> string \<Rightarrow> bool" where
  "is_connected h node \<longleftrightarrow> hb_conns h node \<noteq> None"

text \<open>The second half of \<open>Send\<close>: the channel that was looked up takes the message unless it is full.\<close>

definition enqueue :: "nat \<Rightarrow> string \<Rightarrow> hub \<Rightarrow> bool \<times> hub" where
  "enqueue s m h =
     (case hb_sessions h s of
        None \<Rightarrow> (False, h)
      | Some se \<Rightarrow>
          if length (se_queue se) < send_capacity
          then (True, upd_session s (\<lambda>se. se\<lparr>se_queue := se_queue se @ [m], se_accepted := se_accepted se @ [m]\<rparr>) h)
          else (False, h))"

definition hub_send :: "string \<Rightarrow> string \<Rightarrow> hub \<Rightarrow> bool \<times> hub" where
  "hub_send node m h = (case hb_conns h node of None \<Rightarrow> (False, h) | Some s \<Rightarrow> enqueue s m h)"


section \<open>Steps\<close>

text \<open>One push of a hello: the wait is registered, the message sent; when it cannot be sent the handler returns.\<close>

definition push_await :: "nat \<Rightarrow> string \<Rightarrow> string \<Rightarrow> nat \<Rightarrow> hub \<Rightarrow> hub" where
  "push_await s node m n h =
     (let h' = h\<lparr>hb_acks := register_wait m (hb_acks h), hb_owner := (hb_owner h)(m \<mapsto> Reader s)\<rparr> in
      case hub_send node m h' of
        (True, h'') \<Rightarrow> upd_session s (\<lambda>se. se\<lparr>se_reader := Awaiting m (the (hb_conns h node)) n\<rparr>) h''
      | (False, h'') \<Rightarrow> upd_session s (\<lambda>se. se\<lparr>se_reader := Reading\<rparr>) (h''\<lparr>hb_acks := unregister_wait m (hb_acks h'')\<rparr>))"

datatype label = Connect string nat | Lookup string | Enqueue | Write nat | Write_Error nat | Writer_End nat | Receive nat ack
  | Read_Error nat | Hello nat | Acked nat | Timed_Out nat | Done_Waiting string | Finish nat

inductive hub_step :: "label \<Rightarrow> hub \<Rightarrow> hub \<Rightarrow> bool" where
  connect: "hb_sessions h s = None \<Longrightarrow> hub_step (Connect node s) h (register_conn node s h)"
| lookup: "hb_owner h m = None \<Longrightarrow> hb_conns h node = Some s \<Longrightarrow>
     hub_step (Lookup m) h (h\<lparr>hb_acks := (if wait then register_wait m (hb_acks h) else hb_acks h), hb_owner := (hb_owner h)(m \<mapsto> Request),
       hb_sends := hb_sends h @ [(s, m)]\<rparr>)"
| enqueue: "hb_sends h = xs @ (s, m) # ys \<Longrightarrow> hub_step Enqueue h (snd (enqueue s m (h\<lparr>hb_sends := xs @ ys\<rparr>)))"
| written: "hb_sessions h s = Some se \<Longrightarrow> se_writer se \<Longrightarrow> \<not> se_closed se \<Longrightarrow> se_queue se = m # q \<Longrightarrow>
     hub_step (Write s) h (upd_session s (\<lambda>se. se\<lparr>se_queue := q, se_wire := se_wire se @ [m]\<rparr>) h)"
| write_error: "hb_sessions h s = Some se \<Longrightarrow> se_writer se \<Longrightarrow> q = se_queue se \<or> q = tl (se_queue se) \<Longrightarrow>
     hub_step (Write_Error s) h (upd_session s (\<lambda>se. se\<lparr>se_queue := q, se_canceled := True, se_writer := False\<rparr>) h)"
| writer_end: "hb_sessions h s = Some se \<Longrightarrow> se_canceled se \<Longrightarrow>
     hub_step (Writer_End s) h (upd_session s (\<lambda>se. se\<lparr>se_writer := False\<rparr>) h)"
| receive: "hb_sessions h s = Some se \<Longrightarrow> se_reader se = Reading \<Longrightarrow> \<not> se_closed se \<Longrightarrow> ak_ref a \<in> set (se_wire se) \<Longrightarrow>
     hub_step (Receive s a) h (h\<lparr>hb_acks := snd (deliver_result (ak_ref a) a (hb_acks h))\<rparr>)"
| read_error: "hb_sessions h s = Some se \<Longrightarrow> se_reader se = Reading \<Longrightarrow>
     hub_step (Read_Error s) h (upd_session s (\<lambda>se. se\<lparr>se_reader := Draining, se_canceled := True\<rparr>) h)"
| hello: "hb_sessions h s = Some se \<Longrightarrow> se_reader se = Reading \<Longrightarrow> \<not> se_closed se \<Longrightarrow> is_connected h (se_node se) \<Longrightarrow>
     hb_owner h m = None \<Longrightarrow> hub_step (Hello s) h (push_await s (se_node se) m 2 h)"
| acked_next: "hb_sessions h s = Some se \<Longrightarrow> se_reader se = Awaiting m t (Suc n) \<Longrightarrow> hb_acks h m = Some (Some a) \<Longrightarrow> ak_ok a \<Longrightarrow>
     hb_owner h m' = None \<Longrightarrow>
     hub_step (Acked s) h (push_await s (se_node se) m' n (h\<lparr>hb_acks := unregister_wait m (hb_acks h)\<rparr>))"
| acked_last: "hb_sessions h s = Some se \<Longrightarrow> se_reader se = Awaiting m t n \<Longrightarrow> hb_acks h m = Some (Some a) \<Longrightarrow> n = 0 \<or> \<not> ak_ok a \<Longrightarrow>
     hub_step (Acked s) h (upd_session s (\<lambda>se. se\<lparr>se_reader := Reading\<rparr>) (h\<lparr>hb_acks := unregister_wait m (hb_acks h)\<rparr>))"
| timed_out: "hb_sessions h s = Some se \<Longrightarrow> se_reader se = Awaiting m t n \<Longrightarrow>
     hub_step (Timed_Out s) h (upd_session s (\<lambda>se. se\<lparr>se_reader := Reading\<rparr>) (h\<lparr>hb_acks := unregister_wait m (hb_acks h)\<rparr>))"
| done_waiting: "hb_owner h m = Some Request \<Longrightarrow>
     hub_step (Done_Waiting m) h (h\<lparr>hb_acks := unregister_wait m (hb_acks h)\<rparr>)"
| finish: "hb_sessions h s = Some se \<Longrightarrow> se_reader se = Draining \<Longrightarrow> \<not> se_writer se \<Longrightarrow>
     hub_step (Finish s) h (unregister (se_node se) (upd_session s (\<lambda>se. se\<lparr>se_reader := Gone, se_closed := True\<rparr>) h))"

definition hub_reach :: "hub \<Rightarrow> hub \<Rightarrow> bool" where
  "hub_reach = (\<lambda>h h'. \<exists>l. hub_step l h h')\<^sup>*\<^sup>*"

section \<open>Invariant of the hub\<close>

definition session_ok :: "session \<Rightarrow> bool" where
  "session_ok se \<longleftrightarrow> prefix (se_wire se) (se_accepted se) \<and> (se_writer se \<longrightarrow> se_accepted se = se_wire se @ se_queue se) \<and>
     length (se_queue se) \<le> send_capacity"

definition ids_ok :: "hub \<Rightarrow> bool" where
  "ids_ok h \<longleftrightarrow>
     (\<forall>s se m. hb_sessions h s = Some se \<longrightarrow> m \<in> set (se_accepted se) \<longrightarrow> hb_owner h m \<noteq> None) \<and>
     (\<forall>s m. (s, m) \<in> set (hb_sends h) \<longrightarrow> hb_owner h m = Some Request) \<and>
     (\<forall>m. hb_acks h m \<noteq> None \<longrightarrow> hb_owner h m \<noteq> None)"

definition awaiting_ok :: "hub \<Rightarrow> bool" where
  "awaiting_ok h \<longleftrightarrow>
     (\<forall>s se m t n. hb_sessions h s = Some se \<longrightarrow> se_reader se = Awaiting m t n \<longrightarrow>
        hb_owner h m = Some (Reader s) \<and>
        (\<forall>t' se'. hb_sessions h t' = Some se' \<longrightarrow> m \<in> set (se_accepted se') \<longrightarrow> t' = t) \<and>
        (t = s \<longrightarrow> hb_acks h m = Some None))"

definition conns_ok :: "hub \<Rightarrow> bool" where
  "conns_ok h \<longleftrightarrow>
     (\<forall>n s. hb_conns h n = Some s \<longrightarrow> (\<exists>se. hb_sessions h s = Some se \<and> se_node se = n \<and> se_reader se \<noteq> Gone))"

definition hub_ok :: "hub \<Rightarrow> bool" where
  "hub_ok h \<longleftrightarrow> conns_ok h \<and> (\<forall>s se. hb_sessions h s = Some se \<longrightarrow> session_ok se) \<and> ids_ok h \<and> awaiting_ok h"


lemma upd_session_sel [simp]:
  "hb_conns (upd_session s f h) = hb_conns h" "hb_acks (upd_session s f h) = hb_acks h"
  "hb_sends (upd_session s f h) = hb_sends h" "hb_owner (upd_session s f h) = hb_owner h"
  "hb_sessions (upd_session s f h) t = (if t = s then map_option f (hb_sessions h s) else hb_sessions h t)"
  by (simp_all add: upd_session_def)

lemma conns_ok_mono:
  assumes "conns_ok h" and "\<And>n s. hb_conns h' n = Some s \<Longrightarrow> hb_conns h n = Some s"
    and "\<And>s se. hb_sessions h s = Some se \<Longrightarrow> \<exists>n. hb_conns h' n = Some s \<Longrightarrow>
      \<exists>se'. hb_sessions h' s = Some se' \<and> se_node se' = se_node se \<and> (se_reader se \<noteq> Gone \<longrightarrow> se_reader se' \<noteq> Gone)"
  shows "conns_ok h'"
  unfolding conns_ok_def
proof (intro allI impI)
  fix n s assume c: "hb_conns h' n = Some s"
  from assms(2) [OF c] assms(1) obtain se where se: "hb_sessions h s = Some se" "se_node se = n" "se_reader se \<noteq> Gone"
    by (auto simp: conns_ok_def)
  from assms(3) [OF se(1)] c se(2,3) show "\<exists>se. hb_sessions h' s = Some se \<and> se_node se = n \<and> se_reader se \<noteq> Gone" by blast
qed

lemma awaiting_okD:
  assumes "awaiting_ok h" and "hb_sessions h s = Some se" and "se_reader se = Awaiting m t n"
  shows "hb_owner h m = Some (Reader s)" "\<And>t' se'. hb_sessions h t' = Some se' \<Longrightarrow> m \<in> set (se_accepted se') \<Longrightarrow> t' = t"
    "t = s \<Longrightarrow> hb_acks h m = Some None"
  using assms unfolding awaiting_ok_def by blast+

lemma awaiting_ok_mono:
  assumes "awaiting_ok h" and "\<And>m s. hb_owner h m = Some (Reader s) \<Longrightarrow> hb_owner h' m = Some (Reader s)"
    and "\<And>s se'. hb_sessions h' s = Some se' \<Longrightarrow>
      (\<exists>se. hb_sessions h s = Some se \<and> (\<forall>m \<in> set (se_accepted se'). m \<in> set (se_accepted se) \<or> hb_owner h' m = Some Request) \<and>
        (se_reader se' = se_reader se \<or> (\<forall>m t n. se_reader se' \<noteq> Awaiting m t n))) \<or>
      se_accepted se' = [] \<and> se_reader se' = Reading"
    and "\<And>s se m n. hb_sessions h s = Some se \<Longrightarrow> se_reader se = Awaiting m s n \<Longrightarrow> hb_acks h m = Some None \<Longrightarrow>
      \<exists>se'. hb_sessions h' s = Some se' \<and> se_reader se' = Awaiting m s n \<Longrightarrow> hb_acks h' m = Some None"
  shows "awaiting_ok h'"
  unfolding awaiting_ok_def
proof (intro allI impI)
  fix s se' m t n assume se': "hb_sessions h' s = Some se'" "se_reader se' = Awaiting m t n"
  from assms(3) [OF se'(1)] se'(2) obtain se where se: "hb_sessions h s = Some se" "se_reader se = Awaiting m t n" by auto
  note here = awaiting_okD [OF assms(1) se]
  have "t' = t" if u: "hb_sessions h' t' = Some u" "m \<in> set (se_accepted u)" for t' u
    using assms(3) [OF u(1)]
  proof
    assume "\<exists>se. hb_sessions h t' = Some se \<and> (\<forall>m \<in> set (se_accepted u). m \<in> set (se_accepted se) \<or> hb_owner h' m = Some Request) \<and>
        (se_reader u = se_reader se \<or> (\<forall>m t n. se_reader u \<noteq> Awaiting m t n))"
    then obtain se' where "hb_sessions h t' = Some se'" "m \<in> set (se_accepted se') \<or> hb_owner h' m = Some Request" using u(2) by blast
    then show ?thesis using here(2) assms(2) [OF here(1)] by auto
  qed (use u(2) in simp)
  moreover have "hb_acks h' m = Some None" if "t = s"
    by (rule assms(4) [OF se(1)]) (use se se' here(3) that in auto)
  ultimately show "hb_owner h' m = Some (Reader s) \<and>
      (\<forall>t' se'. hb_sessions h' t' = Some se' \<longrightarrow> m \<in> set (se_accepted se') \<longrightarrow> t' = t) \<and> (t = s \<longrightarrow> hb_acks h' m = Some None)"
    using assms(2) [OF here(1)] by blast
qed

lemma hub_okD:
  assumes "hub_ok h"
  shows "conns_ok h" "\<And>s se. hb_sessions h s = Some se \<Longrightarrow> session_ok se" "ids_ok h" "awaiting_ok h"
  using assms by (simp_all add: hub_ok_def)

lemma ids_okD:
  assumes "ids_ok h"
  shows "\<And>s se m. hb_sessions h s = Some se \<Longrightarrow> m \<in> set (se_accepted se) \<Longrightarrow> hb_owner h m \<noteq> None"
    "\<And>s m. (s, m) \<in> set (hb_sends h) \<Longrightarrow> hb_owner h m = Some Request" "\<And>m. hb_acks h m \<noteq> None \<Longrightarrow> hb_owner h m \<noteq> None"
  using assms unfolding ids_ok_def by blast+

text \<open>A change of one session that keeps its messages and its place.\<close>

lemma hub_ok_upd:
  assumes "hub_ok h"
    and "\<And>se. hb_sessions h s = Some se \<Longrightarrow> session_ok se \<Longrightarrow> session_ok (f se) \<and> se_node (f se) = se_node se \<and> se_accepted (f se) = se_accepted se \<and>
      (se_reader (f se) = se_reader se \<or> se_reader (f se) = Reading \<or> se_reader (f se) = Draining)"
  shows "hub_ok (upd_session s f h)"
proof -
  note ok = hub_okD [OF assms(1)]
  let ?h = "upd_session s f h"
  have keep: "session_ok (f se) \<and> se_node (f se) = se_node se \<and> se_accepted (f se) = se_accepted se \<and>
      (se_reader (f se) = se_reader se \<or> se_reader (f se) = Reading \<or> se_reader (f se) = Draining)"
    if "hb_sessions h s = Some se" for se by (rule assms(2) [OF that ok(2) [OF that]])
  have "conns_ok ?h"
    by (rule conns_ok_mono [OF ok(1)]) (use keep in fastforce)+
  moreover have "session_ok se" if "hb_sessions ?h t = Some se" for t se
    using that keep ok(2) by (auto split: if_splits)
  moreover have "hb_owner h m \<noteq> None" if "hb_sessions ?h t = Some se" "m \<in> set (se_accepted se)" for t se m
    using that keep ids_okD(1) [OF ok(3)] by (auto split: if_splits)
  then have "ids_ok ?h" using ids_okD(2,3) [OF ok(3)] by (simp add: ids_ok_def del: upd_session_sel(5))
  moreover have "awaiting_ok ?h"
  proof (rule awaiting_ok_mono [OF ok(4)])
    fix t se' assume t: "hb_sessions ?h t = Some se'"
    show "(\<exists>se. hb_sessions h t = Some se \<and> (\<forall>m \<in> set (se_accepted se'). m \<in> set (se_accepted se) \<or> hb_owner ?h m = Some Request) \<and>
        (se_reader se' = se_reader se \<or> (\<forall>m t n. se_reader se' \<noteq> Awaiting m t n))) \<or> se_accepted se' = [] \<and> se_reader se' = Reading"
    proof (cases "t = s")
      case True
      with t obtain se where se: "hb_sessions h s = Some se" "se' = f se" by auto
      show ?thesis using keep [OF se(1)] se True by auto
    qed (use t in auto)
  qed auto
  ultimately show ?thesis by (simp add: hub_ok_def del: upd_session_sel(5))
qed

text \<open>Taking an entry out of the registry, and drawing an id.\<close>

lemma hub_ok_unwait:
  assumes "hub_ok h" and "\<And>s se n. hb_sessions h s = Some se \<Longrightarrow> se_reader se \<noteq> Awaiting m s n"
  shows "hub_ok (h\<lparr>hb_acks := unregister_wait m (hb_acks h)\<rparr>)"
proof -
  note ok = hub_okD [OF assms(1)]
  have "awaiting_ok (h\<lparr>hb_acks := unregister_wait m (hb_acks h)\<rparr>)"
    by (rule awaiting_ok_mono [OF ok(4)]) (use assms(2) in \<open>auto simp: unregister_wait_def\<close>)
  then show ?thesis using ok by (auto simp: hub_ok_def conns_ok_def ids_ok_def unregister_wait_def)
qed


lemma conns_ok_irrelevant [simp]: "conns_ok (h\<lparr>hb_sends := xs\<rparr>) = conns_ok h" "conns_ok (h\<lparr>hb_acks := a\<rparr>) = conns_ok h"
  "conns_ok (h\<lparr>hb_owner := w\<rparr>) = conns_ok h" "awaiting_ok (h\<lparr>hb_sends := xs\<rparr>) = awaiting_ok h"
  by (simp_all add: conns_ok_def awaiting_ok_def)

lemma hub_sel_commute: "upd_session s f (h\<lparr>hb_acks := a\<rparr>) = (upd_session s f h)\<lparr>hb_acks := a\<rparr>"
  by (simp add: upd_session_def)

lemma hub_ok_draw:
  assumes "hub_ok h" and "hb_owner h m = None"
  shows "hub_ok (h\<lparr>hb_acks := (if w then register_wait m (hb_acks h) else hb_acks h), hb_owner := (hb_owner h)(m \<mapsto> own)\<rparr>)"
    (is "hub_ok ?h")
proof -
  note ok = hub_okD [OF assms(1)]
  have other: "x \<noteq> m" if "hb_owner h x = Some (Reader s)" for x s using that assms(2) by auto
  have "awaiting_ok ?h"
  proof (rule awaiting_ok_mono [OF ok(4)])
    fix x s se n assume "hb_sessions h s = Some se" "se_reader se = Awaiting x s n" "hb_acks h x = Some None"
    then show "hb_acks ?h x = Some None" using other [OF awaiting_okD(1) [OF ok(4)]] by (auto simp: register_wait_def)
  qed (use other in auto)
  moreover have "ids_ok ?h"
    using ids_okD [OF ok(3)] assms(2) unfolding ids_ok_def by (auto simp: register_wait_def)
  ultimately show ?thesis using ok(1,2) by (simp add: hub_ok_def)
qed

lemma not_awaited:
  assumes "hub_ok h" and "hb_owner h m = None \<or> hb_owner h m = Some Request"
  shows "hb_sessions h s = Some se \<Longrightarrow> se_reader se \<noteq> Awaiting m t n"
  using awaiting_okD(1) [OF hub_okD(4) [OF assms(1)]] assms(2) by fastforce

lemma hub_ok_sends:
  assumes "hub_ok h" and "\<And>s m. (s, m) \<in> set xs \<Longrightarrow> hb_owner h m = Some Request"
  shows "hub_ok (h\<lparr>hb_sends := xs\<rparr>)"
proof -
  note ok = hub_okD [OF assms(1)]
  have "ids_ok (h\<lparr>hb_sends := xs\<rparr>)"
    unfolding ids_ok_def
  proof (intro conjI allI impI)
    show "hb_owner (h\<lparr>hb_sends := xs\<rparr>) m \<noteq> None" if "hb_sessions (h\<lparr>hb_sends := xs\<rparr>) s = Some se" "m \<in> set (se_accepted se)" for s se m
      using ids_okD(1) [OF ok(3), of s se m] that by simp
    show "hb_owner (h\<lparr>hb_sends := xs\<rparr>) m \<noteq> None" if "hb_acks (h\<lparr>hb_sends := xs\<rparr>) m \<noteq> None" for m
      using ids_okD(3) [OF ok(3), of m] that by simp
  qed (use assms(2) in simp)
  then show ?thesis using ok(1,2,4) by (simp add: hub_ok_def)
qed

lemma hub_ok_lookup:
  assumes "hub_ok h" and "hb_owner h m = None"
  shows "hub_ok (h\<lparr>hb_acks := (if w then register_wait m (hb_acks h) else hb_acks h), hb_owner := (hb_owner h)(m \<mapsto> Request),
    hb_sends := hb_sends h @ [(s, m)]\<rparr>)"
proof -
  let ?h = "h\<lparr>hb_acks := (if w then register_wait m (hb_acks h) else hb_acks h), hb_owner := (hb_owner h)(m \<mapsto> Request)\<rparr>"
  have "hub_ok (?h\<lparr>hb_sends := hb_sends h @ [(s, m)]\<rparr>)"
    by (rule hub_ok_sends [OF hub_ok_draw [OF assms]]) (use ids_okD(2) [OF hub_okD(3) [OF assms(1)]] in auto)
  then show ?thesis by simp
qed

text \<open>A message goes into a channel: one of a request, or the first one with its id.\<close>

definition accept_message :: "string \<Rightarrow> session \<Rightarrow> session" where
  "accept_message m se = se\<lparr>se_queue := se_queue se @ [m], se_accepted := se_accepted se @ [m]\<rparr>"

lemma accept_sel [simp]: "se_node (accept_message m se) = se_node se" "se_reader (accept_message m se) = se_reader se"
  "se_accepted (accept_message m se) = se_accepted se @ [m]"
  by (simp_all add: accept_message_def)

lemma enqueue_cases:
  assumes "enqueue s m h = (b, h')"
  obtains "\<not> b" "h' = h" | se where "b" "hb_sessions h s = Some se" "length (se_queue se) < send_capacity"
    "h' = upd_session s (accept_message m) h"
  using assms by (auto simp: enqueue_def accept_message_def [abs_def] split: option.splits if_splits)

lemma accept_ok:
  assumes "hub_ok h"
    and "hb_sessions h s = Some se" and "length (se_queue se) < send_capacity"
  shows "conns_ok (upd_session s (accept_message m) h)"
    and "hb_sessions (upd_session s (accept_message m) h) t = Some se' \<Longrightarrow> session_ok se'"
proof -
  show "conns_ok (upd_session s (accept_message m) h)" by (rule conns_ok_mono [OF hub_okD(1) [OF assms(1)]]) auto
  have "session_ok (accept_message m se)" using hub_okD(2) [OF assms(1,2)] assms(3)
    by (auto simp: session_ok_def accept_message_def intro: prefix_order.trans)
  then show "hb_sessions (upd_session s (accept_message m) h) t = Some se' \<Longrightarrow> session_ok se'"
    using hub_okD(2) [OF assms(1)] assms(2) by (auto split: if_splits)
qed

lemma hub_ok_accept:
  assumes "hub_ok h" and "hb_owner h m = Some Request" and "enqueue s m h = (b, h')"
  shows "hub_ok h'"
  using assms(3)
proof (cases rule: enqueue_cases)
  case (2 se)
  let ?h = "upd_session s (accept_message m) h"
  note ok = hub_okD [OF assms(1)]
  have "hb_owner h x \<noteq> None" if "hb_sessions ?h t = Some u" "x \<in> set (se_accepted u)" for t u x
    using that ids_okD(1) [OF ok(3)] assms(2) 2(2) by (auto split: if_splits)
  then have "ids_ok ?h" using ids_okD(2,3) [OF ok(3)] by (simp add: ids_ok_def del: upd_session_sel(5))
  moreover have "awaiting_ok ?h"
  proof (rule awaiting_ok_mono [OF ok(4)])
    fix t se' assume "hb_sessions ?h t = Some se'"
    then show "(\<exists>se. hb_sessions h t = Some se \<and> (\<forall>x \<in> set (se_accepted se'). x \<in> set (se_accepted se) \<or> hb_owner ?h x = Some Request) \<and>
        (se_reader se' = se_reader se \<or> (\<forall>m t n. se_reader se' \<noteq> Awaiting m t n))) \<or> se_accepted se' = [] \<and> se_reader se' = Reading"
      using 2(2) assms(2) by (auto split: if_splits)
  qed auto
  ultimately show ?thesis using accept_ok [OF assms(1) 2(2,3), where m = m] unfolding 2(4) hub_ok_def by blast
qed (use assms(1) in simp)


lemma hub_ok_acks:
  assumes "hub_ok h" and "\<And>m. a m \<noteq> None \<Longrightarrow> hb_owner h m \<noteq> None"
    and "\<And>s se m n. hb_sessions h s = Some se \<Longrightarrow> se_reader se = Awaiting m s n \<Longrightarrow> a m = hb_acks h m"
  shows "hub_ok (h\<lparr>hb_acks := a\<rparr>)"
proof -
  note ok = hub_okD [OF assms(1)]
  have "awaiting_ok (h\<lparr>hb_acks := a\<rparr>)"
    by (rule awaiting_ok_mono [OF ok(4)]) (use assms(3) in auto)
  moreover have "ids_ok (h\<lparr>hb_acks := a\<rparr>)"
    unfolding ids_ok_def
  proof (intro conjI allI impI)
    show "hb_owner (h\<lparr>hb_acks := a\<rparr>) m \<noteq> None" if "hb_sessions (h\<lparr>hb_acks := a\<rparr>) s = Some se" "m \<in> set (se_accepted se)" for s se m
      using ids_okD(1) [OF ok(3), of s se m] that by simp
  qed (use assms(2) ids_okD(2) [OF ok(3)] in simp_all)
  ultimately show ?thesis using ok(1,2) by (simp add: hub_ok_def)
qed

text \<open>The connection whose message is awaited by its own reader does not read.\<close>

lemma awaited_not_read:
  assumes "hub_ok h" and "hb_sessions h s = Some se" and "se_reader se = Reading" and "m \<in> set (se_wire se)"
    and "hb_sessions h t = Some u" and "se_reader u = Awaiting m t n"
  shows False
proof -
  have "m \<in> set (se_accepted se)"
    using hub_okD(2) [OF assms(1,2)] assms(4) by (auto simp: session_ok_def dest: set_mono_prefix)
  then have "s = t" using awaiting_okD(2) [OF hub_okD(4) [OF assms(1)] assms(5,6) assms(2)] by simp
  then show False using assms(2,3,5,6) by simp
qed

lemma hub_ok_receive:
  assumes "hub_ok h" and "hb_sessions h s = Some se" and "se_reader se = Reading" and "ak_ref a \<in> set (se_wire se)"
  shows "hub_ok (h\<lparr>hb_acks := snd (deliver_result (ak_ref a) a (hb_acks h))\<rparr>)"
proof (rule hub_ok_acks [OF assms(1)])
  show "hb_owner h m \<noteq> None" if "snd (deliver_result (ak_ref a) a (hb_acks h)) m \<noteq> None" for m
    by (rule ids_okD(3) [OF hub_okD(3) [OF assms(1)]])
      (use that in \<open>auto simp: deliver_result_def split: option.splits if_splits\<close>)
  show "snd (deliver_result (ak_ref a) a (hb_acks h)) m = hb_acks h m"
    if "hb_sessions h t = Some u" "se_reader u = Awaiting m t n" for t u m n
    using awaited_not_read [OF assms(1-3) _ that] assms(4) by (auto simp: deliver_result_def split: option.splits)
qed

lemma hub_ok_push:
  assumes "hub_ok h" and "hb_owner h m = None" and "hb_sessions h s = Some se" and "se_reader se \<noteq> Gone"
  shows "hub_ok (push_await s node m n h)"
proof -
  let ?h = "h\<lparr>hb_acks := register_wait m (hb_acks h), hb_owner := (hb_owner h)(m \<mapsto> Reader s)\<rparr>"
  have drawn: "hub_ok ?h" using hub_ok_draw [OF assms(1,2), where w = True and own = "Reader s"] by simp
  have unsent: "m \<notin> set (se_accepted u)" if "hb_sessions h t = Some u" for t u
    using ids_okD(1) [OF hub_okD(3) [OF assms(1)] that, of m] assms(2) by auto
  obtain b h'' where send: "hub_send node m ?h = (b, h'')" by (metis surj_pair)
  show ?thesis
  proof (cases b)
    case False
    with send have "h'' = ?h" by (auto simp: hub_send_def split: option.splits elim: enqueue_cases)
    moreover have "hub_ok (upd_session s (\<lambda>se. se\<lparr>se_reader := Reading\<rparr>) (?h\<lparr>hb_acks := unregister_wait m (hb_acks ?h)\<rparr>))"
    proof (rule hub_ok_upd)
      show "hub_ok (?h\<lparr>hb_acks := unregister_wait m (hb_acks ?h)\<rparr>)"
        by (rule hub_ok_unwait [OF drawn]) (use not_awaited [OF assms(1)] assms(2) in auto)
    qed (simp add: session_ok_def)
    ultimately show ?thesis using send False by (simp add: push_await_def)
  next
    case True
    then obtain t where t: "hb_conns h node = Some t" "enqueue t m ?h = (True, h'')"
      using send by (auto simp: hub_send_def split: option.splits)
    from t(2) obtain u where u: "hb_sessions h t = Some u" "length (se_queue u) < send_capacity" "h'' = upd_session t (accept_message m) ?h"
      by (rule enqueue_cases) auto
    let ?f = "\<lambda>se. se\<lparr>se_reader := Awaiting m t n\<rparr>"
    let ?g = "upd_session s ?f h''"
    have result: "push_await s node m n h = ?g" using send True t(1) by (simp add: push_await_def)
    have accepted: "hb_sessions ?h t = Some u" using u(1) by simp
    have mid: "conns_ok h''" "\<And>t' v. hb_sessions h'' t' = Some v \<Longrightarrow> session_ok v"
      using accept_ok [OF drawn accepted u(2), where m = m] u(3) by auto
    have "conns_ok ?g" by (rule conns_ok_mono [OF mid(1)]) auto
    moreover have "session_ok v" if "hb_sessions ?g t' = Some v" for t' v
      using that mid(2) by (auto simp: session_ok_def split: if_splits)
    moreover have "hb_owner h x \<noteq> None \<or> x = m" if "hb_sessions ?g t' = Some v" "x \<in> set (se_accepted v)" for t' v x
      using that u ids_okD(1) [OF hub_okD(3) [OF assms(1)]] by (auto split: if_splits)
    then have "ids_ok ?g"
      using ids_okD(2,3) [OF hub_okD(3) [OF drawn]] u(3) unfolding ids_ok_def by (simp del: upd_session_sel(5)) blast
    moreover have "awaiting_ok ?g"
      unfolding awaiting_ok_def
    proof (intro allI impI)
      fix s' v x t' k assume v: "hb_sessions ?g s' = Some v" "se_reader v = Awaiting x t' k"
      have seen: "y \<in> set (se_accepted w) \<longleftrightarrow> (\<exists>w0. hb_sessions h r = Some w0 \<and> (y \<in> set (se_accepted w0) \<or> y = m \<and> r = t))"
        if "hb_sessions ?g r = Some w" for r w y using that u by (auto split: if_splits)
      show "hb_owner ?g x = Some (Reader s') \<and>
          (\<forall>r w. hb_sessions ?g r = Some w \<longrightarrow> x \<in> set (se_accepted w) \<longrightarrow> r = t') \<and> (t' = s' \<longrightarrow> hb_acks ?g x = Some None)"
      proof (cases "s' = s")
        case True
        then have x: "x = m" "t' = t" using v by (auto split: if_splits)
        then show ?thesis using True u(3) unsent by (auto simp: seen register_wait_def simp del: upd_session_sel(5))
      next
        case False
        then obtain v0 where v0: "hb_sessions h s' = Some v0" "se_reader v0 = Awaiting x t' k" using v u by (auto split: if_splits)
        note old = awaiting_okD [OF hub_okD(4) [OF assms(1)] v0]
        then have "x \<noteq> m" using assms(2) by auto
        then show ?thesis using old u(3) by (auto simp: seen register_wait_def simp del: upd_session_sel(5))
      qed
    qed
    ultimately show ?thesis unfolding result hub_ok_def by blast
  qed
qed


lemma hub_ok_connect:
  assumes "hub_ok h" and "hb_sessions h s = None"
  shows "hub_ok (register_conn node s h)"
proof -
  define g where "g = (case hb_conns h node of None \<Rightarrow> h
      | Some old \<Rightarrow> upd_session old (\<lambda>se. se\<lparr>se_canceled := True, se_closed := True\<rparr>) h)"
  have g: "hub_ok g" unfolding g_def
    by (cases "hb_conns h node") (auto intro!: hub_ok_upd assms(1) simp: session_ok_def)
  have fresh: "hb_sessions g s = None" using assms(2) by (auto simp: g_def split: option.splits)
  let ?h = "g\<lparr>hb_conns := (hb_conns g)(node \<mapsto> s), hb_sessions := (hb_sessions g)(s \<mapsto> new_session node)\<rparr>"
  have conns: "hb_conns g = hb_conns h" by (simp add: g_def split: option.split)
  note ok = hub_okD [OF g]
  have "conns_ok ?h"
    unfolding conns_ok_def
  proof (intro allI impI)
    fix n t assume "hb_conns ?h n = Some t"
    then consider "n = node" "t = s" | "n \<noteq> node" "hb_conns g n = Some t" by (auto split: if_splits)
    then show "\<exists>se. hb_sessions ?h t = Some se \<and> se_node se = n \<and> se_reader se \<noteq> Gone"
    proof cases
      case 1
      then show ?thesis by (simp add: new_session_def)
    next
      case 2
      then obtain se where "hb_sessions g t = Some se" "se_node se = n" "se_reader se \<noteq> Gone" using ok(1) by (auto simp: conns_ok_def)
      then show ?thesis using fresh by (intro exI [of _ se]) auto
    qed
  qed
  moreover have "session_ok se" if "hb_sessions ?h t = Some se" for t se
    using that ok(2) by (auto simp: session_ok_def new_session_def split: if_splits)
  moreover have "hb_owner g m \<noteq> None" if "hb_sessions ?h t = Some se" "m \<in> set (se_accepted se)" for t se m
    using that ids_okD(1) [OF ok(3), of t se m] by (auto simp: new_session_def split: if_splits)
  then have "ids_ok ?h" using ids_okD(2,3) [OF ok(3)] unfolding ids_ok_def by simp
  moreover have "awaiting_ok ?h"
  proof (rule awaiting_ok_mono [OF ok(4)])
    fix t se' assume t: "hb_sessions ?h t = Some se'"
    show "(\<exists>se. hb_sessions g t = Some se \<and> (\<forall>m \<in> set (se_accepted se'). m \<in> set (se_accepted se) \<or> hb_owner ?h m = Some Request) \<and>
        (se_reader se' = se_reader se \<or> (\<forall>m t n. se_reader se' \<noteq> Awaiting m t n))) \<or> se_accepted se' = [] \<and> se_reader se' = Reading"
      using t by (cases "t = s") (auto simp: new_session_def)
  qed auto
  ultimately have "hub_ok ?h" by (simp add: hub_ok_def del: fun_upd_apply)
  then show ?thesis by (simp add: register_conn_def Let_def g_def)
qed

lemma hub_ok_finish:
  assumes "hub_ok h" and "hb_sessions h s = Some se"
  shows "hub_ok (unregister (se_node se) (upd_session s (\<lambda>se. se\<lparr>se_reader := Gone, se_closed := True\<rparr>) h))" (is "hub_ok ?h")
proof -
  note ok = hub_okD [OF assms(1)]
  have "conns_ok ?h"
    unfolding conns_ok_def
  proof (intro allI impI)
    fix n t assume "hb_conns ?h n = Some t"
    then have n: "n \<noteq> se_node se" "hb_conns h n = Some t" by (auto simp: unregister_def split: if_splits)
    then obtain u where "hb_sessions h t = Some u" "se_node u = n" "se_reader u \<noteq> Gone" using ok(1) by (auto simp: conns_ok_def)
    then show "\<exists>se. hb_sessions ?h t = Some se \<and> se_node se = n \<and> se_reader se \<noteq> Gone"
      using n(1) assms(2) by (intro exI [of _ u]) (auto simp: unregister_def)
  qed
  moreover have "session_ok u" if "hb_sessions ?h t = Some u" for t u
    using that ok(2) by (auto simp: unregister_def session_ok_def split: if_splits)
  moreover have "hb_owner h m \<noteq> None" if "hb_sessions ?h t = Some u" "m \<in> set (se_accepted u)" for t u m
    using that ids_okD(1) [OF ok(3), of _ _ m] by (auto simp: unregister_def split: if_splits)
  then have "ids_ok ?h" using ids_okD(2,3) [OF ok(3)] unfolding ids_ok_def by (simp add: unregister_def)
  moreover have "awaiting_ok ?h"
  proof (rule awaiting_ok_mono [OF ok(4)])
    fix t se' assume t: "hb_sessions ?h t = Some se'"
    show "(\<exists>se. hb_sessions h t = Some se \<and> (\<forall>m \<in> set (se_accepted se'). m \<in> set (se_accepted se) \<or> hb_owner ?h m = Some Request) \<and>
        (se_reader se' = se_reader se \<or> (\<forall>m t n. se_reader se' \<noteq> Awaiting m t n))) \<or> se_accepted se' = [] \<and> se_reader se' = Reading"
      using t by (cases "t = s") (auto simp: unregister_def assms(2))
  qed (auto simp: unregister_def)
  ultimately show ?thesis unfolding hub_ok_def by blast
qed

lemma hub_ok_reading:
  assumes "hub_ok h" and "hb_sessions h s = Some se" and "se_reader se = Awaiting m t n"
  shows "hub_ok (upd_session s (\<lambda>se. se\<lparr>se_reader := Reading\<rparr>) (h\<lparr>hb_acks := unregister_wait m (hb_acks h)\<rparr>))"
proof -
  let ?g = "upd_session s (\<lambda>se. se\<lparr>se_reader := Reading\<rparr>) h"
  have "hub_ok ?g" by (rule hub_ok_upd [OF assms(1)]) (simp add: session_ok_def)
  moreover have "se_reader u \<noteq> Awaiting m r k" if "hb_sessions ?g r = Some u" for r u k
    using that awaiting_okD(1) [OF hub_okD(4) [OF assms(1)] assms(2,3)] awaiting_okD(1) [OF hub_okD(4) [OF assms(1)], of r u m]
    by (auto split: if_splits)
  ultimately have "hub_ok (?g\<lparr>hb_acks := unregister_wait m (hb_acks ?g)\<rparr>)" by (rule hub_ok_unwait)
  then show ?thesis by (simp add: hub_sel_commute)
qed

lemma hub_ok_step: "hub_step l h h' \<Longrightarrow> hub_ok h \<Longrightarrow> hub_ok h'"
proof (induction rule: hub_step.induct)
  case (enqueue h xs s m ys)
  have drop: "hub_ok (h\<lparr>hb_sends := xs @ ys\<rparr>)"
    by (rule hub_ok_sends [OF enqueue.prems])
      (use ids_okD(2) [OF hub_okD(3) [OF enqueue.prems]] enqueue.hyps in auto)
  have "hb_owner (h\<lparr>hb_sends := xs @ ys\<rparr>) m = Some Request"
    using ids_okD(2) [OF hub_okD(3) [OF enqueue.prems], of s m] enqueue.hyps by simp
  from hub_ok_accept [OF drop this surjective_pairing] show ?case .
next
  case (acked_next h s se m t n a m')
  have away: "t \<noteq> s" using awaiting_okD(3) [OF hub_okD(4) [OF acked_next.prems] acked_next.hyps(1,2)] acked_next.hyps(3) by auto
  have "hub_ok (h\<lparr>hb_acks := unregister_wait m (hb_acks h)\<rparr>)"
  proof (rule hub_ok_unwait [OF acked_next.prems])
    fix r u k assume r: "hb_sessions h r = Some u"
    show "se_reader u \<noteq> Awaiting m r k"
    proof
      assume u: "se_reader u = Awaiting m r k"
      have "r = s" using awaiting_okD(1) [OF hub_okD(4) [OF acked_next.prems] r u]
          awaiting_okD(1) [OF hub_okD(4) [OF acked_next.prems] acked_next.hyps(1,2)] by simp
      then show False using r u acked_next.hyps(1,2) away by simp
    qed
  qed
  then show ?case by (rule hub_ok_push) (use acked_next.hyps in auto)
next
  case (done_waiting h m)
  show ?case by (rule hub_ok_unwait [OF done_waiting.prems]) (use not_awaited [OF done_waiting.prems] done_waiting.hyps in auto)
next
  case (lookup h m node s wait)
  then show ?case by (intro hub_ok_lookup)
next
  case (acked_last h s se m t n a)
  show ?case by (rule hub_ok_reading [OF acked_last.prems acked_last.hyps(1,2)])
next
  case (timed_out h s se m t n)
  show ?case by (rule hub_ok_reading [OF timed_out.prems timed_out.hyps])
qed (auto intro: hub_ok_connect hub_ok_receive hub_ok_push hub_ok_finish intro!: hub_ok_upd simp: session_ok_def)

lemma hub_ok_new: "hub_ok new_hub"
  by (simp add: hub_ok_def conns_ok_def ids_ok_def awaiting_ok_def new_hub_def)

lemma hub_ok_reach: "hub_reach h h' \<Longrightarrow> hub_ok h \<Longrightarrow> hub_ok h'"
  unfolding hub_reach_def by (induction rule: rtranclp_induct) (auto intro: hub_ok_step)


text \<open>A push of one handler leaves the others where they are.\<close>

lemma push_await_sessions:
  assumes "hb_sessions h s = Some se"
  shows "\<exists>v. hb_sessions (push_await t node x k h) s = Some v \<and> (t \<noteq> s \<longrightarrow> se_reader v = se_reader se) \<and> se_wire v = se_wire se \<and>
    se_writer v = se_writer se"
proof (cases "hb_conns h node")
  case None
  then show ?thesis using assms by (auto simp: push_await_def hub_send_def)
next
  case (Some r)
  let ?h = "h\<lparr>hb_acks := register_wait x (hb_acks h), hb_owner := (hb_owner h)(x \<mapsto> Reader t)\<rparr>"
  obtain b g where e: "enqueue r x ?h = (b, g)" by (metis surj_pair)
  then have "\<exists>v. hb_sessions g s = Some v \<and> se_reader v = se_reader se \<and> se_wire v = se_wire se \<and> se_writer v = se_writer se"
    by (rule enqueue_cases) (use assms in \<open>auto simp: accept_message_def\<close>)
  then show ?thesis using Some e by (cases b) (auto simp: push_await_def hub_send_def)
qed

section \<open>What the hub promises\<close>

definition demo_hub :: hub where
  "demo_hub = register_conn ''n1'' 0 new_hub"

lemma demo_hub_sel [simp]: "hb_conns demo_hub = [''n1'' \<mapsto> 0]" "hb_sessions demo_hub = [0 \<mapsto> new_session ''n1'']"
  "hb_owner demo_hub = (\<lambda>_. None)"
  by (simp_all add: demo_hub_def register_conn_def new_hub_def)

lemma demo_hub_reach: "hub_reach new_hub demo_hub"
  unfolding hub_reach_def demo_hub_def by (rule r_into_rtranclp, rule exI, rule connect) (simp add: new_hub_def)

text \<open>C20. In every reachable state, however connections come and go, a node that counts as connected has a connection of its own
  whose handler has not ended, and each connection has written a beginning of what its channel took, in order; while its writer runs
  the rest is still in the channel.\<close>

theorem hub_consistent:
  assumes "hub_reach new_hub h"
  shows "(\<forall>n s. hb_conns h n = Some s \<longrightarrow> (\<exists>se. hb_sessions h s = Some se \<and> se_node se = n \<and> se_reader se \<noteq> Gone)) \<and>
    (\<forall>s se. hb_sessions h s = Some se \<longrightarrow> prefix (se_wire se) (se_accepted se) \<and>
      (se_writer se \<longrightarrow> se_accepted se = se_wire se @ se_queue se))"
  using hub_okD(1,2) [OF hub_ok_reach [OF assms hub_ok_new]] unfolding conns_ok_def session_ok_def by blast

theorem hub_consistent_witness:
  "\<exists>se. hb_sessions demo_hub 0 = Some se \<and> se_node se = ''n1'' \<and> prefix (se_wire se) (se_accepted se)"
  using hub_consistent [OF demo_hub_reach] by (auto simp: new_session_def)

text \<open>When the handler of a hello has pushed a file over its own connection, as it does when that is the registered one, nothing
  but the time-out ends its wait: the acknowledgement could only be read by the goroutine that waits.\<close>

theorem hello_push_times_out:
  assumes "hub_reach new_hub h" and "hb_sessions h s = Some se" and "se_reader se = Awaiting m s n"
    and "hub_step l h h'" and "hb_sessions h' s = Some se'" and "se_reader se' \<noteq> Awaiting m s n"
  shows "l = Timed_Out s \<and> se_reader se' = Reading \<and> hb_acks h' m = None"
proof -
  have "hub_ok h" by (rule hub_ok_reach [OF assms(1) hub_ok_new])
  then have silent: "hb_acks h m = Some None" using awaiting_okD(3) [OF hub_okD(4) assms(2,3)] by simp
  show ?thesis
    using assms(4)
  proof cases
    case (connect t node)
    then show ?thesis using assms(2,3,5,6) by (auto simp: register_conn_def Let_def split: option.splits if_splits)
  next
    case (enqueue xs t x ys)
    obtain b g where "enqueue t x (h\<lparr>hb_sends := xs @ ys\<rparr>) = (b, g)" by (metis surj_pair)
    moreover from this have "\<exists>v. hb_sessions g s = Some v \<and> se_reader v = se_reader se"
      by (rule enqueue_cases) (use assms(2) in auto)
    ultimately show ?thesis using enqueue(2) assms(3,5,6) by auto
  next
    case (hello t u x)
    have "t \<noteq> s" using hello(3,4) assms(2,3) by auto
    then show ?thesis using push_await_sessions [OF assms(2), of t "se_node u" x 2] hello(2) assms(3,5,6) by auto
  next
    case (acked_next t u x r k a y)
    have "t \<noteq> s" using acked_next(3-5) assms(2,3) silent by auto
    moreover have "hb_sessions (h\<lparr>hb_acks := unregister_wait x (hb_acks h)\<rparr>) s = Some se" using assms(2) by simp
    ultimately show ?thesis
      using push_await_sessions [of "h\<lparr>hb_acks := unregister_wait x (hb_acks h)\<rparr>" s se t "se_node u" y k] acked_next(2) assms(3,5,6) by auto
  qed (use assms(2,3,5,6) silent in \<open>auto simp: unregister_wait_def unregister_def split: if_splits\<close>)
qed


definition demo_hello :: hub where
  "demo_hello = push_await 0 ''n1'' ''m1'' 2 demo_hub"

lemma demo_hello_sel:
  "hb_sessions demo_hello 0 = Some ((accept_message ''m1'' (new_session ''n1''))\<lparr>se_reader := Awaiting ''m1'' 0 2\<rparr>)"
  "hb_conns demo_hello ''n1'' = Some 0"
  by (simp_all add: demo_hello_def push_await_def hub_send_def enqueue_def new_session_def send_capacity_def accept_message_def)

lemma hub_reach_step: "hub_reach h0 h \<Longrightarrow> hub_step l h h' \<Longrightarrow> hub_reach h0 h'"
  unfolding hub_reach_def by (rule rtranclp.rtrancl_into_rtrancl) (assumption, blast)

lemma hub_reach_refl: "hub_reach h h"
  by (simp add: hub_reach_def)

lemma demo_hello_reach: "hub_reach new_hub demo_hello"
proof -
  have "hub_step (Hello 0) demo_hub (push_await 0 (se_node (new_session ''n1'')) ''m1'' 2 demo_hub)"
    by (rule hello) (simp_all add: new_session_def is_connected_def)
  then show ?thesis unfolding demo_hello_def by (intro hub_reach_step [OF demo_hub_reach]) (simp add: new_session_def)
qed

theorem hello_push_times_out_witness:
  "\<exists>h'. hub_step (Timed_Out 0) demo_hello h' \<and> hb_acks h' ''m1'' = None"
proof -
  let ?se = "(accept_message ''m1'' (new_session ''n1''))\<lparr>se_reader := Awaiting ''m1'' 0 2\<rparr>"
  let ?h = "upd_session 0 (\<lambda>se. se\<lparr>se_reader := Reading\<rparr>) (demo_hello\<lparr>hb_acks := unregister_wait ''m1'' (hb_acks demo_hello)\<rparr>)"
  have awaits: "se_reader ?se = Awaiting ''m1'' 0 2" by simp
  have step: "hub_step (Timed_Out 0) demo_hello ?h" by (rule timed_out [OF demo_hello_sel(1) awaits])
  have "hb_sessions ?h 0 = Some (?se\<lparr>se_reader := Reading\<rparr>)" by (simp add: demo_hello_sel)
  from hello_push_times_out [OF demo_hello_reach demo_hello_sel(1) awaits step this] step show ?thesis by auto
qed

section \<open>Displaced connections\<close>

text \<open>Steps among which the node does not connect.\<close>

definition quiet :: "string \<Rightarrow> hub \<Rightarrow> hub \<Rightarrow> bool" where
  "quiet n = (\<lambda>h h'. \<exists>l. (\<forall>s. l \<noteq> Connect n s) \<and> hub_step l h h')\<^sup>*\<^sup>*"

lemma push_await_conns [simp]: "hb_conns (push_await s node m k h) = hb_conns h"
proof (cases "hb_conns h node")
  case None
  then show ?thesis by (simp add: push_await_def hub_send_def)
next
  case (Some r)
  let ?h = "h\<lparr>hb_acks := register_wait m (hb_acks h), hb_owner := (hb_owner h)(m \<mapsto> Reader s)\<rparr>"
  obtain b g where e: "enqueue r m ?h = (b, g)" by (metis surj_pair)
  then have "hb_conns g = hb_conns h" by (rule enqueue_cases) auto
  then show ?thesis using Some e by (cases b) (simp_all add: push_await_def hub_send_def)
qed

lemma step_conns:
  assumes "hub_step l h h'" and "\<And>s. l \<noteq> Connect n s" and "hb_conns h n = None"
  shows "hb_conns h' n = None"
  using assms(1)
proof cases
  case (enqueue xs s m ys)
  obtain b g where e: "enqueue s m (h\<lparr>hb_sends := xs @ ys\<rparr>) = (b, g)" by (metis surj_pair)
  then have "hb_conns g = hb_conns h" by (rule enqueue_cases) auto
  then show ?thesis using enqueue(2) e assms(3) by simp
qed (use assms(2,3) in \<open>auto simp: register_conn_def Let_def unregister_def split: option.split\<close>)

lemma quiet_conns: "quiet n h h' \<Longrightarrow> hb_conns h n = None \<Longrightarrow> hb_conns h' n = None"
  unfolding quiet_def by (induction rule: rtranclp_induct) (auto intro: step_conns)

text \<open>When a node connects again while its old connection is still there, the end of the old handler takes the new connection out of
  the hub: it is up, untouched and reads, but the node counts as offline and nothing can be sent to it until it connects once more.\<close>

theorem displaced_cleanup_disconnects:
  assumes "hb_conns h n = Some s" and "hb_sessions h s = Some se" and "se_node se = n" and "se_reader se = Reading"
    and "hb_sessions h t = None"
  shows "\<exists>h'. hub_reach h h' \<and> hb_sessions h' t = Some (new_session n) \<and>
    (\<forall>h'' m. quiet n h' h'' \<longrightarrow> \<not> is_connected h'' n \<and> hub_send n m h'' = (False, h''))"
proof -
  have st: "s \<noteq> t" using assms(2,5) by auto
  define h1 where "h1 = register_conn n t h"
  define h2 where "h2 = upd_session s (\<lambda>se. se\<lparr>se_reader := Draining, se_canceled := True\<rparr>) h1"
  define h3 where "h3 = upd_session s (\<lambda>se. se\<lparr>se_writer := False\<rparr>) h2"
  define h4 where "h4 = unregister n (upd_session s (\<lambda>se. se\<lparr>se_reader := Gone, se_closed := True\<rparr>) h3)"
  let ?se = "se\<lparr>se_canceled := True, se_closed := True\<rparr>"
  have s1: "hb_sessions h1 s = Some ?se" and t1: "hb_sessions h1 t = Some (new_session n)"
    using assms(1,2) st by (simp_all add: h1_def register_conn_def Let_def)
  have "hub_step (Connect n t) h h1" unfolding h1_def by (rule connect [OF assms(5)])
  moreover have "hub_step (Read_Error s) h1 h2" unfolding h2_def by (rule read_error [OF s1]) (simp add: assms(4))
  moreover have "hub_step (Writer_End s) h2 h3" unfolding h3_def
    using writer_end [of h2 s "?se\<lparr>se_reader := Draining, se_canceled := True\<rparr>"] by (simp add: h2_def s1)
  moreover have "hub_step (Finish s) h3 h4" unfolding h4_def
    using finish [of h3 s "?se\<lparr>se_reader := Draining, se_canceled := True, se_writer := False\<rparr>"] assms(3) s1 by (simp add: h3_def h2_def)
  ultimately have "hub_reach h h4" using hub_reach_step [OF hub_reach_step [OF hub_reach_step [OF hub_reach_step [OF hub_reach_refl]]]] by blast
  moreover have "hb_sessions h4 t = Some (new_session n)" using st t1 by (simp add: h4_def h3_def h2_def unregister_def)
  moreover have "hb_conns h4 n = None" by (simp add: h4_def unregister_def)
  then have "\<not> is_connected h'' n \<and> hub_send n m h'' = (False, h'')" if "quiet n h4 h''" for h'' m
    using quiet_conns [OF that] by (simp add: is_connected_def hub_send_def)
  ultimately show ?thesis by blast
qed

theorem displaced_cleanup_disconnects_witness:
  "\<exists>h'. hub_reach demo_hub h' \<and> hb_sessions h' 1 = Some (new_session ''n1'') \<and> \<not> is_connected h' ''n1''"
  using displaced_cleanup_disconnects [of demo_hub "''n1''" 0 "new_session ''n1''" 1] by (auto simp: new_session_def quiet_def)

text \<open>A message can be taken by a connection whose writer has ended; it is never written.\<close>

lemma ended_writer_step:
  assumes "hub_step l h h'" and "hb_sessions h s = Some se" and "\<not> se_writer se"
  shows "\<exists>se'. hb_sessions h' s = Some se' \<and> \<not> se_writer se' \<and> se_wire se' = se_wire se"
  using assms(1)
proof cases
  case (enqueue xs t m ys)
  obtain b g where e: "enqueue t m (h\<lparr>hb_sends := xs @ ys\<rparr>) = (b, g)" by (metis surj_pair)
  then have "\<exists>se'. hb_sessions g s = Some se' \<and> \<not> se_writer se' \<and> se_wire se' = se_wire se"
    by (rule enqueue_cases) (use assms(2,3) in \<open>auto simp: accept_message_def\<close>)
  then show ?thesis using enqueue(2) e by simp
next
  case (hello t u x)
  then show ?thesis using push_await_sessions [OF assms(2), of t "se_node u" x 2] assms(3) by auto
next
  case (acked_next t u x r k a y)
  then show ?thesis
    using push_await_sessions [of "h\<lparr>hb_acks := unregister_wait x (hb_acks h)\<rparr>" s se t "se_node u" y k] assms(2,3) by auto
qed (use assms(2,3) in \<open>auto simp: register_conn_def Let_def unregister_def split: option.split\<close>)


lemma ended_writer_reach:
  assumes "hub_reach h h'" and "hb_sessions h s = Some se" and "\<not> se_writer se"
  shows "\<exists>se'. hb_sessions h' s = Some se' \<and> \<not> se_writer se' \<and> se_wire se' = se_wire se"
  using assms(1) unfolding hub_reach_def
proof (induction rule: rtranclp_induct)
  case (step y z)
  then show ?case using ended_writer_step by metis
qed (use assms(2,3) in blast)

text \<open>\<open>Send\<close> answers that all is well although the message will never be written: the writer has gone and the reader has not yet.\<close>

lemma accepted_and_lost:
  assumes "hub_reach new_hub h" and "hb_conns h n = Some s" and "hb_sessions h s = Some se" and "se_writer se" and "se_queue se = []"
    and "m \<notin> set (se_accepted se)"
  shows "\<exists>h1 h2. hub_reach h h1 \<and> hub_send n m h1 = (True, h2) \<and>
    (\<forall>h3. hub_reach h2 h3 \<longrightarrow> (\<exists>se3. hb_sessions h3 s = Some se3 \<and> m \<notin> set (se_wire se3)))"
proof -
  let ?se = "se\<lparr>se_queue := [], se_canceled := True, se_writer := False\<rparr>"
  let ?h1 = "upd_session s (\<lambda>se. se\<lparr>se_queue := [], se_canceled := True, se_writer := False\<rparr>) h"
  let ?h2 = "upd_session s (accept_message m) ?h1"
  have "hub_step (Write_Error s) h ?h1" by (rule write_error [OF assms(3,4)]) (simp add: assms(5))
  then have reach: "hub_reach h ?h1" by (rule hub_reach_step [OF hub_reach_refl])
  have send: "hub_send n m ?h1 = (True, ?h2)"
    by (simp add: hub_send_def enqueue_def assms(2,3) send_capacity_def accept_message_def [abs_def])
  have "m \<notin> set (se_wire se)"
    using hub_okD(2) [OF hub_ok_reach [OF assms(1) hub_ok_new] assms(3)] assms(6) by (auto simp: session_ok_def dest: set_mono_prefix)
  moreover have "hb_sessions ?h2 s = Some (accept_message m ?se)" by (simp add: assms(3))
  ultimately have "\<exists>se3. hb_sessions h3 s = Some se3 \<and> m \<notin> set (se_wire se3)" if "hub_reach ?h2 h3" for h3
    using ended_writer_reach [OF that, of s "accept_message m ?se"] by (auto simp: accept_message_def)
  then show ?thesis using reach send by blast
qed

section \<open>Replay of log entries\<close>

text \<open>Batches as they come in: what the calls of the handler answer, and all that was published with its node.\<close>

record log_call =
  lc_node :: string
  lc_mac :: "string option"
  lc_insert_ok :: bool
  lc_now :: int
  lc_ids :: "nat \<Rightarrow> string"
  lc_batch :: "log_entry list option"

definition log_call :: "log_call \<Rightarrow> journals \<Rightarrow> log_entry list \<times> journals" where
  "log_call c js = handle_log_batch (lc_mac c) (lc_insert_ok c) (lc_now c) (lc_ids c) (lc_node c) (lc_batch c) js"

fun run_log_calls :: "log_call list \<Rightarrow> journals \<Rightarrow> (string \<times> log_entry) list \<times> journals" where
  "run_log_calls [] js = ([], js)"
| "run_log_calls (c # cs) js =
     (let (es, js) = log_call c js; (rest, js) = run_log_calls cs js in (map (Pair (lc_node c)) es @ rest, js))"

definition journals_ok :: "journals \<Rightarrow> bool" where
  "journals_ok js \<longleftrightarrow> (\<forall>n r. js n = Some r \<longrightarrow> ring_ok r)"

lemma journal_for_ok: "journals_ok js \<Longrightarrow> ring_ok (journal_for n js)"
  by (auto simp: journal_for_def journals_ok_def new_ring_ok split: option.split)

lemma snapshot_for: "journal_snapshot n js = ring_snapshot (journal_for n js)"
  by (simp add: journal_snapshot_def journal_for_def new_ring_ok split: option.split)

lemma append_entries_props:
  assumes "journals_ok js"
  shows "journals_ok (append_entries n es js)"
    and "journal_snapshot k (append_entries n es js) =
      (if k = n then last_n journal_ring_size (journal_snapshot n js @ es) else journal_snapshot k js)"
proof -
  have ok: "ring_ok (journal_for n js)" by (rule journal_for_ok [OF assms])
  show "journals_ok (append_entries n es js)"
    using assms journal.fold_ok [OF ok] by (auto simp: journals_ok_def append_entries_def)
  show "journal_snapshot k (append_entries n es js) =
      (if k = n then last_n journal_ring_size (journal_snapshot n js @ es) else journal_snapshot k js)"
    using journal.fold_snapshot [OF ok, of es] by (simp add: journal_snapshot_def append_entries_def snapshot_for [unfolded journal_snapshot_def])
qed

lemma snapshot_short: "journals_ok js \<Longrightarrow> last_n journal_ring_size (journal_snapshot n js) = journal_snapshot n js"
  using journal.snapshot_short [OF journal_for_ok [of js n]] by (simp add: snapshot_for)

lemma log_call_props:
  assumes "journals_ok js" and "log_call c js = (es, js')"
  shows "journals_ok js' \<and> journal_snapshot n js' = last_n journal_ring_size (journal_snapshot n js @ (if n = lc_node c then es else []))"
  using assms append_entries_props [OF assms(1)] snapshot_short [OF assms(1), of n]
  by (auto simp: log_call_def handle_log_batch_def Let_def split: option.splits if_splits)

text \<open>C21. What a new subscriber of a node is shown are exactly the newest 500 entries that were published for the node, in their order,
  whatever batches of other nodes, empty, unreadable or unstored ones came in between.\<close>

theorem journal_replay_exact:
  "run_log_calls cs (\<lambda>_. None) = (published, js) \<Longrightarrow>
    journal_snapshot n js = last_n journal_ring_size (map snd (filter (\<lambda>p. fst p = n) published))"
proof -
  have "journal_snapshot n js' = last_n journal_ring_size (journal_snapshot n js @ map snd (filter (\<lambda>p. fst p = n) pub))"
    if "run_log_calls cs js = (pub, js')" "journals_ok js" for cs js pub js'
    using that
  proof (induction cs arbitrary: js pub)
    case Nil
    then show ?case by (simp add: snapshot_short)
  next
    case (Cons c cs)
    obtain es js1 where c: "log_call c js = (es, js1)" by (metis surj_pair)
    obtain rest where rest: "run_log_calls cs js1 = (rest, js')" "pub = map (Pair (lc_node c)) es @ rest"
      using Cons.prems(1) c by (auto split: prod.splits)
    note call = log_call_props [OF Cons.prems(2) c, of n]
    have own: "filter (\<lambda>p. fst p = n) (map (Pair (lc_node c)) es) = (if n = lc_node c then map (Pair (lc_node c)) es else [])"
      by (auto simp: filter_empty_conv)
    show ?case using Cons.IH [OF rest(1) call [THEN conjunct1]] call by (simp add: rest(2) own last_n_append o_def)
  qed
  moreover assume "run_log_calls cs (\<lambda>_. None) = (published, js)"
  moreover have "journals_ok (\<lambda>_. None)" "journal_snapshot n (\<lambda>_. None) = []"
    by (simp_all add: journals_ok_def journal_snapshot_def)
  ultimately show ?thesis by fastforce
qed


definition demo_call :: "string \<Rightarrow> string list \<Rightarrow> log_call" where
  "demo_call n msgs = \<lparr>lc_node = n, lc_mac = Some ''aa'', lc_insert_ok = True, lc_now = 7, lc_ids = (\<lambda>_. ''id''),
     lc_batch = Some (map (\<lambda>x. zero_entry\<lparr>le_message := x\<rparr>) msgs)\<rparr>"

theorem journal_replay_exact_witness:
  "\<exists>js. run_log_calls [demo_call ''n1'' [''a'', ''b''], demo_call ''n2'' [''c'']] (\<lambda>_. None) =
      (map (\<lambda>(n, x). (n, zero_entry\<lparr>le_id := ''id'', le_mac := ''aa'', le_time := Some 7, le_message := x\<rparr>)) [(''n1'', ''a''), (''n1'', ''b''), (''n2'', ''c'')], js) \<and>
    map le_message (journal_snapshot ''n1'' js) = [''a'', ''b'']"
proof -
  obtain pub js where run: "run_log_calls [demo_call ''n1'' [''a'', ''b''], demo_call ''n2'' [''c'']] (\<lambda>_. None) = (pub, js)"
    by (metis surj_pair)
  then have pub: "pub = map (\<lambda>(n, x). (n, zero_entry\<lparr>le_id := ''id'', le_mac := ''aa'', le_time := Some 7, le_message := x\<rparr>))
      [(''n1'', ''a''), (''n1'', ''b''), (''n2'', ''c'')]"
    by (auto simp: log_call_def demo_call_def handle_log_batch_def stamp_entry_def zero_entry_def Let_def)
  show ?thesis using run journal_replay_exact [OF run, of "''n1''"] unfolding pub by (simp add: journal_ring_size_def)
qed

section \<open>Subscribers of a log stream\<close>

datatype log_command = Pull_Start | Pull_Stop

text \<open>
  The subscribers of one node. The counter is changed under a lock and the command is sent after it is released, so commands under way
  overtake each other; one that finds no connection is lost. \<open>wa_streaming\<close> is what the node does.
\<close>

record watch =
  wa_count :: nat
  wa_sends :: "log_command list"
  wa_streaming :: bool

definition increment :: "watch \<Rightarrow> watch" where
  "increment w =
     (let c = wa_count w + 1 in w\<lparr>wa_count := c, wa_sends := wa_sends w @ (if c = 1 then [Pull_Start] else [])\<rparr>)"

definition decrement :: "watch \<Rightarrow> watch" where
  "decrement w =
     (let c = wa_count w - 1 in w\<lparr>wa_count := c, wa_sends := wa_sends w @ (if c = 0 then [Pull_Stop] else [])\<rparr>)"

inductive watch_step :: "watch \<Rightarrow> watch \<Rightarrow> bool" where
  subscribe: "watch_step w (increment w)"
| leave: "0 < wa_count w \<Longrightarrow> watch_step w (decrement w)"
| sent: "wa_sends w = xs @ c # ys \<Longrightarrow> watch_step w (w\<lparr>wa_sends := xs @ ys, wa_streaming := (c = Pull_Start)\<rparr>)"
| lost: "wa_sends w = xs @ c # ys \<Longrightarrow> watch_step w (w\<lparr>wa_sends := xs @ ys\<rparr>)"

definition no_watch :: watch where
  "no_watch = \<lparr>wa_count = 0, wa_sends = [], wa_streaming = False\<rparr>"

text \<open>One call after the other, each with its command sent before the next: the node streams exactly while somebody listens.\<close>

definition send_all :: "watch \<Rightarrow> watch" where
  "send_all w = w\<lparr>wa_sends := [], wa_streaming := (if wa_sends w = [] then wa_streaming w else last (wa_sends w) = Pull_Start)\<rparr>"

lemma sequential_watch:
  assumes "wa_sends w = []" and "wa_streaming w \<longleftrightarrow> 0 < wa_count w" and "v = increment w \<or> 0 < wa_count w \<and> v = decrement w"
  shows "wa_sends (send_all v) = [] \<and> (wa_streaming (send_all v) \<longleftrightarrow> 0 < wa_count (send_all v))"
  using assms by (auto simp: send_all_def increment_def decrement_def Let_def split: if_splits)

lemma overtaken_stop: "watch_step\<^sup>*\<^sup>* no_watch (no_watch\<lparr>wa_streaming := True\<rparr>)"
proof -
  let ?w = "decrement (increment no_watch)"
  have "watch_step no_watch (increment no_watch)" by (rule subscribe)
  moreover have "watch_step (increment no_watch) ?w" by (rule leave) (simp add: increment_def no_watch_def)
  moreover have "watch_step ?w (no_watch\<lparr>wa_sends := [Pull_Start]\<rparr>)"
    using sent [of ?w "[Pull_Start]" Pull_Stop "[]"] by (simp add: increment_def decrement_def no_watch_def)
  moreover have "watch_step (no_watch\<lparr>wa_sends := [Pull_Start]\<rparr>) (no_watch\<lparr>wa_streaming := True\<rparr>)"
    using sent [of "no_watch\<lparr>wa_sends := [Pull_Start]\<rparr>" "[]" Pull_Start "[]"] by (simp add: no_watch_def)
  ultimately show ?thesis by (meson rtranclp.rtrancl_into_rtrancl rtranclp.rtrancl_refl)
qed

text \<open>Nothing sends the command again when a node connects while it is watched.\<close>

lemma lost_start: "watch_step\<^sup>*\<^sup>* no_watch (no_watch\<lparr>wa_count := 1\<rparr>)"
proof -
  have "watch_step no_watch (increment no_watch)" by (rule subscribe)
  moreover have "watch_step (increment no_watch) (no_watch\<lparr>wa_count := 1\<rparr>)"
    using lost [of "increment no_watch" "[]" Pull_Start "[]"] by (simp add: increment_def no_watch_def)
  ultimately show ?thesis by (meson rtranclp.rtrancl_into_rtrancl rtranclp.rtrancl_refl)
qed

end
