(* ===== verification/Slurm_Upgrade.thy ===== *)
theory Slurm_Upgrade
  imports Go_Prelude
begin

text \<open>
  Rolling upgrades of Slurm (\<open>internal/slurm/upgrade.go\<close>, the tables of \<open>internal/db/slurm.go\<close>, \<open>slurm_builds.go\<close> and
  \<open>slurm_repo.go\<close>). An upgrade runs in a goroutine; what it has to do is a list of tasks, and waiting for a node is a task of its own, so
  that the pauses, resumptions and rollbacks of the operator, and other upgrades, come between. Results of nodes are a map, kept in the
  row of the operation as such, its JSON being written and read by the same type. A call that can fail takes its answer.
\<close>

section \<open>Tables\<close>

datatype phase = Dbd | Controller | Compute | Login

record node_result =
  nr_ok :: bool
  nr_error :: string
  nr_version :: string
  nr_phase :: phase

record upgrade_op =
  uo_id :: string
  uo_from :: string
  uo_to :: string
  uo_status :: string
  uo_batch_size :: int
  uo_drain_min :: int
  uo_confirmed :: bool
  uo_by :: string
  uo_phase :: string
  uo_current :: nat
  uo_total :: nat
  uo_started :: int
  uo_completed :: "int option"
  uo_results :: "(string \<rightharpoonup> node_result) option"

text \<open>The mutable fields, of which an update writes all; those a caller leaves out are the zero values of Go.\<close>

record op_update =
  up_status :: string
  up_phase :: string
  up_current :: nat
  up_total :: nat
  up_completed :: "int option"
  up_results :: "(string \<rightharpoonup> node_result) option"

definition blank_update :: "string \<Rightarrow> op_update" where
  "blank_update status = \<lparr>up_status = status, up_phase = '''', up_current = 0, up_total = 0, up_completed = None, up_results = None\<rparr>"

record build =
  bu_version :: string
  bu_status :: string

record upgrade_request =
  ur_build :: string
  ur_batch_size :: int
  ur_drain_min :: int
  ur_confirmed :: bool

record upgrade_plan =
  pn_dbd :: "string list"
  pn_controller :: "string list"
  pn_batches :: "string list list"
  pn_login :: "string list"

datatype task = Enter phase | Each phase string | Await_Node phase string | Batch nat "string list" | Await_Batch nat "string list"
  | Set_Active

text \<open>
  A goroutine with its local variables; \<open>rn_log\<close> remembers the results in the order in which they were recorded. \<open>rn_paused\<close> and
  \<open>rn_canceled\<close> are what the operator has set in its state.
\<close>

record run =
  rn_op :: string
  rn_build :: string
  rn_drain_min :: int
  rn_plan :: upgrade_plan
  rn_paused :: bool
  rn_canceled :: bool
  rn_over :: bool
  rn_tasks :: "task list"
  rn_results :: "string \<rightharpoonup> node_result"
  rn_log :: "(phase \<times> string \<times> bool) list"

datatype command = Cmd_Upgrade string string | Cmd_Drain string "string list" | Cmd_Resume string "string list"

record slurm =
  sl_ops :: "upgrade_op list"
  sl_builds :: "string \<rightharpoonup> build"
  sl_active_build :: string
  sl_roles :: "(string \<times> string list) list"
  sl_hostnames :: "string \<Rightarrow> string"
  sl_versions :: "string \<rightharpoonup> string \<times> string"
  sl_pending :: "(string \<times> upgrade_request) list"
  sl_runs :: "nat \<rightharpoonup> run"
  sl_current :: "nat option"
  sl_sent :: "command list"

section \<open>Statements\<close>

definition find_op :: "string \<Rightarrow> slurm \<Rightarrow> upgrade_op option" where
  "find_op i s = find (\<lambda>o'. uo_id o' = i) (sl_ops s)"

definition apply_update :: "op_update \<Rightarrow> upgrade_op \<Rightarrow> upgrade_op" where
  "apply_update u o' = o'\<lparr>uo_status := up_status u, uo_phase := up_phase u, uo_current := up_current u, uo_total := up_total u,
     uo_completed := up_completed u, uo_results := up_results u\<rparr>"

definition update_op :: "bool \<Rightarrow> string \<Rightarrow> op_update \<Rightarrow> slurm \<Rightarrow> slurm" where
  "update_op ok i u s =
     (if ok then s\<lparr>sl_ops := map (\<lambda>o'. if uo_id o' = i then apply_update u o' else o') (sl_ops s)\<rparr> else s)"

definition update_results :: "bool \<Rightarrow> string \<Rightarrow> (string \<rightharpoonup> node_result) \<Rightarrow> slurm \<Rightarrow> slurm" where
  "update_results ok i res s =
     (if ok then s\<lparr>sl_ops := map (\<lambda>o'. if uo_id o' = i then o'\<lparr>uo_results := Some res\<rparr> else o') (sl_ops s)\<rparr> else s)"

text \<open>The insert fails for an id that exists and for builds that do not: both columns are foreign keys.\<close>

definition create_op :: "bool \<Rightarrow> upgrade_op \<Rightarrow> slurm \<Rightarrow> bool \<times> slurm" where
  "create_op ok o' s =
     (if ok \<and> find_op (uo_id o') s = None \<and> sl_builds s (uo_from o') \<noteq> None \<and> sl_builds s (uo_to o') \<noteq> None
      then (True, s\<lparr>sl_ops := sl_ops s @ [o']\<rparr>) else (False, s))"

definition get_build :: "bool \<Rightarrow> string \<Rightarrow> slurm \<Rightarrow> build option" where
  "get_build ok i s = (if ok then sl_builds s i else None)"

definition set_active_build :: "bool \<Rightarrow> string \<Rightarrow> slurm \<Rightarrow> slurm" where
  "set_active_build ok i s =
     (case sl_builds s i of
        Some b \<Rightarrow> if ok \<and> bu_status b = ''completed'' then s\<lparr>sl_active_build := i\<rparr> else s
      | None \<Rightarrow> s)"

definition upsert_version :: "bool \<Rightarrow> string \<Rightarrow> string \<Rightarrow> string \<Rightarrow> slurm \<Rightarrow> slurm" where
  "upsert_version ok node ver i s = (if ok then s\<lparr>sl_versions := (sl_versions s)(node \<mapsto> (ver, i))\<rparr> else s)"

definition role_name :: "phase \<Rightarrow> string" where
  "role_name p = (case p of Dbd \<Rightarrow> ''dbd'' | Controller \<Rightarrow> ''controller'' | Compute \<Rightarrow> ''compute'' | Login \<Rightarrow> ''login'')"

text \<open>A list that cannot be read counts as empty.\<close>

definition nodes_by_role :: "bool \<Rightarrow> phase \<Rightarrow> slurm \<Rightarrow> string list" where
  "nodes_by_role ok p s = (if ok then remdups (map fst (filter (\<lambda>(n, roles). role_name p \<in> set roles) (sl_roles s))) else [])"

definition has_in_progress :: "bool \<Rightarrow> slurm \<Rightarrow> bool" where
  "has_in_progress ok s \<longleftrightarrow> ok \<and> (\<exists>o' \<in> set (sl_ops s). uo_status o' = ''in_progress'')"

section \<open>Plan\<close>

function batches_from :: "'a list \<Rightarrow> nat \<Rightarrow> nat \<Rightarrow> 'a list list" where
  "batches_from items n i =
     (if i < length items \<and> 0 < n
      then take (min (i + n) (length items) - i) (drop i items) # batches_from items n (i + n)
      else [])"
  by pat_completeness auto
termination by (relation "measure (\<lambda>(items, n, i). length items - i)") auto

declare batches_from.simps [simp del]

definition batch_slice :: "'a list \<Rightarrow> int \<Rightarrow> 'a list list" where
  "batch_slice items n = (if items = [] \<or> n \<le> 0 then [] else batches_from items (nat n) 0)"

definition build_plan :: "(phase \<Rightarrow> bool) \<Rightarrow> upgrade_request \<Rightarrow> slurm \<Rightarrow> upgrade_plan" where
  "build_plan ok req s =
     (let size = (if ur_batch_size req \<le> 0 then 10 else ur_batch_size req)
      in \<lparr>pn_dbd = nodes_by_role (ok Dbd) Dbd s, pn_controller = nodes_by_role (ok Controller) Controller s,
          pn_batches = batch_slice (nodes_by_role (ok Compute) Compute s) size, pn_login = nodes_by_role (ok Login) Login s\<rparr>)"

definition plan_nodes :: "upgrade_plan \<Rightarrow> string list" where
  "plan_nodes pl = pn_dbd pl @ pn_controller pl @ concat (pn_batches pl) @ pn_login pl"

text \<open>The loops of an execution, laid out.\<close>

definition enter_if :: "phase \<Rightarrow> 'a list \<Rightarrow> task list" where
  "enter_if p xs = (if xs = [] then [] else [Enter p])"

definition program :: "upgrade_plan \<Rightarrow> task list" where
  "program pl =
     Enter Dbd # map (Each Dbd) (pn_dbd pl) @
     enter_if Controller (pn_controller pl) @ map (Each Controller) (pn_controller pl) @
     enter_if Compute (pn_batches pl) @ map (\<lambda>(i, b). Batch i b) (enumerate 1 (pn_batches pl)) @
     enter_if Login (pn_login pl) @ map (Each Login) (pn_login pl) @ [Set_Active]"

section \<open>Calls of the nodes\<close>

datatype wait = Acked bool string | Ack_Timeout | Canceled

record node_call =
  nc_hub :: bool
  nc_connected :: bool
  nc_sent :: bool
  nc_wait :: wait

definition failed_result :: "string \<Rightarrow> phase \<Rightarrow> node_result" where
  "failed_result e p = \<lparr>nr_ok = False, nr_error = e, nr_version = '''', nr_phase = p\<rparr>"

text \<open>\<open>decode\<close> is the JSON decoder of the detailed acknowledgement that the error text of an acknowledgement carries.\<close>

definition dnf_upgrade_node :: "(string \<rightharpoonup> bool \<times> string \<times> string) \<Rightarrow> phase \<Rightarrow> node_call \<Rightarrow> node_result" where
  "dnf_upgrade_node decode p c =
     (if \<not> nc_hub c then failed_result ''hub not available'' p
      else if \<not> nc_connected c then failed_result ''node offline (clustr-clientd not connected)'' p
      else if \<not> nc_sent c then failed_result ''send failed'' p
      else (case nc_wait c of
              Acked ok text \<Rightarrow>
                (case decode text of
                   Some (ok', e, v) \<Rightarrow> \<lparr>nr_ok = ok', nr_error = e, nr_version = v, nr_phase = p\<rparr>
                 | None \<Rightarrow> \<lparr>nr_ok = ok, nr_error = text, nr_version = '''', nr_phase = p\<rparr>)
            | Ack_Timeout \<Rightarrow> failed_result ''ack timeout'' p
            | Canceled \<Rightarrow> failed_result ''context cancelled'' p))"

definition slurm_names :: "slurm \<Rightarrow> string list \<Rightarrow> string list" where
  "slurm_names s ids = map (\<lambda>i. if sl_hostnames s i = '''' then i else sl_hostnames s i) ids"

text \<open>A command to the controller is on its way when it could be sent; its answer is only logged.\<close>

definition admin_command :: "bool \<Rightarrow> command \<Rightarrow> slurm \<Rightarrow> slurm" where
  "admin_command sent c s = (if sent then s\<lparr>sl_sent := sl_sent s @ [c]\<rparr> else s)"

section \<open>Requests of the operator\<close>

datatype upgrade_error = Build_Not_Found | Build_Not_Completed | Backup_Unconfirmed | Already_Running | Create_Failed
  | Op_Not_Found | Wrong_Status string | No_Previous_Build

text \<open>The calls of the database that a request makes, in the order of the fields.\<close>

record request_io =
  ri_build :: bool
  ri_roles :: bool
  ri_ops :: bool
  ri_active :: bool
  ri_create :: bool
  ri_update :: bool

definition check_build :: "bool \<Rightarrow> string \<Rightarrow> slurm \<Rightarrow> upgrade_error + build" where
  "check_build ok i s =
     (case get_build ok i s of
        None \<Rightarrow> Inl Build_Not_Found
      | Some b \<Rightarrow> if bu_status b \<noteq> ''completed'' then Inl Build_Not_Completed else Inr b)"

definition with_defaults :: "upgrade_request \<Rightarrow> upgrade_request" where
  "with_defaults req =
     req\<lparr>ur_batch_size := (if ur_batch_size req \<le> 0 then 10 else ur_batch_size req),
         ur_drain_min := (if ur_drain_min req \<le> 0 then 30 else ur_drain_min req)\<rparr>"

definition start_upgrade :: "request_io \<Rightarrow> upgrade_request \<Rightarrow> string \<Rightarrow> string \<Rightarrow> int \<Rightarrow> slurm \<Rightarrow> (upgrade_error + string) \<times> slurm" where
  "start_upgrade io req0 actor opid now s =
     (let req = with_defaults req0 in
      case check_build (ri_build io) (ur_build req) s of
        Inl e \<Rightarrow> (Inl e, s)
      | Inr b \<Rightarrow>
          if nodes_by_role (ri_roles io) Dbd s \<noteq> [] \<and> \<not> ur_confirmed req then (Inl Backup_Unconfirmed, s)
          else if has_in_progress (ri_ops io) s then (Inl Already_Running, s)
          else
            (case create_op (ri_create io)
                    \<lparr>uo_id = opid, uo_from = (if ri_active io then sl_active_build s else ''''), uo_to = ur_build req,
                     uo_status = ''queued'', uo_batch_size = ur_batch_size req, uo_drain_min = ur_drain_min req,
                     uo_confirmed = ur_confirmed req, uo_by = actor, uo_phase = '''', uo_current = 0, uo_total = 0, uo_started = now,
                     uo_completed = None, uo_results = None\<rparr> s of
               (False, s) \<Rightarrow> (Inl Create_Failed, s)
             | (True, s) \<Rightarrow> (Inr opid, s\<lparr>sl_pending := sl_pending s @ [(opid, req)]\<rparr>)))"

text \<open>The run that \<open>activeUpgrade\<close> points to, when it is one of the operation.\<close>

definition active_run :: "string \<Rightarrow> slurm \<Rightarrow> nat option" where
  "active_run i s =
     (case sl_current s of
        None \<Rightarrow> None
      | Some k \<Rightarrow> (case sl_runs s k of Some r \<Rightarrow> if rn_op r = i then Some k else None | None \<Rightarrow> None))"

definition upd_run :: "nat \<Rightarrow> (run \<Rightarrow> run) \<Rightarrow> slurm \<Rightarrow> slurm" where
  "upd_run k f s = s\<lparr>sl_runs := (sl_runs s)(k := map_option f (sl_runs s k))\<rparr>"

definition pause_upgrade :: "request_io \<Rightarrow> string \<Rightarrow> slurm \<Rightarrow> upgrade_error option \<times> slurm" where
  "pause_upgrade io i s =
     (case find_op i s of
        None \<Rightarrow> (Some Op_Not_Found, s)
      | Some o' \<Rightarrow>
          if uo_status o' \<noteq> ''in_progress'' then (Some (Wrong_Status (uo_status o')), s)
          else
            (let s = (case active_run i s of Some k \<Rightarrow> upd_run k (\<lambda>r. r\<lparr>rn_paused := True\<rparr>) s | None \<Rightarrow> s)
             in (None, update_op (ri_update io) i
                   ((blank_update ''paused'')\<lparr>up_phase := uo_phase o', up_current := uo_current o', up_total := uo_total o'\<rparr>) s)))"

definition request_of :: "upgrade_op \<Rightarrow> string \<Rightarrow> upgrade_request" where
  "request_of o' b = \<lparr>ur_build = b, ur_batch_size = uo_batch_size o', ur_drain_min = uo_drain_min o', ur_confirmed = uo_confirmed o'\<rparr>"

definition resume_upgrade :: "string \<Rightarrow> slurm \<Rightarrow> upgrade_error option \<times> slurm" where
  "resume_upgrade i s =
     (case find_op i s of
        None \<Rightarrow> (Some Op_Not_Found, s)
      | Some o' \<Rightarrow>
          if uo_status o' \<noteq> ''paused'' then (Some (Wrong_Status (uo_status o')), s)
          else (None, s\<lparr>sl_pending := sl_pending s @ [(i, request_of o' (uo_to o'))]\<rparr>))"

definition rollback_upgrade :: "request_io \<Rightarrow> string \<Rightarrow> string \<Rightarrow> int \<Rightarrow> slurm \<Rightarrow> (upgrade_error + string) \<times> slurm" where
  "rollback_upgrade io i opid now s =
     (case find_op i s of
        None \<Rightarrow> (Inl Op_Not_Found, s)
      | Some o' \<Rightarrow>
          if uo_status o' \<notin> {''in_progress'', ''paused'', ''failed'', ''completed''} then (Inl (Wrong_Status (uo_status o')), s)
          else if uo_from o' = '''' then (Inl No_Previous_Build, s)
          else
            (case check_build (ri_build io) (uo_from o') s of
               Inl e \<Rightarrow> (Inl e, s)
             | Inr b \<Rightarrow>
                 (let s = (case active_run i s of
                             Some k \<Rightarrow> (upd_run k (\<lambda>r. r\<lparr>rn_canceled := True\<rparr>) s)\<lparr>sl_current := None\<rparr>
                           | None \<Rightarrow> s);
                      s = update_op (ri_update io) i ((blank_update ''rolled_back'')\<lparr>up_phase := uo_phase o', up_completed := Some now\<rparr>) s
                  in start_upgrade io (request_of o' (uo_from o')) (''rollback:'' @ i) opid now s)))"

section \<open>Execution\<close>

text \<open>The end of a goroutine, with its deferred function.\<close>

definition end_run :: "nat \<Rightarrow> slurm \<Rightarrow> slurm" where
  "end_run k s =
     (case sl_runs s k of
        None \<Rightarrow> s
      | Some r \<Rightarrow>
          upd_run k (\<lambda>r. r\<lparr>rn_over := True, rn_canceled := True, rn_tasks := []\<rparr>)
            (if active_run (rn_op r) s = None then s else s\<lparr>sl_current := None\<rparr>))"

definition fail_upgrade :: "bool \<Rightarrow> int \<Rightarrow> nat \<Rightarrow> string \<Rightarrow> slurm \<Rightarrow> slurm" where
  "fail_upgrade ok now k i s = end_run k (update_op ok i ((blank_update ''failed'')\<lparr>up_completed := Some now\<rparr>) s)"

definition pause_or_cancel :: "bool \<Rightarrow> nat \<Rightarrow> run \<Rightarrow> slurm \<Rightarrow> slurm" where
  "pause_or_cancel ok k r s =
     (let paused = (case active_run (rn_op r) s of
                      None \<Rightarrow> False
                    | Some j \<Rightarrow> (case sl_runs s j of Some q \<Rightarrow> rn_paused q | None \<Rightarrow> False))
      in end_run k (update_op ok (rn_op r)
           ((blank_update (if paused then ''paused'' else ''failed''))\<lparr>up_results := Some (rn_results r)\<rparr>) s))"

record launch_io =
  li_mark :: bool
  li_build :: bool
  li_update :: bool
  li_roles :: "phase \<Rightarrow> bool"

text \<open>The goroutine starts: it makes itself the active one, marks the operation and makes its plan.\<close>

definition launch :: "launch_io \<Rightarrow> int \<Rightarrow> nat \<Rightarrow> string \<Rightarrow> upgrade_request \<Rightarrow> slurm \<Rightarrow> slurm" where
  "launch io now k i req s =
     (let pl = build_plan (li_roles io) req s;
          r = \<lparr>rn_op = i, rn_build = ur_build req, rn_drain_min = ur_drain_min req, rn_plan = pl, rn_paused = False, rn_canceled = False,
               rn_over = False, rn_tasks = program pl, rn_results = (\<lambda>_. None), rn_log = []\<rparr>;
          s = s\<lparr>sl_runs := (sl_runs s)(k \<mapsto> r), sl_current := Some k\<rparr>
      in if \<not> li_mark io then end_run k s
         else
           (let s = update_op True i ((blank_update ''in_progress'')\<lparr>up_phase := ''starting''\<rparr>) s
            in if get_build (li_build io) (ur_build req) s = None then fail_upgrade (li_update io) now k i s else s))"

definition record_result :: "bool \<Rightarrow> bool \<Rightarrow> nat \<Rightarrow> string \<Rightarrow> node_result \<Rightarrow> slurm \<Rightarrow> slurm" where
  "record_result persist version k node res s =
     (case sl_runs s k of
        None \<Rightarrow> s
      | Some r \<Rightarrow>
          (let results = (rn_results r)(node \<mapsto> res);
               s = upd_run k (\<lambda>r. r\<lparr>rn_results := results, rn_log := rn_log r @ [(nr_phase res, node, nr_ok res)]\<rparr>) s;
               s = update_results persist (rn_op r) results s
           in if nr_ok res \<and> nr_version res \<noteq> '''' then upsert_version version node (nr_version res) (rn_build r) s else s))"

fun record_all :: "bool \<Rightarrow> bool \<Rightarrow> nat \<Rightarrow> (string \<times> node_result) list \<Rightarrow> slurm \<Rightarrow> slurm" where
  "record_all persist version k [] s = s"
| "record_all persist version k ((n, res) # rs) s = record_all persist version k rs (record_result persist version k n res s)"

definition phase_update :: "run \<Rightarrow> phase \<Rightarrow> nat \<Rightarrow> op_update" where
  "phase_update r p batch =
     (blank_update ''in_progress'')\<lparr>up_phase := role_name p, up_current := batch, up_total := length (pn_batches (rn_plan r))\<rparr>"

text \<open>
  What the calls of one task answer: the updates of the row, the result of the node or of the nodes of a batch in the order in which they
  came, and whether the drain and the resume could be sent.
\<close>

record task_io =
  ti_update :: bool
  ti_persist :: bool
  ti_version :: bool
  ti_active :: bool
  ti_now :: int
  ti_call :: node_call
  ti_calls :: "(string \<times> node_call) list"
  ti_drain :: bool
  ti_resume :: bool

definition controller_of :: "run \<Rightarrow> string option" where
  "controller_of r = (case pn_controller (rn_plan r) of [] \<Rightarrow> None | c # _ \<Rightarrow> Some c)"

definition stopping :: "run \<Rightarrow> bool" where
  "stopping r \<longleftrightarrow> rn_canceled r \<or> rn_paused r"

definition set_tasks :: "nat \<Rightarrow> task list \<Rightarrow> slurm \<Rightarrow> slurm" where
  "set_tasks k ts s = upd_run k (\<lambda>r. r\<lparr>rn_tasks := ts\<rparr>) s"

fun run_task :: "(string \<rightharpoonup> bool \<times> string \<times> string) \<Rightarrow> task_io \<Rightarrow> nat \<Rightarrow> run \<Rightarrow> task \<Rightarrow> task list \<Rightarrow> slurm \<Rightarrow> slurm" where
  "run_task decode io k r (Enter p) ts s = set_tasks k ts (update_op (ti_update io) (rn_op r) (phase_update r p 0) s)"
| "run_task decode io k r (Each p n) ts s =
     (if stopping r then pause_or_cancel (ti_update io) k r s
      else set_tasks k (Await_Node p n # ts)
             (admin_command (nc_hub (ti_call io) \<and> nc_connected (ti_call io) \<and> nc_sent (ti_call io)) (Cmd_Upgrade n (rn_build r)) s))"
| "run_task decode io k r (Await_Node p n) ts s =
     (let res = dnf_upgrade_node decode p (ti_call io);
          s = record_result (ti_persist io) (ti_version io) k n res s
      in if \<not> nr_ok res \<and> p \<noteq> Login then fail_upgrade (ti_update io) (ti_now io) k (rn_op r) s else set_tasks k ts s)"
| "run_task decode io k r (Batch i ns) ts s =
     (if stopping r then pause_or_cancel (ti_update io) k r s
      else
        (let s = update_op (ti_update io) (rn_op r) (phase_update r Compute i) s;
             s = (case controller_of r of None \<Rightarrow> s | Some c \<Rightarrow> admin_command (ti_drain io) (Cmd_Drain c (slurm_names s ns)) s)
         in set_tasks k (Await_Batch i ns # ts) s))"
| "run_task decode io k r (Await_Batch i ns) ts s =
     (let results = map (\<lambda>(n, c). (n, dnf_upgrade_node decode Compute c)) (ti_calls io);
          s = record_all (ti_persist io) (ti_version io) k results s;
          s = (case controller_of r of None \<Rightarrow> s | Some c \<Rightarrow> admin_command (ti_resume io) (Cmd_Resume c (slurm_names s ns)) s)
      in if \<forall>(n, res) \<in> set results. nr_ok res then set_tasks k ts s
         else fail_upgrade (ti_update io) (ti_now io) k (rn_op r) s)"
| "run_task decode io k r Set_Active ts s =
     end_run k (update_op (ti_update io) (rn_op r)
       \<lparr>up_status = ''completed'', up_phase = ''done'', up_current = 0, up_total = length (pn_batches (rn_plan r)),
        up_completed = Some (ti_now io), up_results = Some (rn_results r)\<rparr>
       (set_active_build (ti_active io) (rn_build r) s))"

text \<open>The answers fit the task: a batch has one for each of its nodes, and a wait is broken off only when the run is canceled.\<close>

fun io_fits :: "task_io \<Rightarrow> run \<Rightarrow> task \<Rightarrow> bool" where
  "io_fits io r (Await_Node p n) \<longleftrightarrow> (nc_wait (ti_call io) = Canceled \<longrightarrow> rn_canceled r)"
| "io_fits io r (Await_Batch i ns) \<longleftrightarrow>
     length (ti_calls io) = length ns \<and> set (map fst (ti_calls io)) = set ns \<and>
     (\<forall>(n, c) \<in> set (ti_calls io). nc_wait c = Canceled \<longrightarrow> rn_canceled r)"
| "io_fits io r t \<longleftrightarrow> True"

datatype upgrade_label = Started string | Paused string | Resumed string | Rolled_Back string string | Launched nat | Ran nat | Restarted

inductive upgrade_step :: "(string \<rightharpoonup> bool \<times> string \<times> string) \<Rightarrow> upgrade_label \<Rightarrow> slurm \<Rightarrow> slurm \<Rightarrow> bool" for decode where
  started: "start_upgrade io req actor i now s = (Inr i, s') \<Longrightarrow> upgrade_step decode (Started i) s s'"
| paused: "pause_upgrade io i s = (None, s') \<Longrightarrow> upgrade_step decode (Paused i) s s'"
| resumed: "resume_upgrade i s = (None, s') \<Longrightarrow> upgrade_step decode (Resumed i) s s'"
| rolled_back: "rollback_upgrade io i j now s = (x, s') \<Longrightarrow> upgrade_step decode (Rolled_Back i j) s s'"
| launched: "sl_pending s = xs @ (i, req) # ys \<Longrightarrow> sl_runs s k = None \<Longrightarrow>
     upgrade_step decode (Launched k) s (launch io now k i req (s\<lparr>sl_pending := xs @ ys\<rparr>))"
| ran: "sl_runs s k = Some r \<Longrightarrow> \<not> rn_over r \<Longrightarrow> rn_tasks r = t # ts \<Longrightarrow> io_fits io r t \<Longrightarrow>
     upgrade_step decode (Ran k) s (run_task decode io k r t ts s)"
| restarted: "upgrade_step decode Restarted s (s\<lparr>sl_pending := [], sl_runs := (\<lambda>_. None), sl_current := None\<rparr>)"

definition upgrade_reach :: "(string \<rightharpoonup> bool \<times> string \<times> string) \<Rightarrow> slurm \<Rightarrow> slurm \<Rightarrow> bool" where
  "upgrade_reach decode = (\<lambda>s s'. \<exists>l. upgrade_step decode l s s')\<^sup>*\<^sup>*"

section \<open>The parts of a state that a statement leaves alone\<close>

lemma update_op_runs [simp]: "sl_runs (update_op ok i u s) = sl_runs s" "sl_current (update_op ok i u s) = sl_current s"
  "sl_builds (update_op ok i u s) = sl_builds s" "sl_active_build (update_op ok i u s) = sl_active_build s"
  "sl_pending (update_op ok i u s) = sl_pending s" "sl_roles (update_op ok i u s) = sl_roles s"
  by (auto simp: update_op_def)

lemma update_results_runs [simp]: "sl_runs (update_results ok i u s) = sl_runs s" "sl_current (update_results ok i u s) = sl_current s"
  "sl_builds (update_results ok i u s) = sl_builds s" "sl_active_build (update_results ok i u s) = sl_active_build s"
  by (auto simp: update_results_def)

lemma set_active_build_runs [simp]: "sl_runs (set_active_build ok i s) = sl_runs s" "sl_current (set_active_build ok i s) = sl_current s"
  "sl_ops (set_active_build ok i s) = sl_ops s"
  by (auto simp: set_active_build_def split: option.splits)

lemma upsert_version_runs [simp]: "sl_runs (upsert_version ok n v i s) = sl_runs s" "sl_current (upsert_version ok n v i s) = sl_current s"
  "sl_ops (upsert_version ok n v i s) = sl_ops s" "sl_builds (upsert_version ok n v i s) = sl_builds s"
  "sl_active_build (upsert_version ok n v i s) = sl_active_build s"
  by (auto simp: upsert_version_def)

lemma admin_command_runs [simp]: "sl_runs (admin_command ok c s) = sl_runs s" "sl_current (admin_command ok c s) = sl_current s"
  "sl_ops (admin_command ok c s) = sl_ops s" "sl_builds (admin_command ok c s) = sl_builds s"
  "sl_active_build (admin_command ok c s) = sl_active_build s"
  by (auto simp: admin_command_def)

lemma upd_run_rest [simp]: "sl_current (upd_run k f s) = sl_current s" "sl_ops (upd_run k f s) = sl_ops s"
  "sl_builds (upd_run k f s) = sl_builds s" "sl_active_build (upd_run k f s) = sl_active_build s"
  "sl_pending (upd_run k f s) = sl_pending s"
  by (auto simp: upd_run_def)

lemma upd_run_runs: "sl_runs (upd_run k f s) j = (if j = k then map_option f (sl_runs s k) else sl_runs s j)"
  by (simp add: upd_run_def)

lemma end_run_rest [simp]: "sl_ops (end_run k s) = sl_ops s" "sl_builds (end_run k s) = sl_builds s"
  "sl_active_build (end_run k s) = sl_active_build s" "sl_pending (end_run k s) = sl_pending s"
  by (auto simp: end_run_def split: option.splits)

lemma end_run_runs:
  "sl_runs (end_run k s) j =
     (if j = k then map_option (\<lambda>r. r\<lparr>rn_over := True, rn_canceled := True, rn_tasks := []\<rparr>) (sl_runs s k) else sl_runs s j)"
  by (auto simp: end_run_def upd_run_runs split: option.splits)

lemma apply_update_id [simp]: "uo_id (apply_update u o') = uo_id o'"
  by (simp add: apply_update_def)

lemma find_op_update_op:
  "find_op j (update_op ok i u s) = (if ok \<and> j = i then map_option (apply_update u) (find_op j s) else find_op j s)"
proof (cases ok)
  case True
  have "find (\<lambda>o'. uo_id o' = j) (map (\<lambda>o'. if uo_id o' = i then apply_update u o' else o') ops) =
      (if j = i then map_option (apply_update u) (find (\<lambda>o'. uo_id o' = j) ops) else find (\<lambda>o'. uo_id o' = j) ops)" for ops
    by (induction ops) auto
  with True show ?thesis by (simp add: find_op_def update_op_def)
qed (simp add: update_op_def)

lemma find_snoc: "find P (xs @ [x]) = (case find P xs of None \<Rightarrow> if P x then Some x else None | Some y \<Rightarrow> Some y)"
  by (induction xs) auto

lemma find_op_start:
  assumes "start_upgrade io req actor j now s = (x, s')" "find_op i s = Some o'"
  shows "find_op i s' = Some o'"
  using assms by (auto simp: start_upgrade_def create_op_def Let_def find_op_def find_snoc split: sum.splits if_splits)

lemma find_op_same: "sl_ops s = sl_ops s' \<Longrightarrow> find_op i s = find_op i s'"
  by (simp add: find_op_def)

lemma start_upgrade_rest:
  assumes "start_upgrade io req actor i now s = (x, s')"
  shows "sl_runs s' = sl_runs s" "sl_current s' = sl_current s" "sl_active_build s' = sl_active_build s" "sl_builds s' = sl_builds s"
  using assms by (auto simp: start_upgrade_def create_op_def Let_def split: sum.splits if_splits)

section \<open>The order of an upgrade\<close>

text \<open>What a task must find done: the nodes of the phases before, and of the batches before.\<close>

fun nodes_of :: "task \<Rightarrow> (phase \<times> string) list" where
  "nodes_of (Each p n) = [(p, n)]"
| "nodes_of (Batch i ns) = map (Pair Compute) ns"
| "nodes_of t = []"

fun planned :: "task \<Rightarrow> task" where
  "planned (Await_Node p n) = Each p n"
| "planned (Await_Batch i ns) = Batch i ns"
| "planned t = t"

definition phase_nodes :: "upgrade_plan \<Rightarrow> phase \<Rightarrow> (phase \<times> string) list" where
  "phase_nodes pl p =
     map (Pair p) (case p of Dbd \<Rightarrow> pn_dbd pl | Controller \<Rightarrow> pn_controller pl | Compute \<Rightarrow> concat (pn_batches pl) | Login \<Rightarrow> pn_login pl)"

fun required :: "upgrade_plan \<Rightarrow> task \<Rightarrow> (phase \<times> string) list" where
  "required pl (Each Dbd n) = []"
| "required pl (Each Controller n) = phase_nodes pl Dbd"
| "required pl (Each Compute n) = phase_nodes pl Dbd @ phase_nodes pl Controller"
| "required pl (Each Login n) = phase_nodes pl Dbd @ phase_nodes pl Controller @ phase_nodes pl Compute"
| "required pl (Batch i ns) =
     phase_nodes pl Dbd @ phase_nodes pl Controller @ map (Pair Compute) (concat (take (i - 1) (pn_batches pl)))"
| "required pl Set_Active = phase_nodes pl Dbd @ phase_nodes pl Controller @ phase_nodes pl Compute"
| "required pl t = []"

fun task_rank :: "nat \<Rightarrow> task \<Rightarrow> nat" where
  "task_rank b (Enter Dbd) = 0"
| "task_rank b (Each Dbd n) = 0"
| "task_rank b (Enter Controller) = 1"
| "task_rank b (Each Controller n) = 1"
| "task_rank b (Batch i ns) = 2 + i"
| "task_rank b (Await_Batch i ns) = 2 + i"
| "task_rank b (Enter Login) = 3 + b"
| "task_rank b (Each Login n) = 3 + b"
| "task_rank b Set_Active = 4 + b"
| "task_rank b t = 2"

lemma sorted_const_map [simp]: "sorted (map (\<lambda>x. c) xs)" for c :: nat
  by (induction xs) auto

lemma sorted_batch_ranks [simp]: "sorted (map (\<lambda>x. task_rank b (case x of (i, b) \<Rightarrow> Batch i b)) (enumerate i bs))"
  by (induction bs arbitrary: i) (auto simp: in_set_enumerate_eq)

lemma program_sorted: "sorted (map (task_rank (length (pn_batches pl))) (program pl))"
  by (auto simp: program_def sorted_append enter_if_def in_set_enumerate_eq o_def)

lemma sorted_before:
  assumes "sorted (map f (xs @ t # ys))" "x \<in> set (xs @ t # ys)" "f x < f t"
  shows "x \<in> set xs"
  using assms by (auto simp: sorted_append)

lemma program_batch: "j < length (pn_batches pl) \<Longrightarrow> Batch (Suc j) (pn_batches pl ! j) \<in> set (program pl)"
  by (auto simp: program_def in_set_enumerate_eq image_iff intro!: bexI [of _ "(Suc j, pn_batches pl ! j)"])

text \<open>Each required node is one of a task of lower rank.\<close>

lemma required_earlier:
  assumes "t \<in> set (program pl)" "(q, n) \<in> set (required pl t)"
  shows "\<exists>x \<in> set (program pl). task_rank (length (pn_batches pl)) x < task_rank (length (pn_batches pl)) t \<and> (q, n) \<in> set (nodes_of x) \<and> q \<noteq> Login"
proof -
  let ?r = "task_rank (length (pn_batches pl))"
  have batch: "t = Batch i ns \<Longrightarrow> 0 < i \<and> i \<le> length (pn_batches pl)" for i ns
    using assms(1) by (auto simp: program_def enter_if_def in_set_enumerate_eq split: if_splits)
  have dbd: "\<exists>x \<in> set (program pl). ?r x < ?r t \<and> (q, n) \<in> set (nodes_of x) \<and> q \<noteq> Login"
    if "(q, n) \<in> set (phase_nodes pl Dbd)" "0 < ?r t"
    using that by (intro bexI [of _ "Each Dbd n"]) (auto simp: phase_nodes_def program_def)
  have controller: "\<exists>x \<in> set (program pl). ?r x < ?r t \<and> (q, n) \<in> set (nodes_of x) \<and> q \<noteq> Login"
    if "(q, n) \<in> set (phase_nodes pl Controller)" "1 < ?r t"
    using that by (intro bexI [of _ "Each Controller n"]) (auto simp: phase_nodes_def program_def)
  have compute: "\<exists>x \<in> set (program pl). ?r x < ?r t \<and> (q, n) \<in> set (nodes_of x) \<and> q \<noteq> Login"
    if "q = Compute" "n \<in> set (pn_batches pl ! j)" "j < length (pn_batches pl)" "3 + j < ?r t" for j
    using that program_batch [of j pl] by (intro bexI [of _ "Batch (Suc j) (pn_batches pl ! j)"]) auto
  have computes: "\<exists>x \<in> set (program pl). ?r x < ?r t \<and> (q, n) \<in> set (nodes_of x) \<and> q \<noteq> Login"
    if "q = Compute" "ns \<in> set (take m (pn_batches pl))" "n \<in> set ns" "2 + min m (length (pn_batches pl)) < ?r t" for m ns
    using that compute by (auto simp: in_set_conv_nth [of _ "take m (pn_batches pl)"])
  show ?thesis
  proof (cases "\<exists>i ns. t = Batch i ns")
    case True
    then obtain i ns where t: "t = Batch i ns" by blast
    show ?thesis using assms(2) dbd controller computes [where m = "i - 1"] batch [OF t] by (auto simp: t)
  next
    case False
    have compute_phase: "\<exists>ns \<in> set (pn_batches pl). q = Compute \<and> n \<in> set ns" if "(q, n) \<in> set (phase_nodes pl Compute)"
      using that by (auto simp: phase_nodes_def)
    have last: "\<exists>x \<in> set (program pl). ?r x < ?r t \<and> (q, n) \<in> set (nodes_of x) \<and> q \<noteq> Login"
      if rank: "3 + length (pn_batches pl) \<le> ?r t" and mem: "(q, n) \<in> set (phase_nodes pl Dbd @ phase_nodes pl Controller @ phase_nodes pl Compute)"
    proof -
      consider "(q, n) \<in> set (phase_nodes pl Dbd)" | "(q, n) \<in> set (phase_nodes pl Controller)"
        | ns where "q = Compute" "ns \<in> set (pn_batches pl)" "n \<in> set ns"
        using mem compute_phase unfolding set_append by blast
      then show ?thesis
      proof cases
        case 1
        then show ?thesis using rank by (intro dbd) simp_all
      next
        case 2
        then show ?thesis using rank by (intro controller) simp_all
      next
        case 3
        then show ?thesis using rank by (intro computes [where m = "length (pn_batches pl)" and ns = ns]) simp_all
      qed
    qed
    show ?thesis
    proof (cases t)
      case (Each p m)
      show ?thesis
      proof (cases p)
        case Dbd
        then show ?thesis using assms(2) Each by simp
      next
        case Controller
        then show ?thesis using assms(2) Each by (intro dbd) simp_all
      next
        case Compute
        then show ?thesis using assms(1) Each by (auto simp: program_def enter_if_def split: if_splits)
      next
        case Login
        then show ?thesis using assms(2) Each by (intro last) simp_all
      qed
    next
      case Set_Active
      then show ?thesis using assms(2) by (intro last) simp_all
    next
      case (Await_Node p m)
      then show ?thesis using assms(1) by (auto simp: program_def enter_if_def split: if_splits)
    next
      case (Await_Batch i ns)
      then show ?thesis using assms(1) by (auto simp: program_def enter_if_def split: if_splits)
    qed (use False assms(2) in auto)
  qed
qed

text \<open>A run that is not over has done a part of its program, and all of it well, but for the login nodes.\<close>

definition covered :: "task list \<Rightarrow> (phase \<times> string \<times> bool) list \<Rightarrow> bool" where
  "covered xs log \<longleftrightarrow> (\<forall>x \<in> set xs. \<forall>(q, n) \<in> set (nodes_of x). q \<noteq> Login \<longrightarrow> (q, n, True) \<in> set log)"

definition run_ok :: "run \<Rightarrow> bool" where
  "run_ok r \<longleftrightarrow>
     (if rn_over r then rn_tasks r = []
      else \<exists>xs. program (rn_plan r) = xs @ map planned (rn_tasks r) \<and> covered xs (rn_log r))"

definition runs_ok :: "slurm \<Rightarrow> bool" where
  "runs_ok s \<longleftrightarrow> (\<forall>k r. sl_runs s k = Some r \<longrightarrow> run_ok r)"

lemma covered_append: "covered xs log \<Longrightarrow> covered xs (log @ more')"
  by (auto simp: covered_def)

lemma covered_snoc:
  "covered xs log \<Longrightarrow> (\<And>q n. (q, n) \<in> set (nodes_of x) \<Longrightarrow> q \<noteq> Login \<Longrightarrow> (q, n, True) \<in> set log) \<Longrightarrow> covered (xs @ [x]) log"
  by (auto simp: covered_def)

lemma run_ok_required:
  assumes "run_ok r" "rn_tasks r = t # ts" "(q, n) \<in> set (required (rn_plan r) (planned t))"
  shows "(q, n, True) \<in> set (rn_log r)"
proof -
  from assms(1,2) obtain xs where xs: "program (rn_plan r) = xs @ planned t # map planned ts" "covered xs (rn_log r)"
    by (auto simp: run_ok_def split: if_splits)
  let ?r = "task_rank (length (pn_batches (rn_plan r)))"
  obtain x where x: "x \<in> set (program (rn_plan r))" "?r x < ?r (planned t)" "(q, n) \<in> set (nodes_of x)" "q \<noteq> Login"
    using required_earlier [of "planned t" "rn_plan r" q n] assms(3) xs(1) by auto
  then have "x \<in> set xs"
    using sorted_before [of ?r xs "planned t" "map planned ts" x] program_sorted [of "rn_plan r"] xs(1) by auto
  with x xs(2) show ?thesis by (auto simp: covered_def)
qed

lemma runs_okD: "runs_ok s \<Longrightarrow> sl_runs s k = Some r \<Longrightarrow> run_ok r"
  by (simp add: runs_ok_def)

lemma runs_ok_statements [simp]: "runs_ok (update_op ok i u s) = runs_ok s" "runs_ok (update_results ok i v s) = runs_ok s"
  "runs_ok (set_active_build ok i s) = runs_ok s" "runs_ok (upsert_version ok n w i s) = runs_ok s"
  "runs_ok (admin_command ok c s) = runs_ok s"
  by (simp_all add: runs_ok_def)

lemma runs_ok_upd_run:
  assumes "runs_ok s" "\<And>r. sl_runs s k = Some r \<Longrightarrow> run_ok (f r)"
  shows "runs_ok (upd_run k f s)"
  using assms by (auto simp: runs_ok_def upd_run_runs)

lemma runs_ok_end_run: "runs_ok s \<Longrightarrow> runs_ok (end_run k s)"
  by (auto simp: runs_ok_def end_run_runs run_ok_def)

lemma run_ok_flags [simp]: "run_ok (r\<lparr>rn_paused := x\<rparr>) = run_ok r" "run_ok (r\<lparr>rn_canceled := y\<rparr>) = run_ok r"
  by (simp_all add: run_ok_def)

lemma runs_ok_flag:
  assumes "runs_ok s"
  shows "runs_ok (upd_run k (rn_paused_update (\<lambda>_. x)) s)" "runs_ok (upd_run k (rn_canceled_update (\<lambda>_. x)) s)"
  using runs_okD [OF assms] by (simp_all add: runs_ok_upd_run [OF assms])

lemma run_ok_recorded: "run_ok r \<Longrightarrow> run_ok (r\<lparr>rn_results := m, rn_log := rn_log r @ l\<rparr>)"
  by (auto simp: run_ok_def covered_append split: if_splits)

lemma run_ok_replace: "run_ok r \<Longrightarrow> rn_tasks r = t # ts \<Longrightarrow> planned t = planned t' \<Longrightarrow> run_ok (r\<lparr>rn_tasks := t' # ts\<rparr>)"
  by (auto simp: run_ok_def split: if_splits)

lemma run_ok_advance:
  assumes "run_ok r" "rn_tasks r = t # ts"
    "\<And>q n. (q, n) \<in> set (nodes_of (planned t)) \<Longrightarrow> q \<noteq> Login \<Longrightarrow> (q, n, True) \<in> set (rn_log r)"
  shows "run_ok (r\<lparr>rn_tasks := ts\<rparr>)"
proof -
  from assms(1,2) obtain xs where over: "\<not> rn_over r"
    and "program (rn_plan r) = xs @ planned t # map planned ts" "covered xs (rn_log r)"
    by (auto simp: run_ok_def split: if_splits)
  then have "program (rn_plan r) = (xs @ [planned t]) @ map planned ts \<and> covered (xs @ [planned t]) (rn_log r)"
    using assms(3) covered_snoc by simp
  with over show ?thesis unfolding run_ok_def by auto
qed

text \<open>What recording a result does to a run.\<close>

lemma record_result_run:
  assumes "sl_runs s k = Some r"
  shows "sl_runs (record_result a b k n res s) k =
      Some (r\<lparr>rn_results := (rn_results r)(n \<mapsto> res), rn_log := rn_log r @ [(nr_phase res, n, nr_ok res)]\<rparr>)"
  using assms by (simp add: record_result_def Let_def upd_run_runs)

lemma record_result_rest [simp]: "sl_current (record_result a b k n res s) = sl_current s"
  "sl_builds (record_result a b k n res s) = sl_builds s" "sl_active_build (record_result a b k n res s) = sl_active_build s"
  by (auto simp: record_result_def Let_def split: option.splits)

lemma runs_ok_record_result: "runs_ok s \<Longrightarrow> runs_ok (record_result a b k n res s)"
  by (auto simp: record_result_def Let_def intro!: runs_ok_upd_run run_ok_recorded dest: runs_okD split: option.splits)

lemma record_all_run:
  assumes "sl_runs s k = Some r"
  shows "\<exists>m. dom m = dom (rn_results r) \<union> fst ` set xs \<and> sl_runs (record_all a b k xs s) k =
      Some (r\<lparr>rn_results := m, rn_log := rn_log r @ map (\<lambda>(n, res). (nr_phase res, n, nr_ok res)) xs\<rparr>)"
  using assms
proof (induction xs arbitrary: s r)
  case Nil
  then show ?case by (auto intro!: exI [of _ "rn_results r"])
next
  case (Cons x xs)
  obtain n res where x: "x = (n, res)" by force
  from Cons.IH [OF record_result_run [OF Cons.prems, of a b n res]] obtain m where
    "dom m = dom (\<lambda>a. if a = n then Some res else rn_results r a) \<union> fst ` set xs"
    "sl_runs (record_all a b k xs (record_result a b k n res s)) k = Some (r\<lparr>rn_results := m,
       rn_log := rn_log r @ (nr_phase res, n, nr_ok res) # map (\<lambda>(n, res). (nr_phase res, n, nr_ok res)) xs\<rparr>)"
    by auto
  moreover have "dom (\<lambda>a. if a = n then Some res else rn_results r a) = insert n (dom (rn_results r))"
    by auto
  ultimately show ?case by (auto simp: x intro!: exI [of _ m])
qed

lemma record_all_rest [simp]: "sl_current (record_all a b k xs s) = sl_current s"
  "sl_builds (record_all a b k xs s) = sl_builds s" "sl_active_build (record_all a b k xs s) = sl_active_build s"
  by (induction xs arbitrary: s) auto

lemma runs_ok_record_all: "runs_ok s \<Longrightarrow> runs_ok (record_all a b k xs s)"
  by (induction xs arbitrary: s) (auto simp: runs_ok_record_result)

lemma dnf_phase: "nr_phase (dnf_upgrade_node decode p c) = p"
  by (auto simp: dnf_upgrade_node_def failed_result_def split: wait.splits option.splits)

lemma runs_ok_set_tasks:
  assumes "runs_ok s" "sl_runs s k = Some r" "run_ok (r\<lparr>rn_tasks := ts\<rparr>)"
  shows "runs_ok (set_tasks k ts s)"
  unfolding set_tasks_def using assms by (intro runs_ok_upd_run) simp_all

lemma runs_ok_stop: "runs_ok s \<Longrightarrow> runs_ok (pause_or_cancel ok k r s)" "runs_ok s \<Longrightarrow> runs_ok (fail_upgrade ok now k i s)"
  by (simp_all add: pause_or_cancel_def fail_upgrade_def runs_ok_end_run)

text \<open>A task keeps the invariant; its next one starts when it is done.\<close>

lemma run_task_ok:
  assumes ok: "runs_ok s" and run: "sl_runs s k = Some r" "rn_tasks r = t # ts" and fits: "io_fits io r t"
  shows "runs_ok (run_task decode io k r t ts s)"
proof (cases t)
  case (Enter p)
  then show ?thesis using assms run_ok_advance [OF runs_okD [OF ok run(1)] run(2)]
    by (auto intro!: runs_ok_set_tasks)
next
  case (Each p n)
  then show ?thesis using assms run_ok_replace [OF runs_okD [OF ok run(1)] run(2), of "Await_Node p n"]
    by (auto simp: runs_ok_stop intro!: runs_ok_set_tasks)
next
  case (Await_Node p n)
  let ?res = "dnf_upgrade_node decode p (ti_call io)"
  let ?s = "record_result (ti_persist io) (ti_version io) k n ?res s"
  let ?r = "r\<lparr>rn_results := (rn_results r)(n \<mapsto> ?res), rn_log := rn_log r @ [(p, n, nr_ok ?res)]\<rparr>"
  have s: "runs_ok ?s" "sl_runs ?s k = Some ?r"
    using ok run(1) by (simp_all add: runs_ok_record_result record_result_run dnf_phase)
  have "run_ok (?r\<lparr>rn_tasks := ts\<rparr>)" if "nr_ok ?res \<or> p = Login"
    using that Await_Node run(2) by (intro run_ok_advance [OF runs_okD [OF s]]) auto
  then show ?thesis using Await_Node runs_ok_set_tasks [OF s] s(1) by (auto simp: runs_ok_stop Let_def)
next
  case (Batch i ns)
  have "run_ok (r\<lparr>rn_tasks := Await_Batch i ns # ts\<rparr>)"
    using run_ok_replace [OF runs_okD [OF ok run(1)] run(2), of "Await_Batch i ns"] Batch by simp
  then show ?thesis using Batch assms
    by (auto simp: runs_ok_stop Let_def intro!: runs_ok_set_tasks split: option.splits)
next
  case (Await_Batch i ns)
  let ?xs = "map (\<lambda>(n, c). (n, dnf_upgrade_node decode Compute c)) (ti_calls io)"
  let ?s = "record_all (ti_persist io) (ti_version io) k ?xs s"
  let ?t = "case controller_of r of None \<Rightarrow> ?s | Some c \<Rightarrow> admin_command (ti_resume io) (Cmd_Resume c (slurm_names ?s ns)) ?s"
  obtain m where m: "sl_runs ?s k = Some (r\<lparr>rn_results := m, rn_log := rn_log r @ map (\<lambda>(n, res). (nr_phase res, n, nr_ok res)) ?xs\<rparr>)"
    (is "_ = Some ?r") using record_all_run [OF run(1)] by blast
  have s: "runs_ok ?t" "sl_runs ?t k = Some ?r"
    using ok m by (simp_all add: runs_ok_record_all split: option.splits)
  have nodes: "set ns = fst ` set (ti_calls io)" using fits Await_Batch by auto
  have good: "run_ok (?r\<lparr>rn_tasks := ts\<rparr>)" if all: "\<forall>(n, res) \<in> set ?xs. nr_ok res"
  proof (rule run_ok_advance [OF runs_okD [OF s]])
    show "rn_tasks ?r = t # ts" using run(2) by simp
    show "(q, n, True) \<in> set (rn_log ?r)" if "(q, n) \<in> set (nodes_of (planned t))" "q \<noteq> Login" for q n
    proof -
      from that obtain c where "(n, c) \<in> set (ti_calls io)" "q = Compute" using Await_Batch nodes by auto
      with all show ?thesis by (force simp: dnf_phase)
    qed
  qed
  show ?thesis
  proof (cases "\<forall>(n, res) \<in> set ?xs. nr_ok res")
    case True
    show ?thesis unfolding Await_Batch run_task.simps Let_def if_P [OF True] by (rule runs_ok_set_tasks [OF s good [OF True]])
  next
    case False
    show ?thesis unfolding Await_Batch run_task.simps Let_def if_not_P [OF False] by (rule runs_ok_stop(2) [OF s(1)])
  qed
next
  case Set_Active
  then show ?thesis using ok by (simp add: runs_ok_end_run)
qed

lemma launch_ok:
  assumes "runs_ok s"
  shows "runs_ok (launch io now k i req s)"
proof -
  let ?pl = "build_plan (li_roles io) req s"
  have "run_ok \<lparr>rn_op = i, rn_build = ur_build req, rn_drain_min = ur_drain_min req, rn_plan = ?pl, rn_paused = False, rn_canceled = False,
               rn_over = False, rn_tasks = program ?pl, rn_results = (\<lambda>_. None), rn_log = []\<rparr>"
  proof -
    have "planned x = x" if "x \<in> set (program ?pl)" for x
      using that by (auto simp: program_def enter_if_def split: if_splits)
    then have "map planned (program ?pl) = program ?pl" by (intro map_idI)
    then show ?thesis by (auto simp: run_ok_def covered_def)
  qed
  with assms have "runs_ok (s\<lparr>sl_runs := (sl_runs s)(k \<mapsto>
      \<lparr>rn_op = i, rn_build = ur_build req, rn_drain_min = ur_drain_min req, rn_plan = ?pl, rn_paused = False, rn_canceled = False,
       rn_over = False, rn_tasks = program ?pl, rn_results = (\<lambda>_. None), rn_log = []\<rparr>), sl_current := Some k\<rparr>)"
    by (auto simp: runs_ok_def)
  then show ?thesis by (auto simp: launch_def Let_def runs_ok_end_run runs_ok_stop)
qed

lemma start_ok: "start_upgrade io req actor i now s = (x, s') \<Longrightarrow> runs_ok s' = runs_ok s"
  using start_upgrade_rest(1) by (simp add: runs_ok_def)

lemma rollback_ok:
  assumes "runs_ok s" "rollback_upgrade io i j now s = (x, s')"
  shows "runs_ok s'"
proof -
  have "runs_ok (case active_run i s of Some k \<Rightarrow> (upd_run k (\<lambda>r. r\<lparr>rn_canceled := True\<rparr>) s)\<lparr>sl_current := None\<rparr> | None \<Rightarrow> s)"
    using assms(1) runs_ok_flag(2) [OF assms(1), of _ True] unfolding runs_ok_def by (simp split: option.splits)
  then show ?thesis using assms
    by (auto simp: rollback_upgrade_def Let_def start_ok split: option.splits sum.splits if_splits)
qed

lemma upgrade_step_ok:
  assumes "upgrade_step decode l s s'" "runs_ok s"
  shows "runs_ok s'"
  using assms(1)
proof cases
  case (started io req actor i now)
  then show ?thesis using assms(2) start_ok by blast
next
  case (paused io i)
  then show ?thesis using assms(2)
    by (auto simp: pause_upgrade_def runs_ok_flag split: option.splits if_splits)
next
  case (resumed i)
  then show ?thesis using assms(2)
    by (auto simp: resume_upgrade_def runs_ok_def split: option.splits if_splits)
next
  case (rolled_back io i j now x)
  then show ?thesis using assms(2) rollback_ok by blast
next
  case (launched xs i req ys k io now)
  have "runs_ok (s\<lparr>sl_pending := xs @ ys\<rparr>)" using assms(2) by (simp add: runs_ok_def)
  then show ?thesis using launched launch_ok by blast
next
  case (ran k r t ts io)
  then show ?thesis using assms(2) run_task_ok by blast
next
  case restarted
  then show ?thesis by (simp add: runs_ok_def)
qed

lemma upgrade_reach_ok: "upgrade_reach decode s s' \<Longrightarrow> runs_ok s \<Longrightarrow> runs_ok s'"
  unfolding upgrade_reach_def by (induction rule: rtranclp_induct) (auto intro: upgrade_step_ok)

text \<open>Only the end of a run changes the active build.\<close>

lemma stop_active_build [simp]: "sl_active_build (pause_or_cancel ok k r s) = sl_active_build s"
  "sl_active_build (fail_upgrade ok now k i s) = sl_active_build s" "sl_active_build (set_tasks k ts s) = sl_active_build s"
  by (simp_all add: pause_or_cancel_def fail_upgrade_def set_tasks_def)

lemma run_task_active_build:
  assumes "t \<noteq> Set_Active"
  shows "sl_active_build (run_task decode io k r t ts s) = sl_active_build s"
  using assms by (cases t) (auto simp: Let_def split: option.splits)

lemma active_build_change:
  assumes "upgrade_step decode l s s'" "sl_active_build s' \<noteq> sl_active_build s"
  shows "\<exists>k r. l = Ran k \<and> sl_runs s k = Some r \<and> rn_tasks r \<noteq> [] \<and> hd (rn_tasks r) = Set_Active \<and> rn_build r = sl_active_build s' \<and>
    (\<exists>b. sl_builds s (rn_build r) = Some b \<and> bu_status b = ''completed'')"
  using assms(1)
proof cases
  case (started io req actor i now)
  then show ?thesis using assms(2) start_upgrade_rest(3) by metis
next
  case (paused io i)
  then show ?thesis using assms(2)
    by (auto simp: pause_upgrade_def split: option.splits if_splits)
next
  case (resumed i)
  then show ?thesis using assms(2)
    by (auto simp: resume_upgrade_def split: option.splits if_splits)
next
  case (rolled_back io i j now x)
  then show ?thesis using assms(2) start_upgrade_rest(3)
    by (auto simp: rollback_upgrade_def Let_def split: option.splits sum.splits if_splits)
next
  case (launched xs i req ys k io now)
  then show ?thesis using assms(2) by (auto simp: launch_def Let_def split: if_splits)
next
  case (ran k r t ts io)
  then have t: "t = Set_Active" using assms(2) run_task_active_build by metis
  then show ?thesis using ran assms(2)
    by (auto simp: set_active_build_def split: option.splits if_splits)
next
  case restarted
  then show ?thesis using assms(2) by simp
qed

section \<open>A run to its end\<close>

text \<open>The run alone, with the answers its tasks get.\<close>

fun drive :: "(string \<rightharpoonup> bool \<times> string \<times> string) \<Rightarrow> (task \<Rightarrow> task_io) \<Rightarrow> nat \<Rightarrow> nat \<Rightarrow> slurm \<Rightarrow> slurm" where
  "drive decode answers k 0 s = s"
| "drive decode answers k (Suc m) s =
     (case sl_runs s k of
        None \<Rightarrow> s
      | Some r \<Rightarrow>
          (case rn_tasks r of [] \<Rightarrow> s | t # ts \<Rightarrow> drive decode answers k m (run_task decode (answers t) k r t ts s)))"

fun good_answer :: "(string \<rightharpoonup> bool \<times> string \<times> string) \<Rightarrow> task_io \<Rightarrow> task \<Rightarrow> bool" where
  "good_answer decode io (Await_Node p n) \<longleftrightarrow> p = Login \<or> nr_ok (dnf_upgrade_node decode p (ti_call io))"
| "good_answer decode io (Await_Batch i ns) \<longleftrightarrow>
     map fst (ti_calls io) = ns \<and> (\<forall>(n, c) \<in> set (ti_calls io). nr_ok (dnf_upgrade_node decode Compute c))"
| "good_answer decode io Set_Active \<longleftrightarrow> ti_update io \<and> ti_active io"
| "good_answer decode io t \<longleftrightarrow> True"

fun task_weight :: "task \<Rightarrow> nat" where
  "task_weight (Each p n) = 2"
| "task_weight (Batch i ns) = 2"
| "task_weight t = 1"

fun after :: "task \<Rightarrow> task list \<Rightarrow> task list" where
  "after (Each p n) ts = Await_Node p n # ts"
| "after (Batch i ns) ts = Await_Batch i ns # ts"
| "after t ts = ts"

definition left :: "task list \<Rightarrow> string set" where
  "left ts = (\<Union>t \<in> set ts. snd ` set (nodes_of (planned t)))"

lemma left_simps [simp]: "left [] = {}" "left (t # ts) = snd ` set (nodes_of (planned t)) \<union> left ts" "left (xs @ ys) = left xs \<union> left ys"
  by (auto simp: left_def)

lemma find_op_set_tasks [simp]: "find_op i (set_tasks k ts s) = find_op i s"
  by (simp add: find_op_def set_tasks_def)

lemma find_op_admin_command [simp]: "find_op i (admin_command ok c s) = find_op i s"
  by (simp add: find_op_def)

lemma find_op_end_run [simp]: "find_op i (end_run k s) = find_op i s"
  by (simp add: find_op_def)

lemma find_op_set_active_build [simp]: "find_op i (set_active_build ok b s) = find_op i s"
  by (simp add: find_op_def)

lemma find_op_update_results:
  "find_op i (update_results ok j m s) = (if ok \<and> i = j then map_option (\<lambda>o'. o'\<lparr>uo_results := Some m\<rparr>) (find_op i s) else find_op i s)"
proof (cases ok)
  case True
  have eq: "find (\<lambda>o'. uo_id o' = i) (map (\<lambda>o'. if uo_id o' = j then o'\<lparr>uo_results := Some m\<rparr> else o') ops) =
      (if i = j then map_option (\<lambda>o'. o'\<lparr>uo_results := Some m\<rparr>) (find (\<lambda>o'. uo_id o' = i) ops) else find (\<lambda>o'. uo_id o' = i) ops)" for ops
    by (induction ops) auto
  show ?thesis
  proof (cases "i = j")
    case same: True
    with True eq [of "sl_ops s"] show ?thesis by (simp add: find_op_def update_results_def)
  next
    case False
    with True eq [of "sl_ops s"] show ?thesis by (simp add: find_op_def update_results_def)
  qed
qed (simp add: update_results_def)

lemma find_op_upd_run [simp]: "find_op i (upd_run k f s) = find_op i s"
  by (simp add: find_op_def)

lemma find_op_upsert_version [simp]: "find_op i (upsert_version c n v w s) = find_op i s"
  by (simp add: find_op_def)

lemma find_op_record_result: "find_op i (record_result a b k n res s) = None \<longleftrightarrow> find_op i s = None"
proof (cases "sl_runs s k")
  case (Some r)
  let ?s = "upd_run k (\<lambda>r'. r'\<lparr>rn_results := (rn_results r)(n \<mapsto> res), rn_log := rn_log r' @ [(nr_phase res, n, nr_ok res)]\<rparr>) s"
  let ?t = "update_results a (rn_op r) ((rn_results r)(n \<mapsto> res)) ?s"
  have t: "find_op i ?t = None \<longleftrightarrow> find_op i s = None"
    unfolding find_op_update_results find_op_upd_run by (cases "find_op i s"; cases "i = rn_op r") simp_all
  have "record_result a b k n res s = ?t \<or> record_result a b k n res s = upsert_version b n (nr_version res) (rn_build r) ?t"
    unfolding record_result_def Some option.case Let_def by meson
  with t show ?thesis by (elim disjE) simp_all
qed (simp add: record_result_def)

lemma find_op_record_all: "find_op i (record_all a b k xs s) = None \<longleftrightarrow> find_op i s = None"
  by (induction a b k xs s rule: record_all.induct) (simp_all only: record_all.simps find_op_record_result)

text \<open>The run, its operation and its build at some point, with the nodes that have a result or still get one.\<close>

definition underway :: "run \<Rightarrow> task list \<Rightarrow> nat \<Rightarrow> slurm \<Rightarrow> bool" where
  "underway r0 ts k s \<longleftrightarrow>
     (\<exists>r. sl_runs s k = Some r \<and> rn_op r = rn_op r0 \<and> rn_build r = rn_build r0 \<and> rn_plan r = rn_plan r0 \<and> \<not> stopping r \<and> rn_tasks r = ts \<and>
        set (plan_nodes (rn_plan r0)) \<subseteq> dom (rn_results r) \<union> left ts) \<and>
     find_op (rn_op r0) s \<noteq> None \<and> (\<exists>b. sl_builds s (rn_build r0) = Some b \<and> bu_status b = ''completed'')"

lemma underwayI:
  assumes "sl_runs s' k = Some r'" "rn_op r' = rn_op r0" "rn_build r' = rn_build r0" "rn_plan r' = rn_plan r0" "\<not> stopping r'"
    "rn_tasks r' = ts" "set (plan_nodes (rn_plan r0)) \<subseteq> dom (rn_results r') \<union> left ts" "find_op (rn_op r0) s' \<noteq> None"
    "sl_builds s' = sl_builds s" "underway r0 ts0 k s"
  shows "underway r0 ts k s'"
  using assms unfolding underway_def by auto

lemma set_tasks_run: "sl_runs s k = Some r \<Longrightarrow> sl_runs (set_tasks k ts s) k = Some (r\<lparr>rn_tasks := ts\<rparr>)"
  by (simp add: set_tasks_def upd_run_runs)

lemma set_tasks_builds [simp]: "sl_builds (set_tasks k ts s) = sl_builds s"
  by (simp add: set_tasks_def)

lemma stopping_simps [simp]: "stopping (r\<lparr>rn_tasks := ts\<rparr>) = stopping r" "stopping (r\<lparr>rn_results := m, rn_log := l\<rparr>) = stopping r"
  "stopping (r\<lparr>rn_results := m, rn_log := l, rn_tasks := ts\<rparr>) = stopping r"
  by (simp_all add: stopping_def)

lemma run_task_underway:
  assumes under: "underway r0 (t # ts) k s" and run: "sl_runs s k = Some r" and good: "good_answer decode io t" and t: "t \<noteq> Set_Active"
  shows "underway r0 (after t ts) k (run_task decode io k r t ts s)"
proof -
  note U = under [unfolded underway_def]
  have r: "rn_op r = rn_op r0" "rn_build r = rn_build r0" "rn_plan r = rn_plan r0" "\<not> stopping r" "rn_tasks r = t # ts"
      "set (plan_nodes (rn_plan r0)) \<subseteq> dom (rn_results r) \<union> left (t # ts)" "find_op (rn_op r0) s \<noteq> None"
    using U run by auto
  show ?thesis
  proof (cases t)
    case (Enter p)
    show ?thesis
      by (rule underwayI [OF _ _ _ _ _ _ _ _ _ under, where r' = "r\<lparr>rn_tasks := ts\<rparr>"])
        (use Enter r run in \<open>auto simp: set_tasks_run find_op_update_op\<close>)
  next
    case (Each p n)
    show ?thesis
      by (rule underwayI [OF _ _ _ _ _ _ _ _ _ under, where r' = "r\<lparr>rn_tasks := Await_Node p n # ts\<rparr>"])
        (use Each r run in \<open>auto simp: set_tasks_run\<close>)
  next
    case (Batch i ns)
    show ?thesis
      by (rule underwayI [OF _ _ _ _ _ _ _ _ _ under, where r' = "r\<lparr>rn_tasks := Await_Batch i ns # ts\<rparr>"])
        (use Batch r run in \<open>auto simp: set_tasks_run find_op_update_op Let_def split: option.splits\<close>)
  next
    case (Await_Node p n)
    let ?res = "dnf_upgrade_node decode p (ti_call io)"
    let ?s = "record_result (ti_persist io) (ti_version io) k n ?res s"
    let ?r = "r\<lparr>rn_results := (rn_results r)(n \<mapsto> ?res), rn_log := rn_log r @ [(nr_phase ?res, n, nr_ok ?res)]\<rparr>"
    have eq: "run_task decode io k r t ts s = set_tasks k ts ?s"
      using good Await_Node by (auto simp: Let_def)
    show ?thesis unfolding eq
      by (rule underwayI [OF _ _ _ _ _ _ _ _ _ under, where r' = "?r\<lparr>rn_tasks := ts\<rparr>"])
        (use Await_Node r run in \<open>auto simp: set_tasks_run record_result_run find_op_record_result\<close>)
  next
    case (Await_Batch i ns)
    let ?xs = "map (\<lambda>(n, c). (n, dnf_upgrade_node decode Compute c)) (ti_calls io)"
    let ?s = "record_all (ti_persist io) (ti_version io) k ?xs s"
    let ?t = "case controller_of r of None \<Rightarrow> ?s | Some c \<Rightarrow> admin_command (ti_resume io) (Cmd_Resume c (slurm_names ?s ns)) ?s"
    obtain m where m: "dom m = dom (rn_results r) \<union> fst ` set ?xs"
      "sl_runs ?s k = Some (r\<lparr>rn_results := m, rn_log := rn_log r @ map (\<lambda>(n, res). (nr_phase res, n, nr_ok res)) ?xs\<rparr>)"
      (is "_ = Some ?r") using record_all_run [OF run] by blast
    have all: "\<forall>(n, res) \<in> set ?xs. nr_ok res" using good Await_Batch by auto
    have eq: "run_task decode io k r t ts s = set_tasks k ts ?t"
      unfolding Await_Batch run_task.simps Let_def if_P [OF all] ..
    have t: "sl_runs ?t k = Some ?r" "sl_builds ?t = sl_builds s" "find_op (rn_op r0) ?t \<noteq> None"
      using m r(7) by (auto simp: find_op_record_all simp del: not_None_eq split: option.splits)
    have nodes: "fst ` set ?xs = set ns" using good Await_Batch by force
    show ?thesis unfolding eq
      by (rule underwayI [OF set_tasks_run [OF t(1)] _ _ _ _ _ _ _ _ under])
        (use Await_Batch r t m(1) nodes in \<open>auto\<close>)
  qed (use t in simp)
qed

definition finished :: "string \<Rightarrow> string \<Rightarrow> string list \<Rightarrow> nat \<Rightarrow> slurm \<Rightarrow> bool" where
  "finished i b nodes k s \<longleftrightarrow>
     (\<exists>o' res. find_op i s = Some o' \<and> uo_status o' = ''completed'' \<and> uo_phase o' = ''done'' \<and> uo_results o' = Some res \<and>
        set nodes \<subseteq> dom res) \<and>
     sl_active_build s = b \<and> (\<exists>r. sl_runs s k = Some r \<and> rn_over r)"

lemma set_active_finishes:
  assumes "underway r0 [Set_Active] k s" "sl_runs s k = Some r" "good_answer decode io Set_Active"
  shows "finished (rn_op r0) (rn_build r0) (plan_nodes (rn_plan r0)) k (run_task decode io k r Set_Active ts s)"
proof -
  obtain b o' where r: "rn_op r = rn_op r0" "rn_build r = rn_build r0" "set (plan_nodes (rn_plan r0)) \<subseteq> dom (rn_results r)"
    "find_op (rn_op r0) s = Some o'" "sl_builds s (rn_build r0) = Some b" "bu_status b = ''completed''"
    using assms(1,2) by (auto simp: underway_def)
  show ?thesis
    using r assms(2,3) unfolding finished_def
    by (simp add: end_run_runs find_op_update_op apply_update_def) (simp add: set_active_build_def)
qed

lemma after_weight: "task_weight t + n = Suc (sum_list (map task_weight (after t ts)) + n - sum_list (map task_weight ts))"
  by (cases t) simp_all

lemma after_append: "after t (xs @ ys) = after t xs @ ys"
  by (cases t) simp_all

lemma after_set_active: "Set_Active \<notin> set (t # xs) \<Longrightarrow> Set_Active \<notin> set (after t xs)"
  by (cases t) simp_all

lemma drive_finishes:
  assumes "underway r0 (xs @ [Set_Active]) k s" "Set_Active \<notin> set xs" "\<And>t. good_answer decode (answers t) t"
  shows "finished (rn_op r0) (rn_build r0) (plan_nodes (rn_plan r0)) k
      (drive decode answers k (sum_list (map task_weight (xs @ [Set_Active]))) s)"
  using assms(1,2)
proof (induction "sum_list (map task_weight xs)" arbitrary: xs s)
  case 0
  have "xs = []" using 0(1) by (cases xs; cases "hd xs") auto
  moreover from this obtain r where "sl_runs s k = Some r" "rn_tasks r = [Set_Active]"
    using 0(2) by (auto simp: underway_def)
  ultimately show ?case
    using set_active_finishes [of r0 k s r decode "answers Set_Active" "[]", OF _ _ assms(3)] 0(2) by (simp del: run_task.simps)
next
  case (Suc m)
  then obtain t ts where xs: "xs = t # ts" by (cases xs) auto
  obtain r where r: "sl_runs s k = Some r" "rn_tasks r = xs @ [Set_Active]" using Suc.prems(1) by (auto simp: underway_def)
  let ?s = "run_task decode (answers t) k r t (ts @ [Set_Active]) s"
  have "underway r0 (after t (ts @ [Set_Active])) k ?s"
    using run_task_underway [of r0 t "ts @ [Set_Active]" k s r decode "answers t"] Suc.prems xs r assms(3) by auto
  then have "underway r0 (after t ts @ [Set_Active]) k ?s" by (simp add: after_append)
  moreover have "Set_Active \<notin> set (after t ts)" using Suc.prems(2) xs after_set_active by auto
  moreover have "m = sum_list (map task_weight (after t ts))" using Suc.hyps(2) xs by (cases t) simp_all
  ultimately show ?case using Suc.hyps(1) [of "after t ts" ?s] Suc.hyps(2) [symmetric] r xs by simp
qed

lemma launch_underway:
  assumes "sl_builds s (ur_build req) = Some b" "bu_status b = ''completed''" "find_op i s \<noteq> None" "li_mark io" "li_build io"
  defines "pl \<equiv> build_plan (li_roles io) req s"
  shows "\<exists>r0. rn_op r0 = i \<and> rn_build r0 = ur_build req \<and> rn_plan r0 = pl \<and> underway r0 (program pl) k (launch io now k i req s)"
proof -
  let ?r = "\<lparr>rn_op = i, rn_build = ur_build req, rn_drain_min = ur_drain_min req, rn_plan = pl, rn_paused = False, rn_canceled = False,
               rn_over = False, rn_tasks = program pl, rn_results = (\<lambda>_. None), rn_log = []\<rparr>"
  have "left (program pl) = set (plan_nodes pl)"
  proof -
    have [simp]: "left (enter_if p xs) = {}" "left (map (Each p) ns) = set ns" for p ns and xs :: "'a list"
      by (auto simp: enter_if_def left_def)
    have [simp]: "left (map (\<lambda>(i, b). Batch i b) (enumerate m bs)) = set (concat bs)" for m bs
      by (induction bs arbitrary: m) (auto simp: image_image)
    show ?thesis by (auto simp: program_def plan_nodes_def)
  qed
  moreover have "sl_runs (launch io now k i req s) k = Some ?r"
    using assms by (simp add: launch_def Let_def get_build_def)
  moreover have "find_op i (launch io now k i req s) \<noteq> None"
    using assms(1-5) by (auto simp: launch_def Let_def get_build_def find_op_update_op) (auto simp: find_op_def)
  moreover have "sl_builds (launch io now k i req s) = sl_builds s"
    using assms(1-5) by (simp add: launch_def Let_def get_build_def)
  ultimately show ?thesis using assms(1,2) by (intro exI [of _ ?r]) (simp add: underway_def stopping_def)
qed

lemma program_last: "\<exists>xs. program pl = xs @ [Set_Active] \<and> Set_Active \<notin> set xs"
  by (auto simp: program_def enter_if_def)

section \<open>Properties\<close>


text \<open>A run driven alone takes steps of the server.\<close>

lemma drive_reach:
  assumes "runs_ok s" "\<And>r t. io_fits (answers t) r t"
  shows "upgrade_reach decode s (drive decode answers k m s)"
  using assms(1)
proof (induction m arbitrary: s)
  case 0
  then show ?case by (simp add: upgrade_reach_def)
next
  case (Suc m)
  show ?case
  proof (cases "\<exists>r t ts. sl_runs s k = Some r \<and> rn_tasks r = t # ts")
    case True
    then obtain r t ts where r: "sl_runs s k = Some r" "rn_tasks r = t # ts" by blast
    let ?s = "run_task decode (answers t) k r t ts s"
    have "\<not> rn_over r" using runs_okD [OF Suc.prems r(1)] r(2) by (auto simp: run_ok_def)
    then have "upgrade_step decode (Ran k) s ?s" using upgrade_step.ran [OF r(1) _ r(2) assms(2)] by blast
    moreover have "upgrade_reach decode ?s (drive decode answers k m ?s)"
      using Suc.IH run_task_ok [OF Suc.prems r assms(2)] by blast
    ultimately show ?thesis using r unfolding upgrade_reach_def by (auto intro: converse_rtranclp_into_rtranclp)
  next
    case False
    then show ?thesis by (auto simp: upgrade_reach_def split: option.splits list.splits)
  qed
qed

text \<open>
  C23. An upgrade whose nodes all answer well comes to its end: with as many steps as its program weighs (two for each node or batch),
  its operation is completed, it holds a result for every node of the plan, and the new build is the active one.
\<close>

theorem upgrade_completes:
  assumes "sl_builds s (ur_build req) = Some b" "bu_status b = ''completed''" "find_op i s \<noteq> None" "li_mark io" "li_build io"
    "\<And>t. good_answer decode (answers t) t"
  shows "let pl = build_plan (li_roles io) req s
    in finished i (ur_build req) (plan_nodes pl) k
         (drive decode answers k (sum_list (map task_weight (program pl))) (launch io now k i req s))"
proof -
  obtain r0 where r0: "rn_op r0 = i" "rn_build r0 = ur_build req" "rn_plan r0 = build_plan (li_roles io) req s"
    "underway r0 (program (rn_plan r0)) k (launch io now k i req s)"
    using launch_underway [OF assms(1-5), where now = now and k = k] by auto
  obtain xs where "program (rn_plan r0) = xs @ [Set_Active]" "Set_Active \<notin> set xs" using program_last by blast
  with drive_finishes [of r0 xs k _ decode answers, OF _ _ assms(6)] r0 show ?thesis by (simp add: Let_def)
qed

lemma batches_concat: "0 < n \<Longrightarrow> concat (batches_from items n i) = drop i items"
proof (induction items n i rule: batches_from.induct)
  case (1 items n i)
  have "take (min (i + n) (length items) - i) (drop i items) = take n (drop i items)" by (simp add: min_def)
  then have "take (min (i + n) (length items) - i) (drop i items) @ drop (i + n) items = drop i items"
    using append_take_drop_id [of n "drop i items"] by (simp add: add.commute)
  then show ?case
    using 1 unfolding batches_from.simps [of items n i] by (cases "i < length items") simp_all
qed

lemma batches_length: "b \<in> set (batches_from items n i) \<Longrightarrow> b \<noteq> [] \<and> length b \<le> n"
proof (induction items n i rule: batches_from.induct)
  case (1 items n i)
  show ?case
  proof (cases "i < length items \<and> 0 < n")
    case True
    then have "b = take (min (i + n) (length items) - i) (drop i items) \<or> b \<in> set (batches_from items n (i + n))"
      using 1(2) unfolding batches_from.simps [of items n i] if_P [OF True] set_simps by blast
    then show ?thesis
    proof
      assume "b \<in> set (batches_from items n (i + n))"
      with 1(1) [OF True] show ?thesis .
    qed (use True in auto)
  next
    case False
    then show ?thesis using 1(2) unfolding batches_from.simps [of items n i] if_not_P [OF False] by simp
  qed
qed

text \<open>The batches of a plan are the compute nodes in their order, none empty and none larger than the size.\<close>

theorem batch_slice_exact:
  assumes "0 < n"
  shows "concat (batch_slice items n) = items \<and> (\<forall>b \<in> set (batch_slice items n). b \<noteq> [] \<and> int (length b) \<le> n)"
  using assms batches_concat [of "nat n" items 0] batches_length [of _ items "nat n" 0] by (force simp: batch_slice_def)

text \<open>Concrete values for the witnesses: a cluster of four nodes, one of them in each role, and answers that are all good.\<close>

definition four_nodes :: slurm where
  "four_nodes = \<lparr>sl_ops = [\<lparr>uo_id = ''up'', uo_from = ''old'', uo_to = ''new'', uo_status = ''queued'', uo_batch_size = 10, uo_drain_min = 30,
       uo_confirmed = True, uo_by = ''admin'', uo_phase = '''', uo_current = 0, uo_total = 0, uo_started = 0, uo_completed = None,
       uo_results = None\<rparr>],
     sl_builds = [''old'' \<mapsto> \<lparr>bu_version = ''24.05'', bu_status = ''completed''\<rparr>, ''new'' \<mapsto> \<lparr>bu_version = ''25.11'', bu_status = ''completed''\<rparr>],
     sl_active_build = ''old'',
     sl_roles = [(''d'', [''dbd'']), (''c'', [''controller'']), (''n'', [''compute'']), (''l'', [''login''])],
     sl_hostnames = (\<lambda>_. ''''), sl_versions = (\<lambda>_. None),
     sl_pending = [(''up'', \<lparr>ur_build = ''new'', ur_batch_size = 10, ur_drain_min = 30, ur_confirmed = True\<rparr>)],
     sl_runs = (\<lambda>_. None), sl_current = None, sl_sent = []\<rparr>"

definition good_call :: node_call where
  "good_call = \<lparr>nc_hub = True, nc_connected = True, nc_sent = True, nc_wait = Acked True ''''\<rparr>"

definition good_io :: "task \<Rightarrow> task_io" where
  "good_io t = \<lparr>ti_update = True, ti_persist = True, ti_version = True, ti_active = True, ti_now = 9, ti_call = good_call,
     ti_calls = (case t of Await_Batch i ns \<Rightarrow> map (\<lambda>n. (n, good_call)) ns | _ \<Rightarrow> []), ti_drain = True, ti_resume = True\<rparr>"

definition good_launch :: launch_io where
  "good_launch = \<lparr>li_mark = True, li_build = True, li_update = True, li_roles = (\<lambda>_. True)\<rparr>"

definition up_request :: upgrade_request where
  "up_request = \<lparr>ur_build = ''new'', ur_batch_size = 10, ur_drain_min = 30, ur_confirmed = True\<rparr>"

definition launched_up :: slurm where
  "launched_up = launch good_launch 1 0 ''up'' up_request (four_nodes\<lparr>sl_pending := []\<rparr>)"

lemma good_io_fits: "io_fits (good_io t) r t"
  by (cases t) (auto simp: good_io_def good_call_def image_image)

lemma good_io_good: "good_answer (\<lambda>_. None) (good_io t) t"
  by (cases t) (auto simp: good_io_def good_call_def dnf_upgrade_node_def o_def)

lemma launched_up_runs_ok: "runs_ok launched_up"
  unfolding launched_up_def by (rule launch_ok) (simp add: runs_ok_def four_nodes_def)

lemma launched_up_reach: "upgrade_reach (\<lambda>_. None) four_nodes launched_up"
proof -
  have "upgrade_step (\<lambda>_. None) (Launched 0) four_nodes launched_up"
    unfolding launched_up_def
    using upgrade_step.launched [of four_nodes "[]" "''up''" up_request "[]" 0 "\<lambda>_. None" good_launch 1]
    by (simp add: four_nodes_def up_request_def)
  then show ?thesis unfolding upgrade_reach_def by blast
qed

lemma build_plan_up: "build_plan (\<lambda>_. True) up_request (four_nodes\<lparr>sl_pending := []\<rparr>) =
    \<lparr>pn_dbd = [''d''], pn_controller = [''c''], pn_batches = [[''n'']], pn_login = [''l'']\<rparr>"
  by (simp add: build_plan_def nodes_by_role_def four_nodes_def up_request_def role_name_def batch_slice_def batches_from.simps)

definition waiting_for_controller :: slurm where
  "waiting_for_controller = drive (\<lambda>_. None) good_io 0 5 launched_up"

lemma waiting_for_controller_run:
  "\<exists>r. sl_runs waiting_for_controller 0 = Some r \<and> rn_tasks r = Await_Node Controller ''c'' # tl (rn_tasks r) \<and>
     (Dbd, ''d'') \<in> set (required (rn_plan r) (planned (Await_Node Controller ''c''))) \<and> rn_log r = [(Dbd, ''d'', True)]"
  unfolding waiting_for_controller_def launched_up_def launch_def Let_def good_launch_def launch_io.simps build_plan_up
  by (simp add: get_build_def four_nodes_def up_request_def program_def enter_if_def numeral_eq_Suc upd_run_runs set_tasks_def stopping_def
      record_result_def good_io_def good_call_def dnf_upgrade_node_def phase_nodes_def Let_def)


theorem upgrade_completes_witness:
  "let pl = build_plan (\<lambda>_. True) up_request (four_nodes\<lparr>sl_pending := []\<rparr>)
   in plan_nodes pl = [''d'', ''c'', ''n'', ''l''] \<and>
      finished ''up'' ''new'' (plan_nodes pl) 0 (drive (\<lambda>_. None) good_io 0 (sum_list (map task_weight (program pl))) launched_up)"
proof -
  have "sl_builds (four_nodes\<lparr>sl_pending := []\<rparr>) (ur_build up_request) = Some \<lparr>bu_version = ''25.11'', bu_status = ''completed''\<rparr>"
    "find_op ''up'' (four_nodes\<lparr>sl_pending := []\<rparr>) \<noteq> None" "li_mark good_launch" "li_build good_launch"
    by (simp_all add: four_nodes_def up_request_def find_op_def good_launch_def)
  from upgrade_completes [OF this(1) _ this(2-4) good_io_good, of 0 1]
  have "finished ''up'' ''new'' (plan_nodes (build_plan (\<lambda>_. True) up_request (four_nodes\<lparr>sl_pending := []\<rparr>))) 0
      (drive (\<lambda>_. None) good_io 0 (sum_list (map task_weight (program (build_plan (\<lambda>_. True) up_request (four_nodes\<lparr>sl_pending := []\<rparr>)))))
        launched_up)"
    by (simp add: Let_def good_launch_def launched_up_def up_request_def)
  then show ?thesis unfolding build_plan_up Let_def by (simp add: plan_nodes_def)
qed

theorem batch_slice_exact_witness: "batch_slice [''a'', ''b'', ''c''] 2 = [[''a'', ''b''], [''c'']] \<and> concat (batch_slice [''a'', ''b'', ''c''] 2) = [''a'', ''b'', ''c'']"
  using batch_slice_exact [of 2 "[''a'', ''b'', ''c'']"] by (simp add: batch_slice_def batches_from.simps)



lemma active_run_current: "sl_current s = Some k \<Longrightarrow> sl_runs s k = Some r \<Longrightarrow> rn_op r = i \<Longrightarrow> active_run i s = Some k"
  by (simp add: active_run_def)

text \<open>
  Resuming an upgrade before its paused run has noticed starts a second one, from the first node: the operation has two runs. The first
  run then asks the state of the second whether it was paused, finds that it was not, marks the operation failed and takes the second run
  off \<open>activeUpgrade\<close>, so that it goes on and can no longer be paused.
\<close>

theorem resume_second_run:
  fixes now :: int
  assumes run: "sl_runs s k = Some r" "\<not> rn_over r" "rn_op r = i" "sl_current s = Some k"
    and op: "find_op i s = Some o'" "uo_status o' = ''in_progress''" "sl_builds s (uo_to o') = Some b"
    and answers: "pause_upgrade pio i s = (None, s1)" "ri_update pio" "resume_upgrade i s1 = (x, s2)" "li_mark io" "li_build io"
    and fresh: "sl_runs s j = None"
  defines "s3 \<equiv> launch io now j i (request_of o' (uo_to o')) (s2\<lparr>sl_pending := sl_pending s\<rparr>)"
  defines "s4 \<equiv> pause_or_cancel True k (r\<lparr>rn_paused := True\<rparr>) s3"
  shows "x = None \<and> sl_pending s2 = sl_pending s @ [(i, request_of o' (uo_to o'))] \<and> sl_runs s3 k = Some (r\<lparr>rn_paused := True\<rparr>) \<and>
    (\<exists>q. sl_runs s3 j = Some q \<and> sl_runs s4 j = Some q \<and> rn_op q = i \<and> \<not> rn_over q \<and> \<not> stopping q \<and> rn_tasks q = program (rn_plan q)) \<and>
    (\<exists>o4. find_op i s4 = Some o4 \<and> uo_status o4 = ''failed'') \<and> sl_current s4 = None \<and>
    pause_upgrade pio i s4 = (Some (Wrong_Status ''failed''), s4)"
proof -
  let ?u = "(blank_update ''paused'')\<lparr>up_phase := uo_phase o', up_current := uo_current o', up_total := uo_total o'\<rparr>"
  have s1: "s1 = update_op True i ?u (upd_run k (\<lambda>r. r\<lparr>rn_paused := True\<rparr>) s)"
    using answers(1,2) op active_run_current [OF run(4,1,3)] by (simp add: pause_upgrade_def Let_def)
  have o1: "find_op i s1 = Some (apply_update ?u o')"
    unfolding s1 find_op_update_op using op(1) by simp
  have s2: "x = None" "s2 = s1\<lparr>sl_pending := sl_pending s1 @ [(i, request_of o' (uo_to o'))]\<rparr>"
    using answers(3) o1 by (simp_all add: resume_upgrade_def apply_update_def blank_update_def request_of_def)
  have jk: "j \<noteq> k" using run(1) fresh by auto
  have pend: "sl_pending s2 = sl_pending s @ [(i, request_of o' (uo_to o'))]" by (simp add: s2(2) s1)
  let ?s2 = "s2\<lparr>sl_pending := sl_pending s\<rparr>"
  let ?pl = "build_plan (li_roles io) (request_of o' (uo_to o')) ?s2"
  let ?q = "\<lparr>rn_op = i, rn_build = uo_to o', rn_drain_min = uo_drain_min o', rn_plan = ?pl, rn_paused = False, rn_canceled = False,
       rn_over = False, rn_tasks = program ?pl, rn_results = (\<lambda>_. None), rn_log = []\<rparr>"
  have "sl_builds s2 (uo_to o') = Some b" using op(3) by (simp add: s2(2) s1)
  then have s3: "s3 = update_op True i ((blank_update ''in_progress'')\<lparr>up_phase := ''starting''\<rparr>)
      (?s2\<lparr>sl_runs := (sl_runs ?s2)(j \<mapsto> ?q), sl_current := Some j\<rparr>)"
    using answers(4,5) by (simp add: s3_def launch_def Let_def get_build_def request_of_def)
  have runs: "sl_runs s3 k = Some (r\<lparr>rn_paused := True\<rparr>)" "sl_runs s3 j = Some ?q" "sl_current s3 = Some j"
    using jk run(1) by (simp_all add: s3 s2(2) s1 upd_run_runs)
  have act: "active_run (rn_op (r\<lparr>rn_paused := True\<rparr>)) s3 = Some j"
    using run(3) runs by (simp add: active_run_def)
  have o3: "find_op i s3 \<noteq> None"
    using o1 unfolding s3 find_op_update_op s2(2) by (simp add: find_op_def)
  have s4: "s4 = end_run k (update_op True i ((blank_update ''failed'')\<lparr>up_results := Some (rn_results r)\<rparr>) s3)"
    using act runs(2) run(3) by (simp add: s4_def pause_or_cancel_def)
  have cur: "sl_current s4 = None" "sl_runs s4 j = Some ?q"
    using act runs jk run(3) unfolding s4 by (simp_all add: end_run_def upd_run_runs active_run_def)
  obtain o3' where "find_op i s3 = Some o3'" using o3 by blast
  then have o4: "\<exists>o4. find_op i s4 = Some o4 \<and> uo_status o4 = ''failed''"
    unfolding s4 by (simp add: find_op_update_op apply_update_def blank_update_def)
  then have "pause_upgrade pio i s4 = (Some (Wrong_Status ''failed''), s4)"
    by (auto simp: pause_upgrade_def)
  with s2(1) pend runs cur o4 show ?thesis by (auto simp: stopping_def)
qed

definition dbd_run :: run where
  "dbd_run = \<lparr>rn_op = ''up'', rn_build = ''new'', rn_drain_min = 30,
     rn_plan = \<lparr>pn_dbd = [''d''], pn_controller = [''c''], pn_batches = [[''n'']], pn_login = [''l'']\<rparr>, rn_paused = False, rn_canceled = False,
     rn_over = False, rn_tasks = [Await_Node Dbd ''d'', Set_Active], rn_results = (\<lambda>_. None), rn_log = []\<rparr>"

definition running_up :: slurm where
  "running_up = four_nodes\<lparr>sl_ops := map (\<lambda>o'. o'\<lparr>uo_status := ''in_progress''\<rparr>) (sl_ops four_nodes), sl_pending := [],
     sl_runs := [0 \<mapsto> dbd_run], sl_current := Some 0\<rparr>"

definition good_request :: request_io where
  "good_request = \<lparr>ri_build = True, ri_roles = True, ri_ops = True, ri_active = True, ri_create = True, ri_update = True\<rparr>"

lemma find_running_up: "find_op ''up'' running_up =
    Some \<lparr>uo_id = ''up'', uo_from = ''old'', uo_to = ''new'', uo_status = ''in_progress'', uo_batch_size = 10, uo_drain_min = 30,
       uo_confirmed = True, uo_by = ''admin'', uo_phase = '''', uo_current = 0, uo_total = 0, uo_started = 0, uo_completed = None,
       uo_results = None\<rparr>"
  by (simp add: running_up_def four_nodes_def find_op_def)

theorem resume_second_run_witness:
  "let s1 = snd (pause_upgrade good_request ''up'' running_up); s2 = snd (resume_upgrade ''up'' s1);
       s3 = launch good_launch 2 1 ''up'' up_request (s2\<lparr>sl_pending := []\<rparr>);
       s4 = pause_or_cancel True 0 (dbd_run\<lparr>rn_paused := True\<rparr>) s3
   in (\<exists>q. sl_runs s4 1 = Some q \<and> \<not> rn_over q) \<and> (\<exists>o4. find_op ''up'' s4 = Some o4 \<and> uo_status o4 = ''failed'')"
proof -
  let ?o = "\<lparr>uo_id = ''up'', uo_from = ''old'', uo_to = ''new'', uo_status = ''in_progress'', uo_batch_size = 10, uo_drain_min = 30,
       uo_confirmed = True, uo_by = ''admin'', uo_phase = '''', uo_current = 0, uo_total = 0, uo_started = 0, uo_completed = None,
       uo_results = None\<rparr>"
  let ?s1 = "snd (pause_upgrade good_request ''up'' running_up)"
  let ?x = "fst (resume_upgrade ''up'' ?s1)"
  let ?s2 = "snd (resume_upgrade ''up'' ?s1)"
  have "sl_runs running_up 0 = Some dbd_run" "\<not> rn_over dbd_run" "rn_op dbd_run = ''up''" "sl_current running_up = Some 0"
    "uo_status ?o = ''in_progress''" "sl_builds running_up (uo_to ?o) = Some \<lparr>bu_version = ''25.11'', bu_status = ''completed''\<rparr>"
    "ri_update good_request" "li_mark good_launch" "li_build good_launch" "sl_runs running_up 1 = None" "sl_pending running_up = []"
    "request_of ?o (uo_to ?o) = up_request"
    by (simp_all add: running_up_def dbd_run_def good_request_def good_launch_def four_nodes_def request_of_def up_request_def)
  note facts = this
  have pause: "pause_upgrade good_request ''up'' running_up = (None, ?s1)"
    by (simp add: pause_upgrade_def find_running_up Let_def)
  have resume: "resume_upgrade ''up'' ?s1 = (?x, ?s2)" by simp
  show ?thesis
    using resume_second_run [OF facts(1-4) find_running_up facts(5,6) pause facts(7) resume facts(8-10), of 2] facts(11,12)
    unfolding Let_def by auto
qed

text \<open>
  A rollback does not stop the run it cancels when that run waits for the last login node: the canceled wait is a failure that does not
  count, and the run then makes the build that was to be rolled back the active one and the operation completed, over the status
  \<open>rolled_back\<close>.
\<close>

theorem rollback_overtaken:
  assumes run: "sl_runs s k = Some r" "rn_op r = i" "rn_tasks r = [Await_Node Login n, Set_Active]" "sl_current s = Some k"
    and op: "find_op i s = Some o'" "uo_status o' = ''in_progress''" "uo_from o' \<noteq> ''''" "ri_build rio"
    and builds: "sl_builds s (uo_from o') = Some b" "bu_status b = ''completed''" "sl_builds s (rn_build r) = Some b'" "bu_status b' = ''completed''"
    and rollback: "rollback_upgrade rio i j now s = (x, s1)"
    and answers: "nc_wait (ti_call (answers (Await_Node Login n))) = Canceled" "ti_update (answers Set_Active)" "ti_active (answers Set_Active)"
  shows "\<exists>r1 o2. sl_runs s1 k = Some r1 \<and> rn_canceled r1 \<and> sl_current s1 = None \<and>
    find_op i (drive decode answers k 2 s1) = Some o2 \<and> uo_status o2 = ''completed'' \<and> sl_active_build (drive decode answers k 2 s1) = rn_build r"
proof -
  let ?c = "(upd_run k (\<lambda>r. r\<lparr>rn_canceled := True\<rparr>) s)\<lparr>sl_current := None\<rparr>"
  let ?u = "update_op (ri_update rio) i ((blank_update ''rolled_back'')\<lparr>up_phase := uo_phase o', up_completed := Some now\<rparr>) ?c"
  have "(x, s1) = start_upgrade rio (request_of o' (uo_from o')) (''rollback:'' @ i) j now ?u"
    using rollback op builds active_run_current [OF run(4,1,2)]
    by (simp add: rollback_upgrade_def Let_def check_build_def get_build_def)
  then have start: "start_upgrade rio (request_of o' (uo_from o')) (''rollback:'' @ i) j now ?u = (x, s1)" by simp
  have s1: "sl_runs s1 k = Some (r\<lparr>rn_canceled := True\<rparr>)" "sl_current s1 = None" "sl_builds s1 = sl_builds s"
    using start_upgrade_rest [OF start] run(1) by (simp_all add: upd_run_runs)
  have "find_op i ?u \<noteq> None" using op(1) unfolding find_op_update_op by (simp add: find_op_def)
  then have "find_op i s1 \<noteq> None" using find_op_start [OF start] by auto
  moreover define res where "res = dnf_upgrade_node decode Login (ti_call (answers (Await_Node Login n)))"
  moreover define io where "io = answers (Await_Node Login n)"
  ultimately obtain o1 where o1: "find_op i (record_result (ti_persist io) (ti_version io) k n res s1) = Some o1"
    using find_op_record_result [of i "ti_persist io" "ti_version io" k n res s1] by auto
  let ?s2 = "set_tasks k [Set_Active] (record_result (ti_persist io) (ti_version io) k n res s1)"
  have s2: "drive decode answers k 2 s1 = drive decode answers k 1 ?s2"
    using s1(1) run(3) by (simp add: numeral_2_eq_2 Let_def res_def io_def)
  have run2: "sl_runs ?s2 k = Some (r\<lparr>rn_canceled := True, rn_results := (rn_results r)(n \<mapsto> res),
      rn_log := rn_log r @ [(nr_phase res, n, nr_ok res)], rn_tasks := [Set_Active]\<rparr>)"
    using set_tasks_run [OF record_result_run [OF s1(1)]] by simp
  have "find_op i ?s2 = Some o1" "sl_builds ?s2 (rn_build r) = Some b'" using o1 s1(3) builds(3) by simp_all
  with run2 answers run(2) builds(4) have "\<exists>o2. find_op i (drive decode answers k 1 ?s2) = Some o2 \<and> uo_status o2 = ''completed'' \<and>
      sl_active_build (drive decode answers k 1 ?s2) = rn_build r"
    by (simp add: find_op_update_op apply_update_def) (simp add: set_active_build_def)
  then show ?thesis using s1(1,2) s2 by auto
qed

definition login_run :: run where
  "login_run = dbd_run\<lparr>rn_tasks := [Await_Node Login ''l'', Set_Active]\<rparr>"

definition canceled_io :: "task \<Rightarrow> task_io" where
  "canceled_io t = (good_io t)\<lparr>ti_call := good_call\<lparr>nc_wait := Canceled\<rparr>\<rparr>"

theorem rollback_overtaken_witness:
  "let s = running_up\<lparr>sl_runs := [0 \<mapsto> login_run]\<rparr>; s1 = snd (rollback_upgrade good_request ''up'' ''back'' 5 s)
   in \<exists>o2. find_op ''up'' (drive (\<lambda>_. None) canceled_io 0 2 s1) = Some o2 \<and> uo_status o2 = ''completed'' \<and>
        sl_active_build (drive (\<lambda>_. None) canceled_io 0 2 s1) = ''new''"
proof -
  let ?s = "running_up\<lparr>sl_runs := [0 \<mapsto> login_run]\<rparr>"
  let ?r = "rollback_upgrade good_request ''up'' ''back'' 5 ?s"
  let ?o = "\<lparr>uo_id = ''up'', uo_from = ''old'', uo_to = ''new'', uo_status = ''in_progress'', uo_batch_size = 10, uo_drain_min = 30,
       uo_confirmed = True, uo_by = ''admin'', uo_phase = '''', uo_current = 0, uo_total = 0, uo_started = 0, uo_completed = None,
       uo_results = None\<rparr>"
  have "sl_runs ?s 0 = Some login_run" "rn_op login_run = ''up''" "rn_tasks login_run = [Await_Node Login ''l'', Set_Active]" "sl_current ?s = Some 0"
    "uo_status ?o = ''in_progress''" "uo_from ?o \<noteq> ''''" "ri_build good_request"
    "sl_builds ?s (uo_from ?o) = Some \<lparr>bu_version = ''24.05'', bu_status = ''completed''\<rparr>"
    "sl_builds ?s (rn_build login_run) = Some \<lparr>bu_version = ''25.11'', bu_status = ''completed''\<rparr>"
    "nc_wait (ti_call (canceled_io (Await_Node Login ''l''))) = Canceled" "ti_update (canceled_io Set_Active)" "ti_active (canceled_io Set_Active)"
    "rn_build login_run = ''new''"
    by (simp_all add: running_up_def login_run_def dbd_run_def four_nodes_def good_request_def canceled_io_def good_io_def)
  note facts = this
  have found: "find_op ''up'' ?s = Some ?o" using find_running_up by (simp add: find_op_def)
  have status: "bu_status \<lparr>bu_version = v, bu_status = ''completed''\<rparr> = ''completed''" for v by simp
  show ?thesis
    using rollback_overtaken [OF facts(1-4) found facts(5-8) status facts(9) status, of "''back''" 5 "fst ?r" "snd ?r", OF _ facts(10-12), of "\<lambda>_. None"] facts(13)
    unfolding Let_def by auto
qed

text \<open>
  A request is refused while an operation is in progress, but a new operation is only queued: until its goroutine has started, a second
  request is accepted like the first, and both run.
\<close>

lemma queued_not_exclusive:
  assumes "start_upgrade io req actor i now s = (Inr i, s1)" "find_op j s = None" "i \<noteq> j"
  shows "\<exists>s2. start_upgrade io req actor j now s1 = (Inr j, s2) \<and> map fst (sl_pending s2) = map fst (sl_pending s) @ [i, j]"
proof -
  let ?from = "if ri_active io then sl_active_build s else ''''"
  obtain b o' where guards: "check_build (ri_build io) (ur_build (with_defaults req)) s = Inr b"
      "\<not> (nodes_by_role (ri_roles io) Dbd s \<noteq> [] \<and> \<not> ur_confirmed (with_defaults req))" "\<not> has_in_progress (ri_ops io) s"
      "ri_create io" "sl_builds s ?from \<noteq> None" "sl_builds s (ur_build (with_defaults req)) \<noteq> None"
    and s1: "s1 = s\<lparr>sl_ops := sl_ops s @ [o'], sl_pending := sl_pending s @ [(i, with_defaults req)]\<rparr>" "uo_id o' = i" "uo_status o' = ''queued''"
    using assms(1) unfolding start_upgrade_def create_op_def Let_def by (auto split: sum.splits if_splits)
  have "find_op j s1 = None" using assms(2,3) s1(2) by (simp add: s1(1) find_op_def find_snoc)
  moreover have "has_in_progress (ri_ops io) s1 = has_in_progress (ri_ops io) s"
    using s1(3) by (simp add: s1(1) has_in_progress_def)
  moreover have "nodes_by_role c p s1 = nodes_by_role c p s" "check_build c bid s1 = check_build c bid s"
      "sl_builds s1 = sl_builds s" "sl_active_build s1 = sl_active_build s" "sl_pending s1 = sl_pending s @ [(i, with_defaults req)]" for c p bid
    by (simp_all add: s1(1) nodes_by_role_def check_build_def get_build_def)
  ultimately show ?thesis
    using guards unfolding start_upgrade_def create_op_def Let_def by (simp del: not_None_eq split: if_splits)
qed

text \<open>Without an active build no upgrade can be recorded, the empty build id being a foreign key.\<close>

lemma first_upgrade_fails:
  assumes "sl_builds s '''' = None" "ri_active io \<longrightarrow> sl_active_build s = ''''"
  shows "\<exists>e. start_upgrade io req actor i now s = (Inl e, s)"
  using assms by (auto simp: start_upgrade_def create_op_def Let_def split: sum.splits)

text \<open>Database nodes that could not be read are no part of the plan, and the controllers come first.\<close>

lemma unread_roles_skipped: "\<not> ok Dbd \<Longrightarrow> Each Dbd n \<notin> set (program (build_plan ok req s))"
  by (auto simp: build_plan_def nodes_by_role_def Let_def program_def enter_if_def)

text \<open>A rollback that cannot be started has marked the operation all the same.\<close>

lemma rollback_marks_first:
  assumes "rollback_upgrade io i j now s = (Inl Already_Running, s')" "find_op i s = Some o'" "ri_update io"
  shows "\<exists>o''. find_op i s' = Some o'' \<and> uo_status o'' = ''rolled_back''"
proof -
  let ?c = "case active_run i s of Some k \<Rightarrow> (upd_run k (\<lambda>r. r\<lparr>rn_canceled := True\<rparr>) s)\<lparr>sl_current := None\<rparr> | None \<Rightarrow> s"
  let ?u = "(blank_update ''rolled_back'')\<lparr>up_phase := uo_phase o', up_completed := Some now\<rparr>"
  have "start_upgrade io (request_of o' (uo_from o')) (''rollback:'' @ i) j now (update_op (ri_update io) i ?u ?c) = (Inl Already_Running, s')"
    using assms(1,2) by (auto simp: rollback_upgrade_def check_build_def Let_def split: sum.splits if_splits option.splits)
  moreover have "find_op i ?c = Some o'"
    using assms(2) by (auto simp: find_op_def split: option.splits)
  then have "find_op i (update_op (ri_update io) i ?u ?c) = Some (apply_update ?u o')"
    using assms(3) by (simp add: find_op_update_op)
  ultimately have "find_op i s' = Some (apply_update ?u o')" by (rule find_op_start)
  then show ?thesis by (simp add: apply_update_def blank_update_def)
qed

end
