(* ===== verification/Go_Path.thy ===== *)
theory Go_Path
  imports Go_Prelude
begin

text \<open>
  The lexical treatment of paths by Go's \<open>path/filepath\<close> on Unix: \<open>Clean\<close>, \<open>Join\<close> and \<open>Dir\<close>. A path that is clean and has a directory
  as its prefix lies beneath it by its text; where the links of a file system lead is not a matter of these functions.
\<close>

section \<open>Clean\<close>

definition rooted :: "string \<Rightarrow> bool" where
  "rooted p \<longleftrightarrow> prefix ''/'' p"

text \<open>One component; the components that remain are kept in reverse.\<close>

definition clean_step :: "bool \<Rightarrow> string list \<Rightarrow> string \<Rightarrow> string list" where
  "clean_step r st c =
     (if c = '''' \<or> c = ''.'' then st
      else if c = ''..'' then
        (case st of
           [] \<Rightarrow> if r then [] else [''..'']
         | t # ts \<Rightarrow> if t = ''..'' then ''..'' # st else ts)
      else c # st)"

definition clean_parts :: "string \<Rightarrow> string list" where
  "clean_parts p = rev (foldl (clean_step (rooted p)) [] (split_on CHR ''/'' p))"

definition clean_path :: "string \<Rightarrow> string" where
  "clean_path p =
     (let q = (if rooted p then ''/'' else '''') @ join ''/'' (clean_parts p)
      in if q = '''' then ''.'' else q)"

definition join_path :: "string list \<Rightarrow> string" where
  "join_path ps = (let qs = filter (\<lambda>p. p \<noteq> '''') ps in if qs = [] then '''' else clean_path (join ''/'' qs))"

text \<open>What precedes the last slash, and the slash.\<close>

definition dir_path :: "string \<Rightarrow> string" where
  "dir_path p = clean_path (rev (dropWhile (\<lambda>c. c \<noteq> CHR ''/'') (rev p)))"

section \<open>Components of a clean path\<close>

definition plain_part :: "string \<Rightarrow> bool" where
  "plain_part c \<longleftrightarrow> c \<notin> {'''', ''.'', ''..''}"

lemma split_on_sep: "split_on c (x @ c # y) = split_on c x @ split_on c y"
  by (induction x) (auto split: list.splits)

definition part :: "string \<Rightarrow> bool" where
  "part c \<longleftrightarrow> plain_part c \<and> CHR ''/'' \<notin> set c"

lemma clean_step_plain:
  assumes "list_all part st" "CHR ''/'' \<notin> set c"
  shows "list_all part (clean_step True st c)"
  using assms by (cases st) (simp_all add: clean_step_def part_def plain_part_def)

lemma clean_fold_plain:
  "list_all part st \<Longrightarrow> \<forall>c \<in> set cs. CHR ''/'' \<notin> set c \<Longrightarrow> list_all part (foldl (clean_step True) st cs)"
  by (induction cs arbitrary: st) (simp_all add: clean_step_plain)

lemma clean_parts_plain:
  assumes "rooted p"
  shows "list_all part (clean_parts p)"
proof -
  have "list_all part (foldl (clean_step True) [] (split_on CHR ''/'' p))"
    by (rule clean_fold_plain) (auto dest: split_on_parts)
  with assms show ?thesis by (simp add: clean_parts_def)
qed

lemma split_on_rooted_join:
  assumes "list_all part cs"
  shows "split_on CHR ''/'' (''/'' @ join ''/'' cs) = (if cs = [] then ['''', ''''] else '''' # cs)"
proof -
  have "\<forall>x \<in> set cs. CHR ''/'' \<notin> set x" using assms by (auto simp: list_all_iff part_def)
  then show ?thesis using split_on_append [of "CHR ''/''" "''''" "join ''/'' cs"] split_on_join [of cs "CHR ''/''"] by auto
qed

lemma clean_parts_of_join:
  assumes "list_all part cs"
  shows "clean_parts (''/'' @ join ''/'' cs) = cs"
proof -
  have fold: "foldl (clean_step True) st xs = rev xs @ st" if "list_all part xs" for st xs
    using that by (induction xs arbitrary: st) (simp_all add: clean_step_def part_def plain_part_def)
  have "rooted (''/'' @ join ''/'' cs)" by (simp add: rooted_def)
  then have "clean_parts (''/'' @ join ''/'' cs) = rev (foldl (clean_step True) [] (split_on CHR ''/'' (''/'' @ join ''/'' cs)))"
    by (simp only: clean_parts_def)
  also have "\<dots> = cs"
    unfolding split_on_rooted_join [OF assms] using fold [OF assms, of "[]"] by (auto simp: clean_step_def)
  finally show ?thesis .
qed

lemma clean_rooted: "rooted p \<Longrightarrow> clean_path p = ''/'' @ join ''/'' (clean_parts p)"
  by (simp add: clean_path_def Let_def)

text \<open>Cleaning twice is cleaning once.\<close>

lemma clean_idem:
  assumes "rooted p"
  shows "clean_path (clean_path p) = clean_path p"
proof -
  have "rooted (clean_path p)" using clean_rooted [OF assms] by (simp add: rooted_def)
  then show ?thesis
    using clean_rooted [OF assms] clean_parts_of_join [OF clean_parts_plain [OF assms]] clean_rooted by metis
qed

text \<open>A path beneath a directory, which ends with a slash: the rest of the path has no component that leads out of it.\<close>

definition beneath :: "string \<Rightarrow> string \<Rightarrow> bool" where
  "beneath base p \<longleftrightarrow> prefix base p \<and> list_all part (split_on CHR ''/'' (drop (length base) p))"

lemma clean_beneath:
  assumes "rooted p" "prefix (b @ ''/'') (clean_path p)" "b \<noteq> ''''"
  shows "beneath (b @ ''/'') (clean_path p)"
proof -
  from assms(2) obtain rest where rest: "clean_path p = (b @ ''/'') @ rest" by (auto simp: prefix_def)
  let ?cs = "clean_parts p"
  have plain: "list_all part ?cs" by (rule clean_parts_plain [OF assms(1)])
  have eq: "''/'' @ join ''/'' ?cs = (b @ ''/'') @ rest" using rest clean_rooted [OF assms(1)] by simp
  with assms(3) have "?cs \<noteq> []" by (cases b) auto
  with split_on_rooted_join [OF plain] have "'''' # ?cs = split_on CHR ''/'' ((b @ ''/'') @ rest)"
    unfolding eq [symmetric] by simp
  also have "\<dots> = split_on CHR ''/'' b @ split_on CHR ''/'' rest" using split_on_sep [of "CHR ''/''" b rest] by simp
  finally have split: "'''' # ?cs = split_on CHR ''/'' b @ split_on CHR ''/'' rest" .
  then obtain ds where "?cs = ds @ split_on CHR ''/'' rest" by (cases "split_on CHR ''/'' b") auto
  with plain have "list_all part (split_on CHR ''/'' rest)" by simp
  with rest show ?thesis by (simp add: beneath_def)
qed

definition name_part :: "string \<Rightarrow> bool" where
  "name_part x \<longleftrightarrow> x \<noteq> '''' \<and> CHR ''/'' \<notin> set x"

lemma unrooted_fold:
  "list_all name_part st \<Longrightarrow> \<forall>c \<in> set cs. CHR ''/'' \<notin> set c \<Longrightarrow> list_all name_part (foldl (clean_step False) st cs)"
proof (induction cs arbitrary: st)
  case (Cons c cs)
  have "list_all name_part (clean_step False st c)"
    using Cons.prems by (cases st) (simp_all add: clean_step_def name_part_def [of c] name_part_def [of "''..''"])
  with Cons show ?case by simp
qed simp

lemma unrooted_clean:
  assumes "\<not> rooted p"
  shows "\<not> rooted (clean_path p)"
proof -
  have "list_all name_part (foldl (clean_step False) [] (split_on CHR ''/'' p))"
    by (rule unrooted_fold) (auto dest: split_on_parts)
  then have parts: "list_all name_part (clean_parts p)" using assms by (simp add: clean_parts_def)
  have "\<not> rooted (join ''/'' cs)" if "list_all name_part cs" for cs
  proof (cases cs)
    case (Cons c ds)
    with that obtain x xs where "c = x # xs" "x \<noteq> CHR ''/''" by (cases c) (auto simp: name_part_def)
    with Cons show ?thesis by (cases ds) (auto simp: rooted_def)
  qed (simp add: rooted_def)
  with parts have "\<not> rooted (join ''/'' (clean_parts p))" by blast
  with assms show ?thesis by (simp add: clean_path_def Let_def) (simp add: rooted_def)
qed

lemma prefix_rooted: "prefix (''/'' @ b) (clean_path p) \<Longrightarrow> rooted p"
  using unrooted_clean by (auto simp: rooted_def prefix_def)

lemma clean_unique: "rooted p \<Longrightarrow> clean_path p = p \<Longrightarrow> \<exists>cs. list_all part cs \<and> p = ''/'' @ join ''/'' cs"
  using clean_rooted clean_parts_plain by metis

lemma join_snoc: "cs \<noteq> [] \<Longrightarrow> join sep (cs @ [c]) = join sep cs @ sep @ c"
  by (induction sep cs rule: join.induct) auto

lemma join_append: "bs \<noteq> [] \<Longrightarrow> cs \<noteq> [] \<Longrightarrow> join sep (bs @ cs) = join sep bs @ sep @ join sep cs"
  by (induction sep bs rule: join.induct) (auto simp: neq_Nil_conv)

lemma clean_slash: "list_all part cs \<Longrightarrow> cs \<noteq> [] \<Longrightarrow> clean_path (''/'' @ join ''/'' cs @ ''/'') = ''/'' @ join ''/'' cs"
proof -
  assume cs: "list_all part cs" "cs \<noteq> []"
  have fold: "foldl (clean_step True) st xs = rev xs @ st" if "list_all part xs" for st xs
    using that by (induction xs arbitrary: st) (simp_all add: clean_step_def part_def plain_part_def)
  have "split_on CHR ''/'' ((''/'' @ join ''/'' cs) @ CHR ''/'' # '''') = ('''' # cs) @ ['''']"
    unfolding split_on_sep using split_on_rooted_join [OF cs(1)] cs(2) by simp
  moreover have "foldl (clean_step True) [] (('''' # cs) @ ['''']) = rev cs"
    using fold [OF cs(1), of "[]"] by (simp add: clean_step_def)
  moreover have "rooted (''/'' @ join ''/'' cs @ ''/'')" by (simp add: rooted_def)
  ultimately have "clean_parts (''/'' @ join ''/'' cs @ ''/'') = cs"
    by (simp add: clean_parts_def)
  then show ?thesis using clean_rooted [of "''/'' @ join ''/'' cs @ ''/''"] by (simp add: rooted_def)
qed

text \<open>The directory of a file with components \<open>cs @ [c]\<close>.\<close>

lemma dir_parts:
  assumes "list_all part (cs @ [c])"
  shows "dir_path (''/'' @ join ''/'' (cs @ [c])) = ''/'' @ join ''/'' cs"
proof -
  have c: "CHR ''/'' \<notin> set c" using assms by (simp add: part_def)
  have drop: "rev (dropWhile (\<lambda>x. x \<noteq> CHR ''/'') (rev (s @ ''/'' @ c))) = s @ ''/''" for s
  proof -
    have "dropWhile (\<lambda>x. x \<noteq> CHR ''/'') (rev c @ CHR ''/'' # rev s) = CHR ''/'' # rev s"
      using c by (subst dropWhile_append2) auto
    then show ?thesis by simp
  qed
  show ?thesis
  proof (cases "cs = []")
    case True
    have "clean_path ''/'' = ''/''" using clean_parts_of_join [of "[]"] clean_rooted [of "''/''"] by (simp add: rooted_def)
    then show ?thesis using drop [of "''''"] True by (simp add: dir_path_def)
  next
    case False
    then have "''/'' @ join ''/'' (cs @ [c]) = (''/'' @ join ''/'' cs) @ ''/'' @ c" by (simp add: join_snoc)
    then have "dir_path (''/'' @ join ''/'' (cs @ [c])) = clean_path (''/'' @ join ''/'' cs @ ''/'')"
      using drop [of "''/'' @ join ''/'' cs"] by (simp add: dir_path_def)
    also have "\<dots> = ''/'' @ join ''/'' cs" using assms False by (intro clean_slash) simp_all
    finally show ?thesis .
  qed
qed

text \<open>The components of a path beneath a clean directory continue those of the directory.\<close>

lemma beneath_parts:
  assumes "beneath (b @ ''/'') p" "b = ''/'' @ join ''/'' bs" "bs \<noteq> []" "list_all part bs"
  shows "\<exists>ds c. p = ''/'' @ join ''/'' (bs @ ds @ [c]) \<and> list_all part (bs @ ds @ [c])"
proof -
  let ?ds = "split_on CHR ''/'' (drop (length (b @ ''/'')) p)"
  from assms(1) have p: "p = (b @ ''/'') @ join ''/'' ?ds" "list_all part ?ds"
    by (auto simp: beneath_def prefix_def join_split_on)
  have "?ds \<noteq> []" by simp
  then obtain ds c where ds: "?ds = ds @ [c]" by (metis rev_exhaust)
  have "p = ''/'' @ join ''/'' (bs @ ?ds)"
    using p(1) assms(2,3) join_append [of bs ?ds "''/''"] by simp
  with p(2) assms(4) show ?thesis unfolding ds by (intro exI [of _ ds] exI [of _ c]) simp
qed

lemma beneath_dir:
  assumes "beneath (b @ ''/'') p" "b = ''/'' @ join ''/'' bs" "bs \<noteq> []" "list_all part bs"
  shows "dir_path p = b \<or> beneath (b @ ''/'') (dir_path p)"
proof -
  obtain ds c where p: "p = ''/'' @ join ''/'' (bs @ ds @ [c])" "list_all part (bs @ ds @ [c])"
    using beneath_parts [OF assms] by blast
  have dir: "dir_path p = ''/'' @ join ''/'' (bs @ ds)" using dir_parts [of "bs @ ds" c] p by simp
  show ?thesis
  proof (cases "ds = []")
    case True
    with dir assms(2) show ?thesis by simp
  next
    case False
    have "dir_path p = (b @ ''/'') @ join ''/'' ds" using dir assms(2) join_append [OF assms(3) False, of "''/''"] by simp
    moreover have "split_on CHR ''/'' (join ''/'' ds) = ds"
      using p(2) False split_on_join [of ds "CHR ''/''"] by (auto simp: list_all_iff part_def)
    ultimately show ?thesis using p(2) by (simp add: beneath_def)
  qed
qed

lemma split_on_suffix: "c \<notin> set s \<Longrightarrow> split_on c (r @ s) = butlast (split_on c r) @ [last (split_on c r) @ s]"
proof (induction r)
  case (Cons x r)
  then show ?case by (cases "split_on c r") (auto split: list.splits)
qed simp

lemma part_suffix: "part c \<Longrightarrow> CHR ''/'' \<notin> set s \<Longrightarrow> 2 < length s \<Longrightarrow> part (c @ s)"
proof -
  assume s: "part c" "CHR ''/'' \<notin> set s" "2 < length s"
  have "2 < length (c @ s)" using s(3) by simp
  then have "c @ s \<notin> {'''', ''.'', ''..''}" by (auto simp del: length_append)
  with s show ?thesis unfolding part_def plain_part_def by simp
qed

lemma beneath_suffix:
  assumes "beneath base p" "CHR ''/'' \<notin> set s" "2 < length s"
  shows "beneath base (p @ s)"
proof -
  from assms(1) obtain rest where p: "p = base @ rest" "list_all part (split_on CHR ''/'' rest)"
    by (auto simp: beneath_def prefix_def)
  have "part (last (split_on CHR ''/'' rest) @ s)"
    using p(2) assms(2,3) by (intro part_suffix) (metis last_in_set list_all_iff split_on_nonempty)
  moreover have "list_all part (butlast (split_on CHR ''/'' rest))"
    using p(2) by (auto simp: list_all_iff dest: in_set_butlastD)
  ultimately have "list_all part (split_on CHR ''/'' (rest @ s))" unfolding split_on_suffix [OF assms(2)] by simp
  with p(1) show ?thesis by (simp add: beneath_def)
qed

end
