(* ===== verification/Privhelper.thy ===== *)
theory Privhelper
  imports Go_Path
begin

text \<open>
  The privilege helper (\<open>cmd/clustr-privhelper\<close>), a program with the setuid bit of root that any user can start: what it runs and writes
  as root for which arguments. The operating system is a record of answers; what the helper does is the list of its effects, in order.
  The verbs for exports and backups are in \<open>Privhelper_Files\<close>.
\<close>

section \<open>Effects\<close>

text \<open>\<open>Fill\<close> is the writing and closing of a file that was created; an audit row has the caller, the verb, its arguments and the exit code.\<close>

datatype effect = Run string "string list" | Load string | Mkdir string | Create string | Fill string string | Rename string string
  | Delete string | Audit int string "string list" int

datatype exec_result = Exited int | Not_Run

datatype file_answer = Content string | Missing | Unreadable

record credentials =
  cr_host :: string
  cr_user :: string
  cr_password :: string

text \<open>
  \<open>os_ok\<close> is whether an effect on files succeeds, \<open>os_stdin\<close> what can be read from standard input (none for a read error), \<open>os_temp\<close> the name
  of a new temporary file, \<open>os_lstat\<close> whether a path is a regular file (none when there is nothing), \<open>os_runnable\<close> whether it is one
  that can be executed. The JSON decoders are those of the standard library; a profile comes in the order in which its map is traversed.
\<close>

record os =
  os_exec :: "string \<Rightarrow> string list \<Rightarrow> exec_result"
  os_ok :: "effect \<Rightarrow> bool"
  os_file :: "string \<Rightarrow> file_answer"
  os_lstat :: "string \<Rightarrow> bool option"
  os_runnable :: "string \<Rightarrow> bool"
  os_exists :: "string \<Rightarrow> bool"
  os_stdin :: "string option"
  os_temp :: "string \<Rightarrow> string option"
  os_credentials :: "string \<Rightarrow> credentials option"
  os_profile :: "string \<Rightarrow> (string \<times> string) list option"

definition exit_code :: "exec_result \<Rightarrow> int" where
  "exit_code r = (case r of Exited n \<Rightarrow> n | Not_Run \<Rightarrow> 2)"

text \<open>Steps on files, each with what is cleaned up when it fails.\<close>

fun perform :: "os \<Rightarrow> (effect \<times> effect list) list \<Rightarrow> bool \<times> effect list" where
  "perform sys [] = (True, [])"
| "perform sys ((e, cleanup) # es) =
     (if os_ok sys e then (let (ok, done') = perform sys es in (ok, e # done')) else (False, e # cleanup))"

definition refuse :: "int \<Rightarrow> string \<Rightarrow> string list \<Rightarrow> int \<Rightarrow> int \<times> effect list" where
  "refuse uid verb args code = (code, [Audit uid verb args code])"

definition run_audited :: "os \<Rightarrow> int \<Rightarrow> string \<Rightarrow> string list \<Rightarrow> string \<Rightarrow> string list \<Rightarrow> int \<times> effect list" where
  "run_audited sys uid verb args prog argv =
     (let code = exit_code (os_exec sys prog argv) in (code, [Run prog argv, Audit uid verb args code]))"

section \<open>Packages\<close>

definition is_lower :: "char \<Rightarrow> bool" where
  "is_lower c \<longleftrightarrow> 97 \<le> (of_char c :: nat) \<and> (of_char c :: nat) \<le> 122"

definition is_letter :: "char \<Rightarrow> bool" where
  "is_letter c \<longleftrightarrow> is_lower c \<or> 65 \<le> (of_char c :: nat) \<and> (of_char c :: nat) \<le> 90"

definition safe_package_char :: "char \<Rightarrow> bool" where
  "safe_package_char c \<longleftrightarrow> is_letter c \<or> is_digit c \<or>
     c \<in> {CHR ''.'', CHR ''-'', CHR ''_'', CHR ''+'', CHR ''~''}"

definition safe_package_name :: "string \<Rightarrow> bool" where
  "safe_package_name pkg \<longleftrightarrow> pkg \<noteq> '''' \<and> list_all safe_package_char pkg"

definition minimal_packages :: "string list" where
  "minimal_packages = [''numactl-devel'', ''mariadb-connector-c-devel'', ''libjwt-devel'', ''pmix-devel'', ''ucx-devel'', ''munge-devel'',
     ''json-c-devel'', ''hwloc-devel'', ''openldap-servers'', ''openldap-clients'', ''epel-release'', ''gcc'', ''gcc-c++'', ''make'', ''autoconf'',
     ''automake'', ''libtool'', ''openssl-devel'', ''zlib-devel'', ''libcurl-devel'', ''pam-devel'', ''perl'', ''python3'', ''rpm-build'',
     ''readline-devel'', ''bzip2-devel'', ''lz4-devel'', ''libssh2-devel'', ''http-parser-devel'', ''jansson-devel'']"

definition allowlist_candidates :: "string option \<Rightarrow> string \<Rightarrow> string list" where
  "allowlist_candidates exe_dir wd =
     [''/usr/share/clustr/deps_matrix.json'', ''/opt/clustr/build/slurm/deps_matrix.json''] @
     (case exe_dir of
        None \<Rightarrow> []
      | Some d \<Rightarrow> [d @ ''/../../build/slurm/deps_matrix.json'', d @ ''/../../../build/slurm/deps_matrix.json'']) @
     (if wd = '''' then [] else [wd @ ''/build/slurm/deps_matrix.json''])"

text \<open>\<open>decode\<close> reads the object at the top of the file, a member being none when it is no list of strings.\<close>

fun first_allowlist :: "(string \<Rightarrow> file_answer) \<Rightarrow> (string \<Rightarrow> (string \<times> string list option) list option) \<Rightarrow> string list \<Rightarrow> string list" where
  "first_allowlist file' decode [] = minimal_packages"
| "first_allowlist file' decode (p # ps) =
     (case file' p of
        Content s \<Rightarrow>
          (case decode s of
             Some members \<Rightarrow>
               (let pkgs = concat (map (\<lambda>(key, pkgs). if key = ''comment'' then [] else case pkgs of Some l \<Rightarrow> l | None \<Rightarrow> []) members)
                in if pkgs = [] then first_allowlist file' decode ps else pkgs)
           | None \<Rightarrow> first_allowlist file' decode ps)
      | _ \<Rightarrow> first_allowlist file' decode ps)"

definition dnf_install :: "os \<Rightarrow> string list \<Rightarrow> int \<Rightarrow> string list \<Rightarrow> int \<times> effect list" where
  "dnf_install sys allowed uid args =
     (case args of
        [pkg] \<Rightarrow>
          if \<not> safe_package_name pkg \<or> pkg \<notin> set allowed then refuse uid ''dnf-install'' args 1
          else run_audited sys uid ''dnf-install'' args ''dnf'' [''install'', ''-y'', ''--setopt=install_weak_deps=False'', pkg]
      | _ \<Rightarrow> refuse uid ''dnf-install'' args 1)"

definition upgrade_package :: "string \<Rightarrow> bool" where
  "upgrade_package pkg \<longleftrightarrow> safe_package_name pkg \<and> (prefix ''slurm'' pkg \<or> prefix ''munge'' pkg)"

definition dnf_upgrade :: "os \<Rightarrow> int \<Rightarrow> string list \<Rightarrow> int \<times> effect list" where
  "dnf_upgrade sys uid args =
     (if args = [] \<or> \<not> list_all upgrade_package args then refuse uid ''dnf-upgrade'' args 1
      else run_audited sys uid ''dnf-upgrade'' args ''dnf''
             ([''install'', ''-y'', ''--repo=clustr-internal-repo'', ''--setopt=install_weak_deps=False''] @ args))"

section \<open>Services and certificates\<close>

definition allowed_units :: "string list" where
  "allowed_units = [''clustr-slapd.service'', ''sssd.service'', ''sshd.service'']"

definition allowed_actions :: "string list" where
  "allowed_actions = [''start'', ''stop'', ''restart'', ''enable'', ''disable'', ''reset-failed'']"

definition service_control :: "os \<Rightarrow> int \<Rightarrow> string list \<Rightarrow> int \<times> effect list" where
  "service_control sys uid args =
     (case args of
        [unit, action] \<Rightarrow>
          if unit \<notin> set allowed_units \<or> action \<notin> set allowed_actions then refuse uid ''service-control'' args 1
          else run_audited sys uid ''service-control'' args ''systemctl'' [action, unit]
      | _ \<Rightarrow> refuse uid ''service-control'' args 1)"

definition ca_trust_extract :: "os \<Rightarrow> int \<Rightarrow> int \<times> effect list" where
  "ca_trust_extract sys uid = run_audited sys uid ''ca-trust-extract'' [] ''update-ca-trust'' [''extract'']"

section \<open>Repository\<close>

definition repo_base :: string where
  "repo_base = ''/var/lib/clustr/repo/clustr-internal-repo/''"

text \<open>A file is copied over a temporary one beside its destination. Reads of the source after it is open do not fail.\<close>

definition copy_file :: "os \<Rightarrow> string \<Rightarrow> string \<Rightarrow> bool \<times> effect list" where
  "copy_file sys src dst =
     (let tmp = dst @ ''.tmp'' in
      case os_file sys src of
        Content s \<Rightarrow>
          (let (ok, l) = perform sys [(Create tmp, []), (Fill tmp s, [Delete tmp]), (Rename tmp dst, [])] in (ok, Load src # l))
      | _ \<Rightarrow> (False, [Load src]))"

definition repo_push :: "os \<Rightarrow> int \<Rightarrow> string list \<Rightarrow> int \<times> effect list" where
  "repo_push sys uid args =
     (case args of
        [src, dst] \<Rightarrow>
          if \<not> prefix ''/'' src \<or> \<not> prefix repo_base dst \<or> \<not> suffix ''.rpm'' dst \<or> \<not> prefix repo_base (clean_path dst)
          then refuse uid ''repo-push'' args 1
          else
            (let dst = clean_path dst; (ok, made) = perform sys [(Mkdir (dir_path dst), [])] in
             if \<not> ok then (2, made @ [Audit uid ''repo-push'' args 2])
             else
               (let (ok, copied) = copy_file sys src dst; code = (if ok then 0 else 2)
                in (code, made @ copied @ [Audit uid ''repo-push'' args code])))
      | _ \<Rightarrow> refuse uid ''repo-push'' args 1)"

definition repo_refresh :: "os \<Rightarrow> int \<Rightarrow> string list \<Rightarrow> int \<times> effect list" where
  "repo_refresh sys uid args =
     (case args of
        [dir] \<Rightarrow>
          (let dir = clean_path dir in
           if \<not> prefix repo_base dir then refuse uid ''repo-refresh'' args 1
           else
             (let (ok, made) = perform sys [(Mkdir dir, [])] in
              if \<not> ok then (2, made @ [Audit uid ''repo-refresh'' args 2])
              else
                (let (code, ran) = run_audited sys uid ''repo-refresh'' args ''createrepo_c'' [''--update'', dir] in (code, made @ ran))))
      | _ \<Rightarrow> refuse uid ''repo-refresh'' args 1)"

section \<open>Alert rules\<close>

definition rules_dir :: string where
  "rules_dir = ''/etc/clustr/rules.d/''"

definition safe_rule_char :: "char \<Rightarrow> bool" where
  "safe_rule_char c \<longleftrightarrow> is_letter c \<or> is_digit c \<or>
     c \<in> {CHR ''.'', CHR ''-'', CHR ''_''}"

definition safe_rule_name :: "string \<Rightarrow> bool" where
  "safe_rule_name name \<longleftrightarrow> name \<noteq> '''' \<and> list_all safe_rule_char name"

definition rule_write :: "os \<Rightarrow> int \<Rightarrow> string list \<Rightarrow> int \<times> effect list" where
  "rule_write sys uid args =
     (case args of
        [name, src] \<Rightarrow>
          if \<not> safe_rule_name name \<or> \<not> prefix ''/'' src \<or> \<not> prefix ''/tmp/'' (clean_path src) then refuse uid ''rule-write'' args 1
          else
            (let src = clean_path src; dst = join_path [rules_dir, name @ ''.yml'']; tmp = dst @ ''.tmp'';
                 (ok, made) = perform sys [(Mkdir rules_dir, [])] in
             if \<not> ok then (2, made @ [Audit uid ''rule-write'' args 2])
             else
               (case os_file sys src of
                  Content s \<Rightarrow>
                    (let (ok, l) = perform sys [(Create tmp, []), (Fill tmp s, [Delete tmp]), (Rename tmp dst, [Delete tmp])];
                         code = (if ok then 0 else 2)
                     in (code, made @ [Load src] @ l @ [Audit uid ''rule-write'' args code]))
                | _ \<Rightarrow> (2, made @ [Load src, Audit uid ''rule-write'' args 2])))
      | _ \<Rightarrow> refuse uid ''rule-write'' args 1)"

section \<open>BIOS settings\<close>

definition bios_vendors :: "string list" where
  "bios_vendors = [''intel'', ''dell'', ''supermicro'']"

definition safe_vendor :: "string \<Rightarrow> bool" where
  "safe_vendor v \<longleftrightarrow> v \<noteq> '''' \<and> v \<in> set bios_vendors \<and> list_all is_lower v"

definition bios_binary :: "string \<Rightarrow> string" where
  "bios_binary v =
     (if v = ''dell'' then ''/var/lib/clustr/vendor-bios/dell/racadm''
      else if v = ''supermicro'' then ''/var/lib/clustr/vendor-bios/supermicro/sum''
      else ''/var/lib/clustr/vendor-bios/intel/syscfg'')"

definition bios_read_argv :: "string \<Rightarrow> string list" where
  "bios_read_argv v =
     (if v = ''dell'' then [''get'', ''BIOS.SetupConfig'']
      else if v = ''supermicro'' then [''-c'', ''GetCurrentBiosCfg'', ''--file'', ''/tmp/clustr-sum-bios-read.cfg'']
      else [''/s'', ''-''])"

definition bios_read :: "os \<Rightarrow> int \<Rightarrow> string list \<Rightarrow> int \<times> effect list" where
  "bios_read sys uid args =
     (case args of
        [v] \<Rightarrow>
          if \<not> safe_vendor v \<or> \<not> os_runnable sys (bios_binary v) then refuse uid ''bios-read'' args 1
          else run_audited sys uid ''bios-read'' args (bios_binary v) (bios_read_argv v)
      | _ \<Rightarrow> refuse uid ''bios-read'' args 1)"

definition bios_staging :: string where
  "bios_staging = ''/var/lib/clustr/bios-staging/''"

text \<open>One \<open>racadm set\<close> for each setting, up to the first that fails, and then the job.\<close>

fun dell_sets :: "os \<Rightarrow> string \<Rightarrow> (string \<times> string) list \<Rightarrow> int \<times> effect list" where
  "dell_sets sys bin [] =
     (let job = [''jobqueue'', ''create'', ''BIOS.Setup.1-1''] in (exit_code (os_exec sys bin job), [Run bin job]))"
| "dell_sets sys bin ((name, val) # rest) =
     (let argv = [''set'', name, val]; code = exit_code (os_exec sys bin argv)
      in if code \<noteq> 0 then (code, [Run bin argv]) else (let (code, l) = dell_sets sys bin rest in (code, Run bin argv # l)))"

definition apply_dell :: "os \<Rightarrow> int \<Rightarrow> string \<Rightarrow> string \<Rightarrow> int \<times> effect list" where
  "apply_dell sys uid bin path =
     (case os_file sys path of
        Content s \<Rightarrow>
          (case os_profile sys s of
             None \<Rightarrow> (2, [Load path])
           | Some [] \<Rightarrow> (0, [Load path])
           | Some settings \<Rightarrow> (let (code, l) = dell_sets sys bin settings in (code, Load path # l)))
      | _ \<Rightarrow> (2, [Load path, Audit uid ''bios-apply-dell-read'' [] 2]))"

text \<open>The sections of the file that Supermicro's tool reads, each in the order of its first setting.\<close>

definition setting_section :: "string \<times> string \<Rightarrow> string \<times> string \<times> string" where
  "setting_section kv =
     (case index_byte (fst kv) CHR ''.'' of
        None \<Rightarrow> (''General'', fst kv, snd kv)
      | Some i \<Rightarrow> (take i (fst kv), drop (Suc i) (fst kv), snd kv))"

definition newline :: string where
  "newline = [CHR 0x0A]"

definition sum_config :: "(string \<times> string) list \<Rightarrow> string" where
  "sum_config settings =
     (let entries = map setting_section settings
      in concat (map (\<lambda>sec. ''['' @ sec @ '']'' @ newline @
                      concat (map (\<lambda>(_, k, v). k @ ''='' @ v @ newline) (filter (\<lambda>e. fst e = sec) entries)) @ newline)
           (add_new [] (map fst entries))))"

definition apply_supermicro :: "os \<Rightarrow> string \<Rightarrow> string \<Rightarrow> int \<times> effect list" where
  "apply_supermicro sys bin path =
     (case os_file sys path of
        Content s \<Rightarrow>
          (case os_profile sys s of
             None \<Rightarrow> (2, [Load path])
           | Some [] \<Rightarrow> (0, [Load path])
           | Some settings \<Rightarrow>
               (case os_temp sys ''clustr-sum-apply-*.cfg'' of
                  None \<Rightarrow> (2, [Load path])
                | Some tmp \<Rightarrow>
                    (let (ok, l) = perform sys [(Fill tmp (sum_config settings), [Delete tmp])]; argv = [''-c'', ''ChangeBiosCfg'', ''--file'', tmp]
                     in if \<not> ok then (2, Load path # Create tmp # l)
                        else (exit_code (os_exec sys bin argv), [Load path, Create tmp] @ l @ [Run bin argv, Delete tmp]))))
      | _ \<Rightarrow> (2, [Load path]))"

definition bios_apply_exec :: "os \<Rightarrow> int \<Rightarrow> string \<Rightarrow> string \<Rightarrow> string \<Rightarrow> int \<times> effect list" where
  "bios_apply_exec sys uid v bin path =
     (if v = ''dell'' then apply_dell sys uid bin path
      else if v = ''supermicro'' then apply_supermicro sys bin path
      else (exit_code (os_exec sys bin [''/r'', path]), [Run bin [''/r'', path]]))"

definition bios_apply :: "os \<Rightarrow> int \<Rightarrow> string list \<Rightarrow> int \<times> effect list" where
  "bios_apply sys uid args =
     (case args of
        [v, path] \<Rightarrow>
          (let clean = clean_path path in
           if \<not> safe_vendor v \<or> \<not> prefix ''/'' path \<or> \<not> prefix bios_staging clean \<or> \<not> suffix ''.json'' clean then refuse uid ''bios-apply'' args 1
           else
             (case os_lstat sys clean of
                None \<Rightarrow> refuse uid ''bios-apply'' args 2
              | Some regular \<Rightarrow>
                  if \<not> regular \<or> \<not> os_runnable sys (bios_binary v) then refuse uid ''bios-apply'' args 1
                  else
                    (let (code, l) = bios_apply_exec sys uid v (bios_binary v) clean
                     in (code, l @ [Audit uid ''bios-apply'' args code]))))
      | _ \<Rightarrow> refuse uid ''bios-apply'' args 1)"

section \<open>Baseboard controllers\<close>

definition power_flag :: "string \<rightharpoonup> string" where
  "power_flag = map_of [(''status'', ''--stat''), (''on'', ''--on''), (''off'', ''--off''), (''cycle'', ''--cycle''), (''reset'', ''--reset'')]"

definition sel_flags :: "string \<rightharpoonup> string list" where
  "sel_flags = map_of [(''list'', [''--no-header-output'', ''--comma-separated-output'', ''--output-event-state'']), (''clear'', [''--clear''])]"

definition sensor_flags :: "string list" where
  "sensor_flags = [''--no-header-output'', ''--comma-separated-output'', ''--output-sensor-state'']"

definition lan_fields :: "string list" where
  "lan_fields = [''ipsrc'', ''ipaddr'', ''netmask'', ''defgw'', ''username'', ''password'', ''enable-user'']"

definition safe_bmc_char :: "char \<Rightarrow> bool" where
  "safe_bmc_char c \<longleftrightarrow> is_letter c \<or> is_digit c \<or> c \<in> {CHR ''.'', CHR ''-'', CHR ''_'', CHR '':'', CHR ''@''}"

definition safe_bmc_field :: "string \<Rightarrow> bool" where
  "safe_bmc_field v \<longleftrightarrow> length v \<le> 256 \<and> list_all safe_bmc_char v"

definition safe_channel :: "string \<Rightarrow> bool" where
  "safe_channel ch \<longleftrightarrow> ch \<noteq> '''' \<and> length ch \<le> 2 \<and> list_all is_digit ch \<and> 1 \<le> digits_val ch \<and> digits_val ch \<le> 16"

definition read_credentials :: "os \<Rightarrow> credentials option" where
  "read_credentials sys =
     (case os_stdin sys of
        None \<Rightarrow> None
      | Some s \<Rightarrow> if trim_space s = '''' then Some \<lparr>cr_host = '''', cr_user = '''', cr_password = ''''\<rparr> else os_credentials sys (trim_space s))"

definition valid_credentials :: "credentials \<Rightarrow> bool" where
  "valid_credentials cr \<longleftrightarrow> safe_bmc_field (cr_host cr) \<and> safe_bmc_field (cr_user cr)"

definition common_ipmi_args :: "credentials \<Rightarrow> string list" where
  "common_ipmi_args cr =
     (if cr_host cr = '''' then []
      else [''-h'', cr_host cr] @ (if cr_user cr = '''' then [] else [''-u'', cr_user cr]) @ [''--driver-type=LAN_2_0''])"

text \<open>The file of a password: none for an empty one.\<close>

definition password_file :: "os \<Rightarrow> string \<Rightarrow> (string option \<times> effect list) option \<times> effect list" where
  "password_file sys pw =
     (if pw = '''' then (Some (None, []), [])
      else
        (case os_temp sys ''ipmi-pw-*'' of
           None \<Rightarrow> (None, [])
         | Some path \<Rightarrow>
             (let (ok, l) = perform sys [(Fill path pw, [Delete path])]
              in if ok then (Some (Some path, [Delete path]), Create path # l) else (None, Create path # l))))"

definition password_flag :: "string list \<Rightarrow> string option \<Rightarrow> string list" where
  "password_flag argv path = (case path of None \<Rightarrow> argv | Some p \<Rightarrow> argv @ [''-f'', p])"

text \<open>What the three verbs with credentials share: \<open>bad\<close> are the arguments of the audit row of a refusal.\<close>

definition with_credentials :: "os \<Rightarrow> int \<Rightarrow> string \<Rightarrow> string list \<Rightarrow> string list \<Rightarrow> string list \<Rightarrow> int \<times> effect list" where
  "with_credentials sys uid verb bad good flags =
     (case read_credentials sys of
        None \<Rightarrow> refuse uid verb bad 1
      | Some cr \<Rightarrow>
          if \<not> valid_credentials cr then refuse uid verb bad 1
          else
            (case password_file sys (cr_password cr) of
               (None, l) \<Rightarrow> (1, l @ [Audit uid verb bad 1])
             | (Some (path, cleanup), l) \<Rightarrow>
                 (let (code, ran) = run_audited sys uid verb good verb (password_flag (common_ipmi_args cr) path @ flags)
                  in (code, l @ ran @ cleanup))))"

definition ipmi_power :: "os \<Rightarrow> int \<Rightarrow> string list \<Rightarrow> int \<times> effect list" where
  "ipmi_power sys uid args =
     (case args of
        [action] \<Rightarrow>
          (case power_flag action of
             None \<Rightarrow> refuse uid ''ipmi-power'' args 1
           | Some flag \<Rightarrow> with_credentials sys uid ''ipmi-power'' args [action] [flag])
      | _ \<Rightarrow> refuse uid ''ipmi-power'' args 1)"

definition ipmi_sel :: "os \<Rightarrow> int \<Rightarrow> string list \<Rightarrow> int \<times> effect list" where
  "ipmi_sel sys uid args =
     (case args of
        [op'] \<Rightarrow>
          (case sel_flags op' of
             None \<Rightarrow> refuse uid ''ipmi-sel'' args 1
           | Some flags \<Rightarrow> with_credentials sys uid ''ipmi-sel'' args [op'] flags)
      | _ \<Rightarrow> refuse uid ''ipmi-sel'' args 1)"

definition ipmi_sensors :: "os \<Rightarrow> int \<Rightarrow> string list \<Rightarrow> int \<times> effect list" where
  "ipmi_sensors sys uid args =
     (if args \<noteq> [] then refuse uid ''ipmi-sensors'' args 1
      else with_credentials sys uid ''ipmi-sensors'' args [] sensor_flags)"

definition trim_newlines :: "string \<Rightarrow> string" where
  "trim_newlines s = rev (dropWhile (\<lambda>c. c = CHR 0x0A) (rev s))"

definition cut_at :: "char \<Rightarrow> string \<Rightarrow> (string \<times> string) option" where
  "cut_at c s = map_option (\<lambda>i. (take i s, drop (Suc i) s)) (index_byte s c)"

text \<open>The arguments of ipmitool for a field; none for a value that the field does not take.\<close>

definition lan_argv :: "string \<Rightarrow> string \<Rightarrow> string \<Rightarrow> string \<Rightarrow> string list option" where
  "lan_argv channel field val password =
     (if field = ''ipsrc'' then (if val \<in> {''static'', ''dhcp''} then Some [''lan'', ''set'', channel, ''ipsrc'', val] else None)
      else if field = ''ipaddr'' then Some [''lan'', ''set'', channel, ''ipaddr'', val]
      else if field = ''netmask'' then Some [''lan'', ''set'', channel, ''netmask'', val]
      else if field = ''defgw'' then Some [''lan'', ''set'', channel, ''defgw'', ''ipaddr'', val]
      else if field = ''username'' then
        (case cut_at CHR '':'' val of
           Some (uid, name) \<Rightarrow> if safe_bmc_field uid \<and> safe_bmc_field name then Some [''user'', ''set'', ''name'', uid, name] else None
         | None \<Rightarrow> None)
      else if field = ''password'' then Some [''user'', ''set'', ''password'', val, password]
      else Some [''user'', ''enable'', val])"

definition ipmi_lan_set :: "os \<Rightarrow> int \<Rightarrow> string list \<Rightarrow> int \<times> effect list" where
  "ipmi_lan_set sys uid args =
     (case args of
        channel # field # val # _ \<Rightarrow>
          if \<not> safe_channel channel \<or> field \<notin> set lan_fields \<or> \<not> safe_bmc_field val then refuse uid ''ipmi-lan-set'' args 1
          else
            (case (if field = ''password'' then map_option trim_newlines (os_stdin sys) else Some '''') of
               None \<Rightarrow> refuse uid ''ipmi-lan-set'' [channel, field] 1
             | Some password \<Rightarrow>
                 (case lan_argv channel field val password of
                    None \<Rightarrow> refuse uid ''ipmi-lan-set'' args 1
                  | Some argv \<Rightarrow>
                      run_audited sys uid ''ipmi-lan-set'' [channel, field, if field = ''password'' then ''<redacted>'' else val] ''ipmitool'' argv))
      | _ \<Rightarrow> refuse uid ''ipmi-lan-set'' args 1)"

definition ipmi_lan_get :: "os \<Rightarrow> int \<Rightarrow> string list \<Rightarrow> int \<times> effect list" where
  "ipmi_lan_get sys uid args =
     (case args of
        [channel] \<Rightarrow>
          if \<not> safe_channel channel then refuse uid ''ipmi-lan-get'' args 1
          else run_audited sys uid ''ipmi-lan-get'' args ''ipmitool'' [''lan'', ''print'', channel]
      | _ \<Rightarrow> refuse uid ''ipmi-lan-get'' args 1)"

text \<open>The credentials of a console are the first line of standard input; the rest is what the user types.\<close>

definition first_line :: "string \<Rightarrow> string option" where
  "first_line s = (if s = '''' then None else Some (takeWhile (\<lambda>c. c \<noteq> CHR 0x0A) s))"

definition console_credentials :: "os \<Rightarrow> credentials option" where
  "console_credentials sys = Option.bind (Option.bind (os_stdin sys) first_line) (os_credentials sys)"

definition ipmi_sol_activate :: "os \<Rightarrow> int \<Rightarrow> string list \<Rightarrow> int \<times> effect list" where
  "ipmi_sol_activate sys uid args =
     (if args \<noteq> [] then refuse uid ''ipmi-sol-activate'' args 1
      else
        (case console_credentials sys of
           None \<Rightarrow> refuse uid ''ipmi-sol-activate'' args 1
         | Some cr \<Rightarrow>
             if \<not> valid_credentials cr \<or> cr_host cr = '''' then refuse uid ''ipmi-sol-activate'' args 1
             else
               (case os_temp sys ''ipmi-sol-pass-*'' of
                  None \<Rightarrow> refuse uid ''ipmi-sol-activate'' args 1
                | Some path \<Rightarrow>
                    (let (ok, l) = perform sys [(Fill path (cr_password cr), [])] in
                     if \<not> ok then (1, Create path # l @ [Audit uid ''ipmi-sol-activate'' args 1, Delete path])
                     else
                       (let (code, ran) = run_audited sys uid ''ipmi-sol-activate'' [cr_host cr] ''ipmitool''
                              [''-I'', ''lanplus'', ''-H'', cr_host cr, ''-U'', cr_user cr, ''-f'', path, ''sol'', ''activate'']
                        in (code, Create path # l @ ran @ [Delete path]))))))"

end
