(* ===== verification/Privhelper_Files.thy ===== *)
theory Privhelper_Files
  imports Privhelper
begin

text \<open>
  The verbs of the privilege helper that keep files: the NFS exports (\<open>nfs_export.go\<close>), of which the helper owns a block in \<open>/etc/exports\<close>,
  and the backups of configuration files (\<open>backup.go\<close>); and \<open>main\<close>, which calls all verbs. An archive is the list of its entries.
\<close>

section \<open>Subnets\<close>

text \<open>What \<open>net.ParseCIDR\<close> accepts.\<close>

definition octet :: "string \<Rightarrow> bool" where
  "octet s \<longleftrightarrow> s \<noteq> '''' \<and> list_all is_digit s \<and> digits_val s \<le> 255 \<and> (hd s = CHR ''0'' \<longrightarrow> length s = 1)"

definition ipv4 :: "string \<Rightarrow> bool" where
  "ipv4 s \<longleftrightarrow> (let parts = split_on CHR ''.'' s in length parts = 4 \<and> list_all octet parts)"

definition is_hex :: "char \<Rightarrow> bool" where
  "is_hex c \<longleftrightarrow> is_digit c \<or> (97 \<le> (of_char c :: nat) \<and> (of_char c :: nat) \<le> 102) \<or> (65 \<le> (of_char c :: nat) \<and> (of_char c :: nat) \<le> 70)"

text \<open>
  The groups of an IPv6 address: \<open>i\<close> is the number of bytes read, \<open>gap\<close> whether there was a double colon. A group has one to four digits;
  the last can be an IPv4 address.
\<close>

fun ipv6_groups :: "nat \<Rightarrow> bool \<Rightarrow> nat \<Rightarrow> string \<Rightarrow> bool" where
  "ipv6_groups 0 gap i s \<longleftrightarrow> s = '''' \<and> \<not> gap"
| "ipv6_groups (Suc n) gap i s \<longleftrightarrow>
     (let ds = takeWhile is_hex s; r = dropWhile is_hex s in
      if ds = '''' \<or> 4 < length ds then False
      else if r \<noteq> '''' \<and> hd r = CHR ''.'' then ipv4 s \<and> (gap \<or> i = 12) \<and> i + 4 \<le> 16 \<and> (i + 4 < 16 \<longrightarrow> gap) \<and> (i + 4 = 16 \<longrightarrow> \<not> gap)
      else if r = '''' then (if i + 2 < 16 then gap else \<not> gap)
      else if hd r \<noteq> CHR '':'' \<or> length r = 1 then False
      else
        (let t = tl r in
         if hd t \<noteq> CHR '':'' then ipv6_groups n gap (i + 2) t
         else if gap then False
         else if tl t = '''' then i + 2 < 16
         else ipv6_groups n True (i + 2) (tl t)))"

definition ipv6 :: "string \<Rightarrow> bool" where
  "ipv6 s \<longleftrightarrow> (if prefix ''::'' s then (if s = ''::'' then True else ipv6_groups 8 True 0 (drop 2 s)) else ipv6_groups 8 False 0 s)"

text \<open>The first dot or colon decides the family; a zone is not accepted.\<close>

definition parse_cidr :: "string \<Rightarrow> bool" where
  "parse_cidr s \<longleftrightarrow>
     (case index_byte s CHR ''/'' of
        None \<Rightarrow> False
      | Some i \<Rightarrow>
          (let addr = take i s; mask = drop (Suc i) s; d = dropWhile (\<lambda>c. c \<notin> {CHR ''.'', CHR '':'', CHR ''%''}) addr;
               bits = (if d \<noteq> '''' \<and> hd d = CHR ''.'' then (if ipv4 addr then Some 32 else None)
                       else if d \<noteq> '''' \<and> hd d = CHR '':'' then (if ipv6 addr then Some 128 else None) else None)
           in case bits of
                None \<Rightarrow> False
              | Some b \<Rightarrow> mask \<noteq> '''' \<and> list_all is_digit mask \<and> digits_val mask \<le> b))"

section \<open>Exports\<close>

definition exports_path :: string where
  "exports_path = ''/etc/exports''"

definition images_base :: string where
  "images_base = ''/var/lib/clustr/images''"

text \<open>The dash of the first anchor is a character of three bytes.\<close>

definition anchor_begin :: string where
  "anchor_begin = ''# BEGIN clustr-managed NFS exports '' @ [CHR 0xE2, CHR 0x80, CHR 0x94] @ '' do not edit between these lines''"

definition anchor_end :: string where
  "anchor_end = ''# END clustr-managed NFS exports''"

definition is_lower_hex :: "char \<Rightarrow> bool" where
  "is_lower_hex c \<longleftrightarrow> is_digit c \<or> (97 \<le> (of_char c :: nat) \<and> (of_char c :: nat) \<le> 102)"

definition is_uuid :: "string \<Rightarrow> bool" where
  "is_uuid s \<longleftrightarrow> (let parts = split_on CHR ''-'' s in map length parts = [8, 4, 4, 4, 12] \<and> list_all (list_all is_lower_hex) parts)"

definition hex_val :: "char \<Rightarrow> nat" where
  "hex_val c =
     (if is_digit c then digit_val c
      else if 97 \<le> (of_char c :: nat) then of_char c - 87 else of_char c - 55)"

definition hex_number :: "string \<Rightarrow> nat" where
  "hex_number s = foldl (\<lambda>n c. 16 * n + hex_val c) 0 s"

definition fsid_for :: "string \<Rightarrow> nat option" where
  "fsid_for i =
     (let clean = filter (\<lambda>c. c \<noteq> CHR ''-'') i; first = take 8 clean
      in if length clean < 8 \<or> \<not> list_all is_hex first then None else Some (hex_number first mod (2 ^ 32 - 1)))"

definition rootfs_path :: "string \<Rightarrow> string" where
  "rootfs_path i = images_base @ ''/'' @ i @ ''/rootfs''"

definition export_line :: "string \<Rightarrow> string \<Rightarrow> nat \<Rightarrow> string" where
  "export_line i subnet fsid = rootfs_path i @ '' '' @ subnet @ ''(ro,no_subtree_check,fsid='' @ dec_nat fsid @ '')''"

text \<open>\<open>strings.Index\<close> and \<open>strings.Contains\<close>.\<close>

fun find_sub :: "string \<Rightarrow> string \<Rightarrow> nat option" where
  "find_sub pat [] = (if pat = '''' then Some 0 else None)"
| "find_sub pat (c # s) = (if prefix pat (c # s) then Some 0 else map_option Suc (find_sub pat s))"

definition line_image :: "string \<Rightarrow> string" where
  "line_image line =
     (let pre = images_base @ ''/'' in
      if \<not> prefix pre line then ''''
      else
        (case find_sub ''/rootfs'' (drop (length pre) line) of
           None \<Rightarrow> ''''
         | Some i \<Rightarrow>
             (let cand = take i (drop (length pre) line)
              in if CHR ''/'' \<in> set cand \<or> find_sub ''..'' cand \<noteq> None \<or> \<not> is_uuid cand then '''' else cand)))"

record export_scan =
  es_before :: "string list"
  es_managed :: "string list"
  es_after :: "string list"
  es_in_block :: bool
  es_found :: bool

definition scan_line :: "string \<Rightarrow> export_scan \<Rightarrow> string \<Rightarrow> export_scan" where
  "scan_line i sc line =
     (if line = anchor_begin then sc\<lparr>es_in_block := True, es_found := True\<rparr>
      else if line = anchor_end then sc\<lparr>es_in_block := False\<rparr>
      else if es_in_block sc then
        (if line_image line = i then sc else sc\<lparr>es_managed := es_managed sc @ [line]\<rparr>)
      else if \<not> es_found sc then sc\<lparr>es_before := es_before sc @ [line]\<rparr>
      else sc\<lparr>es_after := es_after sc @ [line]\<rparr>)"

definition empty_scan :: export_scan where
  "empty_scan = \<lparr>es_before = [], es_managed = [], es_after = [], es_in_block = False, es_found = False\<rparr>"

definition scan_exports :: "string \<Rightarrow> string \<Rightarrow> export_scan" where
  "scan_exports i existing = foldl (scan_line i) empty_scan (split_on CHR 0x0A existing)"

definition blank :: "string \<Rightarrow> bool" where
  "blank l \<longleftrightarrow> trim_space l = ''''"

definition unlines :: "string list \<Rightarrow> string" where
  "unlines ls = concat (map (\<lambda>l. l @ newline) ls)"

definition build_exports :: "string \<Rightarrow> string \<Rightarrow> string \<Rightarrow> string option" where
  "build_exports existing i subnet =
     (case fsid_for i of
        None \<Rightarrow> None
      | Some fsid \<Rightarrow>
          (let sc = scan_exports i existing; managed = es_managed sc @ [export_line i subnet fsid];
               before = rev (dropWhile blank (rev (es_before sc)))
           in Some ((if before = [] then '''' else join newline before @ newline) @ newline @ anchor_begin @ newline @ unlines managed @
                anchor_end @ newline @ unlines (filter (\<lambda>l. \<not> blank l) (es_after sc)))))"

text \<open>The arguments: flags with values and nothing else, the last of a flag counting.\<close>

fun nfs_args :: "string \<Rightarrow> string \<Rightarrow> string list \<Rightarrow> (string \<times> string) option" where
  "nfs_args i subnet [] = (if i = '''' \<or> subnet = '''' then None else Some (i, subnet))"
| "nfs_args i subnet [a] = None"
| "nfs_args i subnet (a # v # rest) =
     (if a = ''--image-id'' then nfs_args v subnet rest
      else if a = ''--subnet'' then nfs_args i v rest else None)"

definition nfs_export :: "os \<Rightarrow> int \<Rightarrow> string list \<Rightarrow> int \<times> effect list" where
  "nfs_export sys uid args =
     (case nfs_args '''' '''' args of
        None \<Rightarrow> refuse uid ''nfs-export'' args 1
      | Some (i, subnet) \<Rightarrow>
          if \<not> is_uuid i \<or> \<not> parse_cidr subnet \<or> \<not> os_exists sys (rootfs_path i) then refuse uid ''nfs-export'' args 1
          else
            (case (case os_file sys exports_path of Content s \<Rightarrow> Some s | Missing \<Rightarrow> Some '''' | Unreadable \<Rightarrow> None) of
               None \<Rightarrow> (2, [Load exports_path, Audit uid ''nfs-export'' args 2])
             | Some existing \<Rightarrow>
                 (case build_exports existing i subnet of
                    None \<Rightarrow> (2, [Load exports_path, Audit uid ''nfs-export'' args 2])
                  | Some out \<Rightarrow>
                      (let tmp = exports_path @ ''.tmp'';
                           (ok, l) = perform sys [(Create tmp, []), (Fill tmp out, []), (Rename tmp exports_path, [Delete tmp])]
                       in if \<not> ok then (2, Load exports_path # l @ [Audit uid ''nfs-export'' args 2])
                          else
                            (let (code, ran) = run_audited sys uid ''nfs-export'' args ''exportfs'' [''-ra'']
                             in (code, Load exports_path # l @ ran))))))"

section \<open>Backups\<close>

definition backup_base :: string where
  "backup_base = ''/var/lib/clustr/backups/''"

definition backup_roots :: "string list" where
  "backup_roots = [''/etc'', ''/var/lib/sssd'', ''/var/lib/sss'']"

definition safe_backup_path :: "string \<Rightarrow> bool" where
  "safe_backup_path p \<longleftrightarrow>
     p \<noteq> '''' \<and> CHR 0x00 \<notin> set p \<and> prefix ''/'' p \<and> ''..'' \<notin> set (split_on CHR ''/'' p) \<and>
     list_ex (\<lambda>root. prefix (root @ ''/'') (clean_path p) \<or> clean_path p = root) backup_roots"

definition safe_plugin_name :: "string \<Rightarrow> bool" where
  "safe_plugin_name n \<longleftrightarrow> n \<noteq> '''' \<and> list_all (\<lambda>c. is_letter c \<or> is_digit c \<or> c \<in> {CHR ''-'', CHR ''_''}) n"

definition safe_node_id :: "string \<Rightarrow> bool" where
  "safe_node_id i \<longleftrightarrow> 8 \<le> length i \<and> length i \<le> 64 \<and> list_all (\<lambda>c. is_hex c \<or> c = CHR ''-'') i"

fun flag_values :: "string list \<Rightarrow> string list \<Rightarrow> string \<rightharpoonup> string" where
  "flag_values flags (a # v # rest) =
     (if a \<in> set flags then [a \<mapsto> v] ++ flag_values flags rest else flag_values flags (v # rest))"
| "flag_values flags _ = (\<lambda>_. None)"

definition flag_value :: "(string \<rightharpoonup> string) \<Rightarrow> string \<Rightarrow> string" where
  "flag_value m f = (case m f of None \<Rightarrow> '''' | Some v \<Rightarrow> v)"

text \<open>A path of a backup: it is missing, or something of it cannot be read, or it has files, with their paths,
  in the order of the walk; nothing of it is removed during the walk.\<close>

datatype tree = Absent | Failed | Files "(string \<times> string) list"

record archive_entry =
  ae_name :: string
  ae_content :: string
  ae_regular :: bool

text \<open>The tree of a path, and the writer and the reader of archives; the reader also tells whether it came to the end.\<close>

record archiver =
  ar_tree :: "string \<Rightarrow> tree"
  ar_pack :: "archive_entry list \<Rightarrow> string"
  ar_unpack :: "string \<Rightarrow> archive_entry list \<times> bool"

definition file_entry :: "string \<times> string \<Rightarrow> archive_entry" where
  "file_entry f = \<lparr>ae_name = (let p = clean_path (fst f) in if prefix ''/'' p then tl p else p), ae_content = snd f, ae_regular = True\<rparr>"

fun pack_paths :: "(string \<Rightarrow> tree) \<Rightarrow> string list \<Rightarrow> archive_entry list option \<times> effect list" where
  "pack_paths tree' [] = (Some [], [])"
| "pack_paths tree' (p # ps) =
     (case tree' p of
        Absent \<Rightarrow> (let (es, l) = pack_paths tree' ps in (es, Load p # l))
      | Failed \<Rightarrow> (None, [Load p])
      | Files fs \<Rightarrow> (let (es, l) = pack_paths tree' ps in (map_option (\<lambda>es. map file_entry fs @ es) es, Load p # l)))"

definition backup_paths :: "string \<Rightarrow> string list" where
  "backup_paths csv = filter (\<lambda>p. p \<noteq> '''') (map trim_space (split_on CHR '','' csv))"

definition create_tarball :: "os \<Rightarrow> archiver \<Rightarrow> string \<Rightarrow> string list \<Rightarrow> bool \<times> effect list" where
  "create_tarball sys ar out paths =
     (case os_temp sys (dir_path out @ ''/.backup-write-*.tar.gz.tmp'') of
        None \<Rightarrow> (False, [])
      | Some tmp \<Rightarrow>
          (case pack_paths (ar_tree ar) paths of
             (None, loads) \<Rightarrow> (False, Create tmp # loads @ [Delete tmp])
           | (Some es, loads) \<Rightarrow>
               (let (ok, l) = perform sys [(Fill tmp (ar_pack ar es), [Delete tmp]), (Rename tmp out, [Delete tmp])]
                in (ok, Create tmp # loads @ l))))"

definition backup_write :: "os \<Rightarrow> archiver \<Rightarrow> int \<Rightarrow> string list \<Rightarrow> int \<times> effect list" where
  "backup_write sys ar uid args =
     (let m = flag_values [''--plugin'', ''--node-id'', ''--paths'', ''--out''] args;
          out = clean_path (flag_value m ''--out''); paths = backup_paths (flag_value m ''--paths'') in
      if \<not> safe_plugin_name (flag_value m ''--plugin'') \<or> \<not> safe_node_id (flag_value m ''--node-id'') \<or> flag_value m ''--paths'' = '''' \<or>
         flag_value m ''--out'' = '''' \<or> \<not> prefix backup_base out \<or> \<not> suffix ''.tar.gz'' out \<or> \<not> list_all safe_backup_path paths \<or> paths = []
      then refuse uid ''backup-write'' args 1
      else
        (let (ok, made) = perform sys [(Mkdir (dir_path out), [])] in
         if \<not> ok then (2, made @ [Audit uid ''backup-write'' args 2])
         else
           (let (ok, l) = create_tarball sys ar out (map clean_path paths); code = (if ok then 0 else 2)
            in (code, made @ l @ [Audit uid ''backup-write'' args code]))))"

definition entry_dest :: "archive_entry \<Rightarrow> string" where
  "entry_dest e = clean_path (join_path [''/'', ae_name e])"

text \<open>The entries of an archive one after the other, up to the first that must not be restored or fails.\<close>

fun extract_all :: "os \<Rightarrow> archive_entry list \<Rightarrow> bool \<times> effect list" where
  "extract_all sys [] = (True, [])"
| "extract_all sys (e # es) =
     (if \<not> ae_regular e then extract_all sys es
      else
        (let dest = entry_dest e; tmp = dest @ ''.restore.tmp'' in
         if \<not> safe_backup_path dest then (False, [])
         else
           (let (ok, l) = perform sys [(Mkdir (dir_path dest), []), (Create tmp, []), (Fill tmp (ae_content e), [Delete tmp]),
                  (Rename tmp dest, [Delete tmp])]
            in if \<not> ok then (False, l) else (let (ok, l') = extract_all sys es in (ok, l @ l')))))"

definition backup_restore :: "os \<Rightarrow> archiver \<Rightarrow> int \<Rightarrow> string list \<Rightarrow> int \<times> effect list" where
  "backup_restore sys ar uid args =
     (let m = flag_values [''--tarball'', ''--node-id'', ''--plugin''] args; tarball = clean_path (flag_value m ''--tarball'') in
      if flag_value m ''--tarball'' = '''' \<or> \<not> safe_plugin_name (flag_value m ''--plugin'') \<or> \<not> safe_node_id (flag_value m ''--node-id'') \<or>
         \<not> prefix backup_base tarball \<or> \<not> suffix ''.tar.gz'' tarball
      then refuse uid ''backup-restore'' args 1
      else
        (case os_lstat sys tarball of
           None \<Rightarrow> refuse uid ''backup-restore'' args 2
         | Some regular \<Rightarrow>
             if \<not> regular then refuse uid ''backup-restore'' args 1
             else
               (let (ok, l) = (case os_file sys tarball of
                                 Content s \<Rightarrow> (let (es, complete) = ar_unpack ar s; (ok, l) = extract_all sys es in (ok \<and> complete, l))
                               | _ \<Rightarrow> (False, []));
                    code = (if ok then 0 else 2)
                in (code, Load tarball # l @ [Audit uid ''backup-restore'' args code]))))"

section \<open>Main\<close>

definition privhelper :: "os \<Rightarrow> archiver \<Rightarrow> string list \<Rightarrow> int \<Rightarrow> string list \<Rightarrow> int \<times> effect list" where
  "privhelper sys ar allowed uid argv =
     (case argv of
        [] \<Rightarrow> (1, [])
      | verb # args \<Rightarrow>
          if verb = ''dnf-install'' then dnf_install sys allowed uid args
          else if verb = ''dnf-upgrade'' then dnf_upgrade sys uid args
          else if verb = ''rule-write'' then rule_write sys uid args
          else if verb = ''repo-push'' then repo_push sys uid args
          else if verb = ''repo-refresh'' then repo_refresh sys uid args
          else if verb = ''cap-bit-test'' then (0, [])
          else if verb = ''service-control'' then service_control sys uid args
          else if verb = ''ca-trust-extract'' then ca_trust_extract sys uid
          else if verb = ''bios-read'' then bios_read sys uid args
          else if verb = ''bios-apply'' then bios_apply sys uid args
          else if verb = ''ipmi-power'' then ipmi_power sys uid args
          else if verb = ''ipmi-sel'' then ipmi_sel sys uid args
          else if verb = ''ipmi-sensors'' then ipmi_sensors sys uid args
          else if verb = ''ipmi-lan-set'' then ipmi_lan_set sys uid args
          else if verb = ''ipmi-lan-get'' then ipmi_lan_get sys uid args
          else if verb = ''ipmi-sol-activate'' then ipmi_sol_activate sys uid args
          else if verb = ''nfs-export'' then nfs_export sys uid args
          else if verb = ''backup-write'' then backup_write sys ar uid args
          else if verb = ''backup-restore'' then backup_restore sys ar uid args
          else (1, []))"

end
