(* ===== verification/Privhelper_Safety.thy ===== *)
theory Privhelper_Safety
  imports Privhelper_Files
begin

text \<open>
  What the privilege helper can be made to do: the programs it starts and the files it touches for any arguments of any caller, what
  becomes visible of a password, the audit rows; and the correctness of the exports block and of backups.
\<close>

section \<open>Confinement\<close>

definition helper_programs :: "string list" where
  "helper_programs = [''dnf'', ''systemctl'', ''update-ca-trust'', ''createrepo_c'', ''exportfs'', ''ipmi-power'', ''ipmi-sel'', ''ipmi-sensors'',
     ''ipmitool''] @ map bios_binary bios_vendors"

text \<open>The options that the helper itself gives to the programs that change the server.\<close>

definition own_options :: "string list" where
  "own_options = [''-y'', ''--setopt=install_weak_deps=False'', ''--repo=clustr-internal-repo'', ''--update'', ''-ra'']"

definition writable :: "string \<Rightarrow> bool" where
  "writable p \<longleftrightarrow> beneath repo_base p \<or> beneath rules_dir p \<or> p \<in> {exports_path, exports_path @ ''.tmp''} \<or> beneath backup_base p \<or>
     list_ex (\<lambda>root. beneath (root @ ''/'') p \<or> p \<in> {root, root @ ''.restore.tmp''}) backup_roots"

definition readable :: "string \<Rightarrow> bool" where
  "readable p \<longleftrightarrow> beneath ''/tmp/'' p \<or> beneath bios_staging p \<or> p = exports_path \<or> beneath backup_base p \<or>
     list_ex (\<lambda>root. beneath (root @ ''/'') p \<or> p = root) backup_roots"

definition temporary :: "os \<Rightarrow> string \<Rightarrow> bool" where
  "temporary sys p \<longleftrightarrow> (\<exists>pat. os_temp sys pat = Some p)"

definition makable :: "string \<Rightarrow> bool" where
  "makable d \<longleftrightarrow> list_ex (\<lambda>b. d = b \<or> d @ ''/'' = b \<or> beneath b d) [repo_base, rules_dir, backup_base] \<or>
     list_ex (\<lambda>root. d \<in> {root, dir_path root} \<or> beneath (root @ ''/'') d) backup_roots"

definition confined :: "os \<Rightarrow> string \<Rightarrow> effect \<Rightarrow> bool" where
  "confined sys verb e \<longleftrightarrow>
     (case e of
        Run prog argv \<Rightarrow>
          prog \<in> set helper_programs \<and>
          (prog \<in> {''dnf'', ''systemctl'', ''update-ca-trust'', ''createrepo_c'', ''exportfs''} \<longrightarrow>
             list_all (\<lambda>a. prefix ''-'' a \<longrightarrow> a \<in> set own_options) argv)
      | Load p \<Rightarrow> verb = ''repo-push'' \<or> readable p
      | Create p \<Rightarrow> writable p \<or> temporary sys p
      | Fill p s \<Rightarrow> writable p \<or> temporary sys p
      | Delete p \<Rightarrow> writable p \<or> temporary sys p
      | Rename p q \<Rightarrow> (writable p \<or> temporary sys p) \<and> writable q
      | Mkdir d \<Rightarrow> makable d
      | Audit u v a c \<Rightarrow> True)"

declare perform.simps [simp del]

lemma perform_all:
  assumes "perform sys es = (ok, l)" "list_all (\<lambda>(e, c). P e \<and> list_all P c) es"
  shows "list_all P l"
  using assms by (induction es arbitrary: ok l) (auto simp: perform.simps split: if_splits prod.splits)

lemma confined_simps [simp]:
  "confined sys verb (Audit u v a c)" "confined sys verb (Mkdir d) = makable d"
  "confined sys verb (Create p) = (writable p \<or> temporary sys p)" "confined sys verb (Fill p s) = (writable p \<or> temporary sys p)"
  "confined sys verb (Delete p) = (writable p \<or> temporary sys p)"
  "confined sys verb (Rename p q) = ((writable p \<or> temporary sys p) \<and> writable q)"
  "confined sys verb (Load p) = (verb = ''repo-push'' \<or> readable p)"
  by (simp_all add: confined_def)

lemma clean_in:
  assumes "prefix base (clean_path p)" "base = ''/'' @ b @ ''/''"
  shows "beneath base (clean_path p)"
  using clean_beneath [of p "''/'' @ b"] prefix_rooted [of "b @ ''/''" p] assms by simp

lemma clean_in_repo: "prefix repo_base (clean_path p) \<Longrightarrow> beneath repo_base (clean_path p)"
  by (rule clean_in [where b = "''var/lib/clustr/repo/clustr-internal-repo''"]) (simp_all add: repo_base_def)

lemma clean_in_tmp: "prefix ''/tmp/'' (clean_path p) \<Longrightarrow> beneath ''/tmp/'' (clean_path p)"
  by (rule clean_in [where b = "''tmp''"]) simp_all

lemma clean_in_staging: "prefix bios_staging (clean_path p) \<Longrightarrow> beneath bios_staging (clean_path p)"
  by (rule clean_in [where b = "''var/lib/clustr/bios-staging''"]) (simp_all add: bios_staging_def)

lemma clean_in_backups: "prefix backup_base (clean_path p) \<Longrightarrow> beneath backup_base (clean_path p)"
  by (rule clean_in [where b = "''var/lib/clustr/backups''"]) (simp_all add: backup_base_def)

lemma beneath_tmp: "beneath base p \<Longrightarrow> beneath base (p @ ''.tmp'')" "beneath base p \<Longrightarrow> beneath base (p @ ''.restore.tmp'')"
  by (simp_all add: beneath_suffix)

lemma safe_backup_beneath:
  assumes "safe_backup_path p"
  shows "\<exists>root \<in> set backup_roots. beneath (root @ ''/'') (clean_path p) \<or> clean_path p = root"
proof -
  have roots: "root \<in> set backup_roots \<Longrightarrow> \<exists>b. root = ''/'' @ b" for root by (auto simp: backup_roots_def)
  from assms obtain root where root: "root \<in> set backup_roots" "prefix (root @ ''/'') (clean_path p) \<or> clean_path p = root"
    by (auto simp: safe_backup_path_def list_ex_iff)
  obtain b where "root = ''/'' @ b" using roots [OF root(1)] by blast
  then have "prefix (root @ ''/'') (clean_path p) \<Longrightarrow> beneath (root @ ''/'') (clean_path p)"
    using clean_in [of "root @ ''/''" p b] by simp
  with root show ?thesis by blast
qed

text \<open>The file of a rule is in the directory of the rules.\<close>

lemma rule_file:
  assumes "safe_rule_name name"
  shows "join_path [rules_dir, name @ ''.yml''] = rules_dir @ name @ ''.yml'' \<and> beneath rules_dir (rules_dir @ name @ ''.yml'')"
proof -
  have "\<not> safe_rule_char CHR ''/''" by (simp add: safe_rule_char_def is_letter_def is_lower_def is_digit_def)
  then have "CHR ''/'' \<notin> set name" using assms by (auto simp: safe_rule_name_def list_all_iff)
  then have "part (name @ ''.yml'')" using assms by (auto simp: part_def plain_part_def safe_rule_name_def append_eq_Cons_conv)
  then have parts: "list_all part [''etc'', ''clustr'', ''rules.d'', name @ ''.yml'']" by (simp add: part_def plain_part_def)
  have file': "''/'' @ join ''/'' [''etc'', ''clustr'', ''rules.d'', name @ ''.yml''] = rules_dir @ name @ ''.yml''" by (simp add: rules_dir_def)
  let ?p = "join ''/'' [rules_dir, name @ ''.yml'']"
  have "split_on CHR ''/'' ?p = ['''', ''etc'', ''clustr'', ''rules.d'', '''', name @ ''.yml'']"
    using \<open>CHR ''/'' \<notin> set name\<close> by (simp add: rules_dir_def)
  moreover have "rooted ?p" by (simp add: rooted_def rules_dir_def)
  ultimately have "clean_parts ?p = [''etc'', ''clustr'', ''rules.d'', name @ ''.yml'']"
    using parts by (simp add: clean_parts_def clean_step_def part_def plain_part_def)
  then have "clean_path ?p = rules_dir @ name @ ''.yml''" using clean_rooted [OF \<open>rooted ?p\<close>] file' by simp
  moreover have "beneath rules_dir (rules_dir @ name @ ''.yml'')"
    using parts \<open>CHR ''/'' \<notin> set name\<close> by (simp add: beneath_def)
  ultimately show ?thesis by (simp add: join_path_def rules_dir_def)
qed

lemma dir_in:
  assumes "beneath base p" "base = ''/'' @ join ''/'' bs @ ''/''" "bs \<noteq> []" "list_all part bs"
  shows "dir_path p @ ''/'' = base \<or> beneath base (dir_path p)"
  using beneath_dir [of "''/'' @ join ''/'' bs" p bs] assms by auto

lemma makable_dirs:
  "beneath repo_base p \<Longrightarrow> makable (dir_path p)" "beneath backup_base p \<Longrightarrow> makable (dir_path p)"
  "root \<in> set backup_roots \<Longrightarrow> beneath (root @ ''/'') p \<or> p = root \<Longrightarrow> makable (dir_path p)"
proof -
  show "makable (dir_path p)" if "beneath repo_base p"
    using dir_in [OF that, of "[''var'', ''lib'', ''clustr'', ''repo'', ''clustr-internal-repo'']"]
    by (auto simp: makable_def repo_base_def part_def plain_part_def)
  show "makable (dir_path p)" if "beneath backup_base p"
    using dir_in [OF that, of "[''var'', ''lib'', ''clustr'', ''backups'']"]
    by (auto simp: makable_def backup_base_def part_def plain_part_def)
  show "makable (dir_path p)" if root: "root \<in> set backup_roots" and p: "beneath (root @ ''/'') p \<or> p = root"
  proof -
    obtain bs where bs: "root = ''/'' @ join ''/'' bs" "bs \<noteq> []" "list_all part bs"
    proof -
      consider "root = ''/etc''" | "root = ''/var/lib/sssd''" | "root = ''/var/lib/sss''" using root by (auto simp: backup_roots_def)
      then show ?thesis
      proof cases
        case 1
        then show ?thesis by (intro that [of "[''etc'']"]) (simp_all add: part_def plain_part_def)
      next
        case 2
        then show ?thesis by (intro that [of "[''var'', ''lib'', ''sssd'']"]) (simp_all add: part_def plain_part_def)
      next
        case 3
        then show ?thesis by (intro that [of "[''var'', ''lib'', ''sss'']"]) (simp_all add: part_def plain_part_def)
      qed
    qed
    have "dir_path p = root \<or> beneath (root @ ''/'') (dir_path p) \<or> dir_path p = dir_path root"
      using p dir_in [of "root @ ''/''" p bs] bs by auto
    with root show ?thesis unfolding makable_def list_ex_iff by blast
  qed
qed

lemma confined_refuse [simp]: "list_all (confined sys v) (snd (refuse uid verb args code))"
  by (simp add: refuse_def)

lemma confined_run_audited [simp]:
  "list_all (confined sys v) (snd (run_audited sys uid verb args prog argv)) = confined sys v (Run prog argv)"
  by (simp add: run_audited_def Let_def)

lemma confined_run:
  "confined sys v (Run prog argv) \<longleftrightarrow> prog \<in> set helper_programs \<and>
     (prog \<in> {''dnf'', ''systemctl'', ''update-ca-trust'', ''createrepo_c'', ''exportfs''} \<longrightarrow>
        list_all (\<lambda>a. prefix ''-'' a \<longrightarrow> a \<in> set own_options) argv)"
  by (simp add: confined_def)

lemma no_option: "prefix ''slurm'' p \<or> prefix ''munge'' p \<or> prefix ''/'' p \<Longrightarrow> \<not> prefix ''-'' p"
  by (auto simp: prefix_def)

lemma confined_dnf_install:
  "\<forall>p \<in> set allowed. \<not> prefix ''-'' p \<Longrightarrow> list_all (confined sys v) (snd (dnf_install sys allowed uid args))"
  by (auto simp: dnf_install_def confined_run helper_programs_def own_options_def split: list.split)

lemma confined_dnf_upgrade: "list_all (confined sys v) (snd (dnf_upgrade sys uid args))"
proof (cases "list_all upgrade_package args")
  case True
  have "\<not> prefix ''-'' a" if "upgrade_package a" for a using that no_option [of a] unfolding upgrade_package_def by blast
  with True have "list_all (\<lambda>a. prefix ''-'' a \<longrightarrow> a \<in> set own_options) args" by (auto simp: list_all_iff)
  then show ?thesis by (simp add: dnf_upgrade_def confined_run helper_programs_def) (simp add: own_options_def)
qed (simp add: dnf_upgrade_def)

lemma unit_no_option: "u \<in> set allowed_units \<Longrightarrow> \<not> prefix ''-'' u" "a \<in> set allowed_actions \<Longrightarrow> \<not> prefix ''-'' a"
  by (auto simp: allowed_units_def allowed_actions_def)

lemma confined_service: "list_all (confined sys v) (snd (service_control sys uid args))"
proof (cases "\<exists>u a. args = [u, a] \<and> u \<in> set allowed_units \<and> a \<in> set allowed_actions")
  case True
  then obtain u a where "args = [u, a]" "u \<in> set allowed_units" "a \<in> set allowed_actions" by blast
  then show ?thesis using unit_no_option by (simp add: service_control_def confined_run helper_programs_def)
next
  case False
  then show ?thesis by (auto simp: service_control_def split: list.split)
qed

lemma confined_ca: "list_all (confined sys v) (snd (ca_trust_extract sys uid))"
  by (simp add: ca_trust_extract_def confined_run helper_programs_def own_options_def)

lemma writable_repo: "beneath repo_base p \<Longrightarrow> writable p"
  by (simp add: writable_def)

lemma confined_copy:
  assumes "copy_file sys src dst = (ok, l)" "beneath repo_base dst"
  shows "list_all (confined sys ''repo-push'') l"
proof (cases "os_file sys src")
  case (Content s)
  let ?es = "[(Create (dst @ ''.tmp''), []), (Fill (dst @ ''.tmp'') s, [Delete (dst @ ''.tmp'')]), (Rename (dst @ ''.tmp'') dst, [])]"
  obtain ok' l' where p: "perform sys ?es = (ok', l')" by force
  have "list_all (confined sys ''repo-push'') l'"
    using assms(2) beneath_tmp [OF assms(2)] by (intro perform_all [OF p]) (simp add: writable_repo)
  with assms(1) p Content show ?thesis by (simp add: copy_file_def) auto
qed (use assms in \<open>auto simp: copy_file_def\<close>)

lemma confined_repo_push: "list_all (confined sys ''repo-push'') (snd (repo_push sys uid args))"
proof (cases "\<exists>src dst. args = [src, dst] \<and> prefix repo_base (clean_path dst)")
  case True
  then obtain src dst where args: "args = [src, dst]" "prefix repo_base (clean_path dst)" by blast
  let ?d = "clean_path dst"
  have d: "beneath repo_base ?d" using args(2) by (rule clean_in_repo)
  obtain ok l where p: "perform sys [(Mkdir (dir_path ?d), [])] = (ok, l)" by force
  obtain ok' l' where c: "copy_file sys src ?d = (ok', l')" by force
  have "list_all (confined sys ''repo-push'') l" using makable_dirs(1) [OF d] by (intro perform_all [OF p]) simp
  with confined_copy [OF c d] p c args show ?thesis by (simp add: repo_push_def Let_def)
qed (auto simp: repo_push_def split: list.split)

lemma confined_repo_refresh: "list_all (confined sys v) (snd (repo_refresh sys uid args))"
proof (cases "\<exists>dir. args = [dir] \<and> prefix repo_base (clean_path dir)")
  case True
  then obtain dir where args: "args = [dir]" "prefix repo_base (clean_path dir)" by blast
  let ?d = "clean_path dir"
  have d: "beneath repo_base ?d" using args(2) by (rule clean_in_repo)
  obtain ok l where p: "perform sys [(Mkdir ?d, [])] = (ok, l)" by force
  have "list_all (confined sys v) l" using d by (intro perform_all [OF p]) (simp add: makable_def)
  moreover have "\<not> prefix ''-'' ?d" using d no_option [of ?d] by (auto simp: beneath_def repo_base_def prefix_def)
  then have "confined sys v (Run ''createrepo_c'' [''--update'', ?d])"
    by (simp add: confined_run helper_programs_def own_options_def)
  ultimately show ?thesis using p args by (simp add: repo_refresh_def Let_def run_audited_def)
qed (auto simp: repo_refresh_def Let_def split: list.split)

lemma confined_rule_write: "list_all (confined sys v) (snd (rule_write sys uid args))"
proof (cases "\<exists>name src. args = [name, src] \<and> safe_rule_name name \<and> prefix ''/tmp/'' (clean_path src)")
  case True
  then obtain name src where args: "args = [name, src]" "safe_rule_name name" "prefix ''/tmp/'' (clean_path src)" by blast
  let ?dst = "rules_dir @ name @ ''.yml''"
  have dst: "join_path [rules_dir, name @ ''.yml''] = ?dst" "beneath rules_dir ?dst" using rule_file [OF args(2)] by simp_all
  have src: "readable (clean_path src)" using clean_in_tmp [OF args(3)] by (simp add: readable_def)
  obtain ok l where p: "perform sys [(Mkdir rules_dir, [])] = (ok, l)" by force
  have made: "list_all (confined sys v) l" by (intro perform_all [OF p]) (simp add: makable_def)
  have write': "list_all (confined sys v) l'"
    if "perform sys [(Create (?dst @ ''.tmp''), []), (Fill (?dst @ ''.tmp'') s, [Delete (?dst @ ''.tmp'')]),
      (Rename (?dst @ ''.tmp'') ?dst, [Delete (?dst @ ''.tmp'')])] = (ok', l')" for s ok' l'
  proof -
    have "writable ?dst" "writable (?dst @ ''.tmp'')" using dst(2) beneath_tmp [OF dst(2)] by (simp_all add: writable_def)
    then show ?thesis by (intro perform_all [OF that]) simp
  qed
  show ?thesis
    using args made p src write' unfolding rule_write_def Let_def
    by (auto simp: dst(1) split: file_answer.split prod.split)
next
  case False
  then show ?thesis by (auto simp: rule_write_def split: list.split)
qed

lemma bios_binary_confined: "safe_vendor v \<Longrightarrow> confined sys w (Run (bios_binary v) argv)"
  by (auto simp: confined_run helper_programs_def safe_vendor_def bios_vendors_def bios_binary_def)

lemma confined_bios_read: "list_all (confined sys w) (snd (bios_read sys uid args))"
  by (auto simp: bios_read_def bios_binary_confined split: list.split)

lemma confined_dell_sets: "safe_vendor v \<Longrightarrow> list_all (confined sys w) (snd (dell_sets sys (bios_binary v) kvs))"
  by (induction sys "bios_binary v" kvs rule: dell_sets.induct) (auto simp: bios_binary_confined Let_def split: prod.split)

lemma confined_bios_exec:
  assumes "safe_vendor v" "readable path"
  shows "list_all (confined sys w) (snd (bios_apply_exec sys uid v (bios_binary v) path))"
proof -
  have dell: "list_all (confined sys w) (snd (apply_dell sys uid (bios_binary v) path))"
  proof (cases "os_file sys path")
    case (Content s)
    have "list_all (confined sys w) l" if "dell_sets sys (bios_binary v) kvs = (code, l)" for kvs code l
      using confined_dell_sets [OF assms(1), of sys w kvs] that by simp
    with Content assms(2) show ?thesis
      unfolding apply_dell_def Let_def by (auto simp del: dell_sets.simps split: option.split list.split prod.split)
  qed (use assms(2) in \<open>simp_all add: apply_dell_def\<close>)
  have "list_all (confined sys w) (snd (apply_supermicro sys (bios_binary v) path))"
  proof -
    have fill: "list_all (confined sys w) l"
      if "os_temp sys ''clustr-sum-apply-*.cfg'' = Some tmp" "perform sys [(Fill tmp c, [Delete tmp])] = (ok, l)" for tmp c ok l
      using that(1) by (intro perform_all [OF that(2)]) (auto simp: temporary_def)
    show ?thesis using assms(2) bios_binary_confined [OF assms(1)]
      by (auto simp: apply_supermicro_def Let_def temporary_def fill split: file_answer.split option.split list.split prod.split)
  qed
  with dell show ?thesis using bios_binary_confined [OF assms(1)] by (auto simp: bios_apply_exec_def)
qed

lemma confined_bios_apply: "list_all (confined sys w) (snd (bios_apply sys uid args))"
proof (cases "\<exists>v path. args = [v, path] \<and> safe_vendor v \<and> prefix bios_staging (clean_path path)")
  case True
  then obtain v path where args: "args = [v, path]" "safe_vendor v" "prefix bios_staging (clean_path path)" by blast
  have "readable (clean_path path)" using clean_in_staging [OF args(3)] by (simp add: readable_def)
  from confined_bios_exec [OF args(2) this, of sys w uid] args show ?thesis
    by (auto simp: bios_apply_def Let_def split: option.split prod.split)
next
  case False
  then show ?thesis by (auto simp: bios_apply_def Let_def split: list.split)
qed

lemma ipmi_confined: "prog \<in> {''ipmi-power'', ''ipmi-sel'', ''ipmi-sensors'', ''ipmitool''} \<Longrightarrow> confined sys w (Run prog argv)"
  by (auto simp: confined_run helper_programs_def)

lemma confined_with_credentials:
  assumes "verb \<in> {''ipmi-power'', ''ipmi-sel'', ''ipmi-sensors''}"
  shows "list_all (confined sys w) (snd (with_credentials sys uid verb bad good flags))"
proof -
  have run: "confined sys w (Run verb argv)" for argv using ipmi_confined assms by blast
  have "list_all (confined sys w) l \<and> (case x of None \<Rightarrow> True | Some (path, cl) \<Rightarrow> list_all (confined sys w) cl)"
    if "password_file sys pw = (x, l)" for pw x l
  proof (cases "os_temp sys ''ipmi-pw-*''")
    case None
    with that show ?thesis by (auto simp: password_file_def split: if_splits)
  next
    case (Some path)
    obtain ok l' where p: "perform sys [(Fill path pw, [Delete path])] = (ok, l')" by force
    have t: "temporary sys path" using Some by (auto simp: temporary_def)
    then have "list_all (confined sys w) l'" by (intro perform_all [OF p]) simp
    with that Some p t show ?thesis by (auto simp: password_file_def split: if_splits)
  qed
  then show ?thesis using run unfolding with_credentials_def run_audited_def Let_def
    by (auto split: option.split prod.split) fastforce+
qed

lemma confined_ipmi:
  "list_all (confined sys w) (snd (ipmi_power sys uid args))" "list_all (confined sys w) (snd (ipmi_sel sys uid args))"
  "list_all (confined sys w) (snd (ipmi_sensors sys uid args))" "list_all (confined sys w) (snd (ipmi_lan_set sys uid args))"
  "list_all (confined sys w) (snd (ipmi_lan_get sys uid args))"
  by (auto simp: ipmi_power_def ipmi_sel_def ipmi_sensors_def ipmi_lan_set_def ipmi_lan_get_def confined_with_credentials ipmi_confined
      split: list.split option.split)

lemma confined_sol: "list_all (confined sys w) (snd (ipmi_sol_activate sys uid args))"
proof -
  have fill: "list_all (confined sys w) l"
    if "os_temp sys ''ipmi-sol-pass-*'' = Some tmp" "perform sys [(Fill tmp c, [])] = (ok, l)" for tmp c ok l
    using that(1) by (intro perform_all [OF that(2)]) (auto simp: temporary_def)
  show ?thesis
    by (auto simp: ipmi_sol_activate_def Let_def run_audited_def ipmi_confined temporary_def fill split: option.split prod.split)
qed

lemma confined_nfs: "list_all (confined sys w) (snd (nfs_export sys uid args))"
proof -
  have ex: "readable exports_path" "writable exports_path" "writable (exports_path @ ''.tmp'')"
    by (simp_all add: readable_def writable_def)
  have run: "confined sys w (Run ''exportfs'' [''-ra''])" by (simp add: confined_run helper_programs_def own_options_def)
  have write': "list_all (confined sys w) l"
    if "perform sys [(Create (exports_path @ ''.tmp''), []), (Fill (exports_path @ ''.tmp'') s, []),
      (Rename (exports_path @ ''.tmp'') exports_path, [Delete (exports_path @ ''.tmp'')])] = (ok, l)" for s ok l
    using ex by (intro perform_all [OF that]) simp
  show ?thesis using ex run write'
    by (auto simp: nfs_export_def Let_def run_audited_def split: option.split file_answer.split prod.split)
qed

lemma safe_backup_readable: "safe_backup_path p \<Longrightarrow> readable (clean_path p)"
  using safe_backup_beneath [of p] unfolding readable_def list_ex_iff by blast

lemma pack_loads:
  "pack_paths tree' ps = (es, l) \<Longrightarrow> \<forall>p \<in> set ps. readable p \<Longrightarrow> list_all (confined sys w) l"
proof (induction ps arbitrary: es l)
  case (Cons p ps)
  then show ?case by (auto split: tree.splits prod.splits)
qed simp

lemma confined_tarball:
  assumes "create_tarball sys ar out paths = (ok, l)" "writable out" "\<forall>p \<in> set paths. readable p"
  shows "list_all (confined sys w) l"
proof (cases "os_temp sys (dir_path out @ ''/.backup-write-*.tar.gz.tmp'')")
  case None
  with assms(1) show ?thesis by (simp add: create_tarball_def)
next
  case (Some tmp)
  then have tmp: "temporary sys tmp" unfolding temporary_def by blast
  obtain es loads where pack: "pack_paths (ar_tree ar) paths = (es, loads)" by force
  have loads: "list_all (confined sys w) loads" by (rule pack_loads [OF pack assms(3)])
  show ?thesis
  proof (cases es)
    case None
    with assms(1) Some pack loads tmp show ?thesis by (simp add: create_tarball_def) auto
  next
    case entries: (Some xs)
    obtain ok' l' where p: "perform sys [(Fill tmp (ar_pack ar xs), [Delete tmp]), (Rename tmp out, [Delete tmp])] = (ok', l')" by force
    have "list_all (confined sys w) l'" using tmp assms(2) by (intro perform_all [OF p]) simp
    with assms(1) Some pack loads tmp p entries show ?thesis by (simp add: create_tarball_def) auto
  qed
qed

lemma confined_backup_write: "list_all (confined sys w) (snd (backup_write sys ar uid args))"
proof -
  let ?m = "flag_values [''--plugin'', ''--node-id'', ''--paths'', ''--out''] args"
  let ?out = "clean_path (flag_value ?m ''--out'')"
  let ?paths = "backup_paths (flag_value ?m ''--paths'')"
  show ?thesis
  proof (cases "prefix backup_base ?out \<and> list_all safe_backup_path ?paths")
    case True
    have out: "beneath backup_base ?out" using True clean_in_backups by blast
    have paths: "\<forall>p \<in> set (map clean_path ?paths). readable p" using True safe_backup_readable by (auto simp: list_all_iff)
    obtain ok l where p: "perform sys [(Mkdir (dir_path ?out), [])] = (ok, l)" by force
    obtain ok' l' where c: "create_tarball sys ar ?out (map clean_path ?paths) = (ok', l')" by force
    have "list_all (confined sys w) l" using makable_dirs(2) [OF out] by (intro perform_all [OF p]) simp
    moreover have "list_all (confined sys w) l'" using out by (intro confined_tarball [OF c _ paths]) (simp add: writable_def)
    ultimately show ?thesis unfolding backup_write_def Let_def p c by simp
  next
    case False
    then show ?thesis unfolding backup_write_def Let_def by auto
  qed
qed

lemma confined_extract:
  assumes "extract_all sys es = (ok, l)"
  shows "list_all (confined sys w) l"
  using assms
proof (induction es arbitrary: ok l)
  case (Cons e es)
  let ?d = "entry_dest e"
  show ?case
  proof (cases "ae_regular e \<and> safe_backup_path ?d")
    case True
    obtain ok' l' where p: "perform sys [(Mkdir (dir_path ?d), []), (Create (?d @ ''.restore.tmp''), []),
        (Fill (?d @ ''.restore.tmp'') (ae_content e), [Delete (?d @ ''.restore.tmp'')]),
        (Rename (?d @ ''.restore.tmp'') ?d, [Delete (?d @ ''.restore.tmp'')])] = (ok', l')" by force
    have "clean_path ?d = ?d"
      using True clean_idem [of "join_path [''/'', ae_name e]"] prefix_rooted [of "''''" "join_path [''/'', ae_name e]"]
      by (auto simp: entry_dest_def safe_backup_path_def rooted_def)
    then obtain root where root: "root \<in> set backup_roots" "beneath (root @ ''/'') ?d \<or> ?d = root"
      using safe_backup_beneath [of ?d] True by auto
    then have "writable ?d" "writable (?d @ ''.restore.tmp'')"
      using beneath_tmp(2) [of "root @ ''/''" ?d] unfolding writable_def list_ex_iff by blast+
    moreover have "makable (dir_path ?d)" using makable_dirs(3) root by blast
    ultimately have "list_all (confined sys w) l'" by (intro perform_all [OF p]) simp
    with Cons True p show ?thesis by (auto simp: Let_def split: if_splits prod.splits)
  next
    case False
    with Cons show ?thesis by (auto simp: Let_def split: if_splits)
  qed
qed simp

lemma confined_backup_restore: "list_all (confined sys w) (snd (backup_restore sys ar uid args))"
proof -
  let ?t = "clean_path (flag_value (flag_values [''--tarball'', ''--node-id'', ''--plugin''] args) ''--tarball'')"
  show ?thesis
  proof (cases "prefix backup_base ?t")
    case True
    then have "readable ?t" using clean_in_backups by (auto simp: readable_def)
    moreover have "list_all (confined sys w) (snd (case os_file sys ?t of
        Content s \<Rightarrow> (let (es, complete) = ar_unpack ar s; (ok, l) = extract_all sys es in (ok \<and> complete, l)) | _ \<Rightarrow> (False, [])))"
      using confined_extract by (auto split: file_answer.split prod.split)
    ultimately show ?thesis
      unfolding backup_restore_def Let_def by (auto split: option.split prod.split prod.splits)
  next
    case False
    then show ?thesis unfolding backup_restore_def Let_def by auto
  qed
qed


section \<open>Passwords\<close>

text \<open>What others can see of an effect: the contents of the files are not among it.\<close>

fun visible :: "effect \<Rightarrow> effect" where
  "visible (Fill p s) = Fill p ''''"
| "visible e = e"

text \<open>Credentials that differ in the password only, an empty one apart.\<close>

fun same_but_password :: "credentials option \<Rightarrow> credentials option \<Rightarrow> bool" where
  "same_but_password (Some a) (Some b) \<longleftrightarrow> cr_host a = cr_host b \<and> cr_user a = cr_user b \<and> (cr_password a = '''' \<longleftrightarrow> cr_password b = '''')"
| "same_but_password None None \<longleftrightarrow> True"
| "same_but_password _ _ \<longleftrightarrow> False"

definition alike :: "int \<times> effect list \<Rightarrow> int \<times> effect list \<Rightarrow> bool" where
  "alike x y \<longleftrightarrow> fst x = fst y \<and> map visible (snd x) = map visible (snd y)"

lemma alike_refl [simp]: "alike x x"
  by (simp add: alike_def)

lemma alike_if: "\<lbrakk>c \<Longrightarrow> alike a a'; \<not> c \<Longrightarrow> alike b b'\<rbrakk> \<Longrightarrow> alike (if c then a else b) (if c then a' else b')"
  by simp

lemma perform_stdin [simp]: "perform (sys\<lparr>os_stdin := t\<rparr>) es = perform sys es"
  by (induction es) (auto simp: perform.simps)

lemmas casing = if_cong list.case_cong option.case_cong file_answer.case_cong prod.case_cong

lemma stdin_unused [simp]:
  "run_audited (sys\<lparr>os_stdin := t\<rparr>) = run_audited sys" "dnf_install (sys\<lparr>os_stdin := t\<rparr>) = dnf_install sys"
  "dnf_upgrade (sys\<lparr>os_stdin := t\<rparr>) = dnf_upgrade sys" "service_control (sys\<lparr>os_stdin := t\<rparr>) = service_control sys"
  "ca_trust_extract (sys\<lparr>os_stdin := t\<rparr>) = ca_trust_extract sys" "repo_push (sys\<lparr>os_stdin := t\<rparr>) = repo_push sys"
  "repo_refresh (sys\<lparr>os_stdin := t\<rparr>) = repo_refresh sys" "rule_write (sys\<lparr>os_stdin := t\<rparr>) = rule_write sys"
  "bios_read (sys\<lparr>os_stdin := t\<rparr>) = bios_read sys" "ipmi_lan_get (sys\<lparr>os_stdin := t\<rparr>) = ipmi_lan_get sys"
  "nfs_export (sys\<lparr>os_stdin := t\<rparr>) = nfs_export sys" "backup_write (sys\<lparr>os_stdin := t\<rparr>) = backup_write sys"
proof -
  show run: "run_audited (sys\<lparr>os_stdin := t\<rparr>) = run_audited sys" by (intro ext) (simp add: run_audited_def cong: casing)
  show "dnf_install (sys\<lparr>os_stdin := t\<rparr>) = dnf_install sys" by (intro ext) (auto simp: dnf_install_def run split: list.split)
  show "dnf_upgrade (sys\<lparr>os_stdin := t\<rparr>) = dnf_upgrade sys" by (intro ext) (simp add: dnf_upgrade_def run cong: casing)
  show "service_control (sys\<lparr>os_stdin := t\<rparr>) = service_control sys" by (intro ext) (simp add: service_control_def run cong: casing)
  show "ca_trust_extract (sys\<lparr>os_stdin := t\<rparr>) = ca_trust_extract sys" by (intro ext) (simp add: ca_trust_extract_def run cong: casing)
  show "repo_push (sys\<lparr>os_stdin := t\<rparr>) = repo_push sys" by (intro ext) (simp add: repo_push_def copy_file_def cong: casing)
  show "repo_refresh (sys\<lparr>os_stdin := t\<rparr>) = repo_refresh sys" by (intro ext) (simp add: repo_refresh_def run cong: casing)
  show "rule_write (sys\<lparr>os_stdin := t\<rparr>) = rule_write sys" by (intro ext) (simp add: rule_write_def cong: casing)
  show "bios_read (sys\<lparr>os_stdin := t\<rparr>) = bios_read sys" by (intro ext) (simp add: bios_read_def run cong: casing)
  show "ipmi_lan_get (sys\<lparr>os_stdin := t\<rparr>) = ipmi_lan_get sys" by (intro ext) (simp add: ipmi_lan_get_def run cong: casing)
  show "nfs_export (sys\<lparr>os_stdin := t\<rparr>) = nfs_export sys" by (intro ext) (simp add: nfs_export_def run cong: casing)
  show "backup_write (sys\<lparr>os_stdin := t\<rparr>) = backup_write sys" by (intro ext) (simp add: backup_write_def create_tarball_def cong: casing)
qed

lemma bios_apply_stdin [simp]: "bios_apply (sys\<lparr>os_stdin := t\<rparr>) = bios_apply sys"
proof -
  have "dell_sets (sys\<lparr>os_stdin := t\<rparr>) bin kvs = dell_sets sys bin kvs" for bin kvs
    by (induction kvs) (auto simp: Let_def)
  then have "apply_dell (sys\<lparr>os_stdin := t\<rparr>) = apply_dell sys"
    by (intro ext) (simp add: apply_dell_def cong: casing)
  moreover have "apply_supermicro (sys\<lparr>os_stdin := t\<rparr>) = apply_supermicro sys"
    by (intro ext) (simp add: apply_supermicro_def Let_def cong: casing)
  ultimately show ?thesis by (intro ext) (simp add: bios_apply_def bios_apply_exec_def cong: casing)
qed

lemma backup_restore_stdin [simp]: "backup_restore (sys\<lparr>os_stdin := t\<rparr>) = backup_restore sys"
proof -
  have "extract_all (sys\<lparr>os_stdin := t\<rparr>) es = extract_all sys es" for es
    by (induction es) (simp_all add: Let_def cong: casing)
  then show ?thesis by (intro ext) (simp add: backup_restore_def cong: casing)
qed

lemma password_file_alike:
  assumes "\<And>p s s'. os_ok sys (Fill p s) = os_ok sys (Fill p s')" "pw = '''' \<longleftrightarrow> pw' = ''''"
  shows "fst (password_file sys pw) = fst (password_file sys pw') \<and>
    map visible (snd (password_file sys pw)) = map visible (snd (password_file sys pw'))"
  using assms(1) [of _ pw pw'] assms(2) by (auto simp: password_file_def perform.simps split: option.split)

lemma with_credentials_alike:
  assumes ok: "\<And>p s s'. os_ok sys (Fill p s) = os_ok sys (Fill p s')"
    and creds: "same_but_password (read_credentials sys) (read_credentials (sys\<lparr>os_stdin := t\<rparr>))"
  shows "alike (with_credentials sys uid verb bad good flags) (with_credentials (sys\<lparr>os_stdin := t\<rparr>) uid verb bad good flags)"
proof (cases "read_credentials sys")
  case None
  with creds show ?thesis by (cases "read_credentials (sys\<lparr>os_stdin := t\<rparr>)") (simp_all add: with_credentials_def)
next
  case (Some a)
  with creds obtain b where b: "read_credentials (sys\<lparr>os_stdin := t\<rparr>) = Some b" "cr_host a = cr_host b" "cr_user a = cr_user b"
    "cr_password a = '''' \<longleftrightarrow> cr_password b = ''''"
    by (cases "read_credentials (sys\<lparr>os_stdin := t\<rparr>)") auto
  have pwf: "password_file (sys\<lparr>os_stdin := t\<rparr>) = password_file sys" by (intro ext) (simp add: password_file_def cong: casing)
  have same: "valid_credentials a = valid_credentials b" "common_ipmi_args a = common_ipmi_args b"
    using b(2,3) by (simp_all add: valid_credentials_def common_ipmi_args_def)
  obtain x l where x: "password_file sys (cr_password a) = (x, l)" by force
  obtain l' where x': "password_file sys (cr_password b) = (x, l')" "map visible l = map visible l'"
    using password_file_alike [OF ok b(4)] x by (metis prod.collapse snd_conv fst_conv)
  show ?thesis
    unfolding with_credentials_def Some b(1) option.case same pwf x x' prod.case
    using x'(2) by (auto simp: alike_def Let_def split: option.split prod.split)
qed

lemma sol_alike:
  assumes ok: "\<And>p s s'. os_ok sys (Fill p s) = os_ok sys (Fill p s')"
    and creds: "same_but_password (console_credentials sys) (console_credentials (sys\<lparr>os_stdin := t\<rparr>))"
  shows "alike (ipmi_sol_activate sys uid args) (ipmi_sol_activate (sys\<lparr>os_stdin := t\<rparr>) uid args)"
proof (cases "console_credentials sys")
  case None
  with creds show ?thesis by (cases "console_credentials (sys\<lparr>os_stdin := t\<rparr>)") (simp_all add: ipmi_sol_activate_def)
next
  case (Some a)
  with creds obtain b where b: "console_credentials (sys\<lparr>os_stdin := t\<rparr>) = Some b" "cr_host a = cr_host b" "cr_user a = cr_user b"
    by (cases "console_credentials (sys\<lparr>os_stdin := t\<rparr>)") auto
  have "valid_credentials a = valid_credentials b" using b(2,3) by (simp add: valid_credentials_def)
  with Some b ok [of _ "cr_password a" "cr_password b"] show ?thesis
    by (simp add: ipmi_sol_activate_def alike_def Let_def perform.simps run_audited_def split: option.split)
qed


text \<open>The one verb left out puts the password on a command line.\<close>

lemma lan_password_on_command_line:
  assumes "safe_channel channel" "safe_bmc_field uid'" "os_stdin sys = Some pw"
  shows "Run ''ipmitool'' [''user'', ''set'', ''password'', uid', trim_newlines pw] \<in>
    set (snd (privhelper sys ar allowed uid [''ipmi-lan-set'', channel, ''password'', uid']))"
  using assms by (simp add: privhelper_def ipmi_lan_set_def lan_fields_def lan_argv_def run_audited_def Let_def)

definition quiet_os :: os where
  "quiet_os = \<lparr>os_exec = (\<lambda>_ _. Exited 0), os_ok = (\<lambda>_. True), os_file = (\<lambda>_. Content ''root:x''), os_lstat = (\<lambda>_. Some True),
     os_runnable = (\<lambda>_. True), os_exists = (\<lambda>_. True), os_stdin = Some ''secret'', os_temp = (\<lambda>_. Some ''/run/t''),
     os_credentials = (\<lambda>s. Some \<lparr>cr_host = ''bmc1'', cr_user = ''admin'', cr_password = s\<rparr>), os_profile = (\<lambda>_. None)\<rparr>"

definition no_archiver :: archiver where
  "no_archiver = \<lparr>ar_tree = (\<lambda>_. Absent), ar_pack = (\<lambda>_. ''''), ar_unpack = (\<lambda>_. ([], True))\<rparr>"

lemma minimal_no_option: "\<forall>p \<in> set minimal_packages. \<not> prefix ''-'' p"
  by (simp add: minimal_packages_def)

lemma push_shadow:
  "privhelper quiet_os no_archiver minimal_packages 1000 [''repo-push'', ''/etc/shadow'', repo_base @ ''x/../s.rpm''] =
     (0, [Mkdir ''/var/lib/clustr/repo/clustr-internal-repo'', Load ''/etc/shadow'', Create (repo_base @ ''s.rpm.tmp''),
          Fill (repo_base @ ''s.rpm.tmp'') ''root:x'', Rename (repo_base @ ''s.rpm.tmp'') (repo_base @ ''s.rpm''),
          Audit 1000 ''repo-push'' [''/etc/shadow'', repo_base @ ''x/../s.rpm''] 0])"
  by code_simp



section \<open>What repo-push reads\<close>

text \<open>Any file of the server can be pushed: its content becomes a package of the repository, which everybody may read.\<close>

lemma repo_push_reads_any:
  assumes "prefix ''/'' src" "os_file sys src = Content s" "\<And>e. os_ok sys e"
  shows "Fill (repo_base @ ''s.rpm.tmp'') s \<in> set (snd (privhelper sys ar allowed uid [''repo-push'', src, repo_base @ ''s.rpm'']))"
proof -
  have "clean_path (repo_base @ ''s.rpm'') = repo_base @ ''s.rpm''" "suffix ''.rpm'' (repo_base @ ''s.rpm'')" by code_simp+
  with assms show ?thesis
    by (simp add: privhelper_def repo_push_def copy_file_def Let_def perform.simps)
qed

section \<open>Audit rows\<close>

definition audited_verbs :: "string list" where
  "audited_verbs = [''dnf-install'', ''dnf-upgrade'', ''rule-write'', ''repo-push'', ''repo-refresh'', ''service-control'', ''ca-trust-extract'',
     ''bios-read'', ''bios-apply'', ''ipmi-power'', ''ipmi-sel'', ''ipmi-sensors'', ''ipmi-lan-set'', ''ipmi-lan-get'', ''ipmi-sol-activate'',
     ''nfs-export'', ''backup-write'', ''backup-restore'']"

fun is_row :: "int \<Rightarrow> string \<Rightarrow> int \<Rightarrow> effect \<Rightarrow> bool" where
  "is_row uid verb code (Audit u v args c) \<longleftrightarrow> u = uid \<and> v = verb \<and> c = code"
| "is_row uid verb code _ \<longleftrightarrow> False"

definition audited :: "int \<Rightarrow> string \<Rightarrow> int \<times> effect list \<Rightarrow> bool" where
  "audited uid verb r \<longleftrightarrow> list_ex (is_row uid verb (fst r)) (snd r)"

lemma audited_refuse [simp]: "audited uid verb (refuse uid verb args code)"
  by (simp add: audited_def refuse_def)

lemma audited_run [simp]: "audited uid verb (run_audited sys uid verb args prog argv)"
  by (simp add: audited_def run_audited_def Let_def)

lemma audited_more [simp]:
  "audited uid verb (c, l @ [Audit uid verb args c])" "audited uid verb (c, Load p # l @ [Audit uid verb args c])"
  "audited uid verb (c, r) \<Longrightarrow> audited uid verb (c, l @ r)" "audited uid verb (c, r) \<Longrightarrow> audited uid verb (c, r @ l)"
  "audited uid verb (c, r) \<Longrightarrow> audited uid verb (c, e # r)" "audited uid verb (c, Audit uid verb args c # l)"
  by (auto simp: audited_def)

lemma audited_of: "run_audited sys uid verb args prog argv = (c, l) \<Longrightarrow> audited uid verb (c, l)"
  using audited_run by metis

named_theorems audits

lemma audited_simple [audits]:
  "audited uid ''dnf-install'' (dnf_install sys allowed uid args)" "audited uid ''dnf-upgrade'' (dnf_upgrade sys uid args)"
  "audited uid ''service-control'' (service_control sys uid args)" "audited uid ''ca-trust-extract'' (ca_trust_extract sys uid)"
  "audited uid ''bios-read'' (bios_read sys uid args)" "audited uid ''bios-apply'' (bios_apply sys uid args)"
  "audited uid ''ipmi-lan-set'' (ipmi_lan_set sys uid args)" "audited uid ''ipmi-lan-get'' (ipmi_lan_get sys uid args)"
  by (auto simp: dnf_install_def dnf_upgrade_def service_control_def ca_trust_extract_def bios_read_def bios_apply_def Let_def
      ipmi_lan_set_def ipmi_lan_get_def split: list.split option.split prod.split)

lemma audited_repo [audits]:
  "audited uid ''rule-write'' (rule_write sys uid args)" "audited uid ''repo-push'' (repo_push sys uid args)"
  "audited uid ''repo-refresh'' (repo_refresh sys uid args)"
  by (auto simp: rule_write_def repo_push_def repo_refresh_def Let_def dest!: audited_of
      split: list.split option.split prod.split file_answer.split)

lemma audited_credentials: "audited uid verb (with_credentials sys uid verb bad good flags)"
  by (auto simp: with_credentials_def Let_def dest!: audited_of split: option.split prod.split)

lemma audited_ipmi [audits]:
  "audited uid ''ipmi-power'' (ipmi_power sys uid args)" "audited uid ''ipmi-sel'' (ipmi_sel sys uid args)"
  "audited uid ''ipmi-sensors'' (ipmi_sensors sys uid args)"
  by (auto simp: ipmi_power_def ipmi_sel_def ipmi_sensors_def audited_credentials split: list.split option.split)

lemma audited_sol [audits]: "audited uid ''ipmi-sol-activate'' (ipmi_sol_activate sys uid args)"
  by (auto simp: ipmi_sol_activate_def Let_def dest!: audited_of split: option.split prod.split)

lemma audited_nfs [audits]: "audited uid ''nfs-export'' (nfs_export sys uid args)"
  by (auto simp: nfs_export_def Let_def dest!: audited_of split: option.split prod.split file_answer.split)

lemma audited_backup [audits]:
  "audited uid ''backup-write'' (backup_write sys ar uid args)" "audited uid ''backup-restore'' (backup_restore sys ar uid args)"
  by (auto simp: backup_write_def backup_restore_def Let_def split: option.split prod.split)

text \<open>
  Every invocation of a verb is audited, refused or not: a row has the caller, the verb and the exit code; and an invocation of anything
  else has no effect at all.
\<close>

theorem invocation_audited:
  "if verb \<in> set audited_verbs then audited uid verb (privhelper sys ar allowed uid (verb # args))
   else snd (privhelper sys ar allowed uid (verb # args)) = []"
proof (cases "verb \<in> set audited_verbs")
  case True
  then show ?thesis by (auto simp: audited_verbs_def privhelper_def audits)
next
  case False
  then show ?thesis by (simp add: audited_verbs_def privhelper_def)
qed

text \<open>A profile for a Dell server that cannot be read has two rows.\<close>

lemma dell_read_two_rows:
  "filter (\<lambda>e. case e of Audit u v a c \<Rightarrow> True | _ \<Rightarrow> False) (snd (bios_apply (quiet_os\<lparr>os_file := (\<lambda>_. Unreadable)\<rparr>) 0 [''dell'', bios_staging @ ''p.json''])) =
     [Audit 0 ''bios-apply-dell-read'' [] 2, Audit 0 ''bios-apply'' [''dell'', bios_staging @ ''p.json''] 2]"
  by code_simp

text \<open>The allowlist of packages can come from the directory in which the helper was started.\<close>

lemma allowlist_from_working_directory:
  assumes "wd \<noteq> ''''" "pkgs \<noteq> []"
  shows "first_allowlist (\<lambda>p. if p = wd @ ''/build/slurm/deps_matrix.json'' then Content s else Missing) (\<lambda>_. Some [(''k'', Some pkgs)])
    (allowlist_candidates None wd) = pkgs"
  using assms by (simp add: allowlist_candidates_def)

end
