(* ===== verification/Privhelper_Exports.thy ===== *)
theory Privhelper_Exports
  imports Privhelper_Safety
begin

text \<open>
  The files of the privilege helper: the block of exports after an update against a reading of the file, and the restoring of what a backup
  has packed.
\<close>

section \<open>Lines\<close>

abbreviation lines :: "string \<Rightarrow> string list" where
  "lines s \<equiv> split_on CHR 0x0A s"

definition one_line :: "string \<Rightarrow> bool" where
  "one_line l \<longleftrightarrow> CHR 0x0A \<notin> set l"

lemma lines_unlines: "list_all one_line ls \<Longrightarrow> lines (unlines ls) = ls @ ['''']"
  by (induction ls) (simp_all add: unlines_def newline_def one_line_def split_on_append)

lemma unlines_join: "ls \<noteq> [] \<Longrightarrow> join newline ls @ newline = unlines ls"
  by (induction newline ls rule: join.induct) (auto simp: unlines_def)

lemma unlines_append: "unlines (a @ b) = unlines a @ unlines b"
  by (simp add: unlines_def)

lemma lines_one: "list_all one_line (lines s)"
  using split_on_parts by (auto simp: list_all_iff one_line_def)

section \<open>Subnets are one word\<close>

definition subnet_char :: "char \<Rightarrow> bool" where
  "subnet_char c \<longleftrightarrow> is_hex c \<or> c \<in> {CHR ''.'', CHR '':'', CHR ''/''}"

lemma set_split: "set s \<subseteq> insert c (\<Union>w \<in> set (split_on c s). set w)"
proof (induction s)
  case (Cons x s)
  then show ?case by (cases "split_on c s") (auto split: if_splits)
qed simp

lemma ipv4_chars:
  assumes "ipv4 s"
  shows "list_all subnet_char s"
proof -
  have "set w \<subseteq> {c. is_digit c}" if "w \<in> set (split_on CHR ''.'' s)" for w
    using assms that by (auto simp: ipv4_def Let_def octet_def list_all_iff)
  with set_split [of s "CHR ''.''"] show ?thesis by (fastforce simp: list_all_iff subnet_char_def is_hex_def)
qed

lemma hex_chars: "list_all subnet_char (takeWhile is_hex s)"
  by (auto simp: list_all_iff subnet_char_def dest: set_takeWhileD)

lemma ipv6_groups_chars: "ipv6_groups n gap i s \<Longrightarrow> list_all subnet_char s"
proof (induction n gap i s rule: ipv6_groups.induct)
  case (2 n gap i s)
  let ?ds = "takeWhile is_hex s" and ?r = "dropWhile is_hex s"
  have s: "s = ?ds @ ?r" by simp
  show ?case
  proof (cases "?r = [] \<or> hd ?r = CHR ''.''")
    case True
    with 2(3) show ?thesis by (auto simp: Let_def list_all_iff subnet_char_def split: if_splits dest!: ipv4_chars)
  next
    case False
    with 2(3) have r: "?ds \<noteq> []" "\<not> 4 < length ?ds" "hd ?r = CHR '':''" "length ?r \<noteq> 1"
      by (auto simp: Let_def split: if_splits)
    have "list_all subnet_char (tl ?r)"
    proof (cases "hd (tl ?r) = CHR '':''")
      case True
      have "list_all subnet_char (tl (tl ?r))"
      proof (cases "tl (tl ?r) = []")
        case nonempty: False
        with True 2(3) False r have "ipv6_groups n True (i + 2) (tl (tl ?r))" "\<not> gap" by (auto simp: Let_def split: if_splits)
        then show ?thesis using 2(2) [OF refl refl] False r True nonempty by simp
      qed simp
      with True r(4) False show ?thesis by (cases "tl ?r") (auto simp: subnet_char_def)
    next
      case colon: False
      with 2(3) False r have "ipv6_groups n gap (i + 2) (tl ?r)" by (auto simp: Let_def split: if_splits)
      then show ?thesis using 2(1) [OF refl refl] False r colon by simp
    qed
    moreover have "?r = CHR '':'' # tl ?r" using False r(3) by (metis list.collapse)
    ultimately have "list_all subnet_char ?r" by (metis list.pred_inject(2) subnet_char_def insertCI)
    with hex_chars [of s] s show ?thesis by (metis list_all_append)
  qed
qed simp

lemma ipv6_chars:
  assumes "ipv6 s"
  shows "list_all subnet_char s"
proof (cases "prefix ''::'' s")
  case True
  then obtain t where t: "s = ''::'' @ t" by (auto simp: prefix_def)
  with assms have "t = [] \<or> ipv6_groups 8 True 0 t" by (auto simp: ipv6_def split: if_splits)
  with t show ?thesis using ipv6_groups_chars by (auto simp: subnet_char_def)
next
  case False
  with assms show ?thesis using ipv6_groups_chars by (auto simp: ipv6_def)
qed

lemma parse_cidr_chars:
  assumes "parse_cidr s"
  shows "list_all subnet_char s"
proof -
  from assms obtain i where i: "index_byte s CHR ''/'' = Some i" by (auto simp: parse_cidr_def split: option.splits)
  then have s: "s = take i s @ CHR ''/'' # drop (Suc i) s" using index_byte_Some [OF i] id_take_nth_drop by metis
  have "list_all is_digit (drop (Suc i) s)" "ipv4 (take i s) \<or> ipv6 (take i s)"
    using assms i by (auto simp: parse_cidr_def Let_def split: option.splits if_splits)
  then have "list_all subnet_char (drop (Suc i) s)" "list_all subnet_char (take i s)"
    using ipv4_chars ipv6_chars by (auto simp: list_all_iff subnet_char_def is_hex_def)
  then have "list_all subnet_char (take i s @ CHR ''/'' # drop (Suc i) s)" by (simp add: subnet_char_def)
  with s show ?thesis by metis
qed

section \<open>The exports\<close>

text \<open>
  A reading of the file by itself: the lines of the operator, blank ones apart, and the lines between the anchors. (A block whose end is
  missing goes to the end of the file.)
\<close>

fun read_exports :: "bool \<Rightarrow> string list \<Rightarrow> string list \<times> string list" where
  "read_exports inside [] = ([], [])"
| "read_exports inside (l # ls) =
     (if l = anchor_begin then read_exports True ls
      else if l = anchor_end then read_exports False ls
      else (let (op, m) = read_exports inside ls in if inside then (op, l # m) else (if blank l then op else l # op, m)))"

definition no_anchor :: "string \<Rightarrow> bool" where
  "no_anchor l \<longleftrightarrow> l \<noteq> anchor_begin \<and> l \<noteq> anchor_end"

definition solid :: "string list \<Rightarrow> string list" where
  "solid ls = filter (\<lambda>l. \<not> blank l) ls"

lemma filter_dropWhile: "filter (\<lambda>l. \<not> P l) (dropWhile P xs) = filter (\<lambda>l. \<not> P l) xs"
  by (induction xs) auto

lemma solid_trim [simp]: "solid (rev (dropWhile blank (rev ls))) = solid ls"
  by (simp add: solid_def rev_filter [symmetric] filter_dropWhile)

lemma solid_simps [simp]: "solid (a @ b) = solid a @ solid b" "solid [] = []" "solid (l # ls) = (if blank l then solid ls else l # solid ls)"
  "solid (solid ls) = solid ls"
  by (simp_all add: solid_def)

lemma solid_subset: "set (solid ls) \<subseteq> set ls"
  by (auto simp: solid_def)

lemma blank_nil [simp]: "blank ''''"
  by code_simp

lemma anchors [simp]: "anchor_begin \<noteq> anchor_end" "\<not> blank anchor_begin" "\<not> blank anchor_end" "one_line anchor_begin" "one_line anchor_end"
  by code_simp+

text \<open>The scan against the reading, and what it keeps of lines.\<close>

definition scan_inv :: "export_scan \<Rightarrow> bool" where
  "scan_inv sc \<longleftrightarrow> (\<not> es_found sc \<longrightarrow> es_after sc = [] \<and> \<not> es_in_block sc)"

lemma scan_reads:
  assumes "scan_inv sc"
  shows "solid (es_before (foldl (scan_line i) sc ls) @ es_after (foldl (scan_line i) sc ls)) =
      solid (es_before sc @ es_after sc) @ fst (read_exports (es_in_block sc) ls) \<and>
    es_managed (foldl (scan_line i) sc ls) = es_managed sc @ filter (\<lambda>l. line_image l \<noteq> i) (snd (read_exports (es_in_block sc) ls))"
  using assms
proof (induction ls arbitrary: sc)
  case (Cons l ls)
  have "scan_inv (scan_line i sc l)" using Cons.prems by (auto simp: scan_inv_def scan_line_def)
  from Cons.IH [OF this] Cons.prems show ?case
    by (auto simp: scan_line_def scan_inv_def split: prod.split)
qed simp

lemma scan_keeps:
  assumes "list_all (\<lambda>l. no_anchor l \<and> P l) (es_before sc @ es_managed sc @ es_after sc)" "list_all P ls"
  shows "list_all (\<lambda>l. no_anchor l \<and> P l)
    (es_before (foldl (scan_line i) sc ls) @ es_managed (foldl (scan_line i) sc ls) @ es_after (foldl (scan_line i) sc ls))"
  using assms
proof (induction ls arbitrary: sc)
  case (Cons l ls)
  have "list_all (\<lambda>l. no_anchor l \<and> P l) (es_before (scan_line i sc l) @ es_managed (scan_line i sc l) @ es_after (scan_line i sc l))"
    using Cons.prems by (auto simp: scan_line_def no_anchor_def)
  from Cons.IH [OF this] Cons.prems(2) show ?case by simp
qed simp

lemma scan_plain: "list_all no_anchor ls \<Longrightarrow> \<not> es_in_block sc \<Longrightarrow>
    foldl (scan_line i) sc ls = (if es_found sc then sc\<lparr>es_after := es_after sc @ ls\<rparr> else sc\<lparr>es_before := es_before sc @ ls\<rparr>)"
  by (induction ls arbitrary: sc) (auto simp: scan_line_def no_anchor_def)

lemma scan_block: "list_all no_anchor ls \<Longrightarrow> es_in_block sc \<Longrightarrow>
    foldl (scan_line i) sc ls = sc\<lparr>es_managed := es_managed sc @ filter (\<lambda>l. line_image l \<noteq> i) ls\<rparr>"
  by (induction ls arbitrary: sc) (auto simp: scan_line_def no_anchor_def)

text \<open>A file of the form that the helper writes.\<close>

definition exports_file :: "string list \<Rightarrow> string list \<Rightarrow> string list \<Rightarrow> string" where
  "exports_file before managed after = unlines (before @ ['''', anchor_begin] @ managed @ [anchor_end] @ after)"

lemma scan_file:
  assumes "list_all one_line (before @ managed @ after)" "list_all no_anchor (before @ managed @ after)"
  shows "scan_exports i (exports_file before managed after) =
    \<lparr>es_before = before @ [''''], es_managed = filter (\<lambda>l. line_image l \<noteq> i) managed, es_after = after @ [''''], es_in_block = False, es_found = True\<rparr>"
proof -
  have one: "one_line ''''" by (simp add: one_line_def)
  have plain: "list_all no_anchor (before @ [''''])" "list_all no_anchor managed" "list_all no_anchor (after @ [''''])"
    using assms(2) by (auto simp: no_anchor_def anchor_begin_def anchor_end_def)
  have "lines (exports_file before managed after) = before @ ['''', anchor_begin] @ managed @ [anchor_end] @ after @ ['''']"
    using assms(1) one by (simp add: exports_file_def lines_unlines)
  also have "\<dots> = (before @ ['''']) @ [anchor_begin] @ managed @ [anchor_end] @ (after @ [''''])" by simp
  finally have ls: "lines (exports_file before managed after) = (before @ ['''']) @ [anchor_begin] @ managed @ [anchor_end] @ (after @ [''''])" .
  have first: "foldl (scan_line i) empty_scan (before @ ['''']) = empty_scan\<lparr>es_before := before @ ['''']\<rparr>"
    using scan_plain [OF plain(1), of empty_scan i] unfolding empty_scan_def by simp
  have second: "foldl (scan_line i) (empty_scan\<lparr>es_before := before @ [''''], es_found := True, es_in_block := True\<rparr>) managed =
      empty_scan\<lparr>es_before := before @ [''''], es_found := True, es_in_block := True, es_managed := filter (\<lambda>l. line_image l \<noteq> i) managed\<rparr>"
    by (subst scan_block [OF plain(2)]) (simp_all add: empty_scan_def)
  have third: "foldl (scan_line i) (sc\<lparr>es_in_block := False\<rparr>) (after @ ['''']) = sc\<lparr>es_in_block := False, es_after := es_after sc @ after @ ['''']\<rparr>"
    if "es_found sc" for sc using scan_plain [OF plain(3), of "sc\<lparr>es_in_block := False\<rparr>" i] that by simp
  have pieces: "foldl f s (a @ [x] @ m @ [y] @ c) = foldl f (f (foldl f (f (foldl f s a) x) m) y) c"
    for f and s :: export_scan and a m c :: "string list" and x y by simp
  have begin': "scan_line i sc anchor_begin = sc\<lparr>es_found := True, es_in_block := True\<rparr>"
    "scan_line i sc anchor_end = sc\<lparr>es_in_block := False\<rparr>" for sc by (simp_all add: scan_line_def anchors(1) [symmetric])
  show ?thesis
    unfolding scan_exports_def ls pieces first begin' second
    by (subst third) (simp_all add: empty_scan_def)
qed

lemma build_exports_file:
  assumes "fsid_for i = Some n"
  shows "build_exports existing i subnet = Some (exports_file (rev (dropWhile blank (rev (es_before (scan_exports i existing)))))
    (es_managed (scan_exports i existing) @ [export_line i subnet n]) (solid (es_after (scan_exports i existing))))"
proof -
  have "(if b = [] then '''' else join newline b @ newline) = unlines b" for b
    by (simp add: unlines_join) (simp add: unlines_def)
  then show ?thesis
    by (simp only: build_exports_def assms option.case Let_def exports_file_def unlines_append append_assoc [symmetric] solid_def)
      (simp add: unlines_def)
qed

lemma is_uuid_fsid: "is_uuid i \<Longrightarrow> \<exists>n. fsid_for i = Some n"
proof -
  assume i: "is_uuid i"
  then obtain a r where a: "split_on CHR ''-'' i = a # r" "r \<noteq> []" "length a = 8" "list_all is_lower_hex a"
    by (cases "split_on CHR ''-'' i"; cases "tl (split_on CHR ''-'' i)") (auto simp: is_uuid_def Let_def)
  then have "i = a @ CHR ''-'' # join ''-'' r" using join_split_on [of "CHR ''-''" i] by (cases r) simp_all
  moreover have "filter (\<lambda>c. c \<noteq> CHR ''-'') a = a"
    using a(4) by (auto simp: filter_id_conv list_all_iff is_lower_hex_def is_digit_def)
  ultimately have "take 8 (filter (\<lambda>c. c \<noteq> CHR ''-'') i) = a" "8 \<le> length (filter (\<lambda>c. c \<noteq> CHR ''-'') i)" using a(3) by simp_all
  moreover have "list_all is_hex a" using a(4) by (auto simp: list_all_iff is_lower_hex_def is_hex_def)
  ultimately show ?thesis by (simp add: fsid_for_def Let_def)
qed

lemma uuid_chars: "is_uuid i \<Longrightarrow> list_all (\<lambda>c. is_lower_hex c \<or> c = CHR ''-'') i"
  using set_split [of i "CHR ''-''"] by (fastforce simp: is_uuid_def Let_def list_all_iff)

lemma find_sub_here: "CHR ''/'' \<notin> set i \<Longrightarrow> find_sub (CHR ''/'' # r) (i @ CHR ''/'' # r @ t) = Some (length i)"
  by (induction i) auto

lemma find_sub_absent: "c \<notin> set s \<Longrightarrow> find_sub (c # r) s = None"
  by (induction s) auto

lemma line_image_export:
  assumes "is_uuid i"
  shows "line_image (export_line i subnet n) = i"
proof -
  have i: "CHR ''/'' \<notin> set i" "CHR ''.'' \<notin> set i"
    using uuid_chars [OF assms] by (auto simp: list_all_iff is_lower_hex_def is_digit_def)
  have "export_line i subnet n = (images_base @ ''/'') @ i @ CHR ''/'' # ''rootfs'' @ '' '' @ subnet @ ''(ro,no_subtree_check,fsid='' @ dec_nat n @ '')''"
    by (simp add: export_line_def rootfs_path_def)
  moreover note find_sub_here [OF i(1), of "''rootfs''" "'' '' @ subnet @ ''(ro,no_subtree_check,fsid='' @ dec_nat n @ '')''"]
  ultimately show ?thesis
    using i assms find_sub_absent [OF i(2)] unfolding line_image_def Let_def by simp
qed

lemma export_line_plain:
  assumes "is_uuid i" "parse_cidr subnet"
  shows "one_line (export_line i subnet n)" "no_anchor (export_line i subnet n)"
proof -
  have "CHR 0x0A \<notin> set i" "CHR 0x0A \<notin> set subnet" "CHR 0x0A \<notin> set (dec_nat n)"
    using uuid_chars [OF assms(1)] parse_cidr_chars [OF assms(2)] dec_nat_digits [of n]
    by (auto simp: list_all_iff is_lower_hex_def is_digit_def subnet_char_def is_hex_def)
  then show "one_line (export_line i subnet n)" by (simp add: one_line_def export_line_def rootfs_path_def images_base_def)
  show "no_anchor (export_line i subnet n)"
    by (simp add: no_anchor_def export_line_def rootfs_path_def images_base_def anchor_begin_def anchor_end_def)
qed

lemma read_file:
  assumes "list_all no_anchor (before @ managed @ after)"
  shows "read_exports False (before @ ['''', anchor_begin] @ managed @ [anchor_end] @ after @ ['''']) = (solid (before @ after), managed)"
proof -
  have out: "list_all no_anchor ls \<Longrightarrow> read_exports False (ls @ rest) = (solid ls @ fst (read_exports False rest), snd (read_exports False rest))" for ls rest
    by (induction ls) (auto simp: no_anchor_def split: prod.split)
  have in': "list_all no_anchor ls \<Longrightarrow> read_exports True (ls @ rest) = (fst (read_exports True rest), ls @ snd (read_exports True rest))" for ls rest
    by (induction ls) (auto simp: no_anchor_def split: prod.split)
  have nil: "'''' \<noteq> anchor_begin" "'''' \<noteq> anchor_end" by (simp_all add: anchor_begin_def anchor_end_def)
  have "list_all no_anchor before" "list_all no_anchor managed" "list_all no_anchor after" using assms by simp_all
  then show ?thesis using nil anchors(1) [symmetric] by (simp add: out in')
qed

text \<open>
  C15. Updating the exports: read again, the new file has the lines of the operator as they were, in order and blank lines apart, and the lines
  between the anchors without those of the image and with its new line at the end; and a second update with the same image and subnet changes nothing.
\<close>

theorem exports_updated:
  assumes "is_uuid i" "parse_cidr subnet"
  shows "\<exists>out. build_exports existing i subnet = Some out \<and>
    read_exports False (lines out) =
      (fst (read_exports False (lines existing)),
       filter (\<lambda>l. line_image l \<noteq> i) (snd (read_exports False (lines existing))) @ [export_line i subnet (the (fsid_for i))]) \<and>
    build_exports out i subnet = Some out"
proof -
  obtain n where n: "fsid_for i = Some n" using is_uuid_fsid [OF assms(1)] by blast
  let ?sc = "scan_exports i existing" and ?line = "export_line i subnet n"
  let ?b = "rev (dropWhile blank (rev (es_before ?sc)))" and ?m = "es_managed ?sc @ [?line]" and ?a = "solid (es_after ?sc)"
  let ?out = "exports_file ?b ?m ?a"
  have reads: "solid (es_before ?sc @ es_after ?sc) = fst (read_exports False (lines existing))"
    "es_managed ?sc = filter (\<lambda>l. line_image l \<noteq> i) (snd (read_exports False (lines existing)))"
    using scan_reads [of empty_scan i "lines existing"] by (simp_all add: scan_exports_def empty_scan_def scan_inv_def)
  have "list_all (\<lambda>l. no_anchor l \<and> one_line l) (es_before ?sc @ es_managed ?sc @ es_after ?sc)"
    using scan_keeps [of one_line empty_scan "lines existing" i] lines_one by (simp add: scan_exports_def empty_scan_def)
  moreover have "set ?b \<subseteq> set (es_before ?sc)" by (auto dest: set_dropWhileD)
  ultimately have ok: "list_all one_line (?b @ ?m @ ?a)" "list_all no_anchor (?b @ ?m @ ?a)"
    using export_line_plain [OF assms, of n] solid_subset [of "es_after ?sc"] by (auto simp: list_all_iff)
  have out: "build_exports existing i subnet = Some ?out" by (rule build_exports_file [OF n])
  have "list_all one_line (?b @ ['''', anchor_begin] @ ?m @ [anchor_end] @ ?a)" using ok(1) by (simp add: one_line_def [of "''''"])
  then have "lines ?out = ?b @ ['''', anchor_begin] @ ?m @ [anchor_end] @ ?a @ ['''']" unfolding exports_file_def by (simp add: lines_unlines)
  then have "read_exports False (lines ?out) = (solid (?b @ ?a), ?m)" using read_file [OF ok(2)] by simp
  then have read: "read_exports False (lines ?out) = (fst (read_exports False (lines existing)), ?m)" using reads(1) by simp
  have "filter (\<lambda>l. line_image l \<noteq> i) ?m = es_managed ?sc" using reads(2) line_image_export [OF assms(1)] by simp
  then have again: "build_exports ?out i subnet = Some ?out"
    unfolding build_exports_file [OF n] scan_file [OF ok] by (simp add: dropWhile_idem)
  show ?thesis using out read again reads(2) n by auto
qed

lemma exports_updated_witness:
  "\<exists>out. build_exports ''/srv *(ro)'' ''6b875781-0000-4000-8000-00000000000a'' ''10.0.0.0/8'' = Some out \<and>
    read_exports False (lines out) =
      (fst (read_exports False (lines ''/srv *(ro)'')),
       filter (\<lambda>l. line_image l \<noteq> ''6b875781-0000-4000-8000-00000000000a'') (snd (read_exports False (lines ''/srv *(ro)''))) @
         [export_line ''6b875781-0000-4000-8000-00000000000a'' ''10.0.0.0/8'' (the (fsid_for ''6b875781-0000-4000-8000-00000000000a''))]) \<and>
    build_exports out ''6b875781-0000-4000-8000-00000000000a'' ''10.0.0.0/8'' = Some out"
proof -
  have "is_uuid ''6b875781-0000-4000-8000-00000000000a''" "parse_cidr ''10.0.0.0/8''" by code_simp+
  then show ?thesis by (rule exports_updated)
qed

text \<open>Identifiers with the same first eight digits share the number of their file system, and two groups of identifiers have the number zero.\<close>

lemma fsid_not_unique:
  "fsid_for ''6b875781-0000-4000-8000-00000000000a'' = fsid_for ''6b875781-0000-4000-8000-00000000000b''"
  "fsid_for ''00000000-0000-4000-8000-00000000000a'' = Some 0" "fsid_for ''ffffffff-0000-4000-8000-00000000000a'' = Some 0"
  by code_simp+

section \<open>Backups\<close>

text \<open>What the effects of the helper do to the contents of files.\<close>

fun after_effect :: "(string \<rightharpoonup> string) \<Rightarrow> effect \<Rightarrow> (string \<rightharpoonup> string)" where
  "after_effect m (Create p) = m(p \<mapsto> '''')"
| "after_effect m (Fill p s) = m(p \<mapsto> s)"
| "after_effect m (Rename p q) = (if p = q then m else m(q := m p, p := None))"
| "after_effect m (Delete p) = m(p := None)"
| "after_effect m e = m"

definition after_effects :: "(string \<rightharpoonup> string) \<Rightarrow> effect list \<Rightarrow> (string \<rightharpoonup> string)" where
  "after_effects m l = foldl after_effect m l"

lemma after_effects_simps [simp]:
  "after_effects m [] = m" "after_effects m (e # l) = after_effects (after_effect m e) l"
  "after_effects m (l @ l') = after_effects (after_effects m l) l'"
  by (simp_all add: after_effects_def)

definition backed_up :: "archiver \<Rightarrow> string list \<Rightarrow> (string \<times> string) list" where
  "backed_up ar paths = concat (map (\<lambda>p. case ar_tree ar p of Files fs \<Rightarrow> fs | _ \<Rightarrow> []) paths)"

text \<open>A walk of a path finds the path itself, a file, or what is below it; no name has a byte that is zero.\<close>

definition walks :: "archiver \<Rightarrow> bool" where
  "walks ar \<longleftrightarrow> (\<forall>p fs f. ar_tree ar p = Files fs \<and> f \<in> set fs \<longrightarrow> (fst f = p \<or> beneath (p @ ''/'') (fst f)) \<and> CHR 0x00 \<notin> set (fst f))"

lemma perform_done: "perform sys es = (True, l) \<Longrightarrow> l = map fst es"
  by (induction es arbitrary: l) (auto simp: perform.simps split: if_splits prod.splits)

lemma perform_ok: "\<forall>e. os_ok sys e \<Longrightarrow> perform sys es = (True, map fst es)"
  by (induction es) (auto simp: perform.simps)

lemma pack_entries: "pack_paths (ar_tree ar) ps = (Some es, l) \<Longrightarrow>
    es = map file_entry (backed_up ar ps) \<and> after_effects m l = m"
proof (induction ps arbitrary: es l)
  case (Cons p ps)
  obtain found l' where rest: "pack_paths (ar_tree ar) ps = (found, l')" by force
  with Cons.prems obtain es' where found: "found = Some es'" by (auto split: tree.splits)
  have IH: "es' = map file_entry (backed_up ar ps)" "after_effects m l' = m" using Cons.IH [of es' l'] rest found by simp_all
  show ?case
    using Cons.prems rest found IH by (cases "ar_tree ar p") (auto simp: backed_up_def)
qed (simp add: backed_up_def)

lemma safe_rooted: "safe_backup_path p \<Longrightarrow> rooted p"
  by (simp add: safe_backup_path_def rooted_def)

lemma walked:
  assumes safe: "safe_backup_path p" and q: "q = clean_path p \<or> beneath (clean_path p @ ''/'') q" and nul: "CHR 0x00 \<notin> set q"
  shows "safe_backup_path q \<and> clean_path q = q"
proof -
  let ?p = "clean_path p" and ?cs = "clean_parts p"
  have p: "?p = ''/'' @ join ''/'' ?cs" "list_all part ?cs"
    using safe_rooted [OF safe] by (simp_all add: clean_rooted clean_parts_plain)
  obtain root where root: "root \<in> set backup_roots" "prefix (root @ ''/'') ?p \<or> ?p = root"
    using safe by (auto simp: safe_backup_path_def list_ex_iff)
  have "?cs \<noteq> []" using root p(1) by (auto simp: backup_roots_def)
  then obtain es where es: "q = ''/'' @ join ''/'' es" "list_all part es" "es \<noteq> []"
    using q p beneath_parts [of ?p q ?cs] by blast
  have clean: "clean_path q = q" using clean_parts_of_join [OF es(2)] es(1) clean_rooted [of q] by (simp add: rooted_def)
  have "''..'' \<notin> set (split_on CHR ''/'' q)"
    using es split_on_rooted_join [OF es(2)] by (auto simp: list_all_iff part_def plain_part_def)
  moreover have "prefix ?p q" using q append_prefixD by (auto simp: beneath_def)
  then have "prefix (root @ ''/'') q \<or> q = root" using q root(2) prefix_order.trans by (auto simp: beneath_def)
  ultimately show ?thesis using es(1) root(1) nul clean by (auto simp: safe_backup_path_def list_ex_iff)
qed

section \<open>Restoring\<close>

abbreviation scratch :: "string \<Rightarrow> string" where
  "scratch p \<equiv> p @ ''.restore.tmp''"

definition restore_effects :: "string \<times> string \<Rightarrow> effect list" where
  "restore_effects f = [Mkdir (dir_path (fst f)), Create (scratch (fst f)), Fill (scratch (fst f)) (snd f), Rename (scratch (fst f)) (fst f)]"

lemma clean_double_slash:
  assumes "rooted p" "clean_path p = p"
  shows "clean_path (''/'' @ p) = p"
proof -
  have "clean_parts (''/'' @ p) = clean_parts p"
    using assms(1) by (simp add: clean_parts_def rooted_def clean_step_def)
  then show ?thesis using assms clean_rooted [of "''/'' @ p"] clean_rooted [OF assms(1)] by (simp add: rooted_def)
qed

lemma entry_dest_file:
  assumes "safe_backup_path p" "clean_path p = p"
  shows "entry_dest (file_entry (p, c)) = p"
proof -
  obtain t where t: "p = ''/'' @ t" using safe_rooted [OF assms(1)] by (auto simp: rooted_def prefix_def)
  have "t \<noteq> ''''" using assms t by (auto simp: safe_backup_path_def backup_roots_def)
  then show ?thesis using clean_double_slash [OF safe_rooted [OF assms(1)] assms(2)] assms(2) t
    by (simp add: entry_dest_def file_entry_def join_path_def Let_def)
qed

lemma extract_files:
  assumes "\<forall>e. os_ok sys e" "\<forall>f \<in> set fs. safe_backup_path (fst f) \<and> clean_path (fst f) = fst f"
  shows "extract_all sys (map file_entry fs) = (True, concat (map restore_effects fs))"
  using assms(2)
proof (induction fs)
  case (Cons f fs)
  obtain p c where f: "f = (p, c)" by force
  with Cons.prems have "entry_dest (file_entry f) = p" "safe_backup_path p" using entry_dest_file by auto
  with Cons f show ?case
    by (simp add: perform_ok [OF assms(1)] restore_effects_def Let_def) (simp add: file_entry_def)
qed simp

lemma restore_one: "after_effects m (restore_effects (p, c)) = m(p \<mapsto> c, scratch p := None)"
  by (auto simp: restore_effects_def)

lemma restore_others:
  "q \<notin> fst ` set fs \<Longrightarrow> q \<notin> scratch ` fst ` set fs \<Longrightarrow> after_effects m (concat (map restore_effects fs)) q = m q"
  by (induction fs arbitrary: m) (auto simp: restore_one)

lemma restore_files:
  assumes "distinct (map fst fs)" "\<forall>p \<in> fst ` set fs. p \<notin> scratch ` fst ` set fs" "(p, c) \<in> set fs"
  shows "after_effects m (concat (map restore_effects fs)) p = Some c"
  using assms
proof (induction fs arbitrary: m)
  case (Cons f fs)
  show ?case
  proof (cases "f = (p, c)")
    case True
    with Cons.prems have "p \<notin> fst ` set fs" "p \<notin> scratch ` fst ` set fs" by auto
    with True show ?thesis by (simp add: restore_one restore_others)
  next
    case False
    with Cons show ?thesis by auto
  qed
qed simp

lemma backup_written:
  assumes "fst (backup_write sys ar uid args) = 0"
  defines "m \<equiv> flag_values [''--plugin'', ''--node-id'', ''--paths'', ''--out''] args"
  shows "safe_plugin_name (flag_value m ''--plugin'')" "safe_node_id (flag_value m ''--node-id'')"
    "prefix backup_base (clean_path (flag_value m ''--out''))" "suffix ''.tar.gz'' (clean_path (flag_value m ''--out''))"
    "list_all safe_backup_path (backup_paths (flag_value m ''--paths''))"
    "after_effects fs (snd (backup_write sys ar uid args)) (clean_path (flag_value m ''--out'')) =
       Some (ar_pack ar (map file_entry (backed_up ar (map clean_path (backup_paths (flag_value m ''--paths''))))))"
proof -
  let ?out = "clean_path (flag_value m ''--out'')" and ?ps = "map clean_path (backup_paths (flag_value m ''--paths''))"
  have good: "safe_plugin_name (flag_value m ''--plugin'')" "safe_node_id (flag_value m ''--node-id'')" "flag_value m ''--paths'' \<noteq> ''''"
    "flag_value m ''--out'' \<noteq> ''''" "prefix backup_base ?out" "suffix ''.tar.gz'' ?out"
    "list_all safe_backup_path (backup_paths (flag_value m ''--paths''))" "backup_paths (flag_value m ''--paths'') \<noteq> []"
    using assms(1) by (auto simp: backup_write_def Let_def m_def refuse_def split: if_splits)
  then show "safe_plugin_name (flag_value m ''--plugin'')" "safe_node_id (flag_value m ''--node-id'')"
    "prefix backup_base ?out" "suffix ''.tar.gz'' ?out" "list_all safe_backup_path (backup_paths (flag_value m ''--paths''))" by simp_all
  have w: "backup_write sys ar uid args =
      (let (ok, made) = perform sys [(Mkdir (dir_path ?out), [])] in
         if \<not> ok then (2, made @ [Audit uid ''backup-write'' args 2])
         else (let (ok, l) = create_tarball sys ar ?out ?ps; code = (if ok then 0 else 2)
            in (code, made @ l @ [Audit uid ''backup-write'' args code])))"
    using good unfolding backup_write_def m_def [symmetric]
    by (simp only: Let_def simp_thms not_True_eq_False if_False)
  obtain ok made where made: "perform sys [(Mkdir (dir_path ?out), [])] = (ok, made)" by force
  obtain done' l where tar: "create_tarball sys ar ?out ?ps = (done', l)" by force
  have ok: "ok" "done'" using assms(1) unfolding w made tar by (auto split: if_splits)
  have "made = [Mkdir (dir_path ?out)]" using perform_done made ok(1) by fastforce
  then have snd: "snd (backup_write sys ar uid args) = Mkdir (dir_path ?out) # l @ [Audit uid ''backup-write'' args 0]"
    unfolding w made tar using ok by simp
  from tar ok(2) obtain tmp es loads where t: "os_temp sys (dir_path ?out @ ''/.backup-write-*.tar.gz.tmp'') = Some tmp"
    "pack_paths (ar_tree ar) ?ps = (Some es, loads)" by (auto simp: create_tarball_def split: option.splits prod.splits)
  obtain ok2 l2 where p2: "perform sys [(Fill tmp (ar_pack ar es), [Delete tmp]), (Rename tmp ?out, [Delete tmp])] = (ok2, l2)" by force
  have l: "l = Create tmp # loads @ l2" "ok2" using tar ok(2) t p2 by (simp_all add: create_tarball_def)
  then have "l2 = [Fill tmp (ar_pack ar es), Rename tmp ?out]" using perform_done p2 by fastforce
  then show "after_effects fs (snd (backup_write sys ar uid args)) ?out = Some (ar_pack ar (map file_entry (backed_up ar ?ps)))"
    using snd l(1) pack_entries [OF t(2)] by simp
qed

lemma backup_files:
  assumes "walks ar" "list_all safe_backup_path ps" "f \<in> set (backed_up ar (map clean_path ps))"
  shows "safe_backup_path (fst f) \<and> clean_path (fst f) = fst f"
proof -
  obtain p where "p \<in> set ps" "f \<in> set (case ar_tree ar (clean_path p) of Files fs \<Rightarrow> fs | _ \<Rightarrow> [])"
    using assms(3) by (auto simp: backed_up_def)
  then obtain fs where p: "p \<in> set ps" "ar_tree ar (clean_path p) = Files fs" "f \<in> set fs"
    by (cases "ar_tree ar (clean_path p)") auto
  then have "fst f = clean_path p \<or> beneath (clean_path p @ ''/'') (fst f)" "CHR 0x00 \<notin> set (fst f)"
    using assms(1) unfolding walks_def by blast+
  moreover have "safe_backup_path p" using p(1) assms(2) by (simp add: list_all_iff)
  ultimately show ?thesis using walked by blast
qed

text \<open>
  C16. A backup can be restored: when \<open>backup-write\<close> has ended with code zero, \<open>backup-restore\<close> of the archive it has left, on a system whose file
  operations succeed, ends with code zero too; after it every file of the backup has the content it had, and no other file has changed. (The
  archive reader gives back what the writer was given; the files have different names, none of them the name that another has while
  it is restored.)
\<close>

theorem backup_round_trip:
  fixes args out files ar
  defines "m \<equiv> flag_values [''--plugin'', ''--node-id'', ''--paths'', ''--out''] args"
  defines "out \<equiv> clean_path (flag_value m ''--out'')"
    and "files \<equiv> backed_up ar (map clean_path (backup_paths (flag_value m ''--paths'')))"
  assumes archive: "\<forall>es. ar_unpack ar (ar_pack ar es) = (es, True)" "walks ar"
    and written: "fst (backup_write sys ar uid args) = 0"
    and names: "distinct (map fst files)" "\<forall>p \<in> fst ` set files. p \<notin> scratch ` fst ` set files"
    and system: "\<forall>e. os_ok sys' e" "os_lstat sys' out = Some True"
      "os_file sys' out = Content (the (after_effects fs (snd (backup_write sys ar uid args)) out))"
  shows "case backup_restore sys' ar uid' [''--tarball'', out, ''--node-id'', flag_value m ''--node-id'', ''--plugin'', flag_value m ''--plugin''] of
    (code, l) \<Rightarrow> code = 0 \<and> (\<forall>(p, c) \<in> set files. after_effects fs' l p = Some c) \<and>
      (\<forall>q. q \<notin> fst ` set files \<and> q \<notin> scratch ` fst ` set files \<longrightarrow> after_effects fs' l q = fs' q)"
proof -
  note wrote = backup_written [OF written, folded m_def, folded out_def]
  have nonempty: "flag_value m ''--node-id'' \<noteq> ''''" "flag_value m ''--plugin'' \<noteq> ''''" "out \<noteq> ''''"
    using wrote(1-3) by (auto simp: safe_node_id_def safe_plugin_name_def backup_base_def)
  let ?args = "[''--tarball'', out, ''--node-id'', flag_value m ''--node-id'', ''--plugin'', flag_value m ''--plugin'']"
  let ?m = "flag_values [''--tarball'', ''--node-id'', ''--plugin''] ?args"
  have flags: "flag_value ?m ''--tarball'' = out" "flag_value ?m ''--node-id'' = flag_value m ''--node-id''" "flag_value ?m ''--plugin'' = flag_value m ''--plugin''"
    by (simp_all add: flag_value_def)
  have clean: "clean_path out = out"
    using prefix_rooted [of "''var/lib/clustr/backups/''" "flag_value m ''--out''"] wrote(3) clean_idem by (simp add: out_def backup_base_def)
  have content: "os_file sys' out = Content (ar_pack ar (map file_entry files))" using system(3) wrote(6) by (simp add: files_def)
  have "\<forall>f \<in> set files. safe_backup_path (fst f) \<and> clean_path (fst f) = fst f"
    using backup_files [OF archive(2) wrote(5)] by (simp add: files_def)
  note extract' = extract_files [OF system(1) this]
  have "backup_restore sys' ar uid' ?args = (0, Load out # concat (map restore_effects files) @ [Audit uid' ''backup-restore'' ?args 0])"
    unfolding backup_restore_def Let_def flags clean content system(2)
    using wrote(1-4) nonempty archive(1) extract' by simp
  then show ?thesis
    using restore_files [OF names] restore_others [of _ files] by auto
qed

text \<open>An archive format for which the hypothesis on archives holds: a mark before each entry and each character, and one at the end of a name.\<close>

fun put_text :: "string \<Rightarrow> string" where
  "put_text [] = ''0''"
| "put_text (c # s) = CHR ''1'' # c # put_text s"

fun get_text :: "string \<Rightarrow> string \<times> string" where
  "get_text (x # c # s) = (if x = CHR ''1'' then (let (t, r) = get_text s in (c # t, r)) else ('''', c # s))"
| "get_text s = ('''', '''')"

fun put_entries :: "archive_entry list \<Rightarrow> string" where
  "put_entries [] = ''''"
| "put_entries (e # es) =
     CHR ''e'' # put_text (ae_name e) @ put_text (ae_content e) @ (if ae_regular e then CHR ''f'' else CHR ''d'') # put_entries es"

fun get_entries :: "string \<Rightarrow> string \<Rightarrow> archive_entry list" where
  "get_entries (_ # n) (x # s) =
     (let (name, s) = get_text s; (content, s) = get_text s in \<lparr>ae_name = name, ae_content = content, ae_regular = (hd s = CHR ''f'')\<rparr> # get_entries n (tl s))"
| "get_entries _ _ = []"

lemma get_put_text: "get_text (put_text t @ r) = (t, r)"
  by (induction t) (cases r, simp_all)

lemma get_put_entries: "length es \<le> length n \<Longrightarrow> get_entries n (put_entries es) = es"
proof (induction es arbitrary: n)
  case (Cons e es)
  then show ?case by (cases n; cases e) (simp_all add: get_put_text)
qed (cases n, simp_all)

lemma entries_length: "length es \<le> length (put_entries es)"
  by (induction es) auto

definition one_file :: archiver where
  "one_file = \<lparr>ar_tree = (\<lambda>p. if p = ''/etc/sssd'' then Files [(''/etc/sssd/sssd.conf'', ''[sssd]'')] else Absent), ar_pack = put_entries,
     ar_unpack = (\<lambda>s. (get_entries s s, True))\<rparr>"

definition sssd_backup :: "string list" where
  "sssd_backup = [''--plugin'', ''sssd'', ''--node-id'', ''0a1b2c3d'', ''--paths'', ''/etc/sssd/'', ''--out'', ''/var/lib/clustr/backups/a.tar.gz'']"

definition sssd_restore :: "string list" where
  "sssd_restore = [''--tarball'', ''/var/lib/clustr/backups/a.tar.gz'', ''--node-id'', ''0a1b2c3d'', ''--plugin'', ''sssd'']"

definition with_archive :: os where
  "with_archive = quiet_os\<lparr>os_file := (\<lambda>_. Content (put_entries [file_entry (''/etc/sssd/sssd.conf'', ''[sssd]'')]))\<rparr>"

lemma backup_round_trip_witness:
  "fst (backup_restore with_archive one_file 0 sssd_restore) = 0 \<and>
   after_effects Map.empty (snd (backup_restore with_archive one_file 0 sssd_restore)) ''/etc/sssd/sssd.conf'' = Some ''[sssd]''"
proof -
  let ?m = "flag_values [''--plugin'', ''--node-id'', ''--paths'', ''--out''] sssd_backup"
  have m: "flag_value ?m ''--node-id'' = ''0a1b2c3d''" "flag_value ?m ''--plugin'' = ''sssd''"
    "clean_path (flag_value ?m ''--out'') = ''/var/lib/clustr/backups/a.tar.gz''"
    "backed_up one_file (map clean_path (backup_paths (flag_value ?m ''--paths''))) = [(''/etc/sssd/sssd.conf'', ''[sssd]'')]"
    "the (after_effects Map.empty (snd (backup_write quiet_os one_file 0 sssd_backup)) ''/var/lib/clustr/backups/a.tar.gz'') =
       put_entries [file_entry (''/etc/sssd/sssd.conf'', ''[sssd]'')]"
    "fst (backup_write quiet_os one_file 0 sssd_backup) = 0" by code_simp+
  have archive: "\<forall>es. ar_unpack one_file (ar_pack one_file es) = (es, True)"
    by (simp add: one_file_def get_put_entries entries_length)
  have "beneath ''/etc/sssd/'' ''/etc/sssd/sssd.conf''" by code_simp
  then have walks: "walks one_file" by (simp add: walks_def one_file_def)
  have system: "\<forall>e. os_ok with_archive e" "os_lstat with_archive p = Some True"
    "os_file with_archive p = Content (put_entries [file_entry (''/etc/sssd/sssd.conf'', ''[sssd]'')])" for p
    by (simp_all add: with_archive_def quiet_os_def)
  note restored = backup_round_trip [where sys = quiet_os and uid = 0 and args = sssd_backup and sys' = with_archive and fs = Map.empty and uid' = 0 and
      fs' = Map.empty, OF archive walks, unfolded m, folded sssd_restore_def, OF refl _ _ system]
  have "distinct (map fst [(''/etc/sssd/sssd.conf'', ''[sssd]'')])"
    "\<forall>p \<in> fst ` set [(''/etc/sssd/sssd.conf'', ''[sssd]'')]. p \<notin> scratch ` fst ` set [(''/etc/sssd/sssd.conf'', ''[sssd]'')]" by simp_all
  note restored = restored [OF this]
  obtain code l where r: "backup_restore with_archive one_file 0 sssd_restore = (code, l)" by force
  from restored have "code = 0" "\<forall>(p, c) \<in> set [(''/etc/sssd/sssd.conf'', ''[sssd]'')]. after_effects Map.empty l p = Some c"
    unfolding r prod.case by blast+
  then show ?thesis unfolding r by simp
qed

end
