(* ===== verification/Dhcp.thy ===== *)
theory Dhcp
  imports Layout_Validate "HOL-Library.Word" "HOL-Library.AList"
begin

text \<open>
  The DHCP server of the provisioning network (\<open>internal/pxe/dhcp.go\<close>, with the callbacks that \<open>cmd/clustr-serverd/main.go\<close> wires and the query of
  \<open>internal/db/db.go\<close>): the pool, the leases, the boot files and the replies. The library answers every packet in a goroutine of its own, and
  the lock is given up around the calls of the database, so the assignment of an address is also a machine whose steps interleave.
\<close>

section \<open>Addresses\<close>

text \<open>The bytes of a \<open>net.IP\<close>: four or sixteen, or none.\<close>

type_synonym ip = "8 word list"

text \<open>A byte that wraps carries into the one before it; the bytes come in reverse.\<close>

fun increment_rev :: "ip \<Rightarrow> ip" where
  "increment_rev [] = []"
| "increment_rev (b # bs) = (if b + 1 \<noteq> 0 then (b + 1) # bs else 0 # increment_rev bs)"

definition increment_ip :: "ip \<Rightarrow> ip" where
  "increment_ip p = rev (increment_rev (rev p))"

fun ip_greater :: "ip \<Rightarrow> ip \<Rightarrow> bool" where
  "ip_greater (a # as) (b # bs) \<longleftrightarrow> (if a > b then True else if a < b then False else ip_greater as bs)"
| "ip_greater _ _ \<longleftrightarrow> False"

partial_function (option) build_pool :: "ip \<Rightarrow> ip \<Rightarrow> ip list option" where
  "build_pool cur last' =
     (if ip_greater cur last' then Some []
      else Option.bind (build_pool (increment_ip cur) last') (\<lambda>pool. Some (cur # pool)))"

definition to4 :: "ip \<Rightarrow> ip" where
  "to4 p = (if length p = 4 then p else if length p = 16 \<and> take 12 p = replicate 10 0 @ [255, 255] then drop 12 p else [])"

definition ip_string :: "ip \<Rightarrow> string" where
  "ip_string p = join ''.'' (map (\<lambda>b. dec_nat (unat b)) p)"

text \<open>\<open>parse\<close> is \<open>net.ParseIP\<close>; a text that is no address has no bytes.\<close>

definition parse_ip_range :: "(string \<Rightarrow> ip) \<Rightarrow> string \<Rightarrow> (ip \<times> ip) option" where
  "parse_ip_range parse r =
     (case index_byte r CHR ''-'' of
        None \<Rightarrow> None
      | Some i \<Rightarrow>
          (let first = to4 (parse (trim_space (take i r))); last' = to4 (parse (trim_space (drop (Suc i) r)))
           in if first = [] \<or> last' = [] \<or> ip_greater first last' then None else Some (first, last')))"

section \<open>Leases\<close>

record lease =
  le_ip :: ip
  le_expires :: int

type_synonym leases = "(string \<times> lease) list"

text \<open>The pool, the duration of a lease, the server and what it advertises, and whether the two callbacks are wired.\<close>

record dhcp_conf =
  dc_pool :: "ip list"
  dc_dur :: int
  dc_server :: ip
  dc_cidr :: int
  dc_port :: string
  dc_resolves :: bool
  dc_guards :: bool

text \<open>Nothing for a pool that is never complete, none for a configuration that is refused.\<close>

definition new_dhcp_server :: "(string \<Rightarrow> ip) \<Rightarrow> ip \<Rightarrow> string \<Rightarrow> string \<Rightarrow> int \<Rightarrow> dhcp_conf option option" where
  "new_dhcp_server parse server ip_range port cidr =
     (case parse_ip_range parse ip_range of
        None \<Rightarrow> Some None
      | Some (first, last') \<Rightarrow>
          Option.bind (build_pool first last') (\<lambda>pool.
            Some (if pool = [] \<or> cidr < 1 \<or> 30 < cidr then None
                  else Some \<lparr>dc_pool = pool, dc_dur = 24 * 3600, dc_server = server, dc_cidr = cidr, dc_port = port,
                    dc_resolves = False, dc_guards = False\<rparr>)))"

definition active :: "leases \<Rightarrow> string \<Rightarrow> int \<Rightarrow> ip option" where
  "active L mac now = (case map_of L mac of None \<Rightarrow> None | Some l \<Rightarrow> if now < le_expires l then Some (le_ip l) else None)"

definition used_ips :: "leases \<Rightarrow> int \<Rightarrow> ip list" where
  "used_ips L now = map (\<lambda>(m, l). le_ip l) (filter (\<lambda>(m, l). now < le_expires l) L)"

definition grant :: "dhcp_conf \<Rightarrow> leases \<Rightarrow> string \<Rightarrow> int \<Rightarrow> ip \<Rightarrow> leases" where
  "grant c L mac now p = AList.update mac \<lparr>le_ip = p, le_expires = now + dc_dur c\<rparr> L"

text \<open>A request that waits for one of the callbacks, or has its answer. \<open>Asking\<close> has the addresses in use when the scan began.\<close>

datatype acquisition = Resolving string int | Asking string int "ip list" ip "ip list" | Got "ip option"

fun scan_pool :: "dhcp_conf \<Rightarrow> leases \<Rightarrow> string \<Rightarrow> int \<Rightarrow> ip list \<Rightarrow> ip list \<Rightarrow> leases \<times> acquisition" where
  "scan_pool c L mac now used [] = (L, Got None)"
| "scan_pool c L mac now used (p # ps) =
     (if p \<in> set used then scan_pool c L mac now used ps
      else if dc_guards c then (L, Asking mac now used p ps)
      else (grant c L mac now p, Got (Some p)))"

definition begin_acquire :: "dhcp_conf \<Rightarrow> leases \<Rightarrow> string \<Rightarrow> int \<Rightarrow> leases \<times> acquisition" where
  "begin_acquire c L mac now =
     (case active L mac now of
        Some p \<Rightarrow> (L, Got (Some p))
      | None \<Rightarrow> if dc_resolves c then (L, Resolving mac now) else scan_pool c L mac now (used_ips L now) (dc_pool c))"

definition answer_resolve :: "dhcp_conf \<Rightarrow> leases \<Rightarrow> string \<Rightarrow> int \<Rightarrow> ip option \<Rightarrow> leases \<times> acquisition" where
  "answer_resolve c L mac now r =
     (case r of
        Some p \<Rightarrow> (case active L mac now of Some q \<Rightarrow> (L, Got (Some q)) | None \<Rightarrow> (grant c L mac now (to4 p), Got (Some (to4 p))))
      | None \<Rightarrow> scan_pool c L mac now (used_ips L now) (dc_pool c))"

definition answer_reserved :: "dhcp_conf \<Rightarrow> leases \<Rightarrow> string \<Rightarrow> int \<Rightarrow> ip list \<Rightarrow> ip \<Rightarrow> ip list \<Rightarrow> bool \<Rightarrow> leases \<times> acquisition" where
  "answer_reserved c L mac now used p ps reserved =
     (if p \<in> set used \<or> reserved then scan_pool c L mac now used ps else (grant c L mac now p, Got (Some p)))"

text \<open>The same without interruption, with the callbacks as functions.\<close>

definition acquire :: "dhcp_conf \<Rightarrow> (string \<Rightarrow> ip option) \<Rightarrow> (ip \<Rightarrow> string \<Rightarrow> bool) \<Rightarrow> leases \<Rightarrow> string \<Rightarrow> int \<Rightarrow> leases \<times> ip option" where
  "acquire c resolve reserved L mac now =
     (case active L mac now of
        Some p \<Rightarrow> (L, Some p)
      | None \<Rightarrow>
          (case (if dc_resolves c then resolve mac else None) of
             Some p \<Rightarrow> (grant c L mac now (to4 p), Some (to4 p))
           | None \<Rightarrow>
               (case List.find (\<lambda>p. p \<notin> set (used_ips L now) \<and> \<not> (dc_guards c \<and> reserved p mac)) (dc_pool c) of
                  None \<Rightarrow> (L, None)
                | Some p \<Rightarrow> (grant c L mac now p, Some p))))"

section \<open>Reservations\<close>

record node_addresses =
  na_mac :: string
  na_addrs :: "string list"

text \<open>\<open>cidr\<close> is \<open>net.ParseCIDR\<close>: the address of the first interface of the node whose text it takes.\<close>

definition resolve_reserved :: "(string \<Rightarrow> ip option) \<Rightarrow> node_addresses list \<Rightarrow> string \<Rightarrow> ip option" where
  "resolve_reserved cidr nodes mac =
     (case List.find (\<lambda>n. na_mac n = to_lower mac) nodes of
        None \<Rightarrow> None
      | Some n \<Rightarrow> Option.bind (List.find (\<lambda>a. a \<noteq> '''' \<and> cidr a \<noteq> None) (na_addrs n)) cidr)"

definition reserved_for_other :: "node_addresses list \<Rightarrow> string \<Rightarrow> string \<Rightarrow> bool" where
  "reserved_for_other nodes p mac \<longleftrightarrow>
     list_ex (\<lambda>n. na_mac n \<noteq> to_lower mac \<and> list_ex (\<lambda>a. a = p \<or> prefix (p @ ''/'') a) (na_addrs n)) nodes"

section \<open>Packets\<close>

datatype message = Discover | Request | Other_Message

datatype answer_type = Offer | Ack

record packet =
  pk_type :: message
  pk_mac :: string
  pk_class :: string
  pk_user :: string
  pk_server :: "ip option"
  pk_arch :: "8 word list"

record reply =
  rp_type :: answer_type
  rp_ip :: ip
  rp_mask :: int
  rp_lease :: int
  rp_router :: ip
  rp_server :: ip
  rp_dns :: ip
  rp_next :: ip
  rp_file :: string

definition boot_filename :: "dhcp_conf \<Rightarrow> packet \<Rightarrow> string" where
  "boot_filename c pk =
     (let url = ''http://'' @ ip_string (dc_server c) @ '':'' @ dc_port c @ ''/api/v1/boot/''
      in if contains (pk_user pk) ''iPXE'' then url @ ''ipxe?mac=${mac}''
      else
        (case pk_arch pk of
           a # b # _ \<Rightarrow>
             (let arch = 256 * unat a + unat b
              in if arch = 16 then url @ ''ipxe.efi''
              else if arch \<in> {6, 7, 9, 10, 11} then ''ipxe.efi''
              else ''undionly.kpxe'')
         | _ \<Rightarrow> ''undionly.kpxe''))"

definition make_reply :: "dhcp_conf \<Rightarrow> answer_type \<Rightarrow> packet \<Rightarrow> ip \<Rightarrow> reply" where
  "make_reply c t pk p =
     \<lparr>rp_type = t, rp_ip = p, rp_mask = dc_cidr c, rp_lease = dc_dur c, rp_router = dc_server c, rp_server = dc_server c,
      rp_dns = dc_server c, rp_next = dc_server c, rp_file = boot_filename c pk\<rparr>"

definition detect_switch :: "string \<Rightarrow> string option" where
  "detect_switch class =
     (let vc = to_lower class
      in if contains vc ''arista'' then Some ''arista''
      else if contains vc ''dell emc'' \<or> contains vc ''dell force10'' \<or> contains vc ''dell'' then Some ''dell''
      else if contains vc ''juniper'' then Some ''juniper''
      else if contains vc ''cisco'' then Some ''cisco''
      else if contains vc ''mellanox'' then Some ''mellanox''
      else if contains vc ''aruba'' \<or> contains vc ''arubaap'' then Some ''hpe-aruba''
      else None)"

text \<open>
  What a packet causes: the new leases, a reply, and a switch to announce. \<open>acq\<close> is the assignment, \<open>built\<close> and \<open>sent\<close> are whether the
  library could build the reply and send it.
\<close>

definition handle_dhcp ::
  "dhcp_conf \<Rightarrow> (string \<Rightarrow> leases \<times> ip option) \<Rightarrow> bool \<Rightarrow> bool \<Rightarrow> leases \<Rightarrow> packet \<Rightarrow> leases \<times> reply option \<times> (string \<times> string \<times> string) option" where
  "handle_dhcp c acq built sent L pk =
     (case pk_type pk of
        Discover \<Rightarrow>
          (case acq (pk_mac pk) of
             (L, None) \<Rightarrow> (L, None, None)
           | (L, Some p) \<Rightarrow> (L, if built then Some (make_reply c Offer pk p) else None, None))
      | Request \<Rightarrow>
          if pk_server pk \<noteq> None \<and> pk_server pk \<noteq> Some (dc_server c) then (L, None, None)
          else
            (case acq (pk_mac pk) of
               (L, None) \<Rightarrow> (L, None, None)
             | (L, Some p) \<Rightarrow>
                 if \<not> built then (L, None, None)
                 else (L, Some (make_reply c Ack pk p),
                       if sent then map_option (\<lambda>v. (pk_mac pk, v, ip_string p)) (detect_switch (pk_class pk)) else None))
      | Other_Message \<Rightarrow> (L, None, None))"

text \<open>The two readings of the leases by other parts of the server. A map is read in any order.\<close>

definition recent_leases :: "dhcp_conf \<Rightarrow> int \<Rightarrow> int \<Rightarrow> leases \<Rightarrow> string list" where
  "recent_leases c window now L = map fst (filter (\<lambda>(m, l). now - window < le_expires l - dc_dur c) L)"

definition get_lease_ip :: "leases \<Rightarrow> string \<Rightarrow> int \<Rightarrow> ip option" where
  "get_lease_ip L mac now = active L (to_lower mac) now"

section \<open>Requests at the same time\<close>

record dhcp_sys =
  sy_leases :: leases
  sy_reqs :: "nat \<rightharpoonup> acquisition"
  sy_now :: int

definition put :: "dhcp_sys \<Rightarrow> nat \<Rightarrow> leases \<times> acquisition \<Rightarrow> dhcp_sys" where
  "put s i r = s\<lparr>sy_leases := fst r, sy_reqs := (sy_reqs s)(i \<mapsto> snd r)\<rparr>"

inductive dhcp_step :: "dhcp_conf \<Rightarrow> dhcp_sys \<Rightarrow> dhcp_sys \<Rightarrow> bool" for c where
  tick: "sy_now s \<le> t \<Longrightarrow> dhcp_step c s (s\<lparr>sy_now := t\<rparr>)"
| arrive: "sy_reqs s i = None \<Longrightarrow> dhcp_step c s (put s i (begin_acquire c (sy_leases s) mac (sy_now s)))"
| resolved: "sy_reqs s i = Some (Resolving mac t) \<Longrightarrow> dhcp_step c s (put s i (answer_resolve c (sy_leases s) mac t r))"
| asked: "sy_reqs s i = Some (Asking mac t used p ps) \<Longrightarrow> dhcp_step c s (put s i (answer_reserved c (sy_leases s) mac t used p ps b))"

definition dhcp_start :: "int \<Rightarrow> dhcp_sys" where
  "dhcp_start now = \<lparr>sy_leases = [], sy_reqs = Map.empty, sy_now = now\<rparr>"

end
