(* ===== verification/Dhcp_Safety.thy ===== *)
theory Dhcp_Safety
  imports Dhcp
begin

text \<open>
  The properties of the DHCP server: the pool, the distinctness of leases when requests do not overlap, what overlapping requests and renewals do.
\<close>

section \<open>The pool\<close>

fun rev_val :: "ip \<Rightarrow> nat" where
  "rev_val [] = 0"
| "rev_val (b # bs) = unat b + 256 * rev_val bs"

text \<open>The number of an address.\<close>

definition ip_val :: "ip \<Rightarrow> nat" where
  "ip_val p = rev_val (rev p)"

lemma byte_bound: "unat (b :: 8 word) < 256"
  by (rule order.strict_trans2 [OF unsigned_less]) simp

lemma byte_succ: "unat (b + 1) = (if unat (b :: 8 word) = 255 then 0 else Suc (unat b))"
  using byte_bound [of b] by (simp add: unat_word_ariths)

lemma byte_top: "b + 1 = 0 \<longleftrightarrow> unat (b :: 8 word) = 255"
  using byte_succ [of b] by (metis nat.distinct(1) unat_eq_zero)

lemma increment_rev_val:
  "rev_val (increment_rev bs) = (if rev_val bs + 1 = 256 ^ length bs then 0 else rev_val bs + 1) \<and>
   length (increment_rev bs) = length bs \<and> rev_val bs < 256 ^ length bs"
proof (induction bs)
  case (Cons b bs)
  obtain v and N :: nat where v: "rev_val bs = v" "256 ^ length bs = N" by blast
  have IH: "rev_val (increment_rev bs) = (if v + 1 = N then 0 else v + 1)" "length (increment_rev bs) = length bs" "v < N"
    using Cons v by simp_all
  have b: "unat b < 256" by (rule byte_bound)
  have bound: "unat b + 256 * v < 256 * N" using b IH(3) by linarith
  have value': "rev_val (increment_rev (b # bs)) = (if unat b + 256 * v + 1 = 256 * N then 0 else unat b + 256 * v + 1)"
  proof (cases "b + 1 = 0")
    case True
    then have "unat b = 255" using byte_top by blast
    then show ?thesis using True IH(1) by auto
  next
    case False
    then have "unat b < 255" using byte_top [of b] b by linarith
    then have "unat b + 256 * v + 1 \<noteq> 256 * N" using IH(3) by linarith
    then show ?thesis using False byte_succ [of b] byte_top [of b] v by simp
  qed
  show ?case using value' bound IH(2) v by auto
qed simp

lemma ip_val_append: "ip_val (a # p) = unat a * 256 ^ length p + ip_val p"
proof -
  have "rev_val (xs @ [a]) = rev_val xs + unat a * 256 ^ length xs" for xs by (induction xs) auto
  then show ?thesis by (simp add: ip_val_def)
qed

lemma ip_val_bound: "ip_val p < 256 ^ length p"
  using increment_rev_val [of "rev p"] by (simp add: ip_val_def)

lemma increment_ip:
  "ip_val (increment_ip p) = (if ip_val p + 1 = 256 ^ length p then 0 else ip_val p + 1)" "length (increment_ip p) = length p"
  using increment_rev_val [of "rev p"] by (simp_all add: ip_val_def increment_ip_def)

lemma ip_greater_val: "length p = length q \<Longrightarrow> ip_greater p q \<longleftrightarrow> ip_val p > ip_val q"
proof (induction p q rule: ip_greater.induct)
  case (1 a as b bs)
  have bounds: "ip_val as < 256 ^ length as" "ip_val bs < 256 ^ length as" using ip_val_bound [of as] ip_val_bound [of bs] 1(2) by simp_all
  have carry: "x * 256 ^ length as + u < y * 256 ^ length as + v" if "x < y" "u < 256 ^ length as" for x y u v :: nat
  proof -
    have "(x + 1) * 256 ^ length as \<le> y * 256 ^ length as" using that(1) by (intro mult_right_mono) simp_all
    with that(2) show ?thesis by (simp add: algebra_simps)
  qed
  consider "a > b" | "a < b" | "a = b" by fastforce
  then show ?case
  proof cases
    case 1
    then show ?thesis using carry [of "unat b" "unat a" "ip_val bs" "ip_val as"] bounds \<open>length (a # as) = length (b # bs)\<close>
      by (simp add: ip_val_append word_less_nat_alt)
  next
    case 2
    then show ?thesis using carry [of "unat a" "unat b" "ip_val as" "ip_val bs"] bounds \<open>length (a # as) = length (b # bs)\<close>
      by (simp add: ip_val_append word_less_nat_alt)
  next
    case 3
    with 1 show ?thesis by (simp add: ip_val_append)
  qed
qed simp_all

lemma ip_val_inj: "length p = length q \<Longrightarrow> ip_val p = ip_val q \<Longrightarrow> p = q"
proof (induction p arbitrary: q)
  case (Cons a p)
  then obtain b r where q: "q = b # r" "length p = length r" by (cases q) auto
  then have eq: "unat a * 256 ^ length p + ip_val p = unat b * 256 ^ length p + ip_val r" using Cons(3) by (simp add: ip_val_append)
  have bounds: "ip_val p < 256 ^ length p" "ip_val r < 256 ^ length p" using ip_val_bound [of p] ip_val_bound [of r] q by simp_all
  from eq have "(unat a * 256 ^ length p + ip_val p) div 256 ^ length p = (unat b * 256 ^ length p + ip_val r) div 256 ^ length p" by simp
  then have "unat a = unat b" using bounds by simp
  with eq have "a = b" "ip_val p = ip_val r" by (simp_all add: word_unat_eq_iff)
  with Cons(1) q show ?case by simp
qed simp

text \<open>The pool has every address from the first to the last, in order.\<close>

lemma build_pool_from:
  assumes "length first = length last'" "ip_val first \<le> ip_val last' + 1" "ip_val last' + 1 < 256 ^ length last'"
  shows "\<exists>pool. build_pool first last' = Some pool \<and> map ip_val pool = [ip_val first ..< Suc (ip_val last')] \<and>
    list_all (\<lambda>p. length p = length last') pool"
  using assms
proof (induction "ip_val last' + 1 - ip_val first" arbitrary: first)
  case 0
  then have "ip_greater first last'" using ip_greater_val [of first last'] by simp
  with 0 show ?case by (subst build_pool.simps) simp
next
  case (Suc n)
  then have less: "ip_val first \<le> ip_val last'" by simp
  then have "\<not> ip_greater first last'" using ip_greater_val [of first last'] Suc(3) by simp
  moreover have next': "ip_val (increment_ip first) = ip_val first + 1" "length (increment_ip first) = length last'"
    using increment_ip [of first] less Suc(3,5) by auto
  moreover have "n = ip_val last' + 1 - ip_val (increment_ip first)" "ip_val (increment_ip first) \<le> ip_val last' + 1"
    using Suc.hyps(2) next' less by simp_all
  from Suc.hyps(1) [OF this(1) next'(2) this(2) Suc.prems(3)] next'(1)
  obtain pool where "build_pool (increment_ip first) last' = Some pool"
    "map ip_val pool = [Suc (ip_val first) ..< Suc (ip_val last')]" "list_all (\<lambda>p. length p = length last') pool" by auto
  ultimately show ?case using less Suc.prems(1) by (subst build_pool.simps) (simp add: upt_conv_Cons del: upt_Suc)
qed

text \<open>A pool that ends at the largest address is never complete: after it comes zero.\<close>

lemma build_pool_max:
  assumes "build_pool first end' = Some pool"
  shows "length first = length end' \<longrightarrow> ip_val end' + 1 < 256 ^ length end'"
proof (rule build_pool.raw_induct [OF _ assms, where P = "\<lambda>cur last' _. length cur = length last' \<longrightarrow> ip_val last' + 1 < 256 ^ length last'"])
  fix bp cur last' pool
  assume IH: "\<And>cur last' pool. bp cur last' = Some pool \<Longrightarrow> length cur = length last' \<longrightarrow> ip_val last' + 1 < 256 ^ length last'"
    and step: "(if ip_greater cur last' then Some [] else Option.bind (bp (increment_ip cur) last') (\<lambda>pool. Some (cur # pool))) = Some pool"
  show "length cur = length last' \<longrightarrow> ip_val last' + 1 < 256 ^ length last'"
  proof (cases "ip_greater cur last'")
    case True
    then show ?thesis using ip_greater_val [of cur last'] ip_val_bound [of cur] by auto
  next
    case False
    with step obtain rest where "bp (increment_ip cur) last' = Some rest" by (auto simp: bind_eq_Some_conv)
    from IH [OF this] show ?thesis by (simp only: increment_ip(2))
  qed
qed

text \<open>
  C19. Building the pool of a range of addresses ends exactly when the range does not end at 255.255.255.255, and then the pool has the addresses
  from the first to the last, each once and in order.
\<close>

theorem pool_exact:
  assumes "length first = 4" "length last' = 4" "\<not> ip_greater first last'"
  shows "if last' = [255, 255, 255, 255] then build_pool first last' = None
    else \<exists>pool. build_pool first last' = Some pool \<and> map ip_val pool = [ip_val first ..< Suc (ip_val last')] \<and>
      list_all (\<lambda>p. length p = 4) pool"
proof -
  have "ip_val [255, 255, 255, 255] + 1 = 256 ^ 4" by (simp add: ip_val_def)
  then have top: "last' = [255, 255, 255, 255] \<longleftrightarrow> ip_val last' + 1 = 256 ^ 4"
    using ip_val_inj [of last' "[255, 255, 255, 255]"] assms(2) by auto
  show ?thesis
  proof (cases "last' = [255, 255, 255, 255]")
    case True
    then show ?thesis using build_pool_max [of first last'] top assms(1,2) by (cases "build_pool first last'") auto
  next
    case False
    then have "ip_val last' + 1 < 256 ^ length last'" using top ip_val_bound [of last'] assms(2) by simp
    moreover have "ip_val first \<le> ip_val last' + 1" using assms ip_greater_val [of first last'] by simp
    ultimately show ?thesis using build_pool_from [of first last'] False assms(1,2) by simp
  qed
qed

lemma pool_exact_witness:
  "build_pool [10, 0, 0, 1] [255, 255, 255, 255] = None \<and>
   (\<exists>pool. build_pool [10, 0, 0, 254] [10, 0, 1, 1] = Some pool \<and> map ip_val pool = [ip_val [10, 0, 0, 254] ..< Suc (ip_val [10, 0, 1, 1])] \<and>
      list_all (\<lambda>p. length p = 4) pool)"
  using pool_exact [of "[10, 0, 0, 1]" "[255, 255, 255, 255]"] pool_exact [of "[10, 0, 0, 254]" "[10, 0, 1, 1]"] by simp

section \<open>Requests that do not overlap\<close>

text \<open>The address that the table of nodes reserves for a client, of four bytes or none.\<close>

definition reservation :: "(string \<Rightarrow> ip option) \<Rightarrow> node_addresses list \<Rightarrow> string \<Rightarrow> ip option" where
  "reservation cidr nodes mac = map_option to4 (resolve_reserved cidr nodes mac)"

text \<open>A request after the other, with the callbacks that the server wires and a database that answers.\<close>

definition serve :: "dhcp_conf \<Rightarrow> (string \<Rightarrow> ip option) \<Rightarrow> node_addresses list \<Rightarrow> leases \<Rightarrow> string \<Rightarrow> int \<Rightarrow> leases \<times> ip option" where
  "serve c cidr nodes = acquire c (resolve_reserved cidr nodes) (\<lambda>p. reserved_for_other nodes (ip_string p))"

fun serve_all :: "dhcp_conf \<Rightarrow> (string \<Rightarrow> ip option) \<Rightarrow> node_addresses list \<Rightarrow> leases \<Rightarrow> (string \<times> int) list \<Rightarrow> leases" where
  "serve_all c cidr nodes L [] = L"
| "serve_all c cidr nodes L ((mac, now) # rs) = serve_all c cidr nodes (fst (serve c cidr nodes L mac now)) rs"

text \<open>
  What the table must be like: addresses as the server writes them, in the notation with dots, and no address for two nodes.
\<close>

definition sound_table :: "(string \<Rightarrow> ip option) \<Rightarrow> node_addresses list \<Rightarrow> bool" where
  "sound_table cidr nodes \<longleftrightarrow>
     (\<forall>n \<in> set nodes. \<forall>a \<in> set (na_addrs n). \<forall>p. cidr a = Some p \<longrightarrow> prefix (ip_string (to4 p) @ ''/'') a) \<and>
     (\<forall>m m' p. reservation cidr nodes m = Some p \<longrightarrow> reservation cidr nodes m' = Some p \<longrightarrow> to_lower m = to_lower m')"

definition leases_ok :: "(string \<Rightarrow> ip option) \<Rightarrow> node_addresses list \<Rightarrow> leases \<Rightarrow> int \<Rightarrow> bool" where
  "leases_ok cidr nodes L now \<longleftrightarrow>
     distinct (map fst L) \<and> (\<forall>m \<in> fst ` set L. to_lower m = m) \<and>
     (\<forall>m m' p. active L m now = Some p \<longrightarrow> active L m' now = Some p \<longrightarrow> m = m') \<and>
     (\<forall>m m' p. active L m now = Some p \<longrightarrow> to_lower m' = m' \<longrightarrow> reservation cidr nodes m' = Some p \<longrightarrow> m = m') \<and>
     (\<forall>m p q. active L m now = Some p \<longrightarrow> reservation cidr nodes m = Some q \<longrightarrow> p = q)"

lemma active_later: "active L m now' = Some p \<Longrightarrow> now \<le> now' \<Longrightarrow> active L m now = Some p"
  by (auto simp: active_def split: option.splits if_splits)

lemma leases_ok_later: "leases_ok cidr nodes L now \<Longrightarrow> now \<le> now' \<Longrightarrow> leases_ok cidr nodes L now'"
  unfolding leases_ok_def by (meson active_later)

lemma active_used: "distinct (map fst L) \<Longrightarrow> active L m now = Some p \<Longrightarrow> p \<in> set (used_ips L now)"
  by (force simp: active_def used_ips_def split: option.splits if_splits dest: map_of_SomeD)

lemma active_grant: "0 < dc_dur c \<Longrightarrow> active (grant c L mac now p) m now = (if m = mac then Some p else active L m now)"
  by (simp add: active_def grant_def update_conv)

lemma grant_keys: "distinct (map fst L) \<Longrightarrow> distinct (map fst (grant c L mac now p))" "fst ` set (grant c L mac now p) = insert mac (fst ` set L)"
  by (simp_all add: grant_def distinct_update dom_update)

text \<open>An address of the pool that another node has reserved is seen as such.\<close>

lemma reserved_seen:
  assumes "sound_table cidr nodes" "reservation cidr nodes m = Some p" "to_lower m \<noteq> to_lower mac"
  shows "reserved_for_other nodes (ip_string p) mac"
proof -
  from assms(2) obtain n a q where n: "List.find (\<lambda>n. na_mac n = to_lower m) nodes = Some n"
    "List.find (\<lambda>a. a \<noteq> '''' \<and> cidr a \<noteq> None) (na_addrs n) = Some a" "cidr a = Some q" "p = to4 q"
    by (auto simp: reservation_def resolve_reserved_def bind_eq_Some_conv split: option.splits)
  then have "n \<in> set nodes" "na_mac n = to_lower m" "a \<in> set (na_addrs n)" by (auto simp: find_Some_iff)
  moreover from this have "prefix (ip_string p @ ''/'') a" using assms(1) n(3,4) by (auto simp: sound_table_def)
  ultimately show ?thesis using assms(3) unfolding reserved_for_other_def list_ex_iff by metis
qed

lemma serve_step:
  assumes c: "dc_resolves c" "dc_guards c" "0 < dc_dur c" and table: "sound_table cidr nodes" and ok: "leases_ok cidr nodes L now"
    and mac: "to_lower mac = mac"
  shows "leases_ok cidr nodes (fst (serve c cidr nodes L mac now)) now \<and>
    snd (serve c cidr nodes L mac now) = active (fst (serve c cidr nodes L mac now)) mac now"
proof (cases "active L mac now")
  case (Some p)
  then show ?thesis using ok by (simp add: serve_def acquire_def)
next
  case None
  have granted: "leases_ok cidr nodes (grant c L mac now p) now"
    if own: "\<And>q. reservation cidr nodes mac = Some q \<Longrightarrow> p = q"
      and free: "\<And>m. active L m now \<noteq> Some p" and unreserved: "\<And>m. to_lower m = m \<Longrightarrow> reservation cidr nodes m = Some p \<Longrightarrow> m = mac" for p
  proof -
    note L = ok [unfolded leases_ok_def]
    have a: "active (grant c L mac now p) m now = (if m = mac then Some p else active L m now)" for m by (rule active_grant [OF c(3)])
    have "distinct (map fst (grant c L mac now p))" "\<forall>m \<in> fst ` set (grant c L mac now p). to_lower m = m"
      using L mac by (simp_all add: grant_keys)
    moreover have "\<forall>m m' q. active (grant c L mac now p) m now = Some q \<longrightarrow> active (grant c L mac now p) m' now = Some q \<longrightarrow> m = m'"
      unfolding a using L free by (metis option.inject)
    moreover have "\<forall>m m' q. active (grant c L mac now p) m now = Some q \<longrightarrow> to_lower m' = m' \<longrightarrow> reservation cidr nodes m' = Some q \<longrightarrow> m = m'"
      unfolding a using L unreserved by (metis option.inject)
    moreover have "\<forall>m q r. active (grant c L mac now p) m now = Some q \<longrightarrow> reservation cidr nodes m = Some r \<longrightarrow> q = r"
      unfolding a using L own by (metis option.inject)
    ultimately show ?thesis unfolding leases_ok_def by blast
  qed
  show ?thesis
  proof (cases "reservation cidr nodes mac")
    case (Some q)
    then obtain r where r: "resolve_reserved cidr nodes mac = Some r" "q = to4 r" by (auto simp: reservation_def)
    have "active L m now \<noteq> Some q" for m using ok Some None mac unfolding leases_ok_def by (metis option.distinct(1))
    moreover have "to_lower m = m \<Longrightarrow> reservation cidr nodes m = Some q \<Longrightarrow> m = mac" for m
      using table Some mac unfolding sound_table_def by metis
    ultimately show ?thesis using granted [of q] None c r Some by (simp add: serve_def acquire_def active_grant)
  next
    case free: None
    then have r: "resolve_reserved cidr nodes mac = None" by (simp add: reservation_def)
    show ?thesis
    proof (cases "List.find (\<lambda>p. p \<notin> set (used_ips L now) \<and> \<not> (dc_guards c \<and> reserved_for_other nodes (ip_string p) mac)) (dc_pool c)")
      case None
      then show ?thesis using \<open>active L mac now = None\<close> c r ok by (simp add: serve_def acquire_def)
    next
      case (Some p)
      then have p: "p \<notin> set (used_ips L now)" "\<not> reserved_for_other nodes (ip_string p) mac" using c by (auto simp: find_Some_iff)
      have "active L m now \<noteq> Some p" for m using p(1) active_used ok unfolding leases_ok_def by blast
      moreover have "to_lower m = m \<Longrightarrow> reservation cidr nodes m = Some p \<Longrightarrow> m = mac" for m
        using reserved_seen [OF table, of m p mac] p(2) mac by auto
      ultimately show ?thesis using granted [of p] None c r Some free \<open>active L mac now = None\<close>
        by (simp add: serve_def acquire_def active_grant)
    qed
  qed
qed

lemma serve_all_ok:
  assumes "dc_resolves c" "dc_guards c" "0 < dc_dur c" "sound_table cidr nodes" "leases_ok cidr nodes L now"
    "sorted (now # map snd rs)" "\<forall>r \<in> set rs. to_lower (fst r) = fst r"
  shows "leases_ok cidr nodes (serve_all c cidr nodes L rs) (last (now # map snd rs))"
  using assms(5-7)
proof (induction rs arbitrary: L now)
  case (Cons r rs)
  obtain mac t where r: "r = (mac, t)" by force
  have "leases_ok cidr nodes (fst (serve c cidr nodes L mac t)) t"
    using serve_step [OF assms(1-4), of L t mac] leases_ok_later [OF Cons.prems(1), of t] Cons.prems(2,3) r by simp
  from Cons.IH [OF this] Cons.prems r show ?case by simp
qed simp


definition two_nodes :: "node_addresses list" where
  "two_nodes = [\<lparr>na_mac = ''aa'', na_addrs = [''10.0.0.1/24'']\<rparr>, \<lparr>na_mac = ''bb'', na_addrs = []\<rparr>]"

definition cidr_of :: "string \<Rightarrow> ip option" where
  "cidr_of a = (if a = ''10.0.0.1/24'' then Some (replicate 10 0 @ [255, 255, 10, 0, 0, 1]) else None)"

definition small_pool :: dhcp_conf where
  "small_pool = \<lparr>dc_pool = [[10, 0, 0, 1], [10, 0, 0, 2]], dc_dur = 86400, dc_server = [10, 0, 0, 254], dc_cidr = 24, dc_port = ''8080'',
     dc_resolves = True, dc_guards = True\<rparr>"


section \<open>The machine\<close>

lemma put_simps [simp]: "put (put s i r) i r' = put s i r'" "sy_leases (put s i r) = fst r" "sy_reqs (put s i r) = (sy_reqs s)(i \<mapsto> snd r)"
  "sy_now (put s i r) = sy_now s"
  by (simp_all add: put_def)

definition choice :: "dhcp_conf \<Rightarrow> (ip \<Rightarrow> string \<Rightarrow> bool) \<Rightarrow> string \<Rightarrow> ip list \<Rightarrow> ip list \<Rightarrow> ip option" where
  "choice c reserved mac used ps = List.find (\<lambda>p. p \<notin> set used \<and> \<not> (dc_guards c \<and> reserved p mac)) ps"

text \<open>A scan that nobody interrupts ends with the first address that is free and not reserved.\<close>

lemma scan_runs:
  "\<exists>s'. (dhcp_step c)\<^sup>*\<^sup>* (put s i (scan_pool c L mac t used ps)) s' \<and> sy_reqs s' i = Some (Got (choice c reserved mac used ps)) \<and>
    sy_leases s' = (case choice c reserved mac used ps of None \<Rightarrow> L | Some p \<Rightarrow> grant c L mac t p)"
proof (induction ps)
  case Nil
  show ?case by (rule exI [of _ "put s i (L, Got None)"]) (simp add: choice_def)
next
  case (Cons p ps)
  show ?case
  proof (cases "p \<notin> set used \<and> dc_guards c")
    case asks: True
    let ?s = "put s i (L, Asking mac t used p ps)"
    have "dhcp_step c ?s (put ?s i (answer_reserved c (sy_leases ?s) mac t used p ps (reserved p mac)))"
      by (rule dhcp_step.asked) simp
    then have step: "dhcp_step c ?s (put s i (answer_reserved c L mac t used p ps (reserved p mac)))" by simp
    show ?thesis
    proof (cases "reserved p mac")
      case True
      with step have "dhcp_step c ?s (put s i (scan_pool c L mac t used ps))" by (simp add: answer_reserved_def)
      moreover have "choice c reserved mac used (p # ps) = choice c reserved mac used ps" using True asks by (simp add: choice_def)
      ultimately show ?thesis using Cons asks by (auto intro: converse_rtranclp_into_rtranclp)
    next
      case False
      with step asks have "dhcp_step c ?s (put s i (grant c L mac t p, Got (Some p)))" by (simp add: answer_reserved_def)
      moreover have "choice c reserved mac used (p # ps) = Some p" using False asks by (simp add: choice_def)
      ultimately show ?thesis using asks by (intro exI [of _ "put s i (grant c L mac t p, Got (Some p))"]) auto
    qed
  next
    case False
    then show ?thesis
    proof (cases "p \<in> set used")
      case True
      then show ?thesis using Cons by (simp add: choice_def)
    next
      case free: False
      then show ?thesis using False
        by (intro exI [of _ "put s i (grant c L mac t p, Got (Some p))"]) (simp add: choice_def)
    qed
  qed
qed

text \<open>
  The assignment of an address as one function is a run of the machine: a request that arrives while no other is under way, and for
  which the database gives the answers of the two functions, ends with the answer of \<open>acquire\<close> and its leases.
\<close>

theorem acquire_is_a_run:
  assumes "sy_reqs s i = None"
  shows "\<exists>s'. (dhcp_step c)\<^sup>*\<^sup>* s s' \<and>
    (sy_leases s', sy_reqs s' i) = apsnd (\<lambda>r. Some (Got r)) (acquire c resolve reserved (sy_leases s) mac (sy_now s))"
proof -
  let ?L = "sy_leases s" and ?t = "sy_now s"
  have arrive: "dhcp_step c s (put s i (begin_acquire c ?L mac ?t))" by (rule dhcp_step.arrive [OF assms])
  show ?thesis
  proof (cases "active ?L mac ?t")
    case (Some p)
    then show ?thesis using arrive
      by (intro exI [of _ "put s i (?L, Got (Some p))"]) (auto simp: begin_acquire_def acquire_def)
  next
    case new: None
    have scan: "\<exists>s'. (dhcp_step c)\<^sup>*\<^sup>* s s' \<and>
        (sy_leases s', sy_reqs s' i) = apsnd (\<lambda>r. Some (Got r)) (acquire c resolve reserved ?L mac ?t)"
      if run: "(dhcp_step c)\<^sup>*\<^sup>* s (put s i (scan_pool c ?L mac ?t (used_ips ?L ?t) (dc_pool c)))"
        and none: "(if dc_resolves c then resolve mac else None) = None"
    proof -
      obtain s' where s': "(dhcp_step c)\<^sup>*\<^sup>* (put s i (scan_pool c ?L mac ?t (used_ips ?L ?t) (dc_pool c))) s'"
        "sy_reqs s' i = Some (Got (choice c reserved mac (used_ips ?L ?t) (dc_pool c)))"
        "sy_leases s' = (case choice c reserved mac (used_ips ?L ?t) (dc_pool c) of None \<Rightarrow> ?L | Some p \<Rightarrow> grant c ?L mac ?t p)"
        using scan_runs by blast
      have "acquire c resolve reserved ?L mac ?t =
          (case choice c reserved mac (used_ips ?L ?t) (dc_pool c) of None \<Rightarrow> (?L, None) | Some p \<Rightarrow> (grant c ?L mac ?t p, Some p))"
        using new none unfolding acquire_def choice_def by simp
      then show ?thesis using rtranclp_trans [OF run s'(1)] s'(2,3) by (auto split: option.splits)
    qed
    show ?thesis
    proof (cases "dc_resolves c")
      case False
      then show ?thesis using arrive new by (intro scan) (auto simp: begin_acquire_def)
    next
      case True
      let ?s = "put s i (?L, Resolving mac ?t)"
      have "dhcp_step c s ?s" using arrive new True by (simp add: begin_acquire_def)
      moreover have "dhcp_step c ?s (put ?s i (answer_resolve c (sy_leases ?s) mac ?t (resolve mac)))" by (rule dhcp_step.resolved) simp
      ultimately have run: "(dhcp_step c)\<^sup>*\<^sup>* s (put s i (answer_resolve c ?L mac ?t (resolve mac)))"
        by simp
      show ?thesis
      proof (cases "resolve mac")
        case None
        then show ?thesis using run by (intro scan) (simp_all add: answer_resolve_def)
      next
        case (Some p)
        then show ?thesis using run new True
          by (intro exI [of _ "put s i (grant c ?L mac ?t (to4 p), Got (Some (to4 p)))"]) (simp add: answer_resolve_def acquire_def)
      qed
    qed
  qed
qed

lemma acquire_is_a_run_witness:
  "\<exists>s'. (dhcp_step small_pool)\<^sup>*\<^sup>* (dhcp_start 0) s' \<and> (sy_leases s', sy_reqs s' 0) =
    apsnd (\<lambda>r. Some (Got r)) (acquire small_pool (\<lambda>_. None) (\<lambda>p _. p = [10, 0, 0, 1]) [] ''cc'' 0)"
  using acquire_is_a_run [of "dhcp_start 0" 0 small_pool "\<lambda>_. None" "\<lambda>p _. p = [10, 0, 0, 1]" "''cc''"] by (simp add: dhcp_start_def)

text \<open>
  C18. Two clients that ask at the same time get the same address: with the check of reservations wired, as the server has it, there is a run in which both
  have a lease of the first address of the pool, and both requests are answered with it.
\<close>

theorem double_assignment:
  assumes "dc_guards c" "dc_pool c = p # ps" "0 < dc_dur c" "a \<noteq> b"
  shows "\<exists>s. (dhcp_step c)\<^sup>*\<^sup>* (dhcp_start now) s \<and> active (sy_leases s) a now = Some p \<and> active (sy_leases s) b now = Some p \<and>
    sy_reqs s 0 = Some (Got (Some p)) \<and> sy_reqs s 1 = Some (Got (Some p))"
proof -
  have asks: "\<exists>s'. (dhcp_step c)\<^sup>*\<^sup>* s s' \<and> s' = put s i ([], Asking mac now [] p ps)"
    if "sy_reqs s i = None" "sy_leases s = []" "sy_now s = now" for s i mac
  proof (cases "dc_resolves c")
    case False
    then show ?thesis using dhcp_step.arrive [OF that(1), of c mac] that assms(1,2)
      by (auto simp: begin_acquire_def active_def used_ips_def)
  next
    case True
    let ?s = "put s i ([], Resolving mac now)"
    have "dhcp_step c s ?s" using dhcp_step.arrive [OF that(1), of c mac] that True by (simp add: begin_acquire_def active_def)
    moreover have "dhcp_step c ?s (put ?s i (answer_resolve c (sy_leases ?s) mac now None))" by (rule dhcp_step.resolved) simp
    ultimately show ?thesis using assms(1,2)
      by (simp add: answer_resolve_def used_ips_def)
  qed
  let ?s0 = "dhcp_start now" let ?s1 = "put ?s0 0 ([], Asking a now [] p ps)" let ?s2 = "put ?s1 1 ([], Asking b now [] p ps)"
  let ?s3 = "put ?s2 0 (grant c [] a now p, Got (Some p))" let ?s4 = "put ?s3 1 (grant c (grant c [] a now p) b now p, Got (Some p))"
  have "(dhcp_step c)\<^sup>*\<^sup>* ?s0 ?s1" "(dhcp_step c)\<^sup>*\<^sup>* ?s1 ?s2"
    using asks [of ?s0 0 a] asks [of ?s1 1 b] by (auto simp: dhcp_start_def)
  moreover have "dhcp_step c ?s2 ?s3"
    using dhcp_step.asked [of ?s2 0 a now "[]" p ps c False] by (simp add: answer_reserved_def)
  moreover have "dhcp_step c ?s3 ?s4"
    using dhcp_step.asked [of ?s3 1 b now "[]" p ps c False] by (simp add: answer_reserved_def)
  ultimately have "(dhcp_step c)\<^sup>*\<^sup>* ?s0 ?s4" by (meson rtranclp.rtrancl_into_rtrancl rtranclp_trans)
  then show ?thesis using assms(3,4) by (intro exI [of _ ?s4]) (simp add: active_grant)
qed

lemma double_assignment_witness:
  "\<exists>s. (dhcp_step small_pool)\<^sup>*\<^sup>* (dhcp_start 0) s \<and> active (sy_leases s) ''cc'' 0 = Some [10, 0, 0, 1] \<and>
    active (sy_leases s) ''dd'' 0 = Some [10, 0, 0, 1] \<and>
    sy_reqs s 0 = Some (Got (Some [10, 0, 0, 1])) \<and> sy_reqs s 1 = Some (Got (Some [10, 0, 0, 1]))"
  by (rule double_assignment [where ps = "[[10, 0, 0, 2]]"]) (simp_all add: small_pool_def)

section \<open>Renewals\<close>

text \<open>
  A renewal is promised but not recorded: the answer to a client whose lease has not expired gives it the whole duration again, while the end of its lease
  stays as it was; once that is over the address goes to the next client that asks, within the time promised to the first.
\<close>

theorem renewal_not_recorded:
  assumes lease: "map_of L a = Some \<lparr>le_ip = p, le_expires = e\<rparr>" "t < e" "e \<le> t'" "t' < t + dc_dur c"
    and other: "active L b t' = None" "resolve b = None" "\<not> reserved p b" "dc_pool c = p # ps" "p \<notin> set (used_ips L t')"
    and pk: "pk_type pk = Request" "pk_mac pk = a" "pk_server pk = None"
  shows "case handle_dhcp c (\<lambda>mac. acquire c resolve reserved L mac t) True True L pk of
    (L', answer, _) \<Rightarrow> L' = L \<and> answer = Some (make_reply c Ack pk p) \<and> t' < t + rp_lease (make_reply c Ack pk p) \<and>
      snd (acquire c resolve reserved L' b t') = Some p"
proof -
  have "active L a t = Some p" using lease by (simp add: active_def)
  then have "acquire c resolve reserved L a t = (L, Some p)" by (simp add: acquire_def)
  moreover have "snd (acquire c resolve reserved L b t') = Some p" using other by (simp add: acquire_def)
  ultimately show ?thesis using pk lease(4) by (simp add: handle_dhcp_def make_reply_def)
qed

lemma renewal_not_recorded_witness:
  "let L = [(''cc'', \<lparr>le_ip = [10, 0, 0, 1], le_expires = 86400\<rparr>)];
       pk = \<lparr>pk_type = Request, pk_mac = ''cc'', pk_class = '''', pk_user = '''', pk_server = None, pk_arch = []\<rparr> in
   case handle_dhcp small_pool (\<lambda>mac. acquire small_pool (\<lambda>_. None) (\<lambda>_ _. False) L mac 43200) True True L pk of
     (L', answer, _) \<Rightarrow> L' = L \<and> answer = Some (make_reply small_pool Ack pk [10, 0, 0, 1]) \<and>
       90000 < 43200 + rp_lease (make_reply small_pool Ack pk [10, 0, 0, 1]) \<and>
       snd (acquire small_pool (\<lambda>_. None) (\<lambda>_ _. False) L' ''dd'' 90000) = Some [10, 0, 0, 1]"
  unfolding Let_def
  by (rule renewal_not_recorded [where e = 86400 and a = "''cc''" and ps = "[[10, 0, 0, 2]]"]) (simp_all add: small_pool_def active_def used_ips_def)

text \<open>So a node that boots again while its lease lasts is not seen as booting.\<close>

lemma reboot_not_recent:
  assumes "distinct (map fst L)" "map_of L mac = Some l" "now < le_expires l" "le_expires l - dc_dur c \<le> now - window"
  shows "mac \<notin> set (recent_leases c window now (fst (acquire c resolve reserved L mac now)))"
proof -
  have "acquire c resolve reserved L mac now = (L, Some (le_ip l))" using assms(2,3) by (simp add: acquire_def active_def)
  moreover have "(mac, l') \<in> set L \<Longrightarrow> l' = l" for l' using assms(1,2) by simp
  ultimately show ?thesis using assms(4) by (auto simp: recent_leases_def)
qed

text \<open>A node whose first address is one of IPv6 is answered with an address of no bytes.\<close>

lemma ipv6_reservation_empty:
  assumes "dc_resolves c" "active L mac now = None" "resolve mac = Some p" "length p = 16" "take 10 p \<noteq> replicate 10 0"
  shows "snd (acquire c resolve reserved L mac now) = Some []"
proof -
  have "take 12 p \<noteq> replicate 10 0 @ [255, 255]"
  proof
    assume "take 12 p = replicate 10 0 @ [255, 255]"
    then have "take 10 (take 12 p) = take 10 (replicate 10 0 @ [255, 255])" by simp
    then show False using assms(5) by (simp add: take_replicate)
  qed
  then show ?thesis using assms by (simp add: acquire_def to4_def)
qed

text \<open>A request that names another server changes nothing and is not answered; the others get an address also without PXE.\<close>

lemma other_server_ignored:
  "pk_type pk = Request \<Longrightarrow> pk_server pk = Some s \<Longrightarrow> s \<noteq> dc_server c \<Longrightarrow> handle_dhcp c acq built sent L pk = (L, None, None)"
  by (simp add: handle_dhcp_def)

lemma any_client_served:
  "pk_type pk = Discover \<Longrightarrow> acq (pk_mac pk) = (L', Some p) \<Longrightarrow> fst (snd (handle_dhcp c acq True sent L pk)) = Some (make_reply c Offer pk p)"
  by (simp add: handle_dhcp_def)

end
