(* ===== verification/Go_Base64.thy ===== *)
theory Go_Base64
  imports Go_Prelude "HOL-Library.Char_ord"
begin

text \<open>
  The encoding \<open>base64.RawURLEncoding\<close> of the Go library: three bytes are four characters, without padding. The decoder skips line ends and does not
  look at the bits that the last character has too many.
\<close>

definition b64_alphabet :: string where
  "b64_alphabet = ''ABCDEFGHIJKLMNOPQRSTUVWXYZabcdefghijklmnopqrstuvwxyz0123456789-_''"

definition b64_char :: "nat \<Rightarrow> char" where
  "b64_char n = b64_alphabet ! n"

definition byte_of :: "char \<Rightarrow> nat" where
  "byte_of c = of_char c"

fun b64_encode :: "string \<Rightarrow> string" where
  "b64_encode [] = []"
| "b64_encode [a] = [b64_char (byte_of a div 4), b64_char (byte_of a mod 4 * 16)]"
| "b64_encode [a, b] =
     [b64_char (byte_of a div 4), b64_char (byte_of a mod 4 * 16 + byte_of b div 16), b64_char (byte_of b mod 16 * 4)]"
| "b64_encode (a # b # c # s) =
     [b64_char (byte_of a div 4), b64_char (byte_of a mod 4 * 16 + byte_of b div 16),
      b64_char (byte_of b mod 16 * 4 + byte_of c div 64), b64_char (byte_of c mod 64)] @ b64_encode s"

fun b64_values :: "string \<Rightarrow> nat list option" where
  "b64_values [] = Some []"
| "b64_values (c # s) =
     (if c = CHR 0x0A \<or> c = CHR 0x0D then b64_values s
      else
        (case index_byte b64_alphabet c of
           None \<Rightarrow> None
         | Some n \<Rightarrow> map_option ((#) n) (b64_values s)))"

declare b64_values.simps(2) [simp del]

fun b64_bytes :: "nat list \<Rightarrow> string option" where
  "b64_bytes [] = Some []"
| "b64_bytes [p] = None"
| "b64_bytes [p, q] = Some [char_of (p * 4 + q div 16)]"
| "b64_bytes [p, q, r] = Some [char_of (p * 4 + q div 16), char_of (q mod 16 * 16 + r div 4)]"
| "b64_bytes (p # q # r # s # ns) =
     map_option (\<lambda>t. [char_of (p * 4 + q div 16), char_of (q mod 16 * 16 + r div 4), char_of (r mod 4 * 64 + s)] @ t)
       (b64_bytes ns)"

definition b64_decode :: "string \<Rightarrow> string option" where
  "b64_decode s = (case b64_values s of None \<Rightarrow> None | Some ns \<Rightarrow> b64_bytes ns)"

section \<open>The decoder reads what the encoder writes\<close>

lemma b64_table: "\<forall>n \<in> set [0..<64]. index_byte b64_alphabet (b64_alphabet ! n) = Some n"
  by code_simp

lemma b64_line_ends: "CHR 0x0A \<notin> set b64_alphabet \<and> CHR 0x0D \<notin> set b64_alphabet \<and> CHR ''.'' \<notin> set b64_alphabet"
  by code_simp

lemma b64_alphabet_length: "length b64_alphabet = 64"
  by code_simp

lemma b64_char_in: "n < 64 \<Longrightarrow> b64_char n \<in> set b64_alphabet"
  by (simp add: b64_char_def b64_alphabet_length)

lemma b64_values_char [simp]: "n < 64 \<Longrightarrow> b64_values (b64_char n # s) = map_option ((#) n) (b64_values s)"
proof -
  assume n: "n < 64"
  then have "index_byte b64_alphabet (b64_char n) = Some n" using b64_table by (simp add: b64_char_def)
  moreover have "b64_char n \<noteq> CHR 0x0A" "b64_char n \<noteq> CHR 0x0D" using b64_char_in [OF n] b64_line_ends by metis+
  ultimately show ?thesis by (simp add: b64_values.simps(2))
qed

lemma byte_of_less [simp]: "byte_of c < 256"
proof -
  have "byte_of c mod 256 = byte_of c" by (simp add: byte_of_def of_char_mod_256)
  then show ?thesis by (metis mod_less_divisor zero_less_numeral)
qed

lemma char_of_byte [simp]: "char_of (byte_of c) = c"
  by (simp add: byte_of_def)

lemma byte_of_div [simp]: "byte_of c div 4 < 64" "byte_of c div 16 < 16" "byte_of c div 64 < 4"
  using byte_of_less [of c] by (simp_all add: div_less_iff_less_mult)

lemma byte_of_parts [simp]:
  "byte_of c div 16 div 16 = 0" "byte_of c div 64 div 4 = 0" "byte_of c div 16 mod 16 = byte_of c div 16"
  "byte_of c div 64 mod 4 = byte_of c div 64"
  by simp_all

lemma b64_ranges [simp]:
  "byte_of a mod 4 * 16 < 64" "byte_of a mod 4 * 16 + byte_of b div 16 < 64"
  "byte_of b mod 16 * 4 < 64" "byte_of b mod 16 * 4 + byte_of c div 64 < 64"
proof -
  have "byte_of a mod 4 \<le> 3" "byte_of b mod 16 \<le> 15"
    using mod_less_divisor [of 4 "byte_of a"] mod_less_divisor [of 16 "byte_of b"] by linarith+
  moreover have "byte_of b div 16 < 16" "byte_of c div 64 < 4" by simp_all
  ultimately show "byte_of a mod 4 * 16 < 64" "byte_of a mod 4 * 16 + byte_of b div 16 < 64"
    "byte_of b mod 16 * 4 < 64" "byte_of b mod 16 * 4 + byte_of c div 64 < 64" by linarith+
qed

lemma b64_values_encode: "\<exists>ns. b64_values (b64_encode s) = Some ns \<and> b64_bytes ns = Some s"
proof (induction s rule: b64_encode.induct)
  case (4 a b c s)
  then obtain ns where "b64_values (b64_encode s) = Some ns" "b64_bytes ns = Some s" by blast
  then show ?case by simp
qed simp_all

lemma b64_decode_encode [simp]: "b64_decode (b64_encode s) = Some s"
proof -
  obtain ns where "b64_values (b64_encode s) = Some ns" "b64_bytes ns = Some s" using b64_values_encode by blast
  then show ?thesis by (simp add: b64_decode_def)
qed

lemma b64_encode_set: "set (b64_encode s) \<subseteq> set b64_alphabet"
  by (induction s rule: b64_encode.induct) (simp_all add: b64_char_in)

lemma b64_encode_no_dot [simp]: "CHR ''.'' \<notin> set (b64_encode s)"
  using b64_encode_set [of s] b64_line_ends by blast

end
