(* ===== verification/Access.thy ===== *)
theory Access
  imports Rbac Layout_Types Go_Base64
begin

text \<open>
  Who makes a request and what it may do: the session tokens (\<open>internal/server/session.go\<close>), the resolution of a request to an identity and the
  gates in front of the handlers (\<open>internal/server/middleware.go\<close>, \<open>middleware_rbac.go\<close>), with the queries of \<open>internal/db\<close> they make. The hash
  functions and the JSON of a token are arguments. A refusal is the status and the code of the answer, without its message. Times are
  whole seconds.
\<close>

section \<open>Session tokens\<close>

definition session_ttl :: int where "session_ttl = 12 * 60 * 60"
definition session_slide_min :: int where "session_slide_min = 30 * 60"

record session_payload =
  p_sub :: string
  p_role :: string
  p_iat :: int
  p_exp :: int
  p_slide :: int

text \<open>\<open>hmacSign\<close>, \<open>sha256Hex\<close> and the JSON of a payload; \<open>None\<close> is an error.\<close>

record crypto =
  hmac_sign :: "string \<Rightarrow> string \<Rightarrow> string"
  sha256_hex :: "string \<Rightarrow> string"
  marshal_payload :: "session_payload \<Rightarrow> string option"
  unmarshal_payload :: "string \<Rightarrow> session_payload option"

definition sign_session_token :: "crypto \<Rightarrow> string \<Rightarrow> session_payload \<Rightarrow> string option" where
  "sign_session_token cr secret p =
     (case marshal_payload cr p of
        None \<Rightarrow> None
      | Some d \<Rightarrow> (let encoded = b64_encode d in Some (encoded @ ''.'' @ hmac_sign cr secret encoded)))"

text \<open>\<open>strings.SplitN\<close> with two parts at a one-byte separator; \<open>None\<close> when there is one part only.\<close>

definition split_two :: "char \<Rightarrow> string \<Rightarrow> (string \<times> string) option" where
  "split_two c s = map_option (\<lambda>i. (take i s, drop (Suc i) s)) (index_byte s c)"

text \<open>The payload and whether the token is to be issued anew; every failure is \<open>errSessionInvalid\<close>.\<close>

definition validate_session_token :: "crypto \<Rightarrow> string \<Rightarrow> int \<Rightarrow> string \<Rightarrow> (session_payload \<times> bool) option" where
  "validate_session_token cr secret now token =
     (case split_two CHR ''.'' token of
        None \<Rightarrow> None
      | Some (encoded, sig) \<Rightarrow>
        if sig \<noteq> hmac_sign cr secret encoded then None
        else
          (case b64_decode encoded of
             None \<Rightarrow> None
           | Some d \<Rightarrow>
             (case unmarshal_payload cr d of
                None \<Rightarrow> None
              | Some p \<Rightarrow> if now > p_exp p then None else Some (p, now - p_slide p > session_slide_min))))"

definition new_session_payload :: "int \<Rightarrow> string \<Rightarrow> string \<Rightarrow> session_payload" where
  "new_session_payload now user role =
     \<lparr>p_sub = user, p_role = role, p_iat = now, p_exp = now + session_ttl, p_slide = now\<rparr>"

definition new_session_payload_for_key :: "int \<Rightarrow> string \<Rightarrow> session_payload" where
  "new_session_payload_for_key now key =
     \<lparr>p_sub = ''key:'' @ key, p_role = ''admin'', p_iat = now, p_exp = now + session_ttl, p_slide = now\<rparr>"

definition slide_session_payload :: "int \<Rightarrow> session_payload \<Rightarrow> session_payload" where
  "slide_session_payload now p = p\<lparr>p_slide := now, p_exp := now + session_ttl\<rparr>"

section \<open>Keys\<close>

text \<open>\<open>api_keys\<close>; a column that may be NULL is an option.\<close>

record key_row =
  k_id :: string
  k_scope :: string
  k_node :: "string option"
  k_hash :: string
  k_description :: string
  k_label :: "string option"
  k_created_by :: "string option"
  k_user :: string
  k_created :: int
  k_expires :: "int option"
  k_revoked :: "int option"
  k_last_used :: "int option"

datatype lookup_error = No_Key | Key_Is_Revoked | Key_Is_Expired | Lookup_Failed

record key_lookup =
  l_id :: string
  l_scope :: string
  l_node :: string
  l_label :: string

definition null_string :: "string option \<Rightarrow> string" where
  "null_string s = (case s of None \<Rightarrow> '''' | Some t \<Rightarrow> t)"

text \<open>
  \<open>LookupAPIKey\<close>. The entry for the batch of \<open>last_used_at\<close> is the pair of the hash and the time.
\<close>

definition lookup_api_key ::
  "bool \<Rightarrow> key_row list \<Rightarrow> int \<Rightarrow> string \<Rightarrow> lookup_error + (key_lookup \<times> (string \<times> int))" where
  "lookup_api_key ok keys now h =
     (if \<not> ok then Inl Lookup_Failed
      else
        (case find (\<lambda>k. k_hash k = h) keys of
           None \<Rightarrow> Inl No_Key
         | Some k \<Rightarrow>
           if k_revoked k \<noteq> None then Inl Key_Is_Revoked
           else if (case k_expires k of None \<Rightarrow> False | Some e \<Rightarrow> now > e) then Inl Key_Is_Expired
           else Inr (\<lparr>l_id = k_id k, l_scope = k_scope k, l_node = null_string (k_node k), l_label = null_string (k_label k)\<rparr>,
                     (h, now))))"

text \<open>\<open>flushLastUsed\<close> with a transaction that succeeds: the batch is a map from hashes to times.\<close>

definition flush_last_used :: "(string \<Rightarrow> int option) \<Rightarrow> key_row list \<Rightarrow> key_row list" where
  "flush_last_used batch keys =
     map (\<lambda>k. case batch (k_hash k) of None \<Rightarrow> k | Some t \<Rightarrow> k\<lparr>k_last_used := Some t\<rparr>) keys"

section \<open>The identity of a request\<close>

text \<open>The values of the context, empty where none is stored.\<close>

record identity =
  i_scope :: string
  i_node :: string
  i_key :: string
  i_label :: string
  i_user :: string
  i_role :: string

definition anonymous :: identity where
  "anonymous = \<lparr>i_scope = '''', i_node = '''', i_key = '''', i_label = '''', i_user = '''', i_role = ''''\<rparr>"

definition actor_label :: "identity \<Rightarrow> string" where
  "actor_label i =
     (if i_user i \<noteq> '''' then ''user:'' @ i_user i
      else if i_label i \<noteq> '''' then ''key:'' @ i_label i
      else ''unknown'')"

definition get_actor_info :: "identity \<Rightarrow> string \<times> string" where
  "get_actor_info i =
     (if i_user i \<noteq> '''' then (i_user i, ''user:'' @ i_user i)
      else if i_key i \<noteq> '''' then (i_key i, ''key:'' @ (if i_label i = '''' then i_key i else i_label i))
      else ('''', actor_label i))"

datatype refusal = Unauthorized | Forbidden | Key_Expired | Key_Revoked | Internal_Error

datatype cookie_effect = Keep_Cookie | Set_Session string int | Clear_Session

text \<open>A request: its session cookie, the Authorization header (empty if there is none) and the query parameter \<open>token\<close>.\<close>

record http_request =
  rq_cookie :: "string option"
  rq_authorization :: string
  rq_token :: string

definition extract_bearer_token :: "http_request \<Rightarrow> string" where
  "extract_bearer_token rq =
     (case split_two CHR '' '' (rq_authorization rq) of
        None \<Rightarrow> ''''
      | Some (kind, tok) \<Rightarrow> if equal_fold kind ''bearer'' then tok else '''')"

definition ws_token_lift :: "http_request \<Rightarrow> http_request" where
  "ws_token_lift rq =
     (if rq_authorization rq = '''' \<and> rq_token rq \<noteq> '''' then rq\<lparr>rq_authorization := ''Bearer '' @ rq_token rq\<rparr> else rq)"

definition strip_key_prefix :: "string \<Rightarrow> string" where
  "strip_key_prefix raw =
     (if prefix ''clustr-admin-'' raw then drop (length ''clustr-admin-'') raw
      else if prefix ''clustr-node-'' raw then drop (length ''clustr-node-'') raw
      else raw)"

text \<open>The scope that stands for the role of a session: one of five names, admin for every other role.\<close>

definition role_scope :: "string \<Rightarrow> string" where
  "role_scope role =
     (if role \<in> {''operator'', ''readonly'', ''viewer'', ''pi'', ''director''} then role else ''admin'')"

record auth_conf =
  dev_mode :: bool
  session_secret :: string

text \<open>The table of keys and whether a query of it succeeds.\<close>

record key_db =
  kd_keys :: "key_row list"
  kd_ok :: bool

record auth_answer =
  a_cookie :: cookie_effect
  a_touched :: "(string \<times> int) option"
  a_result :: "refusal + identity"

definition session_identity :: "session_payload \<Rightarrow> identity" where
  "session_identity p = anonymous\<lparr>i_scope := role_scope (p_role p), i_user := p_sub p, i_role := p_role p\<rparr>"

definition key_identity :: "key_lookup \<Rightarrow> identity" where
  "key_identity l = anonymous\<lparr>i_scope := l_scope l, i_node := l_node l, i_key := l_id l, i_label := l_label l\<rparr>"

definition lookup_refusal :: "lookup_error \<Rightarrow> refusal" where
  "lookup_refusal e =
     (case e of No_Key \<Rightarrow> Unauthorized | Key_Is_Expired \<Rightarrow> Key_Expired | Key_Is_Revoked \<Rightarrow> Key_Revoked
      | Lookup_Failed \<Rightarrow> Internal_Error)"

text \<open>The part of \<open>apiKeyAuth\<close> after the cookie.\<close>

definition bearer_auth :: "crypto \<Rightarrow> key_db \<Rightarrow> int \<Rightarrow> http_request \<Rightarrow> cookie_effect \<Rightarrow> auth_answer" where
  "bearer_auth cr db now rq cookie =
     (let raw = extract_bearer_token rq in
      if raw = '''' then \<lparr>a_cookie = cookie, a_touched = None, a_result = Inr anonymous\<rparr>
      else
        (case lookup_api_key (kd_ok db) (kd_keys db) now (sha256_hex cr (strip_key_prefix raw)) of
           Inl e \<Rightarrow> \<lparr>a_cookie = cookie, a_touched = None, a_result = Inl (lookup_refusal e)\<rparr>
         | Inr (l, t) \<Rightarrow> \<lparr>a_cookie = cookie, a_touched = Some t, a_result = Inr (key_identity l)\<rparr>))"

definition api_key_auth :: "crypto \<Rightarrow> auth_conf \<Rightarrow> key_db \<Rightarrow> int \<Rightarrow> http_request \<Rightarrow> auth_answer" where
  "api_key_auth cr c db now rq =
     (if dev_mode c then
        \<lparr>a_cookie = Keep_Cookie, a_touched = None, a_result = Inr (anonymous\<lparr>i_scope := ''admin''\<rparr>)\<rparr>
      else if session_secret c \<noteq> '''' \<and> rq_cookie rq \<noteq> None \<and> rq_cookie rq \<noteq> Some '''' then
        (case validate_session_token cr (session_secret c) now (the (rq_cookie rq)) of
           Some (p, reissue) \<Rightarrow>
             (let slid = slide_session_payload now p;
                  cookie =
                    (if reissue then
                       (case sign_session_token cr (session_secret c) slid of
                          None \<Rightarrow> Keep_Cookie
                        | Some t \<Rightarrow> Set_Session t (p_exp slid))
                     else Keep_Cookie)
              in \<lparr>a_cookie = cookie, a_touched = None, a_result = Inr (session_identity p)\<rparr>)
         | None \<Rightarrow> bearer_auth cr db now rq Clear_Session)
      else bearer_auth cr db now rq Keep_Cookie)"

section \<open>Gates\<close>

text \<open>A gate answers a refusal or lets the request through (\<open>None\<close>).\<close>

definition require_scope :: "bool \<Rightarrow> identity \<Rightarrow> refusal option" where
  "require_scope admin_only i =
     (if i_scope i = '''' then Some Unauthorized
      else if admin_only \<and> i_scope i \<noteq> ''admin'' \<and> i_scope i \<noteq> ''operator'' then Some Forbidden
      else if i_scope i \<notin> {''admin'', ''operator'', ''node'', ''readonly'', ''viewer'', ''pi'', ''director''} then Some Forbidden
      else None)"

text \<open>The ranks of the map; a role that it has no entry for has rank 0.\<close>

definition role_rank :: "string \<Rightarrow> int" where
  "role_rank r =
     (if r = ''viewer'' then 0 else if r = ''readonly'' then 1 else if r = ''pi'' then 2 else if r = ''operator'' then 3
      else if r = ''admin'' then 4 else 0)"

definition require_role :: "string \<Rightarrow> identity \<Rightarrow> refusal option" where
  "require_role minimum i =
     (if i_scope i = '''' then Some Unauthorized
      else if i_role i \<noteq> '''' then (if role_rank (i_role i) < role_rank minimum then Some Forbidden else None)
      else if i_scope i = ''admin'' then None
      else Some Forbidden)"

text \<open>The decision of the roles that \<open>requireRoleRBAC\<close> logs and does not follow.\<close>

definition rbac_decision :: "resolution option \<Rightarrow> string \<Rightarrow> string \<times> string" where
  "rbac_decision res verb =
     (case res of
        None \<Rightarrow> (''deny'', ''no_resolution'')
      | Some r \<Rightarrow>
        if is_admin r then (''allow'', ''wildcard'')
        else if verb \<in> set (permissions r) then (''allow'', ''exact_match'')
        else if (case last_index_byte verb CHR ''.'' of None \<Rightarrow> False | Some idx \<Rightarrow> take idx verb @ ''.*'' \<in> set (permissions r))
          then (''allow'', ''namespace_wildcard'')
        else if role_names r = [] then (''deny'', ''no_roles'')
        else (''deny'', ''no_permission''))"

text \<open>The log entry and the decision.\<close>

definition require_role_rbac ::
  "decoders \<Rightarrow> rbac_db \<Rightarrow> string \<Rightarrow> string \<Rightarrow> identity \<Rightarrow> (string \<times> string) option \<times> refusal option" where
  "require_role_rbac dec db minimum verb i =
     (if i_scope i = '''' then (None, Some Unauthorized)
      else
        ((if i_user i \<noteq> '''' then
            (case resolve_roles dec db (i_user i) of Inl e \<Rightarrow> None | Inr r \<Rightarrow> Some (rbac_decision (Some r) verb))
          else None),
         (if i_role i \<noteq> '''' then (if role_rank (i_role i) < role_rank minimum then Some Forbidden else None)
          else if i_scope i = ''admin'' then None
          else Some Forbidden)))"

definition require_permission :: "decoders \<Rightarrow> rbac_db \<Rightarrow> string \<Rightarrow> identity \<Rightarrow> refusal option" where
  "require_permission dec db verb i =
     (if i_scope i = '''' then Some Unauthorized
      else if i_scope i = ''admin'' then None
      else if i_user i = '''' then Some Forbidden
      else
        (case resolve_roles dec db (i_user i) of
           Inl e \<Rightarrow> Some Internal_Error
         | Inr r \<Rightarrow> if allow (Some r) verb then None else Some Forbidden))"

definition require_viewer :: "identity \<Rightarrow> refusal option" where
  "require_viewer i = (if i_scope i = '''' then Some Unauthorized else None)"

definition require_pi :: "identity \<Rightarrow> refusal option" where
  "require_pi i =
     (if i_scope i = '''' then Some Unauthorized
      else if i_scope i = ''admin'' \<or> i_scope i = ''operator'' then None
      else if i_scope i = ''pi'' then None
      else Some Forbidden)"

definition require_director :: "identity \<Rightarrow> refusal option" where
  "require_director i =
     (if i_scope i = '''' then Some Unauthorized
      else if i_scope i = ''admin'' then None
      else if i_role i \<noteq> '''' then (if i_role i = ''director'' \<or> i_role i = ''admin'' then None else Some Forbidden)
      else Some Forbidden)"

section \<open>Groups\<close>

text \<open>\<open>node_group_memberships\<close> and \<open>user_group_memberships\<close>.\<close>

record node_member =
  nm_node :: string
  nm_group :: string
  nm_primary :: bool

record group_db =
  gd_nodes :: "node_member list"
  gd_operators :: "(string \<times> string) list"
  gd_node_ok :: bool
  gd_operator_ok :: bool

definition get_group_id_for_node :: "group_db \<Rightarrow> string \<Rightarrow> string option" where
  "get_group_id_for_node db node =
     (if gd_node_ok db then
        Some (case find (\<lambda>m. nm_node m = node \<and> nm_primary m) (gd_nodes db) of None \<Rightarrow> '''' | Some m \<Rightarrow> nm_group m)
      else None)"

definition user_has_group_access :: "group_db \<Rightarrow> string \<Rightarrow> string \<Rightarrow> bool option" where
  "user_has_group_access db user grp =
     (if gd_operator_ok db then Some (length (filter (\<lambda>m. m = (user, grp)) (gd_operators db)) > 0) else None)"

definition require_group_access_by_group_id :: "group_db \<Rightarrow> string \<Rightarrow> identity \<Rightarrow> refusal option" where
  "require_group_access_by_group_id db grp i =
     (if i_scope i = '''' then Some Unauthorized
      else if i_scope i = ''admin'' then None
      else if i_scope i = ''readonly'' then Some Forbidden
      else if i_scope i = ''node'' then Some Forbidden
      else if i_scope i = ''operator'' then
        (if i_user i = '''' then Some Forbidden
         else if grp = '''' then Some Forbidden
         else
           (case user_has_group_access db (i_user i) grp of
              None \<Rightarrow> Some Internal_Error
            | Some ok \<Rightarrow> if ok then None else Some Forbidden))
      else Some Forbidden)"

definition require_group_access :: "group_db \<Rightarrow> string \<Rightarrow> identity \<Rightarrow> refusal option" where
  "require_group_access db node i =
     (if i_scope i = '''' then Some Unauthorized
      else if i_scope i = ''admin'' then None
      else if i_scope i = ''readonly'' then Some Forbidden
      else if i_scope i = ''node'' then Some Forbidden
      else if i_scope i = ''operator'' then
        (if i_user i = '''' then Some Forbidden
         else if node = '''' then Some Forbidden
         else
           (case get_group_id_for_node db node of
              None \<Rightarrow> Some Internal_Error
            | Some grp \<Rightarrow>
              if grp = '''' then Some Forbidden
              else
                (case user_has_group_access db (i_user i) grp of
                   None \<Rightarrow> Some Internal_Error
                 | Some ok \<Rightarrow> if ok then None else Some Forbidden)))
      else Some Forbidden)"

definition require_node_ownership :: "string \<Rightarrow> identity \<Rightarrow> refusal option" where
  "require_node_ownership url_node i =
     (if i_scope i = '''' then Some Unauthorized
      else if i_scope i = ''admin'' then None
      else if i_scope i \<noteq> ''node'' then Some Forbidden
      else if i_node i = '''' \<or> i_node i \<noteq> url_node then Some Forbidden
      else None)"

text \<open>
  The operations on the memberships of nodes. The partial unique index allows one primary row of a node; the tables of nodes and groups are not
  modelled, so the insertion of a member refers to rows that exist.
\<close>

definition clear_primary :: "string \<Rightarrow> node_member list \<Rightarrow> node_member list" where
  "clear_primary node ms = map (\<lambda>m. if nm_node m = node then m\<lparr>nm_primary := False\<rparr> else m) ms"

definition mark_primary :: "string \<Rightarrow> string \<Rightarrow> node_member list \<Rightarrow> node_member list" where
  "mark_primary node grp ms = map (\<lambda>m. if nm_node m = node \<and> nm_group m = grp then m\<lparr>nm_primary := True\<rparr> else m) ms"

definition add_group_member :: "string \<Rightarrow> string \<Rightarrow> node_member list \<Rightarrow> node_member list" where
  "add_group_member grp node ms =
     (let ms = (if \<exists>m \<in> set ms. nm_node m = node \<and> nm_group m = grp then ms
                else ms @ [\<lparr>nm_node = node, nm_group = grp, nm_primary = False\<rparr>])
      in if filter (\<lambda>m. nm_node m = node \<and> nm_primary m) ms = [] then mark_primary node grp ms else ms)"

text \<open>\<open>None\<close> is \<open>ErrNotFound\<close>, after which the transaction is rolled back.\<close>

definition set_primary_group_member :: "string \<Rightarrow> string \<Rightarrow> node_member list \<Rightarrow> node_member list option" where
  "set_primary_group_member node grp ms =
     (if \<exists>m \<in> set ms. nm_node m = node \<and> nm_group m = grp then Some (mark_primary node grp (clear_primary node ms)) else None)"

definition assign_node_to_group :: "string \<Rightarrow> string \<Rightarrow> node_member list \<Rightarrow> node_member list option" where
  "assign_node_to_group node grp ms =
     (if grp = '''' then Some (clear_primary node ms) else set_primary_group_member node grp ms)"

definition remove_group_member :: "string \<Rightarrow> string \<Rightarrow> node_member list \<Rightarrow> node_member list" where
  "remove_group_member grp node ms = filter (\<lambda>m. \<not> (nm_node m = node \<and> nm_group m = grp)) ms"

text \<open>
  \<open>SetUserGroupMemberships\<close>: the insertion of a group that does not exist violates a foreign key, which \<open>OR IGNORE\<close> does not ignore, and the
  transaction is rolled back (\<open>None\<close>). \<open>GetUserGroupMemberships\<close> lists the groups in order.
\<close>

definition set_user_group_memberships ::
  "string list \<Rightarrow> string \<Rightarrow> string list \<Rightarrow> (string \<times> string) list \<Rightarrow> (string \<times> string) list option" where
  "set_user_group_memberships known user groups ms =
     (if set groups \<subseteq> set known then Some (filter (\<lambda>m. fst m \<noteq> user) ms @ map (Pair user) (add_new [] groups)) else None)"

definition get_user_group_memberships :: "string \<Rightarrow> (string \<times> string) list \<Rightarrow> string list" where
  "get_user_group_memberships user ms = sort (map snd (filter (\<lambda>m. fst m = user) ms))"

section \<open>Access of a node to its image\<close>

definition image_access_cache_ttl :: int where "image_access_cache_ttl = 60"

record cache_entry =
  e_allowed :: bool
  e_expires :: int

type_synonym image_cache = "string \<Rightarrow> cache_entry option"

text \<open>
  The image that a node is assigned in the database, or \<open>None\<close> when \<open>GetNodeConfig\<close> fails. The keys of the cache are the node and the image with a
  colon between them.
\<close>

definition require_image_access ::
  "(string \<Rightarrow> string option) \<Rightarrow> int \<Rightarrow> string \<Rightarrow> identity \<Rightarrow> image_cache \<Rightarrow> refusal option \<times> image_cache" where
  "require_image_access assigned now img i cache =
     (if i_scope i = '''' then (Some Unauthorized, cache)
      else if i_scope i = ''admin'' then (None, cache)
      else if i_scope i \<noteq> ''node'' then (Some Forbidden, cache)
      else if i_node i = '''' then (Some Forbidden, cache)
      else
        (let key = i_node i @ '':'' @ img in
         case cache key of
           Some e \<Rightarrow>
             if now < e_expires e then ((if e_allowed e then None else Some Forbidden), cache)
             else
               (case assigned (i_node i) of
                  None \<Rightarrow> (Some Internal_Error, cache(key := None))
                | Some base \<Rightarrow>
                  (let ok = (base \<noteq> '''' \<and> base = img) in
                   ((if ok then None else Some Forbidden),
                    cache(key \<mapsto> \<lparr>e_allowed = ok, e_expires = now + image_access_cache_ttl\<rparr>))))
         | None \<Rightarrow>
             (case assigned (i_node i) of
                None \<Rightarrow> (Some Internal_Error, cache)
              | Some base \<Rightarrow>
                (let ok = (base \<noteq> '''' \<and> base = img) in
                 ((if ok then None else Some Forbidden),
                  cache(key \<mapsto> \<lparr>e_allowed = ok, e_expires = now + image_access_cache_ttl\<rparr>))))))"

section \<open>A request through its gates\<close>

text \<open>\<open>r.Use\<close> and \<open>r.With\<close>: the first refusal is the answer.\<close>

fun run_gates :: "(identity \<Rightarrow> refusal option) list \<Rightarrow> identity \<Rightarrow> refusal option" where
  "run_gates [] i = None"
| "run_gates (g # gs) i = (case g i of None \<Rightarrow> run_gates gs i | Some r \<Rightarrow> Some r)"

definition gated :: "(identity \<Rightarrow> refusal option) list \<Rightarrow> auth_answer \<Rightarrow> refusal option" where
  "gated gs a = (case a_result a of Inl r \<Rightarrow> Some r | Inr i \<Rightarrow> run_gates gs i)"

text \<open>The gates of the routes for the management of keys and users, and of those that act on one node.\<close>

definition admin_gates :: "(identity \<Rightarrow> refusal option) list" where
  "admin_gates = [require_scope True, require_role ''admin'']"

definition node_action_gates :: "group_db \<Rightarrow> string \<Rightarrow> (identity \<Rightarrow> refusal option) list" where
  "node_action_gates db node = [require_scope True, require_group_access db node]"

end
