(* ===== verification/Accounts.thy ===== *)
theory Accounts
  imports Access
begin

text \<open>
  Users and API keys: their tables (\<open>internal/db/users.go\<close>, \<open>apikeys.go\<close>), the handlers that manage them (\<open>handlers/users.go\<close>,
  \<open>handlers/api_keys.go\<close>), the logins (\<open>handlers/auth.go\<close> with the functions that \<open>buildAuthHandler\<close> gives it), and the keys and users that the
  server and its command line make themselves (\<open>internal/server/apikeys.go\<close>, \<open>cmd/clustr-serverd/bootstrap_admin.go\<close>).

  A reply is the status and the code of its body. Each call of the database that can fail takes its answer from an argument. New ids, random keys and
  hashes of passwords are arguments; names of users are ASCII, times whole seconds.
\<close>

section \<open>The tables\<close>

record account =
  ac_id :: string
  ac_name :: string
  ac_hash :: string
  ac_role :: string
  ac_must_change :: bool
  ac_created :: int
  ac_last_login :: "int option"
  ac_disabled :: "int option"

text \<open>
  \<open>users\<close>, \<open>api_keys\<close> and \<open>user_group_memberships\<close>; \<open>ad_refs\<close> are the ids that rows of other tables refer to without a cascade, and
  \<open>ad_groups\<close> the ids of the node groups.
\<close>

record account_db =
  ad_users :: "account list"
  ad_keys :: "key_row list"
  ad_operators :: "(string \<times> string) list"
  ad_refs :: "string list"
  ad_groups :: "string list"

text \<open>\<open>ErrUserNotFound\<close>, \<open>api.ErrNotFound\<close> of \<open>requireOneRow\<close>, \<open>sql.ErrNoRows\<close>, and the errors of the database.\<close>

datatype db_err = No_User | No_Row | No_Sql_Rows | Unique_Failed | Constraint_Failed | Db_Failed

definition is_disabled :: "account \<Rightarrow> bool" where
  "is_disabled u \<longleftrightarrow> ac_disabled u \<noteq> None"

definition user_roles :: "string list" where
  "user_roles = [''admin'', ''operator'', ''readonly'', ''viewer'', ''pi'', ''director'']"

definition valid_role :: "string \<Rightarrow> bool" where
  "valid_role r \<longleftrightarrow> r \<in> set user_roles"

definition active_admin :: "account \<Rightarrow> bool" where
  "active_admin u \<longleftrightarrow> ac_role u = ''admin'' \<and> ac_disabled u = None"

definition count_active_admins :: "account_db \<Rightarrow> nat" where
  "count_active_admins db = length (filter active_admin (ad_users db))"

text \<open>\<open>COLLATE NOCASE\<close> folds the ASCII letters.\<close>

definition same_name :: "string \<Rightarrow> string \<Rightarrow> bool" where
  "same_name a b \<longleftrightarrow> map lower_char a = map lower_char b"

definition stored_name :: "string \<Rightarrow> string" where
  "stored_name s = to_lower (trim_space s)"

text \<open>The check of the role comes before the unique columns.\<close>

definition create_user :: "account \<Rightarrow> account_db \<Rightarrow> db_err + account_db" where
  "create_user rec db =
     (let row = rec\<lparr>ac_name := stored_name (ac_name rec), ac_last_login := None, ac_disabled := None\<rparr> in
      if \<not> valid_role (ac_role row) then Inl Constraint_Failed
      else if \<exists>u \<in> set (ad_users db). ac_id u = ac_id row \<or> same_name (ac_name u) (ac_name row) then Inl Unique_Failed
      else Inr (db\<lparr>ad_users := ad_users db @ [row]\<rparr>))"

definition get_user_by_username :: "account_db \<Rightarrow> string \<Rightarrow> db_err + account" where
  "get_user_by_username db name =
     (case find (\<lambda>u. same_name (ac_name u) (stored_name name)) (ad_users db) of None \<Rightarrow> Inl No_User | Some u \<Rightarrow> Inr u)"

definition get_user :: "account_db \<Rightarrow> string \<Rightarrow> db_err + account" where
  "get_user db uid = (case find (\<lambda>u. ac_id u = uid) (ad_users db) of None \<Rightarrow> Inl No_User | Some u \<Rightarrow> Inr u)"

text \<open>An update of the row of a user under a condition; \<open>requireOneRow\<close>.\<close>

definition update_user_row :: "string \<Rightarrow> (account \<Rightarrow> bool) \<Rightarrow> (account \<Rightarrow> account) \<Rightarrow> account_db \<Rightarrow> db_err + account_db" where
  "update_user_row uid P f db =
     (if \<exists>u \<in> set (ad_users db). ac_id u = uid \<and> P u
      then Inr (db\<lparr>ad_users := map (\<lambda>u. if ac_id u = uid \<and> P u then f u else u) (ad_users db)\<rparr>)
      else Inl No_Row)"

definition update_user_role :: "string \<Rightarrow> string \<Rightarrow> account_db \<Rightarrow> db_err + account_db" where
  "update_user_role uid role db =
     (if \<not> valid_role role \<and> (\<exists>u \<in> set (ad_users db). ac_id u = uid) then Inl Constraint_Failed
      else update_user_row uid (\<lambda>_. True) (\<lambda>u. u\<lparr>ac_role := role\<rparr>) db)"

definition disable_user :: "int \<Rightarrow> string \<Rightarrow> account_db \<Rightarrow> db_err + account_db" where
  "disable_user now uid = update_user_row uid (\<lambda>u. ac_disabled u = None) (\<lambda>u. u\<lparr>ac_disabled := Some now\<rparr>)"

definition enable_user :: "string \<Rightarrow> account_db \<Rightarrow> db_err + account_db" where
  "enable_user uid = update_user_row uid (\<lambda>u. ac_disabled u \<noteq> None) (\<lambda>u. u\<lparr>ac_disabled := None\<rparr>)"

definition set_user_password :: "string \<Rightarrow> string \<Rightarrow> bool \<Rightarrow> account_db \<Rightarrow> db_err + account_db" where
  "set_user_password uid hash clear =
     update_user_row uid (\<lambda>_. True) (\<lambda>u. u\<lparr>ac_hash := hash, ac_must_change := \<not> clear\<rparr>)"

definition set_last_login :: "int \<Rightarrow> string \<Rightarrow> account_db \<Rightarrow> account_db" where
  "set_last_login now uid db =
     db\<lparr>ad_users := map (\<lambda>u. if ac_id u = uid then u\<lparr>ac_last_login := Some now\<rparr> else u) (ad_users db)\<rparr>"

definition clear_all_must_change_password :: "account_db \<Rightarrow> account_db" where
  "clear_all_must_change_password db = db\<lparr>ad_users := map (\<lambda>u. u\<lparr>ac_must_change := False\<rparr>) (ad_users db)\<rparr>"

text \<open>Keys and other rows refer to users by foreign keys that are enforced; the memberships of operators cascade.\<close>

definition referenced :: "account_db \<Rightarrow> string \<Rightarrow> bool" where
  "referenced db uid \<longleftrightarrow> uid \<in> k_user ` set (ad_keys db) \<or> uid \<in> set (ad_refs db)"

definition hard_delete_user :: "string \<Rightarrow> account_db \<Rightarrow> db_err + account_db" where
  "hard_delete_user uid db =
     (if \<forall>u \<in> set (ad_users db). ac_id u \<noteq> uid then Inl No_Row
      else if referenced db uid then Inl Constraint_Failed
      else Inr (db\<lparr>ad_users := filter (\<lambda>u. ac_id u \<noteq> uid) (ad_users db),
                   ad_operators := filter (\<lambda>m. fst m \<noteq> uid) (ad_operators db)\<rparr>))"

definition delete_all_users :: "account_db \<Rightarrow> db_err + account_db" where
  "delete_all_users db =
     (if \<exists>u \<in> set (ad_users db). referenced db (ac_id u) then Inl Constraint_Failed
      else Inr (db\<lparr>ad_users := [], ad_operators := filter (\<lambda>m. fst m \<notin> ac_id ` set (ad_users db)) (ad_operators db)\<rparr>))"

section \<open>Users\<close>

type_synonym http_reply = "nat \<times> string"

text \<open>The calls of the handlers that can fail.\<close>

datatype user_call =
  Call_Get | Call_Count_Role | Call_Count_Disable | Call_Update_Role | Call_Disable | Call_Enable | Call_Delete | Call_Set_Password | Call_Create
  | Call_Hash | Call_Get_Again | Call_Set_Groups

text \<open>\<open>validatePassword\<close> on the length and the runes, which the tables of \<open>unicode\<close> classify; the result is the list of what is missing.\<close>

datatype rune_class = Rune_Upper | Rune_Lower | Rune_Digit | Rune_Other

definition missing_in_password :: "nat \<Rightarrow> rune_class list \<Rightarrow> string list" where
  "missing_in_password n runes =
     (if n < 8 then [''at least 8 characters''] else []) @
     (if Rune_Upper \<in> set runes then [] else [''one uppercase letter'']) @
     (if Rune_Lower \<in> set runes then [] else [''one lowercase letter'']) @
     (if Rune_Digit \<in> set runes then [] else [''one digit''])"

definition validate_password :: "(string \<Rightarrow> rune_class list) \<Rightarrow> string \<Rightarrow> string" where
  "validate_password classify pw =
     (let missing = missing_in_password (length pw) (classify pw)
      in if missing = [] then '''' else ''Password must contain: '' @ join '', '' missing)"

text \<open>\<open>enforceLastAdminGuard\<close>: the reply of a refusal.\<close>

definition last_admin_guard :: "bool \<Rightarrow> account_db \<Rightarrow> http_reply option" where
  "last_admin_guard ok db =
     (if \<not> ok then Some (500, ''internal_error'')
      else if count_active_admins db \<le> 1 then Some (409, ''last_admin_user'')
      else None)"

text \<open>A query of a user: \<open>ErrUserNotFound\<close> is 404, another error 500.\<close>

definition load_user :: "bool \<Rightarrow> string \<Rightarrow> account_db \<Rightarrow> http_reply + account" where
  "load_user ok uid db =
     (if \<not> ok then Inl (500, ''internal_error'')
      else (case get_user db uid of Inl e \<Rightarrow> Inl (404, ''not_found'') | Inr u \<Rightarrow> Inr u))"

text \<open>The reply to the error of a statement: the handlers look for \<open>ErrUserNotFound\<close> only.\<close>

definition write_failed :: "db_err \<Rightarrow> http_reply" where
  "write_failed e = (if e = No_User then (404, ''not_found'') else (500, ''internal_error''))"

definition db_call :: "bool \<Rightarrow> (account_db \<Rightarrow> db_err + account_db) \<Rightarrow> account_db \<Rightarrow> db_err + account_db" where
  "db_call ok f db = (if ok then f db else Inl Db_Failed)"

text \<open>A handler answers a reply, the database and the audit rows: action and id.\<close>

type_synonym handled = "http_reply \<times> account_db \<times> (string \<times> string) list"

record create_request =
  cr_username :: string
  cr_secret :: string
  cr_role :: string

definition handle_create ::
  "(user_call \<Rightarrow> bool) \<Rightarrow> (string \<Rightarrow> rune_class list) \<Rightarrow> string \<Rightarrow> string \<Rightarrow> int \<Rightarrow> create_request \<Rightarrow> account_db \<Rightarrow> handled" where
  "handle_create io classify hash uid now req db =
     (if cr_username req = '''' \<or> cr_secret req = '''' \<or> cr_role req = '''' then ((400, ''validation_error''), db, [])
      else if \<not> valid_role (cr_role req) then ((400, ''validation_error''), db, [])
      else if validate_password classify (cr_secret req) \<noteq> '''' then ((400, ''validation_error''), db, [])
      else if \<not> io Call_Hash then ((500, ''internal_error''), db, [])
      else
        (case db_call (io Call_Create) (create_user \<lparr>ac_id = uid, ac_name = cr_username req, ac_hash = hash, ac_role = cr_role req,
            ac_must_change = False, ac_created = now, ac_last_login = None, ac_disabled = None\<rparr>) db of
           Inl e \<Rightarrow> ((if e = Unique_Failed then (409, ''conflict'') else (500, ''internal_error'')), db, [])
         | Inr db' \<Rightarrow> ((201, ''''), db', if io Call_Get_Again then [(''user.create'', uid)] else [])))"

record update_request =
  up_role :: string
  up_disabled :: "bool option"

text \<open>The two parts of \<open>HandleUpdate\<close>: a reply that ends it, or the database.\<close>

definition update_role_part :: "(user_call \<Rightarrow> bool) \<Rightarrow> string \<Rightarrow> update_request \<Rightarrow> account \<Rightarrow> account_db \<Rightarrow> http_reply + account_db" where
  "update_role_part io uid req user db =
     (if up_role req \<noteq> '''' \<and> up_role req \<noteq> ac_role user then
        (if \<not> valid_role (up_role req) then Inl (400, ''validation_error'')
         else
           (case (if ac_role user = ''admin'' \<and> up_role req \<noteq> ''admin'' then last_admin_guard (io Call_Count_Role) db else None) of
              Some r \<Rightarrow> Inl r
            | None \<Rightarrow>
              (case db_call (io Call_Update_Role) (update_user_role uid (up_role req)) db of
                 Inl e \<Rightarrow> Inl (write_failed e)
               | Inr db' \<Rightarrow> Inr db')))
      else Inr db)"

definition disable_part :: "(user_call \<Rightarrow> bool) \<Rightarrow> int \<Rightarrow> string \<Rightarrow> update_request \<Rightarrow> account \<Rightarrow> account_db \<Rightarrow> http_reply + account_db" where
  "disable_part io now uid req user db =
     (if up_disabled req = Some True \<and> \<not> is_disabled user then
        (case (if ac_role user = ''admin'' then last_admin_guard (io Call_Count_Disable) db else None) of
           Some r \<Rightarrow> Inl r
         | None \<Rightarrow>
           (case db_call (io Call_Disable) (disable_user now uid) db of
              Inl e \<Rightarrow> Inl (write_failed e)
            | Inr db' \<Rightarrow> Inr db'))
      else Inr db)"

definition handle_update :: "(user_call \<Rightarrow> bool) \<Rightarrow> int \<Rightarrow> string \<Rightarrow> update_request \<Rightarrow> account_db \<Rightarrow> handled" where
  "handle_update io now uid req db =
     (if uid = '''' then ((400, ''validation_error''), db, [])
      else
        (case load_user (io Call_Get) uid db of
           Inl r \<Rightarrow> (r, db, [])
         | Inr user \<Rightarrow>
           (case update_role_part io uid req user db of
              Inl r \<Rightarrow> (r, db, [])
            | Inr db1 \<Rightarrow>
              (case disable_part io now uid req user db1 of
                 Inl r \<Rightarrow> (r, db1, [])
               | Inr db2 \<Rightarrow> ((200, ''''), db2, if io Call_Get_Again then [(''user.update'', uid)] else [])))))"

text \<open>\<open>SetUserPassword\<close> answers \<open>api.ErrNotFound\<close>, which is none of the two errors that the handler looks for.\<close>

definition handle_reset_password ::
  "(user_call \<Rightarrow> bool) \<Rightarrow> (string \<Rightarrow> rune_class list) \<Rightarrow> string \<Rightarrow> string \<Rightarrow> string \<Rightarrow> account_db \<Rightarrow> handled" where
  "handle_reset_password io classify hash uid pw db =
     (if uid = '''' \<or> pw = '''' \<or> validate_password classify pw \<noteq> '''' then ((400, ''validation_error''), db, [])
      else if \<not> io Call_Hash then ((500, ''internal_error''), db, [])
      else
        (case db_call (io Call_Set_Password) (set_user_password uid hash False) db of
           Inl e \<Rightarrow> ((if e = No_User \<or> e = No_Sql_Rows then (404, ''not_found'') else (500, ''internal_error'')), db, [])
         | Inr db' \<Rightarrow> ((200, ''''), db', [(''user.reset_password'', uid)])))"

definition handle_enable :: "(user_call \<Rightarrow> bool) \<Rightarrow> string \<Rightarrow> account_db \<Rightarrow> handled" where
  "handle_enable io uid db =
     (if uid = '''' then ((400, ''validation_error''), db, [])
      else
        (case load_user (io Call_Get) uid db of
           Inl r \<Rightarrow> (r, db, [])
         | Inr user \<Rightarrow>
           if \<not> is_disabled user then ((409, ''already_enabled''), db, [])
           else
             (case db_call (io Call_Enable) (enable_user uid) db of
                Inl e \<Rightarrow> (write_failed e, db, [])
              | Inr db' \<Rightarrow> ((200, ''''), db', if io Call_Get_Again then [(''user.update'', uid)] else []))))"

definition handle_delete :: "(user_call \<Rightarrow> bool) \<Rightarrow> string \<Rightarrow> account_db \<Rightarrow> handled" where
  "handle_delete io uid db =
     (if uid = '''' then ((400, ''validation_error''), db, [])
      else
        (case load_user (io Call_Get) uid db of
           Inl r \<Rightarrow> (r, db, [])
         | Inr user \<Rightarrow>
           (case (if ac_role user = ''admin'' \<and> \<not> is_disabled user then last_admin_guard (io Call_Count_Role) db else None) of
              Some r \<Rightarrow> (r, db, [])
            | None \<Rightarrow>
              (case db_call (io Call_Delete) (hard_delete_user uid) db of
                 Inl e \<Rightarrow> (write_failed e, db, [])
               | Inr db' \<Rightarrow> ((204, ''''), db', [(''user.delete'', uid)])))))"

definition handle_set_group_memberships :: "(user_call \<Rightarrow> bool) \<Rightarrow> string \<Rightarrow> string list \<Rightarrow> account_db \<Rightarrow> handled" where
  "handle_set_group_memberships io uid groups db =
     (if uid = '''' then ((400, ''validation_error''), db, [])
      else
        (case load_user (io Call_Get) uid db of
           Inl r \<Rightarrow> (r, db, [])
         | Inr user \<Rightarrow>
           if ac_role user \<noteq> ''operator'' then ((400, ''validation_error''), db, [])
           else if \<not> io Call_Set_Groups then ((500, ''internal_error''), db, [])
           else
             (case set_user_group_memberships (ad_groups db) uid groups (ad_operators db) of
                None \<Rightarrow> ((500, ''internal_error''), db, [])
              | Some ms \<Rightarrow> ((200, ''''), db\<lparr>ad_operators := ms\<rparr>, []))))"

text \<open>The lists of users: \<open>parsePaginationQuery\<close>, \<open>paginate\<close> and the slice, whose bounds panic (\<open>None\<close>).\<close>

definition parse_pagination_query :: "string \<Rightarrow> string \<Rightarrow> int \<times> int \<times> bool" where
  "parse_pagination_query page per_page =
     (if page = '''' \<and> per_page = '''' then (0, 0, False)
      else
        ((case atoi page of Some v \<Rightarrow> if v > 0 then v else 0 | None \<Rightarrow> 0),
         (case atoi per_page of Some v \<Rightarrow> if v > 0 then v else 0 | None \<Rightarrow> 0), True))"

definition paginate :: "int \<Rightarrow> int \<Rightarrow> int \<Rightarrow> int \<times> int \<times> int \<times> int" where
  "paginate size_all raw_page raw_per_page =
     (let per_page = (if raw_per_page \<le> 0 then 50 else raw_per_page);
          per_page = (if per_page > 500 then 500 else per_page);
          page = (if raw_page \<le> 0 then 1 else raw_page);
          start = wrap64 ((page - 1) * per_page);
          start = (if start > size_all then size_all else start);
          stop = wrap64 (start + per_page);
          stop = (if stop > size_all then size_all else stop)
      in (start, stop, page, per_page))"

definition slice :: "'a list \<Rightarrow> int \<Rightarrow> int \<Rightarrow> 'a list option" where
  "slice xs i j = (if 0 \<le> i \<and> i \<le> j \<and> j \<le> int (length xs) then Some (take (nat (j - i)) (drop (nat i) xs)) else None)"

text \<open>The users with the groups they are operators of; a failure to read the memberships leaves them out.\<close>

definition handle_list_with_memberships ::
  "bool \<Rightarrow> bool \<Rightarrow> string \<Rightarrow> string \<Rightarrow> account_db \<Rightarrow> (http_reply + (account \<times> string list) list) option" where
  "handle_list_with_memberships users_ok members_ok page per_page db =
     (if \<not> users_ok then Some (Inl (500, ''internal_error''))
      else
        (let users = rev (sort_key ac_created (ad_users db));
             groups = (\<lambda>u. if members_ok then get_user_group_memberships (ac_id u) (ad_operators db) else []);
             (raw_page, raw_per_page, paging) = parse_pagination_query page per_page;
             (start, stop, _, _) = paginate (int (length users)) raw_page raw_per_page
         in if paging then map_option (\<lambda>us. Inr (map (\<lambda>u. (u, groups u)) us)) (slice users start stop)
            else Some (Inr (map (\<lambda>u. (u, groups u)) users))))"

section \<open>Logins\<close>

text \<open>The comparison of a password with a hash is an argument.\<close>

datatype login_error = Login_Invalid | Login_Disabled | Login_Db

definition login_with_password ::
  "(string \<Rightarrow> string \<Rightarrow> bool) \<Rightarrow> bool \<Rightarrow> account_db \<Rightarrow> string \<Rightarrow> string \<Rightarrow> login_error + (string \<times> string \<times> bool)" where
  "login_with_password verify ok db name pw =
     (if \<not> ok then Inl Login_Db
      else
        (case get_user_by_username db name of
           Inl e \<Rightarrow> Inl Login_Invalid
         | Inr u \<Rightarrow>
           if is_disabled u then Inl Login_Disabled
           else if \<not> verify (ac_hash u) pw then Inl Login_Invalid
           else Inr (ac_id u, ac_role u, ac_must_change u)))"

definition login_refusal :: "login_error \<Rightarrow> http_reply" where
  "login_refusal e =
     (case e of Login_Invalid \<Rightarrow> (401, ''unauthorized'') | Login_Disabled \<Rightarrow> (401, ''account_disabled'') | Login_Db \<Rightarrow> (500, ''internal_error''))"

text \<open>A login answers a reply and what it does to the cookie; the time of the last login is written by a goroutine of its own.\<close>

definition handle_password_login ::
  "crypto \<Rightarrow> auth_conf \<Rightarrow> (string \<Rightarrow> string \<Rightarrow> bool) \<Rightarrow> bool \<Rightarrow> int \<Rightarrow> account_db \<Rightarrow> string \<Rightarrow> string \<Rightarrow>
   http_reply \<times> cookie_effect \<times> account_db" where
  "handle_password_login cr c verify ok now db name pw =
     (case login_with_password verify ok db name pw of
        Inl e \<Rightarrow> (login_refusal e, Keep_Cookie, db)
      | Inr (uid, role, _) \<Rightarrow>
        (let db' = set_last_login now uid db; p = new_session_payload now uid role in
         case sign_session_token cr (session_secret c) p of
           None \<Rightarrow> ((500, ''internal_error''), Keep_Cookie, db')
         | Some t \<Rightarrow> ((200, ''''), Set_Session t (p_exp p), db')))"

definition login_with_key :: "crypto \<Rightarrow> bool \<Rightarrow> int \<Rightarrow> account_db \<Rightarrow> string \<Rightarrow> string option" where
  "login_with_key cr ok now db raw =
     (case lookup_api_key ok (ad_keys db) now (sha256_hex cr (strip_key_prefix raw)) of
        Inl e \<Rightarrow> None
      | Inr (l, _) \<Rightarrow> if l_scope l \<noteq> ''admin'' then None else Some (take 8 (strip_key_prefix raw)))"

definition handle_key_login :: "crypto \<Rightarrow> auth_conf \<Rightarrow> bool \<Rightarrow> int \<Rightarrow> account_db \<Rightarrow> string \<Rightarrow> http_reply \<times> cookie_effect" where
  "handle_key_login cr c ok now db raw =
     (case login_with_key cr ok now db (trim_space raw) of
        None \<Rightarrow> ((401, ''unauthorized''), Keep_Cookie)
      | Some kid \<Rightarrow>
        (let p = new_session_payload_for_key now kid in
         case sign_session_token cr (session_secret c) p of
           None \<Rightarrow> ((500, ''internal_error''), Keep_Cookie)
         | Some t \<Rightarrow> ((200, ''''), Set_Session t (p_exp p))))"

definition handle_login ::
  "crypto \<Rightarrow> auth_conf \<Rightarrow> (string \<Rightarrow> string \<Rightarrow> bool) \<Rightarrow> bool \<Rightarrow> int \<Rightarrow> account_db \<Rightarrow> string \<Rightarrow> string \<Rightarrow> string \<Rightarrow>
   http_reply \<times> cookie_effect \<times> account_db" where
  "handle_login cr c verify ok now db name pw key =
     (if trim_space name \<noteq> '''' then handle_password_login cr c verify ok now db name pw
      else if trim_space key \<noteq> '''' then (case handle_key_login cr c ok now db key of (r, ck) \<Rightarrow> (r, ck, db))
      else ((400, ''bad_request''), Keep_Cookie, db))"

text \<open>\<open>validateFn\<close>: the payload, and the new token when there is one.\<close>

definition validate_fn :: "crypto \<Rightarrow> auth_conf \<Rightarrow> int \<Rightarrow> string \<Rightarrow> (session_payload \<times> string option) option" where
  "validate_fn cr c now token =
     (case validate_session_token cr (session_secret c) now token of
        None \<Rightarrow> None
      | Some (p, reissue) \<Rightarrow>
        if reissue then
          (case sign_session_token cr (session_secret c) (slide_session_payload now p) of
             None \<Rightarrow> Some (p, None)
           | Some t \<Rightarrow> Some (slide_session_payload now p, Some t))
        else Some (p, None))"

text \<open>\<open>HandleMe\<close> without the body of its reply but for the role.\<close>

definition handle_me :: "crypto \<Rightarrow> auth_conf \<Rightarrow> int \<Rightarrow> string option \<Rightarrow> (http_reply + session_payload) \<times> cookie_effect" where
  "handle_me cr c now ck =
     (case ck of
        None \<Rightarrow> (Inl (401, ''unauthorized''), Keep_Cookie)
      | Some v \<Rightarrow>
        (case validate_fn cr c now v of
           None \<Rightarrow> (Inl (401, ''unauthorized''), Clear_Session)
         | Some (p, new) \<Rightarrow> (Inr p, case new of None \<Rightarrow> Keep_Cookie | Some t \<Rightarrow> Set_Session t (p_exp p))))"

datatype password_error = Pw_No_User | Pw_Wrong | Pw_Failed

definition set_password ::
  "crypto \<Rightarrow> auth_conf \<Rightarrow> (string \<Rightarrow> string \<Rightarrow> bool) \<Rightarrow> (user_call \<Rightarrow> bool) \<Rightarrow> int \<Rightarrow> string \<Rightarrow> string \<Rightarrow> string \<Rightarrow> account_db \<Rightarrow>
   (password_error + (string \<times> int)) \<times> account_db" where
  "set_password cr c verify io now hash uid current db =
     (case (if io Call_Get then get_user db uid else Inl Db_Failed) of
        Inl e \<Rightarrow> (Inl Pw_No_User, db)
      | Inr user \<Rightarrow>
        if \<not> verify (ac_hash user) current then (Inl Pw_Wrong, db)
        else if \<not> io Call_Hash then (Inl Pw_Failed, db)
        else
          (case db_call (io Call_Set_Password) (set_user_password uid hash True) db of
             Inl e \<Rightarrow> (Inl Pw_Failed, db)
           | Inr db' \<Rightarrow>
             (let p = new_session_payload now (ac_id user) (ac_role user) in
              case sign_session_token cr (session_secret c) p of
                None \<Rightarrow> (Inl Pw_Failed, db')
              | Some t \<Rightarrow> (Inr (t, p_exp p), db'))))"

definition handle_set_password ::
  "crypto \<Rightarrow> auth_conf \<Rightarrow> (string \<Rightarrow> string \<Rightarrow> bool) \<Rightarrow> (user_call \<Rightarrow> bool) \<Rightarrow> int \<Rightarrow> string \<Rightarrow> string option \<Rightarrow> string \<Rightarrow> string \<Rightarrow> account_db \<Rightarrow>
   http_reply \<times> cookie_effect \<times> account_db" where
  "handle_set_password cr c verify io now hash ck current new db =
     (case ck of
        None \<Rightarrow> ((401, ''unauthorized''), Keep_Cookie, db)
      | Some v \<Rightarrow>
        (case validate_fn cr c now v of
           None \<Rightarrow> ((401, ''unauthorized''), Clear_Session, db)
         | Some (p, _) \<Rightarrow>
           if prefix ''key:'' (p_sub p) then ((400, ''bad_request''), Keep_Cookie, db)
           else if trim_space new = '''' then ((400, ''validation_error''), Keep_Cookie, db)
           else
             (case set_password cr c verify io now hash (p_sub p) current db of
                (Inl Pw_Wrong, db') \<Rightarrow> ((401, ''wrong_password''), Keep_Cookie, db')
              | (Inl Pw_No_User, db') \<Rightarrow> ((404, ''not_found''), Keep_Cookie, db')
              | (Inl Pw_Failed, db') \<Rightarrow> ((500, ''internal_error''), Keep_Cookie, db')
              | (Inr (t, e), db') \<Rightarrow> ((200, ''''), Set_Session t e, db'))))"

definition handle_logout :: "http_reply \<times> cookie_effect" where
  "handle_logout = ((200, ''''), Clear_Session)"

text \<open>\<open>HandleStatus\<close>: whether there is an admin, and the default one.\<close>

definition handle_status :: "bool \<Rightarrow> account_db \<Rightarrow> http_reply + (bool \<times> bool)" where
  "handle_status ok db =
     (if ok then Inr (count_active_admins db > 0, (case get_user_by_username db ''clustr'' of Inl _ \<Rightarrow> False | Inr _ \<Rightarrow> True))
      else Inl (500, ''internal_error''))"

end
