(* ===== verification/Api_Keys.thy ===== *)
theory Api_Keys
  imports Accounts
begin

text \<open>
  API keys: the statements of \<open>internal/db/apikeys.go\<close>, the handlers of \<open>handlers/api_keys.go\<close>, and the keys and users that the server and its
  command line make (\<open>internal/server/apikeys.go\<close>, \<open>cmd/clustr-serverd/bootstrap_admin.go\<close>).
\<close>

section \<open>The table\<close>

definition null_if_empty :: "string \<Rightarrow> string option" where
  "null_if_empty s = (if s = '''' then None else Some s)"

text \<open>\<open>CreateAPIKey\<close>: the user must be given and exist, the scope be one of two, the id and the hash be new.\<close>

definition create_api_key_row :: "key_row \<Rightarrow> account_db \<Rightarrow> db_err + account_db" where
  "create_api_key_row k db =
     (if k_user k = '''' then Inl Db_Failed
      else if k_scope k \<noteq> ''admin'' \<and> k_scope k \<noteq> ''node'' then Inl Constraint_Failed
      else if \<exists>x \<in> set (ad_keys db). k_id x = k_id k \<or> k_hash x = k_hash k then Inl Unique_Failed
      else if k_user k \<notin> ac_id ` set (ad_users db) then Inl Constraint_Failed
      else Inr (db\<lparr>ad_keys := ad_keys db @ [k\<lparr>k_revoked := None, k_last_used := None\<rparr>]\<rparr>))"

definition revoke_node_keys :: "int \<Rightarrow> string \<Rightarrow> key_row list \<Rightarrow> key_row list" where
  "revoke_node_keys now node keys =
     map (\<lambda>k. if k_node k = Some node \<and> k_scope k = ''node'' \<and> k_revoked k = None then k\<lparr>k_revoked := Some now\<rparr> else k) keys"

text \<open>\<open>RevokeAndCreateNodeScopedKey\<close>: one transaction.\<close>

definition revoke_and_create :: "int \<Rightarrow> string \<Rightarrow> key_row \<Rightarrow> account_db \<Rightarrow> db_err + account_db" where
  "revoke_and_create now node k db = create_api_key_row k (db\<lparr>ad_keys := revoke_node_keys now node (ad_keys db)\<rparr>)"

definition counted_live :: "int \<Rightarrow> key_row \<Rightarrow> bool" where
  "counted_live now k \<longleftrightarrow> k_revoked k = None \<and> (case k_expires k of None \<Rightarrow> True | Some e \<Rightarrow> e > now)"

definition count_api_keys_by_scope :: "int \<Rightarrow> string \<Rightarrow> account_db \<Rightarrow> nat" where
  "count_api_keys_by_scope now scope db = length (filter (\<lambda>k. k_scope k = scope \<and> counted_live now k) (ad_keys db))"

definition list_api_keys :: "account_db \<Rightarrow> key_row list" where
  "list_api_keys db = rev (sort_key k_created (filter (\<lambda>k. k_revoked k = None) (ad_keys db)))"

definition get_api_key :: "account_db \<Rightarrow> string \<Rightarrow> db_err + key_row" where
  "get_api_key db kid = (case find (\<lambda>k. k_id k = kid) (ad_keys db) of None \<Rightarrow> Inl No_Sql_Rows | Some k \<Rightarrow> Inr k)"

definition revoke_api_key :: "int \<Rightarrow> string \<Rightarrow> account_db \<Rightarrow> db_err + account_db" where
  "revoke_api_key now kid db =
     (if \<exists>k \<in> set (ad_keys db). k_id k = kid \<and> k_revoked k = None
      then Inr (db\<lparr>ad_keys := map (\<lambda>k. if k_id k = kid \<and> k_revoked k = None then k\<lparr>k_revoked := Some now\<rparr> else k) (ad_keys db)\<rparr>)
      else Inl No_Sql_Rows)"

definition sweep_expired_api_keys :: "int \<Rightarrow> account_db \<Rightarrow> account_db \<times> nat" where
  "sweep_expired_api_keys now db =
     (let dead = (\<lambda>k. case k_expires k of None \<Rightarrow> False | Some e \<Rightarrow> e < now) in
      (db\<lparr>ad_keys := filter (\<lambda>k. \<not> dead k) (ad_keys db)\<rparr>, length (filter dead (ad_keys db))))"

text \<open>\<open>DeleteAPIKey\<close> and \<open>UpdateAPIKeyExpiry\<close>, which no handler calls.\<close>

definition delete_api_key :: "string \<Rightarrow> account_db \<Rightarrow> account_db" where
  "delete_api_key kid db = db\<lparr>ad_keys := filter (\<lambda>k. k_id k \<noteq> kid) (ad_keys db)\<rparr>"

definition update_api_key_expiry :: "string \<Rightarrow> int option \<Rightarrow> account_db \<Rightarrow> account_db" where
  "update_api_key_expiry kid e db = db\<lparr>ad_keys := map (\<lambda>k. if k_id k = kid then k\<lparr>k_expires := e\<rparr> else k) (ad_keys db)\<rparr>"

section \<open>Users that own the keys of the server\<close>

text \<open>The order of \<open>lookupBootstrapAdminID\<close>; of rows with the same rank and time the first is taken.\<close>

definition bootstrap_rank :: "account \<Rightarrow> nat" where
  "bootstrap_rank u =
     (if map lower_char (ac_name u) = ''clustr'' \<and> ac_role u = ''admin'' \<and> ac_disabled u = None then 0
      else if ac_role u = ''admin'' \<and> ac_disabled u = None then 1
      else if ac_disabled u = None then 2
      else 3)"

definition lookup_bootstrap_admin_id :: "account_db \<Rightarrow> string option" where
  "lookup_bootstrap_admin_id db =
     (case sort_key bootstrap_rank (sort_key ac_created (ad_users db)) of [] \<Rightarrow> None | u # _ \<Rightarrow> Some (ac_id u))"

datatype key_call =
  Key_Resolve | Key_Count_Users | Key_Create_User | Key_Resolve_Again | Key_Create | Key_Get | Key_Get_Caller | Key_Count | Key_Revoke

text \<open>What is drawn at random: the raw key and the hash of the default password (\<open>None\<close> an error), the ids of a key and of a user.\<close>

record fresh =
  fr_raw :: "string option"
  fr_hash :: "string option"
  fr_key_id :: string
  fr_user_id :: string

definition bootstrap_default_user :: "(key_call \<Rightarrow> bool) \<Rightarrow> fresh \<Rightarrow> int \<Rightarrow> account_db \<Rightarrow> db_err + account_db" where
  "bootstrap_default_user io fr now db =
     (if \<not> io Key_Count_Users then Inl Db_Failed
      else if ad_users db \<noteq> [] then Inr db
      else
        (case fr_hash fr of
           None \<Rightarrow> Inl Db_Failed
         | Some h \<Rightarrow>
           db_call (io Key_Create_User) (create_user \<lparr>ac_id = fr_user_id fr, ac_name = ''clustr'', ac_hash = h, ac_role = ''admin'',
             ac_must_change = False, ac_created = now, ac_last_login = None, ac_disabled = None\<rparr>) db))"

definition resolve_bootstrap_admin_id ::
  "(key_call \<Rightarrow> bool) \<Rightarrow> fresh \<Rightarrow> int \<Rightarrow> account_db \<Rightarrow> (db_err + string) \<times> account_db" where
  "resolve_bootstrap_admin_id io fr now db =
     (if \<not> io Key_Resolve then (Inl Db_Failed, db)
      else
        (case lookup_bootstrap_admin_id db of
           Some u \<Rightarrow> (Inr u, db)
         | None \<Rightarrow>
           (case bootstrap_default_user io fr now db of
              Inl e \<Rightarrow> (Inl e, db)
            | Inr db' \<Rightarrow>
              if \<not> io Key_Resolve_Again then (Inl Db_Failed, db')
              else ((case lookup_bootstrap_admin_id db' of None \<Rightarrow> Inl No_Sql_Rows | Some u \<Rightarrow> Inr u), db'))))"

section \<open>Keys of the server\<close>

definition new_key_row :: "crypto \<Rightarrow> fresh \<Rightarrow> string \<Rightarrow> int \<Rightarrow> string \<Rightarrow> string \<Rightarrow> string \<Rightarrow> string \<Rightarrow> string \<Rightarrow> string \<Rightarrow> int option \<Rightarrow> key_row" where
  "new_key_row cr fr raw now scope node label description created_by user expires =
     \<lparr>k_id = fr_key_id fr, k_scope = scope, k_node = null_if_empty node, k_hash = sha256_hex cr raw, k_description = description,
      k_label = null_if_empty label, k_created_by = null_if_empty created_by, k_user = user, k_created = now, k_expires = expires,
      k_revoked = None, k_last_used = None\<rparr>"

text \<open>\<open>CreateAPIKey\<close> of the package \<open>server\<close>, for the command line: no node, no end.\<close>

definition create_api_key ::
  "crypto \<Rightarrow> (key_call \<Rightarrow> bool) \<Rightarrow> fresh \<Rightarrow> int \<Rightarrow> string \<Rightarrow> string \<Rightarrow> account_db \<Rightarrow> (db_err + (string \<times> string)) \<times> account_db" where
  "create_api_key cr io fr now scope description db =
     (case resolve_bootstrap_admin_id io fr now db of
        (Inl e, db1) \<Rightarrow> (Inl e, db1)
      | (Inr user, db1) \<Rightarrow>
        (case fr_raw fr of
           None \<Rightarrow> (Inl Db_Failed, db1)
         | Some raw \<Rightarrow>
           (case db_call (io Key_Create) (create_api_key_row (new_key_row cr fr raw now scope '''' '''' description '''' user None)) db1 of
              Inl e \<Rightarrow> (Inl e, db1)
            | Inr db2 \<Rightarrow> (Inr (raw, fr_key_id fr), db2))))"

definition run_apikey_create ::
  "crypto \<Rightarrow> (key_call \<Rightarrow> bool) \<Rightarrow> fresh \<Rightarrow> int \<Rightarrow> string \<Rightarrow> string \<Rightarrow> account_db \<Rightarrow> (db_err + string) \<times> account_db" where
  "run_apikey_create cr io fr now scope description db =
     (if scope \<noteq> ''admin'' \<and> scope \<noteq> ''node'' then (Inl Constraint_Failed, db)
      else
        (case create_api_key cr io fr now scope description db of
           (Inl e, db') \<Rightarrow> (Inl e, db')
         | (Inr (raw, _), db') \<Rightarrow> (Inr (''clustr-'' @ scope @ ''-'' @ raw), db')))"

definition bootstrap_admin_key ::
  "crypto \<Rightarrow> (key_call \<Rightarrow> bool) \<Rightarrow> fresh \<Rightarrow> int \<Rightarrow> account_db \<Rightarrow> (db_err + string option) \<times> account_db" where
  "bootstrap_admin_key cr io fr now db =
     (if \<not> io Key_Count then (Inl Db_Failed, db)
      else if count_api_keys_by_scope now ''admin'' db > 0 then (Inr None, db)
      else
        (case resolve_bootstrap_admin_id io fr now db of
           (Inl e, db1) \<Rightarrow> (Inl e, db1)
         | (Inr user, db1) \<Rightarrow>
           (case fr_raw fr of
              None \<Rightarrow> (Inl Db_Failed, db1)
            | Some raw \<Rightarrow>
              (case db_call (io Key_Create) (create_api_key_row (new_key_row cr fr raw now ''admin'' '''' ''bootstrap''
                  ''bootstrap admin key (auto-generated on first start)'' '''' user None)) db1 of
                 Inl e \<Rightarrow> (Inl e, db1)
               | Inr db2 \<Rightarrow> (Inr (Some (''clustr-admin-'' @ raw)), db2)))))"

definition node_key_ttl :: int where "node_key_ttl = 24 * 60 * 60"

definition create_node_scoped_key ::
  "crypto \<Rightarrow> (key_call \<Rightarrow> bool) \<Rightarrow> fresh \<Rightarrow> int \<Rightarrow> string \<Rightarrow> account_db \<Rightarrow> (db_err + string) \<times> account_db" where
  "create_node_scoped_key cr io fr now node db =
     (case resolve_bootstrap_admin_id io fr now db of
        (Inl e, db1) \<Rightarrow> (Inl e, db1)
      | (Inr user, db1) \<Rightarrow>
        (case fr_raw fr of
           None \<Rightarrow> (Inl Db_Failed, db1)
         | Some raw \<Rightarrow>
           (case db_call (io Key_Create) (revoke_and_create now node (new_key_row cr fr raw now ''node'' node ''node-deploy-token''
               ''node-scoped deploy token (auto-generated at PXE serve time)'' '''' user (Some (now + node_key_ttl)))) db1 of
              Inl e \<Rightarrow> (Inl e, db1)
            | Inr db2 \<Rightarrow> (Inr raw, db2))))"

text \<open>\<open>mintToken\<close> of the boot handler.\<close>

definition mint_token ::
  "crypto \<Rightarrow> (key_call \<Rightarrow> bool) \<Rightarrow> fresh \<Rightarrow> int \<Rightarrow> string \<Rightarrow> account_db \<Rightarrow> string \<times> account_db" where
  "mint_token cr io fr now node db =
     (if node = '''' then ('''', db)
      else (case create_node_scoped_key cr io fr now node db of (Inl e, db') \<Rightarrow> ('''', db') | (Inr raw, db') \<Rightarrow> (raw, db')))"

text \<open>\<open>CreateAPIKeyFull\<close>: the raw key and the row; the caller gives the owner.\<close>

definition create_api_key_full ::
  "crypto \<Rightarrow> (key_call \<Rightarrow> bool) \<Rightarrow> fresh \<Rightarrow> int \<Rightarrow> string \<Rightarrow> string \<Rightarrow> string \<Rightarrow> string \<Rightarrow> string \<Rightarrow> int option \<Rightarrow> account_db \<Rightarrow>
   (db_err + (string \<times> key_row)) \<times> account_db" where
  "create_api_key_full cr io fr now scope node label created_by user expires db =
     (case fr_raw fr of
        None \<Rightarrow> (Inl Db_Failed, db)
      | Some raw \<Rightarrow>
        (let row = new_key_row cr fr raw now scope node label '''' created_by user expires in
         case db_call (io Key_Create) (create_api_key_row row) db of
           Inl e \<Rightarrow> (Inl e, db)
         | Inr db' \<Rightarrow> (Inr (raw, row), db')))"

section \<open>Handlers\<close>

text \<open>\<open>resolveCallerUserID\<close>: the user of the session, the owner of the key, or the bootstrap admin.\<close>

definition resolve_caller_user_id ::
  "(key_call \<Rightarrow> bool) \<Rightarrow> fresh \<Rightarrow> int \<Rightarrow> identity \<Rightarrow> account_db \<Rightarrow> (db_err + string) \<times> account_db" where
  "resolve_caller_user_id io fr now i db =
     (if i_user i \<noteq> '''' then (Inr (i_user i), db)
      else
        (case (if i_key i \<noteq> '''' \<and> io Key_Get_Caller then get_api_key db (i_key i) else Inl No_Sql_Rows) of
           Inr k \<Rightarrow> if k_user k \<noteq> '''' then (Inr (k_user k), db) else resolve_bootstrap_admin_id io fr now db
         | Inl e \<Rightarrow> resolve_bootstrap_admin_id io fr now db))"

text \<open>\<open>mintFn\<close>: the raw key, the id and the hash.\<close>

definition mint_key ::
  "crypto \<Rightarrow> (key_call \<Rightarrow> bool) \<Rightarrow> fresh \<Rightarrow> int \<Rightarrow> identity \<Rightarrow> string \<Rightarrow> string \<Rightarrow> string \<Rightarrow> string \<Rightarrow> int option \<Rightarrow> account_db \<Rightarrow>
   (db_err + (string \<times> string \<times> string)) \<times> account_db" where
  "mint_key cr io fr now i scope node label created_by expires db =
     (case resolve_caller_user_id io fr now i db of
        (Inl e, db1) \<Rightarrow> (Inl e, db1)
      | (Inr user, db1) \<Rightarrow>
        (case fr_raw fr of
           None \<Rightarrow> (Inl Db_Failed, db1)
         | Some raw \<Rightarrow>
           (case db_call (io Key_Create) (create_api_key_row (new_key_row cr fr raw now scope node label '''' created_by user expires)) db1 of
              Inl e \<Rightarrow> (Inl e, db1)
            | Inr db2 \<Rightarrow> (Inr (raw, fr_key_id fr, sha256_hex cr raw), db2))))"

definition bearer_prefix :: "string \<Rightarrow> string" where
  "bearer_prefix scope = (if scope = ''admin'' then ''clustr-admin-'' else ''clustr-node-'')"

text \<open>A key handler answers a refusal or the key with the id and the prefix of the hash, the database and the audit rows.\<close>

type_synonym key_handled = "(http_reply + (string \<times> string \<times> string)) \<times> account_db \<times> (string \<times> string) list"

record key_request =
  kr_scope :: string
  kr_label :: string
  kr_node :: string
  kr_expires :: string

text \<open>The parser of times (\<open>time.Parse\<close> with RFC 3339) is an argument.\<close>

definition handle_key_create ::
  "crypto \<Rightarrow> (string \<Rightarrow> int option) \<Rightarrow> (key_call \<Rightarrow> bool) \<Rightarrow> fresh \<Rightarrow> int \<Rightarrow> identity \<Rightarrow> key_request \<Rightarrow> account_db \<Rightarrow> key_handled" where
  "handle_key_create cr parse_time io fr now i req db =
     (let scope = trim_space (kr_scope req); node = trim_space (kr_node req); label = trim_space (kr_label req);
          expires = (if kr_expires req = '''' then Some None
                     else (case parse_time (kr_expires req) of None \<Rightarrow> None | Some t \<Rightarrow> if t < now then None else Some (Some t)))
      in if scope \<noteq> ''admin'' \<and> scope \<noteq> ''node'' then (Inl (400, ''validation_error''), db, [])
         else if scope = ''node'' \<and> node = '''' then (Inl (400, ''validation_error''), db, [])
         else
           (case expires of
              None \<Rightarrow> (Inl (400, ''validation_error''), db, [])
            | Some exp \<Rightarrow>
              (case mint_key cr io fr now i scope node label (i_label i) exp db of
                 (Inl e, db') \<Rightarrow> (Inl (500, ''internal_error''), db', [])
               | (Inr (raw, kid, h), db') \<Rightarrow> (Inr (bearer_prefix scope @ raw, kid, take 12 h), db', [(''api_key.create'', kid)]))))"

definition handle_key_revoke :: "(key_call \<Rightarrow> bool) \<Rightarrow> int \<Rightarrow> string \<Rightarrow> account_db \<Rightarrow> handled" where
  "handle_key_revoke io now kid db =
     (if kid = '''' then ((400, ''validation_error''), db, [])
      else
        (case (if io Key_Get then get_api_key db kid else Inl Db_Failed) of
           Inl e \<Rightarrow> ((if e = No_Sql_Rows then (404, ''not_found'') else (500, ''internal_error'')), db, [])
         | Inr k \<Rightarrow>
           if k_revoked k \<noteq> None then ((404, ''not_found''), db, [])
           else if k_scope k = ''admin'' \<and> \<not> io Key_Count then ((500, ''internal_error''), db, [])
           else if k_scope k = ''admin'' \<and> count_api_keys_by_scope now ''admin'' db \<le> 1 then ((409, ''last_admin_key''), db, [])
           else
             (case db_call (io Key_Revoke) (revoke_api_key now kid) db of
                Inl e \<Rightarrow> ((if e = No_Sql_Rows then (404, ''not_found'') else (500, ''internal_error'')), db, [])
              | Inr db' \<Rightarrow> ((200, ''''), db', [(''api_key.revoke'', kid)]))))"

definition handle_key_rotate ::
  "crypto \<Rightarrow> (key_call \<Rightarrow> bool) \<Rightarrow> fresh \<Rightarrow> int \<Rightarrow> identity \<Rightarrow> string \<Rightarrow> account_db \<Rightarrow> key_handled" where
  "handle_key_rotate cr io fr now i kid db =
     (if kid = '''' then (Inl (400, ''validation_error''), db, [])
      else
        (case (if io Key_Get then get_api_key db kid else Inl Db_Failed) of
           Inl e \<Rightarrow> (Inl (if e = No_Sql_Rows then (404, ''not_found'') else (500, ''internal_error'')), db, [])
         | Inr old \<Rightarrow>
           if k_revoked old \<noteq> None then (Inl (409, ''already_revoked''), db, [])
           else
             (let created_by = (if i_label i = '''' then null_string (k_label old) else i_label i) in
              case mint_key cr io fr now i (k_scope old) (null_string (k_node old)) (null_string (k_label old)) created_by (k_expires old) db of
                (Inl e, db1) \<Rightarrow> (Inl (500, ''internal_error''), db1, [])
              | (Inr (raw, new, h), db1) \<Rightarrow>
                (case db_call (io Key_Revoke) (revoke_api_key now kid) db1 of
                   Inl e \<Rightarrow>
                     if e = No_Sql_Rows
                     then (Inr (bearer_prefix (k_scope old) @ raw, new, take 12 h), db1, [(''api_key.rotate'', new)])
                     else (Inl (500, ''internal_error''), db1, [])
                 | Inr db2 \<Rightarrow> (Inr (bearer_prefix (k_scope old) @ raw, new, take 12 h), db2, [(''api_key.rotate'', new)])))))"

section \<open>The command line\<close>

definition validate_bootstrap_password :: "string \<Rightarrow> bool" where
  "validate_bootstrap_password pw \<longleftrightarrow>
     length pw \<ge> 8 \<and> (\<exists>c \<in> set pw. lower_char c \<noteq> c) \<and> (\<exists>c \<in> set pw. upper_char c \<noteq> c) \<and> (\<exists>c \<in> set pw. is_digit c)"

text \<open>The flags, the environment, and what is typed at the prompts (\<open>None\<close> an error).\<close>

record bootstrap_args =
  ba_username :: string
  ba_password :: string
  ba_force :: bool
  ba_replace :: bool
  ba_bypass :: bool
  ba_env_username :: string
  ba_env_password :: string
  ba_typed_username :: "string option"
  ba_typed_password :: "string option"

datatype boot_call = Boot_Open | Boot_Count | Boot_Delete_All | Boot_Lookup | Boot_Delete | Boot_Hash | Boot_Create

datatype bootstrap_result = Admin_Created string | Nothing_Changed | Bootstrap_Failed

text \<open>The name, the password and whether the defaults are used; \<open>None\<close> is an error.\<close>

definition bootstrap_credentials :: "bootstrap_args \<Rightarrow> (string \<times> string \<times> bool) option" where
  "bootstrap_credentials a =
     (let name = (if ba_username a = '''' then ba_env_username a else ba_username a);
          pw = (if ba_password a = '''' then ba_env_password a else ba_password a)
      in if name = '''' \<and> pw = '''' then Some (''clustr'', ''clustr'', True)
         else
           (case (if name = '''' then map_option trim_space (ba_typed_username a) else Some name) of
              None \<Rightarrow> None
            | Some name \<Rightarrow>
              if name = '''' then None
              else
                (case (if pw = '''' then map_option trim_space (ba_typed_password a) else Some pw) of
                   None \<Rightarrow> None
                 | Some pw \<Rightarrow> Some (name, pw, False))))"

text \<open>
  The part of \<open>runBootstrapAdmin\<close> that removes users: a result that ends it, or the database. A user that cannot be looked up counts as absent.
\<close>

definition bootstrap_remove ::
  "(boot_call \<Rightarrow> bool) \<Rightarrow> bootstrap_args \<Rightarrow> string \<Rightarrow> bool \<Rightarrow> account_db \<Rightarrow> bootstrap_result + account_db" where
  "bootstrap_remove io a name defaults db =
     (if ba_force a then
        (if \<not> io Boot_Count then Inl Bootstrap_Failed
         else if ad_users db = [] then Inr db
         else (case db_call (io Boot_Delete_All) delete_all_users db of Inl e \<Rightarrow> Inl Bootstrap_Failed | Inr db' \<Rightarrow> Inr db'))
      else if ba_replace a then
        (case (if io Boot_Lookup then get_user_by_username db ''clustr'' else Inl Db_Failed) of
           Inl e \<Rightarrow> Inr db
         | Inr u \<Rightarrow>
           (case db_call (io Boot_Delete) (hard_delete_user (ac_id u)) db of Inl e \<Rightarrow> Inl Bootstrap_Failed | Inr db' \<Rightarrow> Inr db'))
      else
        (case (if io Boot_Lookup then get_user_by_username db name else Inl Db_Failed) of
           Inl e \<Rightarrow> Inr db
         | Inr u \<Rightarrow> Inl (if defaults then Nothing_Changed else Bootstrap_Failed)))"

definition run_bootstrap_admin ::
  "(boot_call \<Rightarrow> bool) \<Rightarrow> (string \<Rightarrow> string) \<Rightarrow> string \<Rightarrow> int \<Rightarrow> bootstrap_args \<Rightarrow> account_db \<Rightarrow>
   bootstrap_result \<times> account_db \<times> (string \<times> string) list" where
  "run_bootstrap_admin io hash_of uid now a db =
     (case bootstrap_credentials a of
        None \<Rightarrow> (Bootstrap_Failed, db, [])
      | Some (name, pw, defaults) \<Rightarrow>
        (let bypass = (ba_bypass a \<or> defaults) in
         if \<not> bypass \<and> \<not> validate_bootstrap_password pw then (Bootstrap_Failed, db, [])
         else if \<not> io Boot_Open then (Bootstrap_Failed, db, [])
         else
           (case bootstrap_remove io a name defaults db of
              Inl r \<Rightarrow> (r, db, [])
            | Inr db1 \<Rightarrow>
              if \<not> io Boot_Hash then (Bootstrap_Failed, db1, [])
              else
                (case db_call (io Boot_Create) (create_user \<lparr>ac_id = uid, ac_name = name, ac_hash = hash_of pw, ac_role = ''admin'',
                    ac_must_change = False, ac_created = now, ac_last_login = None, ac_disabled = None\<rparr>) db1 of
                   Inl e \<Rightarrow> (Bootstrap_Failed, db1, [])
                 | Inr db2 \<Rightarrow>
                   (Admin_Created uid, db2,
                    (''user.create'', uid) # (if bypass then [(''auth.bootstrap_admin.bypass_complexity'', uid)] else []))))))"

end
