(* ===== verification/Access_Safety.thy ===== *)
theory Access_Safety
  imports Access
begin

text \<open>
  What the session tokens and the gates guarantee: how long a session lasts, who passes the gates of the management routes and of the routes that act on
  a node, and how old the answer of the image cache can be.
\<close>

section \<open>Sessions\<close>

text \<open>
  The JSON of the payloads of one user and role reads back; of other payloads (a name that is not UTF-8) nothing is needed.
\<close>

definition payload_json :: "crypto \<Rightarrow> string \<Rightarrow> string \<Rightarrow> bool" where
  "payload_json cr user role \<longleftrightarrow>
     (\<forall>p. p_sub p = user \<and> p_role p = role \<longrightarrow>
        (case marshal_payload cr p of None \<Rightarrow> False | Some d \<Rightarrow> unmarshal_payload cr d = Some p))"

lemma split_two_dot: "split_two CHR ''.'' (b64_encode d @ ''.'' @ sig) = Some (b64_encode d, sig)"
  by (simp add: split_two_def)

lemma sign_validate:
  assumes "payload_json cr (p_sub p) (p_role p)" and "sign_session_token cr secret p = Some tok"
  shows "validate_session_token cr secret now tok =
    (if now > p_exp p then None else Some (p, now - p_slide p > session_slide_min))"
proof -
  from assms obtain d where d: "marshal_payload cr p = Some d" "unmarshal_payload cr d = Some p"
    by (auto simp: payload_json_def split: option.splits)
  with assms(2) have tok: "tok = b64_encode d @ ''.'' @ hmac_sign cr secret (b64_encode d)"
    by (simp add: sign_session_token_def Let_def)
  show ?thesis unfolding validate_session_token_def tok split_two_dot by (simp add: d)
qed

lemma sign_some:
  assumes "payload_json cr (p_sub p) (p_role p)"
  obtains tok where "sign_session_token cr secret p = Some tok" "tok \<noteq> ''''"
  using assms by (force simp: payload_json_def sign_session_token_def Let_def split: option.splits)

text \<open>
  A browser that sends its cookie with every request and keeps the one it is given. The requests have no other credentials; each comes with its time and
  the state of the key table.
\<close>

definition cookie_request :: "string option \<Rightarrow> http_request" where
  "cookie_request ck = \<lparr>rq_cookie = ck, rq_authorization = '''', rq_token = ''''\<rparr>"

fun browse :: "crypto \<Rightarrow> auth_conf \<Rightarrow> string option \<Rightarrow> (int \<times> key_db) list \<Rightarrow> (refusal + identity) list" where
  "browse cr c ck [] = []"
| "browse cr c ck ((t, db) # rs) =
     (let a = api_key_auth cr c db t (cookie_request ck) in
      a_result a #
        browse cr c (case a_cookie a of Keep_Cookie \<Rightarrow> ck | Set_Session tok e \<Rightarrow> Some tok | Clear_Session \<Rightarrow> None) rs)"

definition user_identity :: "string \<Rightarrow> string \<Rightarrow> identity" where
  "user_identity user role = anonymous\<lparr>i_scope := role_scope role, i_user := user, i_role := role\<rparr>"

lemma session_identity_user [simp]: "session_identity p = user_identity (p_sub p) (p_role p)"
  by (simp add: session_identity_def user_identity_def)

lemma auth_with_cookie:
  assumes "\<not> dev_mode c" and "session_secret c \<noteq> ''''" and "tok \<noteq> ''''"
    and "validate_session_token cr (session_secret c) t tok = Some (p, reissue)"
  shows "a_result (api_key_auth cr c db t (cookie_request (Some tok))) = Inr (user_identity (p_sub p) (p_role p))"
    and "\<not> reissue \<Longrightarrow> a_cookie (api_key_auth cr c db t (cookie_request (Some tok))) = Keep_Cookie"
    and "reissue \<Longrightarrow> sign_session_token cr (session_secret c) (slide_session_payload t p) = Some tok' \<Longrightarrow>
      a_cookie (api_key_auth cr c db t (cookie_request (Some tok))) = Set_Session tok' (t + session_ttl)"
  using assms by (simp_all add: api_key_auth_def cookie_request_def Let_def slide_session_payload_def)

lemma slide_fields [simp]:
  "p_sub (slide_session_payload t p) = p_sub p" "p_role (slide_session_payload t p) = p_role p"
  "p_slide (slide_session_payload t p) = t" "p_exp (slide_session_payload t p) = t + session_ttl"
  by (simp_all add: slide_session_payload_def)

text \<open>
  A token whose last use was at \<open>t0\<close>: it was issued at most half an hour before, and lasts twelve hours from then.
\<close>

definition fresh_token :: "crypto \<Rightarrow> string \<Rightarrow> string \<Rightarrow> string \<Rightarrow> int \<Rightarrow> string \<Rightarrow> bool" where
  "fresh_token cr secret user role t0 tok \<longleftrightarrow>
     (\<exists>p. sign_session_token cr secret p = Some tok \<and> p_sub p = user \<and> p_role p = role \<and>
        p_exp p = p_slide p + session_ttl \<and> t0 - session_slide_min \<le> p_slide p \<and> p_slide p \<le> t0)"

definition max_gap :: int where "max_gap = session_ttl - session_slide_min"

lemma browse_fresh:
  assumes "payload_json cr user role" and "\<not> dev_mode c" and "session_secret c \<noteq> ''''"
    and "fresh_token cr (session_secret c) user role t0 tok"
    and "successively (\<lambda>a b. a \<le> b \<and> b \<le> a + max_gap) (t0 # map fst rs)"
  shows "browse cr c (Some tok) rs = map (\<lambda>_. Inr (user_identity user role)) rs"
  using assms(4,5)
proof (induction rs arbitrary: t0 tok)
  case Nil
  then show ?case by simp
next
  case (Cons r rs)
  obtain t db where r: "r = (t, db)" by (cases r)
  from Cons.prems(1) obtain p where p: "sign_session_token cr (session_secret c) p = Some tok" "p_sub p = user" "p_role p = role"
    "p_exp p = p_slide p + session_ttl" "t0 - session_slide_min \<le> p_slide p" "p_slide p \<le> t0"
    by (auto simp: fresh_token_def)
  have tok: "tok \<noteq> ''''" using p(1) by (auto simp: sign_session_token_def Let_def split: option.splits)
  have t: "t0 \<le> t" "t \<le> t0 + max_gap" and rest: "successively (\<lambda>a b. a \<le> b \<and> b \<le> a + max_gap) (t # map fst rs)"
    using Cons.prems(2) by (simp_all add: r)
  have "t \<le> p_exp p" using t p(4,5) by (simp add: max_gap_def)
  with sign_validate [of cr p "session_secret c" tok t] p assms(1)
  have val: "validate_session_token cr (session_secret c) t tok = Some (p, t - p_slide p > session_slide_min)" by simp
  note auth = auth_with_cookie [OF assms(2,3) tok val]
  show ?case
  proof (cases "t - p_slide p > session_slide_min")
    case False
    then have "fresh_token cr (session_secret c) user role t tok"
      unfolding fresh_token_def using p t(1) by (intro exI [of _ p]) simp
    from Cons.IH [OF this rest] auth(1,2) False p(2,3) show ?thesis by (simp add: r Let_def)
  next
    case True
    obtain tok' where tok': "sign_session_token cr (session_secret c) (slide_session_payload t p) = Some tok'"
      using sign_some [of cr "slide_session_payload t p" "session_secret c"] assms(1) p(2,3) by auto
    have "fresh_token cr (session_secret c) user role t tok'"
      unfolding fresh_token_def using p tok' by (intro exI [of _ "slide_session_payload t p"]) (simp add: session_slide_min_def)
    from Cons.IH [OF this rest] auth(1) auth(3) [OF True tok'] p(2,3) show ?thesis by (simp add: r Let_def)
  qed
qed

text \<open>
  C29. A session that is used at least every eleven and a half hours never ends: every request of it, whatever the key table holds by then, has the
  user and the role that were right when the user logged in. The table of users is not read.
\<close>

theorem session_outlives:
  assumes "payload_json cr user role" and "\<not> dev_mode c" and "session_secret c \<noteq> ''''"
    and "sign_session_token cr (session_secret c) (new_session_payload t0 user role) = Some tok"
    and "successively (\<lambda>a b. a \<le> b \<and> b \<le> a + (session_ttl - session_slide_min)) (t0 # map fst rs)"
  shows "browse cr c (Some tok) rs = map (\<lambda>_. Inr (user_identity user role)) rs"
proof (rule browse_fresh [OF assms(1-3), of t0])
  show "fresh_token cr (session_secret c) user role t0 tok"
    unfolding fresh_token_def using assms(4)
    by (intro exI [of _ "new_session_payload t0 user role"]) (simp add: new_session_payload_def session_slide_min_def)
  show "successively (\<lambda>a b. a \<le> b \<and> b \<le> a + max_gap) (t0 # map fst rs)"
    using assms(5) by (simp add: max_gap_def)
qed


text \<open>A concrete instance: the fields of a payload, separated by commas.\<close>

definition read_int :: "string \<Rightarrow> int" where
  "read_int s = (case s of [] \<Rightarrow> 0 | c # ds \<Rightarrow> if c = CHR ''-'' then - int (digits_val ds) else int (digits_val s))"

definition example_crypto :: crypto where
  "example_crypto = \<lparr>hmac_sign = (\<lambda>k d. k @ d), sha256_hex = (\<lambda>s. ''h'' @ s),
     marshal_payload = (\<lambda>p. Some (join '','' [p_sub p, p_role p, dec_int (p_iat p), dec_int (p_exp p), dec_int (p_slide p)])),
     unmarshal_payload = (\<lambda>d. case split_on CHR '','' d of
        [s, r, i, e, sl] \<Rightarrow> Some \<lparr>p_sub = s, p_role = r, p_iat = read_int i, p_exp = read_int e, p_slide = read_int sl\<rparr> | _ \<Rightarrow> None)\<rparr>"

lemma read_dec_int [simp]: "read_int (dec_int i) = i"
proof (cases "i < 0")
  case True
  then show ?thesis by (simp add: read_int_def dec_int_def)
next
  case False
  obtain c ds where d: "dec_nat (nat i) = c # ds" using dec_nat_nonempty by (cases "dec_nat (nat i)") auto
  moreover have "c \<noteq> CHR ''-''" using dec_nat_digits [of "nat i"] by (auto simp: d dest: is_digit_not_sign)
  moreover have "digits_val (c # ds) = nat i" using d digits_val_dec_nat [of "nat i"] by simp
  ultimately show ?thesis using False by (simp add: read_int_def dec_int_def)
qed

lemma dec_int_no_comma: "CHR '','' \<notin> set (dec_int i)"
proof -
  have "CHR '','' \<notin> set (dec_nat n)" for n
    using dec_nat_digits [of n] by (auto simp: list_all_iff is_digit_def)
  then show ?thesis by (simp add: dec_int_def)
qed

lemma example_json:
  assumes "CHR '','' \<notin> set user" and "CHR '','' \<notin> set role"
  shows "payload_json example_crypto user role"
proof -
  have "split_on CHR '','' (join '','' [user, role, dec_int i, dec_int e, dec_int s]) = [user, role, dec_int i, dec_int e, dec_int s]"
    for i e s
    by (rule split_on_join) (simp_all add: assms dec_int_no_comma)
  then show ?thesis by (simp add: payload_json_def example_crypto_def del: join.simps)
qed

definition example_conf :: auth_conf where
  "example_conf = \<lparr>dev_mode = False, session_secret = ''k''\<rparr>"

definition example_token :: string where
  "example_token = the (sign_session_token example_crypto ''k'' (new_session_payload 0 ''u1'' ''admin''))"

lemma session_outlives_witness:
  "browse example_crypto example_conf (Some example_token)
     [(40000, \<lparr>kd_keys = [], kd_ok = True\<rparr>), (80000, \<lparr>kd_keys = [], kd_ok = False\<rparr>)] =
   [Inr (user_identity ''u1'' ''admin''), Inr (user_identity ''u1'' ''admin'')]"
proof -
  have json: "payload_json example_crypto ''u1'' ''admin''" by (rule example_json) simp_all
  then obtain tok where "sign_session_token example_crypto ''k'' (new_session_payload 0 ''u1'' ''admin'') = Some tok"
    using sign_some [of example_crypto "new_session_payload 0 ''u1'' ''admin''" "''k''"] by (auto simp: new_session_payload_def)
  then have "sign_session_token example_crypto (session_secret example_conf) (new_session_payload 0 ''u1'' ''admin'') = Some example_token"
    by (simp add: example_token_def example_conf_def)
  from session_outlives [OF json _ _ this, of "[(40000, \<lparr>kd_keys = [], kd_ok = True\<rparr>), (80000, \<lparr>kd_keys = [], kd_ok = False\<rparr>)]"]
  show ?thesis by (simp add: example_conf_def session_ttl_def session_slide_min_def del: browse.simps)
qed

text \<open>A session that has not been used for twelve hours is refused.\<close>

lemma session_idle_ends:
  assumes "payload_json cr (p_sub p) (p_role p)" and "sign_session_token cr secret p = Some tok"
    and "p_exp p = p_slide p + session_ttl" and "p_slide p + session_ttl < t"
  shows "validate_session_token cr secret t tok = None"
  using sign_validate [OF assms(1,2)] assms(3,4) by simp

section \<open>Who passes\<close>

definition session_of :: "crypto \<Rightarrow> auth_conf \<Rightarrow> int \<Rightarrow> http_request \<Rightarrow> session_payload option" where
  "session_of cr c now rq =
     (case rq_cookie rq of
        None \<Rightarrow> None
      | Some v \<Rightarrow>
        if session_secret c = '''' \<or> v = '''' then None else map_option fst (validate_session_token cr (session_secret c) now v))"

definition key_live :: "int \<Rightarrow> key_row \<Rightarrow> bool" where
  "key_live now k \<longleftrightarrow> k_revoked k = None \<and> (case k_expires k of None \<Rightarrow> True | Some e \<Rightarrow> now \<le> e)"

definition key_of :: "crypto \<Rightarrow> key_db \<Rightarrow> int \<Rightarrow> http_request \<Rightarrow> key_row option" where
  "key_of cr db now rq =
     (let raw = extract_bearer_token rq in
      if raw = '''' \<or> \<not> kd_ok db then None
      else
        (case find (\<lambda>k. k_hash k = sha256_hex cr (strip_key_prefix raw)) (kd_keys db) of
           None \<Rightarrow> None
         | Some k \<Rightarrow> if key_live now k then Some k else None))"

definition key_row_identity :: "key_row \<Rightarrow> identity" where
  "key_row_identity k =
     anonymous\<lparr>i_scope := k_scope k, i_node := null_string (k_node k), i_key := k_id k, i_label := null_string (k_label k)\<rparr>"

lemma bearer_result:
  "(\<exists>i. a_result (bearer_auth cr db now rq ck) = Inr i \<and> P i) \<longleftrightarrow>
    (extract_bearer_token rq = '''' \<and> P anonymous) \<or> (\<exists>k. key_of cr db now rq = Some k \<and> P (key_row_identity k))"
  by (auto simp: bearer_auth_def key_of_def lookup_api_key_def key_live_def key_identity_def key_row_identity_def Let_def
      split: option.splits)

lemma gated_None: "gated gs a = None \<longleftrightarrow> (\<exists>i. a_result a = Inr i \<and> run_gates gs i = None)"
  by (auto simp: gated_def split: sum.splits)

lemma auth_session:
  "\<not> dev_mode c \<Longrightarrow> session_of cr c now rq = Some p \<Longrightarrow>
    a_result (api_key_auth cr c db now rq) = Inr (user_identity (p_sub p) (p_role p))"
  by (auto simp: session_of_def api_key_auth_def Let_def split: option.splits if_splits)

lemma auth_no_session:
  "\<not> dev_mode c \<Longrightarrow> session_of cr c now rq = None \<Longrightarrow>
    \<exists>ck. api_key_auth cr c db now rq = bearer_auth cr db now rq ck"
  by (auto simp: session_of_def api_key_auth_def Let_def split: option.splits if_splits)

lemma gated_auth:
  assumes "run_gates gs anonymous \<noteq> None" and "run_gates gs (anonymous\<lparr>i_scope := ''admin''\<rparr>) = None"
  shows "gated gs (api_key_auth cr c db now rq) = None \<longleftrightarrow> dev_mode c \<or>
    (case session_of cr c now rq of
       Some p \<Rightarrow> run_gates gs (user_identity (p_sub p) (p_role p)) = None
     | None \<Rightarrow> \<exists>k. key_of cr db now rq = Some k \<and> run_gates gs (key_row_identity k) = None)"
proof (cases "dev_mode c")
  case True
  then show ?thesis using assms(2) by (simp add: gated_None api_key_auth_def)
next
  case dev: False
  show ?thesis
  proof (cases "session_of cr c now rq")
    case None
    from auth_no_session [OF dev this, of db] obtain ck where "api_key_auth cr c db now rq = bearer_auth cr db now rq ck" by blast
    then show ?thesis using dev None assms(1) by (auto simp: gated_None bearer_result)
  next
    case (Some p)
    from auth_session [OF dev this, of db] show ?thesis using dev Some by (simp add: gated_None)
  qed
qed

lemma identity_fields [simp]:
  "i_scope (user_identity u r) = role_scope r" "i_user (user_identity u r) = u" "i_role (user_identity u r) = r"
  "i_node (user_identity u r) = ''''"
  "i_scope (key_row_identity k) = k_scope k" "i_user (key_row_identity k) = ''''" "i_role (key_row_identity k) = ''''"
  "i_node (key_row_identity k) = null_string (k_node k)"
  "i_scope anonymous = ''''" "i_user anonymous = ''''" "i_role anonymous = ''''" "i_node anonymous = ''''"
  by (simp_all add: user_identity_def key_row_identity_def anonymous_def)

definition limited_roles :: "string set" where
  "limited_roles = {''operator'', ''readonly'', ''viewer'', ''pi'', ''director''}"

lemma role_scope_eq [simp]:
  "role_scope r \<noteq> ''''" "role_scope r \<noteq> ''node''" "role_scope r = ''admin'' \<longleftrightarrow> r \<notin> limited_roles"
  "role_scope r = ''operator'' \<longleftrightarrow> r = ''operator''" "role_scope r = ''readonly'' \<longleftrightarrow> r = ''readonly''"
  "role_scope r = ''pi'' \<longleftrightarrow> r = ''pi''" "role_scope r = ''viewer'' \<longleftrightarrow> r = ''viewer''" "role_scope r = ''director'' \<longleftrightarrow> r = ''director''"
  by (auto simp: role_scope_def limited_roles_def)

lemma role_scope_known: "role_scope r \<in> {''admin'', ''operator'', ''node'', ''readonly'', ''viewer'', ''pi'', ''director''}"
  by (auto simp: role_scope_def)

lemma require_scope_user:
  "require_scope b (user_identity u r) = (if b \<and> r \<in> limited_roles \<and> r \<noteq> ''operator'' then Some Forbidden else None)"
  using role_scope_known [of r] by (auto simp: require_scope_def limited_roles_def)

lemma require_scope_key:
  "require_scope True (key_row_identity k) = None \<longleftrightarrow> k_scope k = ''admin'' \<or> k_scope k = ''operator''"
  by (simp add: require_scope_def)

lemma run_gates_pass: "run_gates gs i = None \<longleftrightarrow> (\<forall>g \<in> set gs. g i = None)"
  by (induction gs) (auto split: option.splits)

text \<open>
  C25. The routes for keys and users let a request through in development mode; else, when it has a valid session, exactly for the role admin (or
  none), whatever key comes with it; and without a session exactly for a key of scope admin that is neither revoked nor past its end.
\<close>

theorem admin_route_exact:
  "gated admin_gates (api_key_auth cr c db now rq) = None \<longleftrightarrow> dev_mode c \<or>
    (case session_of cr c now rq of
       Some p \<Rightarrow> p_role p \<in> {''admin'', ''''}
     | None \<Rightarrow> \<exists>k. key_of cr db now rq = Some k \<and> k_scope k = ''admin'')"
proof -
  have user: "run_gates admin_gates (user_identity u r) = None \<longleftrightarrow> r \<in> {''admin'', ''''}" for u r
    by (simp add: run_gates_pass admin_gates_def require_scope_user require_role_def role_rank_def limited_roles_def del: run_gates.simps)
  have key: "run_gates admin_gates (key_row_identity k) = None \<longleftrightarrow> k_scope k = ''admin''" for k
    by (auto simp: run_gates_pass admin_gates_def require_scope_key require_role_def simp del: run_gates.simps)
  have none: "run_gates admin_gates anonymous \<noteq> None"
    by (simp add: admin_gates_def require_scope_def)
  have dev: "run_gates admin_gates (anonymous\<lparr>i_scope := ''admin''\<rparr>) = None"
    by (simp add: admin_gates_def require_scope_def require_role_def)
  show ?thesis unfolding gated_auth [OF none dev] user key ..
qed

text \<open>Each node has one primary group at most, which the index of the table keeps and each operation on it too.\<close>

definition members_ok :: "node_member list \<Rightarrow> bool" where
  "members_ok ms \<longleftrightarrow> distinct (map (\<lambda>m. (nm_node m, nm_group m)) ms) \<and> distinct (map nm_node (filter nm_primary ms))"

definition primary_group :: "node_member list \<Rightarrow> string \<Rightarrow> string \<Rightarrow> bool" where
  "primary_group ms node g \<longleftrightarrow> (\<exists>m \<in> set ms. nm_node m = node \<and> nm_primary m \<and> nm_group m = g)"

lemma primary_unique:
  assumes "members_ok ms" and "primary_group ms node g" and "primary_group ms node g'"
  shows "g = g'"
proof -
  from assms(2,3) obtain m m' where m: "m \<in> set (filter nm_primary ms)" "m' \<in> set (filter nm_primary ms)"
    "nm_node m = nm_node m'" "nm_group m = g" "nm_group m' = g'"
    by (auto simp: primary_group_def)
  moreover have "inj_on nm_node (set (filter nm_primary ms))" using assms(1) by (simp add: members_ok_def distinct_map)
  ultimately have "m = m'" by (meson inj_onD)
  with m show ?thesis by simp
qed

lemma get_group_id:
  assumes "members_ok (gd_nodes db)"
  shows "get_group_id_for_node db node = Some g \<and> g \<noteq> '''' \<longleftrightarrow> gd_node_ok db \<and> g \<noteq> '''' \<and> primary_group (gd_nodes db) node g"
proof (cases "find (\<lambda>m. nm_node m = node \<and> nm_primary m) (gd_nodes db)")
  case None
  then have "\<not> primary_group (gd_nodes db) node g" by (auto simp: primary_group_def find_None_iff)
  with None show ?thesis by (auto simp: get_group_id_for_node_def)
next
  case (Some m)
  then have "primary_group (gd_nodes db) node (nm_group m)" by (auto simp: find_Some_iff primary_group_def)
  then have "primary_group (gd_nodes db) node g \<longleftrightarrow> g = nm_group m" using primary_unique [OF assms] by blast
  with Some show ?thesis by (auto simp: get_group_id_for_node_def)
qed

lemma require_group_access_user:
  assumes "members_ok (gd_nodes db)"
  shows "require_group_access db node (user_identity u r) = None \<longleftrightarrow> r \<notin> limited_roles \<or>
    (r = ''operator'' \<and> u \<noteq> '''' \<and> node \<noteq> '''' \<and> gd_node_ok db \<and> gd_operator_ok db \<and>
     (\<exists>g. g \<noteq> '''' \<and> primary_group (gd_nodes db) node g \<and> (u, g) \<in> set (gd_operators db)))"
proof (cases "r = ''operator''")
  case False
  then show ?thesis by (auto simp: require_group_access_def limited_roles_def)
next
  case True
  have member: "user_has_group_access db u g = Some True \<longleftrightarrow> gd_operator_ok db \<and> (u, g) \<in> set (gd_operators db)" for g
    by (auto simp: user_has_group_access_def filter_empty_conv)
  have "require_group_access db node (user_identity u r) = None \<longleftrightarrow> u \<noteq> '''' \<and> node \<noteq> '''' \<and>
    (\<exists>g. (get_group_id_for_node db node = Some g \<and> g \<noteq> '''') \<and> user_has_group_access db u g = Some True)"
    using True by (auto simp: require_group_access_def limited_roles_def split: option.splits)
  also have "\<dots> \<longleftrightarrow> u \<noteq> '''' \<and> node \<noteq> '''' \<and> (\<exists>g. (gd_node_ok db \<and> g \<noteq> '''' \<and> primary_group (gd_nodes db) node g) \<and>
    gd_operator_ok db \<and> (u, g) \<in> set (gd_operators db))"
    unfolding get_group_id [OF assms] member ..
  finally show ?thesis using True by (auto simp: limited_roles_def)
qed




text \<open>The operations on memberships keep the tables in order.\<close>

lemma clear_primary_keys [simp]: "map (\<lambda>m. (nm_node m, nm_group m)) (clear_primary node ms) = map (\<lambda>m. (nm_node m, nm_group m)) ms"
  by (simp add: clear_primary_def)

lemma mark_primary_keys [simp]: "map (\<lambda>m. (nm_node m, nm_group m)) (mark_primary node g ms) = map (\<lambda>m. (nm_node m, nm_group m)) ms"
  by (simp add: mark_primary_def)

lemma clear_primary_nodes:
  "map nm_node (filter nm_primary (clear_primary node ms)) = filter (\<lambda>n. n \<noteq> node) (map nm_node (filter nm_primary ms))"
  by (induction ms) (simp_all add: clear_primary_def)

lemma mark_primary_absent:
  "(node, g) \<notin> set (map (\<lambda>m. (nm_node m, nm_group m)) ms) \<Longrightarrow> mark_primary node g ms = ms"
  by (induction ms) (auto simp: mark_primary_def)

lemma mark_primary_nodes:
  assumes "distinct (map (\<lambda>m. (nm_node m, nm_group m)) ms)" and "distinct (map nm_node (filter nm_primary ms))"
    and "node \<notin> set (map nm_node (filter nm_primary ms))"
  shows "distinct (map nm_node (filter nm_primary (mark_primary node g ms)))"
  using assms
proof (induction ms)
  case Nil
  then show ?case by (simp add: mark_primary_def)
next
  case (Cons m ms)
  have step: "mark_primary node g (m # ms) =
      (if nm_node m = node \<and> nm_group m = g then m\<lparr>nm_primary := True\<rparr> else m) # mark_primary node g ms"
    by (simp add: mark_primary_def)
  show ?case
  proof (cases "nm_node m = node \<and> nm_group m = g")
    case True
    then have "(node, g) \<notin> set (map (\<lambda>m. (nm_node m, nm_group m)) ms)" using Cons.prems(1) by auto
    from mark_primary_absent [OF this] True Cons.prems step show ?thesis by (auto split: if_splits)
  next
    case False
    have "distinct (map nm_node (filter nm_primary (mark_primary node g ms)))"
      using Cons.IH Cons.prems by (auto split: if_splits)
    moreover have "nm_node m \<notin> nm_node ` set (filter nm_primary (mark_primary node g ms))" if "nm_primary m"
    proof -
      have "nm_node ` set (filter nm_primary (mark_primary node g ms)) \<subseteq> insert node (nm_node ` set (filter nm_primary ms))"
        by (auto simp: mark_primary_def split: if_splits)
      moreover have "nm_node m \<noteq> node" "nm_node m \<notin> nm_node ` set (filter nm_primary ms)"
        using Cons.prems(2,3) that by auto
      ultimately show ?thesis by blast
    qed
    moreover have "mark_primary node g (m # ms) = m # mark_primary node g ms" using False step by auto
    ultimately show ?thesis by simp
  qed
qed

lemma members_kept:
  assumes "members_ok ms"
  shows "members_ok (add_group_member g node ms)" "members_ok (remove_group_member g node ms)"
    "assign_node_to_group node g ms = Some ms' \<Longrightarrow> members_ok ms'"
proof -
  have clear: "members_ok (clear_primary node ms)"
    using assms by (simp add: members_ok_def clear_primary_nodes distinct_filter)
  have mark: "members_ok (mark_primary node g ns)" if "members_ok ns" "node \<notin> set (map nm_node (filter nm_primary ns))" for ns
    using that mark_primary_nodes [of ns node g] by (simp add: members_ok_def)
  show "members_ok ms'" if "assign_node_to_group node g ms = Some ms'"
    using that clear mark [OF clear]
    by (auto simp: assign_node_to_group_def set_primary_group_member_def clear_primary_nodes split: if_splits)
  show "members_ok (remove_group_member g node ms)"
    using assms by (auto simp: members_ok_def remove_group_member_def distinct_map filter_filter intro: inj_on_subset)
  define ns where "ns = (if \<exists>m \<in> set ms. nm_node m = node \<and> nm_group m = g then ms
      else ms @ [\<lparr>nm_node = node, nm_group = g, nm_primary = False\<rparr>])"
  have ns: "members_ok ns" using assms by (auto simp: members_ok_def ns_def)
  have "members_ok (mark_primary node g ns)" if "filter (\<lambda>m. nm_node m = node \<and> nm_primary m) ns = []"
  proof (rule mark [OF ns])
    show "node \<notin> set (map nm_node (filter nm_primary ns))" using that by (auto simp: filter_empty_conv)
  qed
  with ns show "members_ok (add_group_member g node ms)"
    unfolding add_group_member_def Let_def ns_def [symmetric] by simp
qed

section \<open>The decision that is logged\<close>

text \<open>The logged decision of the roles is that of the check that permissions are tested with, for a verb without a star.\<close>

lemma decision_parity:
  "CHR ''*'' \<notin> set verb \<Longrightarrow> fst (rbac_decision res verb) = ''allow'' \<longleftrightarrow> allow res verb"
  by (auto simp: rbac_decision_def allow_def split: option.splits)

lemma rbac_gate_is_role_gate: "snd (require_role_rbac dec db minimum verb i) = require_role minimum i"
  by (simp add: require_role_rbac_def require_role_def)

text \<open>A session of the role admin passes every permission gate without its roles being looked up.\<close>

lemma admin_session_unresolved: "require_permission dec db verb (user_identity u ''admin'') = None"
  by (simp add: require_permission_def limited_roles_def)

text \<open>An admin key passes the gate of the reports of a node, and a director ranks below a reader.\<close>

lemma admin_key_owns_every_node: "k_scope k = ''admin'' \<Longrightarrow> require_node_ownership node (key_row_identity k) = None"
  by (simp add: require_node_ownership_def)

lemma director_below_readonly: "require_role ''readonly'' (user_identity u ''director'') = Some Forbidden"
  by (simp add: require_role_def role_rank_def)

text \<open>The viewer routes take a key of a node, the routes of principal investigators do not.\<close>

lemma node_key_portal:
  assumes "k_scope k = ''node''"
  shows "require_viewer (key_row_identity k) = None" "require_pi (key_row_identity k) = Some Forbidden"
  using assms by (simp_all add: require_viewer_def require_pi_def)


section \<open>The cache of image access\<close>

text \<open>
  Requests of nodes for images, with their times; \<open>assigned t n\<close> is what the database answers at time \<open>t\<close> for node \<open>n\<close>. The result lists each
  request with its answer.
\<close>

definition node_identity :: "string \<Rightarrow> identity" where
  "node_identity n = anonymous\<lparr>i_scope := ''node'', i_node := n\<rparr>"

fun image_run ::
  "(int \<Rightarrow> string \<Rightarrow> string option) \<Rightarrow> image_cache \<Rightarrow> (int \<times> string \<times> string) list \<Rightarrow> (int \<times> string \<times> string \<times> refusal option) list" where
  "image_run assigned cache [] = []"
| "image_run assigned cache ((t, n, img) # rs) =
     (let (r, cache') = require_image_access (assigned t) t img (node_identity n) cache in
      (t, n, img, r) # image_run assigned cache' rs)"

definition cache_ok :: "(int \<Rightarrow> string \<Rightarrow> string option) \<Rightarrow> int \<Rightarrow> image_cache \<Rightarrow> bool" where
  "cache_ok assigned t cache \<longleftrightarrow>
     (\<forall>n img e. CHR '':'' \<notin> set n \<and> cache (n @ '':'' @ img) = Some e \<longrightarrow>
        (\<exists>t' base. t' \<le> t \<and> e_expires e = t' + image_access_cache_ttl \<and> assigned t' n = Some base \<and>
           e_allowed e = (base \<noteq> '''' \<and> base = img)))"

lemma cache_key_inj:
  assumes "CHR '':'' \<notin> set n" and "CHR '':'' \<notin> set n'" and "n @ '':'' @ img = n' @ '':'' @ img'"
  shows "n = n' \<and> img = img'"
proof -
  have split: "split_two CHR '':'' (n @ '':'' @ img) = Some (n, img)" if "CHR '':'' \<notin> set n" for n img
    using that by (simp add: split_two_def)
  have "Some (n, img) = split_two CHR '':'' (n @ '':'' @ img)" by (rule split [OF assms(1), symmetric])
  also have "\<dots> = split_two CHR '':'' (n' @ '':'' @ img')" by (simp only: assms(3))
  also have "\<dots> = Some (n', img')" by (rule split [OF assms(2)])
  finally show ?thesis by simp
qed

lemma cache_ok_later: "cache_ok assigned t cache \<Longrightarrow> t \<le> t' \<Longrightarrow> cache_ok assigned t' cache"
  unfolding cache_ok_def by (meson order_trans)

lemma cache_ok_drop: "cache_ok assigned t cache \<Longrightarrow> cache_ok assigned t (cache(k := None))"
  by (simp add: cache_ok_def)

lemma cache_ok_store:
  assumes "cache_ok assigned t cache" and "CHR '':'' \<notin> set n" and "assigned t n = Some base"
  shows "cache_ok assigned t
    (cache(n @ '':'' @ img \<mapsto> \<lparr>e_allowed = (base \<noteq> '''' \<and> base = img), e_expires = t + image_access_cache_ttl\<rparr>))"
  unfolding cache_ok_def
proof (intro allI impI)
  fix n' img' e
  assume e: "CHR '':'' \<notin> set n' \<and> (cache(n @ '':'' @ img \<mapsto>
    \<lparr>e_allowed = (base \<noteq> '''' \<and> base = img), e_expires = t + image_access_cache_ttl\<rparr>)) (n' @ '':'' @ img') = Some e"
  show "\<exists>t' base. t' \<le> t \<and> e_expires e = t' + image_access_cache_ttl \<and> assigned t' n' = Some base \<and>
    e_allowed e = (base \<noteq> '''' \<and> base = img')"
  proof (cases "n' @ '':'' @ img' = n @ '':'' @ img")
    case True
    with e cache_key_inj [OF _ assms(2) this] have "n' = n \<and> img' = img" by blast
    with e assms(3) show ?thesis by (intro exI [of _ t] exI [of _ base]) auto
  next
    case False
    then have "cache (n' @ '':'' @ img') = Some e" using conjunct2 [OF e] by (simp only: fun_upd_apply if_False)
    with e assms(1) show ?thesis unfolding cache_ok_def by blast
  qed
qed

text \<open>One request: the cache stays in order and the answer is that of a moment of the last minute.\<close>

definition answer_of :: "(int \<Rightarrow> string \<Rightarrow> string option) \<Rightarrow> int \<Rightarrow> string \<Rightarrow> string \<Rightarrow> refusal option \<Rightarrow> bool" where
  "answer_of assigned t n img r \<longleftrightarrow>
     (case assigned t n of
        None \<Rightarrow> r = Some Internal_Error
      | Some base \<Rightarrow> r = (if base \<noteq> '''' \<and> base = img then None else Some Forbidden))"

lemma access_hit:
  assumes "n \<noteq> ''''" and "cache (n @ '':'' @ img) = Some e" and "t < e_expires e"
  shows "require_image_access asg t img (node_identity n) cache = ((if e_allowed e then None else Some Forbidden), cache)"
  using assms by (simp add: require_image_access_def node_identity_def Let_def)

lemma access_miss:
  assumes "n \<noteq> ''''" and "\<And>e. cache (n @ '':'' @ img) = Some e \<Longrightarrow> e_expires e \<le> t"
  shows "require_image_access asg t img (node_identity n) cache =
    (case asg n of
       None \<Rightarrow> (Some Internal_Error, cache(n @ '':'' @ img := None))
     | Some base \<Rightarrow> ((if base \<noteq> '''' \<and> base = img then None else Some Forbidden),
         cache(n @ '':'' @ img \<mapsto> \<lparr>e_allowed = (base \<noteq> '''' \<and> base = img), e_expires = t + image_access_cache_ttl\<rparr>)))"
proof (cases "cache (n @ '':'' @ img)")
  case None
  then have "cache(n @ '':'' @ img := None) = cache" by (simp add: fun_upd_idem)
  with None assms(1) show ?thesis by (simp add: require_image_access_def node_identity_def Let_def split: option.split)
next
  case (Some e)
  with assms(2) have "\<not> t < e_expires e" by force
  with Some assms(1) show ?thesis by (simp add: require_image_access_def node_identity_def Let_def split: option.split)
qed

lemma image_request:
  assumes "cache_ok assigned t cache" and "CHR '':'' \<notin> set n" and "n \<noteq> ''''"
    and "require_image_access (assigned t) t img (node_identity n) cache = (r, cache')"
  shows "cache_ok assigned t cache' \<and> (\<exists>t'. t - image_access_cache_ttl < t' \<and> t' \<le> t \<and> answer_of assigned t' n img r)"
proof (cases "\<exists>e. cache (n @ '':'' @ img) = Some e \<and> t < e_expires e")
  case True
  then obtain e where e: "cache (n @ '':'' @ img) = Some e" "t < e_expires e" by blast
  with assms(1,2) obtain t' base where t': "t' \<le> t" "e_expires e = t' + image_access_cache_ttl" "assigned t' n = Some base"
    "e_allowed e = (base \<noteq> '''' \<and> base = img)"
    unfolding cache_ok_def by blast
  from access_hit [where asg = "assigned t" and n = n and img = img and cache = cache and e = e and t = t, OF assms(3) e] assms(4)
  have "r = (if e_allowed e then None else Some Forbidden)" "cache' = cache" by simp_all
  moreover have "answer_of assigned t' n img (if e_allowed e then None else Some Forbidden)"
    by (simp add: answer_of_def t'(3,4))
  ultimately show ?thesis using assms(1) t'(1,2) e(2) by (intro conjI exI [of _ t']) simp_all
next
  case False
  then have miss: "e_expires e \<le> t" if "cache (n @ '':'' @ img) = Some e" for e using that by force
  note out = access_miss [where asg = "assigned t" and n = n and img = img and cache = cache and t = t, OF assms(3) miss] assms(4)
  have "cache_ok assigned t cache' \<and> answer_of assigned t n img r"
  proof (cases "assigned t n")
    case None
    then have "r = Some Internal_Error" "cache' = cache(n @ '':'' @ img := None)" using out by simp_all
    with None cache_ok_drop [OF assms(1)] show ?thesis by (simp add: answer_of_def)
  next
    case (Some base)
    then have "r = (if base \<noteq> '''' \<and> base = img then None else Some Forbidden)"
      "cache' = cache(n @ '':'' @ img \<mapsto> \<lparr>e_allowed = (base \<noteq> '''' \<and> base = img), e_expires = t + image_access_cache_ttl\<rparr>)"
      using out by simp_all
    with Some cache_ok_store [OF assms(1,2) Some] show ?thesis by (simp add: answer_of_def)
  qed
  then show ?thesis by (intro conjI exI [of _ t]) (simp_all add: image_access_cache_ttl_def)
qed

text \<open>
  C30. Whatever the nodes are assigned and when they ask, each answer to a node is the one the database would have given at some moment of the last
  minute: a node that is given an image was assigned it then, and one that is refused was not.
\<close>

theorem image_access_fresh:
  assumes "sorted (map fst rs)" and "\<forall>(t, n, img) \<in> set rs. n \<noteq> '''' \<and> CHR '':'' \<notin> set n"
    and "(t, n, img, r) \<in> set (image_run assigned (\<lambda>_. None) rs)"
  shows "\<exists>t'. t - 60 < t' \<and> t' \<le> t \<and> answer_of assigned t' n img r"
proof -
  have "\<exists>t'. t - image_access_cache_ttl < t' \<and> t' \<le> t \<and> answer_of assigned t' n img r"
    if "cache_ok assigned t0 cache" "sorted (t0 # map fst rs)" "\<forall>(t, n, img) \<in> set rs. n \<noteq> '''' \<and> CHR '':'' \<notin> set n"
      "(t, n, img, r) \<in> set (image_run assigned cache rs)" for t0 cache rs
    using that
  proof (induction rs arbitrary: t0 cache)
    case Nil
    then show ?case by simp
  next
    case (Cons q rs)
    obtain s m g where q: "q = (s, m, g)" by (cases q) auto
    obtain r' cache' where one: "require_image_access (assigned s) s g (node_identity m) cache = (r', cache')" by fastforce
    have "cache_ok assigned s cache" using cache_ok_later [OF Cons.prems(1)] Cons.prems(2) by (simp add: q)
    moreover have "CHR '':'' \<notin> set m" "m \<noteq> ''''" using Cons.prems(3) by (simp_all add: q)
    ultimately have step: "cache_ok assigned s cache'"
      "\<exists>t'. s - image_access_cache_ttl < t' \<and> t' \<le> s \<and> answer_of assigned t' m g r'"
      using image_request [where assigned = assigned and t = s and n = m and img = g and cache = cache and r = r' and cache' = cache'] one
      by blast+
    show ?case
    proof (cases "(t, n, img, r) = (s, m, g, r')")
      case True
      with step(2) show ?thesis by simp
    next
      case False
      then have "(t, n, img, r) \<in> set (image_run assigned cache' rs)" using Cons.prems(4) by (auto simp: q one)
      then show ?thesis using Cons.IH [OF step(1)] Cons.prems(2,3) by (simp add: q)
    qed
  qed
  from this [of "case rs of [] \<Rightarrow> 0 | q # _ \<Rightarrow> fst q" "\<lambda>_. None" rs] assms show ?thesis
    by (cases rs) (simp_all add: cache_ok_def image_access_cache_ttl_def)
qed

lemma image_access_fresh_witness:
  "\<exists>t'. 50 - 60 < t' \<and> t' \<le> 50 \<and> answer_of (\<lambda>t n. Some (if t < 30 then ''i1'' else ''i2'')) t' ''n1'' ''i1'' None"
  by (rule image_access_fresh [of "[(0, ''n1'', ''i1''), (50, ''n1'', ''i1'')]"])
    (simp_all add: require_image_access_def node_identity_def anonymous_def image_access_cache_ttl_def Let_def)

end
