(* ===== verification/Accounts_Safety.thy ===== *)
theory Accounts_Safety
  imports Api_Keys Access_Safety
begin

text \<open>
  What the tables of users and keys guarantee: an administrator is left by every sequence of operations that do not overlap, and not by two that do;
  the tables stay in order; the reset of the command line is blocked by the keys; and what the key of a booting node opens.
\<close>

section \<open>The tables stay in order\<close>

definition tables_ok :: "account_db \<Rightarrow> bool" where
  "tables_ok db \<longleftrightarrow> distinct (map ac_id (ad_users db)) \<and> distinct (map k_id (ad_keys db)) \<and> distinct (map k_hash (ad_keys db)) \<and>
     k_user ` set (ad_keys db) \<subseteq> ac_id ` set (ad_users db)"

definition has_admin :: "account_db \<Rightarrow> bool" where
  "has_admin db \<longleftrightarrow> (\<exists>u \<in> set (ad_users db). active_admin u)"

definition other_admin :: "string \<Rightarrow> account_db \<Rightarrow> bool" where
  "other_admin uid db \<longleftrightarrow> (\<exists>u \<in> set (ad_users db). active_admin u \<and> ac_id u \<noteq> uid)"

lemma other_admin_has: "other_admin uid db \<Longrightarrow> has_admin db"
  by (auto simp: other_admin_def has_admin_def)

lemma two_admins_other:
  assumes "tables_ok db" and "count_active_admins db > 1"
  shows "other_admin uid db"
proof (rule ccontr)
  assume no: "\<not> other_admin uid db"
  let ?ids = "map ac_id (filter active_admin (ad_users db))"
  have "distinct ?ids" using assms(1) by (simp add: tables_ok_def distinct_map_filter)
  then have "card (set ?ids) = length ?ids" by (rule distinct_card)
  moreover have "set ?ids \<subseteq> {uid}" using no by (auto simp: other_admin_def)
  then have "card (set ?ids) \<le> card {uid}" by (intro card_mono) simp_all
  ultimately show False using assms(2) by (simp add: count_active_admins_def)
qed

lemma inactive_other:
  assumes "tables_ok db" and "has_admin db" and "get_user db uid = Inr u" and "\<not> active_admin u"
  shows "other_admin uid db"
proof -
  from assms(3) have u: "u \<in> set (ad_users db)" "ac_id u = uid"
    by (auto simp: get_user_def find_Some_iff split: option.splits)
  from assms(2) obtain a where a: "a \<in> set (ad_users db)" "active_admin a" by (auto simp: has_admin_def)
  have "ac_id a \<noteq> uid"
  proof
    assume "ac_id a = uid"
    with u a(1) assms(1) have "a = u" by (auto simp: tables_ok_def distinct_map dest: inj_onD)
    with a(2) assms(4) show False by simp
  qed
  with a show ?thesis by (auto simp: other_admin_def)
qed

text \<open>A statement on the rows of one user.\<close>

definition keeps_ids :: "(account \<Rightarrow> account) \<Rightarrow> bool" where
  "keeps_ids f \<longleftrightarrow> (\<forall>u. ac_id (f u) = ac_id u)"

lemma update_row_ids:
  assumes "update_user_row uid P f db = Inr db'" and "keeps_ids f"
  shows "map ac_id (ad_users db') = map ac_id (ad_users db)" "ad_keys db' = ad_keys db"
  using assms by (auto simp: update_user_row_def keeps_ids_def split: if_splits)

lemma update_row_ok:
  assumes "update_user_row uid P f db = Inr db'" and "keeps_ids f" and "tables_ok db"
  shows "tables_ok db'"
proof -
  have "ac_id ` set (ad_users db') = ac_id ` set (ad_users db)"
    using update_row_ids(1) [OF assms(1,2)] by (metis set_map)
  with update_row_ids [OF assms(1,2)] assms(3) show ?thesis by (simp add: tables_ok_def)
qed

lemma update_row_other:
  assumes "update_user_row uid P f db = Inr db'" and "other_admin uid db"
  shows "other_admin uid db'"
  using assms by (force simp: update_user_row_def other_admin_def split: if_splits)

lemma update_row_admin:
  assumes "update_user_row uid P f db = Inr db'" and f: "\<forall>u. active_admin u \<longrightarrow> active_admin (f u)" and "has_admin db"
  shows "has_admin db'"
proof -
  from assms(3) obtain u where u: "u \<in> set (ad_users db)" "active_admin u" by (auto simp: has_admin_def)
  have "(if ac_id u = uid \<and> P u then f u else u) \<in> set (ad_users db')"
    using assms(1) u(1) by (auto simp: update_user_row_def split: if_splits)
  moreover have "active_admin (if ac_id u = uid \<and> P u then f u else u)" using u(2) f by simp
  ultimately show ?thesis unfolding has_admin_def by blast
qed

lemma keeps_ids_updates [simp]:
  "keeps_ids (\<lambda>u. u\<lparr>ac_role := r\<rparr>)" "keeps_ids (\<lambda>u. u\<lparr>ac_disabled := d\<rparr>)" "keeps_ids (\<lambda>u. u\<lparr>ac_hash := h, ac_must_change := m\<rparr>)"
  by (simp_all add: keeps_ids_def)

lemma role_ok:
  assumes "db_call ok (update_user_role uid r) db = Inr db'"
  shows "tables_ok db \<Longrightarrow> tables_ok db'" "other_admin uid db \<Longrightarrow> other_admin uid db'"
  using assms update_row_ok update_row_other by (auto simp: db_call_def update_user_role_def split: if_splits)

lemma disable_ok:
  assumes "db_call ok (disable_user now uid) db = Inr db'"
  shows "tables_ok db \<Longrightarrow> tables_ok db'" "other_admin uid db \<Longrightarrow> other_admin uid db'"
  using assms update_row_ok update_row_other by (auto simp: db_call_def disable_user_def split: if_splits)

lemma hard_delete_ok:
  assumes "db_call ok (hard_delete_user uid) db = Inr db'"
  shows "tables_ok db \<Longrightarrow> tables_ok db'" "other_admin uid db \<Longrightarrow> other_admin uid db'"
proof -
  from assms have d: "ad_users db' = filter (\<lambda>u. ac_id u \<noteq> uid) (ad_users db)" "ad_keys db' = ad_keys db" "uid \<notin> k_user ` set (ad_keys db)"
    by (auto simp: db_call_def hard_delete_user_def referenced_def split: if_splits)
  show "tables_ok db'" if "tables_ok db"
  proof -
    have "k_user ` set (ad_keys db') \<subseteq> ac_id ` set (ad_users db')"
    proof
      fix x assume "x \<in> k_user ` set (ad_keys db')"
      then have "x \<in> ac_id ` set (ad_users db)" "x \<noteq> uid" using that d by (auto simp: tables_ok_def)
      then show "x \<in> ac_id ` set (ad_users db')" by (auto simp: d(1))
    qed
    with that d show ?thesis by (simp add: tables_ok_def distinct_map_filter)
  qed
  show "other_admin uid db'" if "other_admin uid db" using that by (auto simp: other_admin_def d(1))
qed

lemma create_user_ok:
  assumes "db_call ok (create_user rec) db = Inr db'"
  shows "tables_ok db \<Longrightarrow> tables_ok db'" "has_admin db \<Longrightarrow> has_admin db'"
proof -
  from assms obtain row where row: "ad_users db' = ad_users db @ [row]" "ad_keys db' = ad_keys db" "ac_id row \<notin> ac_id ` set (ad_users db)"
    by (force simp: db_call_def create_user_def Let_def split: if_splits)
  from row show "tables_ok db \<Longrightarrow> tables_ok db'" by (simp add: tables_ok_def subset_insertI2)
  from row show "has_admin db \<Longrightarrow> has_admin db'" by (simp add: has_admin_def)
qed

section \<open>An administrator is left\<close>

definition in_order :: "account_db \<Rightarrow> bool" where
  "in_order db \<longleftrightarrow> tables_ok db \<and> has_admin db"

lemma guard_other: "last_admin_guard ok db = None \<Longrightarrow> tables_ok db \<Longrightarrow> other_admin uid db"
  using two_admins_other by (auto simp: last_admin_guard_def split: if_splits)

lemma load_user_get: "load_user ok uid db = Inr u \<Longrightarrow> get_user db uid = Inr u"
  by (auto simp: load_user_def split: if_splits sum.splits)

text \<open>The state of the database after a handler.\<close>

definition db_after :: "'r \<times> account_db \<times> 'a \<Rightarrow> account_db" where
  "db_after h = fst (snd h)"

lemma db_after_simps [simp]: "db_after (r, db, a) = db"
  by (simp add: db_after_def)

lemma handle_delete_kept:
  assumes "in_order db"
  shows "in_order (db_after (handle_delete io uid db))"
proof (cases "load_user (io Call_Get) uid db")
  case (Inl r)
  then show ?thesis using assms by (simp add: handle_delete_def)
next
  case (Inr u)
  show ?thesis
  proof (cases "if ac_role u = ''admin'' \<and> \<not> is_disabled u then last_admin_guard (io Call_Count_Role) db else None")
    case (Some r)
    then show ?thesis using assms Inr by (simp add: handle_delete_def)
  next
    case None
    have other: "other_admin uid db"
    proof (cases "active_admin u")
      case True
      with None guard_other assms show ?thesis by (simp add: active_admin_def is_disabled_def in_order_def)
    next
      case False
      with inactive_other [OF _ _ load_user_get [OF Inr]] assms show ?thesis by (simp add: in_order_def)
    qed
    show ?thesis
    proof (cases "db_call (io Call_Delete) (hard_delete_user uid) db")
      case (Inl e)
      then show ?thesis using assms Inr None by (simp add: handle_delete_def)
    next
      case (Inr db')
      then show ?thesis
        using assms \<open>load_user (io Call_Get) uid db = Inr u\<close> None hard_delete_ok [OF Inr] other other_admin_has [of uid db']
        by (simp add: handle_delete_def in_order_def)
    qed
  qed
qed

lemma step_kept:
  assumes "in_order db" and "\<And>db'. m = Inr db' \<Longrightarrow> in_order db'"
  shows "in_order (db_after (case m of Inl e \<Rightarrow> (r e, db, a e) | Inr db' \<Rightarrow> (s db', db', b db')))"
  using assms by (cases m) simp_all

lemma in_order_create: "in_order db \<Longrightarrow> db_call ok (create_user rec) db = Inr db' \<Longrightarrow> in_order db'"
  using create_user_ok by (auto simp: in_order_def)

lemma handle_create_kept: "in_order db \<Longrightarrow> in_order (db_after (handle_create io classify hash uid now req db))"
  by (simp add: handle_create_def step_kept in_order_create)

lemma row_kept:
  assumes "in_order db" and "db_call ok (update_user_row uid P f) db = Inr db'" and "keeps_ids f"
    and "\<forall>u. active_admin u \<longrightarrow> active_admin (f u)"
  shows "in_order db'"
  using assms update_row_ok update_row_admin by (auto simp: db_call_def in_order_def split: if_splits)

lemma password_kept:
  assumes "in_order db" and "db_call ok (set_user_password uid hash clear) db = Inr db'"
  shows "in_order db'"
  by (rule row_kept [OF assms(1) assms(2) [unfolded set_user_password_def]]) (simp_all add: active_admin_def)

lemma enable_kept:
  assumes "in_order db" and "db_call ok (enable_user uid) db = Inr db'"
  shows "in_order db'"
  by (rule row_kept [OF assms(1) assms(2) [unfolded enable_user_def]]) (simp_all add: active_admin_def)

lemma handle_reset_kept: "in_order db \<Longrightarrow> in_order (db_after (handle_reset_password io classify hash uid pw db))"
  by (simp add: handle_reset_password_def step_kept password_kept)

lemma handle_enable_kept: "in_order db \<Longrightarrow> in_order (db_after (handle_enable io uid db))"
  by (simp add: handle_enable_def step_kept enable_kept split: sum.split)

lemma operators_kept: "in_order (db\<lparr>ad_operators := ms\<rparr>) \<longleftrightarrow> in_order db"
  by (simp add: in_order_def tables_ok_def has_admin_def)

lemma handle_groups_kept: "in_order db \<Longrightarrow> in_order (db_after (handle_set_group_memberships io uid groups db))"
  by (simp add: handle_set_group_memberships_def operators_kept split: sum.split option.split)

text \<open>
  An update that changes the role leaves another administrator, unless the user was one; so the second part may disable who was none.
\<close>

lemma role_part_kept:
  assumes "in_order db" and "get_user db uid = Inr user" and "update_role_part io uid req user db = Inr db1"
  shows "in_order db1 \<and> (ac_role user \<noteq> ''admin'' \<longrightarrow> other_admin uid db1)"
proof (cases "up_role req \<noteq> '''' \<and> up_role req \<noteq> ac_role user")
  case False
  then have "db1 = db" using assms(3) by (auto simp: update_role_part_def)
  with inactive_other [OF _ _ assms(2)] assms(1) show ?thesis by (simp add: in_order_def active_admin_def)
next
  case True
  let ?g = "if ac_role user = ''admin'' \<and> up_role req \<noteq> ''admin'' then last_admin_guard (io Call_Count_Role) db else None"
  have guard: "?g = None" and upd: "db_call (io Call_Update_Role) (update_user_role uid (up_role req)) db = Inr db1"
    using assms(3) True by (auto simp: update_role_part_def split: option.splits sum.splits if_split_asm)
  have "other_admin uid db"
  proof (cases "ac_role user = ''admin''")
    case admin: True
    with True guard guard_other assms(1) show ?thesis by (simp add: in_order_def)
  next
    case False
    with inactive_other [OF _ _ assms(2)] assms(1) show ?thesis by (simp add: in_order_def active_admin_def)
  qed
  with role_ok [OF upd] assms(1) other_admin_has [of uid db1] show ?thesis by (simp add: in_order_def)
qed

lemma disable_part_kept:
  assumes "in_order db1" and "ac_role user \<noteq> ''admin'' \<longrightarrow> other_admin uid db1" and "disable_part io now uid req user db1 = Inr db2"
  shows "in_order db2"
proof (cases "up_disabled req = Some True \<and> \<not> is_disabled user")
  case False
  then show ?thesis using assms(1,3) by (auto simp: disable_part_def)
next
  case True
  let ?g = "if ac_role user = ''admin'' then last_admin_guard (io Call_Count_Disable) db1 else None"
  have guard: "?g = None" and upd: "db_call (io Call_Disable) (disable_user now uid) db1 = Inr db2"
    using assms(3) True by (auto simp: disable_part_def split: option.splits sum.splits if_split_asm)
  have "other_admin uid db1" using assms(1,2) guard guard_other by (cases "ac_role user = ''admin''") (simp_all add: in_order_def)
  with disable_ok [OF upd] assms(1) other_admin_has [of uid db2] show ?thesis by (simp add: in_order_def)
qed

lemma handle_update_kept:
  assumes "in_order db"
  shows "in_order (db_after (handle_update io now uid req db))"
proof (cases "load_user (io Call_Get) uid db")
  case (Inl r)
  then show ?thesis using assms by (simp add: handle_update_def)
next
  case user: (Inr user)
  show ?thesis
  proof (cases "update_role_part io uid req user db")
    case (Inl r)
    then show ?thesis using assms user by (simp add: handle_update_def)
  next
    case one: (Inr db1)
    note kept = role_part_kept [OF assms load_user_get [OF user] one]
    show ?thesis
    proof (cases "disable_part io now uid req user db1")
      case (Inl r)
      then show ?thesis using assms user one kept by (simp add: handle_update_def)
    next
      case (Inr db2)
      with disable_part_kept [OF _ _ this] kept show ?thesis using assms user one by (simp add: handle_update_def)
    qed
  qed
qed

section \<open>Keys\<close>

lemma create_key_kept:
  assumes "in_order db" and "db_call ok (create_api_key_row k) db = Inr db'"
  shows "in_order db'"
proof -
  from assms(2) have "db' = db\<lparr>ad_keys := ad_keys db @ [k\<lparr>k_revoked := None, k_last_used := None\<rparr>]\<rparr>"
    "k_id k \<notin> k_id ` set (ad_keys db)" "k_hash k \<notin> k_hash ` set (ad_keys db)" "k_user k \<in> ac_id ` set (ad_users db)"
    by (force simp: db_call_def create_api_key_row_def split: if_splits)+
  with assms(1) show ?thesis by (simp add: in_order_def tables_ok_def has_admin_def)
qed

lemma keys_replaced:
  assumes "in_order db" and "map k_id ks = map k_id (ad_keys db)" and "map k_hash ks = map k_hash (ad_keys db)"
    and "map k_user ks = map k_user (ad_keys db)"
  shows "in_order (db\<lparr>ad_keys := ks\<rparr>)"
proof -
  have "k_user ` set ks = k_user ` set (ad_keys db)" using assms(4) by (metis set_map)
  with assms(1-3) show ?thesis by (simp add: in_order_def tables_ok_def has_admin_def)
qed

lemma revoke_and_create_kept:
  assumes "in_order db" and "db_call ok (revoke_and_create now node k) db = Inr db'"
  shows "in_order db'"
proof (rule create_key_kept)
  show "in_order (db\<lparr>ad_keys := revoke_node_keys now node (ad_keys db)\<rparr>)"
    by (rule keys_replaced [OF assms(1)]) (simp_all add: revoke_node_keys_def)
  show "db_call ok (create_api_key_row k) (db\<lparr>ad_keys := revoke_node_keys now node (ad_keys db)\<rparr>) = Inr db'"
    using assms(2) by (simp add: db_call_def revoke_and_create_def split: if_splits)
qed

lemma revoke_key_kept:
  assumes "in_order db" and "db_call ok (revoke_api_key now kid) db = Inr db'"
  shows "in_order db'"
proof -
  have "db' = db\<lparr>ad_keys := map (\<lambda>k. if k_id k = kid \<and> k_revoked k = None then k\<lparr>k_revoked := Some now\<rparr> else k) (ad_keys db)\<rparr>"
    using assms(2) by (simp add: db_call_def revoke_api_key_def split: if_splits)
  moreover have "in_order (db\<lparr>ad_keys := map (\<lambda>k. if k_id k = kid \<and> k_revoked k = None then k\<lparr>k_revoked := Some now\<rparr> else k) (ad_keys db)\<rparr>)"
    by (rule keys_replaced [OF assms(1)]) simp_all
  ultimately show ?thesis by simp
qed

lemma sweep_kept: "in_order db \<Longrightarrow> in_order (fst (sweep_expired_api_keys now db))"
  by (auto simp: sweep_expired_api_keys_def in_order_def tables_ok_def has_admin_def distinct_map_filter Let_def)

lemma resolve_kept:
  assumes "in_order db"
  shows "snd (resolve_bootstrap_admin_id io fr now db) = db"
proof -
  have "ad_users db \<noteq> []" using assms by (auto simp: in_order_def has_admin_def)
  then have "sort_key bootstrap_rank (sort_key ac_created (ad_users db)) \<noteq> []"
    by (metis length_0_conv length_sort)
  then obtain u where "lookup_bootstrap_admin_id db = Some u"
    by (cases "sort_key bootstrap_rank (sort_key ac_created (ad_users db))") (simp_all add: lookup_bootstrap_admin_id_def)
  then show ?thesis by (simp add: resolve_bootstrap_admin_id_def)
qed


lemma resolve_caller_kept: "in_order db \<Longrightarrow> snd (resolve_caller_user_id io fr now i db) = db"
  by (simp add: resolve_caller_user_id_def resolve_kept split: sum.split)

lemma after_resolve_kept:
  assumes "in_order db" and "snd m = db" and "\<And>user raw db'. f user raw db = Inr db' \<Longrightarrow> in_order db'"
  shows "in_order (snd (case m of
      (Inl e, db1) \<Rightarrow> (Inl (g e), db1)
    | (Inr user, db1) \<Rightarrow>
      (case raw of
         None \<Rightarrow> (Inl d, db1)
       | Some r \<Rightarrow> (case f user r db1 of Inl e \<Rightarrow> (Inl (h e), db1) | Inr db2 \<Rightarrow> (Inr (res user r), db2)))))"
proof -
  obtain x where m: "m = (x, db)" using assms(2) by (cases m) auto
  show ?thesis
  proof (cases x)
    case (Inl e)
    with m assms(1) show ?thesis by simp
  next
    case (Inr user)
    show ?thesis
    proof (cases raw)
      case None
      with m Inr assms(1) show ?thesis by simp
    next
      case (Some r)
      then show ?thesis using m Inr assms(1,3) by (cases "f user r db") auto
    qed
  qed
qed

lemma mint_key_kept: "in_order db \<Longrightarrow> in_order (snd (mint_key cr io fr now i scope node label created_by expires db))"
  unfolding mint_key_def by (rule after_resolve_kept) (auto simp: resolve_caller_kept intro: create_key_kept)

lemma create_node_scoped_key_kept: "in_order db \<Longrightarrow> in_order (snd (create_node_scoped_key cr io fr now node db))"
  unfolding create_node_scoped_key_def by (rule after_resolve_kept) (auto simp: resolve_kept intro: revoke_and_create_kept)

lemma handle_key_create_kept:
  assumes "in_order db"
  shows "in_order (db_after (handle_key_create cr parse_time io fr now i req db))"
proof -
  have branch: "in_order (db_after (case mint_key cr io fr now i sc nd lb (i_label i) exp db of
      (Inl e, db') \<Rightarrow> (Inl ((500::nat), ''internal_error''), db', [])
    | (Inr (raw, kid, h), db') \<Rightarrow> (Inr (bearer_prefix sc @ raw, kid, take 12 h), db', [(''api_key.create'', kid)])))"
    for sc nd lb exp
    using mint_key_kept [OF assms, of cr io fr now i sc nd lb "i_label i" exp]
    by (cases "mint_key cr io fr now i sc nd lb (i_label i) exp db") (auto split: sum.split prod.split)
  define ends where "ends = (if kr_expires req = '''' then Some None
      else (case parse_time (kr_expires req) of None \<Rightarrow> None | Some t \<Rightarrow> if t < now then None else Some (Some t)))"
  show ?thesis
    unfolding handle_key_create_def Let_def ends_def [symmetric]
    by (cases ends) (use branch assms in \<open>auto simp only: option.case db_after_simps split: if_split\<close>)
qed

lemma handle_key_revoke_kept:
  assumes "in_order db"
  shows "in_order (db_after (handle_key_revoke io now kid db))"
proof (cases "db_call (io Key_Revoke) (revoke_api_key now kid) db")
  case (Inl e)
  then show ?thesis using assms by (simp add: handle_key_revoke_def split: sum.split)
next
  case (Inr db')
  then show ?thesis using assms revoke_key_kept [OF assms Inr] by (simp add: handle_key_revoke_def split: sum.split)
qed

lemma handle_key_rotate_kept:
  assumes "in_order db"
  shows "in_order (db_after (handle_key_rotate cr io fr now i kid db))"
proof (cases "if io Key_Get then get_api_key db kid else Inl Db_Failed")
  case (Inl e)
  then show ?thesis using assms by (simp add: handle_key_rotate_def)
next
  case old: (Inr old)
  let ?by = "if i_label i = '''' then null_string (k_label old) else i_label i"
  let ?m = "mint_key cr io fr now i (k_scope old) (null_string (k_node old)) (null_string (k_label old)) ?by (k_expires old) db"
  have minted: "in_order (snd ?m)" by (rule mint_key_kept [OF assms])
  show ?thesis
  proof (cases ?m)
    case (Pair x db1)
    with minted have one: "in_order db1" by simp
    show ?thesis
    proof (cases x)
      case (Inl e)
      then show ?thesis using assms old Pair one by (simp add: handle_key_rotate_def)
    next
      case (Inr t)
      then show ?thesis
        using assms old Pair one revoke_key_kept [OF one, of "io Key_Revoke" now kid]
        by (cases "db_call (io Key_Revoke) (revoke_api_key now kid) db1") (auto simp: handle_key_rotate_def split: prod.split)
    qed
  qed
qed


section \<open>Sequences of operations\<close>

lemma rows_kept:
  assumes "in_order db" and "map ac_id us = map ac_id (ad_users db)"
    and "map (\<lambda>u. (ac_role u, ac_disabled u)) us = map (\<lambda>u. (ac_role u, ac_disabled u)) (ad_users db)"
  shows "in_order (db\<lparr>ad_users := us\<rparr>)"
proof -
  have "ac_id ` set us = ac_id ` set (ad_users db)" using assms(2) by (metis set_map)
  moreover have "(\<lambda>u. (ac_role u, ac_disabled u)) ` set us = (\<lambda>u. (ac_role u, ac_disabled u)) ` set (ad_users db)"
    using assms(3) by (metis set_map)
  then have "(''admin'', None) \<in> (\<lambda>u. (ac_role u, ac_disabled u)) ` set us \<longleftrightarrow>
      (''admin'', None) \<in> (\<lambda>u. (ac_role u, ac_disabled u)) ` set (ad_users db)" by simp
  then have "(\<exists>u \<in> set us. active_admin u) \<longleftrightarrow> (\<exists>u \<in> set (ad_users db). active_admin u)"
    by (fastforce simp: active_admin_def image_iff)
  ultimately show ?thesis using assms(1,2) by (simp add: in_order_def tables_ok_def has_admin_def)
qed

lemma set_last_login_kept: "in_order db \<Longrightarrow> in_order (set_last_login now uid db)"
  unfolding set_last_login_def by (rule rows_kept) simp_all

lemma clear_must_change_kept: "in_order db \<Longrightarrow> in_order (clear_all_must_change_password db)"
  unfolding clear_all_must_change_password_def by (rule rows_kept) simp_all

lemma handle_login_kept: "in_order db \<Longrightarrow> in_order (snd (snd (handle_login cr c verify ok now db name pw key)))"
  by (simp add: handle_login_def handle_password_login_def Let_def set_last_login_kept split: sum.split option.split prod.split)

lemma set_password_kept: "in_order db \<Longrightarrow> in_order (snd (set_password cr c verify io now hash uid current db))"
  using password_kept by (auto simp: set_password_def Let_def split: sum.split option.split)

lemma handle_set_password_kept:
  assumes "in_order db"
  shows "in_order (snd (snd (handle_set_password cr c verify io now hash ck current new db)))"
proof (cases ck)
  case None
  then show ?thesis using assms by (simp add: handle_set_password_def)
next
  case (Some v)
  show ?thesis
  proof (cases "validate_fn cr c now v")
    case None
    then show ?thesis using assms Some by (simp add: handle_set_password_def)
  next
    case valid: (Some q)
    obtain p n where q: "q = (p, n)" by (cases q)
    show ?thesis
      using assms Some valid set_password_kept [OF assms, of cr c verify io now hash "p_sub p" current]
      by (cases "set_password cr c verify io now hash (p_sub p) current db")
        (auto simp: handle_set_password_def q split: sum.split password_error.split prod.split)
  qed
qed

lemma bootstrap_default_user_kept: "in_order db \<Longrightarrow> bootstrap_default_user io fr now db = Inr db' \<Longrightarrow> db' = db"
  by (auto simp: bootstrap_default_user_def in_order_def has_admin_def split: if_splits)

lemma bootstrap_admin_key_kept:
  assumes "in_order db"
  shows "in_order (snd (bootstrap_admin_key cr io fr now db))"
proof -
  have "snd (bootstrap_admin_key cr io fr now db) = db \<or>
      (\<exists>k. db_call (io Key_Create) (create_api_key_row k) db = Inr (snd (bootstrap_admin_key cr io fr now db)))"
    using resolve_kept [OF assms, of io fr now]
    by (cases "resolve_bootstrap_admin_id io fr now db") (auto simp: bootstrap_admin_key_def split: sum.split option.split)
  then show ?thesis using assms create_key_kept by auto
qed

text \<open>The operations of the server, with the answers of the calls each makes.\<close>

datatype account_op =
    Op_Create "user_call \<Rightarrow> bool" string string int create_request
  | Op_Update "user_call \<Rightarrow> bool" int string update_request
  | Op_Reset_Password "user_call \<Rightarrow> bool" string string string
  | Op_Enable "user_call \<Rightarrow> bool" string
  | Op_Delete "user_call \<Rightarrow> bool" string
  | Op_Set_Groups "user_call \<Rightarrow> bool" string "string list"
  | Op_Login bool int string string string
  | Op_Set_Password "user_call \<Rightarrow> bool" int string "string option" string string
  | Op_Key_Create "key_call \<Rightarrow> bool" fresh int identity key_request
  | Op_Key_Revoke "key_call \<Rightarrow> bool" int string
  | Op_Key_Rotate "key_call \<Rightarrow> bool" fresh int identity string
  | Op_Node_Key "key_call \<Rightarrow> bool" fresh int string
  | Op_Sweep int
  | Op_Start "key_call \<Rightarrow> bool" fresh int

text \<open>What is the same for all: the hash functions, the secret, the comparison of passwords, the classes of runes and the parser of times.\<close>

record account_env =
  ae_crypto :: crypto
  ae_conf :: auth_conf
  ae_verify :: "string \<Rightarrow> string \<Rightarrow> bool"
  ae_classify :: "string \<Rightarrow> rune_class list"
  ae_parse :: "string \<Rightarrow> int option"

text \<open>The start of the server makes the default user, clears the flags and makes the first key, as far as it gets.\<close>

definition server_start :: "account_env \<Rightarrow> (key_call \<Rightarrow> bool) \<Rightarrow> fresh \<Rightarrow> int \<Rightarrow> account_db \<Rightarrow> account_db" where
  "server_start env io fr now db =
     (case bootstrap_default_user io fr now db of
        Inl e \<Rightarrow> db
      | Inr db1 \<Rightarrow> snd (bootstrap_admin_key (ae_crypto env) io fr now (clear_all_must_change_password db1)))"

fun run_op :: "account_env \<Rightarrow> account_op \<Rightarrow> account_db \<Rightarrow> account_db" where
  "run_op env (Op_Create io hash uid now req) db = db_after (handle_create io (ae_classify env) hash uid now req db)"
| "run_op env (Op_Update io now uid req) db = db_after (handle_update io now uid req db)"
| "run_op env (Op_Reset_Password io hash uid pw) db = db_after (handle_reset_password io (ae_classify env) hash uid pw db)"
| "run_op env (Op_Enable io uid) db = db_after (handle_enable io uid db)"
| "run_op env (Op_Delete io uid) db = db_after (handle_delete io uid db)"
| "run_op env (Op_Set_Groups io uid groups) db = db_after (handle_set_group_memberships io uid groups db)"
| "run_op env (Op_Login ok now name pw key) db =
     snd (snd (handle_login (ae_crypto env) (ae_conf env) (ae_verify env) ok now db name pw key))"
| "run_op env (Op_Set_Password io now hash ck current new) db =
     snd (snd (handle_set_password (ae_crypto env) (ae_conf env) (ae_verify env) io now hash ck current new db))"
| "run_op env (Op_Key_Create io fr now i req) db = db_after (handle_key_create (ae_crypto env) (ae_parse env) io fr now i req db)"
| "run_op env (Op_Key_Revoke io now kid) db = db_after (handle_key_revoke io now kid db)"
| "run_op env (Op_Key_Rotate io fr now i kid) db = db_after (handle_key_rotate (ae_crypto env) io fr now i kid db)"
| "run_op env (Op_Node_Key io fr now node) db = snd (mint_token (ae_crypto env) io fr now node db)"
| "run_op env (Op_Sweep now) db = fst (sweep_expired_api_keys now db)"
| "run_op env (Op_Start io fr now) db = server_start env io fr now db"

lemma mint_token_kept: "in_order db \<Longrightarrow> in_order (snd (mint_token cr io fr now node db))"
  using create_node_scoped_key_kept [of db cr io fr now node]
  by (cases "create_node_scoped_key cr io fr now node db") (auto simp: mint_token_def split: sum.split)

lemma server_start_kept: "in_order db \<Longrightarrow> in_order (server_start env io fr now db)"
  by (auto simp: server_start_def dest: bootstrap_default_user_kept intro: bootstrap_admin_key_kept clear_must_change_kept split: sum.split)

lemmas op_kept = handle_create_kept handle_update_kept handle_reset_kept handle_enable_kept handle_delete_kept handle_groups_kept
  handle_login_kept handle_set_password_kept handle_key_create_kept handle_key_revoke_kept handle_key_rotate_kept mint_token_kept
  sweep_kept server_start_kept

lemma run_op_kept: "in_order db \<Longrightarrow> in_order (run_op env op db)"
  by (cases op) (simp_all add: op_kept)



definition example_user :: "string \<Rightarrow> string \<Rightarrow> account" where
  "example_user uid role = \<lparr>ac_id = uid, ac_name = uid, ac_hash = ''h'', ac_role = role, ac_must_change = False, ac_created = 0,
     ac_last_login = None, ac_disabled = None\<rparr>"

definition example_accounts :: account_db where
  "example_accounts = \<lparr>ad_users = [example_user ''u1'' ''admin'', example_user ''u2'' ''admin''], ad_keys = [], ad_operators = [], ad_refs = [],
     ad_groups = []\<rparr>"

definition example_env :: account_env where
  "example_env = \<lparr>ae_crypto = example_crypto, ae_conf = example_conf, ae_verify = (=), ae_classify = (\<lambda>_. []), ae_parse = (\<lambda>_. None)\<rparr>"

lemma example_accounts_ok: "tables_ok example_accounts \<and> has_admin example_accounts"
  by (simp add: tables_ok_def has_admin_def example_accounts_def example_user_def active_admin_def)


section \<open>Deletions that overlap\<close>

text \<open>
  Each request runs in a goroutine of its own, and the statements of several requests interleave: a deletion reads its user, counts the administrators
  when it must, and deletes.
\<close>

datatype deletion = Del_Load string | Del_Count string | Del_Execute string | Del_Done http_reply

record delete_sys =
  ds_db :: account_db
  ds_reqs :: "nat \<Rightarrow> deletion option"

definition set_req :: "nat \<Rightarrow> deletion \<Rightarrow> delete_sys \<Rightarrow> delete_sys" where
  "set_req i d s = s\<lparr>ds_reqs := (ds_reqs s)(i \<mapsto> d)\<rparr>"

definition after_load :: "string \<Rightarrow> http_reply + account \<Rightarrow> deletion" where
  "after_load uid m =
     (case m of
        Inl r \<Rightarrow> Del_Done r
      | Inr u \<Rightarrow> if ac_role u = ''admin'' \<and> \<not> is_disabled u then Del_Count uid else Del_Execute uid)"

definition after_count :: "string \<Rightarrow> http_reply option \<Rightarrow> deletion" where
  "after_count uid g = (case g of Some r \<Rightarrow> Del_Done r | None \<Rightarrow> Del_Execute uid)"

definition execute_delete :: "nat \<Rightarrow> db_err + account_db \<Rightarrow> delete_sys \<Rightarrow> delete_sys" where
  "execute_delete i m s =
     (case m of
        Inl e \<Rightarrow> set_req i (Del_Done (write_failed e)) s
      | Inr db' \<Rightarrow> (set_req i (Del_Done (204, '''')) s)\<lparr>ds_db := db'\<rparr>)"

inductive delete_step :: "delete_sys \<Rightarrow> delete_sys \<Rightarrow> bool" where
  arrive: "ds_reqs s i = None \<Longrightarrow> uid \<noteq> '''' \<Longrightarrow> delete_step s (set_req i (Del_Load uid) s)"
| load: "ds_reqs s i = Some (Del_Load uid) \<Longrightarrow> delete_step s (set_req i (after_load uid (load_user ok uid (ds_db s))) s)"
| counted: "ds_reqs s i = Some (Del_Count uid) \<Longrightarrow> delete_step s (set_req i (after_count uid (last_admin_guard ok (ds_db s))) s)"
| execute: "ds_reqs s i = Some (Del_Execute uid) \<Longrightarrow> delete_step s (execute_delete i (db_call ok (hard_delete_user uid) (ds_db s)) s)"

lemma set_req_simps [simp]:
  "ds_reqs (set_req i d s) = (ds_reqs s)(i \<mapsto> d)" "ds_db (set_req i d s) = ds_db s"
  by (simp_all add: set_req_def)

lemma delete_alone:
  assumes "ds_reqs s i = Some (Del_Load uid)" and "uid \<noteq> ''''"
  shows "\<exists>s'. delete_step\<^sup>*\<^sup>* s s' \<and> ds_reqs s' i = Some (Del_Done (fst (handle_delete io uid (ds_db s)))) \<and>
    ds_db s' = db_after (handle_delete io uid (ds_db s))"
proof -
  let ?m = "load_user (io Call_Get) uid (ds_db s)"
  define s1 where "s1 = set_req i (after_load uid ?m) s"
  have one: "delete_step s s1" unfolding s1_def by (rule load [OF assms(1)])
  show ?thesis
  proof (cases ?m)
    case (Inl r)
    with one assms(2) show ?thesis
      by (intro exI [of _ s1]) (simp add: s1_def after_load_def handle_delete_def r_into_rtranclp)
  next
    case user: (Inr u)
    let ?guarded = "ac_role u = ''admin'' \<and> \<not> is_disabled u"
    let ?g = "if ?guarded then last_admin_guard (io Call_Count_Role) (ds_db s) else None"
    have "\<exists>s2. delete_step\<^sup>*\<^sup>* s s2 \<and> ds_db s2 = ds_db s \<and> ds_reqs s2 i = Some (after_count uid ?g)"
    proof (cases ?guarded)
      case False
      with one user show ?thesis
        by (intro exI [of _ s1]) (auto simp: s1_def after_load_def after_count_def intro: r_into_rtranclp)
    next
      case True
      then have "ds_reqs s1 i = Some (Del_Count uid)" using user by (simp add: s1_def after_load_def)
      from counted [OF this, of "io Call_Count_Role"] one
      have "delete_step\<^sup>*\<^sup>* s (set_req i (after_count uid (last_admin_guard (io Call_Count_Role) (ds_db s1))) s1)"
        by (meson converse_rtranclp_into_rtranclp r_into_rtranclp)
      then show ?thesis using True by (intro exI conjI) (assumption, simp_all add: s1_def)
    qed
    then obtain s2 where s2: "delete_step\<^sup>*\<^sup>* s s2" "ds_db s2 = ds_db s" "ds_reqs s2 i = Some (after_count uid ?g)" by blast
    show ?thesis
    proof (cases ?g)
      case (Some r)
      with s2 user assms(2) show ?thesis by (intro exI [of _ s2]) (simp add: after_count_def handle_delete_def)
    next
      case None
      then have "ds_reqs s2 i = Some (Del_Execute uid)" using s2(3) by (simp add: after_count_def)
      from execute [OF this, of "io Call_Delete"] s2(1)
      have "delete_step\<^sup>*\<^sup>* s (execute_delete i (db_call (io Call_Delete) (hard_delete_user uid) (ds_db s2)) s2)"
        by (rule rtranclp.rtrancl_into_rtrancl [rotated])
      moreover have "ds_reqs (execute_delete i (db_call (io Call_Delete) (hard_delete_user uid) (ds_db s2)) s2) i =
          Some (Del_Done (fst (handle_delete io uid (ds_db s)))) \<and>
        ds_db (execute_delete i (db_call (io Call_Delete) (hard_delete_user uid) (ds_db s2)) s2) = db_after (handle_delete io uid (ds_db s))"
        using None user assms(2) s2(2)
        by (cases "db_call (io Call_Delete) (hard_delete_user uid) (ds_db s)") (simp_all add: execute_delete_def handle_delete_def)
      ultimately show ?thesis by blast
    qed
  qed
qed

text \<open>Two requests and nothing else.\<close>

definition two_requests :: "account_db \<Rightarrow> deletion \<Rightarrow> deletion \<Rightarrow> delete_sys" where
  "two_requests db x y = \<lparr>ds_db = db, ds_reqs = (\<lambda>_. None)(0 \<mapsto> x, 1 \<mapsto> y)\<rparr>"

lemma two_requests_simps [simp]:
  "ds_db (two_requests db x y) = db" "ds_reqs (two_requests db x y) 0 = Some x" "ds_reqs (two_requests db x y) (Suc 0) = Some y"
  "set_req 0 z (two_requests db x y) = two_requests db z y" "set_req (Suc 0) z (two_requests db x y) = two_requests db x z"
  "(two_requests db x y)\<lparr>ds_db := db'\<rparr> = two_requests db' x y"
  by (simp_all add: two_requests_def set_req_def fun_eq_iff)

lemma two_start:
  assumes "u \<noteq> ''''" and "v \<noteq> ''''"
  shows "delete_step\<^sup>*\<^sup>* \<lparr>ds_db = db, ds_reqs = (\<lambda>_. None)\<rparr> (two_requests db (Del_Load u) (Del_Load v))"
proof -
  let ?s = "\<lparr>ds_db = db, ds_reqs = (\<lambda>_. None)\<rparr>"
  have "delete_step ?s (set_req 0 (Del_Load u) ?s)" by (rule arrive) (simp_all add: assms)
  moreover have "delete_step (set_req 0 (Del_Load u) ?s) (set_req 1 (Del_Load v) (set_req 0 (Del_Load u) ?s))"
    by (rule arrive) (simp_all add: assms)
  moreover have "set_req 1 (Del_Load v) (set_req 0 (Del_Load u) ?s) = two_requests db (Del_Load u) (Del_Load v)"
    by (simp add: two_requests_def set_req_def)
  ultimately show ?thesis by (metis converse_rtranclp_into_rtranclp r_into_rtranclp)
qed

lemma two_loaded:
  assumes "get_user db (ac_id a) = Inr a" and "get_user db (ac_id b) = Inr b" and "active_admin a" and "active_admin b"
  shows "delete_step\<^sup>*\<^sup>* (two_requests db (Del_Load (ac_id a)) (Del_Load (ac_id b))) (two_requests db (Del_Count (ac_id a)) (Del_Count (ac_id b)))"
proof -
  have after: "after_load (ac_id u) (load_user True (ac_id u) db) = Del_Count (ac_id u)" if "get_user db (ac_id u) = Inr u" "active_admin u" for u
    using that by (simp add: after_load_def load_user_def active_admin_def is_disabled_def)
  have "delete_step (two_requests db (Del_Load (ac_id a)) (Del_Load (ac_id b))) (two_requests db (Del_Count (ac_id a)) (Del_Load (ac_id b)))"
    using load [of "two_requests db (Del_Load (ac_id a)) (Del_Load (ac_id b))" 0 "ac_id a" True] after [OF assms(1,3)] by simp
  moreover have "delete_step (two_requests db (Del_Count (ac_id a)) (Del_Load (ac_id b))) (two_requests db (Del_Count (ac_id a)) (Del_Count (ac_id b)))"
    using load [of "two_requests db (Del_Count (ac_id a)) (Del_Load (ac_id b))" "Suc 0" "ac_id b" True] after [OF assms(2,4)] by simp
  ultimately show ?thesis by (meson converse_rtranclp_into_rtranclp r_into_rtranclp)
qed

lemma two_counted:
  assumes "count_active_admins db > 1"
  shows "delete_step\<^sup>*\<^sup>* (two_requests db (Del_Count u) (Del_Count v)) (two_requests db (Del_Execute u) (Del_Execute v))"
proof -
  have after: "after_count w (last_admin_guard True db) = Del_Execute w" for w
    using assms by (simp add: after_count_def last_admin_guard_def)
  have "delete_step (two_requests db (Del_Count u) (Del_Count v)) (two_requests db (Del_Execute u) (Del_Count v))"
    using counted [of "two_requests db (Del_Count u) (Del_Count v)" 0 u True] after by simp
  moreover have "delete_step (two_requests db (Del_Execute u) (Del_Count v)) (two_requests db (Del_Execute u) (Del_Execute v))"
    using counted [of "two_requests db (Del_Execute u) (Del_Count v)" "Suc 0" v True] after by simp
  ultimately show ?thesis by (meson converse_rtranclp_into_rtranclp r_into_rtranclp)
qed

lemma two_executed:
  assumes "hard_delete_user u db = Inr db1" and "hard_delete_user v db1 = Inr db2"
  shows "delete_step\<^sup>*\<^sup>* (two_requests db (Del_Execute u) (Del_Execute v)) (two_requests db2 (Del_Done (204, '''')) (Del_Done (204, '''')))"
proof -
  have "delete_step (two_requests db (Del_Execute u) (Del_Execute v)) (two_requests db1 (Del_Done (204, '''')) (Del_Execute v))"
    using execute [of "two_requests db (Del_Execute u) (Del_Execute v)" 0 u True] assms(1) by (simp add: db_call_def execute_delete_def)
  moreover have "delete_step (two_requests db1 (Del_Done (204, '''')) (Del_Execute v)) (two_requests db2 (Del_Done (204, '''')) (Del_Done (204, '''')))"
    using execute [of "two_requests db1 (Del_Done (204, '''')) (Del_Execute v)" "Suc 0" v True] assms(2)
    by (simp add: db_call_def execute_delete_def)
  ultimately show ?thesis by (meson converse_rtranclp_into_rtranclp r_into_rtranclp)
qed

lemma get_user_in:
  assumes "tables_ok db" and "u \<in> set (ad_users db)"
  shows "get_user db (ac_id u) = Inr u"
proof (cases "find (\<lambda>x. ac_id x = ac_id u) (ad_users db)")
  case None
  with assms(2) show ?thesis by (auto simp: find_None_iff)
next
  case (Some x)
  then have "x \<in> set (ad_users db)" "ac_id x = ac_id u" by (auto simp: find_Some_iff)
  with assms have "x = u" by (auto simp: tables_ok_def distinct_map dest: inj_onD)
  with Some show ?thesis by (simp add: get_user_def)
qed

lemma hard_delete_some:
  "u \<in> set (ad_users db) \<Longrightarrow> \<not> referenced db (ac_id u) \<Longrightarrow> \<exists>db'. hard_delete_user (ac_id u) db = Inr db'"
  by (auto simp: hard_delete_user_def)

text \<open>
  C28. Two deletions that overlap can leave no administrator: both count two before either deletes, both are answered that the user is gone, and nobody
  can log in to manage users any more.
\<close>

theorem admins_lost:
  assumes "tables_ok db" and "filter active_admin (ad_users db) = [a, b]" and "\<not> referenced db (ac_id a)" and "\<not> referenced db (ac_id b)"
    and "ac_id a \<noteq> ''''" and "ac_id b \<noteq> ''''"
  shows "\<exists>s. delete_step\<^sup>*\<^sup>* \<lparr>ds_db = db, ds_reqs = (\<lambda>_. None)\<rparr> s \<and> ds_reqs s 0 = Some (Del_Done (204, '''')) \<and>
    ds_reqs s 1 = Some (Del_Done (204, '''')) \<and> \<not> has_admin (ds_db s)"
proof -
  have set: "{u \<in> set (ad_users db). active_admin u} = {a, b}" using assms(2) by (metis empty_set list.simps(15) set_filter)
  then have ab: "a \<in> set (ad_users db)" "b \<in> set (ad_users db)" "active_admin a" "active_admin b" by blast+
  have "distinct (map ac_id (filter active_admin (ad_users db)))" using assms(1) by (simp add: tables_ok_def distinct_map_filter)
  then have ids: "ac_id a \<noteq> ac_id b" using assms(2) by simp
  have two: "count_active_admins db > 1" using assms(2) by (simp add: count_active_admins_def)
  obtain db1 where one: "hard_delete_user (ac_id a) db = Inr db1" using hard_delete_some [OF ab(1) assms(3)] by blast
  then have db1: "ad_users db1 = filter (\<lambda>u. ac_id u \<noteq> ac_id a) (ad_users db)" "ad_keys db1 = ad_keys db" "ad_refs db1 = ad_refs db"
    by (auto simp: hard_delete_user_def split: if_splits)
  have "\<not> referenced db1 (ac_id b)" using assms(4) db1 by (simp add: referenced_def)
  moreover have "b \<in> set (ad_users db1)" using ab(2) ids db1 by simp
  ultimately obtain db2 where second: "hard_delete_user (ac_id b) db1 = Inr db2" using hard_delete_some by blast
  then have "ad_users db2 = filter (\<lambda>u. ac_id u \<noteq> ac_id b) (ad_users db1)" by (auto simp: hard_delete_user_def split: if_splits)
  with db1 set have none: "\<not> has_admin db2" by (auto simp: has_admin_def)
  have "delete_step\<^sup>*\<^sup>* \<lparr>ds_db = db, ds_reqs = (\<lambda>_. None)\<rparr> (two_requests db2 (Del_Done (204, '''')) (Del_Done (204, '''')))"
    using two_start [OF assms(5,6), of db] two_loaded [OF get_user_in [OF assms(1) ab(1)] get_user_in [OF assms(1) ab(2)] ab(3,4)]
      two_counted [OF two] two_executed [OF one second]
    by (meson rtranclp_trans)
  with none show ?thesis by (intro exI [of _ "two_requests db2 (Del_Done (204, '''')) (Del_Done (204, ''''))"]) simp
qed

lemma admins_lost_witness:
  "\<exists>s. delete_step\<^sup>*\<^sup>* \<lparr>ds_db = example_accounts, ds_reqs = (\<lambda>_. None)\<rparr> s \<and> ds_reqs s 0 = Some (Del_Done (204, '''')) \<and>
    ds_reqs s 1 = Some (Del_Done (204, '''')) \<and> \<not> has_admin (ds_db s)"
  by (rule admins_lost [of example_accounts "example_user ''u1'' ''admin''" "example_user ''u2'' ''admin''"])
    (simp_all add: tables_ok_def example_accounts_def example_user_def active_admin_def referenced_def)


section \<open>The reset of the command line\<close>

text \<open>A user that owns a key cannot be deleted, be the key revoked or past its end.\<close>

lemma owner_stays:
  assumes "k \<in> set (ad_keys db)" and "in_order db"
  shows "hard_delete_user (k_user k) db = Inl Constraint_Failed" "delete_all_users db = Inl Constraint_Failed"
proof -
  from assms obtain u where "u \<in> set (ad_users db)" "ac_id u = k_user k" by (force simp: in_order_def tables_ok_def)
  moreover have "referenced db (k_user k)" using assms(1) by (simp add: referenced_def)
  ultimately show "hard_delete_user (k_user k) db = Inl Constraint_Failed" "delete_all_users db = Inl Constraint_Failed"
    by (force simp: hard_delete_user_def delete_all_users_def)+
qed

lemma key_after_start:
  assumes "bootstrap_admin_key cr io fr now db = (Inr r, db')"
  shows "ad_keys db' \<noteq> []"
  using assms
  by (auto simp: bootstrap_admin_key_def count_api_keys_by_scope_def db_call_def create_api_key_row_def
    split: if_splits prod.splits sum.splits option.splits)

text \<open>
  C32. Once the server has made its first key, or found one, the reset for lost credentials fails whatever its arguments and changes nothing: the keys
  refer to their owners, who therefore cannot be deleted, and no administrator is made.
\<close>

theorem force_reset_blocked:
  assumes "tables_ok db" and "has_admin db" and "bootstrap_admin_key cr io fr now db = (Inr r, db')" and "ba_force a"
  shows "run_bootstrap_admin io' hash_of uid t a db' = (Bootstrap_Failed, db', [])"
proof -
  have order: "in_order db'" using bootstrap_admin_key_kept [of db cr io fr now] assms(1-3) by (simp add: in_order_def)
  obtain k where "k \<in> set (ad_keys db')" using key_after_start [OF assms(3)] by (cases "ad_keys db'") auto
  from owner_stays(2) [OF this order] have "db_call ok delete_all_users db' = Inl (if ok then Constraint_Failed else Db_Failed)" for ok
    by (simp add: db_call_def)
  moreover have "ad_users db' \<noteq> []" using order by (auto simp: in_order_def has_admin_def)
  ultimately have "bootstrap_remove io' a name defaults db' = Inl Bootstrap_Failed" for name defaults
    using assms(4) by (simp add: bootstrap_remove_def)
  then show ?thesis by (simp add: run_bootstrap_admin_def Let_def split: option.split prod.split)
qed

definition example_fresh :: fresh where
  "example_fresh = \<lparr>fr_raw = Some ''r'', fr_hash = Some ''h'', fr_key_id = ''k1'', fr_user_id = ''u9''\<rparr>"

lemma force_reset_blocked_witness:
  "run_bootstrap_admin (\<lambda>_. True) (\<lambda>pw. pw) ''u3'' 5
     \<lparr>ba_username = ''ops'', ba_password = ''Secret123'', ba_force = True, ba_replace = False, ba_bypass = False, ba_env_username = '''',
      ba_env_password = '''', ba_typed_username = None, ba_typed_password = None\<rparr>
     (snd (bootstrap_admin_key example_crypto (\<lambda>_. True) example_fresh 0 example_accounts)) =
   (Bootstrap_Failed, snd (bootstrap_admin_key example_crypto (\<lambda>_. True) example_fresh 0 example_accounts), [])"
proof (rule force_reset_blocked [of example_accounts])
  show "tables_ok example_accounts" "has_admin example_accounts" using example_accounts_ok by simp_all
  have "resolve_bootstrap_admin_id (\<lambda>_. True) example_fresh 0 example_accounts = (Inr ''u1'', example_accounts)"
    by (simp add: resolve_bootstrap_admin_id_def lookup_bootstrap_admin_id_def example_accounts_def example_user_def bootstrap_rank_def lower_char_def)
  then show "bootstrap_admin_key example_crypto (\<lambda>_. True) example_fresh 0 example_accounts =
      (Inr (Some ''clustr-admin-r''), snd (bootstrap_admin_key example_crypto (\<lambda>_. True) example_fresh 0 example_accounts))"
    by (simp add: bootstrap_admin_key_def count_api_keys_by_scope_def example_accounts_def example_fresh_def db_call_def
      create_api_key_row_def new_key_row_def example_user_def)
qed simp

section \<open>The key of a booting node\<close>

text \<open>A request with a key and no session.\<close>

definition bearer_request :: "string \<Rightarrow> http_request" where
  "bearer_request tok = \<lparr>rq_cookie = None, rq_authorization = ''Bearer '' @ tok, rq_token = ''''\<rparr>"

lemma bearer_request_token: "extract_bearer_token (bearer_request tok) = tok"
proof -
  have "split_two CHR '' '' (''Bearer'' @ CHR '' '' # tok) = Some (''Bearer'', tok)"
    by (simp only: split_two_def) (subst index_byte_append, simp_all)
  moreover have "equal_fold ''Bearer'' ''bearer''" by code_simp
  ultimately show ?thesis by (simp add: extract_bearer_token_def bearer_request_def)
qed

lemma find_by_hash:
  assumes "distinct (map k_hash ks)" and "k \<in> set ks"
  shows "find (\<lambda>x. k_hash x = k_hash k) ks = Some k"
proof (cases "find (\<lambda>x. k_hash x = k_hash k) ks")
  case None
  with assms(2) show ?thesis by (auto simp: find_None_iff)
next
  case (Some x)
  then have "x \<in> set ks" "k_hash x = k_hash k" by (auto simp: find_Some_iff)
  with assms have "x = k" by (auto simp: distinct_map dest: inj_onD)
  with Some show ?thesis by simp
qed

lemma node_key_rows:
  assumes "in_order db" and "node \<noteq> ''''" and "create_node_scoped_key cr io fr now node db = (Inr raw, db')"
  obtains k where "ad_keys db' = revoke_node_keys now node (ad_keys db) @ [k]" and "k_hash k = sha256_hex cr raw" and "k_scope k = ''node''"
    and "k_node k = Some node" and "k_revoked k = None" and "k_expires k = Some (now + node_key_ttl)" and "k_id k = fr_key_id fr"
    and "k_label k = Some ''node-deploy-token''"
proof -
  obtain x where x: "resolve_bootstrap_admin_id io fr now db = (x, db)"
    using resolve_kept [OF assms(1), of io fr now] by (cases "resolve_bootstrap_admin_id io fr now db") auto
  from assms(3) obtain user where "x = Inr user" by (cases x) (simp_all add: create_node_scoped_key_def x)
  with assms(3) obtain row where upd: "db_call (io Key_Create) (revoke_and_create now node row) db = Inr db'"
    and row: "row = new_key_row cr fr raw now ''node'' node ''node-deploy-token''
      ''node-scoped deploy token (auto-generated at PXE serve time)'' '''' user (Some (now + node_key_ttl))"
    by (auto simp: create_node_scoped_key_def x split: option.splits sum.splits)
  from upd have "ad_keys db' = revoke_node_keys now node (ad_keys db) @ [row\<lparr>k_revoked := None, k_last_used := None\<rparr>]"
    by (auto simp: db_call_def revoke_and_create_def create_api_key_row_def split: if_splits)
  then show thesis by (rule that) (simp_all add: row new_key_row_def null_if_empty_def assms(2))
qed

text \<open>
  C31. The key that the boot handler makes for a node opens exactly the identity of that node, for the next 24 hours and not a second longer, and from
  that moment every earlier key of the node is refused as revoked: a second boot script, which anyone may ask for, ends the key of the running node.
\<close>

theorem node_key_current:
  assumes "tables_ok db" and "has_admin db" and "node \<noteq> ''''" and "create_node_scoped_key cr io fr now node db = (Inr raw, db')" and "\<not> dev_mode c"
  shows "a_result (api_key_auth cr c \<lparr>kd_keys = ad_keys db', kd_ok = True\<rparr> t (bearer_request (''clustr-node-'' @ raw))) =
      (if t \<le> now + 24 * 60 * 60
       then Inr (anonymous\<lparr>i_scope := ''node'', i_node := node, i_key := fr_key_id fr, i_label := ''node-deploy-token''\<rparr>)
       else Inl Key_Expired) \<and>
    (\<forall>k \<in> set (ad_keys db). k_scope k = ''node'' \<and> k_node k = Some node \<longrightarrow>
      lookup_api_key True (ad_keys db') t (k_hash k) = Inl Key_Is_Revoked)"
proof
  have order: "in_order db" using assms(1,2) by (simp add: in_order_def)
  have order': "in_order db'" using create_node_scoped_key_kept [OF order, of cr io fr now node] assms(4) by simp
  then have hashes: "distinct (map k_hash (ad_keys db'))" by (simp add: in_order_def tables_ok_def)
  obtain k where k: "ad_keys db' = revoke_node_keys now node (ad_keys db) @ [k]" "k_hash k = sha256_hex cr raw" "k_scope k = ''node''"
    "k_node k = Some node" "k_revoked k = None" "k_expires k = Some (now + node_key_ttl)" "k_id k = fr_key_id fr"
    "k_label k = Some ''node-deploy-token''"
    by (rule node_key_rows [OF order assms(3,4)])
  have "find (\<lambda>x. k_hash x = sha256_hex cr raw) (ad_keys db') = Some k"
    using find_by_hash [OF hashes, of k] k(1,2) by simp
  then have look: "lookup_api_key True (ad_keys db') t (sha256_hex cr raw) =
      (if t \<le> now + node_key_ttl then Inr (\<lparr>l_id = fr_key_id fr, l_scope = ''node'', l_node = node, l_label = ''node-deploy-token''\<rparr>, (sha256_hex cr raw, t))
       else Inl Key_Is_Expired)"
    using k by (simp add: lookup_api_key_def null_string_def)
  have strip: "strip_key_prefix (''clustr-node-'' @ raw) = raw" by (simp add: strip_key_prefix_def)
  have "api_key_auth cr c db2 t (bearer_request tok) = bearer_auth cr db2 t (bearer_request tok) Keep_Cookie" for db2 tok
    using assms(5) by (simp add: api_key_auth_def bearer_request_def)
  then show "a_result (api_key_auth cr c \<lparr>kd_keys = ad_keys db', kd_ok = True\<rparr> t (bearer_request (''clustr-node-'' @ raw))) =
      (if t \<le> now + 24 * 60 * 60
       then Inr (anonymous\<lparr>i_scope := ''node'', i_node := node, i_key := fr_key_id fr, i_label := ''node-deploy-token''\<rparr>)
       else Inl Key_Expired)"
    using look strip bearer_request_token [of "''clustr-node-'' @ raw"]
    by (simp add: bearer_auth_def Let_def key_identity_def lookup_refusal_def node_key_ttl_def)
  show "\<forall>k \<in> set (ad_keys db). k_scope k = ''node'' \<and> k_node k = Some node \<longrightarrow>
      lookup_api_key True (ad_keys db') t (k_hash k) = Inl Key_Is_Revoked"
  proof (intro ballI impI)
    fix o' assume o: "o' \<in> set (ad_keys db)" "k_scope o' = ''node'' \<and> k_node o' = Some node"
    define r where "r = (if k_node o' = Some node \<and> k_scope o' = ''node'' \<and> k_revoked o' = None then o'\<lparr>k_revoked := Some now\<rparr> else o')"
    have "r \<in> set (ad_keys db')" using o(1) by (simp add: k(1) revoke_node_keys_def r_def)
    moreover have "k_hash r = k_hash o'" "k_revoked r \<noteq> None" using o(2) by (auto simp: r_def)
    ultimately show "lookup_api_key True (ad_keys db') t (k_hash o') = Inl Key_Is_Revoked"
      using find_by_hash [OF hashes, of r] by (simp add: lookup_api_key_def)
  qed
qed

lemma node_key_current_witness:
  "a_result (api_key_auth example_crypto example_conf
      \<lparr>kd_keys = ad_keys (snd (create_node_scoped_key example_crypto (\<lambda>_. True) example_fresh 0 ''n1'' example_accounts)), kd_ok = True\<rparr>
      90000 (bearer_request ''clustr-node-r'')) = Inl Key_Expired"
proof -
  have "resolve_bootstrap_admin_id (\<lambda>_. True) example_fresh 0 example_accounts = (Inr ''u1'', example_accounts)"
    by (simp add: resolve_bootstrap_admin_id_def lookup_bootstrap_admin_id_def example_accounts_def example_user_def bootstrap_rank_def lower_char_def)
  then have "create_node_scoped_key example_crypto (\<lambda>_. True) example_fresh 0 ''n1'' example_accounts =
      (Inr ''r'', snd (create_node_scoped_key example_crypto (\<lambda>_. True) example_fresh 0 ''n1'' example_accounts))"
    by (simp add: create_node_scoped_key_def example_accounts_def example_fresh_def db_call_def revoke_and_create_def revoke_node_keys_def
      create_api_key_row_def new_key_row_def example_user_def)
  from node_key_current [OF _ _ _ this, of example_conf 90000] example_accounts_ok show ?thesis by (simp add: example_conf_def)
qed


section \<open>What else the handlers do\<close>

text \<open>A login with any password tells that an account is disabled.\<close>

lemma disabled_disclosed:
  "get_user_by_username db name = Inr u \<Longrightarrow> is_disabled u \<Longrightarrow>
    handle_password_login cr c verify True now db name pw = ((401, ''account_disabled''), Keep_Cookie, db)"
  by (simp add: handle_password_login_def login_with_password_def login_refusal_def)

text \<open>An administrator who has logged in with a key cannot make keys: the name of the session is no user.\<close>

lemma key_session_cannot_mint:
  assumes "i_user i = ''key:'' @ kid" and "''key:'' @ kid \<notin> ac_id ` set (ad_users db)"
  shows "\<exists>e. mint_key cr io fr now i scope node label by_whom expires db = (Inl e, db)"
  using assms
  by (auto simp: mint_key_def resolve_caller_user_id_def db_call_def create_api_key_row_def new_key_row_def split: option.split)

text \<open>A reset of the password of an unknown user is answered as a failure of the server.\<close>

lemma reset_unknown_user:
  assumes "uid \<noteq> ''''" and "pw \<noteq> ''''" and "validate_password classify pw = ''''" and "uid \<notin> ac_id ` set (ad_users db)"
  shows "handle_reset_password (\<lambda>_. True) classify hash uid pw db = ((500, ''internal_error''), db, [])"
proof -
  have "set_user_password uid hash False db = Inl No_Row" using assms(4) by (auto simp: set_user_password_def update_user_row_def)
  with assms(1-3) show ?thesis by (simp add: handle_reset_password_def db_call_def)
qed

text \<open>The deletion of a user that owns a key is answered as a failure of the server.\<close>

lemma owner_not_deleted:
  assumes "in_order db" and "k \<in> set (ad_keys db)" and "k_user k \<noteq> ''''" and "count_active_admins db > 1"
  shows "handle_delete (\<lambda>_. True) (k_user k) db = ((500, ''internal_error''), db, [])"
proof -
  obtain u where u: "u \<in> set (ad_users db)" "ac_id u = k_user k" using assms(1,2) by (force simp: in_order_def tables_ok_def)
  then have "get_user db (k_user k) = Inr u" using get_user_in [of db u] assms(1) by (simp add: in_order_def)
  with owner_stays(1) [OF assms(2,1)] assms(3,4) show ?thesis
    by (simp add: handle_delete_def load_user_def last_admin_guard_def db_call_def write_failed_def)
qed

text \<open>A deletion that succeeds removes the row.\<close>

lemma delete_is_hard:
  assumes "handle_delete io uid db = ((204, ''''), db', au)"
  shows "uid \<notin> ac_id ` set (ad_users db')"
  using assms
  by (auto simp: handle_delete_def db_call_def hard_delete_user_def load_user_def last_admin_guard_def write_failed_def
    split: if_split_asm sum.splits option.splits)

text \<open>One update that demotes and disables one of two administrators is refused after the role has been changed.\<close>

lemma update_half_done:
  "handle_update (\<lambda>_. True) 7 ''u1'' \<lparr>up_role = ''viewer'', up_disabled = Some True\<rparr> example_accounts =
    ((409, ''last_admin_user''), example_accounts\<lparr>ad_users := [example_user ''u1'' ''viewer'', example_user ''u2'' ''admin'']\<rparr>, [])"
  by code_simp

text \<open>A page number near the largest int makes the bounds of the slice negative.\<close>

lemma page_out_of_range:
  "handle_list_with_memberships True True ''9223372036854775807'' '''' example_accounts = None"
  by code_simp

text \<open>Where nothing wraps round the pages are slices of the list.\<close>

lemma paginate_bounds:
  assumes "0 \<le> n" and "n \<le> 2 ^ 53" and "page \<le> 2 ^ 53"
  shows "case paginate n page per_page of (start, stop, _, _) \<Rightarrow> 0 \<le> start \<and> start \<le> stop \<and> stop \<le> n"
proof -
  define pp where "pp = (if (if per_page \<le> 0 then 50 else per_page) > 500 then 500 else (if per_page \<le> 0 then 50 else per_page))"
  define pg where "pg = (if page \<le> 0 then 1 else page)"
  have pp: "1 \<le> pp" "pp \<le> 500" by (simp_all add: pp_def)
  have pg: "1 \<le> pg" "pg \<le> 2 ^ 53" using assms(3) by (simp_all add: pg_def)
  have "(pg - 1) * pp \<le> 2 ^ 53 * 500" using pp pg by (intro mult_mono) simp_all
  moreover have "0 \<le> (pg - 1) * pp" using pp pg by simp
  ultimately have w: "wrap64 ((pg - 1) * pp) = (pg - 1) * pp" by (intro wrap64_id) (simp add: int64_def min_int64_def max_int64_def)
  define st where "st = (if (pg - 1) * pp > n then n else (pg - 1) * pp)"
  have st: "0 \<le> st" "st \<le> n" using assms(1) pp pg by (simp_all add: st_def)
  then have "wrap64 (st + pp) = st + pp" using pp assms(2) by (intro wrap64_id) (simp add: int64_def min_int64_def max_int64_def)
  then have "paginate n page per_page = (st, if st + pp > n then n else st + pp, pg, pp)"
    by (simp only: paginate_def Let_def pp_def [symmetric] pg_def [symmetric] w st_def [symmetric])
  with st pp show ?thesis by simp
qed

text \<open>A disabled user whose session is alive can change the password and is given a new session of the same role.\<close>

lemma disabled_user_new_session:
  assumes "get_user db uid = Inr u" and "verify (ac_hash u) current" and "payload_json cr (ac_id u) (ac_role u)"
    and "set_user_password uid hash True db = Inr db'"
  shows "\<exists>t. set_password cr c verify (\<lambda>_. True) now hash uid current db = (Inr (t, now + session_ttl), db')"
proof -
  obtain t where "sign_session_token cr (session_secret c) (new_session_payload now (ac_id u) (ac_role u)) = Some t"
    using sign_some [of cr "new_session_payload now (ac_id u) (ac_role u)" "session_secret c"] assms(3) by (auto simp: new_session_payload_def)
  with assms show ?thesis by (simp add: set_password_def db_call_def Let_def new_session_payload_def)
qed

text \<open>The command line makes node keys without a node, which own nothing.\<close>

lemma node_key_without_node: "k_scope k = ''node'' \<Longrightarrow> k_node k = None \<Longrightarrow> require_node_ownership node (key_row_identity k) = Some Forbidden"
  by (simp add: require_node_ownership_def null_string_def)

text \<open>With a name of its own the replacement of the default administrator removes it.\<close>

lemma replaced_default_gone:
  "get_user_by_username (fst (snd (run_bootstrap_admin (\<lambda>_. True) (\<lambda>pw. pw) ''u3'' 5
     \<lparr>ba_username = ''ops'', ba_password = ''Secret123'', ba_force = False, ba_replace = True, ba_bypass = False, ba_env_username = '''',
      ba_env_password = '''', ba_typed_username = None, ba_typed_password = None\<rparr>
     (example_accounts\<lparr>ad_users := [example_user ''clustr'' ''admin'']\<rparr>)))) ''clustr'' = Inl No_User"
  by code_simp

text \<open>A key made for a user that does not exist is refused, and the tables stay.\<close>

lemma full_key_needs_user:
  assumes "user \<notin> ac_id ` set (ad_users db)"
  shows "\<exists>e. create_api_key_full cr io fr now scope node label by_whom user expires db = (Inl e, db)"
  using assms by (auto simp: create_api_key_full_def Let_def db_call_def create_api_key_row_def new_key_row_def split: option.split)

text \<open>Neither the deletion of a key nor another end of it disturbs the tables.\<close>

lemma key_maintenance_kept:
  assumes "in_order db"
  shows "in_order (delete_api_key kid db)" "in_order (update_api_key_expiry kid e db)"
proof -
  define f :: "key_row \<Rightarrow> key_row" where "f = (\<lambda>k. if k_id k = kid then k\<lparr>k_expires := e\<rparr> else k)"
  have f: "k_id (f k) = k_id k" "k_hash (f k) = k_hash k" "k_user (f k) = k_user k" for k by (simp_all add: f_def)
  have "update_api_key_expiry kid e db = db\<lparr>ad_keys := map f (ad_keys db)\<rparr>" by (simp add: update_api_key_expiry_def f_def)
  then show "in_order (update_api_key_expiry kid e db)"
    using assms by (simp add: in_order_def tables_ok_def has_admin_def f o_def image_image)
  show "in_order (delete_api_key kid db)"
    using assms by (auto simp: in_order_def tables_ok_def has_admin_def delete_api_key_def distinct_map_filter)
qed

end
