(* ===== verification/Spec2Isabelle.thy ===== *)
theory Spec2Isabelle
  imports Selector Posixid Multicast Alert_Engine Rbac Layout_Recommend Reimage_Group Reconcile_Image Dangerous_Push Clientd_Hub Slurm_Upgrade Privhelper_Exports Dhcp_Safety Accounts_Safety
begin

text \<open>
  Verification library of clustr, a server that provisions the nodes of a cluster.

  The program. \<open>clustr-serverd\<close> (\<open>internal/server\<close>) is an HTTP server over an SQLite database
  (\<open>internal/db\<close>). Nodes boot over the network and ask it for a boot script; depending on the state of
  the node the script boots the disk or runs the deploy agent (\<open>cmd/clustr\<close>, \<open>internal/deploy\<close>),
  which registers the node, lays out its disks, unpacks an image and reports back. A reimage is a request
  that an operator makes for a node, at once or for later, or for a group of nodes; many nodes can get an
  image from one multicast session. A running node reports statistics, over which alert rules are evaluated.
  Operators name nodes by selectors and ranges, and what they may do depends on their roles.

  The theories, in the order in which they build on each other:

  \<^item> \<open>Go_Prelude\<close>: results and errors of Go functions, 64-bit integers (\<open>int64\<close>, \<open>wrap64\<close>), numerals
    (\<open>atoi\<close>, \<open>dec_int\<close>), strings and lists, and the collections of simplification rules the others use.
  \<^item> \<open>Hostlist\<close> (\<open>pkg/hostlist/hostlist.go\<close>): \<open>expand\<close> is \<open>Expand\<close>, \<open>compress\<close> is \<open>Compress\<close>. They are inverse
    to each other on the names Compress prints; Expand returns for every pattern without the largest int,
    and does not for a range that ends there.
  \<^item> \<open>Selector\<close> (\<open>internal/selector/selector.go\<close>): the selector's own hostlist parser and \<open>resolve\<close>, refined
    to the set of nodes that the flags select.
  \<^item> \<open>Posixid\<close> (\<open>internal/posixid/allocator.go\<close>, \<open>internal/db/posixid.go\<close>): validation and allocation of
    user and group ids; allocation is equivalent to the least id that validates.
  \<^item> \<open>Multicast\<close> (\<open>internal/multicast\<close> and its tables): ports, group addresses and the scheduler, whose
    goroutines are the program counters of a step relation. Invariants over the reachable states, and
    the liveness of a waiting node.
  \<^item> \<open>Alert_Rules\<close> and \<open>Alert_Engine\<close> (\<open>internal/alerts\<close>): rules and their loading, silences, the store of
    alerts with its cache, and the evaluation, with every call of the database able to fail.
  \<^item> \<open>Rbac\<close> (\<open>internal/auth\<close>): resolution of roles and the permission check.
  \<^item> \<open>Layout_Types\<close>, \<open>Layout_Validate\<close>, \<open>Layout_Select\<close>, \<open>Layout_Recommend\<close> (\<open>internal/image/layout\<close>,
    \<open>internal/server/handlers/layout.go\<close>): disk layouts, their validation, their choice and correction by
    firmware, and their recommendation from the discovered hardware.
  \<^item> \<open>Reimage_State\<close> (tables of \<open>internal/db/db.go\<close>, \<open>NodeConfig.State\<close> of \<open>pkg/api/types.go\<close>, the boot
    handler): nodes, requests and jobs, the state of a node and the answer to its boot.
  \<^item> \<open>Reimage\<close> (\<open>internal/reimage/orchestrator.go\<close>, \<open>internal/power/power.go\<close>, the handlers
    \<open>reimage.go\<close> and \<open>nodes.go\<close>, the workers of \<open>internal/server\<close>): the trigger, the scheduler, the
    handlers, the reports of a node, the reaper and the timeout scanner, and the step relation
    \<open>reimage_step\<close> of the server over them. \<open>evolves\<close> states what a step may do to the requests.
  \<^item> \<open>Reimage_Life\<close>: the properties of reimaging of one node.
  \<^item> \<open>Reimage_Group\<close> (\<open>internal/reimage/group.go\<close> and its callers): the waves of a group, its job and its
    resumption.

  \<^item> \<open>Reconcile_Image\<close> (\<open>internal/server/reconcile_image.go\<close>, \<open>pkg/reconcile\<close>): the pass that compares an
    image with its file, refined to the verdict of a failure matrix; what the guard of a reimage may rely on.
  \<^item> \<open>Config_Observer\<close> (\<open>internal/config\<close>): the registry of configuration plugins, the batches in which they are
    rendered and in what order, the alerts of a batch, the hash of what is rendered.
  \<^item> \<open>Config_Apply\<close> (\<open>internal/clientd/configapply.go\<close>): what a node does with a pushed file, every call able
    to fail: the files it may touch, what an acknowledgement promises, the rollback.
  \<^item> \<open>Dangerous_Push\<close> (\<open>internal/server/handlers/dangerous_push.go\<close> and its tables, the janitor, the plain pushes):
    staging and confirmation. Confirmations overlap, so they are steps of \<open>gate_step\<close>, whose invariant \<open>sys_ok\<close>
    ties every frame to a staged push and to a request that has typed its challenge; a confirmation alone is
    refined to a token with three attempts.
  \<^item> \<open>Clientd_Hub\<close> (\<open>internal/server/clientdhub.go\<close>, \<open>handlers/clientd.go\<close>): the connections to the nodes, the results that
    handlers wait for, the counters of log subscribers and the ring of log entries. The two goroutines of a connection, its displacement
    by a newer one and the pushes are steps of \<open>hub_step\<close> with the invariant \<open>hub_ok\<close>; the ring is refined to the last entries of a log.
  \<^item> \<open>Slurm_Upgrade\<close> (\<open>internal/slurm/upgrade.go\<close> and its tables): rolling upgrades. A run is the list of the tasks it has left, a wait
    for a node being one; \<open>upgrade_step\<close> interleaves runs with pauses, resumptions and rollbacks. \<open>run_ok\<close> ties what a run has
    left to what it has recorded.
  \<^item> \<open>Go_Path\<close> (the functions of Go on paths), \<open>Privhelper\<close>, \<open>Privhelper_Files\<close> (\<open>cmd/clustr-privhelper\<close>): the privilege helper, a setuid
    program. Each verb is a function from the answers of the operating system, the record \<open>os\<close>, to an exit code and the list of its effects; \<open>privhelper\<close>
    is its \<open>main\<close>. \<open>Privhelper_Safety\<close> shows what any caller can make it do, what becomes visible of a password and what is audited,
    \<open>Privhelper_Exports\<close> that its block of the exports is kept as it should be and that a backup can be restored.
  \<^item> \<open>Dhcp\<close> (\<open>internal/pxe/dhcp.go\<close> and the callbacks that \<open>cmd/clustr-serverd/main.go\<close> gives it): the pool of addresses,
    the leases and the replies. A request is answered by a goroutine of its own, so the steps of one, \<open>dhcp_step\<close>, interleave with
    those of others; \<open>acquire\<close> is an assignment that nothing interrupts. \<open>Dhcp_Safety\<close> shows which addresses the pool holds, that
    leases are distinct when assignments do not overlap and that one address is given twice when they do.
  \<^item> \<open>Go_Base64\<close> (the raw URL encoding), \<open>Access\<close> (\<open>internal/server/session.go\<close>, \<open>middleware.go\<close>, \<open>middleware_rbac.go\<close> and the queries
    they make): session tokens, the identity that \<open>api_key_auth\<close> gives a request, and the gates in front of the handlers, which \<open>run_gates\<close>
    composes as the router does. \<open>Access_Safety\<close> shows exactly who passes the gates of the management and of a node, how long a session
    lasts, and how old an answer of the cache of image access may be.
  \<^item> \<open>Accounts\<close> (\<open>internal/db/users.go\<close>, \<open>handlers/users.go\<close>, \<open>handlers/auth.go\<close>), \<open>Api_Keys\<close> (\<open>internal/db/apikeys.go\<close>,
    \<open>handlers/api_keys.go\<close>, \<open>internal/server/apikeys.go\<close>, \<open>cmd/clustr-serverd/bootstrap_admin.go\<close>): users, keys, logins, the keys that the
    server makes for nodes and for itself, and the command that restores an administrator. \<open>Accounts_Safety\<close> shows that operations one after
    the other leave an administrator and keep the tables in order, and what deletions that overlap (\<open>delete_step\<close>), the reset and
    the keys of nodes do.

  How the models are made. A struct is a record with the fields the modelled code uses, an error is a
  constructor of a datatype, an operation that can fail returns a sum or an option, and a call of the database
  or of another process that can fail takes its answer as an argument. Tables are lists of rows; a statement
  that must affect one row fails when there is none. Integers are unbounded where the code cannot overflow and
  wrapped to 64 bits where it can. Time is an argument. A handler of the server runs as a whole, except where
  the code itself gives way: the goroutines of the multicast scheduler, the pauses of the reimage scheduler, the calls of
  a confirmation, the goroutines of a connection, the tasks of an upgrade, the requests for addresses and the deletions of users are steps of their own.

  Interfaces. \<open>newest_row\<close> (\<open>Reimage\<close>) is what the handlers need of the choice of the newest request, which
  the database leaves open for equal times; \<open>key_sort\<close> (\<open>Go_Prelude\<close>) is what is known of
  \<open>sort.Slice\<close>, which is not stable, and \<open>size_sort\<close> (\<open>Layout_Recommend\<close>) is its case of disks by size; the
  hash of instructions (\<open>Config_Observer\<close>) rests on it too. \<open>recent_log\<close> (\<open>Clientd_Hub\<close>) is the contract of a log of bounded
  length, which the ring fulfils. They are interpreted on functions that compute; the laws of the port
  pool and the stores are in the theories that hold them.

  Loops and bounds. Loops over lists are structural recursion. The range loop of \<open>Hostlist\<close> and the scan of
  \<open>Posixid\<close> are functions of fuel, whose lemmas give the amount that is enough (the length of the range plus
  one) and, for the range that ends at the largest int, show that none is. The loop that fills the pool
  of \<open>Dhcp\<close> is a \<open>partial_function\<close>, undefined for a range that ends at the largest address. A run of an upgrade takes at most as many steps as its program weighs (\<open>drive\<close>). The waves of a group are a
  \<open>partial_function\<close>, because a concurrency of zero does not end; with a positive one they do.

  What the properties show. Type and well-formedness: requests, rules and tables in every reachable state.
  Functional behaviour and refinement: selection, role resolution, layout choice, alert evaluation, boot routing,
  the life of a deployment. Round trips: ranges, selectors, documents, layout correction,
  backups. Authorization: who passes a gate, and what a session, a key and a reset are worth. Confinement: pushed files and their confirmation, the programs and files of the privilege helper. Termination and
  liveness: expansion, allocation, sessions, waves. Errors and bounds: exhausted ranges, wrapped sums,
  rejected recommendations, failed deployments and power cycles. Where the code does not do what it says,
  a lemma states what it does.

  Not modelled: HTTP decoding and the middleware that does not decide about access; the JSON of session tokens, the hash functions and the
  parser of times, which are arguments; the deploy agent's work on disks and files
  (\<open>internal/deploy\<close>); image building and the ISO installer; the LDAP, network and system account modules, of
  the Slurm module all but its upgrades; the IPMI and Proxmox providers, whose result is an argument; the
  client daemon but for its configuration files; the templates of the configuration plugins; notifications; the
  command line and the web interface. They are mostly calls of the operating system and of other programs, or
  text and JSON templates. The automatic allocation policy, the differences of BIOS settings, the validation of
  networks and of Slurm configurations and the uploads have logic of their own and could be modelled next.
\<close>

end
